(* ===== verification/Prelude.thy ===== *)
theory Prelude
  imports
    Main
    "HOL-Library.Word"
    "HOL-Library.List_Lexorder"
    "HOL-Library.Product_Lexorder"
    "HOL-Library.Option_ord"
begin

unbundle bit_operations_syntax

text \<open>
  The vocabulary every component of the development shares: machine integers, the outcome of a
  Rust computation, slices and indices that panic out of range, the integer/byte-string
  conversions of the Rust standard library, and the ordered map that stands for
  \<^verbatim>\<open>BTreeMap\<close>.

  Conventions.  \<^verbatim>\<open>u8\<close>, \<^verbatim>\<open>u16\<close>, \<^verbatim>\<open>u32\<close> are words.  \<^verbatim>\<open>usize\<close> and the file offsets (\<^verbatim>\<open>u64\<close>) are
  \<^typ>\<open>nat\<close>; \<^verbatim>\<open>checked_add\<close> on them is written out against \<open>2 ^ 64\<close> (a 64-bit target), and so is
  every subtraction that could go below zero.  Stream offsets (\<^verbatim>\<open>i64\<close>) and times (\<^verbatim>\<open>i128\<close>) are
  \<^typ>\<open>int\<close> with the same explicit checks.
\<close>

type_synonym u8 = "8 word"
type_synonym u16 = "16 word"
type_synonym u32 = "32 word"
type_synonym u64 = "64 word"
type_synonym bytes = "8 word list"

named_theorems outcome_simps \<open>rewrite rules that run a computation in the outcome monad\<close>
named_theorems byte_simps \<open>reading and writing integers as bytes\<close>

declare add_2_eq_Suc [simp del] add_2_eq_Suc' [simp del]

section \<open>Outcomes\<close>

text \<open>
  A fallible Rust function returns \<open>Ok\<close> or \<open>Err\<close>; a slice index out of range (or an
  underflowing subtraction) panics.  Panics are a third outcome, so that their absence is a
  theorem about the model and not an assumption of it.
\<close>

datatype ('e, 'a) outcome = Ok (the_ok: 'a) | Err (the_err: 'e) | Panic

fun and_then :: "('e, 'a) outcome \<Rightarrow> ('a \<Rightarrow> ('e, 'b) outcome) \<Rightarrow> ('e, 'b) outcome" where
  "and_then (Ok x) f = f x"
| "and_then (Err e) f = Err e"
| "and_then Panic f = Panic"

fun map_err :: "('e \<Rightarrow> 'f) \<Rightarrow> ('e, 'a) outcome \<Rightarrow> ('f, 'a) outcome" where
  "map_err f (Ok x) = Ok x"
| "map_err f (Err e) = Err (f e)"
| "map_err f Panic = Panic"

fun ok_or :: "'e \<Rightarrow> 'a option \<Rightarrow> ('e, 'a) outcome" where
  "ok_or e (Some x) = Ok x"
| "ok_or e None = Err e"

definition fails :: "('e, 'a) outcome \<Rightarrow> bool" where
  "fails r \<longleftrightarrow> (\<exists>e. r = Err e)"

lemma and_then_cong [fundef_cong]:
  "m = m' \<Longrightarrow> (\<And>x. m' = Ok x \<Longrightarrow> f x = f' x) \<Longrightarrow> and_then m f = and_then m' f'"
  by (cases m') auto

lemma and_then_eq_Ok [outcome_simps]:
  "and_then m f = Ok y \<longleftrightarrow> (\<exists>x. m = Ok x \<and> f x = Ok y)"
  by (cases m) auto

lemma Ok_eq_and_then [outcome_simps]:
  "Ok y = and_then m f \<longleftrightarrow> (\<exists>x. m = Ok x \<and> f x = Ok y)"
  by (cases m) auto

lemma and_then_eq_Panic [outcome_simps]:
  "and_then m f = Panic \<longleftrightarrow> m = Panic \<or> (\<exists>x. m = Ok x \<and> f x = Panic)"
  by (cases m) auto

lemma and_then_eq_Err [outcome_simps]:
  "and_then m f = Err e \<longleftrightarrow> m = Err e \<or> (\<exists>x. m = Ok x \<and> f x = Err e)"
  by (cases m) auto

lemma and_then_OkE:
  assumes "and_then m f = Ok y"
  obtains x where "m = Ok x" "f x = Ok y"
  using assms by (auto simp: and_then_eq_Ok)

lemma and_then_assoc: "and_then (and_then m f) g = and_then m (\<lambda>x. and_then (f x) g)"
  by (cases m) auto

lemma and_then_no_panic:
  "m \<noteq> Panic \<Longrightarrow> (\<And>x. m = Ok x \<Longrightarrow> f x \<noteq> Panic) \<Longrightarrow> and_then m f \<noteq> Panic"
  by (cases m) auto

lemma ok_or_eq_Ok [outcome_simps]: "ok_or e m = Ok x \<longleftrightarrow> m = Some x"
  by (cases m) auto

lemma ok_or_eq_Err [outcome_simps]: "ok_or e m = Err e' \<longleftrightarrow> m = None \<and> e = e'"
  by (cases m) auto

lemma ok_or_no_panic [simp]: "ok_or e m \<noteq> Panic"
  by (cases m) auto

lemma Panic_neq_ok_or [simp]: "Panic \<noteq> ok_or e m"
  by (cases m) auto

lemma map_err_eq_Ok [outcome_simps]: "map_err f m = Ok x \<longleftrightarrow> m = Ok x"
  by (cases m) auto

lemma map_err_eq_Panic [outcome_simps]: "map_err f m = Panic \<longleftrightarrow> m = Panic"
  by (cases m) auto

text \<open>A \<^verbatim>\<open>for\<close> loop whose body may return early with an error.\<close>

fun for_each :: "('s \<Rightarrow> 'a \<Rightarrow> ('e, 's) outcome) \<Rightarrow> 's \<Rightarrow> 'a list \<Rightarrow> ('e, 's) outcome" where
  "for_each f s [] = Ok s"
| "for_each f s (x # xs) = and_then (f s x) (\<lambda>s'. for_each f s' xs)"

text \<open>
  A postcondition: the computation does not panic, and what it returns satisfies \<open>P\<close>.  The rules
  follow the structure of a computation, in the manner of weakest preconditions.
\<close>

definition yields :: "('e, 'a) outcome \<Rightarrow> ('a \<Rightarrow> bool) \<Rightarrow> bool" where
  "yields m P \<longleftrightarrow> (case m of Ok x \<Rightarrow> P x | Err e \<Rightarrow> True | Panic \<Rightarrow> False)"

lemma yields_simps [simp]:
  "yields (Ok x) P \<longleftrightarrow> P x" "yields (Err e) P" "\<not> yields Panic P"
  by (simp_all add: yields_def)

lemma yields_iff: "yields m P \<longleftrightarrow> m \<noteq> Panic \<and> (\<forall>x. m = Ok x \<longrightarrow> P x)"
  by (cases m) auto

lemma yields_bind: "yields (and_then m f) Q \<longleftrightarrow> yields m (\<lambda>x. yields (f x) Q)"
  by (cases m) auto

lemma yields_ok_or [simp]: "yields (ok_or e m) P \<longleftrightarrow> (\<forall>x. m = Some x \<longrightarrow> P x)"
  by (cases m) auto

lemma yields_mono: "yields m P \<Longrightarrow> (\<And>x. P x \<Longrightarrow> Q x) \<Longrightarrow> yields m Q"
  by (cases m) auto

lemma yields_and_then: "yields m P \<Longrightarrow> (\<And>x. P x \<Longrightarrow> yields (f x) Q) \<Longrightarrow> yields (and_then m f) Q"
  by (cases m) auto

lemma yields_OkD: "yields m P \<Longrightarrow> m = Ok x \<Longrightarrow> P x"
  by simp

lemma yields_for_each:
  assumes "P s" and "\<And>s x. P s \<Longrightarrow> x \<in> set xs \<Longrightarrow> yields (f s x) P"
  shows "yields (for_each f s xs) P"
  using assms
proof (induction xs arbitrary: s)
  case Nil
  then show ?case by simp
next
  case (Cons x xs)
  have "yields (f s x) P" by (rule Cons.prems(2) [OF Cons.prems(1)]) simp
  then show ?case unfolding for_each.simps
  proof (rule yields_and_then)
    fix t
    assume "P t"
    then show "yields (for_each f t xs) P" by (rule Cons.IH) (rule Cons.prems(2), simp_all)
  qed
qed

section \<open>Checked integer arithmetic\<close>

definition usize_limit :: nat where
  "usize_limit = 2 ^ 64"

definition checked_add :: "nat \<Rightarrow> nat \<Rightarrow> nat option" where
  "checked_add a b = (if a + b < usize_limit then Some (a + b) else None)"

definition in_i64 :: "int \<Rightarrow> bool" where
  "in_i64 x \<longleftrightarrow> - (2 ^ 63) \<le> x \<and> x < 2 ^ 63"

definition checked_add_i64 :: "int \<Rightarrow> int \<Rightarrow> int option" where
  "checked_add_i64 a b = (if in_i64 (a + b) then Some (a + b) else None)"

text \<open>An addition on \<^verbatim>\<open>i64\<close> that the code does not check: overflow panics.\<close>

definition i64_add :: "int \<Rightarrow> int \<Rightarrow> ('e, int) outcome" where
  "i64_add a b = (if in_i64 (a + b) then Ok (a + b) else Panic)"

lemma i64_add_ok [simp, outcome_simps]: "in_i64 (a + b) \<Longrightarrow> i64_add a b = Ok (a + b)"
  by (simp add: i64_add_def)

lemma i64_add_eq_Ok: "i64_add a b = Ok c \<longleftrightarrow> in_i64 (a + b) \<and> c = a + b"
  by (auto simp: i64_add_def)

text \<open>A subtraction on unsigned integers that the code does not check: it panics below zero.\<close>

definition usub :: "nat \<Rightarrow> nat \<Rightarrow> ('e, nat) outcome" where
  "usub a b = (if b \<le> a then Ok (a - b) else Panic)"

lemma checked_add_eq_Some: "checked_add a b = Some c \<longleftrightarrow> c = a + b \<and> a + b < usize_limit"
  by (auto simp: checked_add_def)

lemma checked_add_eq_None: "checked_add a b = None \<longleftrightarrow> usize_limit \<le> a + b"
  by (auto simp: checked_add_def)

lemma checked_add_i64_eq_Some: "checked_add_i64 a b = Some c \<longleftrightarrow> c = a + b \<and> in_i64 (a + b)"
  by (auto simp: checked_add_i64_def)

lemma usub_ok [simp, outcome_simps]: "b \<le> a \<Longrightarrow> usub a b = Ok (a - b)"
  by (simp add: usub_def)

lemma usub_eq_Ok: "usub a b = Ok c \<longleftrightarrow> b \<le> a \<and> c = a - b"
  by (auto simp: usub_def)

lemma usub_not_Err [simp]: "usub a b \<noteq> Err e"
  by (simp add: usub_def)

section \<open>Slices\<close>

text \<open>\<^verbatim>\<open>xs[i]\<close>, \<^verbatim>\<open>xs[a..b]\<close>, \<^verbatim>\<open>xs[a..]\<close>: out of range is a panic; \<^verbatim>\<open>xs.get(a..b)\<close> is an option.\<close>

definition index_at :: "'a list \<Rightarrow> nat \<Rightarrow> ('e, 'a) outcome" where
  "index_at xs i = (if i < length xs then Ok (xs ! i) else Panic)"

definition sub_list :: "'a list \<Rightarrow> nat \<Rightarrow> nat \<Rightarrow> 'a list" where
  "sub_list xs a b = take (b - a) (drop a xs)"

definition range_at :: "'a list \<Rightarrow> nat \<Rightarrow> nat \<Rightarrow> ('e, 'a list) outcome" where
  "range_at xs a b = (if a \<le> b \<and> b \<le> length xs then Ok (sub_list xs a b) else Panic)"

definition range_from :: "'a list \<Rightarrow> nat \<Rightarrow> ('e, 'a list) outcome" where
  "range_from xs a = range_at xs a (length xs)"

definition get_range :: "'a list \<Rightarrow> nat \<Rightarrow> nat \<Rightarrow> 'a list option" where
  "get_range xs a b = (if a \<le> b \<and> b \<le> length xs then Some (sub_list xs a b) else None)"

lemma index_at_ok [simp, outcome_simps]: "i < length xs \<Longrightarrow> index_at xs i = Ok (xs ! i)"
  by (simp add: index_at_def)

lemma index_at_eq_Ok: "index_at xs i = Ok x \<longleftrightarrow> i < length xs \<and> x = xs ! i"
  by (auto simp: index_at_def)

lemma index_at_not_Err [simp]: "index_at xs i \<noteq> Err e"
  by (simp add: index_at_def)

lemma range_at_ok [simp, outcome_simps]:
  "a \<le> b \<Longrightarrow> b \<le> length xs \<Longrightarrow> range_at xs a b = Ok (sub_list xs a b)"
  by (simp add: range_at_def)

lemma range_at_eq_Ok:
  "range_at xs a b = Ok ys \<longleftrightarrow> a \<le> b \<and> b \<le> length xs \<and> ys = sub_list xs a b"
  by (auto simp: range_at_def)

lemma range_at_not_Err [simp]: "range_at xs a b \<noteq> Err e"
  by (simp add: range_at_def)

lemma range_from_ok [simp, outcome_simps]:
  "a \<le> length xs \<Longrightarrow> range_from xs a = Ok (drop a xs)"
  by (simp add: range_from_def sub_list_def)

lemma length_sub_list: "b \<le> length xs \<Longrightarrow> length (sub_list xs a b) = b - a"
  by (simp add: sub_list_def)

lemma length_sub_list_ok [simp]: "a \<le> b \<Longrightarrow> b \<le> length xs \<Longrightarrow> length (sub_list xs a b) = b - a"
  by (simp add: length_sub_list)

lemma nth_sub_list: "i < b - a \<Longrightarrow> b \<le> length xs \<Longrightarrow> sub_list xs a b ! i = xs ! (a + i)"
  by (simp add: sub_list_def)

lemma sub_list_same [simp]: "sub_list xs a a = []"
  by (simp add: sub_list_def)

lemma sub_list_append: "b \<le> length xs \<Longrightarrow> sub_list (xs @ ys) a b = sub_list xs a b"
  by (simp add: sub_list_def)

lemma sub_list_append_right [simp]:
  "length xs \<le> a \<Longrightarrow> sub_list (xs @ ys) a b = sub_list ys (a - length xs) (b - length xs)"
  by (simp add: sub_list_def)

lemma sub_list_take: "b \<le> n \<Longrightarrow> sub_list (take n xs) a b = sub_list xs a b"
  by (simp add: sub_list_def drop_take)

lemma sub_list_0 [simp]: "sub_list xs 0 b = take b xs"
  by (simp add: sub_list_def)

lemma sub_list_sub_list:
  "d \<le> b - a \<Longrightarrow> sub_list (sub_list xs a b) c d = sub_list xs (a + c) (a + d)"
  by (simp add: sub_list_def drop_take add.commute)

lemma sub_list_split:
  "a \<le> b \<Longrightarrow> b \<le> c \<Longrightarrow> c \<le> length xs \<Longrightarrow> sub_list xs a b @ sub_list xs b c = sub_list xs a c"
proof -
  assume "a \<le> b" and "b \<le> c" and "c \<le> length xs"
  have "drop b xs = drop (b - a) (drop a xs)" using \<open>a \<le> b\<close> by simp
  then show ?thesis
    using \<open>a \<le> b\<close> \<open>b \<le> c\<close> take_add [of "b - a" "c - b" "drop a xs"] by (simp add: sub_list_def)
qed

lemma map_sub_list: "map f (sub_list xs a b) = sub_list (map f xs) a b"
  by (simp add: sub_list_def take_map drop_map)

end
