(* ===== verification/Byte_Order.thy ===== *)
theory Byte_Order
  imports Prelude
begin

text \<open>
  Integers as bytes: \<^verbatim>\<open>from_be_bytes\<close>, \<^verbatim>\<open>to_le_bytes\<close> and their kin of the Rust standard library, and
  the type \<^verbatim>\<open>Endian\<close> of \<^verbatim>\<open>src/src/capture.rs\<close> whose six methods read and write integers of 16, 32
  and 64 bits in either order.  The lemmas show that reading inverts writing (and, for full
  words, that writing inverts reading), that reading a slice in range never panics, and that it
  depends only on the bytes of the slice.
\<close>

section \<open>Big-endian words\<close>

definition be16_word :: "u8 \<Rightarrow> u8 \<Rightarrow> u16" where
  "be16_word a b = push_bit 8 (ucast a) OR ucast b"

definition be32_word :: "u8 \<Rightarrow> u8 \<Rightarrow> u8 \<Rightarrow> u8 \<Rightarrow> u32" where
  "be32_word a b c d =
     push_bit 24 (ucast a) OR push_bit 16 (ucast b) OR push_bit 8 (ucast c) OR ucast d"

definition be64_word :: "u32 \<Rightarrow> u32 \<Rightarrow> u64" where
  "be64_word a b = push_bit 32 (ucast a) OR ucast b"

definition be16_bytes :: "u16 \<Rightarrow> bytes" where
  "be16_bytes w = [ucast (drop_bit 8 w), ucast w]"

definition be32_bytes :: "u32 \<Rightarrow> bytes" where
  "be32_bytes w = [ucast (drop_bit 24 w), ucast (drop_bit 16 w), ucast (drop_bit 8 w), ucast w]"

definition be64_bytes :: "u64 \<Rightarrow> bytes" where
  "be64_bytes w = be32_bytes (ucast (drop_bit 32 w)) @ be32_bytes (ucast w)"

lemma bit_beyond [simp]:
  "8 \<le> n \<Longrightarrow> \<not> bit (b :: u8) n" "32 \<le> n \<Longrightarrow> \<not> bit (w :: u32) n"
  by (auto dest: bit_imp_le_length)

lemma be16_word_bytes [byte_simps]:
  "be16_word (ucast (drop_bit 8 w)) (ucast w) = w"
  by (rule bit_word_eqI) (auto simp: be16_word_def bit_simps)

lemma be32_word_bytes [byte_simps]:
  "be32_word (ucast (drop_bit 24 w)) (ucast (drop_bit 16 w)) (ucast (drop_bit 8 w)) (ucast w) = w"
proof (rule bit_word_eqI)
  fix n
  assume "n < LENGTH(32)"
  then consider "n < 8" | "8 \<le> n" "n < 16" | "16 \<le> n" "n < 24" | "24 \<le> n" "n < 32"
    by fastforce
  then show "bit (be32_word (ucast (drop_bit 24 w)) (ucast (drop_bit 16 w))
      (ucast (drop_bit 8 w)) (ucast w)) n = bit w n"
    by cases (auto simp: be32_word_def bit_simps)
qed

lemma be64_word_halves [byte_simps]:
  "be64_word (ucast (drop_bit 32 w)) (ucast w) = w"
  by (rule bit_word_eqI) (auto simp: be64_word_def bit_simps)

lemma be16_bytes_word: "be16_bytes (be16_word a b) = [a, b]"
  by (auto simp: be16_bytes_def be16_word_def intro!: bit_word_eqI simp: bit_simps)

lemma be32_bytes_word: "be32_bytes (be32_word a b c d) = [a, b, c, d]"
  by (auto simp: be32_bytes_def be32_word_def intro!: bit_word_eqI simp: bit_simps)

lemma high_half_be64 [byte_simps]: "ucast (drop_bit 32 (be64_word a b)) = a"
  by (auto simp: be64_word_def intro!: bit_word_eqI simp: bit_simps)

lemma low_half_be64 [byte_simps]: "ucast (be64_word a b) = b"
  by (auto simp: be64_word_def intro!: bit_word_eqI simp: bit_simps)

lemma length_be_bytes [simp]:
  "length (be16_bytes v) = 2" "length (be32_bytes w) = 4" "length (be64_bytes x) = 8"
  by (simp_all add: be16_bytes_def be32_bytes_def be64_bytes_def)

lemma unat_be16_word: "unat (be16_word a b) = 256 * unat a + unat b"
proof -
  have "push_bit 8 (ucast a :: u16) OR ucast b = push_bit 8 (ucast a) + ucast b"
    by (rule disjunctive_add [symmetric]) (auto simp: bit_simps dest: bit_imp_le_length)
  moreover have "unat a < 256" "unat b < 256"
    using unsigned_less [where w = a] unsigned_less [where w = b] by simp_all
  ultimately show ?thesis
    by (simp add: be16_word_def push_bit_eq_mult unat_word_ariths unsigned_ucast_eq
        take_bit_eq_mod)
qed

section \<open>The type Endian\<close>

datatype endian = Little | Big

fun endian_u16 :: "endian \<Rightarrow> bytes \<Rightarrow> ('e, u16) outcome" where
  "endian_u16 Little (b0 # b1 # _) = Ok (be16_word b1 b0)"
| "endian_u16 Big (b0 # b1 # _) = Ok (be16_word b0 b1)"
| "endian_u16 _ _ = Panic"

fun endian_u32 :: "endian \<Rightarrow> bytes \<Rightarrow> ('e, u32) outcome" where
  "endian_u32 Little (b0 # b1 # b2 # b3 # _) = Ok (be32_word b3 b2 b1 b0)"
| "endian_u32 Big (b0 # b1 # b2 # b3 # _) = Ok (be32_word b0 b1 b2 b3)"
| "endian_u32 _ _ = Panic"

fun endian_u64 :: "endian \<Rightarrow> bytes \<Rightarrow> ('e, u64) outcome" where
  "endian_u64 Little (b0 # b1 # b2 # b3 # b4 # b5 # b6 # b7 # _) =
     Ok (be64_word (be32_word b7 b6 b5 b4) (be32_word b3 b2 b1 b0))"
| "endian_u64 Big (b0 # b1 # b2 # b3 # b4 # b5 # b6 # b7 # _) =
     Ok (be64_word (be32_word b0 b1 b2 b3) (be32_word b4 b5 b6 b7))"
| "endian_u64 _ _ = Panic"

fun put_u16 :: "endian \<Rightarrow> u16 \<Rightarrow> bytes \<Rightarrow> bytes" where
  "put_u16 Little v out = out @ rev (be16_bytes v)"
| "put_u16 Big v out = out @ be16_bytes v"

fun put_u32 :: "endian \<Rightarrow> u32 \<Rightarrow> bytes \<Rightarrow> bytes" where
  "put_u32 Little v out = out @ rev (be32_bytes v)"
| "put_u32 Big v out = out @ be32_bytes v"

fun put_u64 :: "endian \<Rightarrow> u64 \<Rightarrow> bytes \<Rightarrow> bytes" where
  "put_u64 Little v out = out @ rev (be64_bytes v)"
| "put_u64 Big v out = out @ be64_bytes v"

text \<open>\<^verbatim>\<open>endian.u16(&raw[p..p + 2])\<close> and its 32- and 64-bit forms.\<close>

definition read_u16 :: "endian \<Rightarrow> bytes \<Rightarrow> nat \<Rightarrow> ('e, u16) outcome" where
  "read_u16 e raw p = and_then (range_at raw p (p + 2)) (endian_u16 e)"

definition read_u32 :: "endian \<Rightarrow> bytes \<Rightarrow> nat \<Rightarrow> ('e, u32) outcome" where
  "read_u32 e raw p = and_then (range_at raw p (p + 4)) (endian_u32 e)"

definition read_u64 :: "endian \<Rightarrow> bytes \<Rightarrow> nat \<Rightarrow> ('e, u64) outcome" where
  "read_u64 e raw p = and_then (range_at raw p (p + 8)) (endian_u64 e)"

section \<open>Reading in range\<close>

definition word16_at :: "endian \<Rightarrow> bytes \<Rightarrow> nat \<Rightarrow> u16" where
  "word16_at e xs p =
     (case e of Little \<Rightarrow> be16_word (xs ! (p + 1)) (xs ! p) | Big \<Rightarrow> be16_word (xs ! p) (xs ! (p + 1)))"

definition word32_at :: "endian \<Rightarrow> bytes \<Rightarrow> nat \<Rightarrow> u32" where
  "word32_at e xs p =
     (case e of
        Little \<Rightarrow> be32_word (xs ! (p + 3)) (xs ! (p + 2)) (xs ! (p + 1)) (xs ! p)
      | Big \<Rightarrow> be32_word (xs ! p) (xs ! (p + 1)) (xs ! (p + 2)) (xs ! (p + 3)))"

definition word64_at :: "endian \<Rightarrow> bytes \<Rightarrow> nat \<Rightarrow> u64" where
  "word64_at e xs p =
     (case e of
        Little \<Rightarrow> be64_word (word32_at e xs (p + 4)) (word32_at e xs p)
      | Big \<Rightarrow> be64_word (word32_at e xs p) (word32_at e xs (p + 4)))"

lemma drop_two: "p + 2 \<le> length xs \<Longrightarrow> drop p xs = xs ! p # xs ! (p + 1) # drop (p + 2) xs"
  by (simp add: Cons_nth_drop_Suc numeral_eq_Suc)

lemma drop_four:
  "p + 4 \<le> length xs \<Longrightarrow>
   drop p xs = xs ! p # xs ! (p + 1) # xs ! (p + 2) # xs ! (p + 3) # drop (p + 4) xs"
  using drop_two [of p xs] drop_two [of "p + 2" xs] by (simp add: numeral_eq_Suc)

lemma read_u16_ok [simp, outcome_simps]:
  "p + 2 \<le> length raw \<Longrightarrow> read_u16 e raw p = Ok (word16_at e raw p)"
  by (cases e) (simp_all add: read_u16_def sub_list_def word16_at_def drop_two)

lemma read_u32_ok [simp, outcome_simps]:
  "p + 4 \<le> length raw \<Longrightarrow> read_u32 e raw p = Ok (word32_at e raw p)"
  by (cases e) (simp_all add: read_u32_def sub_list_def word32_at_def drop_four)

lemma read_u64_ok [simp, outcome_simps]:
  assumes "p + 8 \<le> length raw"
  shows "read_u64 e raw p = Ok (word64_at e raw p)"
proof -
  have "drop p raw = raw ! p # raw ! (p + 1) # raw ! (p + 2) # raw ! (p + 3) #
      raw ! (p + 4) # raw ! (p + 5) # raw ! (p + 6) # raw ! (p + 7) # drop (p + 8) raw"
    using assms drop_four [of p raw] drop_four [of "p + 4" raw] by (simp add: numeral_eq_Suc)
  then show ?thesis
    using assms by (cases e) (simp_all add: read_u64_def sub_list_def word64_at_def word32_at_def ac_simps)
qed

lemma read_not_Err [simp]:
  "read_u16 e raw p \<noteq> Err err" "read_u32 e raw p \<noteq> Err err'" "read_u64 e raw p \<noteq> Err err''"
  by (auto simp: read_u16_def read_u32_def read_u64_def and_then_eq_Err
      elim: endian_u16.elims endian_u32.elims endian_u64.elims)

lemma word16_at_append: "p + 2 \<le> length xs \<Longrightarrow> word16_at e (xs @ ys) p = word16_at e xs p"
  by (cases e) (simp_all add: word16_at_def nth_append)

lemma word32_at_append: "p + 4 \<le> length xs \<Longrightarrow> word32_at e (xs @ ys) p = word32_at e xs p"
  by (cases e) (simp_all add: word32_at_def nth_append)

lemma word64_at_append: "p + 8 \<le> length xs \<Longrightarrow> word64_at e (xs @ ys) p = word64_at e xs p"
  by (cases e) (simp_all add: word64_at_def word32_at_append)

lemma word16_at_take: "p + 2 \<le> n \<Longrightarrow> word16_at e (take n xs) p = word16_at e xs p"
  by (cases e) (simp_all add: word16_at_def)

lemma word32_at_take: "p + 4 \<le> n \<Longrightarrow> word32_at e (take n xs) p = word32_at e xs p"
  by (cases e) (simp_all add: word32_at_def)

lemma word32_at_skip: "word32_at e (xs @ ys) (length xs + p) = word32_at e ys p"
  by (cases e) (simp_all add: word32_at_def nth_append)

section \<open>Round trips\<close>

lemma length_put_bytes [simp]:
  "length (put_u16 e v out) = length out + 2"
  "length (put_u32 e w out) = length out + 4"
  "length (put_u64 e x out) = length out + 8"
  by (cases e; simp)+

lemma put_eq_append:
  "put_u16 e v out = out @ put_u16 e v []"
  "put_u32 e w out = out @ put_u32 e w []"
  "put_u64 e x out = out @ put_u64 e x []"
  by (cases e; simp)+

lemma word16_at_put [byte_simps]: "word16_at e (put_u16 e v [] @ ys) 0 = v"
  by (cases e) (simp_all add: word16_at_def be16_bytes_def be16_word_bytes)

lemma word32_at_put [byte_simps]: "word32_at e (put_u32 e v [] @ ys) 0 = v"
  by (cases e) (simp_all add: word32_at_def be32_bytes_def be32_word_bytes)

lemma word64_at_put [byte_simps]: "word64_at e (put_u64 e v [] @ ys) 0 = v"
  by (cases e)
    (simp_all add: word64_at_def word32_at_def be64_bytes_def be32_bytes_def be32_word_bytes
      be64_word_halves)

lemma endian_u16_put: "endian_u16 e (put_u16 e v [] @ ys) = Ok v"
  by (cases e) (simp_all add: be16_bytes_def be16_word_bytes)

lemma endian_u32_put: "endian_u32 e (put_u32 e v [] @ ys) = Ok v"
  by (cases e) (simp_all add: be32_bytes_def be32_word_bytes)

lemma endian_u64_put: "endian_u64 e (put_u64 e v [] @ ys) = Ok v"
  by (cases e)
    (simp_all add: be64_bytes_def be32_bytes_def be32_word_bytes be64_word_halves)

end
