(* ===== verification/Errors.thy ===== *)
theory Errors
  imports Prelude
begin

text \<open>
  \<^verbatim>\<open>src/src/error.rs\<close> and \<^verbatim>\<open>src/src/limits.rs\<close>: the error families, the structured error every
  fallible function returns, and the resource budgets with their validation.
\<close>

section \<open>Error families\<close>

datatype error_code =
    Io | Usage | BadMagic | UnsupportedVersion | Truncated | InvalidLength | LengthMismatch
  | InvalidOption | MissingInterface | InvalidTimestamp | InexactTimestamp | LimitExceeded
  | UnsupportedLink | UnsupportedNetwork | UnsupportedTransport | MalformedPacket | ChecksumError
  | FragmentConflict | SequenceAmbiguous | ProtocolFraming | InvalidIndex | SourceMismatch
  | InvalidLabel | OutputExists | Invariant

fun error_code_as_str :: "error_code \<Rightarrow> string" where
  "error_code_as_str Io = ''io''"
| "error_code_as_str Usage = ''usage''"
| "error_code_as_str BadMagic = ''bad_magic''"
| "error_code_as_str UnsupportedVersion = ''unsupported_version''"
| "error_code_as_str Truncated = ''truncated''"
| "error_code_as_str InvalidLength = ''invalid_length''"
| "error_code_as_str LengthMismatch = ''length_mismatch''"
| "error_code_as_str InvalidOption = ''invalid_option''"
| "error_code_as_str MissingInterface = ''missing_interface''"
| "error_code_as_str InvalidTimestamp = ''invalid_timestamp''"
| "error_code_as_str InexactTimestamp = ''inexact_timestamp''"
| "error_code_as_str LimitExceeded = ''limit_exceeded''"
| "error_code_as_str UnsupportedLink = ''unsupported_link''"
| "error_code_as_str UnsupportedNetwork = ''unsupported_network''"
| "error_code_as_str UnsupportedTransport = ''unsupported_transport''"
| "error_code_as_str MalformedPacket = ''malformed_packet''"
| "error_code_as_str ChecksumError = ''checksum''"
| "error_code_as_str FragmentConflict = ''fragment_conflict''"
| "error_code_as_str SequenceAmbiguous = ''sequence_ambiguous''"
| "error_code_as_str ProtocolFraming = ''protocol_framing''"
| "error_code_as_str InvalidIndex = ''invalid_index''"
| "error_code_as_str SourceMismatch = ''source_mismatch''"
| "error_code_as_str InvalidLabel = ''invalid_label''"
| "error_code_as_str OutputExists = ''output_exists''"
| "error_code_as_str Invariant = ''invariant''"

text \<open>The stable machine-readable names identify the families.\<close>

lemma error_code_as_str_inj: "error_code_as_str a = error_code_as_str b \<longleftrightarrow> a = b"
  by (cases a; cases b; simp)

section \<open>The error value\<close>

record error =
  err_code :: error_code
  err_offset :: nat
  err_field :: string
  err_detail :: string

type_synonym 'a result = "(error, 'a) outcome"

definition error_new :: "error_code \<Rightarrow> nat \<Rightarrow> string \<Rightarrow> string \<Rightarrow> error" where
  "error_new code off fld dtl =
     \<lparr>err_code = code, err_offset = off, err_field = fld, err_detail = dtl\<rparr>"

definition error_limit :: "string \<Rightarrow> error" where
  "error_limit fld = error_new LimitExceeded 0 fld ''configured resource budget exceeded''"

lemma error_new_simps [simp]:
  "err_code (error_new c off f d) = c" "err_offset (error_new c off f d) = off"
  "err_field (error_new c off f d) = f"
  by (simp_all add: error_new_def)

lemma error_limit_code [simp]:
  "err_code (error_limit f) = LimitExceeded" "err_field (error_limit f) = f"
  by (simp_all add: error_limit_def)

text \<open>Decimal output of an unsigned integer, as \<^verbatim>\<open>format!\<close> prints it.\<close>

fun show_nat :: "nat \<Rightarrow> string" where
  "show_nat n =
     (if n < 10 then [char_of (48 + n)] else show_nat (n div 10) @ [char_of (48 + n mod 10)])"

declare show_nat.simps [simp del]

definition error_display :: "error \<Rightarrow> string" where
  "error_display e = error_code_as_str (err_code e) @ '' at byte '' @ show_nat (err_offset e) @
     '' ('' @ err_field e @ ''): '' @ err_detail e"

definition require_len :: "bytes \<Rightarrow> nat \<Rightarrow> nat \<Rightarrow> string \<Rightarrow> unit result" where
  "require_len data cnt off fld =
     (if length data < cnt
      then Err (error_new Truncated off fld
        (''need '' @ show_nat cnt @ '' bytes; have '' @ show_nat (length data)))
      else Ok ())"

lemma require_len_eq_Ok [outcome_simps]:
  "require_len data cnt off fld = Ok u \<longleftrightarrow> cnt \<le> length data"
  by (auto simp: require_len_def)

lemma require_len_ok [simp]: "cnt \<le> length data \<Longrightarrow> require_len data cnt off fld = Ok ()"
  by (simp add: require_len_def)

lemma require_len_no_panic [simp]: "require_len data cnt off fld \<noteq> Panic"
  by (simp add: require_len_def)

lemma require_len_code: "require_len data cnt off fld = Err e \<Longrightarrow> err_code e = Truncated"
  by (auto simp: require_len_def split: if_splits)

section \<open>Resource budgets\<close>

record limits =
  max_input_bytes :: nat
  max_block_bytes :: nat
  max_packet_bytes :: nat
  max_records :: nat
  max_interfaces :: nat
  max_options :: nat
  max_flows :: nat
  max_segments_per_flow :: nat
  max_stream_span :: nat
  max_retained_payload :: nat
  max_fragment_sets :: nat
  max_fragments_per_set :: nat
  fragment_frame_lifetime :: nat
  max_protocol_messages :: nat
  max_application_bytes :: nat
  max_labels :: nat
  max_correlation_checks :: nat

definition limits_default :: limits where
  "limits_default =
     \<lparr>max_input_bytes = 256 * 1024 * 1024,
      max_block_bytes = 16 * 1024 * 1024,
      max_packet_bytes = 1024 * 1024,
      max_records = 1000000,
      max_interfaces = 1024,
      max_options = 4096,
      max_flows = 4096,
      max_segments_per_flow = 16384,
      max_stream_span = 4 * 1024 * 1024,
      max_retained_payload = 64 * 1024 * 1024,
      max_fragment_sets = 1024,
      max_fragments_per_set = 1024,
      fragment_frame_lifetime = 100000,
      max_protocol_messages = 100000,
      max_application_bytes = 1024 * 1024,
      max_labels = 10000,
      max_correlation_checks = 5000000\<rparr>"

lemma limits_default_simps [simp]:
  "max_input_bytes limits_default = 268435456" "max_block_bytes limits_default = 16777216"
  "max_packet_bytes limits_default = 1048576" "max_records limits_default = 1000000"
  "max_interfaces limits_default = 1024" "max_options limits_default = 4096"
  "max_flows limits_default = 4096" "max_segments_per_flow limits_default = 16384"
  "max_stream_span limits_default = 4194304" "max_retained_payload limits_default = 67108864"
  "max_fragment_sets limits_default = 1024" "max_fragments_per_set limits_default = 1024"
  "fragment_frame_lifetime limits_default = 100000" "max_protocol_messages limits_default = 100000"
  "max_application_bytes limits_default = 1048576"
  by (simp_all add: limits_default_def)

definition limits_validate :: "limits \<Rightarrow> unit result" where
  "limits_validate l =
     (let nonzero =
        [max_input_bytes l, max_block_bytes l, max_packet_bytes l, max_records l, max_interfaces l,
         max_options l, max_flows l, max_segments_per_flow l, max_stream_span l,
         max_retained_payload l, max_fragment_sets l, max_fragments_per_set l,
         max_protocol_messages l, max_application_bytes l, max_labels l, max_correlation_checks l]
      in if List.member nonzero 0 \<or> fragment_frame_lifetime l = 0
         then Err (error_new Usage 0 ''limits'' ''all resource limits must be positive'')
         else if max_stream_span l \<ge> 2 ^ 30 \<or> max_block_bytes l < 28
         then Err (error_new Usage 0 ''limits''
           ''stream span must be < 2^30 and block limit >= 28'')
         else Ok ())"

lemma limits_validate_no_panic [simp]: "limits_validate l \<noteq> Panic"
  by (simp add: limits_validate_def Let_def)

lemma limits_validate_default [simp]: "limits_validate limits_default = Ok ()"
  by (simp add: limits_validate_def limits_default_def)

lemma limits_validate_OkD:
  assumes "limits_validate l = Ok u"
  shows "0 < max_input_bytes l" "28 \<le> max_block_bytes l" "0 < max_packet_bytes l"
    "0 < max_records l" "0 < max_interfaces l" "0 < max_options l" "0 < max_flows l"
    "0 < max_segments_per_flow l" "0 < max_stream_span l" "max_stream_span l < 2 ^ 30"
    "0 < max_retained_payload l" "0 < max_fragment_sets l" "0 < max_fragments_per_set l"
    "0 < fragment_frame_lifetime l" "0 < max_protocol_messages l" "0 < max_application_bytes l"
  using assms by (auto simp: limits_validate_def Let_def split: if_splits)

lemma limits_validate_code: "limits_validate l = Err e \<Longrightarrow> err_code e = Usage"
  by (auto simp: limits_validate_def Let_def split: if_splits)

end
