(* ===== verification/Timestamps.thy ===== *)
theory Timestamps
  imports Errors
begin

text \<open>
  \<^verbatim>\<open>src/src/time.rs\<close>: capture clocks as ticks, a resolution and a signed offset, and their exact
  conversions.  The lemmas show that the resolution octet of PCAPNG round-trips, that a conversion
  to nanoseconds succeeds exactly when the instant is an integral number of nanoseconds (no
  rounding, no overflow), and that classic PCAP timestamps round-trip.
\<close>

datatype resolution = Decimal u8 | Binary u8

fun resolution_from_pcapng :: "u8 \<Rightarrow> resolution" where
  "resolution_from_pcapng v = (if v AND 0x80 = 0 then Decimal v else Binary (v AND 0x7f))"

definition exponent_error :: error where
  "exponent_error = error_new InvalidTimestamp 0 ''resolution'' ''exponent exceeds 127''"

fun resolution_to_pcapng :: "resolution \<Rightarrow> u8 result" where
  "resolution_to_pcapng (Decimal x) = (if x \<le> 127 then Ok x else Err exponent_error)"
| "resolution_to_pcapng (Binary x) = (if x \<le> 127 then Ok (x OR 0x80) else Err exponent_error)"

record timestamp =
  ticks :: u64
  ts_resolution :: resolution
  offset_seconds :: int

definition timestamp_legacy :: "u32 \<Rightarrow> u32 \<Rightarrow> bool \<Rightarrow> timestamp result" where
  "timestamp_legacy seconds fraction nanos =
     (let scale = (if nanos then 1000000000 else 1000000 :: u64)
      in if ucast fraction \<ge> scale
         then Err (error_new InvalidTimestamp 0 ''timestamp_fraction''
           ''fraction exceeds one second'')
         else Ok \<lparr>ticks = ucast seconds * scale + ucast fraction,
                  ts_resolution = Decimal (if nanos then 9 else 6),
                  offset_seconds = 0\<rparr>)"

definition inexact_error :: error where
  "inexact_error = error_new InexactTimestamp 0 ''timestamp''
     ''not exactly representable as signed nanoseconds''"

text \<open>\<^verbatim>\<open>10u128.checked_pow(n)\<close>, \<^verbatim>\<open>1u128.checked_shl(n)\<close>, \<^verbatim>\<open>i128::checked_add\<close>.\<close>

definition checked_pow10 :: "nat \<Rightarrow> nat option" where
  "checked_pow10 n = (if 10 ^ n < (2 :: nat) ^ 128 then Some (10 ^ n) else None)"

definition checked_shl1 :: "nat \<Rightarrow> nat option" where
  "checked_shl1 n = (if n < 128 then Some (2 ^ n) else None)"

definition in_i128 :: "int \<Rightarrow> bool" where
  "in_i128 x \<longleftrightarrow> - (2 ^ 127) \<le> x \<and> x < 2 ^ 127"

fun nanos_part :: "resolution \<Rightarrow> nat \<Rightarrow> nat result" where
  "nanos_part (Decimal e) t =
     (if e \<le> 9 then Ok (t * 10 ^ (9 - unat e))
      else if t = 0 then Ok 0
      else and_then (ok_or inexact_error (checked_pow10 (unat e - 9)))
        (\<lambda>divisor. if t mod divisor \<noteq> 0 then Err inexact_error else Ok (t div divisor)))"
| "nanos_part (Binary e) t =
     and_then (ok_or inexact_error (checked_shl1 (unat e)))
       (\<lambda>divisor.
          let numerator = t * 1000000000
          in if numerator mod divisor \<noteq> 0 then Err inexact_error else Ok (numerator div divisor))"

definition unix_nanos :: "timestamp \<Rightarrow> int result" where
  "unix_nanos ts =
     and_then (resolution_to_pcapng (ts_resolution ts)) (\<lambda>_.
     and_then (nanos_part (ts_resolution ts) (unat (ticks ts))) (\<lambda>part.
       if int part < 2 ^ 127
       then (let s = int part + offset_seconds ts * 1000000000
             in if in_i128 s then Ok s else Err inexact_error)
       else Err inexact_error))"

definition legacy_parts :: "timestamp \<Rightarrow> bool \<Rightarrow> (u32 \<times> u32) result" where
  "legacy_parts ts nanos =
     and_then (unix_nanos ts) (\<lambda>v.
       if v < 0
       then Err (error_new InvalidTimestamp 0 ''timestamp''
         ''classic PCAP cannot represent negative seconds'')
       else if v div 1000000000 \<ge> 2 ^ 32
       then Err (error_new InvalidTimestamp 0 ''timestamp'' ''seconds exceed classic PCAP u32'')
       else (let fraction = v mod 1000000000
             in if \<not> nanos \<and> fraction mod 1000 \<noteq> 0
                then Err (error_new InexactTimestamp 0 ''timestamp''
                  ''would discard sub-microsecond precision'')
                else Ok (of_int (v div 1000000000),
                         of_int (if nanos then fraction else fraction div 1000))))"

section \<open>The resolution octet\<close>

definition resolution_ok :: "resolution \<Rightarrow> bool" where
  "resolution_ok r \<longleftrightarrow> (case r of Decimal e \<Rightarrow> e \<le> 127 | Binary e \<Rightarrow> e \<le> 127)"

lemma bit_int_127: "bit (127 :: int) n \<longleftrightarrow> n < 7" 
proof -
  have "(127 :: int) = mask 7" by (simp add: mask_eq_exp_minus_1)
  then show ?thesis by (simp only: bit_mask_iff) (auto simp add: possible_bit_def)
qed

lemma bit_int_128: "bit (128 :: int) n \<longleftrightarrow> n = 7" 
proof -
  have "(128 :: int) = 2 ^ 7" by simp
  then show ?thesis by (simp only: bit_exp_iff) (auto simp add: possible_bit_def)
qed

lemma octet_le_127: "(x :: u8) \<le> 127 \<longleftrightarrow> \<not> bit x 7"
proof -
  have "bit x 7 \<longleftrightarrow> bit (unat x) 7" by (simp add: bit_unsigned_iff)
  also have "... \<longleftrightarrow> odd (unat x div 128)"
    by (simp add: bit_iff_odd)
  finally have "bit x 7 \<longleftrightarrow> odd (unat x div 128)" .
  moreover have "unat x < 256" using unsigned_less[where w=x] by simp
  ultimately show ?thesis 
    by (cases "unat x < 128") (auto simp: word_le_nat_alt div_if)
qed

lemma bit_index_7: "n < 8 \<Longrightarrow> n \<noteq> 7 \<Longrightarrow> n < (7::nat)" by arith

lemma octet_high_bit: "(x :: u8) AND 0x80 = 0 \<longleftrightarrow> x \<le> 127"
  by (auto simp: octet_le_127 bit_simps bit_int_128 intro!: bit_word_eqI dest!: arg_cong [where f = "\<lambda>w. bit w 7"])

lemma octet_low_bits: "\<not> (x :: u8) \<le> 127 \<Longrightarrow> (x AND 0x7f) \<le> 127 \<and> (x AND 0x7f) OR 0x80 = x"
  by (auto simp: octet_le_127 bit_simps bit_int_127 bit_int_128 intro!: bit_word_eqI intro: bit_index_7) 

lemma octet_set_high: "(x :: u8) \<le> 127 \<Longrightarrow> \<not> (x OR 0x80) \<le> 127 \<and> (x OR 0x80) AND 0x7f = x"
  by (auto simp: octet_le_127 bit_simps bit_int_127 bit_int_128 intro!: bit_word_eqI bit_index_7)

lemma resolution_from_pcapng_ok: "resolution_ok (resolution_from_pcapng v)"
  using octet_high_bit octet_low_bits by (simp add: resolution_ok_def)

lemma resolution_octet_roundtrip: "resolution_to_pcapng (resolution_from_pcapng v) = Ok v"
  using octet_high_bit octet_low_bits by simp

lemma resolution_roundtrip:
  "resolution_to_pcapng r = Ok v \<longleftrightarrow> resolution_ok r \<and> r = resolution_from_pcapng v"
proof
  assume v: "resolution_to_pcapng r = Ok v"
  show "resolution_ok r \<and> r = resolution_from_pcapng v"
  proof (cases r)
    case (Decimal x)
    with v octet_high_bit show ?thesis by (auto simp: resolution_ok_def split: if_splits)
  next
    case (Binary x)
    with v have x: "x \<le> 127" "v = x OR 0x80" by (auto split: if_splits)
    from octet_set_high [OF x(1)] have "\<not> v \<le> 127" "v AND 0x7f = x" unfolding x(2) by blast+
    with octet_high_bit have "resolution_from_pcapng v = Binary x" by simp
    with Binary x(1) show ?thesis by (simp add: resolution_ok_def)
  qed
qed (use resolution_octet_roundtrip in blast)

lemma resolution_to_pcapng_cases:
  "resolution_to_pcapng r = (if resolution_ok r then Ok (the_ok (resolution_to_pcapng r))
     else Err exponent_error)"
  by (cases r) (simp_all add: resolution_ok_def)

section \<open>Exact nanoseconds\<close>

text \<open>Ticks per second of a resolution.\<close>

definition tick_rate :: "resolution \<Rightarrow> nat" where
  "tick_rate r = (case r of Decimal e \<Rightarrow> 10 ^ unat e | Binary e \<Rightarrow> 2 ^ unat e)"

lemma tick_rate_pos [simp]: "0 < tick_rate r"
  by (cases r) (simp_all add: tick_rate_def)

lemma pow10_large: "\<not> (10::nat) ^ n < 2 ^ 128 \<Longrightarrow> (2::nat) ^ 64 < 10 ^ n"
  by (rule less_le_trans [of _ "2 ^ 128"]) simp_all

lemma u8_le_unat: "(x :: u8) \<le> 9 \<longleftrightarrow> unat x \<le> 9" "(x :: u8) \<le> 127 \<longleftrightarrow> unat x \<le> 127"
  by (simp_all add: word_le_nat_alt)

lemma nanos_part_dvd:
  assumes t: "t < 2 ^ 64" and ok: "resolution_ok r"
  shows "nanos_part r t =
    (if tick_rate r dvd t * 10 ^ 9 then Ok (t * 10 ^ 9 div tick_rate r) else Err inexact_error)"
proof (cases r)
  case (Binary e)
  with ok show ?thesis
    by (auto simp: tick_rate_def resolution_ok_def checked_shl1_def u8_le_unat dvd_eq_mod_eq_0)
next
  case (Decimal e)
  show ?thesis
  proof (cases "unat e \<le> 9")
    case True
    then have "(10::nat) ^ unat e * 10 ^ (9 - unat e) = 10 ^ 9"
      by (simp flip: power_add)
    then have "t * 10 ^ 9 = 10 ^ unat e * (t * 10 ^ (9 - unat e))"
      by (metis mult.left_commute)
    then show ?thesis
      using Decimal True by (simp only: tick_rate_def) (simp add: u8_le_unat)
  next
    case False
    let ?d = "10 ^ (unat e - 9) :: nat"
    have d: "(10::nat) ^ unat e = ?d * 10 ^ 9"
      using False by (simp only: flip: power_add) simp
    have dvd: "tick_rate r dvd t * 10 ^ 9 \<longleftrightarrow> ?d dvd t"
      using Decimal by (simp add: tick_rate_def d)
    have div: "t * 10 ^ 9 div tick_rate r = t div ?d"
      using Decimal by (simp add: tick_rate_def d)
    have big: "\<not> ?d dvd t" if "t \<noteq> 0" "\<not> ?d < 2 ^ 128"
      using pow10_large [OF that(2)] t that(1) by (auto dest: dvd_imp_le)
    show ?thesis
      unfolding dvd div using Decimal False big
      by (auto simp: u8_le_unat checked_pow10_def dvd_eq_mod_eq_0)
  qed
qed

lemma nanos_part_bound:
  assumes "t < 2 ^ 64"
  shows "t * 10 ^ 9 div tick_rate r < 2 ^ 94"
proof -
  have "t * 10 ^ 9 div tick_rate r \<le> t * 10 ^ 9" by (rule div_le_dividend)
  also have "\<dots> < 2 ^ 64 * 10 ^ 9" using assms by simp
  also have "\<dots> < (2::nat) ^ 94" by simp
  finally show ?thesis .
qed

lemma u64_less: "unat (x :: u64) < 2 ^ 64"
  using unsigned_less [where w = x] by simp

lemma unix_nanos_eq:
  assumes off: "in_i64 (offset_seconds ts)" and ok: "resolution_ok (ts_resolution ts)"
  shows "unix_nanos ts =
    (if tick_rate (ts_resolution ts) dvd unat (ticks ts) * 10 ^ 9
     then Ok (int (unat (ticks ts) * 10 ^ 9 div tick_rate (ts_resolution ts))
              + offset_seconds ts * 10 ^ 9)
     else Err inexact_error)"
proof -
  let ?p = "unat (ticks ts) * 10 ^ 9 div tick_rate (ts_resolution ts)"
  have p: "int ?p < 2 ^ 94" using nanos_part_bound [OF u64_less] by (simp flip: of_nat_power)
  then have "int ?p < 2 ^ 127" by (rule less_trans) simp
  moreover have "in_i128 (int ?p + offset_seconds ts * 1000000000)"
    using p off by (simp add: in_i128_def in_i64_def)
  moreover obtain v where "resolution_to_pcapng (ts_resolution ts) = Ok v"
    using ok resolution_to_pcapng_cases by metis
  ultimately show ?thesis
    using nanos_part_dvd [OF u64_less ok] by (simp add: unix_nanos_def Let_def)
qed

lemma unix_nanos_bad_resolution:
  "\<not> resolution_ok (ts_resolution ts) \<Longrightarrow> unix_nanos ts = Err exponent_error"
  using resolution_to_pcapng_cases [of "ts_resolution ts"] by (simp add: unix_nanos_def)

lemma unix_nanos_exact:
  assumes "in_i64 (offset_seconds ts)"
  shows "unix_nanos ts = Ok n \<longleftrightarrow>
    resolution_ok (ts_resolution ts) \<and>
    (n - offset_seconds ts * 10 ^ 9) * int (tick_rate (ts_resolution ts)) =
      int (unat (ticks ts)) * 10 ^ 9"
proof (cases "resolution_ok (ts_resolution ts)")
  case True
  let ?r = "tick_rate (ts_resolution ts)" and ?t = "unat (ticks ts) * 10 ^ 9"
  have "(\<exists>k. ?t = ?r * k \<and> n - offset_seconds ts * 10 ^ 9 = int k) \<longleftrightarrow>
      (n - offset_seconds ts * 10 ^ 9) * int ?r = int ?t" (is "?L \<longleftrightarrow> ?R")
  proof
    assume ?R
    moreover have "0 < int ?r" by simp
    ultimately have "0 \<le> n - offset_seconds ts * 10 ^ 9"
      by (metis zero_le_mult_iff of_nat_0_le_iff order.strict_iff_not)
    then obtain k where k: "n - offset_seconds ts * 10 ^ 9 = int k"
      using nonneg_int_cases by blast
    with \<open>?R\<close> have "int ?t = int (?r * k)" by (simp add: mult.commute)
    then have "?t = ?r * k" by (simp only: of_nat_eq_iff)
    with k show ?L by blast
  qed (auto simp: mult.commute simp flip: of_nat_mult)
  moreover have "unix_nanos ts = Ok n \<longleftrightarrow> ?L"
    by (auto simp: unix_nanos_eq [OF assms True] elim!: dvdE)
  ultimately show ?thesis using True by (simp add: mult.commute)
qed (simp add: unix_nanos_bad_resolution)

section \<open>Classic PCAP timestamps\<close>

lemma u32_less: "unat (x :: u32) < 2 ^ 32"
  using unsigned_less [where w = x] by simp

lemma unat_ucast_32_64: "unat (ucast (x :: u32) :: u64) = unat x"
proof -
  have "unat x < 2 ^ 64" by (rule less_trans [OF u32_less]) simp
  then show ?thesis by (simp add: unsigned_ucast_eq take_bit_nat_eq_self)
qed

definition scale_of :: "bool \<Rightarrow> nat" where
  "scale_of nanos = (if nanos then 10 ^ 9 else 10 ^ 6)"

lemma fraction_cmp:
  "(ucast (f :: u32) \<ge> (if nanos then 1000000000 else 1000000 :: u64)) = (\<not> unat f < scale_of nanos)"
proof -
  have "unat (if nanos then 1000000000 else 1000000 :: u64) = scale_of nanos"
    by (simp add: scale_of_def)
  then show ?thesis by (simp only: word_le_nat_alt unat_ucast_32_64 not_less)
qed

lemma timestamp_legacy_eq_Ok:
  "timestamp_legacy s f nanos = Ok ts \<longleftrightarrow>
     unat f < scale_of nanos \<and>
     unat (ticks ts) = unat s * scale_of nanos + unat f \<and>
     ts_resolution ts = Decimal (if nanos then 9 else 6) \<and> offset_seconds ts = 0"
proof -
  let ?scale = "if nanos then 1000000000 else 1000000 :: u64"
  have sc: "unat ?scale = scale_of nanos" by (simp add: scale_of_def)
  have "unat s * scale_of nanos + unat f < 2 ^ 64" if "unat f < scale_of nanos"
    using that u32_less [of s] by (auto simp: scale_of_def)
  then have "unat (ucast s * ?scale + ucast f) = unat s * scale_of nanos + unat f"
    if "unat f < scale_of nanos"
    using that by (simp add: unat_word_ariths sc unat_ucast_32_64)
  then show ?thesis
    by (cases ts) (auto simp: timestamp_legacy_def Let_def fraction_cmp word_unat_eq_iff)
qed

lemma unix_nanos_legacy:
  assumes "timestamp_legacy s f nanos = Ok ts"
  shows "unix_nanos ts = Ok (int (unat s * 10 ^ 9 + unat f * (10 ^ 9 div scale_of nanos)))"
  using assms
  by (auto simp: timestamp_legacy_eq_Ok unix_nanos_exact in_i64_def resolution_ok_def
      tick_rate_def scale_of_def)

lemma pack_div: "0 \<le> r \<Longrightarrow> r < 1000000000 \<Longrightarrow> (s * 1000000000 + r) div 1000000000 = (s :: int)"
  by simp

lemma pack_mod: "0 \<le> r \<Longrightarrow> r < 1000000000 \<Longrightarrow> (s * 1000000000 + r) mod 1000000000 = (r :: int)"
  by simp

lemma legacy_roundtrip:
  assumes "timestamp_legacy s f nanos = Ok ts"
  shows "legacy_parts ts nanos = Ok (s, f)"
proof -
  have f: "unat f < scale_of nanos" using assms by (simp add: timestamp_legacy_eq_Ok)
  let ?m = "10 ^ 9 div scale_of nanos" and ?v = "int (unat s * 10 ^ 9 + unat f * (10 ^ 9 div scale_of nanos))"
  have small: "unat f * ?m < 10 ^ 9" using f by (auto simp: scale_of_def)
  have "?v = int (unat s) * 1000000000 + int (unat f * ?m)" by simp
  moreover have "int (unat f * ?m) < int (10 ^ 9)" using small by (simp only: of_nat_less_iff)
  then have "int (unat f * ?m) < 1000000000" by simp
  ultimately have div: "?v div 1000000000 = int (unat s)"
    and mod: "?v mod 1000000000 = int (unat f * ?m)"
    by (simp_all only: pack_div pack_mod of_nat_0_le_iff)
  have sec: "int (unat s) < 2 ^ 32" 
    using u32_less [of s] by (metis of_nat_less_iff of_nat_numeral of_nat_power)
  have nonneg: "\<not> ?v < 0" by linarith
  show ?thesis
    unfolding legacy_parts_def unix_nanos_legacy [OF assms] and_then.simps div mod
    using sec nonneg by (cases nanos) (simp_all add: Let_def scale_of_def)
qed

lemma uint_of_int_u32: "0 \<le> x \<Longrightarrow> x < 2 ^ 32 \<Longrightarrow> int (unat (of_int x :: u32)) = x"
  by (simp add: unsigned_of_int take_bit_int_eq_self)

lemma split_nanos:
  assumes "nanos \<or> v mod 1000000000 mod 1000 = 0"
  shows "v div 1000000000 * 10 ^ 9 +
    (if nanos then v mod 1000000000 else v mod 1000000000 div 1000) *
      int (10 ^ 9 div scale_of nanos) = (v :: int)"
proof -
  have "v mod 1000000000 div 1000 * 1000 = v mod 1000000000" if "\<not> nanos"
    using assms that div_mult_mod_eq [of "v mod 1000000000" 1000] by simp
  then show ?thesis
    using div_mult_mod_eq [of v 1000000000] by (simp add: scale_of_def)
qed

lemma legacy_parts_sound:
  assumes "legacy_parts ts nanos = Ok (s, f)"
  obtains ts' where "timestamp_legacy s f nanos = Ok ts'" "unix_nanos ts' = unix_nanos ts"
proof -
  obtain v where v: "unix_nanos ts = Ok v" "0 \<le> v" "v div 1000000000 < 2 ^ 32"
    and sf: "s = of_int (v div 1000000000)"
      "f = of_int (if nanos then v mod 1000000000 else v mod 1000000000 div 1000)"
    and micro: "nanos \<or> v mod 1000000000 mod 1000 = 0"
    using assms unfolding legacy_parts_def Let_def and_then_eq_Ok
    by (elim exE conjE) (simp only: not_less split: if_splits; force)
  let ?s = "v div 1000000000" and ?f = "if nanos then v mod 1000000000 else v mod 1000000000 div 1000"
  have "0 \<le> ?s" using v(2) by simp
  have f: "0 \<le> ?f" "?f < int (scale_of nanos)"
    by (auto simp: scale_of_def)
  have us: "int (unat s) = ?s"
    unfolding sf(1) using \<open>0 \<le> ?s\<close> v(3) by (rule uint_of_int_u32)
  have "int (scale_of nanos) < 2 ^ 32" by (simp add: scale_of_def)
  with f(2) have "?f < 2 ^ 32" by (rule less_trans)
  then have uf: "int (unat f) = ?f" unfolding sf(2) using f(1) by (rule uint_of_int_u32 [rotated])
  have "unat f < scale_of nanos" using uf f(2) by linarith
  then obtain ts' where ts': "timestamp_legacy s f nanos = Ok ts'"
    by (simp add: timestamp_legacy_def Let_def fraction_cmp)
  have "int (unat s * 10 ^ 9 + unat f * (10 ^ 9 div scale_of nanos)) = v"
    using split_nanos [OF micro] unfolding us [symmetric] uf [symmetric] by simp
  with unix_nanos_legacy [OF ts'] v(1) ts' that show thesis by simp
qed

section \<open>Properties\<close>

text \<open>
  a timestamp converts to nanoseconds since the epoch exactly when its resolution is encodable
  and the instant is an integral number of nanoseconds, and then to that number: ticks divided by the
  tick rate, plus the offset.  There is no rounding and no overflow.
\<close>

theorem nanoseconds_are_exact:
  assumes "in_i64 (offset_seconds ts)"
  shows "unix_nanos ts = Ok n \<longleftrightarrow>
    resolution_ok (ts_resolution ts) \<and>
    (n - offset_seconds ts * 10 ^ 9) * int (tick_rate (ts_resolution ts)) =
      int (unat (ticks ts)) * 10 ^ 9"
  by (rule unix_nanos_exact [OF assms])

theorem nanoseconds_are_exact_witness:
  "unix_nanos \<lparr>ticks = 1500000, ts_resolution = Decimal 6, offset_seconds = 2\<rparr> = Ok 3500000000"
  using nanoseconds_are_exact [of "\<lparr>ticks = 1500000, ts_resolution = Decimal 6, offset_seconds = 2\<rparr>" 3500000000]
  by (simp add: in_i64_def resolution_ok_def tick_rate_def)

text \<open>
  classic PCAP timestamps round-trip in both directions.  The seconds and fraction of a legacy
  timestamp are recovered from it, and the legacy parts of any timestamp denote the same instant.
\<close>

theorem legacy_timestamps_roundtrip:
  "(timestamp_legacy s f nanos = Ok ts \<longrightarrow> legacy_parts ts nanos = Ok (s, f)) \<and>
   (legacy_parts ts nanos = Ok (s, f) \<longrightarrow>
      (\<exists>ts'. timestamp_legacy s f nanos = Ok ts' \<and> unix_nanos ts' = unix_nanos ts))"
  using legacy_roundtrip legacy_parts_sound by metis

theorem legacy_timestamps_roundtrip_witness:
  "timestamp_legacy 7 250000 False = Ok \<lparr>ticks = 7250000, ts_resolution = Decimal 6, offset_seconds = 0\<rparr> \<and>
   legacy_parts \<lparr>ticks = 7250000, ts_resolution = Decimal 6, offset_seconds = 0\<rparr> False = Ok (7, 250000)"
proof -
  have "timestamp_legacy 7 250000 False = Ok \<lparr>ticks = 7250000, ts_resolution = Decimal 6, offset_seconds = 0\<rparr>"
    by (simp add: timestamp_legacy_def)
  with legacy_timestamps_roundtrip show ?thesis by blast
qed

end
