(* ===== verification/Capture.thy ===== *)
theory Capture
  imports Byte_Order Timestamps
begin

text \<open>
  \<^verbatim>\<open>src/src/capture.rs\<close>, the container decoder: classic PCAP and PCAPNG records decoded one at a time
  from a byte string, with the decoder's state (format, byte order, declared interfaces, section
  bounds, frame numbers).  \<^verbatim>\<open>Decoder::decode\<close> changes its state only on the paths that return a
  record, so the model returns the new state with the record and nothing on an error.  Each arm of
  its block match is a definition of its own.
\<close>

section \<open>Data\<close>

datatype capture_format = Pcap | PcapNg
datatype parse_mode = Strict | Evidence

record warning =
  warn_code :: string
  warn_offset :: nat

record option_meta =
  opt_code :: u16
  opt_value_offset :: nat
  opt_length :: nat

record iface =
  if_section :: u32
  if_id :: u32
  if_link_type :: u32
  if_snaplen :: u32
  if_resolution :: resolution
  if_offset_seconds :: int

record legacy_header =
  lh_endian :: endian
  lh_nanos :: bool
  lh_snaplen :: u32
  lh_link_word :: u32

record packet_meta =
  pm_frame :: nat
  pm_section :: u32
  pm_interface :: u32
  pm_link_type :: u32
  captured_len :: u32
  original_len :: u32
  data_offset :: nat
  pm_timestamp :: "timestamp option"

datatype record_kind =
    LegacyHeader legacy_header
  | Section u32 "nat option"
  | Interface iface
  | Packet packet_meta
  | Names nat
  | Statistics u32 timestamp
  | Secrets u32 u32
  | Custom u32 bool
  | Unknown u32

record cap_record =
  rec_offset :: nat
  rec_endian :: endian
  rec_raw :: bytes
  rec_kind :: record_kind
  rec_options :: "option_meta list"
  rec_warnings :: "warning list"

definition option_value :: "cap_record \<Rightarrow> option_meta \<Rightarrow> bytes option" where
  "option_value r opt =
     (case checked_add (opt_value_offset opt) (opt_length opt) of
        None \<Rightarrow> None
      | Some end \<Rightarrow> get_range (rec_raw r) (opt_value_offset opt) end)"

definition record_packet :: "cap_record \<Rightarrow> (packet_meta \<times> bytes) option result" where
  "record_packet r =
     (case rec_kind r of
        Packet p \<Rightarrow>
          and_then (range_at (rec_raw r) (data_offset p) (data_offset p + unat (captured_len p)))
            (\<lambda>data. Ok (Some (p, data)))
      | _ \<Rightarrow> Ok None)"

datatype decode_step = NeedMore nat | Decoded cap_record

record decoder =
  d_limits :: limits
  d_mode :: parse_mode
  d_format :: "capture_format option"
  d_endian :: endian
  d_legacy :: "legacy_header option"
  d_interfaces :: "iface list"
  d_section :: u32
  d_sections_seen :: u32
  d_section_end :: "nat option"
  d_next_frame :: nat
  d_records :: nat

definition decoder_new :: "limits \<Rightarrow> parse_mode \<Rightarrow> decoder result" where
  "decoder_new l mode =
     and_then (limits_validate l) (\<lambda>_.
       Ok \<lparr>d_limits = l, d_mode = mode, d_format = None, d_endian = Little, d_legacy = None,
           d_interfaces = [], d_section = 0, d_sections_seen = 0, d_section_end = None,
           d_next_frame = 1, d_records = 0\<rparr>)"

section \<open>How many bytes the next record needs\<close>

definition shb_magic :: bytes where
  "shb_magic = [0x0a, 0x0d, 0x0d, 0x0a]"

fun legacy_magic :: "bytes \<Rightarrow> (endian \<times> bool) option" where
  "legacy_magic b =
     (if b = [0xd4, 0xc3, 0xb2, 0xa1] then Some (Little, False)
      else if b = [0xa1, 0xb2, 0xc3, 0xd4] then Some (Big, False)
      else if b = [0x4d, 0x3c, 0xb2, 0xa1] then Some (Little, True)
      else if b = [0xa1, 0xb2, 0x3c, 0x4d] then Some (Big, True)
      else None)"

definition ng_endian :: "bytes \<Rightarrow> nat \<Rightarrow> endian result" where
  "ng_endian input off =
     and_then (range_at input 8 12) (\<lambda>b.
       if b = [0x4d, 0x3c, 0x2b, 0x1a] then Ok Little
       else if b = [0x1a, 0x2b, 0x3c, 0x4d] then Ok Big
       else Err (error_new BadMagic (off + 8) ''byte_order_magic''
         ''invalid PCAPNG byte-order magic''))"

definition required_block :: "decoder \<Rightarrow> bytes \<Rightarrow> nat \<Rightarrow> nat result" where
  "required_block d input off =
     (if length input < 8 then Ok 8
      else let is_section = (take 4 input = shb_magic)
      in if is_section \<and> length input < 12 then Ok 12
      else
        and_then (if is_section then ng_endian input off else Ok (d_endian d)) (\<lambda>e.
        and_then (read_u32 e input 4) (\<lambda>size32.
          let size = unat size32
          in if size < 12 \<or> size mod 4 \<noteq> 0 \<or> (is_section \<and> size < 28)
             then Err (error_new InvalidLength (off + 4) ''block_length''
               ''block length must be aligned and meet its minimum'')
             else if size > max_block_bytes (d_limits d) then Err (error_limit ''block_bytes'')
             else Ok size)))"

definition required :: "decoder \<Rightarrow> bytes \<Rightarrow> nat \<Rightarrow> nat result" where
  "required d input off =
     and_then (ok_or (error_limit ''file_offset'') (checked_add off (length input))) (\<lambda>_.
     case d_format d of
       None \<Rightarrow>
         if length input < 4 then Ok 4
         else if take 4 input \<noteq> shb_magic
         then (case legacy_magic (take 4 input) of
                 Some _ \<Rightarrow> Ok 24
               | None \<Rightarrow> Err (error_new BadMagic off ''magic'' ''not supported PCAP/PCAPNG''))
         else required_block d input off
     | Some Pcap \<Rightarrow>
         if length input < 16 then Ok 16
         else and_then (read_u32 (d_endian d) input 8) (\<lambda>size32.
           let size = unat size32
           in if size > max_packet_bytes (d_limits d) then Err (error_limit ''packet_bytes'')
              else ok_or (error_limit ''packet_bytes'') (checked_add size 16))
     | Some PcapNg \<Rightarrow> required_block d input off)"

section \<open>Fields and options\<close>

definition minimum :: "nat \<Rightarrow> nat \<Rightarrow> nat \<Rightarrow> string \<Rightarrow> unit result" where
  "minimum actual expected off fld =
     (if actual < expected
      then Err (error_new InvalidLength off fld ''block shorter than fixed fields'')
      else Ok ())"

definition interface_of :: "decoder \<Rightarrow> u32 \<Rightarrow> nat \<Rightarrow> iface result" where
  "interface_of d iid off =
     ok_or (error_new MissingInterface (off + 8) ''interface_id''
         ''interface has not been declared in this section'')
       (if unat iid < length (d_interfaces d) then Some (d_interfaces d ! unat iid) else None)"

definition validate_lengths ::
    "u32 \<Rightarrow> u32 \<Rightarrow> u32 \<Rightarrow> parse_mode \<Rightarrow> nat \<Rightarrow> warning list \<Rightarrow> warning list result" where
  "validate_lengths cap orig snap mode off warnings =
     (if cap > orig \<or> (snap \<noteq> 0 \<and> cap > snap)
      then (if mode = Strict
            then Err (error_new InvalidLength off ''packet_lengths''
              ''captured length exceeds original length or snaplen'')
            else Ok (warnings @ [\<lparr>warn_code = ''contradictory_packet_lengths'', warn_offset = off\<rparr>]))
      else Ok warnings)"

definition align4 :: "nat \<Rightarrow> nat result" where
  "align4 n = ok_or (error_limit ''alignment'') (map_option (\<lambda>v. v - v mod 4) (checked_add n 3))"

function parse_options_from ::
    "bytes \<Rightarrow> nat \<Rightarrow> endian \<Rightarrow> nat \<Rightarrow> limits \<Rightarrow> nat \<Rightarrow> option_meta list \<Rightarrow> option_meta list result" where
  "parse_options_from raw fin e off l p out =
     (if p < fin then
        if fin - p < 4
        then Err (error_new InvalidOption (off + p) ''option'' ''partial option header'')
        else
          and_then (read_u16 e raw p) (\<lambda>code.
          and_then (read_u16 e raw (p + 2)) (\<lambda>n16.
            if code = 0 then
              if unat n16 \<noteq> 0
              then Err (error_new InvalidOption (off + (p + 4) - 2) ''option_end''
                ''terminator length must be zero'')
              else Ok out
            else if length out \<ge> max_options l then Err (error_limit ''options'')
            else
              and_then (align4 (unat n16)) (\<lambda>pad.
              and_then (ok_or (error_limit ''option_length'') (checked_add (p + 4) pad)) (\<lambda>nxt.
                if nxt > fin
                then Err (error_new InvalidOption (off + (p + 4)) ''option_length''
                  ''option value/padding exceeds block'')
                else if List.member [2988, 2989, 19372, 19373] code \<and> unat n16 < 4
                then Err (error_new InvalidOption (off + (p + 4)) ''custom_option''
                  ''custom option needs an enterprise number'')
                else parse_options_from raw fin e off l nxt
                  (out @ [\<lparr>opt_code = code, opt_value_offset = p + 4, opt_length = unat n16\<rparr>])))))
      else Ok out)"
  by pat_completeness auto
termination
  by (relation "measure (\<lambda>(raw, fin, e, off, l, p, out). fin - p)")
    (auto simp: outcome_simps checked_add_eq_Some)

declare parse_options_from.simps [simp del]

definition parse_options ::
    "bytes \<Rightarrow> nat \<Rightarrow> nat \<Rightarrow> endian \<Rightarrow> nat \<Rightarrow> limits \<Rightarrow> option_meta list result" where
  "parse_options raw start fin e off l = parse_options_from raw fin e off l start []"

section \<open>Classic PCAP\<close>

definition decode_legacy_header ::
    "decoder \<Rightarrow> bytes \<Rightarrow> nat \<Rightarrow> (decoder \<times> record_kind \<times> endian) result" where
  "decode_legacy_header d raw off =
     and_then (range_at raw 0 4) (\<lambda>magic.
     case legacy_magic magic of
       None \<Rightarrow> Err (error_new BadMagic off ''magic'' ''unsupported magic'')
     | Some (e, nanos) \<Rightarrow>
         and_then (read_u16 e raw 4) (\<lambda>major.
         and_then (read_u16 e raw 6) (\<lambda>minor.
           if major \<noteq> 2 \<or> minor \<noteq> 4
           then Err (error_new UnsupportedVersion (off + 4) ''version''
             ''only PCAP 2.4 is supported'')
           else
             and_then (read_u32 e raw 16) (\<lambda>snaplen.
             and_then (read_u32 e raw 20) (\<lambda>link_word.
               let header = \<lparr>lh_endian = e, lh_nanos = nanos, lh_snaplen = snaplen,
                             lh_link_word = link_word\<rparr>
               in if snaplen = 0
                  then Err (error_new InvalidLength (off + 16) ''snaplen''
                    ''classic PCAP snaplen must be nonzero'')
                  else Ok (d\<lparr>d_format := Some Pcap, d_endian := e, d_legacy := Some header\<rparr>,
                           LegacyHeader header, e))))))"

definition decode_legacy_packet ::
    "decoder \<Rightarrow> bytes \<Rightarrow> nat \<Rightarrow> (decoder \<times> record_kind \<times> warning list) result" where
  "decode_legacy_packet d raw off =
     and_then (ok_or (error_new Invariant off ''state'' ''missing global header'') (d_legacy d))
       (\<lambda>header.
     and_then (read_u32 (d_endian d) raw 8) (\<lambda>cap.
     and_then (read_u32 (d_endian d) raw 12) (\<lambda>orig.
     and_then (validate_lengths cap orig (lh_snaplen header) (d_mode d) off []) (\<lambda>warnings.
     and_then (read_u32 (d_endian d) raw 0) (\<lambda>seconds.
     and_then (read_u32 (d_endian d) raw 4) (\<lambda>fraction.
     and_then (case timestamp_legacy seconds fraction (lh_nanos header) of
                 Ok t \<Rightarrow> Ok (Some t, warnings)
               | Err err \<Rightarrow>
                   if d_mode d = Strict then Err (err\<lparr>err_offset := off + 4\<rparr>)
                   else Ok (None, warnings @ [\<lparr>warn_code = ''invalid_timestamp_fraction'',
                                              warn_offset = off + 4\<rparr>])
               | Panic \<Rightarrow> Panic) (\<lambda>(timestamp, warnings').
       Ok (d\<lparr>d_next_frame := d_next_frame d + 1\<rparr>,
           Packet \<lparr>pm_frame = d_next_frame d, pm_section = 0, pm_interface = 0,
                   pm_link_type = lh_link_word header AND 0xffff, captured_len = cap,
                   original_len = orig, data_offset = 16, pm_timestamp = timestamp\<rparr>,
           warnings'))))))))"

section \<open>PCAPNG blocks\<close>

type_synonym block_result = "(decoder \<times> record_kind \<times> option_meta list \<times> warning list) result"

definition decode_section :: "decoder \<Rightarrow> bytes \<Rightarrow> nat \<Rightarrow> endian \<Rightarrow> nat \<Rightarrow> block_result" where
  "decode_section d raw need e off =
     and_then (read_u16 e raw 12) (\<lambda>major.
     and_then (read_u16 e raw 14) (\<lambda>minor.
       if major \<noteq> 1 \<or> minor \<noteq> 0
       then Err (error_new UnsupportedVersion (off + 12) ''version''
         ''only PCAPNG section 1.0 is decoded'')
       else
         and_then (read_u64 e raw 16) (\<lambda>len64.
           let declared = sint len64
           in if declared < -1
              then Err (error_new InvalidLength (off + 16) ''section_length''
                ''negative section length other than -1'')
              else if declared \<ge> 0 \<and> declared mod 4 \<noteq> 0
              then Err (error_new InvalidLength (off + 16) ''section_length''
                ''finite section length must be 32-bit aligned'')
              else
                and_then (parse_options raw 24 (need - 4) e off (d_limits d)) (\<lambda>options.
                and_then (if declared = -1 then Ok None
                          else and_then (ok_or (error_limit ''section_length'')
                                 (Option.bind (checked_add off need)
                                   (\<lambda>v. checked_add v (nat declared)))) (\<lambda>end. Ok (Some end)))
                  (\<lambda>end.
                  if unat (d_sections_seen d) + 1 < 2 ^ 32
                  then Ok (d\<lparr>d_sections_seen := d_sections_seen d + 1,
                             d_section := d_sections_seen d, d_section_end := end, d_endian := e,
                             d_interfaces := [], d_format := Some PcapNg\<rparr>,
                           Section (d_sections_seen d)
                             (if declared < 0 then None else Some (nat declared)),
                           options, [])
                  else Err (error_limit ''sections''))))))"

fun interface_options ::
    "bytes \<Rightarrow> endian \<Rightarrow> nat \<Rightarrow> option_meta list \<Rightarrow> resolution \<Rightarrow> int \<Rightarrow> bool \<Rightarrow> bool
      \<Rightarrow> (resolution \<times> int) result" where
  "interface_options raw e off [] res offs seen_resolution seen_offset = Ok (res, offs)"
| "interface_options raw e off (opt # opts) res offs seen_resolution seen_offset =
     and_then (range_at raw (opt_value_offset opt) (opt_value_offset opt + opt_length opt)) (\<lambda>v.
       if opt_code opt = 9 then
         if length v \<noteq> 1 \<or> seen_resolution
         then Err (error_new InvalidOption (off + opt_value_offset opt) ''if_tsresol''
           ''expected one nonduplicated octet'')
         else and_then (index_at v 0) (\<lambda>octet.
           interface_options raw e off opts (resolution_from_pcapng octet) offs True seen_offset)
       else if opt_code opt = 14 then
         if length v \<noteq> 8 \<or> seen_offset
         then Err (error_new InvalidOption (off + opt_value_offset opt) ''if_tsoffset''
           ''expected one nonduplicated signed 64-bit value'')
         else and_then (endian_u64 e v) (\<lambda>w.
           interface_options raw e off opts res (sint w) seen_resolution True)
       else interface_options raw e off opts res offs seen_resolution seen_offset)"

definition decode_interface :: "decoder \<Rightarrow> bytes \<Rightarrow> nat \<Rightarrow> endian \<Rightarrow> nat \<Rightarrow> block_result" where
  "decode_interface d raw need e off =
     and_then (minimum need 20 off ''interface'') (\<lambda>_.
     if length (d_interfaces d) \<ge> max_interfaces (d_limits d)
     then Err (error_limit ''interfaces'')
     else
       and_then (parse_options raw 16 (need - 4) e off (d_limits d)) (\<lambda>options.
       and_then (interface_options raw e off options (Decimal 6) 0 False False) (\<lambda>(res, offs).
       and_then (read_u16 e raw 8) (\<lambda>link_type.
       and_then (read_u32 e raw 12) (\<lambda>snaplen.
         let i = \<lparr>if_section = d_section d, if_id = of_nat (length (d_interfaces d)),
                  if_link_type = ucast link_type, if_snaplen = snaplen, if_resolution = res,
                  if_offset_seconds = offs\<rparr>
         in Ok (d\<lparr>d_interfaces := d_interfaces d @ [i]\<rparr>, Interface i, options, []))))))"

definition decode_packet_block ::
    "decoder \<Rightarrow> bytes \<Rightarrow> nat \<Rightarrow> endian \<Rightarrow> nat \<Rightarrow> u32 \<Rightarrow> block_result" where
  "decode_packet_block d raw need e off block =
     and_then (minimum need 32 off ''packet'') (\<lambda>_.
     and_then (if block = 2 then and_then (read_u16 e raw 8) (\<lambda>w. Ok (ucast w))
               else read_u32 e raw 8) (\<lambda>iid.
     and_then (interface_of d iid off) (\<lambda>i.
     and_then (read_u32 e raw 20) (\<lambda>cap.
     and_then (read_u32 e raw 24) (\<lambda>orig.
       if unat cap > max_packet_bytes (d_limits d) then Err (error_limit ''packet_bytes'')
       else
         and_then (align4 (unat cap)) (\<lambda>padded.
         and_then (ok_or (error_limit ''packet_bytes'') (checked_add 28 padded)) (\<lambda>after.
           if after > need - 4
           then Err (error_new InvalidLength (off + 20) ''captured_length''
             ''packet extends beyond block'')
           else
             and_then (validate_lengths cap orig (if_snaplen i) (d_mode d) off []) (\<lambda>warnings.
             and_then (parse_options raw after (need - 4) e off (d_limits d)) (\<lambda>options.
             and_then (read_u32 e raw 12) (\<lambda>high.
             and_then (read_u32 e raw 16) (\<lambda>low.
               Ok (d\<lparr>d_next_frame := d_next_frame d + 1\<rparr>,
                   Packet \<lparr>pm_frame = d_next_frame d, pm_section = d_section d,
                           pm_interface = iid, pm_link_type = if_link_type i,
                           captured_len = cap, original_len = orig, data_offset = 28,
                           pm_timestamp = Some \<lparr>ticks = be64_word high low,
                             ts_resolution = if_resolution i,
                             offset_seconds = if_offset_seconds i\<rparr>\<rparr>,
                   options, warnings))))))))))))"

definition decode_simple_packet :: "decoder \<Rightarrow> bytes \<Rightarrow> nat \<Rightarrow> endian \<Rightarrow> nat \<Rightarrow> block_result" where
  "decode_simple_packet d raw need e off =
     and_then (minimum need 16 off ''simple_packet'') (\<lambda>_.
     and_then (interface_of d 0 off) (\<lambda>i.
     and_then (read_u32 e raw 8) (\<lambda>orig.
       let cap = (if if_snaplen i = 0 then orig else min orig (if_snaplen i))
       in if unat cap > max_packet_bytes (d_limits d) then Err (error_limit ''packet_bytes'')
          else
            and_then (align4 (unat cap)) (\<lambda>padded.
              if checked_add 12 padded \<noteq> Some (need - 4)
              then Err (error_new InvalidLength (off + 8) ''simple_packet''
                ''SPB size disagrees with original length and first interface snaplen'')
              else Ok (d\<lparr>d_next_frame := d_next_frame d + 1\<rparr>,
                       Packet \<lparr>pm_frame = d_next_frame d, pm_section = d_section d,
                               pm_interface = 0, pm_link_type = if_link_type i,
                               captured_len = cap, original_len = orig, data_offset = 12,
                               pm_timestamp = None\<rparr>,
                       [], [])))))"

function name_records ::
    "bytes \<Rightarrow> nat \<Rightarrow> endian \<Rightarrow> nat \<Rightarrow> limits \<Rightarrow> nat \<Rightarrow> nat \<Rightarrow> (nat \<times> nat) result" where
  "name_records raw body_end e off l p records =
     (if p + 4 > body_end
      then Err (error_new InvalidLength (off + p) ''name_record'' ''missing record terminator'')
      else
        and_then (read_u16 e raw p) (\<lambda>code.
        and_then (read_u16 e raw (p + 2)) (\<lambda>n16.
          if code = 0 then
            if unat n16 \<noteq> 0
            then Err (error_new InvalidLength (off + (p + 4) - 2) ''name_record''
              ''terminator has nonzero length'')
            else Ok (p + 4, records)
          else if records \<ge> max_options l then Err (error_limit ''name_records'')
          else
            and_then (align4 (unat n16)) (\<lambda>pad.
            and_then (ok_or (error_limit ''name_record'') (checked_add (p + 4) pad)) (\<lambda>nxt.
              if nxt > body_end
              then Err (error_new InvalidLength (off + (p + 4)) ''name_record''
                ''record exceeds block'')
              else
                let addr = (if code = 1 then 4 else if code = 2 then 16 else 0)
                in and_then (if addr = 0 then Ok False
                             else if unat n16 \<le> addr then Ok True
                             else and_then (index_at raw (p + 4 + unat n16 - 1)) (\<lambda>b. Ok (b \<noteq> 0)))
                   (\<lambda>malformed.
                     if malformed
                     then Err (error_new InvalidLength (off + (p + 4)) ''name_record''
                       ''address and NUL-terminated names required'')
                     else name_records raw body_end e off l nxt (records + 1)))))))"
  by pat_completeness auto
termination
  by (relation "measure (\<lambda>(raw, body_end, e, off, l, p, records). body_end - p)")
    (auto simp: outcome_simps checked_add_eq_Some)

declare name_records.simps [simp del]

definition decode_names :: "decoder \<Rightarrow> bytes \<Rightarrow> nat \<Rightarrow> endian \<Rightarrow> nat \<Rightarrow> block_result" where
  "decode_names d raw need e off =
     and_then (name_records raw (need - 4) e off (d_limits d) 8 0) (\<lambda>(p, records).
     and_then (parse_options raw p (need - 4) e off (d_limits d)) (\<lambda>options.
       Ok (d, Names records, options, [])))"

definition decode_statistics :: "decoder \<Rightarrow> bytes \<Rightarrow> nat \<Rightarrow> endian \<Rightarrow> nat \<Rightarrow> block_result" where
  "decode_statistics d raw need e off =
     and_then (minimum need 24 off ''statistics'') (\<lambda>_.
     and_then (read_u32 e raw 8) (\<lambda>iid.
     and_then (interface_of d iid off) (\<lambda>i.
     and_then (read_u32 e raw 12) (\<lambda>high.
     and_then (read_u32 e raw 16) (\<lambda>low.
     and_then (parse_options raw 20 (need - 4) e off (d_limits d)) (\<lambda>options.
       Ok (d, Statistics iid \<lparr>ticks = be64_word high low, ts_resolution = if_resolution i,
                              offset_seconds = if_offset_seconds i\<rparr>, options, [])))))))"

definition decode_secrets :: "decoder \<Rightarrow> bytes \<Rightarrow> nat \<Rightarrow> endian \<Rightarrow> nat \<Rightarrow> block_result" where
  "decode_secrets d raw need e off =
     and_then (minimum need 20 off ''secrets'') (\<lambda>_.
     and_then (read_u32 e raw 12) (\<lambda>n.
     and_then (align4 (unat n)) (\<lambda>padded.
     and_then (ok_or (error_limit ''secrets'') (checked_add 16 padded)) (\<lambda>end.
       if end > need - 4
       then Err (error_new InvalidLength (off + 12) ''secrets_length''
         ''secrets extend beyond block'')
       else
         and_then (parse_options raw end (need - 4) e off (d_limits d)) (\<lambda>options.
         and_then (read_u32 e raw 8) (\<lambda>ty.
           Ok (d, Secrets ty n, options, [])))))))"

definition decode_custom :: "decoder \<Rightarrow> bytes \<Rightarrow> nat \<Rightarrow> endian \<Rightarrow> nat \<Rightarrow> u32 \<Rightarrow> block_result" where
  "decode_custom d raw need e off block =
     and_then (minimum need 16 off ''custom'') (\<lambda>_.
     and_then (read_u32 e raw 8) (\<lambda>pen.
       Ok (d, Custom pen (block = 0x00000bad), [], [])))"

definition decode_block ::
    "decoder \<Rightarrow> bytes \<Rightarrow> nat \<Rightarrow> endian \<Rightarrow> nat \<Rightarrow> u32 \<Rightarrow> block_result" where
  "decode_block d raw need e off block =
     (if block = 0x0a0d0d0a then decode_section d raw need e off
      else if block = 1 then decode_interface d raw need e off
      else if block = 6 \<or> block = 2 then decode_packet_block d raw need e off block
      else if block = 3 then decode_simple_packet d raw need e off
      else if block = 4 then decode_names d raw need e off
      else if block = 5 then decode_statistics d raw need e off
      else if block = 10 then decode_secrets d raw need e off
      else if block = 0x00000bad \<or> block = 0x40000bad then decode_custom d raw need e off block
      else Ok (d, Unknown block, [], []))"

definition section_bounds :: "decoder \<Rightarrow> bool \<Rightarrow> nat \<Rightarrow> nat \<Rightarrow> unit result" where
  "section_bounds d is_section need off =
     (case d_section_end d of
        None \<Rightarrow> Ok ()
      | Some end \<Rightarrow>
          and_then (ok_or (error_limit ''file_offset'') (checked_add off need)) (\<lambda>record_end.
            if (is_section \<and> off \<noteq> end) \<or> (\<not> is_section \<and> record_end > end)
            then Err (error_new LengthMismatch off ''section_length''
              ''record violates declared section boundary'')
            else Ok ()))"

definition decode_ng ::
    "decoder \<Rightarrow> bytes \<Rightarrow> nat \<Rightarrow> nat
      \<Rightarrow> (decoder \<times> record_kind \<times> endian \<times> option_meta list \<times> warning list) result" where
  "decode_ng d raw need off =
     and_then (range_at raw 0 4) (\<lambda>magic.
       let is_section = (magic = shb_magic)
       in and_then (if is_section then ng_endian raw off else Ok (d_endian d)) (\<lambda>e.
          and_then (usub need 4) (\<lambda>body_end.
          and_then (read_u32 e raw body_end) (\<lambda>trailer.
            if unat trailer \<noteq> need
            then Err (error_new LengthMismatch (off + need - 4) ''block_trailer''
              ''leading and trailing lengths differ'')
            else
              and_then (section_bounds d is_section need off) (\<lambda>_.
              and_then (read_u32 e raw 0) (\<lambda>block.
              and_then (decode_block d raw need e off block) (\<lambda>(d', kind, options, warnings).
                Ok (d', kind, e, options, warnings))))))))"

section \<open>One record\<close>

definition decode :: "decoder \<Rightarrow> bytes \<Rightarrow> nat \<Rightarrow> (decoder \<times> decode_step) result" where
  "decode d input off =
     (if d_records d \<ge> max_records (d_limits d) then Err (error_limit ''records'')
      else
        and_then (required d input off) (\<lambda>need.
          if length input < need then Ok (d, NeedMore need)
          else
            and_then (range_at input 0 need) (\<lambda>raw.
            and_then (if d_format d = None then and_then (range_at raw 0 4) (\<lambda>m. Ok (m \<noteq> shb_magic))
                      else Ok False) (\<lambda>is_legacy_header.
            and_then
              (if is_legacy_header
               then and_then (decode_legacy_header d raw off)
                      (\<lambda>(d', kind, e). Ok (d', kind, e, [], []))
               else if d_format d = Some Pcap
               then and_then (decode_legacy_packet d raw off)
                      (\<lambda>(d', kind, warnings). Ok (d', kind, d_endian d, [], warnings))
               else decode_ng d raw need off)
              (\<lambda>(d', kind, e, options, warnings).
                Ok (d'\<lparr>d_records := d_records d' + 1\<rparr>,
                    Decoded \<lparr>rec_offset = off, rec_endian = e, rec_raw = raw, rec_kind = kind,
                             rec_options = options, rec_warnings = warnings\<rparr>))))))"

definition decoder_finish :: "decoder \<Rightarrow> nat \<Rightarrow> unit result" where
  "decoder_finish d off =
     (if d_format d = None
      then Err (error_new Truncated off ''capture_header'' ''empty input is not a capture'')
      else case d_section_end d of
        None \<Rightarrow> Ok ()
      | Some end \<Rightarrow>
          if end \<noteq> off
          then Err (error_new Truncated off ''section_length''
            ''EOF disagrees with declared section length'')
          else Ok ())"

end
