(* ===== verification/Capture_Safety.thy ===== *)
theory Capture_Safety
  imports Capture
begin

text \<open>
  Safety of the container decoder: no input makes it index out of range, the record it returns is
  exactly the prefix it asked for, and packet data lies inside the record.
\<close>

section \<open>Padding and options\<close>

lemma align4_eq_Ok:
  "align4 n = Ok v \<longleftrightarrow> n + 3 < usize_limit \<and> v = (n + 3) - (n + 3) mod 4"
  by (auto simp: align4_def outcome_simps checked_add_def)

lemma align4_bounds: "align4 n = Ok v \<Longrightarrow> n \<le> v \<and> v \<le> n + 3 \<and> v mod 4 = 0"
  unfolding align4_eq_Ok by presburger

lemma align4_no_panic [simp]: "align4 n \<noteq> Panic"
  by (simp add: align4_def)

lemma minimum_eq_Ok [outcome_simps]: "minimum a b off f = Ok u \<longleftrightarrow> b \<le> a"
  by (auto simp: minimum_def)

lemma minimum_no_panic [simp]: "minimum a b off f \<noteq> Panic"
  by (simp add: minimum_def)

lemma interface_of_no_panic [simp]: "interface_of d i off \<noteq> Panic"
  by (simp add: interface_of_def)

lemma interface_of_eq_Ok:
  "interface_of d i off = Ok f \<longleftrightarrow> unat i < length (d_interfaces d) \<and> f = d_interfaces d ! unat i"
  by (auto simp: interface_of_def outcome_simps)

lemma validate_lengths_no_panic [simp]: "validate_lengths c og s m off w \<noteq> Panic"
  by (simp add: validate_lengths_def)

text \<open>One round of the option loop: it fails, stops, or goes on behind one more option.\<close>

lemma parse_options_from_round:
  assumes "fin \<le> length raw"
  shows "(\<exists>err. parse_options_from raw fin e off l p out = Err err)
    \<or> parse_options_from raw fin e off l p out = Ok out
    \<or> (\<exists>opt nxt. parse_options_from raw fin e off l p out =
          parse_options_from raw fin e off l nxt (out @ [opt])
        \<and> p + 4 \<le> opt_value_offset opt \<and> opt_value_offset opt + opt_length opt \<le> nxt
        \<and> nxt \<le> fin \<and> length out < max_options l)"
proof (cases "p < fin \<and> 4 \<le> fin - p")
  case False
  then show ?thesis by (auto simp: parse_options_from.simps [of raw fin e off l p out])
next
  case True
  let ?code = "word16_at e raw p" and ?n = "word16_at e raw (p + 2)"
  have in_range: "p + 2 \<le> length raw" "p + 2 + 2 \<le> length raw" using True assms by linarith+
  note unfold = parse_options_from.simps [of raw fin e off l p out]
    read_u16_ok [OF in_range(1)] read_u16_ok [OF in_range(2)]
  show ?thesis
  proof (cases "?code = 0 \<or> max_options l \<le> length out")
    case True
    with \<open>p < fin \<and> 4 \<le> fin - p\<close> show ?thesis by (auto simp: unfold)
  next
    case False
    show ?thesis
    proof (cases "\<exists>pad. align4 (unat ?n) = Ok pad")
      case True
      then obtain pad where pad: "align4 (unat ?n) = Ok pad" by blast
      from align4_bounds [OF pad] have le: "unat ?n \<le> pad" by simp
      let ?opt = "\<lparr>opt_code = ?code, opt_value_offset = p + 4, opt_length = unat ?n\<rparr>"
      show ?thesis
      proof (cases "\<exists>nxt. checked_add (p + 4) pad = Some nxt \<and> nxt \<le> fin
          \<and> \<not> (List.member [2988, 2989, 19372, 19373] ?code \<and> unat ?n < 4)")
        case True
        then obtain nxt where nxt: "checked_add (p + 4) pad = Some nxt" "nxt \<le> fin"
          "\<not> (List.member [2988, 2989, 19372, 19373] ?code \<and> unat ?n < 4)"
          by blast
        have "parse_options_from raw fin e off l p out =
            parse_options_from raw fin e off l nxt (out @ [?opt])"
          using \<open>p < fin \<and> 4 \<le> fin - p\<close> False pad nxt by (auto simp: unfold)
        moreover have "opt_value_offset ?opt + opt_length ?opt \<le> nxt"
          using nxt(1) le by (simp add: checked_add_eq_Some)
        moreover have "p + 4 \<le> opt_value_offset ?opt" "length out < max_options l"
          using False by simp_all
        ultimately show ?thesis using nxt(2) by blast
      next
        case stop: False
        then show ?thesis
          using \<open>p < fin \<and> 4 \<le> fin - p\<close> False pad
          by (cases "checked_add (p + 4) pad") (auto simp: unfold)
      qed
    next
      case noalign: False
      then obtain err where "align4 (unat ?n) = Err err"
        by (metis align4_no_panic outcome.exhaust)
      with \<open>p < fin \<and> 4 \<le> fin - p\<close> False show ?thesis by (auto simp: unfold)
    qed
  qed
qed

lemma parse_options_from_result:
  assumes "fin \<le> length raw" and "length out \<le> max_options l"
    and "\<forall>opt \<in> set out. opt_value_offset opt + opt_length opt \<le> fin"
  shows "(\<exists>err. parse_options_from raw fin e off l p out = Err err)
    \<or> (\<exists>opts. parse_options_from raw fin e off l p out = Ok opts \<and> length opts \<le> max_options l
        \<and> (\<forall>opt \<in> set opts. opt_value_offset opt + opt_length opt \<le> fin))"
  using assms(2,3)
proof (induction "fin - p" arbitrary: p out rule: less_induct)
  case less
  from parse_options_from_round [OF assms(1), of e off l p out] show ?case
  proof (elim disjE exE conjE)
    fix opt nxt
    assume step: "parse_options_from raw fin e off l p out =
        parse_options_from raw fin e off l nxt (out @ [opt])"
      "p + 4 \<le> opt_value_offset opt" "opt_value_offset opt + opt_length opt \<le> nxt"
      "nxt \<le> fin" "length out < max_options l"
    then have "fin - nxt < fin - p" by linarith
    moreover have "length (out @ [opt]) \<le> max_options l"
      "\<forall>x \<in> set (out @ [opt]). opt_value_offset x + opt_length x \<le> fin"
      using step less.prems by auto
    ultimately show ?case unfolding step(1) by (rule less.hyps)
  qed (use less.prems in auto)
qed

lemma parse_options_no_panic [simp]:
  "fin \<le> length raw \<Longrightarrow> parse_options raw start fin e off l \<noteq> Panic"
  using parse_options_from_result [of fin raw "[]" l e off start]
  by (auto simp: parse_options_def)

lemma parse_options_range:
  assumes "parse_options raw start fin e off l = Ok opts" and "fin \<le> length raw"
  shows "length opts \<le> max_options l"
    "opt \<in> set opts \<Longrightarrow> opt_value_offset opt + opt_length opt \<le> fin"
  using parse_options_from_result [of fin raw "[]" l e off start] assms
  by (auto simp: parse_options_def)

lemma name_records_no_panic:
  assumes "body_end \<le> length raw"
  shows "name_records raw body_end e off l p n \<noteq> Panic"
  using assms
proof (induction raw body_end e off l p n rule: name_records.induct)
  case (1 raw body_end e off l p n)
  let ?n = "word16_at e raw (p + 2)"
  have n: "p + 4 + unat ?n - 1 < length raw"
    if "align4 (unat ?n) = Ok pad" "checked_add (p + 4) pad = Some nxt" "\<not> nxt > body_end"
      "0 < unat ?n" for pad nxt
    using that "1.prems" align4_bounds [of "unat ?n" pad] by (simp add: checked_add_eq_Some)
  show ?case
  proof (cases "p + 4 > body_end")
    case True
    then show ?thesis by (simp add: name_records.simps [of raw body_end e off l p n])
  next
    case False
    with "1.prems" have r: "p + 2 \<le> length raw" "p + 2 + 2 \<le> length raw" by linarith+
    note IH = "1.IH" [OF False read_u16_ok [OF r(1)] read_u16_ok [OF r(2)]]
    show ?thesis
      unfolding name_records.simps [of raw body_end e off l p n] read_u16_ok [OF r(1)]
        read_u16_ok [OF r(2)] and_then.simps
      using False IH n "1.prems"
      by (auto simp: Let_def outcome_simps simp del: One_nat_def split: if_splits)
  qed
qed

section \<open>No arm of the decoder panics\<close>

lemma endian_u64_full: "length v = 8 \<Longrightarrow> endian_u64 e v = Ok (word64_at e v 0)"
  using read_u64_ok [of 0 v e] by (simp add: read_u64_def sub_list_def)

lemma interface_options_no_panic:
  "\<forall>opt \<in> set opts. opt_value_offset opt + opt_length opt \<le> length raw \<Longrightarrow>
   interface_options raw e off opts res offs sr so \<noteq> Panic"
  by (induction opts arbitrary: res offs sr so) (auto simp: outcome_simps endian_u64_full)

lemma ng_endian_no_panic [simp]: "12 \<le> length input \<Longrightarrow> ng_endian input off \<noteq> Panic"
  by (simp add: ng_endian_def)

lemma decode_section_no_panic:
  "length raw = need \<Longrightarrow> 28 \<le> need \<Longrightarrow> decode_section d raw need e off \<noteq> Panic"
  by (auto simp: decode_section_def Let_def outcome_simps split: if_splits)

lemma decode_interface_no_panic:
  assumes "length raw = need"
  shows "decode_interface d raw need e off \<noteq> Panic"
proof -
  have "interface_options raw e off opts res offs sr so \<noteq> Panic"
    if "parse_options raw 16 (need - 4) e off (d_limits d) = Ok opts" for opts res offs sr so
    using that assms parse_options_range(2) by (intro interface_options_no_panic) fastforce
  with assms show ?thesis
    by (auto simp: decode_interface_def Let_def outcome_simps split: if_splits)
qed

lemma decode_packet_block_no_panic:
  "length raw = need \<Longrightarrow> decode_packet_block d raw need e off block \<noteq> Panic"
  by (auto simp: decode_packet_block_def Let_def outcome_simps split: if_splits)

lemma decode_simple_packet_no_panic:
  "length raw = need \<Longrightarrow> decode_simple_packet d raw need e off \<noteq> Panic"
  by (auto simp: decode_simple_packet_def Let_def outcome_simps split: if_splits)

lemma decode_names_no_panic: "length raw = need \<Longrightarrow> decode_names d raw need e off \<noteq> Panic"
  by (auto simp: decode_names_def outcome_simps name_records_no_panic)

lemma decode_statistics_no_panic:
  "length raw = need \<Longrightarrow> decode_statistics d raw need e off \<noteq> Panic"
  by (auto simp: decode_statistics_def outcome_simps)

lemma decode_secrets_no_panic: "length raw = need \<Longrightarrow> decode_secrets d raw need e off \<noteq> Panic"
  by (auto simp: decode_secrets_def outcome_simps split: if_splits)

lemma decode_custom_no_panic: "length raw = need \<Longrightarrow> decode_custom d raw need e off b \<noteq> Panic"
  by (auto simp: decode_custom_def outcome_simps)

lemmas block_no_panic =
  decode_section_no_panic decode_interface_no_panic decode_packet_block_no_panic
  decode_simple_packet_no_panic decode_names_no_panic decode_statistics_no_panic
  decode_secrets_no_panic decode_custom_no_panic

lemma section_bounds_no_panic [simp]: "section_bounds d s need off \<noteq> Panic"
  by (auto simp: section_bounds_def outcome_simps split: option.splits if_splits)

lemma timestamp_legacy_no_panic [simp]: "timestamp_legacy s f n \<noteq> Panic"
  by (simp add: timestamp_legacy_def Let_def)

lemma decode_legacy_packet_no_panic:
  "16 \<le> length raw \<Longrightarrow> decode_legacy_packet d raw off \<noteq> Panic"
  by (auto simp: decode_legacy_packet_def outcome_simps split: outcome.splits if_splits)

lemma decode_legacy_header_no_panic:
  "24 \<le> length raw \<Longrightarrow> decode_legacy_header d raw off \<noteq> Panic"
  by (auto simp: decode_legacy_header_def Let_def outcome_simps split: option.splits if_splits)

text \<open>The section header magic reads the same in both byte orders.\<close>

lemma shb_block:
  assumes "4 \<le> length raw"
  shows "word32_at e raw 0 = 0x0a0d0d0a \<longleftrightarrow> take 4 raw = shb_magic"
proof -
  have "raw = raw ! 0 # raw ! 1 # raw ! 2 # raw ! 3 # drop 4 raw"
    using drop_four [of 0 raw] assms by simp
  from arg_cong [OF this, of "take 4"] have "take 4 raw = [raw ! 0, raw ! 1, raw ! 2, raw ! 3]"
    by simp
  moreover have "be32_word a b c d = 0x0a0d0d0a \<longleftrightarrow> [a, b, c, d] = shb_magic" for a b c d
  proof
    assume "be32_word a b c d = 0x0a0d0d0a"
    then have "be32_bytes (be32_word a b c d) = be32_bytes 0x0a0d0d0a" by simp
    then show "[a, b, c, d] = shb_magic" unfolding be32_bytes_word
      by (simp add: be32_bytes_def shb_magic_def)
  qed (simp add: shb_magic_def be32_word_def)
  ultimately show ?thesis
    by (cases e) (auto simp: word32_at_def shb_magic_def)
qed

section \<open>Framing\<close>

lemma required_block_no_panic [simp]: "required_block d input off \<noteq> Panic"
  by (auto simp: required_block_def Let_def outcome_simps split: if_splits)

lemma required_no_panic [simp]: "required d input off \<noteq> Panic"
  by (auto simp: required_def Let_def outcome_simps split: option.splits capture_format.splits if_splits)

lemma required_block_bounds:
  assumes "required_block d input off = Ok need" and "need \<le> length input"
  shows "12 \<le> need" "take 4 input = shb_magic \<Longrightarrow> 28 \<le> need" "need mod 4 = 0"
    "need \<le> max_block_bytes (d_limits d)"
  using assms by (auto simp: required_block_def Let_def outcome_simps split: if_splits)

lemma required_pos: "required d input off = Ok need \<Longrightarrow> 4 \<le> need"
  by (auto simp: required_def required_block_def Let_def outcome_simps checked_add_eq_Some
      split: option.splits capture_format.splits if_splits)

lemma required_cases:
  assumes "required d input off = Ok need" and "need \<le> length input"
  obtains
    (header) "d_format d = None" "take 4 input \<noteq> shb_magic" "need = 24"
      "legacy_magic (take 4 input) \<noteq> None"
  | (packet) "d_format d = Some Pcap" "need = unat (word32_at (d_endian d) input 8) + 16"
      "unat (word32_at (d_endian d) input 8) \<le> max_packet_bytes (d_limits d)"
  | (block) "d_format d = Some PcapNg \<or> d_format d = None \<and> take 4 input = shb_magic"
      "required_block d input off = Ok need"
proof (cases "d_format d")
  case None
  with assms header block show ?thesis
    by (auto simp: required_def outcome_simps split: if_splits option.splits)
next
  case (Some f)
  with assms packet block show ?thesis
    by (cases f)
      (auto simp: required_def outcome_simps Let_def checked_add_eq_Some split: if_splits)
qed

lemma decode_ng_no_panic:
  assumes "required_block d input off = Ok need" and "need \<le> length input"
  shows "decode_ng d (take need input) need off \<noteq> Panic"
proof -
  let ?raw = "take need input"
  note b = required_block_bounds [OF assms]
  have len: "length ?raw = need" using assms(2) by simp
  have four: "take 4 ?raw = take 4 input" using b(1) by (simp add: min_def)
  have "decode_block d ?raw need e off (word32_at e ?raw 0) \<noteq> Panic" for e
  proof (cases "word32_at e ?raw 0 = 0x0a0d0d0a")
    case True
    then have "28 \<le> need" using shb_block [of ?raw e] four b(1,2) len by simp
    with True len show ?thesis by (simp add: decode_block_def block_no_panic)
  next
    case False
    with len show ?thesis by (simp add: decode_block_def block_no_panic)
  qed
  then show ?thesis
    using b(1) len by (auto simp: decode_ng_def Let_def outcome_simps split: if_splits)
qed

lemma decode_never_panics: "decode d input off \<noteq> Panic"
proof (cases "\<exists>need. required d input off = Ok need \<and> need \<le> length input")
  case False
  then show ?thesis
    by (auto simp: decode_def outcome_simps not_le split: if_splits)
next
  case True
  then obtain need where need: "required d input off = Ok need" "need \<le> length input" by blast
  let ?raw = "take need input"
  have raw: "length ?raw = need" "4 \<le> need" "take 4 ?raw = take 4 input"
    using need required_pos [OF need(1)] by (simp_all add: min_def)
  from need show ?thesis
  proof (cases rule: required_cases)
    case header
    with need raw decode_legacy_header_no_panic [of ?raw d off] show ?thesis
      by (auto simp: decode_def outcome_simps)
  next
    case packet
    with need raw decode_legacy_packet_no_panic [of ?raw d off] show ?thesis
      by (auto simp: decode_def outcome_simps)
  next
    case block
    with need raw decode_ng_no_panic [OF block(2) need(2)] show ?thesis
      by (auto simp: decode_def outcome_simps split: if_splits)
  qed
qed

lemma decode_Decoded:
  assumes "decode d input off = Ok (d', Decoded r)"
  obtains need where "required d input off = Ok need" "need \<le> length input" "4 \<le> need"
    "rec_raw r = take need input" "rec_offset r = off"
  using assms required_pos
  by (fastforce simp: decode_def outcome_simps split: if_splits prod.splits)

lemma decode_NeedMore:
  assumes "decode d input off = Ok (d', NeedMore n)"
  shows "d' = d" "required d input off = Ok n" "length input < n"
  using assms by (auto simp: decode_def outcome_simps split: if_splits prod.splits)

lemma decoder_new_Ok:
  assumes "decoder_new l mode = Ok d"
  shows "d_limits d = l" "d_records d = 0" "d_mode d = mode" "d_section_end d = None"
    "d_sections_seen d = 0" "d_format d = None"
  using assms by (auto simp: decoder_new_def elim: and_then_OkE)

section \<open>Properties\<close>

text \<open>
  C1: no byte string makes the decoder panic: whatever the state, the input and the file offset,
  \<^verbatim>\<open>decode\<close> returns a record, a request for more bytes or an error, and every slice, index and
  subtraction on the way is in range.
\<close>

theorem decoder_never_panics: "decode d input off \<noteq> Panic"
  by (rule decode_never_panics)

end
