(* ===== verification/Capture_Extend.thy ===== *)
theory Capture_Extend
  imports Capture_Safety
begin

text \<open>
  The decoder looks only at the record it returns: bytes behind the record change neither the
  record nor an error, and while bytes are missing the number asked for never shrinks below what
  has been supplied.  Both facts are what makes incremental reading equivalent to decoding a
  complete buffer.
\<close>

lemma ng_endian_append: "12 \<le> length input \<Longrightarrow> ng_endian (input @ extra) off = ng_endian input off"
  by (simp add: ng_endian_def sub_list_append)

lemma required_block_extend:
  assumes "\<forall>n. required_block d input off = Ok n \<longrightarrow> n \<le> length input"
  shows "required_block d (input @ extra) off = required_block d input off"
proof -
  have len: "8 \<le> length input" "take 4 input = shb_magic \<Longrightarrow> 12 \<le> length input"
    using assms by (auto simp: required_block_def split: if_splits)
  then show ?thesis
    by (auto simp: required_block_def Let_def ng_endian_append word32_at_append)
qed

lemma required_extend:
  assumes fit: "off + length (input @ extra) < usize_limit"
    and enough: "\<forall>n. required d input off = Ok n \<longrightarrow> n \<le> length input"
  shows "required d (input @ extra) off = required d input off"
proof -
  have a: "checked_add off (length input) \<noteq> None" "checked_add off (length (input @ extra)) \<noteq> None"
    using fit by (auto simp: checked_add_def)
  show ?thesis
  proof (cases "d_format d")
    case None
    with a enough have "4 \<le> length input" by (auto simp: required_def split: if_splits)
    with a None enough required_block_extend [of d input off extra] show ?thesis
      by (auto simp: required_def split: option.splits)
  next
    case (Some f)
    show ?thesis
    proof (cases f)
      case Pcap
      with a Some enough have "16 \<le> length input" by (auto simp: required_def split: if_splits)
      with a Some Pcap show ?thesis by (auto simp: required_def word32_at_append)
    next
      case PcapNg
      with a Some enough required_block_extend [of d input off extra] show ?thesis
        by (auto simp: required_def)
    qed
  qed
qed

lemma required_grows_block:
  assumes "required_block d buf off = Ok n" "length buf < n" "length (buf @ extra) \<le> n"
    and "required_block d (buf @ extra) off = Ok n'"
  shows "length (buf @ extra) \<le> n'"
  using assms
  by (auto simp: required_block_def Let_def outcome_simps ng_endian_append word32_at_append
      split: if_splits)

lemma required_grows:
  assumes "required d buf off = Ok n" "length buf < n" "length (buf @ extra) \<le> n"
    and "required d (buf @ extra) off = Ok n'"
  shows "length (buf @ extra) \<le> n'"
proof (cases "d_format d")
  case None
  with assms required_grows_block [of d buf off n extra n'] required_pos [OF assms(4)] show ?thesis
    by (auto simp: required_def outcome_simps split: if_splits option.splits)
next
  case (Some f)
  with assms required_grows_block [of d buf off n extra n'] show ?thesis
    by (cases f)
      (auto simp: required_def outcome_simps Let_def word32_at_append checked_add_eq_Some
        split: if_splits)
qed

lemma decode_extend:
  assumes "off + length (input @ extra) < usize_limit"
    and "\<And>d' n. decode d input off \<noteq> Ok (d', NeedMore n)"
  shows "decode d (input @ extra) off = decode d input off"
proof (cases "d_records d \<ge> max_records (d_limits d)")
  case True
  then show ?thesis by (simp add: decode_def)
next
  case False
  have enough: "\<forall>n. required d input off = Ok n \<longrightarrow> n \<le> length input"
  proof (intro allI impI, rule ccontr)
    fix n
    assume "required d input off = Ok n" "\<not> n \<le> length input"
    with False have "decode d input off = Ok (d, NeedMore n)" by (simp add: decode_def)
    with assms(2) show False by blast
  qed
  then have "required d (input @ extra) off = required d input off"
    by (rule required_extend [OF assms(1)])
  with enough show ?thesis
    by (cases "required d input off") (auto simp: decode_def)
qed

text \<open>A decoded record is the decoding of its own bytes.\<close>

lemma decode_own_bytes:
  assumes "decode d input off = Ok (d', Decoded r)"
  shows "\<exists>rest. input = rec_raw r @ rest"
  using decode_Decoded [OF assms] by (metis append_take_drop_id)

section \<open>Packets lie inside their records\<close>

definition packet_in_record :: "cap_record \<Rightarrow> bool" where
  "packet_in_record r \<longleftrightarrow>
     (\<forall>p. rec_kind r = Packet p \<longrightarrow> data_offset p + unat (captured_len p) \<le> length (rec_raw r))"

lemma decode_block_packet:
  assumes "decode_block d raw need e off block = Ok (d', Packet p, options, warnings)"
    and "length raw = need"
  shows "data_offset p + unat (captured_len p) \<le> need"
  using assms align4_bounds
  by (auto simp: decode_block_def decode_section_def decode_interface_def decode_packet_block_def
      decode_simple_packet_def decode_names_def decode_statistics_def decode_secrets_def
      decode_custom_def Let_def outcome_simps checked_add_eq_Some split: if_splits prod.splits)
    (force dest!: align4_bounds)+

lemma decode_ng_block:
  assumes "decode_ng d raw need off = Ok (d', kind, e, options, warnings)"
  obtains block where "decode_block d raw need e off block = Ok (d', kind, options, warnings)"
  using assms unfolding decode_ng_def Let_def
  by (auto elim!: and_then_OkE split: if_split_asm prod.split_asm)

lemma decode_legacy_packet_kind:
  assumes "decode_legacy_packet d raw off = Ok (d', kind, warnings)" and "16 \<le> length raw"
  obtains p where "kind = Packet p" "data_offset p = 16"
    "captured_len p = word32_at (d_endian d) raw 8" "pm_frame p = d_next_frame d"
    "d' = d\<lparr>d_next_frame := d_next_frame d + 1\<rparr>"
  using assms unfolding decode_legacy_packet_def
  by (auto elim!: and_then_OkE split: prod.split_asm)

lemma decode_packet_in_record:
  assumes "decode d input off = Ok (d', Decoded r)"
  shows "packet_in_record r"
proof -
  obtain need where need: "required d input off = Ok need" "need \<le> length input" "4 \<le> need"
    "rec_raw r = take need input"
    using decode_Decoded [OF assms] by blast
  let ?raw = "take need input"
  have len: "length ?raw = need" using need by simp
  have ng: "data_offset p + unat (captured_len p) \<le> need"
    if "decode_ng d ?raw need off = Ok (d1, Packet p, e, os, ws)" for d1 p e os ws
    using that decode_block_packet [OF _ len] by (elim decode_ng_block)
  from need(1,2) show ?thesis
  proof (cases rule: required_cases)
    case header
    with assms need show ?thesis
      by (auto simp: packet_in_record_def decode_def outcome_simps decode_legacy_header_def Let_def
          split: if_splits option.splits prod.splits)
  next
    case packet
    have "word32_at (d_endian d) ?raw 8 = word32_at (d_endian d) input 8"
      using packet need by (simp add: word32_at_take)
    with assms need packet show ?thesis
      by (auto simp: packet_in_record_def decode_def elim!: and_then_OkE decode_legacy_packet_kind
          split: if_split_asm prod.split_asm)
  next
    case block
    with assms need show ?thesis
      by (auto simp: packet_in_record_def decode_def outcome_simps dest!: ng
          split: if_splits prod.splits)
  qed
qed

section \<open>Properties\<close>

text \<open>
  C38: decoding is prefix-stable.  Once the decoder has enough bytes, more input behind them changes
  neither the record nor the error it returns, and a decoded record is the exact prefix of the input
  it was decoded from.
\<close>

theorem decoding_is_prefix_stable:
  assumes "off + length (input @ extra) < usize_limit"
    and "\<forall>d' n. decode d input off \<noteq> Ok (d', NeedMore n)"
  shows "decode d (input @ extra) off = decode d input off \<and>
    (\<forall>d' r. decode d input off = Ok (d', Decoded r) \<longrightarrow>
       rec_raw r \<noteq> [] \<and> (\<exists>rest. input = rec_raw r @ rest) \<and> rec_offset r = off)"
proof (intro conjI allI impI)
  show "decode d (input @ extra) off = decode d input off"
    using decode_extend [OF assms(1)] assms(2) by blast
  fix d' r
  assume "decode d input off = Ok (d', Decoded r)"
  then show "rec_raw r \<noteq> []" "\<exists>rest. input = rec_raw r @ rest" "rec_offset r = off"
    by (auto elim: decode_Decoded intro!: decode_own_bytes)
qed

theorem decoding_is_prefix_stable_witness:
  "\<exists>d. decoder_new limits_default Strict = Ok d \<and>
     decode d ([1, 2, 3, 4] @ [5, 6]) 0 = Err (error_new BadMagic 0 ''magic'' ''not supported PCAP/PCAPNG'')"
proof -
  obtain d where d: "decoder_new limits_default Strict = Ok d" by (simp add: decoder_new_def)
  from decoder_new_Ok [OF d] have "decode d [1, 2, 3, 4] 0 = Err (error_new BadMagic 0 ''magic'' ''not supported PCAP/PCAPNG'')"
    by (simp add: decode_def required_def checked_add_def usize_limit_def shb_magic_def)
  with decoding_is_prefix_stable [of 0 "[1, 2, 3, 4]" "[5, 6]" d] d show ?thesis
    by (simp add: usize_limit_def)
qed

text \<open>
  a packet the decoder reports lies inside its record: \<^verbatim>\<open>Record::packet\<close> does not panic and
  returns exactly the captured number of bytes, a part of the record.
\<close>

theorem packet_bytes_in_record:
  assumes "decode d input off = Ok (d', Decoded r)" and "rec_kind r = Packet p"
  shows "\<exists>data. record_packet r = Ok (Some (p, data)) \<and> length data = unat (captured_len p)
    \<and> data = sub_list (rec_raw r) (data_offset p) (data_offset p + unat (captured_len p))"
  using decode_packet_in_record [OF assms(1)] assms(2)
  by (simp add: packet_in_record_def record_packet_def)

theorem packet_bytes_in_record_witness:
  "\<exists>d d' r p. decode d (replicate 8 0 @ [2, 0, 0, 0, 2, 0, 0, 0, 0xaa, 0xbb]) 24 = Ok (d', Decoded r)
     \<and> record_packet r = Ok (Some (p, [0xaa, 0xbb]))"
proof -
  let ?h = "\<lparr>lh_endian = Little, lh_nanos = False, lh_snaplen = 65535, lh_link_word = 1\<rparr>"
  let ?d = "\<lparr>d_limits = limits_default, d_mode = Strict, d_format = Some Pcap, d_endian = Little,
    d_legacy = Some ?h, d_interfaces = [], d_section = 0, d_sections_seen = 0, d_section_end = None,
    d_next_frame = 1, d_records = 1\<rparr>"
  let ?in = "replicate 8 0 @ [2, 0, 0, 0, 2, 0, 0, 0, 0xaa, 0xbb] :: bytes"
  let ?p = "\<lparr>pm_frame = 1, pm_section = 0, pm_interface = 0, pm_link_type = 1, captured_len = 2,
    original_len = 2, data_offset = 16,
    pm_timestamp = Some \<lparr>ticks = 0, ts_resolution = Decimal 6, offset_seconds = 0\<rparr>\<rparr>"
  let ?r = "\<lparr>rec_offset = 24, rec_endian = Little, rec_raw = ?in, rec_kind = Packet ?p,
    rec_options = [], rec_warnings = []\<rparr>"
  have w: "word32_at Little ?in 0 = 0" "word32_at Little ?in 4 = 0" "word32_at Little ?in 8 = 2"
    "word32_at Little ?in 12 = 2"
    by (simp_all add: word32_at_def nth_append be32_word_def)
  have dec: "decode ?d ?in 24 = Ok (?d\<lparr>d_next_frame := 2, d_records := 2\<rparr>, Decoded ?r)"
    using w
    by (simp add: decode_def required_def decode_legacy_packet_def validate_lengths_def
        timestamp_legacy_def checked_add_def usize_limit_def)
  from packet_bytes_in_record [OF dec, of ?p] have "record_packet ?r = Ok (Some (?p, [0xaa, 0xbb]))"
    by (simp add: sub_list_def)
  with dec show ?thesis by blast
qed

end
