(* ===== verification/Capture_Streams.thy ===== *)
theory Capture_Streams
  imports Capture_Extend
begin

text \<open>
  The two ways \<^verbatim>\<open>src/src/capture.rs\<close> drives the decoder: \<^verbatim>\<open>CaptureIter\<close> over a complete byte string and
  \<^verbatim>\<open>CaptureReader\<close> over an incremental source, and the forensic scan \<^verbatim>\<open>find_next_section\<close>.  A source
  is a parameter: a \<^verbatim>\<open>read\<close> operation whose documented behaviour is the locale \<open>byte_source\<close>.  The
  reader loop may wait on the source for ever, so it is a partial function; the lemmas show that
  on a source that obeys the contract it returns, and returns what the iterator returns.
\<close>

section \<open>Iterating over a byte string\<close>

record capture_iter =
  it_data :: bytes
  it_position :: nat
  it_decoder :: decoder
  it_terminal :: bool

definition iter_new :: "bytes \<Rightarrow> limits \<Rightarrow> parse_mode \<Rightarrow> capture_iter result" where
  "iter_new data l mode =
     (if length data > max_input_bytes l then Err (error_limit ''input_bytes'')
      else and_then (decoder_new l mode) (\<lambda>d.
        Ok \<lparr>it_data = data, it_position = 0, it_decoder = d, it_terminal = False\<rparr>))"

definition iter_next :: "capture_iter \<Rightarrow> capture_iter \<times> cap_record result option" where
  "iter_next it =
     (if it_terminal it then (it, None)
      else if it_position it = length (it_data it)
      then (it\<lparr>it_terminal := True\<rparr>,
            case decoder_finish (it_decoder it) (it_position it) of
              Ok _ \<Rightarrow> None | Err e \<Rightarrow> Some (Err e) | Panic \<Rightarrow> Some Panic)
      else
        case and_then (range_from (it_data it) (it_position it))
               (\<lambda>input. decode (it_decoder it) input (it_position it)) of
          Ok (d, Decoded r) \<Rightarrow>
            (it\<lparr>it_decoder := d, it_position := it_position it + length (rec_raw r)\<rparr>, Some (Ok r))
        | Ok (d, NeedMore need) \<Rightarrow>
            (it\<lparr>it_decoder := d, it_terminal := True\<rparr>,
             Some (Err (error_new Truncated (it_position it) ''record''
               (''need '' @ show_nat need @ '' bytes; have '' @
                show_nat (length (it_data it) - it_position it)))))
        | Err e \<Rightarrow> (it\<lparr>it_terminal := True\<rparr>, Some (Err e))
        | Panic \<Rightarrow> (it, Some Panic))"

definition iter_measure :: "capture_iter \<Rightarrow> nat" where
  "iter_measure it = (if it_terminal it then 0 else Suc (length (it_data it) - it_position it))"

lemma iter_next_progress:
  assumes "iter_next it = (it', Some x)" and "x \<noteq> Panic"
  shows "iter_measure it' < iter_measure it"
proof (cases "it_terminal it \<or> it_position it = length (it_data it)")
  case True
  with assms show ?thesis
    by (auto simp: iter_next_def iter_measure_def split: if_splits outcome.splits)
next
  case False
  show ?thesis
  proof (cases "it_position it \<le> length (it_data it)")
    case True
    with False assms show ?thesis
      by (auto simp: iter_next_def iter_measure_def elim!: decode_Decoded
          split: outcome.splits decode_step.splits prod.splits)
  next
    case beyond: False
    with False assms show ?thesis by (auto simp: iter_next_def range_from_def range_at_def)
  qed
qed

text \<open>All items the iterator yields; a panic ends the iteration.\<close>

function iter_items :: "capture_iter \<Rightarrow> cap_record result list" where
  "iter_items it =
     (case iter_next it of
        (it', None) \<Rightarrow> []
      | (it', Some Panic) \<Rightarrow> [Panic]
      | (it', Some (Ok r)) \<Rightarrow> Ok r # iter_items it'
      | (it', Some (Err e)) \<Rightarrow> Err e # iter_items it')"
  by pat_completeness auto
termination
  by (relation "measure iter_measure") (auto dest: iter_next_progress [OF sym])

declare iter_items.simps [simp del]

section \<open>Reading from a source\<close>

datatype read_result = Interrupted | ReadError error | ReadBytes bytes

record 'r capture_reader =
  cr_reader :: 'r
  cr_decoder :: decoder
  cr_buffer :: bytes
  cr_offset :: nat
  cr_terminal :: bool
  cr_max_input :: nat

definition reader_new :: "'r \<Rightarrow> limits \<Rightarrow> parse_mode \<Rightarrow> 'r capture_reader result" where
  "reader_new r l mode =
     and_then (decoder_new l mode) (\<lambda>d.
       Ok \<lparr>cr_reader = r, cr_decoder = d, cr_buffer = [], cr_offset = 0, cr_terminal = False,
           cr_max_input = max_input_bytes l\<rparr>)"

partial_function (option) read_loop ::
    "('r \<Rightarrow> nat \<Rightarrow> 'r \<times> read_result) \<Rightarrow> 'r capture_reader
      \<Rightarrow> ('r capture_reader \<times> cap_record option result) option" where
  "read_loop rd cr =
     (case required (cr_decoder cr) (cr_buffer cr) (cr_offset cr) of
        Err e \<Rightarrow> Some (cr, Err e)
      | Panic \<Rightarrow> Some (cr, Panic)
      | Ok need \<Rightarrow>
          if length (cr_buffer cr) \<ge> need then
            case decode (cr_decoder cr) (cr_buffer cr) (cr_offset cr) of
              Err e \<Rightarrow> Some (cr, Err e)
            | Panic \<Rightarrow> Some (cr, Panic)
            | Ok (d, Decoded r) \<Rightarrow>
                (case checked_add (cr_offset cr) (length (rec_raw r)) of
                   Some off' \<Rightarrow> Some (cr\<lparr>cr_decoder := d, cr_offset := off'\<rparr>, Ok (Some r))
                 | None \<Rightarrow> Some (cr\<lparr>cr_decoder := d\<rparr>, Err (error_limit ''file_offset'')))
            | Ok (d, NeedMore n) \<Rightarrow>
                Some (cr\<lparr>cr_decoder := d\<rparr>, Err (error_new Invariant (cr_offset cr) ''decoder''
                  ''required/decode disagreement''))
          else
            case rd (cr_reader cr) (min (need - length (cr_buffer cr)) 8192) of
              (r', Interrupted) \<Rightarrow> read_loop rd (cr\<lparr>cr_reader := r'\<rparr>)
            | (r', ReadError e) \<Rightarrow> Some (cr\<lparr>cr_reader := r'\<rparr>, Err e)
            | (r', ReadBytes bs) \<Rightarrow>
                if bs = [] then
                  if cr_buffer cr = []
                  then Some (cr\<lparr>cr_reader := r', cr_terminal := True\<rparr>,
                             and_then (decoder_finish (cr_decoder cr) (cr_offset cr))
                               (\<lambda>_. Ok None))
                  else Some (cr\<lparr>cr_reader := r', cr_terminal := True\<rparr>,
                             Err (error_new Truncated (cr_offset cr) ''record''
                               (''EOF after '' @ show_nat (length (cr_buffer cr)) @
                                '' bytes; need '' @ show_nat need)))
                else
                  case checked_add (cr_offset cr) (length (cr_buffer cr) + length bs) of
                    None \<Rightarrow> Some (cr\<lparr>cr_reader := r'\<rparr>, Err (error_limit ''input_bytes''))
                  | Some end \<Rightarrow>
                      if end > cr_max_input cr
                      then Some (cr\<lparr>cr_reader := r'\<rparr>, Err (error_limit ''input_bytes''))
                      else read_loop rd (cr\<lparr>cr_reader := r', cr_buffer := cr_buffer cr @ bs\<rparr>))"

definition read_one ::
    "('r \<Rightarrow> nat \<Rightarrow> 'r \<times> read_result) \<Rightarrow> 'r capture_reader
      \<Rightarrow> ('r capture_reader \<times> cap_record option result) option" where
  "read_one rd cr = read_loop rd (cr\<lparr>cr_buffer := []\<rparr>)"

definition next_record ::
    "('r \<Rightarrow> nat \<Rightarrow> 'r \<times> read_result) \<Rightarrow> 'r capture_reader
      \<Rightarrow> ('r capture_reader \<times> cap_record option result) option" where
  "next_record rd cr =
     (if cr_terminal cr then Some (cr, Ok None)
      else Option.bind (read_one rd cr) (\<lambda>(cr', result).
        Some (case result of
                Err e \<Rightarrow> (cr'\<lparr>cr_terminal := True\<rparr>, result)
              | _ \<Rightarrow> (cr', result))))"

text \<open>All items of the reader as an iterator.\<close>

partial_function (option) reader_items ::
    "('r \<Rightarrow> nat \<Rightarrow> 'r \<times> read_result) \<Rightarrow> 'r capture_reader \<Rightarrow> cap_record result list option" where
  "reader_items rd cr =
     Option.bind (next_record rd cr) (\<lambda>(cr', result).
       case result of
         Ok None \<Rightarrow> Some []
       | Ok (Some r) \<Rightarrow> Option.bind (reader_items rd cr') (\<lambda>rs. Some (Ok r # rs))
       | Err e \<Rightarrow> Option.bind (reader_items rd cr') (\<lambda>rs. Some (Err e # rs))
       | Panic \<Rightarrow> Some [Panic])"

text \<open>
  The contract of \<^verbatim>\<open>std::io::Read::read\<close>: it delivers the next bytes of the source, at most as many
  as were asked for, and delivers none only at the end; it may be interrupted, but not for ever.
\<close>

locale byte_source =
  fixes rd :: "'r \<Rightarrow> nat \<Rightarrow> 'r \<times> read_result"
    and contents :: "'r \<Rightarrow> bytes"
    and patience :: "'r \<Rightarrow> nat"
  assumes interrupted: "rd r n = (r', Interrupted) \<Longrightarrow>
      contents r' = contents r \<and> patience r' < patience r"
    and delivered: "rd r n = (r', ReadBytes bs) \<Longrightarrow> 0 < n \<Longrightarrow>
      contents r = bs @ contents r' \<and> length bs \<le> n \<and> (bs = [] \<longrightarrow> contents r = [])"
    and no_error: "rd r n \<noteq> (r', ReadError e)"

section \<open>Scanning for a section\<close>

function scan_sections :: "bytes \<Rightarrow> nat \<Rightarrow> limits \<Rightarrow> nat \<Rightarrow> nat option" where
  "scan_sections data fin l p =
     (case checked_add p 28 of
        None \<Rightarrow> None
      | Some q \<Rightarrow>
          if q \<le> fin then
            if sub_list data p (p + 4) = shb_magic then
              case decoder_new l Strict of
                Ok d \<Rightarrow>
                  if (case decode d (sub_list data p fin) p of
                        Ok (_, Decoded r) \<Rightarrow> (case rec_kind r of Section _ _ \<Rightarrow> True | _ \<Rightarrow> False)
                      | _ \<Rightarrow> False)
                  then Some p
                  else (case checked_add p 4 of None \<Rightarrow> None | Some p' \<Rightarrow> scan_sections data fin l p')
              | _ \<Rightarrow> None
            else (case checked_add p 4 of None \<Rightarrow> None | Some p' \<Rightarrow> scan_sections data fin l p')
          else None)"
  by pat_completeness auto
termination
  by (relation "measure (\<lambda>(data, fin, l, p). fin - p)") (auto simp: checked_add_eq_Some)

declare scan_sections.simps [simp del]

definition find_next_section :: "bytes \<Rightarrow> nat \<Rightarrow> nat \<Rightarrow> limits \<Rightarrow> nat option" where
  "find_next_section data start max_scan l =
     (let fin = min (length data) (min (start + max_scan) (usize_limit - 1))
      in case checked_add start 3 of
           None \<Rightarrow> None
         | Some v \<Rightarrow> scan_sections data fin l (v - v mod 4))"

section \<open>The iterator partitions its input\<close>

definition iter_inv :: "capture_iter \<Rightarrow> bool" where
  "iter_inv it \<longleftrightarrow> it_position it \<le> length (it_data it)"

lemma iter_next_inv: "iter_inv it \<Longrightarrow> iter_next it = (it', x) \<Longrightarrow> iter_inv it' \<and> it_data it' = it_data it"
  by (auto simp: iter_next_def iter_inv_def elim!: decode_Decoded
      split: if_split_asm outcome.split_asm decode_step.split_asm prod.split_asm)

lemma iter_next_no_panic: "iter_inv it \<Longrightarrow> iter_next it \<noteq> (it', Some Panic)"
  by (auto simp: iter_next_def iter_inv_def decoder_finish_def decode_never_panics
      split: if_split_asm outcome.split_asm decode_step.split_asm prod.split_asm option.split_asm)

lemma iter_items_terminal: "it_terminal it \<Longrightarrow> iter_items it = []"
  by (subst iter_items.simps) (simp add: iter_next_def)

text \<open>Records seen up to the first error, and whether there was one.\<close>

definition ok_items :: "('e, 'a) outcome list \<Rightarrow> 'a list" where
  "ok_items xs = map the_ok (takeWhile (\<lambda>x. \<exists>r. x = Ok r) xs)"

fun offsets_from :: "nat \<Rightarrow> cap_record list \<Rightarrow> bool" where
  "offsets_from p [] \<longleftrightarrow> True"
| "offsets_from p (r # rs) \<longleftrightarrow> rec_offset r = p \<and> rec_raw r \<noteq> [] \<and> offsets_from (p + length (rec_raw r)) rs"

lemma iter_next_cases:
  assumes "iter_inv it" and "\<not> it_terminal it"
  shows "(it_position it = length (it_data it)
          \<and> (iter_next it = (it\<lparr>it_terminal := True\<rparr>, None)
             \<or> (\<exists>e. iter_next it = (it\<lparr>it_terminal := True\<rparr>, Some (Err e)))))
    \<or> (\<exists>it' e. iter_next it = (it', Some (Err e)) \<and> it_terminal it')
    \<or> (\<exists>d r. iter_next it = (it\<lparr>it_decoder := d, it_position := it_position it + length (rec_raw r)\<rparr>,
              Some (Ok r))
          \<and> decode (it_decoder it) (drop (it_position it) (it_data it)) (it_position it) = Ok (d, Decoded r))"
  using assms decode_never_panics
  by (auto simp: iter_next_def iter_inv_def decoder_finish_def
      split: outcome.splits decode_step.splits prod.splits option.splits)

lemma iter_items_partition:
  assumes "iter_inv it"
  shows "offsets_from (it_position it) (ok_items (iter_items it)) \<and>
    (\<exists>rest. drop (it_position it) (it_data it) = concat (map rec_raw (ok_items (iter_items it))) @ rest
       \<and> (\<not> it_terminal it \<and> (\<forall>x \<in> set (iter_items it). \<exists>r. x = Ok r) \<longrightarrow> rest = []))"
  using assms
proof (induction it rule: iter_items.induct)
  case (1 it)
  show ?case
  proof (cases "it_terminal it")
    case True
    then show ?thesis by (simp add: iter_items_terminal ok_items_def)
  next
    case False
    from iter_next_cases [OF "1.prems" False] show ?thesis
    proof (elim disjE conjE exE)
      fix d and r :: cap_record
      let ?it = "it\<lparr>it_decoder := d, it_position := it_position it + length (rec_raw r)\<rparr>"
      assume nx: "iter_next it = (?it, Some (Ok r))"
        and dec: "decode (it_decoder it) (drop (it_position it) (it_data it)) (it_position it) = Ok (d, Decoded r)"
      from decode_Decoded [OF dec] obtain need where raw:
        "rec_raw r = take need (drop (it_position it) (it_data it))" "4 \<le> need"
        "need \<le> length (drop (it_position it) (it_data it))" "rec_offset r = it_position it" by metis
      have inv: "iter_inv ?it" using iter_next_inv [OF "1.prems" nx] by simp
      from "1.IH" (1) [OF nx [symmetric] refl refl inv] obtain rest where IH:
        "offsets_from (it_position ?it) (ok_items (iter_items ?it))"
        "drop (it_position ?it) (it_data it) = concat (map rec_raw (ok_items (iter_items ?it))) @ rest"
        "\<not> it_terminal ?it \<and> (\<forall>x \<in> set (iter_items ?it). \<exists>r. x = Ok r) \<longrightarrow> rest = []"
        by auto
      have items: "iter_items it = Ok r # iter_items ?it"
        by (subst iter_items.simps) (simp add: nx)
      have "drop (it_position it) (it_data it) = rec_raw r @ drop (it_position ?it) (it_data it)"
        using raw by (simp add: add.commute flip: drop_drop)
      then show ?thesis using IH raw False by (auto simp: items ok_items_def)
    qed (use False "1.prems" in \<open>auto simp: iter_items.simps [of it] iter_items_terminal ok_items_def iter_inv_def\<close>)
  qed
qed

section \<open>The reader returns what the iterator returns\<close>

lemma required_Nil: "off < usize_limit \<Longrightarrow> \<exists>n. required d [] off = Ok n \<and> 0 < n"
  by (auto simp: required_def required_block_def checked_add_def
      split: option.splits capture_format.splits)

definition erase_detail :: "cap_record result \<Rightarrow> cap_record result" where
  "erase_detail = map_err (\<lambda>e. e\<lparr>err_detail := []\<rparr>)"

text \<open>What one call of the reader loop must return, from the bytes still ahead.\<close>

definition read_spec ::
    "decoder \<Rightarrow> nat \<Rightarrow> bytes \<Rightarrow> ('r \<Rightarrow> bytes) \<Rightarrow> 'r capture_reader \<Rightarrow> cap_record option result \<Rightarrow> bool" where
  "read_spec d off rest contents cr' res \<longleftrightarrow>
     (if rest = [] then cr_terminal cr' \<and> res = and_then (decoder_finish d off) (\<lambda>_. Ok None)
      else case decode d rest off of
        Ok (d', Decoded r) \<Rightarrow>
          res = Ok (Some r) \<and> cr_decoder cr' = d' \<and> cr_offset cr' = off + length (rec_raw r)
          \<and> contents (cr_reader cr') = drop (length (rec_raw r)) rest
      | Ok (d', NeedMore n) \<Rightarrow> (\<exists>dtl. res = Err (error_new Truncated off ''record'' dtl))
      | Err e \<Rightarrow> res = Err e
      | Panic \<Rightarrow> False)"

definition loop_pre :: "('r \<Rightarrow> bytes) \<Rightarrow> 'r capture_reader \<Rightarrow> bool" where
  "loop_pre contents cr \<longleftrightarrow>
     (let d = cr_decoder cr; off = cr_offset cr; rest = cr_buffer cr @ contents (cr_reader cr)
      in off + length rest < usize_limit \<and> off + length rest \<le> cr_max_input cr
         \<and> (rest \<noteq> [] \<longrightarrow> d_records d < max_records (d_limits d))
         \<and> (\<forall>n. required d (cr_buffer cr) off = Ok n \<longrightarrow> length (cr_buffer cr) \<le> n))"

context byte_source
begin

lemma read_loop_correct:
  assumes "loop_pre contents cr"
  shows "\<exists>cr' res. read_loop rd cr = Some (cr', res)
    \<and> read_spec (cr_decoder cr) (cr_offset cr) (cr_buffer cr @ contents (cr_reader cr)) contents cr' res
    \<and> cr_max_input cr' = cr_max_input cr
    \<and> (cr_terminal cr' \<longrightarrow> cr_terminal cr \<or> res = Ok None \<or> fails res)"
  using assms
proof (induction cr rule: wf_induct_rule [OF wf_measures
    [of "[\<lambda>cr. length (contents (cr_reader cr)), \<lambda>cr. patience (cr_reader cr)]"]])
  case (1 cr)
  let ?d = "cr_decoder cr" and ?off = "cr_offset cr" and ?buf = "cr_buffer cr"
  let ?rest = "?buf @ contents (cr_reader cr)"
  have fit: "?off + length ?rest < usize_limit" "?off + length ?rest \<le> cr_max_input cr"
    and recs: "?rest \<noteq> [] \<Longrightarrow> d_records ?d < max_records (d_limits ?d)"
    and small: "\<And>n. required ?d ?buf ?off = Ok n \<Longrightarrow> length ?buf \<le> n"
    using "1.prems" by (auto simp: loop_pre_def Let_def)
  note unfold = read_loop.simps [of rd cr]
  show ?case
  proof (cases "required ?d ?buf ?off")
    case Panic
    then show ?thesis by simp
  next
    case (Err e)
    then have "?buf \<noteq> []" using required_Nil [of ?off ?d] fit(1) by auto
    moreover have "required ?d ?rest ?off = Err e"
      using required_extend [of ?off ?buf "contents (cr_reader cr)" ?d] fit(1) Err by simp
    ultimately show ?thesis
      using Err recs by (auto simp: unfold read_spec_def decode_def fails_def)
  next
    case (Ok need)
    show ?thesis
    proof (cases "need \<le> length ?buf")
      case True
      with small [OF Ok] have len: "length ?buf = need" by simp
      have ne: "?rest \<noteq> []" using required_pos [OF Ok] True by auto
      have "decode ?d ?buf ?off \<noteq> Ok (d', NeedMore n)" for d' n
        using decode_NeedMore [of ?d ?buf ?off d' n] Ok True by auto
      then have same: "decode ?d ?rest ?off = decode ?d ?buf ?off"
        by (intro decode_extend [OF fit(1)]) auto
      show ?thesis
      proof (cases "decode ?d ?buf ?off")
        case (Err e)
        with Ok True ne same show ?thesis by (auto simp: unfold read_spec_def fails_def)
      next
        case (Ok step)
        obtain d' r where step: "step = (d', Decoded r)"
          using \<open>\<And>d' n. decode ?d ?buf ?off \<noteq> Ok (d', NeedMore n)\<close> Ok
          by (cases step; cases "snd step") auto
        from Ok step have raw: "rec_raw r = ?buf"
          using decode_Decoded [of ?d ?buf ?off d' r] \<open>required ?d ?buf ?off = Ok need\<close> len by auto
        have "checked_add ?off (length ?buf) = Some (?off + length ?buf)"
          using fit(1) by (simp add: checked_add_def)
        with Ok step raw ne same True \<open>required ?d ?buf ?off = Ok need\<close> show ?thesis
          by (auto simp: unfold read_spec_def)
      qed (use decode_never_panics in blast)
    next
      case False
      then have pos: "0 < min (need - length ?buf) 8192" by simp
      obtain r' x where read: "rd (cr_reader cr) (min (need - length ?buf) 8192) = (r', x)"
        by fastforce
      show ?thesis
      proof (cases x)
        case Interrupted
        let ?cr = "cr\<lparr>cr_reader := r'\<rparr>"
        have c: "contents r' = contents (cr_reader cr)" "patience r' < patience (cr_reader cr)"
          using interrupted read Interrupted by blast+
        then have "loop_pre contents ?cr" using "1.prems" by (simp add: loop_pre_def)
        then have IH: "\<exists>cr' res. read_loop rd ?cr = Some (cr', res)
            \<and> read_spec ?d ?off ?rest contents cr' res \<and> cr_max_input cr' = cr_max_input cr
            \<and> (cr_terminal cr' \<longrightarrow> cr_terminal cr \<or> res = Ok None \<or> fails res)"
          using "1.IH" [of ?cr] c by simp
        have "read_loop rd cr = read_loop rd ?cr"
          using Ok False read Interrupted by (simp add: unfold)
        with IH show ?thesis by simp
      next
        case (ReadError e)
        with read no_error show ?thesis by blast
      next
        case (ReadBytes bs)
        have c: "contents (cr_reader cr) = bs @ contents r'" "length bs \<le> need - length ?buf"
          "bs = [] \<Longrightarrow> contents (cr_reader cr) = []"
          using delivered [OF read [unfolded ReadBytes] pos] by auto
        show ?thesis
        proof (cases "bs = []")
          case True
          with c have rest: "?rest = ?buf" by simp
          have "decode ?d ?buf ?off = Ok (?d, NeedMore need)" if "?buf \<noteq> []"
            using Ok False recs that by (simp add: decode_def)
          with Ok False read ReadBytes True rest show ?thesis
            by (auto simp: unfold read_spec_def fails_def decoder_finish_def split: option.splits)
        next
          case bs: False
          let ?cr = "cr\<lparr>cr_reader := r', cr_buffer := ?buf @ bs\<rparr>"
          have "length (?buf @ bs) \<le> n" if "required ?d (?buf @ bs) ?off = Ok n" for n
            using required_grows [OF Ok _ _ that] False c(2) by simp
          then have "loop_pre contents ?cr" using fit recs c(1) by (simp add: loop_pre_def Let_def)
          moreover have "length (contents r') < length (contents (cr_reader cr))"
            using c(1) bs by simp
          ultimately have IH: "\<exists>cr' res. read_loop rd ?cr = Some (cr', res)
              \<and> read_spec ?d ?off ?rest contents cr' res \<and> cr_max_input cr' = cr_max_input cr
              \<and> (cr_terminal cr' \<longrightarrow> cr_terminal cr \<or> res = Ok None \<or> fails res)"
            using "1.IH" [of ?cr] c(1) by simp
          have "checked_add ?off (length ?buf + length bs) = Some (?off + (length ?buf + length bs))"
            "\<not> ?off + (length ?buf + length bs) > cr_max_input cr"
            using fit c(1) by (auto simp: checked_add_def)
          then have "read_loop rd cr = read_loop rd ?cr"
            using Ok False read ReadBytes bs by (simp add: unfold)
          with IH show ?thesis by simp
        qed
      qed
    qed
  qed
qed

lemma reader_items_terminal: "cr_terminal cr \<Longrightarrow> reader_items rd cr = Some []"
  by (subst reader_items.simps) (simp add: next_record_def)

lemma reader_items_correct:
  assumes "iter_inv it" "\<not> it_terminal it" "\<not> cr_terminal cr"
    and "it_decoder it = cr_decoder cr" "it_position it = cr_offset cr"
    and "contents (cr_reader cr) = drop (it_position it) (it_data it)"
    and "length (it_data it) < usize_limit" "length (it_data it) \<le> cr_max_input cr"
    and "Err (error_limit ''records'') \<notin> set (iter_items it)"
  shows "\<exists>items. reader_items rd cr = Some items
    \<and> map erase_detail items = map erase_detail (iter_items it)"
  using assms
proof (induction it arbitrary: cr rule: iter_items.induct)
  case (1 it)
  let ?d = "it_decoder it" and ?p = "it_position it"
  let ?rest = "drop ?p (it_data it)"
  note pos = "1.prems"(1) [unfolded iter_inv_def]
  have recs: "d_records ?d < max_records (d_limits ?d)" if "?rest \<noteq> []"
  proof (rule ccontr)
    assume "\<not> d_records ?d < max_records (d_limits ?d)"
    then have "decode ?d ?rest ?p = Err (error_limit ''records'')" by (simp add: decode_def)
    then have "\<exists>it'. iter_next it = (it', Some (Err (error_limit ''records'')))"
      using that pos "1.prems"(2) by (auto simp: iter_next_def)
    then have "Err (error_limit ''records'') \<in> set (iter_items it)"
      by (subst iter_items.simps) auto
    with "1.prems"(9) show False by simp
  qed
  have "loop_pre contents (cr\<lparr>cr_buffer := []\<rparr>)"
    using "1.prems" recs pos by (simp add: loop_pre_def Let_def)
  from read_loop_correct [OF this] obtain cr' res where
    loop: "read_one rd cr = Some (cr', res)" "read_spec ?d ?p ?rest contents cr' res"
      "cr_max_input cr' = cr_max_input cr" "cr_terminal cr' \<Longrightarrow> res = Ok None \<or> fails res"
    using "1.prems" by (auto simp: read_one_def)
  have next_Err: "reader_items rd cr = Some [Err e]" if "res = Err e" for e
    using that loop(1) "1.prems"(3)
    by (subst reader_items.simps) (simp add: next_record_def reader_items_terminal)
  show ?case
  proof (cases "?rest = []")
    case True
    then have "?p = length (it_data it)" using pos by simp
    with True loop "1.prems"(2,3) next_Err show ?thesis
      by (auto simp: read_spec_def decoder_finish_def iter_items.simps [of it] iter_next_def
          iter_items_terminal reader_items.simps [of rd cr] next_record_def split: option.splits)
  next
    case False
    then have p: "?p \<noteq> length (it_data it)" by auto
    show ?thesis
    proof (cases "decode ?d ?rest ?p")
      case (Err e)
      then have "iter_items it = [Err e]"
        using p pos "1.prems"(2)
        by (simp add: iter_items.simps [of it] iter_next_def iter_items_terminal)
      moreover have "res = Err e" using loop(2) False Err by (simp add: read_spec_def)
      ultimately show ?thesis using next_Err by simp
    next
      case Panic
      then show ?thesis using decode_never_panics by blast
    next
      case (Ok step)
      show ?thesis
      proof (cases "snd step")
        case (NeedMore n)
        then obtain d' where step: "step = (d', NeedMore n)" by (cases step) auto
        with Ok obtain dtl where "iter_items it = [Err (error_new Truncated ?p ''record'' dtl)]"
          using p pos "1.prems"(2)
          by (simp add: iter_items.simps [of it] iter_next_def iter_items_terminal)
        moreover obtain dtl' where "res = Err (error_new Truncated ?p ''record'' dtl')"
          using loop(2) False Ok step by (auto simp: read_spec_def)
        ultimately show ?thesis using next_Err by (simp add: erase_detail_def error_new_def)
      next
        case (Decoded r)
        then obtain d' where step: "step = (d', Decoded r)" by (cases step) auto
        let ?it = "it\<lparr>it_decoder := d', it_position := ?p + length (rec_raw r)\<rparr>"
        have nx: "iter_next it = (?it, Some (Ok r))"
          using p pos "1.prems"(2) Ok step by (simp add: iter_next_def)
        then have items: "iter_items it = Ok r # iter_items ?it"
          by (simp add: iter_items.simps [of it])
        have cr': "res = Ok (Some r)" "cr_decoder cr' = d'" "cr_offset cr' = ?p + length (rec_raw r)"
          "contents (cr_reader cr') = drop (length (rec_raw r)) ?rest"
          using loop(2) False Ok step by (simp_all add: read_spec_def)
        have "\<exists>items. reader_items rd cr' = Some items
            \<and> map erase_detail items = map erase_detail (iter_items ?it)"
        proof (rule "1.IH"(1) [OF nx [symmetric] refl refl])
          show "iter_inv ?it" using iter_next_inv [OF "1.prems"(1) nx] by simp
          show "\<not> cr_terminal cr'" using loop(4) cr'(1) by (auto simp: fails_def)
          show "contents (cr_reader cr') = drop (it_position ?it) (it_data ?it)"
            using cr'(4) by (simp add: add.commute)
        qed (use "1.prems" cr' loop(3) items in auto)
        then obtain items' where "reader_items rd cr' = Some items'"
          "map erase_detail items' = map erase_detail (iter_items ?it)" by blast
        moreover have "next_record rd cr = Some (cr', Ok (Some r))"
          using loop(1) cr'(1) "1.prems"(3) by (simp add: next_record_def)
        ultimately show ?thesis by (simp add: items reader_items.simps [of rd cr])
      qed
    qed
  qed
qed

end

section \<open>A source that delivers in chunks\<close>

text \<open>
  Each element of the schedule is one call: zero is an interruption, a positive number delivers at
  most that many bytes; an exhausted schedule delivers whatever is asked for.
\<close>

fun chunk_read :: "bytes \<times> nat list \<Rightarrow> nat \<Rightarrow> (bytes \<times> nat list) \<times> read_result" where
  "chunk_read (data, []) n = ((drop n data, []), ReadBytes (take n data))"
| "chunk_read (data, k # ks) n =
     (if k = 0 then ((data, ks), Interrupted)
      else ((drop (min k n) data, ks), ReadBytes (take (min k n) data)))"

interpretation chunked: byte_source chunk_read fst "\<lambda>s. length (snd s)"
proof
  show "chunk_read r n = (r', Interrupted) \<Longrightarrow> fst r' = fst r \<and> length (snd r') < length (snd r)"
    for r r' n by (cases "(r, n)" rule: chunk_read.cases) (auto split: if_splits)
  show "chunk_read r n = (r', ReadBytes bs) \<Longrightarrow> 0 < n \<Longrightarrow>
      fst r = bs @ fst r' \<and> length bs \<le> n \<and> (bs = [] \<longrightarrow> fst r = [])"
    for r r' n bs by (cases "(r, n)" rule: chunk_read.cases) (auto split: if_splits)
  show "chunk_read r n \<noteq> (r', ReadError e)" for r r' n e
    by (cases "(r, n)" rule: chunk_read.cases) auto
qed

section \<open>Properties\<close>

text \<open>
  C39: the iterator partitions its input.  The records it yields before any error are consecutive:
  each starts where the one before ended, they are non-empty, and their raw bytes concatenated are a
  prefix of the input; when no error is reported they are the whole input.
\<close>

theorem iterator_partitions_input:
  assumes "iter_new data l mode = Ok it"
  shows "offsets_from 0 (ok_items (iter_items it)) \<and>
    (\<exists>rest. data = concat (map rec_raw (ok_items (iter_items it))) @ rest
       \<and> ((\<forall>x \<in> set (iter_items it). \<exists>r. x = Ok r) \<longrightarrow> rest = []))"
proof -
  have it: "it_data it = data" "it_position it = 0" "\<not> it_terminal it"
    using assms by (auto simp: iter_new_def elim!: and_then_OkE split: if_splits)
  then have "iter_inv it" by (simp add: iter_inv_def)
  from iter_items_partition [OF this] it show ?thesis by simp
qed

lemma sample_header_items:
  assumes "decoder_new limits_default Strict = Ok d"
  shows "\<exists>h. iter_items \<lparr>it_data = [0xd4, 0xc3, 0xb2, 0xa1, 2, 0, 4, 0, 0, 0, 0, 0, 0, 0, 0, 0, 0xff, 0xff, 0, 0, 1, 0, 0, 0],
      it_position = 0, it_decoder = d, it_terminal = False\<rparr> = [Ok h]
    \<and> rec_raw h = [0xd4, 0xc3, 0xb2, 0xa1, 2, 0, 4, 0, 0, 0, 0, 0, 0, 0, 0, 0, 0xff, 0xff, 0, 0, 1, 0, 0, 0]"
proof -
  let ?data = "[0xd4, 0xc3, 0xb2, 0xa1, 2, 0, 4, 0, 0, 0, 0, 0, 0, 0, 0, 0, 0xff, 0xff, 0, 0, 1, 0, 0, 0] :: bytes"
  have w: "word16_at Little ?data 4 = 2" "word16_at Little ?data 6 = 4"
    "word32_at Little ?data 16 = 65535" "word32_at Little ?data 20 = 1"
    by (simp_all add: word16_at_def word32_at_def be16_word_def be32_word_def)
  with decoder_new_Ok [OF assms] show ?thesis
    by (subst iter_items.simps, simp add: iter_next_def decode_def required_def checked_add_def
        usize_limit_def shb_magic_def decode_legacy_header_def Let_def)
      (subst iter_items.simps, simp add: iter_next_def decoder_finish_def)
qed

theorem iterator_partitions_input_witness:
  "\<exists>it. iter_new [0xd4, 0xc3, 0xb2, 0xa1, 2, 0, 4, 0, 0, 0, 0, 0, 0, 0, 0, 0, 0xff, 0xff, 0, 0, 1, 0, 0, 0]
      limits_default Strict = Ok it
    \<and> concat (map rec_raw (ok_items (iter_items it))) =
      [0xd4, 0xc3, 0xb2, 0xa1, 2, 0, 4, 0, 0, 0, 0, 0, 0, 0, 0, 0, 0xff, 0xff, 0, 0, 1, 0, 0, 0]"
proof -
  let ?data = "[0xd4, 0xc3, 0xb2, 0xa1, 2, 0, 4, 0, 0, 0, 0, 0, 0, 0, 0, 0, 0xff, 0xff, 0, 0, 1, 0, 0, 0] :: bytes"
  obtain d where d: "decoder_new limits_default Strict = Ok d" by (simp add: decoder_new_def)
  let ?it = "\<lparr>it_data = ?data, it_position = 0, it_decoder = d, it_terminal = False\<rparr>"
  have it: "iter_new ?data limits_default Strict = Ok ?it" using d by (simp add: iter_new_def)
  from iterator_partitions_input [OF it] sample_header_items [OF d]
  have "concat (map rec_raw (ok_items (iter_items ?it))) = ?data" by (auto simp: ok_items_def)
  with it show ?thesis by blast
qed

text \<open>
  C2: reading incrementally is equivalent to decoding the complete buffer.  On any source that obeys
  the contract of \<^verbatim>\<open>std::io::Read\<close>, however it splits or interrupts the delivery, \<^verbatim>\<open>CaptureReader\<close>
  terminates and yields what \<^verbatim>\<open>CaptureIter\<close> yields on the same bytes: the same records and the same
  errors up to the wording of their detail.  (When the record budget runs out first, the reader
  may report the next record's own error instead; that case is excluded.)
\<close>

theorem reader_equals_iterator:
  assumes "byte_source rd contents patience" "contents src = data" "length data < usize_limit"
    and "iter_new data l mode = Ok it" "reader_new src l mode = Ok cr"
    and "Err (error_limit ''records'') \<notin> set (iter_items it)"
  shows "\<exists>items. reader_items rd cr = Some items \<and> map erase_detail items = map erase_detail (iter_items it)"
proof -
  obtain d where "decoder_new l mode = Ok d" and fits: "length data \<le> max_input_bytes l"
    and it: "it = \<lparr>it_data = data, it_position = 0, it_decoder = d, it_terminal = False\<rparr>"
    and cr: "cr = \<lparr>cr_reader = src, cr_decoder = d, cr_buffer = [], cr_offset = 0, cr_terminal = False,
      cr_max_input = max_input_bytes l\<rparr>"
    using assms(4,5) by (auto simp: iter_new_def reader_new_def elim!: and_then_OkE split: if_splits)
  show ?thesis
    by (rule byte_source.reader_items_correct [OF assms(1)])
      (use assms fits it cr in \<open>simp_all add: iter_inv_def\<close>)
qed

theorem reader_equals_iterator_witness:
  "\<exists>cr items h. reader_new ([0xd4, 0xc3, 0xb2, 0xa1, 2, 0, 4, 0, 0, 0, 0, 0, 0, 0, 0, 0, 0xff, 0xff, 0, 0, 1, 0, 0, 0], [3, 0, 5])
       limits_default Strict = Ok cr
     \<and> reader_items chunk_read cr = Some items \<and> map erase_detail items = [Ok h]"
proof -
  let ?data = "[0xd4, 0xc3, 0xb2, 0xa1, 2, 0, 4, 0, 0, 0, 0, 0, 0, 0, 0, 0, 0xff, 0xff, 0, 0, 1, 0, 0, 0] :: bytes"
  obtain d where d: "decoder_new limits_default Strict = Ok d" by (simp add: decoder_new_def)
  let ?it = "\<lparr>it_data = ?data, it_position = 0, it_decoder = d, it_terminal = False\<rparr>"
  have it: "iter_new ?data limits_default Strict = Ok ?it" using d by (simp add: iter_new_def)
  obtain cr where cr: "reader_new (?data, [3, 0, 5 :: nat]) limits_default Strict = Ok cr"
    using d by (simp add: reader_new_def)
  obtain h where h: "iter_items ?it = [Ok h]" using sample_header_items [OF d] by blast
  have "byte_source chunk_read fst (\<lambda>s. length (snd s))" by (rule chunked.byte_source_axioms)
  from reader_equals_iterator [OF this _ _ it cr] h show ?thesis
    using cr by (auto simp: usize_limit_def erase_detail_def)
qed

end
