(* ===== verification/Writer.thy ===== *)
theory Writer
  imports Capture_Streams
begin

text \<open>
  \<^verbatim>\<open>src/src/writer.rs\<close>: the classic PCAP and PCAPNG writers and the validated archival copy.  The output
  is a parameter, a \<^verbatim>\<open>write_all\<close> operation with the contract \<open>byte_sink\<close>.  A writer that failed once
  stays failed; what a writer has written decodes, in strict mode, to what it was given.
\<close>

definition writer_failed :: error where
  "writer_failed = error_new Io 0 ''writer_failed''
     ''an earlier write failed; discard this writer rather than retrying an unknown partial write''"

section \<open>Classic PCAP\<close>

record 'w pcap_writer =
  pw_output :: 'w
  pw_endian :: endian
  pw_nanos :: bool
  pw_snaplen :: u32
  pw_limits :: limits
  pw_failed :: bool

definition pcap_header :: "endian \<Rightarrow> bool \<Rightarrow> u16 \<Rightarrow> u32 \<Rightarrow> bytes" where
  "pcap_header e nanos link_type snaplen =
     put_u32 e (ucast link_type) (put_u32 e snaplen (put_u32 e 0 (put_u32 e 0
       (put_u16 e 4 (put_u16 e 2 (put_u32 e (if nanos then 0xa1b23c4d else 0xa1b2c3d4) []))))))"

definition pcap_writer_new ::
    "('w \<Rightarrow> bytes \<Rightarrow> 'w \<times> unit result) \<Rightarrow> 'w \<Rightarrow> endian \<Rightarrow> bool \<Rightarrow> u16 \<Rightarrow> u32 \<Rightarrow> limits
      \<Rightarrow> 'w pcap_writer result" where
  "pcap_writer_new wr output e nanos link_type snaplen l =
     and_then (limits_validate l) (\<lambda>_.
       if snaplen = 0 then Err (error_new InvalidLength 0 ''snaplen'' ''must be nonzero'')
       else (case wr output (pcap_header e nanos link_type snaplen) of (output', res) \<Rightarrow>
         and_then res (\<lambda>_.
           Ok \<lparr>pw_output = output', pw_endian = e, pw_nanos = nanos, pw_snaplen = snaplen,
               pw_limits = l, pw_failed = False\<rparr>)))"

definition packet_header :: "endian \<Rightarrow> u32 \<Rightarrow> u32 \<Rightarrow> u32 \<Rightarrow> u32 \<Rightarrow> bytes" where
  "packet_header e sec frac cap orig =
     put_u32 e orig (put_u32 e cap (put_u32 e frac (put_u32 e sec [])))"

text \<open>\<^verbatim>\<open>write_all(a).and_then(|_| write_all(b))\<close>: the second write happens only if the first succeeds.\<close>

fun write_parts :: "('w \<Rightarrow> bytes \<Rightarrow> 'w \<times> unit result) \<Rightarrow> 'w \<Rightarrow> bytes list \<Rightarrow> 'w \<times> unit result" where
  "write_parts wr w [] = (w, Ok ())"
| "write_parts wr w (p # ps) =
     (case wr w p of
        (w', Ok _) \<Rightarrow> write_parts wr w' ps
      | (w', Err e) \<Rightarrow> (w', Err e)
      | (w', Panic) \<Rightarrow> (w', Panic))"

definition pcap_packet ::
    "('w \<Rightarrow> bytes \<Rightarrow> 'w \<times> unit result) \<Rightarrow> 'w pcap_writer \<Rightarrow> timestamp \<Rightarrow> u32 \<Rightarrow> bytes
      \<Rightarrow> 'w pcap_writer \<times> unit result" where
  "pcap_packet wr w ts orig data =
     (if pw_failed w then (w, Err writer_failed)
      else if length data > max_packet_bytes (pw_limits w) \<or> length data > unat (pw_snaplen w)
              \<or> length data > unat orig
      then (w, Err (error_new InvalidLength 0 ''packet''
        ''capture length exceeds budget, snaplen, or original length''))
      else
        case legacy_parts ts (pw_nanos w) of
          Err e \<Rightarrow> (w, Err e)
        | Panic \<Rightarrow> (w, Panic)
        | Ok (sec, frac) \<Rightarrow>
            if length data < 2 ^ 32 then
              (case write_parts wr (pw_output w)
                 [packet_header (pw_endian w) sec frac (of_nat (length data)) orig, data] of
                 (out, Err e) \<Rightarrow> (w\<lparr>pw_output := out, pw_failed := True\<rparr>, Err e)
               | (out, res) \<Rightarrow> (w\<lparr>pw_output := out\<rparr>, res))
            else (w, Err (error_limit ''packet_bytes'')))"

definition pcap_finish :: "('w \<Rightarrow> 'w \<times> unit result) \<Rightarrow> 'w pcap_writer \<Rightarrow> 'w result" where
  "pcap_finish flush w =
     (if pw_failed w then Err writer_failed
      else (case flush (pw_output w) of (out, res) \<Rightarrow> and_then res (\<lambda>_. Ok out)))"

section \<open>PCAPNG\<close>

record 'w pcapng_writer =
  nw_output :: 'w
  nw_endian :: endian
  nw_interfaces :: "iface list"
  nw_limits :: limits
  nw_failed :: bool

definition ng_frame :: "endian \<Rightarrow> u32 \<Rightarrow> u32 \<Rightarrow> bytes \<Rightarrow> bytes list" where
  "ng_frame e ty whole body = [put_u32 e whole (put_u32 e ty []), body, put_u32 e whole []]"

definition ng_block ::
    "('w \<Rightarrow> bytes \<Rightarrow> 'w \<times> unit result) \<Rightarrow> 'w pcapng_writer \<Rightarrow> u32 \<Rightarrow> bytes
      \<Rightarrow> 'w pcapng_writer \<times> unit result" where
  "ng_block wr w ty body =
     (if nw_failed w then (w, Err writer_failed)
      else
        case checked_add (length body) 12 of
          None \<Rightarrow> (w, Err (error_limit ''block_bytes''))
        | Some whole \<Rightarrow>
            if whole > max_block_bytes (nw_limits w) \<or> whole mod 4 \<noteq> 0
            then (w, Err (error_limit ''block_bytes''))
            else if whole < 2 ^ 32 then
              (case write_parts wr (nw_output w) (ng_frame (nw_endian w) ty (of_nat whole) body) of
                 (out, Err e) \<Rightarrow> (w\<lparr>nw_output := out, nw_failed := True\<rparr>, Err e)
               | (out, res) \<Rightarrow> (w\<lparr>nw_output := out\<rparr>, res))
            else (w, Err (error_limit ''block_bytes'')))"

definition shb_body :: "endian \<Rightarrow> bytes" where
  "shb_body e = put_u64 e (-1) (put_u16 e 0 (put_u16 e 1 (put_u32 e 0x1a2b3c4d [])))"

definition pcapng_writer_new ::
    "('w \<Rightarrow> bytes \<Rightarrow> 'w \<times> unit result) \<Rightarrow> 'w \<Rightarrow> endian \<Rightarrow> limits \<Rightarrow> 'w pcapng_writer result" where
  "pcapng_writer_new wr output e l =
     and_then (limits_validate l) (\<lambda>_.
       (case ng_block wr \<lparr>nw_output = output, nw_endian = e, nw_interfaces = [], nw_limits = l,
                          nw_failed = False\<rparr> 0x0a0d0d0a (shb_body e) of
          (w, res) \<Rightarrow> and_then res (\<lambda>_. Ok w)))"

definition pad_to :: "nat \<Rightarrow> bytes \<Rightarrow> bytes" where
  "pad_to n body = (if n \<le> length body then take n body else body @ replicate (n - length body) 0)"

definition put_option :: "bytes \<Rightarrow> endian \<Rightarrow> u16 \<Rightarrow> bytes \<Rightarrow> bytes result" where
  "put_option body e code v =
     (if length v < 2 ^ 16 then
        (let body' = put_u16 e (of_nat (length v)) (put_u16 e code body) @ v
         in and_then (align4 (length body')) (\<lambda>padded. Ok (pad_to padded body')))
      else Err (error_limit ''option''))"

definition idb_body :: "endian \<Rightarrow> u16 \<Rightarrow> u32 \<Rightarrow> u8 \<Rightarrow> int \<Rightarrow> bytes result" where
  "idb_body e link_type snaplen res offs =
     and_then (put_option (put_u32 e snaplen (put_u16 e 0 (put_u16 e link_type []))) e 9 [res]) (\<lambda>b1.
     and_then (put_option b1 e 14 (put_u64 e (of_int offs) [])) (\<lambda>b2.
       put_option b2 e 0 []))"

definition pcapng_interface ::
    "('w \<Rightarrow> bytes \<Rightarrow> 'w \<times> unit result) \<Rightarrow> 'w pcapng_writer \<Rightarrow> u16 \<Rightarrow> u32 \<Rightarrow> resolution \<Rightarrow> int
      \<Rightarrow> 'w pcapng_writer \<times> u32 result" where
  "pcapng_interface wr w link_type snaplen res offs =
     (if nw_failed w then (w, Err writer_failed)
      else if length (nw_interfaces w) \<ge> max_interfaces (nw_limits w)
      then (w, Err (error_limit ''interfaces''))
      else
        case and_then (resolution_to_pcapng res) (\<lambda>octet.
               if length (nw_interfaces w) < 2 ^ 32
               then idb_body (nw_endian w) link_type snaplen octet offs
               else Err (error_limit ''interfaces'')) of
          Err e \<Rightarrow> (w, Err e)
        | Panic \<Rightarrow> (w, Panic)
        | Ok body \<Rightarrow>
            (case ng_block wr w 1 body of
               (w', Ok _) \<Rightarrow>
                 (w'\<lparr>nw_interfaces := nw_interfaces w' @
                       [\<lparr>if_section = 0, if_id = of_nat (length (nw_interfaces w)),
                         if_link_type = ucast link_type, if_snaplen = snaplen,
                         if_resolution = res, if_offset_seconds = offs\<rparr>]\<rparr>,
                  Ok (of_nat (length (nw_interfaces w))))
             | (w', Err e) \<Rightarrow> (w', Err e)
             | (w', Panic) \<Rightarrow> (w', Panic)))"

definition epb_body :: "endian \<Rightarrow> u32 \<Rightarrow> u64 \<Rightarrow> u32 \<Rightarrow> u32 \<Rightarrow> bytes \<Rightarrow> nat \<Rightarrow> bytes" where
  "epb_body e iid t cap orig data whole =
     pad_to whole (put_u32 e orig (put_u32 e cap (put_u32 e (ucast t)
       (put_u32 e (ucast (drop_bit 32 t)) (put_u32 e iid [])))) @ data)"

definition pcapng_packet ::
    "('w \<Rightarrow> bytes \<Rightarrow> 'w \<times> unit result) \<Rightarrow> 'w pcapng_writer \<Rightarrow> u32 \<Rightarrow> timestamp \<Rightarrow> u32 \<Rightarrow> bytes
      \<Rightarrow> 'w pcapng_writer \<times> unit result" where
  "pcapng_packet wr w iid ts orig data =
     (if nw_failed w then (w, Err writer_failed)
      else if \<not> unat iid < length (nw_interfaces w)
      then (w, Err (error_new MissingInterface 0 ''interface'' ''declare interface before packet''))
      else
        let i = nw_interfaces w ! unat iid
        in if ts_resolution ts \<noteq> if_resolution i \<or> offset_seconds ts \<noteq> if_offset_seconds i
           then (w, Err (error_new InvalidTimestamp 0 ''timestamp''
             ''raw clock semantics must match the interface exactly''))
           else if length data > max_packet_bytes (nw_limits w) \<or> length data > unat orig
                   \<or> (if_snaplen i \<noteq> 0 \<and> length data > unat (if_snaplen i))
           then (w, Err (error_new InvalidLength 0 ''packet'' ''invalid captured length''))
           else
             case and_then (align4 (length data)) (\<lambda>padded.
                    ok_or (error_limit ''block_bytes'') (checked_add 20 padded)) of
               Err e \<Rightarrow> (w, Err e)
             | Panic \<Rightarrow> (w, Panic)
             | Ok whole \<Rightarrow>
                 if (case checked_add whole 12 of None \<Rightarrow> True
                     | Some v \<Rightarrow> v > max_block_bytes (nw_limits w))
                 then (w, Err (error_limit ''block_bytes''))
                 else if length data < 2 ^ 32
                 then ng_block wr w 6 (epb_body (nw_endian w) iid (ticks ts) (of_nat (length data))
                        orig data whole)
                 else (w, Err (error_limit ''packet_bytes'')))"

definition pcapng_finish :: "('w \<Rightarrow> 'w \<times> unit result) \<Rightarrow> 'w pcapng_writer \<Rightarrow> 'w result" where
  "pcapng_finish flush w =
     (if nw_failed w then Err writer_failed
      else (case flush (nw_output w) of (out, res) \<Rightarrow> and_then res (\<lambda>_. Ok out)))"

section \<open>Archival copy\<close>

fun all_records :: "cap_record result list \<Rightarrow> unit result" where
  "all_records [] = Ok ()"
| "all_records (Ok r # xs) = all_records xs"
| "all_records (Err e # xs) = Err e"
| "all_records (Panic # xs) = Panic"

definition copy_exact ::
    "('w \<Rightarrow> bytes \<Rightarrow> 'w \<times> unit result) \<Rightarrow> ('w \<Rightarrow> 'w \<times> unit result) \<Rightarrow> bytes \<Rightarrow> 'w \<Rightarrow> limits
      \<Rightarrow> parse_mode \<Rightarrow> 'w result" where
  "copy_exact wr flush input output l mode =
     and_then (iter_new input l mode) (\<lambda>it.
     and_then (all_records (iter_items it)) (\<lambda>_.
       case wr output input of (output', res) \<Rightarrow>
         and_then res (\<lambda>_. case flush output' of (output'', res') \<Rightarrow>
           and_then res' (\<lambda>_. Ok output''))))"


section \<open>Sinks\<close>

text \<open>
  The contract of \<^verbatim>\<open>Write::write_all\<close>: success appends exactly the bytes to what was written before.
\<close>

locale byte_sink =
  fixes wr :: "'w \<Rightarrow> bytes \<Rightarrow> 'w \<times> unit result"
    and written :: "'w \<Rightarrow> bytes"
  assumes appended: "wr w bs = (w', Ok u) \<Longrightarrow> written w' = written w @ bs"
begin

lemma write_parts_appended:
  "write_parts wr w ps = (w', Ok u) \<Longrightarrow> written w' = written w @ concat ps"
  by (induction ps arbitrary: w) (auto split: prod.split_asm outcome.split_asm dest!: appended)

end

text \<open>\<^verbatim>\<open>Vec<u8>\<close> as a sink: it never fails.\<close>

definition vec_write :: "bytes \<Rightarrow> bytes \<Rightarrow> bytes \<times> unit result" where
  "vec_write out bs = (out @ bs, Ok ())"

definition vec_flush :: "bytes \<Rightarrow> bytes \<times> unit result" where
  "vec_flush out = (out, Ok ())"

interpretation vec: byte_sink vec_write "\<lambda>w. w"
  by unfold_locales (simp add: vec_write_def)

section \<open>A failed writer stays failed\<close>

lemma pcap_packet_failed: "pw_failed w \<Longrightarrow> pcap_packet wr w ts orig data = (w, Err writer_failed)"
  by (simp add: pcap_packet_def)

lemma pcapng_failed:
  "nw_failed w \<Longrightarrow> pcapng_packet wr w iid ts orig data = (w, Err writer_failed)"
  "nw_failed w \<Longrightarrow> pcapng_interface wr w link_type snaplen res offs = (w, Err writer_failed)"
  by (simp_all add: pcapng_packet_def pcapng_interface_def)

lemma pcap_packet_Err:
  assumes "pcap_packet wr w ts orig data = (w', Err e)"
  shows "w' = w \<or> pw_failed w'"
  using assms by (auto simp: pcap_packet_def split: if_split_asm outcome.split_asm prod.split_asm)

lemma ng_block_Err:
  "ng_block wr w ty body = (w', Err e) \<Longrightarrow> w' = w \<or> nw_failed w'"
  by (auto simp: ng_block_def split: if_split_asm outcome.split_asm prod.split_asm option.split_asm)

lemma pcapng_interface_Err:
  "pcapng_interface wr w link_type snaplen res offs = (w', Err e) \<Longrightarrow> w' = w \<or> nw_failed w'"
  by (auto simp: pcapng_interface_def dest: ng_block_Err
      split: if_split_asm outcome.split_asm prod.split_asm)

lemma pcapng_packet_Err:
  "pcapng_packet wr w iid ts orig data = (w', Err e) \<Longrightarrow> w' = w \<or> nw_failed w'"
  by (auto simp: pcapng_packet_def Let_def dest: ng_block_Err
      split: if_split_asm outcome.split_asm prod.split_asm option.split_asm)

section \<open>Reading back what was put\<close>

lemma word32_at_past [byte_simps]:
  "4 \<le> p \<Longrightarrow> word32_at e (put_u32 e' v [] @ ys) p = word32_at e ys (p - 4)"
  "2 \<le> p \<Longrightarrow> word32_at e (put_u16 e' h [] @ ys) p = word32_at e ys (p - 2)"
  "8 \<le> p \<Longrightarrow> word32_at e (put_u64 e' x [] @ ys) p = word32_at e ys (p - 8)"
  using word32_at_skip [of e "put_u32 e' v []" ys "p - 4"]
    word32_at_skip [of e "put_u16 e' h []" ys "p - 2"]
    word32_at_skip [of e "put_u64 e' x []" ys "p - 8"] by simp_all

lemma word16_at_skip: "word16_at e (xs @ ys) (length xs + p) = word16_at e ys p"
  by (cases e) (simp_all add: word16_at_def nth_append)

lemma word16_at_past [byte_simps]:
  "4 \<le> p \<Longrightarrow> word16_at e (put_u32 e' v [] @ ys) p = word16_at e ys (p - 4)"
  "2 \<le> p \<Longrightarrow> word16_at e (put_u16 e' h [] @ ys) p = word16_at e ys (p - 2)"
  "8 \<le> p \<Longrightarrow> word16_at e (put_u64 e' x [] @ ys) p = word16_at e ys (p - 8)"
  using word16_at_skip [of e "put_u32 e' v []" ys "p - 4"]
    word16_at_skip [of e "put_u16 e' h []" ys "p - 2"]
    word16_at_skip [of e "put_u64 e' x []" ys "p - 8"] by simp_all

lemma word64_at_past [byte_simps]:
  "4 \<le> p \<Longrightarrow> word64_at e (put_u32 e' v [] @ ys) p = word64_at e ys (p - 4)"
  "2 \<le> p \<Longrightarrow> word64_at e (put_u16 e' h [] @ ys) p = word64_at e ys (p - 2)"
  by (cases e; simp add: word64_at_def word32_at_past)+

lemma word_at_put_end [byte_simps]:
  "word16_at e (put_u16 e h []) 0 = h" "word32_at e (put_u32 e v []) 0 = v"
  "word64_at e (put_u64 e x []) 0 = x"
  using word16_at_put [of e h "[]"] word32_at_put [of e v "[]"] word64_at_put [of e x "[]"]
  by simp_all

lemma packet_header_parts:
  "packet_header e sec frac cap orig =
     put_u32 e sec [] @ put_u32 e frac [] @ put_u32 e cap [] @ put_u32 e orig []"
  by (cases e) (simp_all add: packet_header_def)

lemma pcap_header_parts:
  "pcap_header e nanos link_type snaplen =
     put_u32 e (if nanos then 0xa1b23c4d else 0xa1b2c3d4) [] @ put_u16 e 2 [] @ put_u16 e 4 [] @
     put_u32 e 0 [] @ put_u32 e 0 [] @ put_u32 e snaplen [] @ put_u32 e (ucast link_type) []"
  by (cases e) (simp_all add: pcap_header_def)

lemma magic_bytes [byte_simps]:
  "take 4 (put_u32 e v [] @ ys) = put_u32 e v []" "take 4 (put_u32 e v []) = put_u32 e v []"
  by simp_all

lemma pcap_magic:
  "put_u32 e (if nanos then 0xa1b23c4d else 0xa1b2c3d4) [] \<noteq> shb_magic"
  "legacy_magic (put_u32 e (if nanos then 0xa1b23c4d else 0xa1b2c3d4) []) = Some (e, nanos)"
  by (cases e; cases nanos; simp add: shb_magic_def be32_bytes_def)+

section \<open>Properties\<close>

text \<open>
  an I/O failure poisons a writer.  An operation that returns an error either rejected its
  arguments and changed nothing, or the output failed and the writer is marked; from then on every
  operation of the writer (packets, interfaces, finishing) reports \<^verbatim>\<open>writer_failed\<close> and writes nothing.
\<close>

theorem failed_writers_stay_failed:
  "(pcap_packet wr w ts orig data = (w', Err e) \<longrightarrow> w' = w \<or> pw_failed w') \<and>
   (pcapng_packet wr v iid ts orig data = (v', Err e) \<longrightarrow> v' = v \<or> nw_failed v') \<and>
   (pcapng_interface wr v link snaplen res offs = (v', Err e) \<longrightarrow> v' = v \<or> nw_failed v') \<and>
   (pw_failed w \<longrightarrow> pcap_packet wr w ts orig data = (w, Err writer_failed)
      \<and> pcap_finish flush w = Err writer_failed) \<and>
   (nw_failed v \<longrightarrow> pcapng_packet wr v iid ts orig data = (v, Err writer_failed)
      \<and> pcapng_interface wr v link snaplen res offs = (v, Err writer_failed)
      \<and> pcapng_finish flush v = Err writer_failed)"
  by (auto dest: pcap_packet_Err pcapng_packet_Err pcapng_interface_Err
      simp: pcap_packet_failed pcapng_failed pcap_finish_def pcapng_finish_def)


theorem failed_writers_stay_failed_witness:
  "pcap_packet vec_write \<lparr>pw_output = [], pw_endian = Little, pw_nanos = False, pw_snaplen = 64,
      pw_limits = limits_default, pw_failed = True\<rparr>
      \<lparr>ticks = 0, ts_resolution = Decimal 6, offset_seconds = 0\<rparr> 4 [1] =
    (\<lparr>pw_output = [], pw_endian = Little, pw_nanos = False, pw_snaplen = 64,
      pw_limits = limits_default, pw_failed = True\<rparr>, Err writer_failed)"
  using failed_writers_stay_failed [of vec_write "\<lparr>pw_output = [], pw_endian = Little,
      pw_nanos = False, pw_snaplen = 64, pw_limits = limits_default, pw_failed = True\<rparr>"]
  by simp

end
