(* ===== verification/Writer_Roundtrip.thy ===== *)
theory Writer_Roundtrip
  imports Writer
begin

text \<open>
  What the writers write, the strict decoder reads back.  The argument is the same for both formats:
  every successful operation appends one record, and a decoder in step with the writer decodes that
  record and stays in step.  The locale \<open>record_writer\<close> carries it from one operation to a sequence.
\<close>

section \<open>Sequences of operations\<close>

fun write_ops :: "('s \<Rightarrow> 'op \<Rightarrow> 's \<times> unit result) \<Rightarrow> 's \<Rightarrow> 'op list \<Rightarrow> 's \<times> unit result" where
  "write_ops emit s [] = (s, Ok ())"
| "write_ops emit s (x # xs) =
     (case emit s x of
        (s', Ok _) \<Rightarrow> write_ops emit s' xs
      | (s', res) \<Rightarrow> (s', res))"

fun told ::
    "('s \<Rightarrow> 'op \<Rightarrow> 's \<times> unit result) \<Rightarrow> ('s \<Rightarrow> 'op \<Rightarrow> cap_record \<Rightarrow> bool) \<Rightarrow> 's \<Rightarrow> 'op list
      \<Rightarrow> cap_record list \<Rightarrow> bool" where
  "told emit says s [] rs = (rs = [])"
| "told emit says s (x # xs) rs =
     (case rs of [] \<Rightarrow> False | r # rs' \<Rightarrow> says s x r \<and> told emit says (fst (emit s x)) xs rs')"

definition reads_back ::
    "decoder \<Rightarrow> bytes \<Rightarrow> (decoder \<Rightarrow> bool) \<Rightarrow> (cap_record \<Rightarrow> bool) \<Rightarrow> bool" where
  "reads_back d raw after what \<longleftrightarrow> raw \<noteq> [] \<and>
     (\<forall>off. off + length raw < usize_limit \<longrightarrow> d_records d < max_records (d_limits d) \<longrightarrow>
       (\<exists>d' r. decode d raw off = Ok (d', Decoded r) \<and> rec_raw r = raw \<and> what r \<and> after d'
          \<and> d_records d' = d_records d + 1 \<and> d_limits d' = d_limits d))"

lemma reads_backE:
  assumes "reads_back d raw after what" "off + length raw < usize_limit"
    "d_records d < max_records (d_limits d)"
  obtains d' r where "decode d raw off = Ok (d', Decoded r)" "rec_raw r = raw" "what r" "after d'"
    "d_records d' = d_records d + 1" "d_limits d' = d_limits d" "raw \<noteq> []"
  using assms unfolding reads_back_def by blast

lemma iter_items_decoded:
  assumes "\<not> it_terminal it" "it_data it = pre @ raw @ post" "it_position it = length pre" "raw \<noteq> []"
    and "decode (it_decoder it) raw (length pre) = Ok (d', Decoded r)" "rec_raw r = raw"
    and "length (it_data it) < usize_limit"
  shows "iter_items it =
    Ok r # iter_items (it\<lparr>it_decoder := d', it_position := length (pre @ raw)\<rparr>)"
proof -
  have "decode (it_decoder it) (raw @ post) (length pre) = Ok (d', Decoded r)"
    using decode_extend [of "length pre" raw post "it_decoder it"] assms by auto
  then show ?thesis
    using assms by (subst iter_items.simps) (simp add: iter_next_def)
qed

locale record_writer =
  fixes out :: "'s \<Rightarrow> bytes"
    and emit :: "'s \<Rightarrow> 'op \<Rightarrow> 's \<times> unit result"
    and sync :: "'c \<Rightarrow> 's \<Rightarrow> decoder \<Rightarrow> bool"
    and says :: "'c \<Rightarrow> 's \<Rightarrow> 'op \<Rightarrow> cap_record \<Rightarrow> bool"
  assumes grows: "emit s x = (s', Ok u) \<Longrightarrow> \<exists>raw. out s' = out s @ raw"
    and step: "emit s x = (s', Ok u) \<Longrightarrow> out s' = out s @ raw \<Longrightarrow> sync c s d \<Longrightarrow>
      reads_back d raw (sync c s') (says c s x)"
    and stops: "sync c s d \<Longrightarrow> decoder_finish d off = Ok ()"
begin

lemma ops_grow: "write_ops emit s xs = (s', Ok u) \<Longrightarrow> \<exists>raw. out s' = out s @ raw"
  by (induction xs arbitrary: s) (fastforce split: prod.split_asm outcome.split_asm dest: grows)+

lemma ops_read_back:
  assumes "write_ops emit s xs = (s', Ok u)" "sync c s d"
    and "d_records d + length xs \<le> max_records (d_limits d)" "length (out s') < usize_limit"
  shows "\<exists>rs. iter_items \<lparr>it_data = out s', it_position = length (out s), it_decoder = d,
      it_terminal = False\<rparr> = map Ok rs \<and> told emit (says c) s xs rs"
  using assms
proof (induction xs arbitrary: s d)
  case Nil
  then show ?case by (subst iter_items.simps) (auto simp: iter_next_def stops)
next
  case (Cons x xs)
  then obtain s1 where s1: "emit s x = (s1, Ok ())" "write_ops emit s1 xs = (s', Ok u)"
    by (auto split: prod.split_asm outcome.split_asm)
  obtain raw rest where raw: "out s1 = out s @ raw" "out s' = out s1 @ rest"
    using grows [OF s1(1)] ops_grow [OF s1(2)] by blast
  let ?it = "\<lparr>it_data = out s', it_position = length (out s), it_decoder = d, it_terminal = False\<rparr>"
  have "length (out s) + length raw < usize_limit" "d_records d < max_records (d_limits d)"
    using Cons.prems(3,4) raw by simp_all
  then obtain d' r where
    d': "decode d raw (length (out s)) = Ok (d', Decoded r)" "rec_raw r = raw" "says c s x r"
      "sync c s1 d'" "d_records d' = d_records d + 1" "d_limits d' = d_limits d" "raw \<noteq> []"
    by (rule reads_backE [OF step [OF s1(1) raw(1) Cons.prems(2)]])
  have "iter_items ?it = Ok r # iter_items (?it\<lparr>it_decoder := d', it_position := length (out s @ raw)\<rparr>)"
    by (rule iter_items_decoded [where post = rest]) (use d' raw Cons.prems in auto)
  moreover obtain rs where "iter_items \<lparr>it_data = out s', it_position = length (out s1),
      it_decoder = d', it_terminal = False\<rparr> = map Ok rs" "told emit (says c) s1 xs rs"
    using Cons.IH [OF s1(2) d'(4)] d' Cons.prems by auto
  ultimately show ?case using raw d' s1 by (intro exI [of _ "r # rs"]) simp
qed

end

section \<open>Classic PCAP\<close>

type_synonym packet_op = "timestamp \<times> u32 \<times> bytes"

fun pcap_emit ::
    "('w \<Rightarrow> bytes \<Rightarrow> 'w \<times> unit result) \<Rightarrow> 'w pcap_writer \<Rightarrow> packet_op \<Rightarrow> 'w pcap_writer \<times> unit result" where
  "pcap_emit wr w (ts, orig, data) = pcap_packet wr w ts orig data"

text \<open>The record \<open>r\<close> carries the packet: bytes, lengths, link type, and the same instant.\<close>

fun carries_packet :: "u16 \<Rightarrow> packet_op \<Rightarrow> cap_record \<Rightarrow> bool" where
  "carries_packet link (ts, orig, data) r \<longleftrightarrow>
     rec_warnings r = [] \<and>
     (\<exists>p t. record_packet r = Ok (Some (p, data)) \<and> captured_len p = of_nat (length data)
        \<and> original_len p = orig \<and> pm_link_type p = ucast link
        \<and> pm_timestamp p = Some t \<and> unix_nanos t = unix_nanos ts)"

definition pcap_sync :: "u16 \<Rightarrow> 'w pcap_writer \<Rightarrow> decoder \<Rightarrow> bool" where
  "pcap_sync link w d \<longleftrightarrow> d_format d = Some Pcap \<and> d_endian d = pw_endian w \<and> d_limits d = pw_limits w
     \<and> d_mode d = Strict \<and> d_section_end d = None
     \<and> d_legacy d = Some \<lparr>lh_endian = pw_endian w, lh_nanos = pw_nanos w, lh_snaplen = pw_snaplen w,
                          lh_link_word = ucast link\<rparr>"

lemma pcap_packet_Ok:
  assumes "pcap_packet wr w ts orig data = (w', Ok u)"
  obtains sec frac where "legacy_parts ts (pw_nanos w) = Ok (sec, frac)"
    "write_parts wr (pw_output w)
       [packet_header (pw_endian w) sec frac (of_nat (length data)) orig, data] = (pw_output w', Ok ())"
    "w' = w\<lparr>pw_output := pw_output w'\<rparr>" "length data \<le> max_packet_bytes (pw_limits w)"
    "length data \<le> unat (pw_snaplen w)" "length data \<le> unat orig"
  using assms
  by (auto simp: pcap_packet_def split: if_split_asm outcome.split_asm prod.split_asm)

lemma ucast_link_mask: "(ucast (link :: u16) :: u32) AND 0xffff = ucast link"
proof -
  have "(ucast link :: u32) AND mask 16 = ucast link"
    by (rule bit_word_eqI) (auto simp: bit_simps dest: bit_imp_le_length)
  then show ?thesis by (simp add: mask_eq_exp_minus_1)
qed

lemma unat_of_small: "n \<le> unat (x :: u32) \<Longrightarrow> unat (of_nat n :: u32) = n"
  by (metis le_unat_uoi)

lemma pcap_packet_reads_back:
  assumes sync: "pcap_sync link w d"
    and parts: "legacy_parts ts (pw_nanos w) = Ok (sec, frac)"
    and len: "length data \<le> max_packet_bytes (pw_limits w)" "length data \<le> unat (pw_snaplen w)"
      "length data \<le> unat orig"
  shows "reads_back d (packet_header (pw_endian w) sec frac (of_nat (length data)) orig @ data)
    (pcap_sync link w) (carries_packet link (ts, orig, data))"
proof -
  obtain t where t: "timestamp_legacy sec frac (pw_nanos w) = Ok t" "unix_nanos t = unix_nanos ts"
    using legacy_parts_sound [OF parts] .
  let ?e = "pw_endian w" and ?n = "of_nat (length data) :: u32"
  let ?raw = "packet_header ?e sec frac ?n orig @ data"
  have n: "unat ?n = length data" using unat_of_small len(3) .
  have le: "?n \<le> orig" "?n \<le> pw_snaplen w" using len n by (simp_all add: word_le_nat_alt)
  have w: "word32_at ?e ?raw 0 = sec" "word32_at ?e ?raw 4 = frac" "word32_at ?e ?raw 8 = ?n"
    "word32_at ?e ?raw 12 = orig"
    by (simp_all add: packet_header_parts byte_simps)
  have raw: "length ?raw = length data + 16" "take (length data + 16) ?raw = ?raw"
    "sub_list ?raw 16 (16 + length data) = data"
    by (simp_all add: packet_header_parts sub_list_def)
  show ?thesis
    using sync t len le w raw n ucast_link_mask [of link]
    by (auto simp: reads_back_def pcap_sync_def decode_def required_def checked_add_def
        decode_legacy_packet_def validate_lengths_def record_packet_def)
qed

lemma pcap_header_reads_back:
  assumes d: "decoder_new l Strict = Ok d" and "snaplen \<noteq> 0"
  shows "reads_back d (pcap_header e nanos link snaplen)
    (\<lambda>d'. d' = d\<lparr>d_format := Some Pcap, d_endian := e, d_records := 1,
        d_legacy := Some \<lparr>lh_endian = e, lh_nanos = nanos, lh_snaplen = snaplen,
                         lh_link_word = ucast link\<rparr>\<rparr>)
    (\<lambda>r. rec_kind r = LegacyHeader \<lparr>lh_endian = e, lh_nanos = nanos, lh_snaplen = snaplen,
                                   lh_link_word = ucast link\<rparr>)"
proof -
  let ?raw = "pcap_header e nanos link snaplen"
  have raw: "length ?raw = 24" "take 24 ?raw = ?raw"
    and magic: "take 4 ?raw = put_u32 e (if nanos then 0xa1b23c4d else 0xa1b2c3d4) []"
    and w: "word16_at e ?raw 4 = 2" "word16_at e ?raw 6 = 4" "word32_at e ?raw 16 = snaplen"
      "word32_at e ?raw 20 = ucast link"
    by (simp_all add: pcap_header_parts byte_simps del: put_u32.simps put_u16.simps)
  have "?raw \<noteq> []" using raw(1) by auto
  moreover have "d_format d = None" "d_records d = 0"
    using d by (auto simp: decoder_new_def elim: and_then_OkE)
  ultimately show ?thesis
    using assms(2) raw magic w pcap_magic [of e nanos]
    by (auto simp: reads_back_def decode_def required_def checked_add_def decode_legacy_header_def
        Let_def simp del: legacy_magic.simps)
qed

sublocale byte_sink < pcap: record_writer "\<lambda>w. written (pw_output w)" "pcap_emit wr" pcap_sync
  "\<lambda>link w. carries_packet link"
proof
  fix s :: "'w pcap_writer" and x s' u
  assume emit: "pcap_emit wr s x = (s', Ok u)"
  obtain ts orig data where x: "x = (ts, orig, data)" by (cases x) auto
  with emit have "pcap_packet wr s ts orig data = (s', Ok u)" by simp
  then obtain sec frac where p: "legacy_parts ts (pw_nanos s) = Ok (sec, frac)"
    "write_parts wr (pw_output s)
       [packet_header (pw_endian s) sec frac (of_nat (length data)) orig, data] = (pw_output s', Ok ())"
    "s' = s\<lparr>pw_output := pw_output s'\<rparr>" "length data \<le> max_packet_bytes (pw_limits s)"
    "length data \<le> unat (pw_snaplen s)" "length data \<le> unat orig"
    by (rule pcap_packet_Ok)
  note w = write_parts_appended [OF p(2)]
  then show "\<exists>raw. written (pw_output s') = written (pw_output s) @ raw" by blast
  fix raw c d
  assume raw: "written (pw_output s') = written (pw_output s) @ raw" and sync: "pcap_sync c s d"
  have "pcap_sync c s' = pcap_sync c s" by (subst p(3)) (simp add: pcap_sync_def fun_eq_iff)
  then show "reads_back d raw (pcap_sync c s') (carries_packet c x)"
    using pcap_packet_reads_back [OF sync p(1,4,5,6)] raw w x by simp
next
  show "pcap_sync c s d \<Longrightarrow> decoder_finish d off = Ok ()" for c and s :: "'w pcap_writer" and d off
    by (auto simp: pcap_sync_def decoder_finish_def)
qed

lemma told_const: "told emit (\<lambda>s. P) s xs rs \<longleftrightarrow> list_all2 P xs rs"
  by (induction xs arbitrary: s rs) (auto simp: list_all2_Cons1 split: list.splits)

context byte_sink
begin

lemma pcap_roundtrip_lemma:
  assumes new: "pcap_writer_new wr out0 e nanos link snaplen l = Ok w" and empty: "written out0 = []"
    and ops: "write_ops (pcap_emit wr) w ps = (w', Ok u)"
    and fits: "length (written (pw_output w')) \<le> max_input_bytes l"
      "length (written (pw_output w')) < usize_limit" "length ps < max_records l"
  shows "\<exists>it h rs. iter_new (written (pw_output w')) l Strict = Ok it
    \<and> iter_items it = map Ok (h # rs)
    \<and> rec_kind h = LegacyHeader \<lparr>lh_endian = e, lh_nanos = nanos, lh_snaplen = snaplen,
                                 lh_link_word = ucast link\<rparr>
    \<and> list_all2 (carries_packet link) ps rs"
proof -
  let ?head = "pcap_header e nanos link snaplen"
  from new have l: "limits_validate l = Ok ()" "snaplen \<noteq> 0"
    and w: "pw_endian w = e" "pw_nanos w = nanos" "pw_snaplen w = snaplen" "pw_limits w = l"
      and first: "wr out0 ?head = (pw_output w, Ok ())"
    by (auto simp: pcap_writer_new_def elim!: and_then_OkE split: if_split_asm prod.split_asm)
  from first empty have start: "written (pw_output w) = ?head" using appended by fastforce
  from l obtain d where d: "decoder_new l Strict = Ok d" by (simp add: decoder_new_def)
  note d0 = decoder_new_Ok [OF d]
  obtain rest where rest: "written (pw_output w') = ?head @ rest"
    using pcap.ops_grow [OF ops] start by auto
  have "0 + length ?head < usize_limit" "d_records d < max_records (d_limits d)"
    using fits(2,3) rest d0 by simp_all
  then obtain d1 h where h:
    "decode d ?head 0 = Ok (d1, Decoded h)" "rec_raw h = ?head" "?head \<noteq> []"
    "rec_kind h = LegacyHeader \<lparr>lh_endian = e, lh_nanos = nanos, lh_snaplen = snaplen,
                              lh_link_word = ucast link\<rparr>"
    "d1 = d\<lparr>d_format := Some Pcap, d_endian := e, d_records := 1,
        d_legacy := Some \<lparr>lh_endian = e, lh_nanos = nanos, lh_snaplen = snaplen,
                         lh_link_word = ucast link\<rparr>\<rparr>"
    by (rule reads_backE [OF pcap_header_reads_back [OF d l(2), of e nanos link]])
  let ?it = "\<lparr>it_data = written (pw_output w'), it_position = 0, it_decoder = d, it_terminal = False\<rparr>"
  have "iter_items ?it = Ok h # iter_items (?it\<lparr>it_decoder := d1, it_position := length ([] @ ?head)\<rparr>)"
    by (rule iter_items_decoded [where post = rest]) (use h rest fits in auto)
  moreover have "pcap_sync link w d1" using w h(5) d0 by (simp add: pcap_sync_def)
  then obtain rs where "iter_items \<lparr>it_data = written (pw_output w'),
      it_position = length (written (pw_output w)), it_decoder = d1, it_terminal = False\<rparr> = map Ok rs"
    "list_all2 (carries_packet link) ps rs"
    using pcap.ops_read_back [OF ops, of link d1] fits h(5) d0 by (auto simp: told_const)
  moreover have "iter_new (written (pw_output w')) l Strict = Ok ?it"
    using fits(1) d by (simp add: iter_new_def)
  ultimately show ?thesis using h(4) start by (intro exI [of _ ?it] exI [of _ h] exI [of _ rs]) simp
qed

end

section \<open>Properties\<close>

text \<open>
  C36: the classic PCAP writer and the strict decoder are inverse.  Whatever packets the writer
  accepted, in either byte order and at either timestamp precision, reading its output back yields
  the global header and then one record per packet, in order, with the same bytes, lengths, link type
  and instant, no warnings and no error.
\<close>

theorem pcap_written_reads_back:
  assumes "byte_sink wr written" "written out0 = []"
    and "pcap_writer_new wr out0 e nanos link snaplen l = Ok w"
    and "write_ops (pcap_emit wr) w ps = (w', Ok u)"
    and "length (written (pw_output w')) \<le> max_input_bytes l"
      "length (written (pw_output w')) < usize_limit" "length ps < max_records l"
  shows "\<exists>it h rs. iter_new (written (pw_output w')) l Strict = Ok it
    \<and> iter_items it = map Ok (h # rs)
    \<and> rec_kind h = LegacyHeader \<lparr>lh_endian = e, lh_nanos = nanos, lh_snaplen = snaplen,
                                 lh_link_word = ucast link\<rparr>
    \<and> list_all2 (carries_packet link) ps rs"
  by (rule byte_sink.pcap_roundtrip_lemma [OF assms(1,3,2,4-7)])

theorem pcap_written_reads_back_witness:
  "\<exists>w w' it h r. pcap_writer_new vec_write [] Big True 1 64 limits_default = Ok w
     \<and> pcap_packet vec_write w \<lparr>ticks = 5, ts_resolution = Decimal 9, offset_seconds = 1\<rparr> 4 [1, 2] = (w', Ok ())
     \<and> iter_new (pw_output w') limits_default Strict = Ok it \<and> iter_items it = [Ok h, Ok r]
     \<and> carries_packet 1 (\<lparr>ticks = 5, ts_resolution = Decimal 9, offset_seconds = 1\<rparr>, 4, [1, 2]) r"
proof -
  let ?ts = "\<lparr>ticks = 5, ts_resolution = Decimal 9, offset_seconds = 1\<rparr>"
  obtain w where w: "pcap_writer_new vec_write [] Big True 1 64 limits_default = Ok w"
    "w = \<lparr>pw_output = pcap_header Big True 1 64, pw_endian = Big, pw_nanos = True, pw_snaplen = 64,
          pw_limits = limits_default, pw_failed = False\<rparr>"
    by (simp add: pcap_writer_new_def vec_write_def)
  have "legacy_parts ?ts True = Ok (1, 5)"
    by (simp add: legacy_parts_def unix_nanos_def in_i128_def)
  then have p: "pcap_packet vec_write w ?ts 4 [1, 2] =
      (w\<lparr>pw_output := pw_output w @ packet_header Big 1 5 2 4 @ [1, 2]\<rparr>, Ok ())"
    using w(2) by (simp add: pcap_packet_def vec_write_def)
  let ?w' = "w\<lparr>pw_output := pw_output w @ packet_header Big 1 5 2 4 @ [1, 2]\<rparr>"
  have "write_ops (pcap_emit vec_write) w [(?ts, 4, [1, 2])] = (?w', Ok ())" using p by simp
  moreover have "length (pw_output ?w') = 42"
    using w(2) by (simp add: pcap_header_parts packet_header_parts)
  ultimately obtain it h rs where "iter_new (pw_output ?w') limits_default Strict = Ok it"
    "iter_items it = map Ok (h # rs)" "list_all2 (carries_packet 1) [(?ts, 4, [1, 2])] rs"
    using pcap_written_reads_back [OF vec.byte_sink_axioms refl w(1), of "[(?ts, 4, [1, 2])]" ?w' "()"]
    by (auto simp: usize_limit_def simp del: carries_packet.simps)
  moreover from this(3) obtain r where "rs = [r]" "carries_packet 1 (?ts, 4, [1, 2]) r"
    by (auto simp: list_all2_Cons1 simp del: carries_packet.simps)
  ultimately show ?thesis
    using w(1) p by (intro exI [of _ w] exI [of _ ?w'] exI [of _ it] exI [of _ h] exI [of _ r]) simp
qed

end
