(* ===== verification/Writer_Ng.thy ===== *)
theory Writer_Ng
  imports Writer_Roundtrip
begin

text \<open>
  The PCAPNG half of the round trip: blocks framed by the writer decode to the section, interfaces
  and packets it was given, with the interface tables of writer and decoder kept equal.
\<close>

datatype ng_op = DeclareInterface u16 u32 resolution u64 | WritePacket u32 timestamp u32 bytes

text \<open>The operations of the writer as one step; the time-zone offset is an \<^verbatim>\<open>i64\<close>, so a signed word.\<close>

fun ng_emit ::
    "('w \<Rightarrow> bytes \<Rightarrow> 'w \<times> unit result) \<Rightarrow> 'w pcapng_writer \<Rightarrow> ng_op \<Rightarrow> 'w pcapng_writer \<times> unit result" where
  "ng_emit wr w (DeclareInterface link snaplen res offs) =
     (case pcapng_interface wr w link snaplen res (sint offs) of
        (w', result) \<Rightarrow> (w', and_then result (\<lambda>_. Ok ())))"
| "ng_emit wr w (WritePacket iid ts orig data) = pcapng_packet wr w iid ts orig data"

fun ng_carries :: "'w pcapng_writer \<Rightarrow> ng_op \<Rightarrow> cap_record \<Rightarrow> bool" where
  "ng_carries w (DeclareInterface link snaplen res offs) r \<longleftrightarrow>
     rec_kind r = Interface \<lparr>if_section = 0, if_id = of_nat (length (nw_interfaces w)),
       if_link_type = ucast link, if_snaplen = snaplen, if_resolution = res,
       if_offset_seconds = sint offs\<rparr> \<and> rec_warnings r = []"
| "ng_carries w (WritePacket iid ts orig data) r \<longleftrightarrow>
     rec_warnings r = [] \<and>
     (\<exists>p. record_packet r = Ok (Some (p, data)) \<and> captured_len p = of_nat (length data)
        \<and> original_len p = orig \<and> pm_interface p = iid \<and> pm_timestamp p = Some ts
        \<and> pm_link_type p = if_link_type (nw_interfaces w ! unat iid))"

definition ng_sync :: "'w pcapng_writer \<Rightarrow> decoder \<Rightarrow> bool" where
  "ng_sync w d \<longleftrightarrow> d_format d = Some PcapNg \<and> d_endian d = nw_endian w \<and> d_limits d = nw_limits w
     \<and> d_mode d = Strict \<and> d_section d = 0 \<and> d_section_end d = None
     \<and> d_interfaces d = nw_interfaces w \<and> 2 \<le> max_options (d_limits d)"

section \<open>Reading inside a block\<close>

lemma word16_at_Cons [byte_simps]: "1 \<le> p \<Longrightarrow> word16_at e (x # ys) p = word16_at e ys (p - 1)"
  using word16_at_skip [of e "[x]" ys "p - 1"] by simp

lemma word64_at_Cons [byte_simps]: "1 \<le> p \<Longrightarrow> word64_at e (x # ys) p = word64_at e ys (p - 1)"
  using word32_at_skip [of e "[x]" ys "p - 1"] word32_at_skip [of e "[x]" ys "p + 4 - 1"]
  by (cases e) (simp_all add: word64_at_def add.commute)

lemma nth_past [byte_simps]:
  "4 \<le> p \<Longrightarrow> (put_u32 e v [] @ ys) ! p = ys ! (p - 4)"
  "2 \<le> p \<Longrightarrow> (put_u16 e h [] @ ys) ! p = ys ! (p - 2)"
  by (simp_all add: nth_append)

lemma word64_at_sub_list: "p + 8 \<le> length xs \<Longrightarrow> word64_at e (sub_list xs p (p + 8)) 0 = word64_at e xs p"
  by (cases e) (simp_all add: word64_at_def word32_at_def nth_sub_list ac_simps)

definition ng_raw :: "endian \<Rightarrow> u32 \<Rightarrow> bytes \<Rightarrow> bytes" where
  "ng_raw e ty body = put_u32 e ty [] @ put_u32 e (of_nat (length body + 12)) [] @ body @
     put_u32 e (of_nat (length body + 12)) []"

lemma concat_ng_frame: "concat (ng_frame e ty (of_nat (length body + 12)) body) = ng_raw e ty body"
  by (cases e) (simp_all add: ng_frame_def ng_raw_def)

lemma length_ng_raw [simp]: "length (ng_raw e ty body) = length body + 12"
  by (simp add: ng_raw_def)

lemma ng_raw_nonempty [simp]: "ng_raw e ty body \<noteq> []"
  using length_ng_raw [of e ty body] by (metis add_eq_0_iff_both_eq_0 list.size(3) zero_neq_numeral)

lemma ng_raw_fields:
  assumes "length body + 12 < 2 ^ 32"
  shows "word32_at e (ng_raw e ty body) 0 = ty"
    "unat (word32_at e (ng_raw e ty body) 4) = length body + 12"
    "unat (word32_at e (ng_raw e ty body) (8 + length body)) = length body + 12"
proof -
  have n: "unat (of_nat (length body + 12) :: u32) = length body + 12"
    using assms by (simp add: unsigned_of_nat take_bit_nat_eq_self del: of_nat_add)
  then show "word32_at e (ng_raw e ty body) 0 = ty"
    "unat (word32_at e (ng_raw e ty body) 4) = length body + 12"
    by (simp_all add: ng_raw_def byte_simps del: of_nat_add)
  show "unat (word32_at e (ng_raw e ty body) (8 + length body)) = length body + 12"
    using n word32_at_skip [of e "put_u32 e ty [] @ put_u32 e (of_nat (length body + 12)) [] @ body"
        "put_u32 e (of_nat (length body + 12)) []" 0]
    by (simp add: ng_raw_def byte_simps add.commute del: of_nat_add)
qed

lemma decode_ng_raw:
  assumes sync: "d_format d = Some PcapNg" "d_section_end d = None"
    and ty: "ty \<noteq> 0x0a0d0d0a" and len: "length body mod 4 = 0" "length body + 12 < 2 ^ 32"
      "length body + 12 \<le> max_block_bytes (d_limits d)"
    and fits: "d_records d < max_records (d_limits d)" "off + length (ng_raw (d_endian d) ty body) < usize_limit"
    and block: "decode_block d (ng_raw (d_endian d) ty body) (length body + 12) (d_endian d) off ty =
      Ok (d', kind, options, warnings)"
  shows "decode d (ng_raw (d_endian d) ty body) off =
    Ok (d'\<lparr>d_records := d_records d' + 1\<rparr>,
        Decoded \<lparr>rec_offset = off, rec_endian = d_endian d, rec_raw = ng_raw (d_endian d) ty body,
                 rec_kind = kind, rec_options = options, rec_warnings = warnings\<rparr>)"
proof -
  let ?raw = "ng_raw (d_endian d) ty body"
  note f = ng_raw_fields [OF len(2), of "d_endian d" ty]
  have magic: "take 4 ?raw \<noteq> shb_magic" using shb_block [of ?raw "d_endian d"] f(1) ty by simp
  have "(length body + 12) mod 4 = 0" using len(1) by presburger
  with sync len fits f magic block show ?thesis
    by (simp add: decode_def required_def required_block_def decode_ng_def section_bounds_def
        checked_add_def Let_def)
qed


section \<open>Sections, interfaces, packets\<close>

lemma align4_small [simp]: "n + 3 < usize_limit \<Longrightarrow> align4 n = Ok (n + 3 - (n + 3) mod 4)"
  by (simp add: align4_def checked_add_def)

lemma pad_to_le: "length body \<le> n \<Longrightarrow> pad_to n body = body @ replicate (n - length body) 0"
  by (simp add: pad_to_def)

lemma put_option_eq:
  assumes "length v < 2 ^ 16" and n: "n = length body + 4 + length v" and "n + 3 < usize_limit"
  shows "put_option body e code v = Ok (body @ put_u16 e code [] @ put_u16 e (of_nat (length v)) [] @ v @
    replicate (n + 3 - (n + 3) mod 4 - n) 0)"
proof -
  define b where "b = body @ put_u16 e code [] @ put_u16 e (of_nat (length v)) [] @ v"
  define q where "q = n + 3 - (n + 3) mod 4"
  have b: "put_u16 e (of_nat (length v)) (put_u16 e code body) @ v = b"
    unfolding b_def by (cases e) simp_all
  have len: "length b = n" unfolding b_def using n by simp
  have "align4 (length b) = Ok q" using assms(3) by (simp add: len q_def)
  moreover have "length b \<le> q" unfolding len q_def by presburger
  ultimately have "put_option body e code v = Ok (b @ replicate (q - length b) 0)"
    using assms(1) unfolding put_option_def Let_def b by (simp add: pad_to_le del: align4_small)
  then have "put_option body e code v = Ok (b @ replicate (q - n) 0)" by (simp only: len)
  then show ?thesis by (simp add: q_def b_def)
qed

lemma replicate_3: "replicate 3 x = [x, x, x]"
  by (simp add: numeral_3_eq_3)

lemma idb_body_eq:
  "idb_body e link snaplen octet offs = Ok (put_u16 e link [] @ put_u16 e 0 [] @ put_u32 e snaplen [] @
     put_u16 e 9 [] @ put_u16 e 1 [] @ octet # 0 # 0 # 0 # put_u16 e 14 [] @ put_u16 e 8 [] @
     put_u64 e (of_int offs) [] @ put_u16 e 0 [] @ put_u16 e 0 [])"
proof -
  have "put_u32 e snaplen (put_u16 e 0 (put_u16 e link [])) =
      put_u16 e link [] @ put_u16 e 0 [] @ put_u32 e snaplen []"
    by (cases e) simp_all
  then show ?thesis
    by (simp add: idb_body_def put_option_eq [OF _ refl] usize_limit_def replicate_3
        del: put_u16.simps put_u32.simps put_u64.simps)
qed

lemma decode_interface_written:
  assumes body: "idb_body (d_endian d) link snaplen octet offs = Ok body"
    and off64: "sint (of_int offs :: u64) = offs"
    and room: "length (d_interfaces d) < max_interfaces (d_limits d)" "2 \<le> max_options (d_limits d)"
  shows "\<exists>options. decode_block d (ng_raw (d_endian d) 1 body) (length body + 12) (d_endian d) off 1 =
    (let i = \<lparr>if_section = d_section d, if_id = of_nat (length (d_interfaces d)),
              if_link_type = ucast link, if_snaplen = snaplen,
              if_resolution = resolution_from_pcapng octet, if_offset_seconds = offs\<rparr>
     in Ok (d\<lparr>d_interfaces := d_interfaces d @ [i]\<rparr>, Interface i, options, []))"
proof -
  let ?e = "d_endian d" and ?raw = "ng_raw (d_endian d) 1 body"
  from body have b: "body = put_u16 ?e link [] @ put_u16 ?e 0 [] @ put_u32 ?e snaplen [] @
     put_u16 ?e 9 [] @ put_u16 ?e 1 [] @ octet # 0 # 0 # 0 # put_u16 ?e 14 [] @ put_u16 ?e 8 [] @
     put_u64 ?e (of_int offs) [] @ put_u16 ?e 0 [] @ put_u16 ?e 0 []"
    by (simp add: idb_body_eq)
  then have n: "length body = 32" by simp
  have w: "word16_at ?e ?raw 8 = link" "word32_at ?e ?raw 12 = snaplen" "word16_at ?e ?raw 16 = 9"
    "word16_at ?e ?raw 18 = 1" "?raw ! 20 = octet" "word16_at ?e ?raw 24 = 14"
    "word16_at ?e ?raw 26 = 8" "word64_at ?e ?raw 28 = of_int offs" "word16_at ?e ?raw 36 = 0"
    "word16_at ?e ?raw 38 = 0"
    unfolding ng_raw_def by (simp_all add: b byte_simps del: put_u16.simps put_u32.simps put_u64.simps)
  define options where "options = [\<lparr>opt_code = 9, opt_value_offset = 20, opt_length = 1\<rparr>,
    \<lparr>opt_code = 14, opt_value_offset = 28, opt_length = 8\<rparr>]"
  have opts: "parse_options ?raw 16 40 ?e off (d_limits d) = Ok options"
    using w room(2) n
    by (simp add: parse_options_def options_def parse_options_from.simps usize_limit_def
        checked_add_def)
  have "interface_options ?raw ?e off options (Decimal 6) 0 False False =
      Ok (resolution_from_pcapng octet, offs)"
    using w n off64 word64_at_sub_list [of 28 ?raw ?e]
    by (simp add: options_def endian_u64_full nth_sub_list)
  with opts w room(1) n show ?thesis
    by (auto simp: decode_block_def decode_interface_def minimum_def Let_def)
qed

lemma decode_packet_written:
  assumes iid: "unat iid < length (d_interfaces d)" and mode: "d_mode d = Strict"
    and i: "i = d_interfaces d ! unat iid"
    and ts: "ts_resolution ts = if_resolution i" "offset_seconds ts = if_offset_seconds i"
    and len: "length data \<le> max_packet_bytes (d_limits d)" "length data \<le> unat orig"
      "if_snaplen i = 0 \<or> length data \<le> unat (if_snaplen i)"
    and padded: "align4 (length data) = Ok padded" "32 + padded < usize_limit"
    and body: "body = epb_body (d_endian d) iid (ticks ts) (of_nat (length data)) orig data (20 + padded)"
  shows "length body = 20 + padded"
    "decode_block d (ng_raw (d_endian d) 6 body) (length body + 12) (d_endian d) off 6 =
      Ok (d\<lparr>d_next_frame := d_next_frame d + 1\<rparr>,
          Packet \<lparr>pm_frame = d_next_frame d, pm_section = d_section d, pm_interface = iid,
                  pm_link_type = if_link_type i, captured_len = of_nat (length data),
                  original_len = orig, data_offset = 28, pm_timestamp = Some ts\<rparr>, [], [])"
    "sub_list (ng_raw (d_endian d) 6 body) 28 (28 + length data) = data"
proof -
  let ?e = "d_endian d" and ?raw = "ng_raw (d_endian d) 6 body" and ?n = "of_nat (length data) :: u32"
  note al = align4_bounds [OF padded(1)]
  have b: "body = put_u32 ?e iid [] @ put_u32 ?e (ucast (drop_bit 32 (ticks ts))) [] @
      put_u32 ?e (ucast (ticks ts)) [] @ put_u32 ?e ?n [] @ put_u32 ?e orig [] @ data @
      replicate (padded - length data) 0"
    using al unfolding body by (cases ?e) (simp_all add: epb_body_def pad_to_def)
  then show n: "length body = 20 + padded" using al by simp
  have w: "word32_at ?e ?raw 8 = iid" "word32_at ?e ?raw 12 = ucast (drop_bit 32 (ticks ts))"
    "word32_at ?e ?raw 16 = ucast (ticks ts)" "word32_at ?e ?raw 20 = ?n" "word32_at ?e ?raw 24 = orig"
    unfolding ng_raw_def by (simp_all add: b byte_simps del: put_u32.simps)
  have u: "unat ?n = length data" using unat_of_small len(2) .
  have le: "?n \<le> orig" "if_snaplen i = 0 \<or> ?n \<le> if_snaplen i"
    using len u by (simp_all add: word_le_nat_alt)
  show "decode_block d ?raw (length body + 12) ?e off 6 =
      Ok (d\<lparr>d_next_frame := d_next_frame d + 1\<rparr>,
          Packet \<lparr>pm_frame = d_next_frame d, pm_section = d_section d, pm_interface = iid,
                  pm_link_type = if_link_type i, captured_len = of_nat (length data),
                  original_len = orig, data_offset = 28, pm_timestamp = Some ts\<rparr>, [], [])"
    using n w u le padded iid ts len(1) i mode
    by (auto simp: decode_block_def decode_packet_block_def minimum_def interface_of_def
        checked_add_def validate_lengths_def parse_options_def parse_options_from.simps byte_simps)
  show "sub_list ?raw 28 (28 + length data) = data"
    unfolding ng_raw_def by (simp add: b sub_list_def del: put_u32.simps)
qed

lemma shb_magic_word: "put_u32 e 0x0a0d0d0a [] = shb_magic"
  by (cases e) (simp_all add: be32_bytes_def shb_magic_def)

lemma byte_order_magic:
  "put_u32 e 0x1a2b3c4d [] = (case e of Little \<Rightarrow> [0x4d, 0x3c, 0x2b, 0x1a] | Big \<Rightarrow> [0x1a, 0x2b, 0x3c, 0x4d])"
  by (cases e) (simp_all add: be32_bytes_def)

lemma shb_reads_back:
  assumes d: "decoder_new l Strict = Ok d" and room: "28 \<le> max_block_bytes l"
  shows "reads_back d (ng_raw e 0x0a0d0d0a (shb_body e))
    (\<lambda>d'. d_format d' = Some PcapNg \<and> d_endian d' = e \<and> d_section d' = 0 \<and> d_section_end d' = None
        \<and> d_interfaces d' = [] \<and> d_mode d' = Strict)
    (\<lambda>r. rec_kind r = Section 0 None)"
proof -
  let ?raw = "ng_raw e 0x0a0d0d0a (shb_body e)"
  have b: "shb_body e = put_u32 e 0x1a2b3c4d [] @ put_u16 e 1 [] @ put_u16 e 0 [] @ put_u64 e (-1) []"
    by (cases e) (simp_all add: shb_body_def)
  then have n: "length (shb_body e) = 16" by simp
  have raw: "length ?raw = 28" "take 28 ?raw = ?raw" using n by simp_all
  have magic: "take 4 ?raw = shb_magic"
    unfolding ng_raw_def magic_bytes(1) by (rule shb_magic_word)
  have w: "word32_at e ?raw 0 = 0x0a0d0d0a" "word32_at e ?raw 4 = 28" "word16_at e ?raw 12 = 1"
    "word16_at e ?raw 14 = 0" "word64_at e ?raw 16 = -1" "word32_at e ?raw 24 = 28"
    "sub_list ?raw 8 12 = put_u32 e 0x1a2b3c4d []"
    unfolding ng_raw_def
    by (simp_all add: b byte_simps sub_list_def del: put_u16.simps put_u32.simps put_u64.simps)
  have e: "ng_endian ?raw off = Ok e" for off
    using raw(1) w(7) by (cases e) (simp_all add: ng_endian_def be32_bytes_def)
  from decoder_new_Ok [OF d] room raw magic w e show ?thesis
    by (auto simp: reads_back_def decode_def required_def required_block_def checked_add_def
        decode_ng_def section_bounds_def decode_block_def decode_section_def parse_options_def
        parse_options_from.simps Let_def)
qed

lemma ng_block_Ok:
  assumes "ng_block wr w ty body = (w', Ok u)"
  obtains "write_parts wr (nw_output w) (ng_frame (nw_endian w) ty (of_nat (length body + 12)) body) =
      (nw_output w', Ok ())" "w' = w\<lparr>nw_output := nw_output w'\<rparr>" "length body mod 4 = 0"
    "length body + 12 \<le> max_block_bytes (nw_limits w)" "length body + 12 < 2 ^ 32"
proof -
  have m: "(n + 12) mod 4 = 0 \<longleftrightarrow> n mod 4 = 0" for n :: nat by presburger
  from assms that show thesis
    by (auto simp: ng_block_def m checked_add_eq_Some
        split: if_split_asm outcome.split_asm prod.split_asm option.split_asm)
qed

lemma pcapng_packet_Ok:
  assumes "pcapng_packet wr w iid ts orig data = (w', Ok u)"
  obtains padded where "align4 (length data) = Ok padded" "unat iid < length (nw_interfaces w)"
    "ts_resolution ts = if_resolution (nw_interfaces w ! unat iid)"
    "offset_seconds ts = if_offset_seconds (nw_interfaces w ! unat iid)"
    "length data \<le> max_packet_bytes (nw_limits w)" "length data \<le> unat orig"
    "if_snaplen (nw_interfaces w ! unat iid) = 0
      \<or> length data \<le> unat (if_snaplen (nw_interfaces w ! unat iid))"
    "32 + padded < usize_limit"
    "ng_block wr w 6 (epb_body (nw_endian w) iid (ticks ts) (of_nat (length data)) orig data (20 + padded))
      = (w', Ok u)"
  using assms
  by (auto simp: pcapng_packet_def Let_def checked_add_eq_Some checked_add_eq_None outcome_simps
      split: if_split_asm outcome.split_asm prod.split_asm option.split_asm)

lemma pcapng_interface_Ok:
  assumes "pcapng_interface wr w link snaplen res offs = (w', Ok iid)"
  obtains octet body w1 where "resolution_to_pcapng res = Ok octet"
    "idb_body (nw_endian w) link snaplen octet offs = Ok body"
    "length (nw_interfaces w) < max_interfaces (nw_limits w)" "ng_block wr w 1 body = (w1, Ok ())"
    "w' = w1\<lparr>nw_interfaces := nw_interfaces w1 @
       [\<lparr>if_section = 0, if_id = of_nat (length (nw_interfaces w)), if_link_type = ucast link,
         if_snaplen = snaplen, if_resolution = res, if_offset_seconds = offs\<rparr>]\<rparr>"
  using assms
  by (auto simp: pcapng_interface_def outcome_simps
      split: if_split_asm outcome.split_asm prod.split_asm)

lemma ng_packet_reads_back:
  assumes sync: "ng_sync w d" and ok: "pcapng_packet wr w iid ts orig data = (w', Ok u)"
  obtains body where "ng_block wr w 6 body = (w', Ok ())"
    "reads_back d (ng_raw (nw_endian w) 6 body) (ng_sync w') (ng_carries w (WritePacket iid ts orig data))"
proof -
  let ?i = "nw_interfaces w ! unat iid"
  from ok obtain padded where p: "align4 (length data) = Ok padded"
    "unat iid < length (nw_interfaces w)" "ts_resolution ts = if_resolution ?i"
    "offset_seconds ts = if_offset_seconds ?i" "length data \<le> max_packet_bytes (nw_limits w)"
    "length data \<le> unat orig" "if_snaplen ?i = 0 \<or> length data \<le> unat (if_snaplen ?i)"
    "32 + padded < usize_limit"
    "ng_block wr w 6 (epb_body (nw_endian w) iid (ticks ts) (of_nat (length data)) orig data (20 + padded))
      = (w', Ok u)"
    by (rule pcapng_packet_Ok)
  define body where "body = epb_body (nw_endian w) iid (ticks ts) (of_nat (length data)) orig data (20 + padded)"
  from p(9) have blk: "ng_block wr w 6 body = (w', Ok ())" by (simp add: body_def)
  from blk have b: "w' = w\<lparr>nw_output := nw_output w'\<rparr>" "length body mod 4 = 0"
    "length body + 12 \<le> max_block_bytes (nw_limits w)" "length body + 12 < 2 ^ 32"
    by (auto elim: ng_block_Ok)
  have s: "d_format d = Some PcapNg" "d_endian d = nw_endian w" "d_limits d = nw_limits w"
    "d_mode d = Strict" "d_section d = 0" "d_section_end d = None" "d_interfaces d = nw_interfaces w"
    using sync by (simp_all add: ng_sync_def)
  have pre: "unat iid < length (d_interfaces d)" "?i = d_interfaces d ! unat iid"
    "length data \<le> max_packet_bytes (d_limits d)"
    "body = epb_body (d_endian d) iid (ticks ts) (of_nat (length data)) orig data (20 + padded)"
    using p s by (simp_all add: body_def)
  note dec = decode_packet_written [OF pre(1) s(4) pre(2) p(3,4) pre(3) p(6,7,1,8) pre(4)]
  have "ng_sync w' = ng_sync w" by (subst b(1)) (simp add: ng_sync_def fun_eq_iff)
  moreover have "reads_back d (ng_raw (nw_endian w) 6 body) (ng_sync w)
      (ng_carries w (WritePacket iid ts orig data))"
    unfolding reads_back_def
  proof (intro conjI allI impI)
    show "ng_raw (nw_endian w) 6 body \<noteq> []" by simp
    fix off assume fits: "off + length (ng_raw (nw_endian w) 6 body) < usize_limit"
      "d_records d < max_records (d_limits d)"
    have "unat (of_nat (length data) :: u32) = length data" using unat_of_small p(6) .
    moreover have "28 + length data \<le> length body + 12" using dec(1) align4_bounds [OF p(1)] by simp
    ultimately show "\<exists>d' r. decode d (ng_raw (nw_endian w) 6 body) off = Ok (d', Decoded r)
        \<and> rec_raw r = ng_raw (nw_endian w) 6 body \<and> ng_carries w (WritePacket iid ts orig data) r
        \<and> ng_sync w d' \<and> d_records d' = d_records d + 1 \<and> d_limits d' = d_limits d"
      using decode_ng_raw [OF s(1,6) _ b(2,4) _ fits(2) _ dec(2)] dec(3) fits(1) b(3) s sync
      by (auto simp: record_packet_def ng_sync_def)
  qed
  ultimately show thesis using that blk by simp
qed

lemma ng_interface_reads_back:
  assumes sync: "ng_sync w d"
    and ok: "pcapng_interface wr w link snaplen res (sint (offs :: u64)) = (w', Ok iid)"
  obtains body w1 where "ng_block wr w 1 body = (w1, Ok ())" "nw_output w' = nw_output w1"
    "reads_back d (ng_raw (nw_endian w) 1 body) (ng_sync w')
       (ng_carries w (DeclareInterface link snaplen res offs))"
proof -
  from ok obtain octet body w1 where p: "resolution_to_pcapng res = Ok octet"
    "idb_body (nw_endian w) link snaplen octet (sint offs) = Ok body"
    "length (nw_interfaces w) < max_interfaces (nw_limits w)" "ng_block wr w 1 body = (w1, Ok ())"
    "w' = w1\<lparr>nw_interfaces := nw_interfaces w1 @
       [\<lparr>if_section = 0, if_id = of_nat (length (nw_interfaces w)), if_link_type = ucast link,
         if_snaplen = snaplen, if_resolution = res, if_offset_seconds = sint offs\<rparr>]\<rparr>"
    by (rule pcapng_interface_Ok)
  from p(4) have b: "w1 = w\<lparr>nw_output := nw_output w1\<rparr>" "length body mod 4 = 0"
    "length body + 12 \<le> max_block_bytes (nw_limits w)" "length body + 12 < 2 ^ 32"
    by (auto elim: ng_block_Ok)
  have s: "d_format d = Some PcapNg" "d_endian d = nw_endian w" "d_limits d = nw_limits w"
    "d_section d = 0" "d_section_end d = None" "d_interfaces d = nw_interfaces w"
    "2 \<le> max_options (d_limits d)" "d_mode d = Strict"
    using sync by (auto simp: ng_sync_def)
  have res: "resolution_from_pcapng octet = res" using p(1) resolution_roundtrip by metis
  have w1: "nw_interfaces w1 = nw_interfaces w" "nw_endian w1 = nw_endian w" "nw_limits w1 = nw_limits w"
    by (subst b(1); simp)+
  have "reads_back d (ng_raw (nw_endian w) 1 body) (ng_sync w')
      (ng_carries w (DeclareInterface link snaplen res offs))"
    unfolding reads_back_def
  proof (intro conjI allI impI)
    show "ng_raw (nw_endian w) 1 body \<noteq> []" by simp
    fix off assume fits: "off + length (ng_raw (nw_endian w) 1 body) < usize_limit"
      "d_records d < max_records (d_limits d)"
    obtain options where dec: "decode_block d (ng_raw (d_endian d) 1 body) (length body + 12) (d_endian d) off 1 =
      (let i = \<lparr>if_section = d_section d, if_id = of_nat (length (d_interfaces d)),
              if_link_type = ucast link, if_snaplen = snaplen,
              if_resolution = resolution_from_pcapng octet, if_offset_seconds = sint offs\<rparr>
       in Ok (d\<lparr>d_interfaces := d_interfaces d @ [i]\<rparr>, Interface i, options, []))"
      using decode_interface_written [of d link snaplen octet "sint offs" body off] p(2,3) s by auto
    show "\<exists>d' r. decode d (ng_raw (nw_endian w) 1 body) off = Ok (d', Decoded r)
        \<and> rec_raw r = ng_raw (nw_endian w) 1 body
        \<and> ng_carries w (DeclareInterface link snaplen res offs) r
        \<and> ng_sync w' d' \<and> d_records d' = d_records d + 1 \<and> d_limits d' = d_limits d"
      using decode_ng_raw [OF s(1,5) _ b(2,4) _ fits(2) _ dec [unfolded Let_def]] fits(1) b(3) s p(5) w1
      by (auto simp: ng_sync_def res simp del: resolution_from_pcapng.simps)
  qed
  with p(4,5) that show thesis by simp
qed

lemma ng_emit_reads_back:
  assumes sync: "ng_sync w d" and ok: "ng_emit wr w x = (w', Ok u)"
  obtains ty body w1 where "ng_block wr w ty body = (w1, Ok ())" "nw_output w' = nw_output w1"
    "reads_back d (ng_raw (nw_endian w) ty body) (ng_sync w') (ng_carries w x)"
proof (cases x)
  case (DeclareInterface link snaplen res offs)
  then obtain iid where "pcapng_interface wr w link snaplen res (sint offs) = (w', Ok iid)"
    using ok by (auto split: prod.split_asm elim!: and_then_OkE)
  then show thesis
    using ng_interface_reads_back [OF sync, of wr link snaplen res offs w' iid] that DeclareInterface
    by metis
next
  case (WritePacket iid ts orig data)
  then have "pcapng_packet wr w iid ts orig data = (w', Ok u)" using ok by simp
  then show thesis
    using ng_packet_reads_back [OF sync, of wr iid ts orig data w' u] that WritePacket by metis
qed

lemma ng_emit_block:
  assumes "ng_emit wr w x = (w', Ok u)"
  obtains ty body w1 where "ng_block wr w ty body = (w1, Ok ())" "nw_output w' = nw_output w1"
  using assms
  by (cases x) (auto split: prod.split_asm elim!: and_then_OkE pcapng_interface_Ok pcapng_packet_Ok)

section \<open>Files\<close>

context byte_sink
begin

lemma ng_block_appends:
  assumes "ng_block wr w ty body = (w', Ok u)"
  shows "written (nw_output w') = written (nw_output w) @ ng_raw (nw_endian w) ty body"
  using assms by (rule ng_block_Ok) (use write_parts_appended concat_ng_frame in metis)

end

sublocale byte_sink < pcapng: record_writer "\<lambda>w. written (nw_output w)" "ng_emit wr"
  "\<lambda>_ :: unit. ng_sync" "\<lambda>_. ng_carries"
proof
  fix s :: "'w pcapng_writer" and x s' u
  assume emit: "ng_emit wr s x = (s', Ok u)"
  then show "\<exists>raw. written (nw_output s') = written (nw_output s) @ raw"
    by (rule ng_emit_block) (use ng_block_appends in auto)
  fix raw d
  assume raw: "written (nw_output s') = written (nw_output s) @ raw" and "ng_sync s d"
  from this(2) emit show "reads_back d raw (ng_sync s') (ng_carries s x)"
    by (rule ng_emit_reads_back) (use ng_block_appends raw in auto)
next
  show "ng_sync s d \<Longrightarrow> decoder_finish d off = Ok ()" for s :: "'w pcapng_writer" and d off
    by (auto simp: ng_sync_def decoder_finish_def)
qed

context byte_sink
begin

lemma pcapng_roundtrip_lemma:
  assumes new: "pcapng_writer_new wr out0 e l = Ok w" and empty: "written out0 = []"
    and ops: "write_ops (ng_emit wr) w xs = (w', Ok u)"
    and fits: "length (written (nw_output w')) \<le> max_input_bytes l"
      "length (written (nw_output w')) < usize_limit" "length xs < max_records l" "2 \<le> max_options l"
  shows "\<exists>it h rs. iter_new (written (nw_output w')) l Strict = Ok it
    \<and> iter_items it = map Ok (h # rs) \<and> rec_kind h = Section 0 None
    \<and> told (ng_emit wr) ng_carries w xs rs"
proof -
  let ?head = "ng_raw e 0x0a0d0d0a (shb_body e)"
  let ?w0 = "\<lparr>nw_output = out0, nw_endian = e, nw_interfaces = [], nw_limits = l, nw_failed = False\<rparr>"
  from new have l: "limits_validate l = Ok ()"
    and blk: "ng_block wr ?w0 0x0a0d0d0a (shb_body e) = (w, Ok ())"
    by (auto simp: pcapng_writer_new_def elim!: and_then_OkE split: prod.split_asm)
  have "length (shb_body e) = 16" by (simp add: shb_body_def)
  with blk have w: "w = ?w0\<lparr>nw_output := nw_output w\<rparr>" "28 \<le> max_block_bytes l"
    by (auto elim: ng_block_Ok)
  have start: "written (nw_output w) = ?head" using ng_block_appends [OF blk] empty by simp
  from l obtain d where d: "decoder_new l Strict = Ok d" by (simp add: decoder_new_def)
  note d0 = decoder_new_Ok [OF d]
  obtain rest where rest: "written (nw_output w') = ?head @ rest"
    using pcapng.ops_grow [OF ops] start by auto
  have "0 + length ?head < usize_limit" "d_records d < max_records (d_limits d)"
    using fits(2,3) rest d0 by simp_all
  then obtain d1 h where h: "decode d ?head 0 = Ok (d1, Decoded h)" "rec_raw h = ?head"
    "rec_kind h = Section 0 None" "?head \<noteq> []" "d_records d1 = d_records d + 1" "d_limits d1 = d_limits d"
    and d1: "d_format d1 = Some PcapNg \<and> d_endian d1 = e \<and> d_section d1 = 0 \<and> d_section_end d1 = None
        \<and> d_interfaces d1 = [] \<and> d_mode d1 = Strict"
    by (rule reads_backE [OF shb_reads_back [OF d w(2), of e]])
  let ?it = "\<lparr>it_data = written (nw_output w'), it_position = 0, it_decoder = d, it_terminal = False\<rparr>"
  have "iter_items ?it = Ok h # iter_items (?it\<lparr>it_decoder := d1, it_position := length ([] @ ?head)\<rparr>)"
    by (rule iter_items_decoded [where post = rest]) (use h rest fits in auto)
  moreover have "ng_sync w d1" using d1 h d0 fits(4) by (subst w(1)) (simp add: ng_sync_def)
  then obtain rs where "iter_items \<lparr>it_data = written (nw_output w'),
      it_position = length (written (nw_output w)), it_decoder = d1, it_terminal = False\<rparr> = map Ok rs"
    "told (ng_emit wr) ng_carries w xs rs"
    using pcapng.ops_read_back [OF ops, of d1] fits h d0 by auto
  moreover have "iter_new (written (nw_output w')) l Strict = Ok ?it"
    using fits(1) d by (simp add: iter_new_def)
  ultimately show ?thesis using h(3) start by (intro exI [of _ ?it] exI [of _ h] exI [of _ rs]) simp
qed

end

section \<open>Archival copy\<close>

lemma all_records_Ok: "all_records xs = Ok () \<longleftrightarrow> (\<forall>x \<in> set xs. \<exists>r. x = Ok r)"
  by (induction xs rule: all_records.induct) auto

section \<open>Properties\<close>

text \<open>
  C5: the PCAPNG writer and the strict decoder are inverse.  Whatever sequence of interface
  declarations and packets the writer accepted, reading its output back yields the section header and
  then one record per operation, in order: interfaces with the same identifier, link type, snap
  length, resolution and offset; packets with the same bytes, lengths, interface and raw timestamp.
\<close>

theorem pcapng_written_reads_back:
  assumes "byte_sink wr written" "written out0 = []" "pcapng_writer_new wr out0 e l = Ok w"
    and "write_ops (ng_emit wr) w xs = (w', Ok u)"
    and "length (written (nw_output w')) \<le> max_input_bytes l"
      "length (written (nw_output w')) < usize_limit" "length xs < max_records l" "2 \<le> max_options l"
  shows "\<exists>it h rs. iter_new (written (nw_output w')) l Strict = Ok it
    \<and> iter_items it = map Ok (h # rs) \<and> rec_kind h = Section 0 None
    \<and> told (ng_emit wr) ng_carries w xs rs"
  by (rule byte_sink.pcapng_roundtrip_lemma [OF assms(1,3,2,4-8)])

theorem pcapng_written_reads_back_witness:
  "\<exists>w w' it h r. pcapng_writer_new vec_write [] Little limits_default = Ok w
     \<and> ng_emit vec_write w (DeclareInterface 1 0 (Decimal 6) (-1)) = (w', Ok ())
     \<and> iter_new (nw_output w') limits_default Strict = Ok it \<and> iter_items it = [Ok h, Ok r]
     \<and> ng_carries w (DeclareInterface 1 0 (Decimal 6) (-1)) r"
proof -
  let ?x = "DeclareInterface 1 0 (Decimal 6) (-1)"
  have b: "length (shb_body Little) = 16" by (simp add: shb_body_def)
  obtain w where w: "pcapng_writer_new vec_write [] Little limits_default = Ok w"
    "w = \<lparr>nw_output = ng_raw Little 0x0a0d0d0a (shb_body Little), nw_endian = Little, nw_interfaces = [],
          nw_limits = limits_default, nw_failed = False\<rparr>"
    using b concat_ng_frame [of Little "0x0a0d0d0a" "shb_body Little"]
    by (simp add: pcapng_writer_new_def ng_block_def vec_write_def checked_add_def usize_limit_def
        ng_frame_def)
  obtain body where body: "idb_body Little 1 0 6 (-1) = Ok body" "length body = 32"
    by (simp add: idb_body_eq)
  obtain w' where w': "ng_emit vec_write w ?x = (w', Ok ())" "length (nw_output w') = 72"
    using w(2) b body concat_ng_frame [of Little 1 body]
    by (simp add: pcapng_interface_def ng_block_def vec_write_def checked_add_def usize_limit_def
        ng_frame_def)
  then obtain it h rs where "iter_new (nw_output w') limits_default Strict = Ok it"
    "iter_items it = map Ok (h # rs)" "told (ng_emit vec_write) ng_carries w [?x] rs"
    using pcapng_written_reads_back [OF vec.byte_sink_axioms refl w(1), of "[?x]" w' "()"]
    by (auto simp: usize_limit_def simp del: ng_emit.simps)
  moreover from this(3) obtain r where "rs = [r]" "ng_carries w ?x r"
    by (auto simp del: ng_carries.simps split: list.split_asm)
  ultimately show ?thesis
    using w(1) w'(1)
    by (intro exI [of _ w] exI [of _ w'] exI [of _ it] exI [of _ h] exI [of _ r]) simp
qed

text \<open>
  the archival copy is exact and validated first.  \<^verbatim>\<open>copy_exact\<close> succeeds only if every record of
  the input decodes, and then the output holds exactly the input; if some record is invalid, it
  returns the first error and the result does not depend on the output at all.
\<close>

theorem copy_exact_is_validated_and_exact:
  assumes "byte_sink wr written" and "\<forall>w w' u. flush w = (w', Ok u) \<longrightarrow> written w' = written w"
  shows "(copy_exact wr flush input out0 l mode = Ok out1 \<longrightarrow>
      written out1 = written out0 @ input
      \<and> (\<exists>it. iter_new input l mode = Ok it \<and> (\<forall>x \<in> set (iter_items it). \<exists>r. x = Ok r)))
    \<and> (\<forall>it e. iter_new input l mode = Ok it \<longrightarrow> all_records (iter_items it) = Err e \<longrightarrow>
        copy_exact wr flush input out0 l mode = Err e)"
  using assms byte_sink.appended [OF assms(1)] all_records_Ok
  by (auto simp: copy_exact_def elim!: and_then_OkE split: prod.split_asm)

theorem copy_exact_is_validated_and_exact_witness:
  "copy_exact vec_write vec_flush [1, 2, 3, 4] [] limits_default Strict =
     Err (error_new BadMagic 0 ''magic'' ''not supported PCAP/PCAPNG'')"
proof -
  let ?err = "error_new BadMagic 0 ''magic'' ''not supported PCAP/PCAPNG''"
  obtain d where d: "decoder_new limits_default Strict = Ok d" by (simp add: decoder_new_def)
  let ?it = "\<lparr>it_data = [1, 2, 3, 4], it_position = 0, it_decoder = d, it_terminal = False\<rparr>"
  have it: "iter_new [1, 2, 3, 4] limits_default Strict = Ok ?it" using d by (simp add: iter_new_def)
  have "iter_items ?it = [Err ?err]"
    using decoder_new_Ok [OF d]
    by (subst iter_items.simps)
      (simp add: iter_next_def decode_def required_def checked_add_def usize_limit_def shb_magic_def
        iter_items_terminal)
  with it copy_exact_is_validated_and_exact [OF vec.byte_sink_axioms, of vec_flush "[1, 2, 3, 4]" "[]"
      limits_default Strict "[]"] show ?thesis
    by (simp add: vec_flush_def)
qed

end
