(* ===== verification/Checksum.thy ===== *)
theory Checksum
  imports Byte_Order
begin

text \<open>
  \<^verbatim>\<open>src/src/checksum.rs\<close>: the incremental Internet checksum.  The state is the folded 32-bit sum and
  the odd byte carried from one update to the next.  The lemmas show that the sum never leaves
  16 bits between additions (so the 32-bit addition of the code cannot overflow), that updates
  compose over concatenation, and that the result is the complement of the one's-complement sum
  of RFC 1071.
\<close>

record internet_checksum =
  cs_sum :: u32
  cs_high_byte :: "u8 option"

definition checksum_new :: internet_checksum where
  "checksum_new = \<lparr>cs_sum = 0, cs_high_byte = None\<rparr>"

definition fold_sum :: "u32 \<Rightarrow> u32" where
  "fold_sum s = (s AND 0xffff) + drop_bit 16 s"

definition add_word :: "internet_checksum \<Rightarrow> u16 \<Rightarrow> internet_checksum" where
  "add_word c w = c\<lparr>cs_sum := fold_sum (cs_sum c + ucast w)\<rparr>"

fun update_pairs :: "internet_checksum \<Rightarrow> bytes \<Rightarrow> internet_checksum" where
  "update_pairs c (a # b # rest) = update_pairs (add_word c (be16_word a b)) rest"
| "update_pairs c [a] = c\<lparr>cs_high_byte := Some a\<rparr>"
| "update_pairs c [] = c\<lparr>cs_high_byte := None\<rparr>"

fun checksum_update :: "internet_checksum \<Rightarrow> bytes \<Rightarrow> internet_checksum" where
  "checksum_update c [] = c"
| "checksum_update c (b # bytes) =
     (case cs_high_byte c of
        Some high \<Rightarrow> update_pairs (add_word (c\<lparr>cs_high_byte := None\<rparr>) (be16_word high b)) bytes
      | None \<Rightarrow> update_pairs c (b # bytes))"

lemma unat_drop_16: "unat (drop_bit 16 s) = unat (s :: u32) div 65536"
proof -
  have "unat s < 2 ^ 32" using unsigned_less [where w = s] by simp
  then have "take_bit 32 (unat s) = unat s" by (rule take_bit_nat_eq_self)
  then show ?thesis by (simp only: unsigned_drop_bit_eq) (simp add: drop_bit_eq_div)
qed

text \<open>The loop \<^verbatim>\<open>while sum >> 16 != 0\<close>: every round strictly decreases the sum.\<close>

lemma unat_fold_sum: "unat (fold_sum s) = unat s mod 65536 + unat s div 65536"
proof -
  have s: "unat s < 4294967296" using unsigned_less [where w = s] by simp
  have "s AND 0xffff = take_bit 16 s"
    by (simp add: take_bit_eq_mask mask_eq_exp_minus_1)
  then have "unat (s AND 0xffff) = unat s mod 65536"
    by (simp only: unsigned_take_bit_eq) (simp add: take_bit_eq_mod)
  moreover note unat_drop_16 [of s]
  moreover have "unat s div 65536 < 65536" using s by (simp add: less_mult_imp_div_less)
  moreover have "unat s mod 65536 < 65536" by simp
  ultimately show ?thesis
    by (simp add: fold_sum_def unat_word_ariths)
qed

lemma drop_16_eq_0: "drop_bit 16 s = 0 \<longleftrightarrow> unat (s :: u32) < 65536"
proof -
  have "drop_bit 16 s = 0 \<longleftrightarrow> unat (drop_bit 16 s) = 0" by (simp add: unat_eq_0)
  also note unat_drop_16
  finally show ?thesis by (simp only: div_eq_0_iff) simp
qed

lemma fold_sum_less: "drop_bit 16 s \<noteq> 0 \<Longrightarrow> unat (fold_sum s) < unat s"
proof -
  assume "drop_bit 16 s \<noteq> 0"
  then have "\<not> unat s < 65536" by (simp only: drop_16_eq_0 not_False_eq_True)
  then have "0 < unat s div 65536" by (simp add: div_greater_zero_iff)
  then show ?thesis
    using div_mult_mod_eq [of "unat s" 65536] unfolding unat_fold_sum by linarith
qed

function fold_loop :: "u32 \<Rightarrow> u32" where
  "fold_loop s = (if drop_bit 16 s \<noteq> 0 then fold_loop (fold_sum s) else s)"
  by pat_completeness auto
termination
  by (relation "measure unat") (auto intro: fold_sum_less)

declare fold_loop.simps [simp del]

definition checksum_finish :: "internet_checksum \<Rightarrow> u16" where
  "checksum_finish c =
     (let s = (case cs_high_byte c of
                 Some high \<Rightarrow> cs_sum c + push_bit 8 (ucast high)
               | None \<Rightarrow> cs_sum c)
      in NOT (ucast (fold_loop s)))"

definition checksum_inv :: "internet_checksum \<Rightarrow> bool" where
  "checksum_inv c \<longleftrightarrow> unat (cs_sum c) < 65536"

section \<open>The one's-complement sum of RFC 1071\<close>

definition ones_add :: "nat \<Rightarrow> nat" where
  "ones_add n = (if n = 0 then 0 else (n - 1) mod 65535 + 1)"

fun word_sum :: "bytes \<Rightarrow> nat" where
  "word_sum (a # b # rest) = 256 * unat a + unat b + word_sum rest"
| "word_sum [a] = 256 * unat a"
| "word_sum [] = 0"

definition rfc1071 :: "bytes \<Rightarrow> u16" where
  "rfc1071 data = NOT (of_nat (ones_add (word_sum data)))"

lemma ones_add_less [simp]: "ones_add n < 65536"
  using mod_less_divisor [of 65535 "n - 1"] by (simp add: ones_add_def)

lemma ones_add_small: "n < 65536 \<Longrightarrow> ones_add n = n"
  by (simp add: ones_add_def)

lemma ones_add_fold: "ones_add (n mod 65536 + n div 65536) = ones_add n"
proof (cases "n = 0")
  case False
  let ?k = "n mod 65536 + n div 65536"
  have n: "n = ?k + 65535 * (n div 65536)" using div_mult_mod_eq [of n 65536] by linarith
  with False have "?k \<noteq> 0" by (metis add_eq_0_iff_both_eq_0 mult_0_right)
  with n have "n - 1 = (?k - 1) + 65535 * (n div 65536)" by linarith
  then have "(n - 1) mod 65535 = (?k - 1) mod 65535"
    by (metis mod_mult_self2)
  with False \<open>?k \<noteq> 0\<close> show ?thesis by (simp only: ones_add_def if_False)
qed simp

lemma ones_add_left: "ones_add (ones_add a + b) = ones_add (a + b)"
proof (cases "a = 0")
  case False
  then have "ones_add a + b - 1 = (a - 1) mod 65535 + b" "a + b - 1 = (a - 1) + b"
    by (simp_all add: ones_add_def)
  with False show ?thesis by (simp add: ones_add_def mod_add_left_eq)
qed (simp add: ones_add_def)

section \<open>The sum of the code is the one's-complement sum\<close>

lemma unat_add_small:
  "unat (a :: u32) < 65536 \<Longrightarrow> unat (b :: u32) < 65536 \<Longrightarrow> unat (a + b) = unat a + unat b"
  by (simp add: unat_word_ariths)

lemma unat_u16_less: "unat (w :: u16) < 65536"
  using unsigned_less [where w = w] by simp

lemma unat_ucast_16: "unat (ucast (w :: u16) :: u32) = unat w"
  using unat_u16_less [of w] by (simp add: unsigned_ucast_eq take_bit_nat_eq_self_iff)

lemma fold_small: "n \<le> 131070 \<Longrightarrow> n mod 65536 + n div 65536 < (65536 :: nat)"
  by (cases "n < 65536") (auto simp: mod_if div_if)

lemma add_word_sum:
  assumes "checksum_inv c"
  shows "unat (cs_sum (add_word c w)) = ones_add (unat (cs_sum c) + unat w)"
proof -
  let ?n = "unat (cs_sum c) + unat w"
  have n: "unat (cs_sum c + ucast w) = ?n"
    using assms unat_add_small [of "cs_sum c" "ucast w"] unat_u16_less [of w]
    by (simp add: checksum_inv_def unat_ucast_16)
  have "?n \<le> 131070" using assms unat_u16_less [of w] by (simp add: checksum_inv_def)
  then have "?n mod 65536 + ?n div 65536 < 65536" by (rule fold_small)
  then have "?n mod 65536 + ?n div 65536 = ones_add ?n"
    using ones_add_small ones_add_fold by metis
  with n show ?thesis by (simp add: add_word_def unat_fold_sum)
qed

lemma add_word_inv: "checksum_inv c \<Longrightarrow> checksum_inv (add_word c w)"
  by (simp add: add_word_sum checksum_inv_def)

lemma add_word_high [simp]: "cs_high_byte (add_word c w) = cs_high_byte c"
  by (simp add: add_word_def)

lemma checksum_inv_high [simp]: "checksum_inv (c\<lparr>cs_high_byte := h\<rparr>) = checksum_inv c"
  by (simp add: checksum_inv_def)

lemma update_pairs_inv: "checksum_inv c \<Longrightarrow> checksum_inv (update_pairs c xs)"
  by (induction c xs rule: update_pairs.induct) (simp_all add: add_word_inv)

lemma checksum_update_inv: "checksum_inv c \<Longrightarrow> checksum_inv (checksum_update c xs)"
  by (cases xs) (auto simp: update_pairs_inv add_word_inv split: option.splits)

text \<open>What the state stands for: the sum so far, with a pending odd byte as a high byte.\<close>

definition pending :: "internet_checksum \<Rightarrow> nat" where
  "pending c = (case cs_high_byte c of Some h \<Rightarrow> 256 * unat h | None \<Rightarrow> 0)"

lemma update_pairs_total:
  "checksum_inv c \<Longrightarrow>
   ones_add (unat (cs_sum (update_pairs c xs)) + pending (update_pairs c xs)) =
   ones_add (unat (cs_sum c) + word_sum xs)"
proof (induction c xs rule: update_pairs.induct)
  case (1 c a b rest)
  have "ones_add (unat (cs_sum (update_pairs c (a # b # rest))) + pending (update_pairs c (a # b # rest)))
      = ones_add (unat (cs_sum (add_word c (be16_word a b))) + word_sum rest)"
    using "1.IH" "1.prems" by (simp add: add_word_inv)
  also have "\<dots> = ones_add (unat (cs_sum c) + unat (be16_word a b) + word_sum rest)"
    using "1.prems" by (simp add: add_word_sum ones_add_left)
  finally show ?case by (simp add: unat_be16_word add.assoc)
qed (simp_all add: pending_def)

lemma fold_loop_ones_add: "unat (fold_loop s) = ones_add (unat s)"
proof (induction s rule: fold_loop.induct)
  case (1 s)
  show ?case
  proof (cases "drop_bit 16 s = 0")
    case True
    then show ?thesis by (simp add: fold_loop.simps [of s] drop_16_eq_0 ones_add_small)
  next
    case False
    with 1 show ?thesis by (simp add: fold_loop.simps [of s] unat_fold_sum ones_add_fold)
  qed
qed

lemma ucast_32_16: "(ucast (s :: u32) :: u16) = of_nat (unat s)"
  by simp

lemma unat_push_byte: "unat (push_bit 8 (ucast (h :: u8)) :: u32) = 256 * unat h"
proof -
  have "unat h < 256" using unsigned_less [where w = h] by simp
  then show ?thesis
    by (simp add: push_bit_eq_mult unat_word_ariths unsigned_ucast_eq take_bit_eq_mod)
qed

lemma finish_sum:
  assumes "checksum_inv c"
  shows "checksum_finish c = NOT (of_nat (ones_add (unat (cs_sum c) + pending c)))"
proof -
  have "unat (cs_sum c + push_bit 8 (ucast h)) = unat (cs_sum c) + 256 * unat h" for h :: u8
    using assms unsigned_less [where w = h]
    by (subst unat_add_small) (simp_all add: checksum_inv_def unat_push_byte)
  then show ?thesis
    by (simp add: checksum_finish_def pending_def ucast_32_16 fold_loop_ones_add split: option.split)
qed

section \<open>Incremental updates\<close>

lemma add_word_high_update:
  "add_word (c\<lparr>cs_high_byte := h\<rparr>) w = (add_word c w)\<lparr>cs_high_byte := h\<rparr>"
  by (simp add: add_word_def)

lemma update_pairs_high:
  "update_pairs (c\<lparr>cs_high_byte := h\<rparr>) xs = update_pairs c xs"
  by (induction c xs rule: update_pairs.induct) (simp_all add: add_word_high_update)

lemma update_pairs_append:
  "update_pairs c (xs @ ys) = checksum_update (update_pairs c xs) ys"
proof (induction c xs rule: update_pairs.induct)
  case (2 c a)
  then show ?case by (cases ys) (simp_all add: update_pairs_high add_word_high_update)
next
  case (3 c)
  then show ?case by (cases ys) (simp_all add: update_pairs_high)
qed simp

lemma checksum_update_append:
  "checksum_update c (xs @ ys) = checksum_update (checksum_update c xs) ys"
  by (cases xs)
    (auto simp: update_pairs_append update_pairs_append [where xs = "x # xs" for x xs, simplified]
      split: option.split)

lemma checksum_update_new: "checksum_update checksum_new xs = update_pairs checksum_new xs"
  by (cases xs) (simp_all add: checksum_new_def)

lemma checksum_new_inv: "checksum_inv checksum_new"
  by (simp add: checksum_inv_def checksum_new_def)

lemma checksum_rfc1071: "checksum_finish (checksum_update checksum_new xs) = rfc1071 xs"
proof -
  have "checksum_inv (update_pairs checksum_new xs)"
    by (simp add: checksum_new_inv update_pairs_inv)
  then show ?thesis
    using update_pairs_total [OF checksum_new_inv, of xs]
    by (simp add: checksum_update_new finish_sum rfc1071_def) (simp add: checksum_new_def)
qed

text \<open>
  What a checksum field computed this way is for: data whose one's-complement sum, checksum
  included, is all ones passes the check \<open>finish = 0\<close>.
\<close>

lemma rfc1071_zero_iff:
  "rfc1071 xs = 0 \<longleftrightarrow> ones_add (word_sum xs) = 65535"
proof -
  have "rfc1071 xs = 0 \<longleftrightarrow> of_nat (ones_add (word_sum xs)) = NOT (0 :: u16)"
    unfolding rfc1071_def by (metis bit.double_compl)
  also have "NOT (0 :: u16) = 65535"
    by simp
  also have "of_nat (ones_add (word_sum xs)) = (65535 :: u16) \<longleftrightarrow>
      unat (of_nat (ones_add (word_sum xs)) :: u16) = 65535"
    by (simp only: word_unat_eq_iff) simp
  also have "\<dots> \<longleftrightarrow> ones_add (word_sum xs) = 65535"
    by (simp add: unat_of_nat)
  finally show ?thesis .
qed

section \<open>Properties\<close>

text \<open>
  C40: however the data is split into calls of \<^verbatim>\<open>update\<close> (odd-sized pieces included), the checksum that
  \<^verbatim>\<open>finish\<close> returns is the RFC 1071 checksum of the concatenated data.
\<close>

theorem checksum_of_any_split:
  "checksum_finish (foldl checksum_update checksum_new pieces) = rfc1071 (concat pieces)"
proof -
  have "foldl checksum_update c pieces = checksum_update c (concat pieces)" for c
    by (induction pieces arbitrary: c) (simp_all add: checksum_update_append)
  then show ?thesis by (simp add: checksum_rfc1071)
qed

end
