(* ===== verification/Provenance.thy ===== *)
theory Provenance
  imports Errors
begin

text \<open>
  \<^verbatim>\<open>src/src/provenance.rs\<close>: bytes that remember which captured packet, and which byte of it, they
  come from.  The abstraction \<open>labels\<close> lists the source of every byte; slicing and appending are
  proved to act on the bytes and on their sources alike, and to keep the layout valid.  The
  interface other components rely on is the locale \<open>evidence_store\<close>, interpreted at the end.
\<close>

section \<open>Packet identities\<close>

datatype packet_id = PacketId (pid_capture: bytes) (pid_frame: nat) (pid_record_offset: nat)

definition packet_id_key :: "packet_id \<Rightarrow> bytes \<times> nat \<times> nat" where
  "packet_id_key p = (pid_capture p, pid_frame p, pid_record_offset p)"

lemma packet_id_key_inj: "packet_id_key p = packet_id_key q \<longleftrightarrow> p = q"
  by (cases p; cases q) (simp add: packet_id_key_def)

instantiation packet_id :: linorder
begin

definition less_eq_packet_id :: "packet_id \<Rightarrow> packet_id \<Rightarrow> bool" where
  "p \<le> q \<longleftrightarrow> packet_id_key p \<le> packet_id_key q"

definition less_packet_id :: "packet_id \<Rightarrow> packet_id \<Rightarrow> bool" where
  "p < q \<longleftrightarrow> packet_id_key p < packet_id_key q"

instance
  by standard
    (auto simp: less_eq_packet_id_def less_packet_id_def packet_id_key_inj less_le_not_le
      dest: order_antisym simp flip: packet_id_key_inj)

end

section \<open>Source spans and evidence\<close>

record source_span =
  span_start :: nat
  span_end :: nat
  span_packet :: packet_id
  span_packet_start :: nat

record evidence =
  ev_data :: bytes
  ev_spans :: "source_span list"
  layout_valid :: bool

definition evidence_default :: evidence where
  "evidence_default = \<lparr>ev_data = [], ev_spans = [], layout_valid = True\<rparr>"

definition from_packet :: "bytes \<Rightarrow> packet_id \<Rightarrow> nat \<Rightarrow> evidence" where
  "from_packet data packet packet_start =
     \<lparr>ev_data = data,
      ev_spans = (if data = [] then []
        else [\<lparr>span_start = 0, span_end = length data, span_packet = packet,
               span_packet_start = packet_start\<rparr>]),
      layout_valid = (data = [] \<or> checked_add packet_start (length data) \<noteq> None)\<rparr>"

definition ev_len :: "evidence \<Rightarrow> nat" where
  "ev_len e = length (ev_data e)"

definition ev_is_empty :: "evidence \<Rightarrow> bool" where
  "ev_is_empty e \<longleftrightarrow> ev_data e = []"

definition invalid :: "string \<Rightarrow> error" where
  "invalid dtl = error_new Invariant 0 ''provenance'' dtl"

text \<open>\<^verbatim>\<open>partition_point\<close> on a slice that the predicate partitions.\<close>

definition partition_point :: "('a \<Rightarrow> bool) \<Rightarrow> 'a list \<Rightarrow> nat" where
  "partition_point P xs = length (takeWhile P xs)"

fun slice_spans :: "nat \<Rightarrow> nat \<Rightarrow> source_span list \<Rightarrow> source_span list result" where
  "slice_spans lo hi [] = Ok []"
| "slice_spans lo hi (s # ss) =
     (let a = max (span_start s) lo; b = min (span_end s) hi
      in if a < b
         then and_then (ok_or (invalid ''source offset overflow'')
                (checked_add (span_packet_start s) (a - span_start s))) (\<lambda>ps.
              and_then (slice_spans lo hi ss) (\<lambda>rest.
                Ok (\<lparr>span_start = a - lo, span_end = b - lo, span_packet = span_packet s,
                     span_packet_start = ps\<rparr> # rest)))
         else slice_spans lo hi ss)"

definition ev_slice :: "evidence \<Rightarrow> nat \<Rightarrow> nat \<Rightarrow> evidence result" where
  "ev_slice e lo hi =
     (if \<not> layout_valid e then Err (invalid ''invalid source-span layout'')
      else if lo > hi \<or> hi > length (ev_data e)
      then Err (error_new Invariant 0 ''evidence_slice'' ''slice outside retained evidence'')
      else (let first = partition_point (\<lambda>s. span_end s \<le> lo) (ev_spans e)
            in and_then (slice_spans lo hi
                  (takeWhile (\<lambda>s. span_start s < hi) (drop first (ev_spans e)))) (\<lambda>spans.
               and_then (range_at (ev_data e) lo hi) (\<lambda>data.
                 Ok \<lparr>ev_data = data, ev_spans = spans, layout_valid = True\<rparr>))))"

definition push_span :: "source_span list \<Rightarrow> source_span \<Rightarrow> source_span list result" where
  "push_span spans nxt =
     (if spans \<noteq> [] \<and> span_packet (last spans) = span_packet nxt
         \<and> span_end (last spans) = span_start nxt
      then and_then (usub (span_end (last spans)) (span_start (last spans))) (\<lambda>n.
             if checked_add (span_packet_start (last spans)) n = Some (span_packet_start nxt)
             then Ok (butlast spans @ [(last spans)\<lparr>span_end := span_end nxt\<rparr>])
             else Ok (spans @ [nxt]))
      else Ok (spans @ [nxt]))"

fun append_spans :: "nat \<Rightarrow> source_span list \<Rightarrow> source_span list \<Rightarrow> source_span list result" where
  "append_spans base spans [] = Ok spans"
| "append_spans base spans (s # ss) =
     and_then (push_span spans
       (s\<lparr>span_start := base + span_start s, span_end := base + span_end s\<rparr>))
       (\<lambda>spans'. append_spans base spans' ss)"

definition ev_append :: "evidence \<Rightarrow> evidence \<Rightarrow> nat \<Rightarrow> evidence result" where
  "ev_append e other limit =
     (if \<not> layout_valid e \<or> \<not> layout_valid other
      then Err (invalid ''invalid source-span layout'')
      else (let base = length (ev_data e)
            in and_then (ok_or (error_limit ''evidence_bytes'')
                  (checked_add base (length (ev_data other)))) (\<lambda>end.
               if end > limit then Err (error_limit ''evidence_bytes'')
               else and_then (append_spans base (ev_spans e) (ev_spans other)) (\<lambda>spans.
                 Ok (e\<lparr>ev_data := ev_data e @ ev_data other, ev_spans := spans\<rparr>)))))"

text \<open>\<^verbatim>\<open>sort\<close> followed by \<^verbatim>\<open>dedup\<close>, which drops consecutive repetitions.\<close>

definition sort_dedup :: "'a::linorder list \<Rightarrow> 'a list" where
  "sort_dedup xs = remdups_adj (sort xs)"

definition ev_packets :: "evidence \<Rightarrow> packet_id list" where
  "ev_packets e = sort_dedup (map span_packet (ev_spans e))"

fun validate_spans :: "nat \<Rightarrow> nat \<Rightarrow> source_span list \<Rightarrow> bool" where
  "validate_spans cursor len [] \<longleftrightarrow> cursor = len"
| "validate_spans cursor len (s # ss) \<longleftrightarrow>
     \<not> (span_start s \<noteq> cursor \<or> span_end s \<le> span_start s \<or> span_end s > len
        \<or> checked_add (span_packet_start s) (span_end s - span_start s) = None)
     \<and> validate_spans (span_end s) len ss"

definition ev_validate :: "evidence \<Rightarrow> bool" where
  "ev_validate e \<longleftrightarrow> layout_valid e \<and> validate_spans 0 (length (ev_data e)) (ev_spans e)"

section \<open>The source of every byte\<close>

definition span_labels :: "source_span \<Rightarrow> (packet_id \<times> nat) list" where
  "span_labels s = map (\<lambda>i. (span_packet s, span_packet_start s + i)) [0..<span_end s - span_start s]"

definition labels_of :: "source_span list \<Rightarrow> (packet_id \<times> nat) list" where
  "labels_of ss = concat (map span_labels ss)"

definition ev_labels :: "evidence \<Rightarrow> (packet_id \<times> nat) list" where
  "ev_labels e = labels_of (ev_spans e)"

text \<open>The abstract value: every byte with its source.\<close>

definition ev_trace :: "evidence \<Rightarrow> (u8 \<times> packet_id \<times> nat) list" where
  "ev_trace e = zip (ev_data e) (ev_labels e)"

lemma labels_of_simps [simp]:
  "labels_of [] = []" "labels_of (s # ss) = span_labels s @ labels_of ss"
  "labels_of (ss @ ss') = labels_of ss @ labels_of ss'"
  by (simp_all add: labels_of_def)

lemma length_span_labels [simp]: "length (span_labels s) = span_end s - span_start s"
  by (simp add: span_labels_def)

lemma set_labels_of:
  "p \<in> fst ` set (labels_of ss) \<Longrightarrow> p \<in> span_packet ` set ss"
  by (auto simp: labels_of_def span_labels_def)

lemma validate_spans_le: "validate_spans c n ss \<Longrightarrow> c \<le> n"
  by (induction c n ss rule: validate_spans.induct) auto

lemma length_labels_of: "validate_spans c n ss \<Longrightarrow> length (labels_of ss) = n - c"
proof (induction c n ss rule: validate_spans.induct)
  case (2 c n s ss)
  then show ?case using validate_spans_le [of "span_end s" n ss] by auto
qed simp

lemma length_ev_labels: "ev_validate e \<Longrightarrow> length (ev_labels e) = length (ev_data e)"
  using length_labels_of [of 0 "length (ev_data e)" "ev_spans e"]
  by (simp add: ev_validate_def ev_labels_def)

section \<open>Slicing\<close>

lemma validate_spans_start: "validate_spans c n ss \<Longrightarrow> s \<in> set ss \<Longrightarrow> c \<le> span_start s \<and> c < span_end s"
  by (induction c n ss rule: validate_spans.induct) fastforce+

text \<open>The predicate of \<^verbatim>\<open>partition_point\<close> does partition the spans of a valid layout.\<close>

lemma partition_point_partitions:
  assumes "validate_spans c n ss" and "partition_point (\<lambda>s. span_end s \<le> lo) ss \<le> i" and "i < length ss"
  shows "\<not> span_end (ss ! i) \<le> lo"
  using assms
proof (induction c n ss arbitrary: i rule: validate_spans.induct)
  case (2 c n s ss)
  show ?case
  proof (cases "span_end s \<le> lo")
    case True
    with "2.prems" obtain j where "i = Suc j" by (cases i) (auto simp: partition_point_def)
    with True "2.prems" "2.IH" [of j] show ?thesis by (simp add: partition_point_def)
  next
    case False
    with "2.prems" validate_spans_start [of "span_end s" n ss "ss ! (i - 1)"] show ?thesis
      by (cases i) auto
  qed
qed simp

lemma slice_spans_beyond: "\<forall>s \<in> set ss. hi \<le> span_start s \<Longrightarrow> slice_spans lo hi ss = Ok []"
  by (induction ss) (auto simp: Let_def)

lemma slice_spans_takeWhile:
  "validate_spans c n ss \<Longrightarrow>
   slice_spans lo hi (takeWhile (\<lambda>s. span_start s < hi) ss) = slice_spans lo hi ss"
proof (induction c n ss rule: validate_spans.induct)
  case (2 c n s ss)
  show ?case
  proof (cases "span_start s < hi")
    case True
    with 2 show ?thesis by (simp add: Let_def)
  next
    case False
    with "2.prems" validate_spans_start [of "span_end s" n ss]
    have "\<forall>s' \<in> set (s # ss). hi \<le> span_start s'" by fastforce
    then have "slice_spans lo hi (s # ss) = Ok []" by (rule slice_spans_beyond)
    with False show ?thesis by simp
  qed
qed simp

lemma slice_spans_skip:
  "slice_spans lo hi (drop (partition_point (\<lambda>s. span_end s \<le> lo) ss) ss) = slice_spans lo hi ss"
  by (induction ss) (auto simp: partition_point_def Let_def)

lemma validate_spans_drop:
  "validate_spans c n ss \<Longrightarrow> \<exists>c'. validate_spans c' n (drop k ss)"
proof (induction ss arbitrary: c k)
  case (Cons s ss)
  then show ?case by (cases k) auto
qed auto

lemma sub_list_append_split:
  "sub_list (xs @ ys) a b = sub_list xs a (min b (length xs)) @ sub_list ys (a - length xs) (b - length xs)"
  if "a \<le> b"
proof -
  have "b - a - (length xs - a) = (b - length xs) - (a - length xs)" using that by arith
  moreover have "take (b - a) (drop a xs) = take (min b (length xs) - a) (drop a xs)"
    by (cases "b \<le> length xs") (simp_all add: min_def)
  ultimately show ?thesis by (simp add: sub_list_def)
qed

lemma span_labels_sub:
  assumes "span_start s \<le> a" "a \<le> b" "b \<le> span_end s" "lo \<le> a"
  shows "span_labels (s\<lparr>span_start := a - lo, span_end := b - lo,
      span_packet_start := span_packet_start s + (a - span_start s)\<rparr>) =
    sub_list (span_labels s) (a - span_start s) (b - span_start s)"
  using assms
  by (auto simp: span_labels_def sub_list_def take_map drop_map take_upt intro!: nth_equalityI)

lemma span_eta:
  "\<lparr>span_start = x, span_end = y, span_packet = span_packet s, span_packet_start = z\<rparr> =
   s\<lparr>span_start := x, span_end := y, span_packet_start := z\<rparr>" for s :: source_span
  by (cases s) simp

lemma validate_spans_ConsI:
  "span_start r = c \<Longrightarrow> c < span_end r \<Longrightarrow> span_end r \<le> n \<Longrightarrow>
   checked_add (span_packet_start r) (span_end r - c) \<noteq> None \<Longrightarrow>
   validate_spans (span_end r) n rs \<Longrightarrow> validate_spans c n (r # rs)"
  by auto

text \<open>
  Slicing the spans of a valid layout succeeds; the result is a valid layout of the slice and
  keeps the source of every byte.  Invariant of the loop, for spans that begin at \<open>c\<close>.
\<close>

lemma slice_spans_valid:
  assumes "validate_spans c n ss" and "lo \<le> hi" and "hi \<le> n"
  shows "\<exists>rs. slice_spans lo hi ss = Ok rs
    \<and> validate_spans (min (max c lo) hi - lo) (hi - lo) rs
    \<and> labels_of rs = sub_list (labels_of ss) (lo - c) (hi - c)
    \<and> span_packet ` set rs \<subseteq> span_packet ` set ss"
  using assms
proof (induction c n ss rule: validate_spans.induct)
  case (1 c n)
  then show ?case by (auto simp: sub_list_def)
next
  case (2 c n s ss)
  let ?e = "span_end s" and ?a = "max c lo" and ?b = "min (span_end s) hi"
  have s: "span_start s = c" "c < ?e" "?e \<le> n"
    "span_packet_start s + (?e - c) < usize_limit" "validate_spans ?e n ss"
    using "2.prems"(1) by (auto simp: checked_add_def split: if_splits)
  obtain rs where rs: "slice_spans lo hi ss = Ok rs"
    "validate_spans (min (max ?e lo) hi - lo) (hi - lo) rs"
    "labels_of rs = sub_list (labels_of ss) (lo - ?e) (hi - ?e)"
    "span_packet ` set rs \<subseteq> span_packet ` set ss"
    using "2.IH" [OF s(5)] "2.prems" by blast
  have split: "sub_list (labels_of (s # ss)) (lo - c) (hi - c) =
      sub_list (span_labels s) (lo - c) (min (hi - c) (?e - c)) @ labels_of rs"
    using s(1,2) rs(3) "2.prems"(2) by (simp add: sub_list_append_split)
  show ?case
  proof (cases "?a < ?b")
    case True
    define a b where ab: "a = ?a" "b = ?b"
    let ?r = "s\<lparr>span_start := a - lo, span_end := b - lo,
      span_packet_start := span_packet_start s + (a - c)\<rparr>"
    have le: "lo \<le> a" "c \<le> a" "a < b" "b \<le> ?e" "b \<le> hi" "min ?a hi = a"
      "min (max ?e lo) hi = b" and diff: "a - c = lo - c" "b - c = min (hi - c) (?e - c)"
      using True by (auto simp: ab)
    have add: "checked_add (span_packet_start s) (a - c) = Some (span_packet_start s + (a - c))"
      "checked_add (span_packet_start s + (a - c)) (b - a) \<noteq> None"
      using s(4) le by (auto simp: checked_add_def)
    have eq: "slice_spans lo hi (s # ss) = Ok (?r # rs)"
      using le s(1) rs(1) add(1) unfolding slice_spans.simps s(1) ab [symmetric]
      by (simp add: Let_def span_eta)
    have "span_labels ?r = sub_list (span_labels s) (lo - c) (min (hi - c) (?e - c))"
      using span_labels_sub [of s a b lo] le s(1) diff by simp
    then have "labels_of (?r # rs) = sub_list (labels_of (s # ss)) (lo - c) (hi - c)"
      unfolding split by simp
    moreover have "validate_spans (min ?a hi - lo) (hi - lo) (?r # rs)"
      unfolding le(6) using le rs(2) add(2)
      by (intro validate_spans_ConsI) (simp_all add: diff_less_mono diff_diff_right)
    ultimately show ?thesis using eq rs(4) by auto
  next
    case False
    then have "min (max ?e lo) hi = min ?a hi" using s(2) "2.prems"(2)
      by (auto simp: max_def min_def split: if_splits)
    moreover have "sub_list (span_labels s) (lo - c) (min (hi - c) (?e - c)) = []"
      using False s(2) by (auto simp: sub_list_def)
    ultimately show ?thesis using False rs s(1) split by (auto simp: Let_def)
  qed
qed

lemma ev_slice_ok:
  assumes valid: "ev_validate e" and bounds: "lo \<le> hi" "hi \<le> length (ev_data e)"
  shows "\<exists>e'. ev_slice e lo hi = Ok e' \<and> ev_validate e'
    \<and> ev_data e' = sub_list (ev_data e) lo hi
    \<and> ev_labels e' = sub_list (ev_labels e) lo hi
    \<and> span_packet ` set (ev_spans e') \<subseteq> span_packet ` set (ev_spans e)"
proof -
  let ?ss = "ev_spans e" and ?pp = "partition_point (\<lambda>s. span_end s \<le> lo) (ev_spans e)"
  have v: "validate_spans 0 (length (ev_data e)) ?ss" "layout_valid e"
    using valid by (simp_all add: ev_validate_def)
  obtain c' where c': "validate_spans c' (length (ev_data e)) (drop ?pp ?ss)"
    using validate_spans_drop [OF v(1)] by blast
  obtain rs where rs: "slice_spans lo hi ?ss = Ok rs" "validate_spans 0 (hi - lo) rs"
    "labels_of rs = sub_list (labels_of ?ss) lo hi" "span_packet ` set rs \<subseteq> span_packet ` set ?ss"
    using slice_spans_valid [OF v(1) bounds] bounds by (auto simp: min_def)
  have "slice_spans lo hi (takeWhile (\<lambda>s. span_start s < hi) (drop ?pp ?ss)) = Ok rs"
    using slice_spans_takeWhile [OF c'] slice_spans_skip rs(1) by simp
  then show ?thesis
    using bounds v(2) rs by (simp add: ev_slice_def Let_def ev_validate_def ev_labels_def)
qed

section \<open>Appending\<close>

lemma validate_spans_append:
  "validate_spans c m (ss @ ss') \<longleftrightarrow>
     (\<exists>k. validate_spans c k ss \<and> k \<le> m \<and> validate_spans k m ss')"
proof (induction ss arbitrary: c)
  case Nil
  show ?case using validate_spans_le by auto
next
  case (Cons s ss)
  have fit: "span_end s \<le> k" if "validate_spans (span_end s) k ss" for k
    using that by (rule validate_spans_le)
  show ?case
    unfolding append_Cons validate_spans.simps Cons
    by (auto simp: not_less dest: fit intro: order.trans)
qed

lemma validate_spans_snoc:
  "validate_spans c m (ss @ [s]) \<longleftrightarrow>
     validate_spans c (span_start s) ss \<and> span_start s < span_end s \<and> span_end s = m
     \<and> span_packet_start s + (span_end s - span_start s) < usize_limit"
  by (auto simp: validate_spans_append checked_add_def)

lemma labels_merge:
  assumes "span_start s \<le> span_end s" "span_end s \<le> m"
    and "span_packet t = span_packet s" "span_end s = span_start t" "span_end t = m"
    and "span_packet_start s + (span_end s - span_start s) = span_packet_start t"
  shows "span_labels (s\<lparr>span_end := m\<rparr>) = span_labels s @ span_labels t"
proof -
  let ?k = "span_end s - span_start s" and ?l = "m - span_end s"
  have "[0..<m - span_start s] = [0..<?k] @ map (\<lambda>i. ?k + i) [0..<?l]"
    using assms(1,2) by (intro nth_equalityI) (auto simp: nth_append)
  then show ?thesis
    using assms by (auto simp: span_labels_def add.assoc)
qed

lemma push_span_valid:
  assumes v: "validate_spans c k ss" and t: "span_start t = k" "k < span_end t"
    "span_packet_start t + (span_end t - k) < usize_limit"
  shows "\<exists>ss'. push_span ss t = Ok ss' \<and> validate_spans c (span_end t) ss'
    \<and> labels_of ss' = labels_of ss @ span_labels t
    \<and> span_packet ` set ss' = insert (span_packet t) (span_packet ` set ss)"
proof (cases "ss \<noteq> [] \<and> span_packet (last ss) = span_packet t \<and> span_end (last ss) = span_start t
    \<and> checked_add (span_packet_start (last ss)) (span_end (last ss) - span_start (last ss))
        = Some (span_packet_start t)")
  case True
  then obtain ss0 s where ss: "ss = ss0 @ [s]" by (metis append_butlast_last_id)
  from v have s: "validate_spans c (span_start s) ss0" "span_start s < span_end s" "span_end s = k"
    unfolding ss validate_spans_snoc by simp_all
  have add: "span_packet_start s + (span_end s - span_start s) = span_packet_start t"
    using True by (auto simp: ss checked_add_def split: if_splits)
  have "push_span ss t = Ok (ss0 @ [s\<lparr>span_end := span_end t\<rparr>])"
    using True s(2) by (auto simp: push_span_def ss)
  moreover have "validate_spans c (span_end t) (ss0 @ [s\<lparr>span_end := span_end t\<rparr>])"
    using s t add by (auto simp: validate_spans_snoc)
  moreover have "span_labels (s\<lparr>span_end := span_end t\<rparr>) = span_labels s @ span_labels t"
    using True s t add by (intro labels_merge) (auto simp: ss)
  ultimately show ?thesis using True by (auto simp: ss)
next
  case False
  then have "push_span ss t = Ok (ss @ [t])"
    using v by (cases ss rule: rev_cases) (auto simp: push_span_def validate_spans_snoc)
  moreover have "validate_spans c (span_end t) (ss @ [t])"
    using v t by (auto simp: validate_spans_snoc)
  ultimately show ?thesis by auto
qed

lemma span_labels_shift [simp]:
  "span_labels (s\<lparr>span_start := b + span_start s, span_end := b + span_end s\<rparr>) = span_labels s"
  by (simp add: span_labels_def)

lemma append_spans_valid:
  assumes "validate_spans c (b + k) ss" and "validate_spans k m ts"
  shows "\<exists>ss'. append_spans b ss ts = Ok ss' \<and> validate_spans c (b + m) ss'
    \<and> labels_of ss' = labels_of ss @ labels_of ts
    \<and> span_packet ` set ss' = span_packet ` set ss \<union> span_packet ` set ts"
  using assms
proof (induction ts arbitrary: ss k)
  case Nil
  then show ?case by simp
next
  case (Cons t ts)
  let ?t = "t\<lparr>span_start := b + span_start t, span_end := b + span_end t\<rparr>"
  have t: "span_start t = k" "k < span_end t" "span_packet_start t + (span_end t - k) < usize_limit"
    "validate_spans (span_end t) m ts"
    using Cons.prems(2) by (auto simp: checked_add_def split: if_splits)
  obtain ss1 where ss1: "push_span ss ?t = Ok ss1" "validate_spans c (b + span_end t) ss1"
    "labels_of ss1 = labels_of ss @ span_labels t"
    "span_packet ` set ss1 = insert (span_packet t) (span_packet ` set ss)"
    using push_span_valid [OF Cons.prems(1), of ?t] t by auto
  from Cons.IH [OF ss1(2) t(4)] ss1 show ?case by auto
qed

lemma ev_append_ok:
  assumes "ev_validate e" "ev_validate o'"
    and fit: "length (ev_data e) + length (ev_data o') \<le> limit"
      "length (ev_data e) + length (ev_data o') < usize_limit"
  shows "\<exists>e'. ev_append e o' limit = Ok e' \<and> ev_validate e'
    \<and> ev_data e' = ev_data e @ ev_data o'
    \<and> ev_labels e' = ev_labels e @ ev_labels o'
    \<and> span_packet ` set (ev_spans e') =
        span_packet ` set (ev_spans e) \<union> span_packet ` set (ev_spans o')"
proof -
  have v: "validate_spans 0 (length (ev_data e) + 0) (ev_spans e)"
    "validate_spans 0 (length (ev_data o')) (ev_spans o')" "layout_valid e" "layout_valid o'"
    using assms(1,2) by (simp_all add: ev_validate_def)
  from append_spans_valid [OF v(1,2)] show ?thesis
    using v(3,4) fit by (auto simp: ev_append_def Let_def ev_validate_def ev_labels_def checked_add_def)
qed

lemma ev_append_limit:
  assumes "ev_validate e" "ev_validate o'"
    and "limit < length (ev_data e) + length (ev_data o')"
  shows "ev_append e o' limit = Err (error_limit ''evidence_bytes'')"
  using assms by (auto simp: ev_append_def Let_def ev_validate_def checked_add_def)

lemma ev_append_OkD:
  assumes "ev_validate e" "ev_validate o'" "ev_append e o' limit = Ok e'"
  shows "ev_validate e'" "ev_data e' = ev_data e @ ev_data o'"
    "ev_labels e' = ev_labels e @ ev_labels o'" "length (ev_data e') \<le> limit"
    "span_packet ` set (ev_spans e') =
        span_packet ` set (ev_spans e) \<union> span_packet ` set (ev_spans o')"
proof -
  have "length (ev_data e) + length (ev_data o') \<le> limit"
    "length (ev_data e) + length (ev_data o') < usize_limit"
    using assms by (auto simp: ev_append_def Let_def ev_validate_def checked_add_def split: if_splits)
  with ev_append_ok [OF assms(1,2)] assms(3) obtain
    "ev_validate e'" "ev_data e' = ev_data e @ ev_data o'" "ev_labels e' = ev_labels e @ ev_labels o'"
    "length (ev_data e) + length (ev_data o') \<le> limit"
    "span_packet ` set (ev_spans e') =
        span_packet ` set (ev_spans e) \<union> span_packet ` set (ev_spans o')"
    by fastforce
  then show "ev_validate e'" "ev_data e' = ev_data e @ ev_data o'"
    "ev_labels e' = ev_labels e @ ev_labels o'" "length (ev_data e') \<le> limit"
    "span_packet ` set (ev_spans e') =
        span_packet ` set (ev_spans e) \<union> span_packet ` set (ev_spans o')"
    by simp_all
qed

section \<open>Constructors and packets\<close>

lemma from_packet_valid:
  "ev_validate (from_packet data p k) \<longleftrightarrow> data = [] \<or> k + length data < usize_limit"
  by (auto simp: ev_validate_def from_packet_def checked_add_def)

lemma from_packet_data [simp]: "ev_data (from_packet data p k) = data"
  by (simp add: from_packet_def)

lemma from_packet_labels: "ev_labels (from_packet data p k) = map (\<lambda>i. (p, k + i)) [0..<length data]"
  by (simp add: ev_labels_def from_packet_def span_labels_def)

lemma evidence_default_simps [simp]:
  "ev_validate evidence_default" "ev_data evidence_default = []" "ev_labels evidence_default = []"
  "ev_spans evidence_default = []"
  by (simp_all add: evidence_default_def ev_validate_def ev_labels_def)

lemma set_sort_dedup [simp]: "set (sort_dedup xs) = set xs"
  by (simp add: sort_dedup_def)

lemma sort_dedup_strict: "sorted_wrt (<) (sort_dedup xs)"
proof -
  have "sorted (remdups_adj ys)" "distinct (remdups_adj ys)" if "sorted ys" for ys :: "'a list"
    using that by (induction ys rule: remdups_adj.induct) (auto simp: le_less)
  then show ?thesis by (simp add: sort_dedup_def strict_sorted_iff)
qed

lemma set_ev_packets: "set (ev_packets e) = span_packet ` set (ev_spans e)"
  by (simp add: ev_packets_def)

lemma ev_packets_labels:
  assumes "ev_validate e"
  shows "set (ev_packets e) = fst ` set (ev_labels e)"
proof -
  have "span_packet ` set ss = fst ` set (labels_of ss)" if "validate_spans c n ss" for c n ss
    using that
  proof (induction c n ss rule: validate_spans.induct)
    case (2 c n s ss)
    then have "fst ` set (span_labels s) = {span_packet s}"
      by (auto simp: span_labels_def image_image image_constant_conv)
    with 2 show ?case by (auto simp: image_Un)
  qed simp
  with assms show ?thesis unfolding set_ev_packets ev_labels_def ev_validate_def by blast
qed

section \<open>The interface\<close>

text \<open>
  What the reconstruction components rely on: a store whose slices and concatenations carry, for
  every byte, where it came from.
\<close>

locale evidence_store =
  fixes valid :: "'e \<Rightarrow> bool"
    and trace :: "'e \<Rightarrow> (u8 \<times> packet_id \<times> nat) list"
    and cut :: "'e \<Rightarrow> nat \<Rightarrow> nat \<Rightarrow> 'e result"
    and join :: "'e \<Rightarrow> 'e \<Rightarrow> nat \<Rightarrow> 'e result"
    and none :: 'e
  assumes cut_ok: "valid e \<Longrightarrow> a \<le> b \<Longrightarrow> b \<le> length (trace e) \<Longrightarrow>
      \<exists>e'. cut e a b = Ok e' \<and> valid e' \<and> trace e' = sub_list (trace e) a b"
    and join_ok: "valid e \<Longrightarrow> valid f \<Longrightarrow> length (trace e) + length (trace f) \<le> limit \<Longrightarrow>
      limit < usize_limit \<Longrightarrow>
      \<exists>e'. join e f limit = Ok e' \<and> valid e' \<and> trace e' = trace e @ trace f"
    and none_ok: "valid none" "trace none = []"
begin

text \<open>Cutting at a point and joining the halves restores the evidence.\<close>

lemma cut_join:
  assumes "valid e" "k \<le> length (trace e)" "length (trace e) < usize_limit"
  shows "\<exists>f g e'. cut e 0 k = Ok f \<and> cut e k (length (trace e)) = Ok g
    \<and> join f g (length (trace e)) = Ok e' \<and> valid e' \<and> trace e' = trace e"
proof -
  obtain f where f: "cut e 0 k = Ok f" "valid f" "trace f = sub_list (trace e) 0 k"
    using cut_ok [of e 0 k] assms by auto
  obtain g where g: "cut e k (length (trace e)) = Ok g" "valid g"
    "trace g = sub_list (trace e) k (length (trace e))"
    using cut_ok [of e k "length (trace e)"] assms by auto
  have "trace f @ trace g = trace e"
    unfolding f g using assms(2) by (simp add: sub_list_def)
  with join_ok [OF f(2) g(2), of "length (trace e)"] f(1) g(1) assms(3) show ?thesis
    by (metis length_append order_refl)
qed

text \<open>A cut of a cut is a cut.\<close>

lemma cut_cut:
  assumes "valid e" "a \<le> b" "b \<le> length (trace e)" "c \<le> d" "d \<le> b - a" "cut e a b = Ok f"
  shows "\<exists>g h. cut f c d = Ok g \<and> cut e (a + c) (a + d) = Ok h \<and> trace g = trace h"
proof -
  have f: "valid f" "trace f = sub_list (trace e) a b"
    using cut_ok [OF assms(1-3)] assms(6) by auto
  then have "length (trace f) = b - a" using assms(2,3) by simp
  then obtain g where g: "cut f c d = Ok g" "trace g = sub_list (trace f) c d"
    using cut_ok [OF f(1) assms(4)] assms(5) by auto
  obtain h where h: "cut e (a + c) (a + d) = Ok h" "trace h = sub_list (trace e) (a + c) (a + d)"
    using cut_ok [OF assms(1), of "a + c" "a + d"] assms(2-5) by fastforce
  have "trace g = trace h"
    unfolding g(2) h(2) f(2) using assms(5) by (rule sub_list_sub_list)
  with g h show ?thesis by blast
qed

end

lemma ev_trace_length: "ev_validate e \<Longrightarrow> length (ev_trace e) = length (ev_data e)"
  by (simp add: ev_trace_def length_ev_labels)

lemma zip_sub_list: "zip (sub_list xs a b) (sub_list ys a b) = sub_list (zip xs ys) a b"
  by (simp add: sub_list_def take_zip drop_zip)

interpretation evidence: evidence_store ev_validate ev_trace ev_slice ev_append evidence_default
proof
  fix e a b
  assume "ev_validate e" "a \<le> b" "b \<le> length (ev_trace e)"
  with ev_slice_ok [of e a b] show "\<exists>e'. ev_slice e a b = Ok e' \<and> ev_validate e'
      \<and> ev_trace e' = sub_list (ev_trace e) a b"
    by (auto simp: ev_trace_length) (auto simp: ev_trace_def zip_sub_list)
next
  fix e f limit
  assume "ev_validate e" "ev_validate f" "length (ev_trace e) + length (ev_trace f) \<le> limit"
    "limit < usize_limit"
  with ev_append_ok [of e f limit] show "\<exists>e'. ev_append e f limit = Ok e' \<and> ev_validate e'
      \<and> ev_trace e' = ev_trace e @ ev_trace f"
    by (auto simp: ev_trace_length) (auto simp: ev_trace_def length_ev_labels)
qed (simp_all add: ev_trace_def)

section \<open>Properties\<close>

text \<open>
  C37: slicing refines slicing of the traced bytes.  On valid evidence and a range inside it \<^verbatim>\<open>slice\<close>
  succeeds, the result is valid, and every byte keeps the packet and the offset it came from.
\<close>

theorem slice_keeps_every_source:
  assumes "ev_validate e" "lo \<le> hi" "hi \<le> length (ev_data e)"
  shows "\<exists>e'. ev_slice e lo hi = Ok e' \<and> ev_validate e' \<and> ev_trace e' = sub_list (ev_trace e) lo hi"
  using evidence.cut_ok [OF assms(1,2)] assms by (simp add: ev_trace_length)

theorem slice_keeps_every_source_witness:
  "\<exists>e'. ev_slice (from_packet [1, 2, 3, 4] (PacketId [9] 1 24) 14) 1 3 = Ok e' \<and> ev_validate e'
     \<and> ev_trace e' = [(2, PacketId [9] 1 24, 15), (3, PacketId [9] 1 24, 16)]"
proof -
  let ?e = "from_packet [1, 2, 3, 4] (PacketId [9] 1 24) 14"
  have "ev_validate ?e" by (simp add: from_packet_valid usize_limit_def)
  then show ?thesis
    using slice_keeps_every_source [of ?e 1 3]
    by (simp add: ev_trace_def from_packet_labels sub_list_def upt_rec)
qed

text \<open>
  appending refines concatenation of the traced bytes.  \<^verbatim>\<open>append\<close> on valid evidence succeeds exactly
  when the result stays within the limit (and within the address space); then the result is valid
  and its trace is the concatenation; otherwise it fails with the evidence budget error.
\<close>

theorem append_keeps_every_source:
  assumes "ev_validate e" "ev_validate f" "limit < usize_limit"
  shows "if length (ev_data e) + length (ev_data f) \<le> limit
    then \<exists>e'. ev_append e f limit = Ok e' \<and> ev_validate e' \<and> ev_trace e' = ev_trace e @ ev_trace f
    else ev_append e f limit = Err (error_limit ''evidence_bytes'')"
  using evidence.join_ok [OF assms(1,2) _ assms(3)] ev_append_limit [OF assms(1,2), of limit] assms
  by (simp add: ev_trace_length)

theorem append_keeps_every_source_witness:
  "(\<exists>e'. ev_append (from_packet [1] (PacketId [9] 1 24) 14) (from_packet [2] (PacketId [9] 2 90) 14) 2 = Ok e'
      \<and> ev_trace e' = [(1, PacketId [9] 1 24, 14), (2, PacketId [9] 2 90, 14)])
   \<and> ev_append (from_packet [1] (PacketId [9] 1 24) 14) (from_packet [2] (PacketId [9] 2 90) 14) 1 =
      Err (error_limit ''evidence_bytes'')"
proof -
  let ?e = "from_packet [1] (PacketId [9] 1 24) 14" and ?f = "from_packet [2] (PacketId [9] 2 90) 14"
  have "ev_validate ?e" "ev_validate ?f" by (simp_all add: from_packet_valid usize_limit_def)
  then show ?thesis
    using append_keeps_every_source [of ?e ?f 2] append_keeps_every_source [of ?e ?f 1]
    by (auto simp: ev_trace_def from_packet_labels usize_limit_def)
qed

text \<open>
  \<^verbatim>\<open>packets\<close> lists exactly the packets some byte of the evidence came from, each once and in
  ascending order.
\<close>

theorem packets_are_the_contributors:
  assumes "ev_validate e"
  shows "set (ev_packets e) = (\<lambda>(b, p, k). p) ` set (ev_trace e) \<and> sorted_wrt (<) (ev_packets e)"
proof -
  have "snd ` set (ev_trace e) = set (ev_labels e)"
    using length_ev_labels [OF assms] by (metis ev_trace_def list.set_map map_snd_zip)
  moreover have "(\<lambda>(b, p, k). p) ` set (ev_trace e) = fst ` snd ` set (ev_trace e)"
    by (simp add: image_image case_prod_beta')
  ultimately show ?thesis
    using ev_packets_labels [OF assms] sort_dedup_strict by (simp add: ev_packets_def)
qed

theorem packets_are_the_contributors_witness:
  "ev_packets (from_packet [1, 2] (PacketId [9] 1 24) 14) = [PacketId [9] 1 24]"
proof -
  let ?e = "from_packet [1, 2] (PacketId [9] 1 24) 14"
  have "ev_validate ?e" by (simp add: from_packet_valid usize_limit_def)
  from packets_are_the_contributors [OF this] have "set (ev_packets ?e) = {PacketId [9] 1 24}"
    "sorted_wrt (<) (ev_packets ?e)"
    by (auto simp: ev_trace_def from_packet_labels)
  then show ?thesis by (intro strict_sorted_equal) simp_all
qed

end
