(* ===== verification/Wire.thy ===== *)
theory Wire
  imports Byte_Order Checksum Provenance
begin

text \<open>
  \<^verbatim>\<open>src/src/wire.rs\<close>: from the captured bytes of one packet to a network datagram, and from a datagram
  to a TCP segment or UDP datagram.  Every index and slice of the code is one that panics out of
  range; loops over VLAN tags, IPv6 extension headers and options are recursive functions whose
  measures are the code's own depth limits.
\<close>

section \<open>Data\<close>

datatype ip_addr = V4 (octets: bytes) | V6 (octets: bytes)

datatype scope = Scope (sc_section: u32) (sc_interface: u32) (sc_link_interface: "u32 option")
  (sc_vlans: "u16 list")

datatype endpoint = Endpoint (ep_address: ip_addr) (ep_port: u16)

text \<open>The derived orders, which the ordered maps keyed by these types use.\<close>

instantiation ip_addr :: linorder
begin

definition ip_addr_key :: "ip_addr \<Rightarrow> bool \<times> bytes" where
  "ip_addr_key a = (case a of V4 bs \<Rightarrow> (False, bs) | V6 bs \<Rightarrow> (True, bs))"

definition less_eq_ip_addr :: "ip_addr \<Rightarrow> ip_addr \<Rightarrow> bool" where
  "a \<le> b \<longleftrightarrow> ip_addr_key a \<le> ip_addr_key b"

definition less_ip_addr :: "ip_addr \<Rightarrow> ip_addr \<Rightarrow> bool" where
  "a < b \<longleftrightarrow> ip_addr_key a < ip_addr_key b"

lemma ip_addr_key_inj: "ip_addr_key a = ip_addr_key b \<longleftrightarrow> a = b"
  by (cases a; cases b) (simp_all add: ip_addr_key_def)

instance
  by standard
    (auto simp: less_eq_ip_addr_def less_ip_addr_def ip_addr_key_inj less_le_not_le
      simp flip: ip_addr_key_inj)

end

instantiation scope :: linorder
begin

definition scope_key :: "scope \<Rightarrow> u32 \<times> u32 \<times> u32 option \<times> u16 list" where
  "scope_key s = (sc_section s, sc_interface s, sc_link_interface s, sc_vlans s)"

definition less_eq_scope :: "scope \<Rightarrow> scope \<Rightarrow> bool" where
  "a \<le> b \<longleftrightarrow> scope_key a \<le> scope_key b"

definition less_scope :: "scope \<Rightarrow> scope \<Rightarrow> bool" where
  "a < b \<longleftrightarrow> scope_key a < scope_key b"

lemma scope_key_inj: "scope_key a = scope_key b \<longleftrightarrow> a = b"
  by (cases a; cases b) (simp add: scope_key_def)

instance
  by standard
    (auto simp: less_eq_scope_def less_scope_def scope_key_inj less_le_not_le
      simp flip: scope_key_inj)

end

instantiation endpoint :: linorder
begin

definition endpoint_key :: "endpoint \<Rightarrow> ip_addr \<times> u16" where
  "endpoint_key e = (ep_address e, ep_port e)"

definition less_eq_endpoint :: "endpoint \<Rightarrow> endpoint \<Rightarrow> bool" where
  "a \<le> b \<longleftrightarrow> endpoint_key a \<le> endpoint_key b"

definition less_endpoint :: "endpoint \<Rightarrow> endpoint \<Rightarrow> bool" where
  "a < b \<longleftrightarrow> endpoint_key a < endpoint_key b"

lemma endpoint_key_inj: "endpoint_key a = endpoint_key b \<longleftrightarrow> a = b"
  by (cases a; cases b) (simp add: endpoint_key_def)

instance
  by standard
    (auto simp: less_eq_endpoint_def less_endpoint_def endpoint_key_inj less_le_not_le
      simp flip: endpoint_key_inj)

end

datatype checksum_status = Valid | Invalid | NotPresent | NotChecked
datatype checksum_policy = Observe | RequireValid
datatype checksum_context = BaseAddresses | Unsupported

record fragment_info =
  fi_id :: u32
  fi_offset :: nat
  fi_more :: bool

record datagram =
  dg_scope :: scope
  dg_source :: ip_addr
  dg_destination :: ip_addr
  dg_protocol :: u8
  dg_ipv6 :: bool
  network_header_len :: nat
  dg_fragment :: "fragment_info option"
  dg_payload :: evidence
  ip_checksum :: checksum_status
  checksum_ctx :: checksum_context

record tcp_segment =
  seg_source :: endpoint
  seg_destination :: endpoint
  seg_sequence :: u32
  seg_acknowledgement :: u32
  seg_flags :: u8
  seg_checksum :: checksum_status
  seg_payload :: evidence

definition seg_syn :: "tcp_segment \<Rightarrow> bool" where
  "seg_syn s \<longleftrightarrow> seg_flags s AND 0x02 \<noteq> 0"

definition seg_ack :: "tcp_segment \<Rightarrow> bool" where
  "seg_ack s \<longleftrightarrow> seg_flags s AND 0x10 \<noteq> 0"

definition seg_fin :: "tcp_segment \<Rightarrow> bool" where
  "seg_fin s \<longleftrightarrow> seg_flags s AND 0x01 \<noteq> 0"

definition seg_rst :: "tcp_segment \<Rightarrow> bool" where
  "seg_rst s \<longleftrightarrow> seg_flags s AND 0x04 \<noteq> 0"

definition data_sequence :: "tcp_segment \<Rightarrow> u32" where
  "data_sequence s = seg_sequence s + (if seg_syn s then 1 else 0)"

record udp_datagram =
  udp_source :: endpoint
  udp_destination :: endpoint
  udp_checksum :: checksum_status
  udp_payload :: evidence

datatype transport = Tcp tcp_segment | Udp udp_datagram

definition bad :: "string \<Rightarrow> string \<Rightarrow> error" where
  "bad fld dtl = error_new MalformedPacket 0 fld dtl"

text \<open>\<^verbatim>\<open>{:04x}\<close> of a 16-bit value.\<close>

definition hex_digit :: "nat \<Rightarrow> char" where
  "hex_digit n = (if n < 10 then char_of (48 + n) else char_of (87 + n))"

definition show_hex4 :: "u16 \<Rightarrow> string" where
  "show_hex4 w = map (\<lambda>k. hex_digit (unat w div 16 ^ k mod 16)) [3, 2, 1, 0]"

section \<open>Options that change checksum operands\<close>

function ipv4_options_from :: "bytes \<Rightarrow> nat \<Rightarrow> checksum_context \<Rightarrow> checksum_context result" where
  "ipv4_options_from options p ctx =
     (if p < length options then
        and_then (index_at options p) (\<lambda>ty.
          if ty = 0 then Ok ctx
          else if ty = 1 then ipv4_options_from options (p + 1) ctx
          else
            and_then (require_len options (p + 2) 0 ''ipv4_option_length'') (\<lambda>_.
            and_then (index_at options (p + 1)) (\<lambda>n8.
              if unat n8 < 2
              then Err (bad ''ipv4_option_length'' ''option shorter than type and length'')
              else
                and_then (require_len options (p + unat n8) 0 ''ipv4_option_length'') (\<lambda>_.
                  ipv4_options_from options (p + unat n8)
                    (if ty = 131 \<or> ty = 137 then Unsupported else ctx)))))
      else Ok ctx)"
  by pat_completeness auto
termination
  by (relation "measure (\<lambda>(options, p, ctx). length options - p)") (auto simp: outcome_simps)

declare ipv4_options_from.simps [simp del]

definition ipv4_checksum_context :: "bytes \<Rightarrow> checksum_context result" where
  "ipv4_checksum_context options = ipv4_options_from options 0 BaseAddresses"

function ipv6_options_from :: "bytes \<Rightarrow> nat \<Rightarrow> checksum_context \<Rightarrow> checksum_context result" where
  "ipv6_options_from header p ctx =
     (if p < length header then
        and_then (index_at header p) (\<lambda>ty.
          if ty = 0 then ipv6_options_from header (p + 1) ctx
          else
            and_then (require_len header (p + 2) 0 ''ipv6_option_length'') (\<lambda>_.
            and_then (index_at header (p + 1)) (\<lambda>n8.
            and_then (require_len header (p + (unat n8 + 2)) 0 ''ipv6_option_length'') (\<lambda>_.
              ipv6_options_from header (p + (unat n8 + 2))
                (if ty = 0xc9 then Unsupported else ctx)))))
      else Ok ctx)"
  by pat_completeness auto
termination
  by (relation "measure (\<lambda>(header, p, ctx). length header - p)") (auto simp: outcome_simps)

declare ipv6_options_from.simps [simp del]

definition ipv6_checksum_context :: "u8 \<Rightarrow> bytes \<Rightarrow> checksum_context result" where
  "ipv6_checksum_context protocol header =
     (if protocol = 43 then Ok Unsupported
      else if protocol \<noteq> 0 \<and> protocol \<noteq> 60 then Ok BaseAddresses
      else ipv6_options_from header 2 BaseAddresses)"

section \<open>Network layer\<close>

definition internet_checksum_of :: "bytes \<Rightarrow> u16" where
  "internet_checksum_of data = checksum_finish (checksum_update checksum_new data)"

text \<open>Fragment offset and the more-fragments flag, with the checks on the range they describe.\<close>

definition ipv4_fragment :: "u16 \<Rightarrow> nat \<Rightarrow> nat \<Rightarrow> (nat \<times> bool) result" where
  "ipv4_fragment flags header len =
     (let off = unat (flags AND 0x1fff) * 8; extra = (flags AND 0x2000 \<noteq> 0)
      in if flags AND 0x8000 \<noteq> 0 then Err (bad ''ipv4_flags'' ''reserved flag set'')
         else if extra \<and> (len - header) mod 8 \<noteq> 0
         then Err (bad ''ipv4_fragment'' ''non-final fragment length not a multiple of 8'')
         else if (extra \<or> off \<noteq> 0) \<and> len = header
         then Err (bad ''ipv4_fragment'' ''empty fragment'')
         else if (case checked_add off (len - header) of None \<Rightarrow> True | Some n \<Rightarrow> n > 65535)
         then Err (bad ''ipv4_fragment'' ''fragment range too large'')
         else Ok (off, extra))"

definition ipv4 :: "bytes \<Rightarrow> nat \<Rightarrow> packet_id \<Rightarrow> scope \<Rightarrow> datagram result" where
  "ipv4 packet start pid sc =
     and_then (require_len packet (start + 20) (pid_record_offset pid) ''ipv4'') (\<lambda>_.
     and_then (range_from packet start) (\<lambda>b.
     and_then (index_at b 0) (\<lambda>b0.
     if drop_bit 4 b0 \<noteq> 4 then Err (bad ''ipv4'' ''version mismatch'')
     else let header = unat (b0 AND 15) * 4
     in if header < 20 then Err (bad ''ipv4_ihl'' ''header shorter than 20 bytes'')
     else
       and_then (require_len b header (pid_record_offset pid + start) ''ipv4_options'') (\<lambda>_.
       and_then (read_u16 Big b 2) (\<lambda>total16.
       let len = unat total16
       in if len < header then Err (bad ''ipv4_total_length'' ''length smaller than header'')
       else
         and_then (require_len b len (pid_record_offset pid + start) ''ipv4_payload'') (\<lambda>_.
         and_then (read_u16 Big b 6) (\<lambda>flags.
         and_then (ipv4_fragment flags header len) (\<lambda>(off, extra).
         and_then (range_at b 12 16) (\<lambda>src.
         and_then (range_at b 16 20) (\<lambda>dst.
         and_then (and_then (range_at b 20 header) ipv4_checksum_context) (\<lambda>ctx.
         and_then (index_at b 9) (\<lambda>protocol.
         and_then (read_u16 Big b 4) (\<lambda>frag_id.
         and_then (range_at b header len) (\<lambda>payload.
         and_then (range_at b 0 header) (\<lambda>head.
           Ok \<lparr>dg_scope = sc, dg_source = V4 src, dg_destination = V4 dst, dg_protocol = protocol,
               dg_ipv6 = False, network_header_len = header,
               dg_fragment = (if extra \<or> off \<noteq> 0
                 then Some \<lparr>fi_id = ucast frag_id, fi_offset = off, fi_more = extra\<rparr> else None),
               dg_payload = from_packet payload pid (start + header),
               ip_checksum = (if internet_checksum_of head = 0 then Valid else Invalid),
               checksum_ctx = ctx\<rparr>)))))))))))))))"

definition ipv6_jump :: "u8 \<Rightarrow> u8 \<Rightarrow> nat" where
  "ipv6_jump protocol n = (if protocol = 51 then (unat n + 2) * 4 else (unat n + 1) * 8)"

text \<open>
  The extension-header loop of \<^verbatim>\<open>ipv6\<close>: \<open>b\<close> is the packet from the IPv6 header on, \<open>len\<close> its declared
  end, \<open>eoff\<close> the offset errors are reported at.  A fragment header yields the next protocol and, unless
  the fragment is atomic, the fragment; any other extension yields the next protocol, the position
  behind it and the checksum context.
\<close>

definition ipv6_fragment_header ::
    "bytes \<Rightarrow> nat \<Rightarrow> nat \<Rightarrow> nat \<Rightarrow> (u8 \<times> fragment_info option) result" where
  "ipv6_fragment_header b len eoff p =
     and_then (range_at b 0 len) (\<lambda>whole.
     and_then (require_len whole (p + 8) eoff ''ipv6_fragment'') (\<lambda>_.
     and_then (read_u16 Big b (p + 2)) (\<lambda>bits.
     and_then (index_at b (p + 1)) (\<lambda>reserved.
       if bits AND 0x0006 \<noteq> 0 \<or> reserved \<noteq> 0
       then Err (bad ''ipv6_fragment'' ''reserved bits set'')
       else
         let off = unat (bits AND 0xfff8); extra = (bits AND 1 \<noteq> 0)
         in
           and_then (read_u32 Big b (p + 4)) (\<lambda>frag_id.
           and_then (index_at b p) (\<lambda>nxt.
           and_then (usub len (p + 8)) (\<lambda>left.
             if extra \<and> left mod 8 \<noteq> 0
             then Err (bad ''ipv6_fragment'' ''non-final fragment length not a multiple of 8'')
             else if extra \<or> off \<noteq> 0 then
               if len = p + 8 then Err (bad ''ipv6_fragment'' ''empty fragment'')
               else Ok (nxt, Some \<lparr>fi_id = frag_id, fi_offset = off, fi_more = extra\<rparr>)
             else Ok (nxt, None))))))))"

definition ipv6_extension_header ::
    "bytes \<Rightarrow> nat \<Rightarrow> nat \<Rightarrow> u8 \<Rightarrow> nat \<Rightarrow> checksum_context \<Rightarrow> (u8 \<times> nat \<times> checksum_context) result" where
  "ipv6_extension_header b len eoff protocol p ctx =
     and_then (index_at b (p + 1)) (\<lambda>n.
     let ext = ipv6_jump protocol n
     in
       and_then (range_at b 0 len) (\<lambda>whole.
       and_then (require_len whole (p + ext) eoff ''ipv6_extension_length'') (\<lambda>_.
       and_then (range_at b p (p + ext)) (\<lambda>header.
       and_then (ipv6_checksum_context protocol header) (\<lambda>c.
       and_then (index_at b p) (\<lambda>nxt.
         Ok (nxt, p + ext, if c = Unsupported then Unsupported else ctx)))))))"

function ipv6_extensions ::
    "bytes \<Rightarrow> nat \<Rightarrow> nat \<Rightarrow> u8 \<Rightarrow> nat \<Rightarrow> nat \<Rightarrow> checksum_context
      \<Rightarrow> (u8 \<times> nat \<times> fragment_info option \<times> checksum_context) result" where
  "ipv6_extensions b len eoff protocol p depth ctx =
     (if List.member [0, 43, 44, 51, 60] protocol then
        if depth + 1 > 16 then Err (error_limit ''ipv6_extension_depth'')
        else
          and_then (range_at b 0 len) (\<lambda>whole.
          and_then (require_len whole (p + 2) eoff ''ipv6_extension'') (\<lambda>_.
          if protocol = 44 then
            and_then (ipv6_fragment_header b len eoff p) (\<lambda>(nxt, frag).
              case frag of
                Some f \<Rightarrow> Ok (nxt, p + 8, Some f, ctx)
              | None \<Rightarrow> ipv6_extensions b len eoff nxt (p + 8) (depth + 1) ctx)
          else
            and_then (ipv6_extension_header b len eoff protocol p ctx) (\<lambda>(nxt, q, ctx').
              ipv6_extensions b len eoff nxt q (depth + 1) ctx')))
      else Ok (protocol, p, None, ctx))"
  by pat_completeness auto
termination
  by (relation "measure (\<lambda>(b, len, eoff, protocol, p, depth, ctx). 16 - depth)") auto

declare ipv6_extensions.simps [simp del]

definition ipv6 :: "bytes \<Rightarrow> nat \<Rightarrow> packet_id \<Rightarrow> scope \<Rightarrow> datagram result" where
  "ipv6 packet start pid sc =
     and_then (require_len packet (start + 40) (pid_record_offset pid) ''ipv6'') (\<lambda>_.
     and_then (range_from packet start) (\<lambda>b.
     and_then (index_at b 0) (\<lambda>b0.
     if drop_bit 4 b0 \<noteq> 6 then Err (bad ''ipv6'' ''version mismatch'')
     else
       and_then (read_u16 Big b 4) (\<lambda>n16.
       and_then (index_at b 6) (\<lambda>first.
       if unat n16 = 0 \<and> first = 0 \<and> length b > 40
       then Err (error_new UnsupportedNetwork (pid_record_offset pid) ''ipv6_jumbo''
         ''jumbogram semantics are not implemented'')
       else let len = 40 + unat n16
       in
         and_then (require_len b len (pid_record_offset pid + start) ''ipv6_payload'') (\<lambda>_.
         and_then (range_at b 8 24) (\<lambda>src.
         and_then (range_at b 24 40) (\<lambda>dst.
         and_then (ipv6_extensions b len (pid_record_offset pid + start) first 40 0 BaseAddresses)
           (\<lambda>(nxt, p, fragment, ctx).
         and_then (range_at b p len) (\<lambda>payload.
           Ok \<lparr>dg_scope = sc, dg_source = V6 src, dg_destination = V6 dst, dg_protocol = nxt,
               dg_ipv6 = True, network_header_len = p, dg_fragment = fragment,
               dg_payload = from_packet payload pid (start + p), ip_checksum = NotPresent,
               checksum_ctx = ctx\<rparr>))))))))))"

section \<open>Link layer\<close>

definition link_start :: "u32 \<Rightarrow> bytes \<Rightarrow> packet_id \<Rightarrow> scope \<Rightarrow> (nat \<times> u16 \<times> scope) result" where
  "link_start link_type packet pid sc =
     (if link_type = 1 then
        and_then (require_len packet 14 (pid_record_offset pid) ''ethernet'') (\<lambda>_.
        and_then (read_u16 Big packet 12) (\<lambda>ty. Ok (14, ty, sc)))
      else if link_type = 113 then
        and_then (require_len packet 16 (pid_record_offset pid) ''linux_sll'') (\<lambda>_.
        and_then (read_u16 Big packet 14) (\<lambda>ty. Ok (16, ty, sc)))
      else if link_type = 276 then
        and_then (require_len packet 20 (pid_record_offset pid) ''linux_sll2'') (\<lambda>_.
        and_then (read_u32 Big packet 4) (\<lambda>i.
        and_then (read_u16 Big packet 0) (\<lambda>ty.
          Ok (20, ty, Scope (sc_section sc) (sc_interface sc) (Some i) (sc_vlans sc)))))
      else if link_type = 101 then
        and_then (require_len packet 1 (pid_record_offset pid) ''raw_ip'') (\<lambda>_.
        and_then (index_at packet 0) (\<lambda>b0.
          if drop_bit 4 b0 = 4 then Ok (0, 0x0800, sc)
          else if drop_bit 4 b0 = 6 then Ok (0, 0x86dd, sc)
          else Err (bad ''raw_ip'' ''unknown version'')))
      else if link_type = 228 then Ok (0, 0x0800, sc)
      else if link_type = 229 then Ok (0, 0x86dd, sc)
      else if link_type = 0 \<or> link_type = 108 then
        and_then (require_len packet 4 (pid_record_offset pid) ''loopback'') (\<lambda>_.
        and_then (read_u32 Big packet 0) (\<lambda>network.
        and_then (read_u32 Little packet 0) (\<lambda>host.
        let family = (if link_type = 108 \<or> List.member [2, 10, 24, 28, 30] network then network
                      else host)
        in if family = 2 then Ok (4, 0x0800, sc)
           else if List.member [10, 24, 28, 30] family then Ok (4, 0x86dd, sc)
           else Err (bad ''loopback'' ''unsupported address family''))))
      else Err (error_new UnsupportedLink (pid_record_offset pid) ''link_type''
        (''LINKTYPE '' @ show_nat (unat link_type) @ '' has no decoder'')))"

function vlan_tags :: "bytes \<Rightarrow> packet_id \<Rightarrow> nat \<Rightarrow> u16 \<Rightarrow> scope \<Rightarrow> (nat \<times> u16 \<times> scope) result" where
  "vlan_tags packet pid start ether_type sc =
     (if ether_type = 0x8100 \<or> ether_type = 0x88a8 \<or> ether_type = 0x9100 then
        if length (sc_vlans sc) \<ge> 8 then Err (error_limit ''vlan_depth'')
        else
          and_then (require_len packet (start + 4) (pid_record_offset pid) ''vlan'') (\<lambda>_.
          and_then (read_u16 Big packet start) (\<lambda>tag.
          and_then (read_u16 Big packet (start + 2)) (\<lambda>ty.
            vlan_tags packet pid (start + 4) ty
              (Scope (sc_section sc) (sc_interface sc) (sc_link_interface sc)
                (sc_vlans sc @ [tag AND 0x0fff])))))
      else Ok (start, ether_type, sc))"
  by pat_completeness auto
termination
  by (relation "measure (\<lambda>(packet, pid, start, ether_type, sc). 8 - length (sc_vlans sc))") auto

declare vlan_tags.simps [simp del]

definition decode_packet :: "u32 \<Rightarrow> bytes \<Rightarrow> packet_id \<Rightarrow> scope \<Rightarrow> datagram result" where
  "decode_packet link_type packet pid sc =
     and_then (link_start link_type packet pid sc) (\<lambda>(start, ty, sc).
     and_then (vlan_tags packet pid start ty sc) (\<lambda>(start, ty, sc).
       if ty = 0x0800 then ipv4 packet start pid sc
       else if ty = 0x86dd then ipv6 packet start pid sc
       else Err (error_new UnsupportedNetwork (pid_record_offset pid + start) ''ether_type''
         (''0x'' @ show_hex4 ty))))"

section \<open>Transport layer\<close>

definition pseudo_header :: "ip_addr \<Rightarrow> ip_addr \<Rightarrow> u8 \<Rightarrow> nat \<Rightarrow> bytes list result" where
  "pseudo_header src dst protocol n =
     (case (src, dst) of
        (V4 a, V4 b) \<Rightarrow>
          if n < 2 ^ 16 then Ok [a, b, [0, protocol], be16_bytes (of_nat n)]
          else Err (bad ''transport_length'' ''IPv4 transport exceeds 65535'')
      | (V6 a, V6 b) \<Rightarrow>
          if n < 2 ^ 32 then Ok [a, b, be32_bytes (of_nat n), [0, 0, 0, protocol]]
          else Err (bad ''transport_length'' ''IPv6 transport too large'')
      | _ \<Rightarrow> Err (bad ''address_family'' ''mixed source/destination address families''))"

definition transport_checksum :: "ip_addr \<Rightarrow> ip_addr \<Rightarrow> u8 \<Rightarrow> bytes \<Rightarrow> checksum_status result" where
  "transport_checksum src dst protocol data =
     and_then (pseudo_header src dst protocol (length data)) (\<lambda>parts.
       Ok (if checksum_finish (checksum_update (foldl checksum_update checksum_new parts) data) = 0
           then Valid else Invalid))"

definition checked_transport_checksum ::
    "datagram \<Rightarrow> checksum_context \<Rightarrow> u8 \<Rightarrow> bytes \<Rightarrow> checksum_status result" where
  "checked_transport_checksum dg ctx protocol data =
     (case ctx of
        BaseAddresses \<Rightarrow> transport_checksum (dg_source dg) (dg_destination dg) protocol data
      | Unsupported \<Rightarrow> Ok NotChecked)"

definition require_supported_checksum :: "checksum_status \<Rightarrow> checksum_policy \<Rightarrow> unit result" where
  "require_supported_checksum c policy =
     (if policy = RequireValid \<and> c = NotChecked
      then Err (error_new UnsupportedNetwork 0 ''transport_checksum_operands''
        ''network options require unsupported pseudo-header operands'')
      else Ok ())"

definition transport_extension_header ::
    "bytes \<Rightarrow> u8 \<Rightarrow> nat \<Rightarrow> checksum_context \<Rightarrow> (u8 \<times> nat \<times> checksum_context) result" where
  "transport_extension_header all protocol prefix ctx =
     and_then (require_len all (prefix + 2) 0 ''ipv6_post_fragment_extension'') (\<lambda>_.
     and_then (index_at all (prefix + 1)) (\<lambda>n8.
     let n = ipv6_jump protocol n8
     in
       and_then (require_len all (prefix + n) 0 ''ipv6_post_fragment_extension'') (\<lambda>_.
       and_then (range_at all prefix (prefix + n)) (\<lambda>header.
       and_then (ipv6_checksum_context protocol header) (\<lambda>c.
       and_then (index_at all prefix) (\<lambda>nxt.
         Ok (nxt, prefix + n, if c = Unsupported then Unsupported else ctx)))))))"

function transport_extensions ::
    "bool \<Rightarrow> bytes \<Rightarrow> u8 \<Rightarrow> nat \<Rightarrow> nat \<Rightarrow> checksum_context \<Rightarrow> (u8 \<times> nat \<times> checksum_context) result" where
  "transport_extensions v6 all protocol prefix depth ctx =
     (if v6 \<and> List.member [0, 43, 51, 60] protocol then
        if depth + 1 > 16 then Err (error_limit ''ipv6_extension_depth'')
        else
          and_then (transport_extension_header all protocol prefix ctx) (\<lambda>(nxt, q, ctx').
            transport_extensions v6 all nxt q (depth + 1) ctx')
      else Ok (protocol, prefix, ctx))"
  by pat_completeness auto
termination
  by (relation "measure (\<lambda>(v6, all, protocol, prefix, depth, ctx). 16 - depth)") auto

declare transport_extensions.simps [simp del]

definition decode_tcp ::
    "datagram \<Rightarrow> checksum_policy \<Rightarrow> bytes \<Rightarrow> nat \<Rightarrow> checksum_context \<Rightarrow> transport result" where
  "decode_tcp dg policy data prefix ctx =
     and_then (require_len data 20 0 ''tcp'') (\<lambda>_.
     and_then (index_at data 12) (\<lambda>b12.
     let header = unat (drop_bit 4 b12) * 4
     in if header < 20
        then Err (bad ''tcp_offset'' ''data offset smaller than fixed header'')
        else
          and_then (require_len data header 0 ''tcp_options'') (\<lambda>_.
          and_then (checked_transport_checksum dg ctx 6 data) (\<lambda>cs.
          and_then (require_supported_checksum cs policy) (\<lambda>_.
          if policy = RequireValid \<and> cs \<noteq> Valid
          then Err (error_new ChecksumError 0 ''tcp''
            ''invalid checksum; capture offload may be relevant'')
          else
            and_then (read_u16 Big data 0) (\<lambda>sport.
            and_then (read_u16 Big data 2) (\<lambda>dport.
            and_then (read_u32 Big data 4) (\<lambda>sequence.
            and_then (read_u32 Big data 8) (\<lambda>acknowledgement.
            and_then (index_at data 13) (\<lambda>flags.
            and_then (ev_slice (dg_payload dg) (prefix + header) (ev_len (dg_payload dg))) (\<lambda>payload.
              Ok (Tcp \<lparr>seg_source = Endpoint (dg_source dg) sport,
                       seg_destination = Endpoint (dg_destination dg) dport,
                       seg_sequence = sequence, seg_acknowledgement = acknowledgement,
                       seg_flags = flags, seg_checksum = cs, seg_payload = payload\<rparr>))))))))))))"

definition decode_udp ::
    "datagram \<Rightarrow> checksum_policy \<Rightarrow> bytes \<Rightarrow> nat \<Rightarrow> checksum_context \<Rightarrow> transport result" where
  "decode_udp dg policy data prefix ctx =
     and_then (require_len data 8 0 ''udp'') (\<lambda>_.
     and_then (read_u16 Big data 4) (\<lambda>len16.
     let len = unat len16
     in if len < 8
        then Err (bad ''udp_length'' ''UDP length smaller than header or unsupported jumbogram'')
        else
          and_then (require_len data len 0 ''udp_payload'') (\<lambda>_.
          and_then (read_u16 Big data 6) (\<lambda>field.
          and_then (if field = 0 then Ok (if dg_ipv6 dg then Invalid else NotPresent)
                    else and_then (range_at data 0 len) (checked_transport_checksum dg ctx 17)) (\<lambda>cs.
          and_then (require_supported_checksum cs policy) (\<lambda>_.
          if policy = RequireValid \<and> cs = Invalid
          then Err (error_new ChecksumError 0 ''udp'' ''invalid UDP checksum'')
          else
            and_then (read_u16 Big data 0) (\<lambda>sport.
            and_then (read_u16 Big data 2) (\<lambda>dport.
            and_then (ev_slice (dg_payload dg) (prefix + 8) (prefix + len)) (\<lambda>payload.
              Ok (Udp \<lparr>udp_source = Endpoint (dg_source dg) sport,
                       udp_destination = Endpoint (dg_destination dg) dport,
                       udp_checksum = cs, udp_payload = payload\<rparr>))))))))))"

definition decode_transport :: "datagram \<Rightarrow> checksum_policy \<Rightarrow> transport result" where
  "decode_transport dg policy =
     (if dg_fragment dg \<noteq> None
      then Err (bad ''fragment'' ''reassemble IP fragments before parsing transport'')
      else if policy = RequireValid \<and> ip_checksum dg = Invalid
      then Err (error_new ChecksumError 0 ''ipv4'' ''invalid IPv4 checksum'')
      else
        let all = ev_data (dg_payload dg)
        in
          and_then (transport_extensions (dg_ipv6 dg) all (dg_protocol dg) 0 0 (checksum_ctx dg))
            (\<lambda>(protocol, prefix, ctx).
          and_then (range_from all prefix) (\<lambda>data.
            if protocol = 6 then decode_tcp dg policy data prefix ctx
            else if protocol = 17 then decode_udp dg policy data prefix ctx
            else Err (error_new UnsupportedTransport 0 ''ip_protocol''
              (''protocol '' @ show_nat (unat protocol) @ '' is not decoded'')))))"

end
