(* ===== verification/Wire_Safety.thy ===== *)
theory Wire_Safety
  imports Wire
begin

text \<open>
  What the wire decoders guarantee: no panic on any input, payloads that are attributed to exactly
  the packet bytes they are, fragments in the shape reassembly relies on, and checksum verdicts that
  agree with RFC 1071 over the pseudo-header.
\<close>

section \<open>No panic\<close>

lemma ipv4_options_no_panic [simp]: "ipv4_options_from options p ctx \<noteq> Panic"
proof (induction options p ctx rule: ipv4_options_from.induct)
  case (1 options p ctx)
  then show ?case
    by (subst ipv4_options_from.simps) (auto simp: outcome_simps split: if_splits)
qed

lemma ipv6_options_no_panic [simp]: "ipv6_options_from header p ctx \<noteq> Panic"
proof (induction header p ctx rule: ipv6_options_from.induct)
  case (1 header p ctx)
  then show ?case
    by (subst ipv6_options_from.simps) (auto simp: outcome_simps split: if_splits)
qed

lemma checksum_context_no_panic [simp]:
  "ipv4_checksum_context options \<noteq> Panic" "ipv6_checksum_context protocol header \<noteq> Panic"
  by (simp_all add: ipv4_checksum_context_def ipv6_checksum_context_def)

lemma ev_slice_no_panic [simp]: "ev_slice e lo hi \<noteq> Panic"
proof -
  have "slice_spans lo hi ss \<noteq> Panic" for ss
    by (induction ss) (auto simp: Let_def outcome_simps)
  then show ?thesis by (simp add: ev_slice_def Let_def outcome_simps)
qed

lemma offset_mod_8: "unat ((w :: u16) AND 0xfff8) mod 8 = 0"
proof -
  have "take_bit 3 (w AND 0xfff8) = 0" by (simp add: take_bit_and)
  then have "unat (take_bit 3 (w AND 0xfff8)) = 0" by (simp only: unsigned_0)
  then show ?thesis by (simp only: unsigned_take_bit_eq) (simp add: take_bit_eq_mod)
qed

lemma unat_u16_le: "unat (w :: u16) < 65536"
  by (rule unat_u16_less)

lemma ipv6_jump_pos: "8 \<le> ipv6_jump protocol n"
  by (simp add: ipv6_jump_def)

text \<open>What a fragment header must satisfy for reassembly to make sense of the \<open>n\<close> bytes it covers.\<close>

definition fragment_ok :: "nat \<Rightarrow> fragment_info \<Rightarrow> bool" where
  "fragment_ok n f \<longleftrightarrow> 0 < n \<and> (fi_more f \<longrightarrow> n mod 8 = 0) \<and> fi_offset f mod 8 = 0
     \<and> fi_offset f < 65536 \<and> (fi_more f \<or> fi_offset f \<noteq> 0)"

text \<open>The extension scan keeps its cursor inside the declared length, and ends there or fails.\<close>

lemma ipv6_fragment_header_no_panic:
  "len \<le> length b \<Longrightarrow> ipv6_fragment_header b len eoff p \<noteq> Panic"
  by (auto simp: ipv6_fragment_header_def outcome_simps Let_def split: if_splits)

lemma ipv6_fragment_header_Ok:
  assumes "ipv6_fragment_header b len eoff p = Ok (nxt, frag)" and "len \<le> length b"
  shows "p + 8 \<le> len" "frag = Some f \<Longrightarrow> fragment_ok (len - (p + 8)) f"
proof -
  from assms have "p + 8 \<le> len" "\<forall>f. frag = Some f \<longrightarrow> fragment_ok (len - (p + 8)) f"
    by (auto simp: ipv6_fragment_header_def Let_def fragment_ok_def offset_mod_8 unat_u16_less
        outcome_simps elim!: and_then_OkE split: if_split_asm)
  then show "p + 8 \<le> len" "frag = Some f \<Longrightarrow> fragment_ok (len - (p + 8)) f" by auto
qed

lemma ipv6_extension_header_no_panic:
  "p + 2 \<le> len \<Longrightarrow> len \<le> length b \<Longrightarrow> ipv6_extension_header b len eoff protocol p ctx \<noteq> Panic"
  using ipv6_jump_pos by (auto simp: ipv6_extension_header_def outcome_simps Let_def)

lemma ipv6_extension_header_Ok:
  assumes "ipv6_extension_header b len eoff protocol p ctx = Ok (nxt, q, c)" and "len \<le> length b"
  shows "p \<le> q \<and> q \<le> len"
  using assms by (auto simp: ipv6_extension_header_def outcome_simps Let_def elim!: and_then_OkE)

lemma ipv6_extensions_no_panic:
  assumes "len \<le> length b"
  shows "ipv6_extensions b len eoff protocol p depth ctx \<noteq> Panic"
  using assms
proof (induction b len eoff protocol p depth ctx rule: ipv6_extensions.induct)
  case (1 b len eoff protocol p depth ctx)
  show ?case
    unfolding ipv6_extensions.simps [of b len eoff protocol p depth ctx]
    using "1.prems" "1.IH" ipv6_fragment_header_no_panic ipv6_extension_header_no_panic
    by (auto simp: outcome_simps split: option.split)
qed

lemma ipv6_extensions_step:
  assumes "List.member [0, 43, 44, 51, 60] protocol" "len \<le> length b"
    and ok: "ipv6_extensions b len eoff protocol p depth ctx = Ok res"
  shows "\<not> depth + 1 > 16" "range_at b 0 len = Ok (take len b)"
    "require_len (take len b) (p + 2) eoff ''ipv6_extension'' = Ok ()"
    "Ok res = (if protocol = 44 then
            and_then (ipv6_fragment_header b len eoff p) (\<lambda>(nxt, frag).
              case frag of
                Some f \<Rightarrow> Ok (nxt, p + 8, Some f, ctx)
              | None \<Rightarrow> ipv6_extensions b len eoff nxt (p + 8) (depth + 1) ctx)
          else
            and_then (ipv6_extension_header b len eoff protocol p ctx) (\<lambda>(nxt, q, ctx').
              ipv6_extensions b len eoff nxt q (depth + 1) ctx'))"
proof -
  note unfold = ok [unfolded ipv6_extensions.simps [of b len eoff protocol p depth ctx]]
  show d: "\<not> depth + 1 > 16" using unfold assms(1) by (auto split: if_split_asm)
  show r: "range_at b 0 len = Ok (take len b)" using assms(2) by simp
  let ?rest = "\<lambda>_ :: unit. if protocol = 44 then
            and_then (ipv6_fragment_header b len eoff p) (\<lambda>(nxt, frag).
              case frag of
                Some f \<Rightarrow> Ok (nxt, p + 8, Some f, ctx)
              | None \<Rightarrow> ipv6_extensions b len eoff nxt (p + 8) (depth + 1) ctx)
          else
            and_then (ipv6_extension_header b len eoff protocol p ctx) (\<lambda>(nxt, q, ctx').
              ipv6_extensions b len eoff nxt q (depth + 1) ctx')"
  have u: "and_then (require_len (take len b) (p + 2) eoff ''ipv6_extension'') ?rest = Ok res"
    using unfold by (simp only: assms(1) d r and_then.simps if_True if_False)
  then show l: "require_len (take len b) (p + 2) eoff ''ipv6_extension'' = Ok ()"
    by (auto elim: and_then_OkE)
  show "Ok res = ?rest ()" using u unfolding l and_then.simps by (rule sym)
qed

lemma ipv6_extensions_bounds:
  assumes "ipv6_extensions b len eoff protocol p depth ctx = Ok (nxt, q, frag, c)"
    and "p \<le> len" "len \<le> length b"
  shows "p \<le> q \<and> q \<le> len \<and> (\<forall>f. frag = Some f \<longrightarrow> fragment_ok (len - q) f)"
  using assms
proof (induction b len eoff protocol p depth ctx rule: ipv6_extensions.induct)
  case (1 b len eoff protocol p depth ctx)
  show ?case
  proof (cases "List.member [0, 43, 44, 51, 60] protocol")
    case False
    with "1.prems" show ?thesis by (simp add: ipv6_extensions.simps [of b len eoff protocol p depth ctx])
  next
    case True
    note step = ipv6_extensions_step [OF True "1.prems"(3,1)]
    show ?thesis
    proof (cases "protocol = 44")
      case True
      with step(4) obtain n fo where h: "ipv6_fragment_header b len eoff p = Ok (n, fo)"
        and rest: "Ok (nxt, q, frag, c) = (case fo of
            Some f \<Rightarrow> Ok (n, p + 8, Some f, ctx)
          | None \<Rightarrow> ipv6_extensions b len eoff n (p + 8) (depth + 1) ctx)"
        by (auto simp: Ok_eq_and_then simp del: One_nat_def)
      note ok = ipv6_fragment_header_Ok [OF h "1.prems"(3)]
      show ?thesis
      proof (cases fo)
        case None
        from "1.IH"(1) [OF \<open>List.member [0, 43, 44, 51, 60] protocol\<close> step(1-3) True h refl None]
        show ?thesis using rest None ok(1) "1.prems"(3) by auto
      qed (use rest ok in auto)
    next
      case False
      with step(4) obtain n r ctx' where h: "ipv6_extension_header b len eoff protocol p ctx = Ok (n, r, ctx')"
        and rest: "ipv6_extensions b len eoff n r (depth + 1) ctx' = Ok (nxt, q, frag, c)"
        by (auto simp: Ok_eq_and_then)
      from "1.IH"(2) [OF True step(1-3) False h refl refl rest]
      show ?thesis using ipv6_extension_header_Ok [OF h "1.prems"(3)] "1.prems"(3) by auto
    qed
  qed
qed

lemma ipv6_no_panic [simp]: "ipv6 packet start pid sc \<noteq> Panic"
proof -
  have rng: "range_at b p len \<noteq> Panic"
    if "ipv6_extensions b len eoff first 40 0 BaseAddresses = Ok (n, p, f, c)" "40 \<le> len" "len \<le> length b"
    for b len eoff first n p f c
    using ipv6_extensions_bounds [OF that] that(3) by simp
  show ?thesis
    by (auto simp: ipv6_def Let_def outcome_simps ipv6_extensions_no_panic dest!: rng)
qed

lemma ipv4_fragment_no_panic [simp]: "ipv4_fragment flags header len \<noteq> Panic"
  by (simp add: ipv4_fragment_def Let_def)

lemma ipv4_fragment_Ok:
  assumes "ipv4_fragment flags header len = Ok (off, extra)" "header \<le> len"
  shows "off + (len - header) \<le> 65535 \<and> (extra \<or> off \<noteq> 0 \<longrightarrow>
    (\<forall>i. fragment_ok (len - header) \<lparr>fi_id = i, fi_offset = off, fi_more = extra\<rparr>))"
  using assms
  by (auto simp: ipv4_fragment_def Let_def fragment_ok_def checked_add_eq_Some
      split: if_split_asm option.split_asm)

lemma ipv4_no_panic [simp]: "ipv4 packet start pid sc \<noteq> Panic"
  by (auto simp: ipv4_def Let_def outcome_simps)

lemma link_start_no_panic [simp]: "link_start link_type packet pid sc \<noteq> Panic"
  by (auto simp: link_start_def Let_def outcome_simps Suc_le_eq)

lemma vlan_tags_no_panic [simp]: "vlan_tags packet pid start ty sc \<noteq> Panic"
proof (induction packet pid start ty sc rule: vlan_tags.induct)
  case (1 packet pid start ty sc)
  then show ?case
    unfolding vlan_tags.simps [of packet pid start ty sc] by (auto simp: outcome_simps)
qed

lemma decode_packet_no_panic: "decode_packet link_type packet pid sc \<noteq> Panic"
  by (auto simp: decode_packet_def outcome_simps)

lemma transport_extension_header_no_panic:
  "transport_extension_header all protocol prefix ctx \<noteq> Panic"
  using ipv6_jump_pos by (auto simp: transport_extension_header_def outcome_simps Let_def)

lemma transport_extension_header_Ok:
  "transport_extension_header all protocol prefix ctx = Ok (nxt, q, c) \<Longrightarrow> prefix \<le> q \<and> q \<le> length all"
  by (auto simp: transport_extension_header_def Let_def require_len_eq_Ok elim!: and_then_OkE)

lemma transport_extensions_no_panic: "transport_extensions v6 all protocol prefix depth ctx \<noteq> Panic"
proof (induction v6 all protocol prefix depth ctx rule: transport_extensions.induct)
  case (1 v6 all protocol prefix depth ctx)
  then show ?case
    unfolding transport_extensions.simps [of v6 all protocol prefix depth ctx]
    using transport_extension_header_no_panic by (auto simp: outcome_simps)
qed

lemma transport_extensions_bounds:
  "transport_extensions v6 all protocol prefix depth ctx = Ok (nxt, q, c) \<Longrightarrow> prefix \<le> length all \<Longrightarrow>
   prefix \<le> q \<and> q \<le> length all"
proof (induction v6 all protocol prefix depth ctx rule: transport_extensions.induct)
  case (1 v6 all protocol prefix depth ctx)
  show ?case
  proof (cases "v6 \<and> List.member [0, 43, 51, 60] protocol")
    case True
    with "1.prems"(1) obtain n r ctx' where
      h: "\<not> depth + 1 > 16" "transport_extension_header all protocol prefix ctx = Ok (n, r, ctx')"
        "transport_extensions v6 all n r (depth + 1) ctx' = Ok (nxt, q, c)"
      unfolding transport_extensions.simps [of v6 all protocol prefix depth ctx]
      by (auto elim!: and_then_OkE split: if_split_asm)
    from "1.IH" [OF True h(1,2) refl refl h(3)] transport_extension_header_Ok [OF h(2)]
    show ?thesis by auto
  qed (use "1.prems" transport_extensions.simps [of v6 all protocol prefix depth ctx] in auto)
qed

lemma transport_checksum_no_panic [simp]: "checked_transport_checksum dg ctx protocol data \<noteq> Panic"
  by (auto simp: checked_transport_checksum_def transport_checksum_def pseudo_header_def outcome_simps
      split: checksum_context.split ip_addr.split)

lemma require_supported_no_panic [simp]: "require_supported_checksum c policy \<noteq> Panic"
  by (simp add: require_supported_checksum_def)

lemma decode_tcp_no_panic [simp]: "decode_tcp dg policy data prefix ctx \<noteq> Panic"
  by (auto simp: decode_tcp_def Let_def outcome_simps)

lemma decode_udp_no_panic [simp]: "decode_udp dg policy data prefix ctx \<noteq> Panic"
  by (auto simp: decode_udp_def Let_def outcome_simps)

lemma transport_data_range:
  "transport_extensions v6 all protocol 0 0 ctx = Ok (nxt, q, c) \<Longrightarrow>
   (range_from all q :: bytes result) = Ok (drop q all)"
  using transport_extensions_bounds [of v6 all protocol 0 0 ctx nxt q c] by simp

lemma decode_transport_no_panic: "decode_transport dg policy \<noteq> Panic"
proof -
  have rng: "(range_from all q :: bytes result) \<noteq> Panic"
    if "transport_extensions v6 all protocol 0 0 ctx = Ok (nxt, q, c)" for v6 all protocol ctx nxt q c
    using transport_data_range [OF that] by simp
  show ?thesis
    by (auto simp: decode_transport_def Let_def and_then_eq_Panic transport_extensions_no_panic dest!: rng)
qed

section \<open>Payloads and their sources\<close>

text \<open>Evidence that is a range of one packet's captured bytes, attributed to that range.\<close>

definition cut_from :: "packet_id \<Rightarrow> bytes \<Rightarrow> evidence \<Rightarrow> bool" where
  "cut_from pid packet e \<longleftrightarrow>
     (\<exists>a b. a \<le> b \<and> b \<le> length packet \<and> e = from_packet (sub_list packet a b) pid a)"

lemma sub_list_drop: "sub_list (drop s xs) a b = sub_list xs (s + a) (s + b)"
  by (simp add: sub_list_def add.commute)

lemma cut_from_drop:
  "s \<le> length packet \<Longrightarrow> a \<le> b \<Longrightarrow> b \<le> length packet - s \<Longrightarrow>
   cut_from pid packet (from_packet (sub_list (drop s packet) a b) pid (s + a))"
  unfolding cut_from_def sub_list_drop by (intro exI [of _ "s + a"] exI [of _ "s + b"]) auto

lemma ipv4_Ok:
  assumes "ipv4 packet start pid sc = Ok dg"
  shows "dg_scope dg = sc \<and> \<not> dg_ipv6 dg" "cut_from pid packet (dg_payload dg)"
    "dg_fragment dg = Some f \<Longrightarrow> fragment_ok (ev_len (dg_payload dg)) f
       \<and> fi_offset f + ev_len (dg_payload dg) \<le> 65535"
    "ip_checksum dg = (if rfc1071 (sub_list packet start (start + network_header_len dg)) = 0
       then Valid else Invalid)"
proof -
  from assms have s: "start + 20 \<le> length packet"
    by (auto simp: ipv4_def require_len_eq_Ok elim!: and_then_OkE)
  note unfold = assms [unfolded ipv4_def Let_def]
  from unfold show "dg_scope dg = sc \<and> \<not> dg_ipv6 dg"
    by (auto elim!: and_then_OkE split: if_split_asm prod.split_asm)
  from unfold s show "cut_from pid packet (dg_payload dg)"
    by (auto elim!: and_then_OkE split: if_split_asm prod.split_asm intro!: cut_from_drop
        simp: require_len_eq_Ok)
  from unfold s show "ip_checksum dg = (if rfc1071 (sub_list packet start (start + network_header_len dg)) = 0
       then Valid else Invalid)"
    by (auto elim!: and_then_OkE split: if_split_asm prod.split_asm
        simp: require_len_eq_Ok internet_checksum_of_def checksum_rfc1071 sub_list_def)
  from unfold s show "dg_fragment dg = Some f \<Longrightarrow> fragment_ok (ev_len (dg_payload dg)) f
       \<and> fi_offset f + ev_len (dg_payload dg) \<le> 65535"
    by (auto elim!: and_then_OkE split: if_split_asm prod.split_asm
        simp: require_len_eq_Ok ev_len_def not_less dest!: ipv4_fragment_Ok)
qed

lemma ipv6_Ok:
  assumes "ipv6 packet start pid sc = Ok dg"
  shows "dg_scope dg = sc \<and> dg_ipv6 dg \<and> ip_checksum dg = NotPresent" "cut_from pid packet (dg_payload dg)"
    "dg_fragment dg = Some f \<Longrightarrow> fragment_ok (ev_len (dg_payload dg)) f"
proof -
  from assms have s: "start + 40 \<le> length packet"
    by (auto simp: ipv6_def require_len_eq_Ok elim!: and_then_OkE)
  note unfold = assms [unfolded ipv6_def Let_def]
  from unfold show "dg_scope dg = sc \<and> dg_ipv6 dg \<and> ip_checksum dg = NotPresent"
    by (auto elim!: and_then_OkE split: if_split_asm prod.split_asm)
  from unfold s show "cut_from pid packet (dg_payload dg)"
    by (auto elim!: and_then_OkE split: if_split_asm prod.split_asm intro!: cut_from_drop
        simp: require_len_eq_Ok range_at_eq_Ok)
  from unfold s show "dg_fragment dg = Some f \<Longrightarrow> fragment_ok (ev_len (dg_payload dg)) f"
    by (auto elim!: and_then_OkE split: if_split_asm prod.split_asm
        simp: require_len_eq_Ok ev_len_def range_at_eq_Ok dest!: ipv6_extensions_bounds)
qed

lemma vlan_tags_Ok:
  assumes "vlan_tags packet pid start ty sc = Ok (start', ty', sc')"
  shows "length (sc_vlans sc') \<le> max 8 (length (sc_vlans sc)) \<and> sc_section sc' = sc_section sc
    \<and> sc_interface sc' = sc_interface sc \<and> sc_link_interface sc' = sc_link_interface sc"
  using assms
proof (induction packet pid start ty sc rule: vlan_tags.induct)
  case (1 packet pid start ty sc)
  show ?case
  proof (cases "ty = 0x8100 \<or> ty = 0x88a8 \<or> ty = 0x9100")
    case False
    with "1.prems" show ?thesis unfolding vlan_tags.simps [of packet pid start ty sc] by simp
  next
    case True
    with "1.prems" obtain tag t where step: "\<not> 8 \<le> length (sc_vlans sc)"
      "require_len packet (start + 4) (pid_record_offset pid) ''vlan'' = Ok ()"
      "(read_u16 Big packet start :: u16 result) = Ok tag"
      "(read_u16 Big packet (start + 2) :: u16 result) = Ok t"
      "vlan_tags packet pid (start + 4) t (Scope (sc_section sc) (sc_interface sc) (sc_link_interface sc)
         (sc_vlans sc @ [tag AND 0x0fff])) = Ok (start', ty', sc')"
      unfolding vlan_tags.simps [of packet pid start ty sc]
      by (auto simp del: read_u16_ok elim!: and_then_OkE split: if_split_asm)
    from "1.IH" [OF True step] step(1) show ?thesis by simp
  qed
qed

lemma link_start_vlans:
  "link_start link_type packet pid sc = Ok (start, ty, sc') \<Longrightarrow> sc_vlans sc' = sc_vlans sc
     \<and> sc_section sc' = sc_section sc \<and> sc_interface sc' = sc_interface sc"
  by (auto simp: link_start_def Let_def elim!: and_then_OkE split: if_split_asm)

text \<open>Everything the rest of the pipeline relies on in a decoded datagram.\<close>

definition datagram_ok :: "packet_id \<Rightarrow> bytes \<Rightarrow> scope \<Rightarrow> datagram \<Rightarrow> bool" where
  "datagram_ok pid packet sc dg \<longleftrightarrow>
     cut_from pid packet (dg_payload dg)
     \<and> length (sc_vlans (dg_scope dg)) \<le> max 8 (length (sc_vlans sc))
     \<and> sc_section (dg_scope dg) = sc_section sc \<and> sc_interface (dg_scope dg) = sc_interface sc
     \<and> (\<forall>f. dg_fragment dg = Some f \<longrightarrow> fragment_ok (ev_len (dg_payload dg)) f
          \<and> (\<not> dg_ipv6 dg \<longrightarrow> fi_offset f + ev_len (dg_payload dg) \<le> 65535))"

lemma decode_packet_ok:
  assumes "decode_packet link_type packet pid sc = Ok dg"
  shows "datagram_ok pid packet sc dg"
proof -
  from assms obtain s0 t0 sc0 s1 t1 sc1 where
    l: "link_start link_type packet pid sc = Ok (s0, t0, sc0)"
    and v: "vlan_tags packet pid s0 t0 sc0 = Ok (s1, t1, sc1)"
    and net: "ipv4 packet s1 pid sc1 = Ok dg \<or> ipv6 packet s1 pid sc1 = Ok dg"
    by (auto simp: decode_packet_def elim!: and_then_OkE split: if_split_asm)
  from net have "cut_from pid packet (dg_payload dg) \<and> dg_scope dg = sc1
    \<and> (\<forall>f. dg_fragment dg = Some f \<longrightarrow> fragment_ok (ev_len (dg_payload dg)) f
          \<and> (\<not> dg_ipv6 dg \<longrightarrow> fi_offset f + ev_len (dg_payload dg) \<le> 65535))"
  proof
    assume "ipv4 packet s1 pid sc1 = Ok dg"
    from ipv4_Ok [OF this] show ?thesis by auto
  next
    assume "ipv6 packet s1 pid sc1 = Ok dg"
    from ipv6_Ok [OF this] show ?thesis by auto
  qed
  with vlan_tags_Ok [OF v] link_start_vlans [OF l] show ?thesis by (simp add: datagram_ok_def)
qed

lemma cut_from_trace:
  assumes "cut_from pid packet e" "length packet < usize_limit"
  shows "ev_validate e \<and> (\<exists>a b. a \<le> b \<and> b \<le> length packet
    \<and> ev_trace e = map (\<lambda>i. (packet ! i, pid, i)) [a..<b])"
proof -
  from assms(1) obtain a b where e: "a \<le> b" "b \<le> length packet" "e = from_packet (sub_list packet a b) pid a"
    by (auto simp: cut_from_def)
  then have "ev_validate e" using assms(2) by (auto simp: from_packet_valid)
  moreover have "ev_trace e = map (\<lambda>i. (packet ! i, pid, i)) [a..<b]"
    unfolding ev_trace_def e(3) from_packet_labels from_packet_data
    using e(1,2) by (auto intro!: nth_equalityI simp: nth_sub_list)
  ultimately show ?thesis using e(1,2) by blast
qed

section \<open>Transport payloads\<close>

fun transport_payload :: "transport \<Rightarrow> evidence" where
  "transport_payload (Tcp s) = seg_payload s"
| "transport_payload (Udp u) = udp_payload u"

lemma decode_tcp_Ok:
  assumes "decode_tcp dg policy data prefix ctx = Ok t"
  obtains seg header where "t = Tcp seg"
    "ev_slice (dg_payload dg) (prefix + header) (ev_len (dg_payload dg)) = Ok (seg_payload seg)"
    "20 \<le> header" "header \<le> length data" "20 \<le> length data"
    "checked_transport_checksum dg ctx 6 data = Ok (seg_checksum seg)"
    "policy = RequireValid \<longrightarrow> seg_checksum seg = Valid"
    "seg_source seg = Endpoint (dg_source dg) (word16_at Big data 0)"
    "seg_destination seg = Endpoint (dg_destination dg) (word16_at Big data 2)"
    "seg_sequence seg = word32_at Big data 4" "seg_acknowledgement seg = word32_at Big data 8" "seg_flags seg = data ! 13"
    "header = unat (drop_bit 4 (data ! 12)) * 4"
  using assms unfolding decode_tcp_def Let_def
  by (force simp: require_len_eq_Ok split: if_split_asm elim!: and_then_OkE)

lemma decode_udp_Ok:
  assumes "decode_udp dg policy data prefix ctx = Ok t"
  obtains u len where "t = Udp u" "ev_slice (dg_payload dg) (prefix + 8) (prefix + len) = Ok (udp_payload u)"
    "8 \<le> len" "len \<le> length data"
    "(if word16_at Big data 6 = 0 then Ok (if dg_ipv6 dg then Invalid else NotPresent)
      else checked_transport_checksum dg ctx 17 (take len data)) = Ok (udp_checksum u)"
    "policy = RequireValid \<longrightarrow> udp_checksum u = Valid \<or> udp_checksum u = NotPresent"
  using assms unfolding decode_udp_def Let_def
  by (force simp: require_len_eq_Ok require_supported_checksum_def split: if_split_asm elim!: and_then_OkE
      intro: checksum_status.exhaust)

lemma sub_list_map_upt:
  assumes "lo \<le> hi" "hi \<le> b - a"
  shows "sub_list (map f [a..<b]) lo hi = map f [a + lo..<a + hi]"
  using assms by (auto simp: sub_list_def add.assoc intro!: nth_equalityI)

lemma decode_transport_OkE:
  assumes "decode_transport dg policy = Ok t"
  obtains protocol prefix ctx where "dg_fragment dg = None"
    "policy = RequireValid \<longrightarrow> ip_checksum dg \<noteq> Invalid" "prefix \<le> ev_len (dg_payload dg)"
    "transport_extensions (dg_ipv6 dg) (ev_data (dg_payload dg)) (dg_protocol dg) 0 0 (checksum_ctx dg) =
       Ok (protocol, prefix, ctx)"
    "protocol = 6 \<and> decode_tcp dg policy (drop prefix (ev_data (dg_payload dg))) prefix ctx = Ok t
     \<or> protocol = 17 \<and> decode_udp dg policy (drop prefix (ev_data (dg_payload dg))) prefix ctx = Ok t"
proof -
  from assms obtain protocol prefix ctx where x:
    "transport_extensions (dg_ipv6 dg) (ev_data (dg_payload dg)) (dg_protocol dg) 0 0 (checksum_ctx dg) =
       Ok (protocol, prefix, ctx)" "dg_fragment dg = None"
    "policy = RequireValid \<longrightarrow> ip_checksum dg \<noteq> Invalid"
    by (auto simp: decode_transport_def Let_def elim!: and_then_OkE split: if_split_asm)
  moreover have "prefix \<le> ev_len (dg_payload dg)"
    using transport_extensions_bounds [OF x(1)] by (simp add: ev_len_def)
  ultimately show thesis
    using assms transport_data_range [OF x(1)] that
    by (simp add: decode_transport_def Let_def split: if_split_asm)
qed

lemma decode_transport_slice:
  assumes "decode_transport dg policy = Ok t"
  obtains lo hi where "ev_slice (dg_payload dg) lo hi = Ok (transport_payload t)"
  using assms by (rule decode_transport_OkE) (auto elim!: decode_tcp_Ok decode_udp_Ok intro: that)

lemma transport_payload_trace:
  assumes "cut_from pid packet (dg_payload dg)" "decode_transport dg policy = Ok t"
    "length packet < usize_limit"
  shows "\<exists>a b. a \<le> b \<and> b \<le> length packet
    \<and> ev_trace (transport_payload t) = map (\<lambda>i. (packet ! i, pid, i)) [a..<b]"
proof -
  obtain a b where v: "ev_validate (dg_payload dg)" "a \<le> b" "b \<le> length packet"
    "ev_trace (dg_payload dg) = map (\<lambda>i. (packet ! i, pid, i)) [a..<b]"
    using cut_from_trace [OF assms(1,3)] by blast
  obtain lo hi where sl: "ev_slice (dg_payload dg) lo hi = Ok (transport_payload t)"
    using decode_transport_slice [OF assms(2)] .
  then have r: "lo \<le> hi" "hi \<le> length (ev_data (dg_payload dg))"
    by (auto simp: ev_slice_def split: if_split_asm)
  moreover have len: "length (ev_data (dg_payload dg)) = b - a"
    using ev_trace_length [OF v(1)] v(4) by simp
  ultimately have "ev_trace (transport_payload t) = sub_list (ev_trace (dg_payload dg)) lo hi"
    using evidence.cut_ok [OF v(1), of lo hi] sl ev_trace_length [OF v(1)] by auto
  also have "\<dots> = map (\<lambda>i. (packet ! i, pid, i)) [a + lo..<a + hi]"
    unfolding v(4) using r len by (intro sub_list_map_upt) auto
  finally show ?thesis using r len v(2,3) by (intro exI [of _ "a + lo"] exI [of _ "a + hi"]) auto
qed

section \<open>Checksums\<close>

lemma transport_checksum_eq:
  "transport_checksum src dst protocol data =
     and_then (pseudo_header src dst protocol (length data)) (\<lambda>parts.
       Ok (if rfc1071 (concat parts @ data) = 0 then Valid else Invalid))"
proof -
  have "foldl checksum_update c parts = checksum_update c (concat parts)" for c parts
    by (induction parts arbitrary: c) (simp_all add: checksum_update_append)
  then show ?thesis
    by (simp add: transport_checksum_def checksum_update_append [symmetric] checksum_rfc1071)
qed

section \<open>A sample packet\<close>

text \<open>A raw IPv4 packet with one TCP segment of one byte, both checksums correct.\<close>

definition sample_packet :: bytes where
  "sample_packet = [69, 0, 0, 41, 0, 1, 0, 0, 64, 6, 102, 204, 10, 0, 0, 1, 10, 0, 0, 2, 4, 210, 0, 80,
     0, 0, 0, 7, 0, 0, 0, 9, 80, 24, 1, 0, 84, 151, 0, 0, 65]"

lemma sample_datagram:
  "\<exists>dg seg. decode_packet 228 sample_packet (PacketId [] 1 24) (Scope 0 0 None []) = Ok dg
    \<and> decode_transport dg RequireValid = Ok (Tcp seg) \<and> ev_data (seg_payload seg) = [65]"
proof -
  let ?pid = "PacketId [] 1 24"
  let ?dg = "\<lparr>dg_scope = Scope 0 0 None [], dg_source = V4 [10, 0, 0, 1], dg_destination = V4 [10, 0, 0, 2],
    dg_protocol = 6, dg_ipv6 = False, network_header_len = 20, dg_fragment = None,
    dg_payload = from_packet (drop 20 sample_packet) ?pid 20, ip_checksum = Valid, checksum_ctx = BaseAddresses\<rparr>"
  have w: "word16_at Big sample_packet 2 = 41" "word16_at Big sample_packet 6 = 0" "word16_at Big sample_packet 4 = 1"
    by (simp_all add: sample_packet_def word16_at_def be16_word_def)
  have c: "internet_checksum_of (take 20 sample_packet) = 0"
    unfolding internet_checksum_of_def checksum_rfc1071 rfc1071_zero_iff sample_packet_def
    by (simp add: ones_add_def)
  have f: "ipv4_fragment 0 20 41 = Ok (0, False)" "ipv4_checksum_context [] = Ok BaseAddresses"
    by (simp_all add: ipv4_fragment_def checked_add_def usize_limit_def ipv4_checksum_context_def
        ipv4_options_from.simps)
  have r: "length sample_packet = 41" "sample_packet ! 0 = 69" "sample_packet ! 9 = 6" "sub_list sample_packet 12 16 = [10, 0, 0, 1]"
    "sub_list sample_packet 16 20 = [10, 0, 0, 2]" "sub_list sample_packet 20 41 = drop 20 sample_packet"
    by (simp_all add: sample_packet_def sub_list_def)
  have "ipv4 sample_packet 0 ?pid (Scope 0 0 None []) = Ok ?dg"
    using w c f r by (simp add: ipv4_def)
  then have dg: "decode_packet 228 sample_packet ?pid (Scope 0 0 None []) = Ok ?dg"
    by (simp add: decode_packet_def link_start_def vlan_tags.simps)
  let ?all = "drop 20 sample_packet"
  have all: "length ?all = 21" "?all ! 12 = 80" "?all ! 13 = 24" by (simp_all add: sample_packet_def)
  have "rfc1071 (concat [[10, 0, 0, 1], [10, 0, 0, 2], [0, 6], be16_bytes 21] @ ?all) = 0"
    unfolding rfc1071_zero_iff sample_packet_def by (simp add: ones_add_def be16_bytes_def)
  then have tc: "checked_transport_checksum ?dg BaseAddresses 6 ?all = Ok Valid"
    using all(1) by (simp add: checked_transport_checksum_def transport_checksum_eq pseudo_header_def)
  have "ev_validate (dg_payload ?dg)" by (simp add: from_packet_valid usize_limit_def sample_packet_def)
  then obtain pl where pl: "ev_slice (dg_payload ?dg) 20 21 = Ok pl" "ev_data pl = [65]"
    using ev_slice_ok [of "dg_payload ?dg" 20 21] by (auto simp: sample_packet_def sub_list_def)
  have "transport_extensions False ?all 6 0 0 BaseAddresses = Ok (6, 0, BaseAddresses)"
    by (simp add: transport_extensions.simps)
  then have "\<exists>seg. decode_transport ?dg RequireValid = Ok (Tcp seg) \<and> seg_payload seg = pl"
    using all tc pl
    by (simp add: decode_transport_def decode_tcp_def require_supported_checksum_def ev_len_def
        Let_def)
  with dg pl(2) show ?thesis by blast
qed


section \<open>Properties\<close>

text \<open>
  neither the packet decoder nor the transport decoder panics, whatever the link type, the
  captured bytes and the datagram.
\<close>

theorem wire_decoders_never_panic:
  "decode_packet link_type packet pid sc \<noteq> Panic \<and> decode_transport dg policy \<noteq> Panic"
  using decode_packet_no_panic decode_transport_no_panic by blast

text \<open>
  C22: the payload of a decoded segment or datagram is a contiguous range of the captured packet, and
  every byte of it is attributed to that packet and to the very offset it was captured at.
\<close>

theorem payload_bytes_are_packet_bytes:
  assumes "decode_packet link_type packet pid sc = Ok dg" "decode_transport dg policy = Ok t"
    "length packet < usize_limit"
  shows "\<exists>a b. a \<le> b \<and> b \<le> length packet
    \<and> ev_trace (transport_payload t) = map (\<lambda>i. (packet ! i, pid, i)) [a..<b]"
  using decode_packet_ok [OF assms(1)] transport_payload_trace [OF _ assms(2,3)]
  by (simp add: datagram_ok_def)

text \<open>
  C24: decoded datagrams are well formed.  At most eight VLAN tags are accepted; a fragment carries
  bytes, starts at a multiple of eight, has a length divisible by eight unless it is the last, and
  (IPv4) ends within 65535; and fragments are never decoded as transport data.
\<close>

theorem datagrams_are_well_formed:
  assumes "decode_packet link_type packet pid (Scope s i l []) = Ok dg"
  shows "length (sc_vlans (dg_scope dg)) \<le> 8 \<and>
    (\<forall>f. dg_fragment dg = Some f \<longrightarrow>
       0 < ev_len (dg_payload dg) \<and> fi_offset f mod 8 = 0
       \<and> (fi_more f \<longrightarrow> ev_len (dg_payload dg) mod 8 = 0)
       \<and> (\<not> dg_ipv6 dg \<longrightarrow> fi_offset f + ev_len (dg_payload dg) \<le> 65535)
       \<and> fails (decode_transport dg policy))"
  using decode_packet_ok [OF assms]
  by (auto simp: datagram_ok_def fragment_ok_def fails_def decode_transport_def)

text \<open>
  C23: under the policy \<^verbatim>\<open>RequireValid\<close> a TCP segment is returned only if the IPv4 header checksum is not
  wrong and the one's-complement sum of the pseudo-header and the whole segment is all ones, so that
  its RFC 1071 checksum is zero; the verdict recorded in the segment is \<^verbatim>\<open>Valid\<close>.  The bytes summed are exactly the
  segment that is returned: they start where the walk over the IPv6 extension headers ends, with no option on the way
  that changes the addresses of the pseudo-header; the ports, numbers and flags of the result are those of
  their first twenty bytes, and its payload is all that follows the data offset.
\<close>

theorem required_checksums_hold:
  assumes "decode_transport dg RequireValid = Ok (Tcp seg)"
  shows "ip_checksum dg \<noteq> Invalid \<and> seg_checksum seg = Valid \<and>
    (\<exists>prefix parts data. data = drop prefix (ev_data (dg_payload dg))
       \<and> transport_extensions (dg_ipv6 dg) (ev_data (dg_payload dg)) (dg_protocol dg) 0 0 (checksum_ctx dg)
           = Ok (6, prefix, BaseAddresses)
       \<and> 20 \<le> length data
       \<and> seg_source seg = Endpoint (dg_source dg) (word16_at Big data 0)
       \<and> seg_destination seg = Endpoint (dg_destination dg) (word16_at Big data 2)
       \<and> seg_sequence seg = word32_at Big data 4 \<and> seg_acknowledgement seg = word32_at Big data 8
       \<and> seg_flags seg = data ! 13
       \<and> ev_data (seg_payload seg) = drop (unat (drop_bit 4 (data ! 12)) * 4) data
       \<and> pseudo_header (dg_source dg) (dg_destination dg) 6 (length data) = Ok parts
       \<and> rfc1071 (concat parts @ data) = 0 \<and> ones_add (word_sum (concat parts @ data)) = 65535)"
  using assms
proof (rule decode_transport_OkE)
  fix protocol prefix ctx
  let ?data = "drop prefix (ev_data (dg_payload dg))"
  assume ip: "RequireValid = RequireValid \<longrightarrow> ip_checksum dg \<noteq> Invalid"
    and walk: "transport_extensions (dg_ipv6 dg) (ev_data (dg_payload dg)) (dg_protocol dg) 0 0 (checksum_ctx dg) = Ok (protocol, prefix, ctx)"
    and "protocol = 6 \<and> decode_tcp dg RequireValid ?data prefix ctx = Ok (Tcp seg)
     \<or> protocol = 17 \<and> decode_udp dg RequireValid ?data prefix ctx = Ok (Tcp seg)"
  then have tcp: "protocol = 6" "decode_tcp dg RequireValid ?data prefix ctx = Ok (Tcp seg)"
    by (auto elim!: decode_udp_Ok)
  from decode_tcp_Ok [OF tcp(2)] obtain header where t:
    "ev_slice (dg_payload dg) (prefix + header) (ev_len (dg_payload dg)) = Ok (seg_payload seg)" "20 \<le> length ?data"
    "checked_transport_checksum dg ctx 6 ?data = Ok (seg_checksum seg)" "seg_checksum seg = Valid"
    "seg_source seg = Endpoint (dg_source dg) (word16_at Big ?data 0)"
    "seg_destination seg = Endpoint (dg_destination dg) (word16_at Big ?data 2)"
    "seg_sequence seg = word32_at Big ?data 4" "seg_acknowledgement seg = word32_at Big ?data 8" "seg_flags seg = ?data ! 13"
    "header = unat (drop_bit 4 (?data ! 12)) * 4"
    by (metis transport.inject(1))
  obtain parts where c: "ctx = BaseAddresses"
    "pseudo_header (dg_source dg) (dg_destination dg) 6 (length ?data) = Ok parts" "rfc1071 (concat parts @ ?data) = 0"
    using t(3,4) by (auto simp: checked_transport_checksum_def transport_checksum_eq elim!: and_then_OkE
        split: checksum_context.split_asm if_split_asm)
  have "ev_data (seg_payload seg) = drop header ?data"
    using t(1) by (auto simp: ev_slice_def sub_list_def ev_len_def add.commute elim!: and_then_OkE split: if_split_asm dest!: arg_cong [of _ _ ev_data])
  then show ?thesis
    using ip walk tcp(1) t c by (intro conjI exI [of _ prefix] exI [of _ parts] exI [of _ ?data]) (simp_all add: rfc1071_zero_iff)
qed

theorem payload_bytes_are_packet_bytes_witness:
  "\<exists>dg seg a b. decode_packet 228 sample_packet (PacketId [] 1 24) (Scope 0 0 None []) = Ok dg
     \<and> decode_transport dg RequireValid = Ok (Tcp seg) \<and> ev_data (seg_payload seg) = [65]
     \<and> ev_trace (seg_payload seg) = map (\<lambda>i. (sample_packet ! i, PacketId [] 1 24, i)) [a..<b]"
proof -
  obtain dg seg where s: "decode_packet 228 sample_packet (PacketId [] 1 24) (Scope 0 0 None []) = Ok dg"
    "decode_transport dg RequireValid = Ok (Tcp seg)" "ev_data (seg_payload seg) = [65]"
    using sample_datagram by blast
  have "length sample_packet < usize_limit" by (simp add: sample_packet_def usize_limit_def)
  from payload_bytes_are_packet_bytes [OF s(1,2) this] s show ?thesis by auto
qed

theorem datagrams_are_well_formed_witness:
  "\<exists>dg. decode_packet 228 sample_packet (PacketId [] 1 24) (Scope 0 0 None []) = Ok dg
     \<and> length (sc_vlans (dg_scope dg)) \<le> 8"
proof -
  obtain dg where "decode_packet 228 sample_packet (PacketId [] 1 24) (Scope 0 0 None []) = Ok dg"
    using sample_datagram by blast
  with datagrams_are_well_formed [OF this] show ?thesis by blast
qed

theorem required_checksums_hold_witness:
  "\<exists>dg seg. decode_packet 228 sample_packet (PacketId [] 1 24) (Scope 0 0 None []) = Ok dg
     \<and> decode_transport dg RequireValid = Ok (Tcp seg) \<and> seg_checksum seg = Valid"
proof -
  obtain dg seg where s: "decode_packet 228 sample_packet (PacketId [] 1 24) (Scope 0 0 None []) = Ok dg"
    "decode_transport dg RequireValid = Ok (Tcp seg)"
    using sample_datagram by blast
  with required_checksums_hold [OF s(2)] show ?thesis by blast
qed

end
