(* ===== verification/Dnp3_Link.thy ===== *)
theory Dnp3_Link
  imports Wire_Safety
begin

text \<open>
  \<^verbatim>\<open>src/src/dnp3.rs\<close>, link layer: the protocol issue record, link control octets, application function
  codes, the block checksum and the parser of one link frame; and the address rules of
  \<^verbatim>\<open>src/src/semantics/dnp3_workflow.rs\<close> that the decoder applies to a frame.
\<close>

section \<open>Types\<close>

record protocol_issue =
  pi_code :: string
  pi_packets :: "packet_id list"
  pi_offset :: int

record link_control =
  lc_direction :: bool
  lc_primary :: bool
  lc_fcb :: "bool option"
  lc_fcv :: "bool option"
  lc_dfc :: "bool option"
  lc_reserved :: "bool option"
  lc_function :: u8
  lc_function_name :: string

definition primary_name :: "u8 \<Rightarrow> string" where
  "primary_name f =
     (if f = 0 then ''reset_link_states'' else if f = 1 then ''reset_user_process''
      else if f = 2 then ''test_link_states'' else if f = 3 then ''confirmed_user_data''
      else if f = 4 then ''unconfirmed_user_data'' else if f = 9 then ''request_link_status''
      else ''primary_unknown'')"

definition secondary_name :: "u8 \<Rightarrow> string" where
  "secondary_name f =
     (if f = 0 then ''ack'' else if f = 1 then ''nack'' else if f = 11 then ''link_status''
      else if f = 14 then ''link_service_not_functioning'' else if f = 15 then ''link_service_not_implemented''
      else ''secondary_unknown'')"

definition then_some :: "bool \<Rightarrow> 'a \<Rightarrow> 'a option" where
  "then_some c x = (if c then Some x else None)"

definition link_control_of :: "u8 \<Rightarrow> link_control" where
  "link_control_of control =
     (let primary = (control AND 0x40 \<noteq> 0); f = control AND 0x0f
      in \<lparr>lc_direction = (control AND 0x80 \<noteq> 0), lc_primary = primary,
          lc_fcb = then_some primary (control AND 0x20 \<noteq> 0),
          lc_fcv = then_some primary (control AND 0x10 \<noteq> 0),
          lc_dfc = then_some (\<not> primary) (control AND 0x10 \<noteq> 0),
          lc_reserved = then_some (\<not> primary) (control AND 0x20 \<noteq> 0),
          lc_function = f,
          lc_function_name = (if primary then primary_name f else secondary_name f)\<rparr>)"

record link_frame =
  lf_stream_offset :: int
  lf_control :: u8
  lf_link_control :: link_control
  lf_source :: u16
  lf_destination :: u16
  lf_broadcast :: bool
  lf_user_data :: evidence
  lf_raw :: evidence

datatype function_code =
    FcConfirm | FcRead | FcWrite | FcSelect
  | FcOperate | FcDirectOperate | FcDirectOperateNoResponse | FcImmediateFreeze
  | FcImmediateFreezeNoResponse | FcFreezeClear | FcFreezeClearNoResponse | FcFreezeAtTime
  | FcFreezeAtTimeNoResponse | FcColdRestart | FcWarmRestart | FcInitializeData
  | FcInitializeApplication | FcStartApplication | FcStopApplication | FcSaveConfiguration
  | FcEnableUnsolicited | FcDisableUnsolicited | FcAssignClass | FcDelayMeasure
  | FcRecordCurrentTime | FcOpenFile | FcCloseFile | FcDeleteFile
  | FcGetFileInfo | FcAuthenticateFile | FcAbortFile | FcActivateConfiguration
  | FcAuthRequest | FcAuthRequestNoAck | FcResponse | FcUnsolicitedResponse
  | FcAuthResponse
  | FcUnknown u8

definition from_wire :: "u8 \<Rightarrow> function_code" where
  "from_wire f =
     (if f = 0x00 then FcConfirm
      else if f = 0x01 then FcRead
      else if f = 0x02 then FcWrite
      else if f = 0x03 then FcSelect
      else if f = 0x04 then FcOperate
      else if f = 0x05 then FcDirectOperate
      else if f = 0x06 then FcDirectOperateNoResponse
      else if f = 0x07 then FcImmediateFreeze
      else if f = 0x08 then FcImmediateFreezeNoResponse
      else if f = 0x09 then FcFreezeClear
      else if f = 0x0a then FcFreezeClearNoResponse
      else if f = 0x0b then FcFreezeAtTime
      else if f = 0x0c then FcFreezeAtTimeNoResponse
      else if f = 0x0d then FcColdRestart
      else if f = 0x0e then FcWarmRestart
      else if f = 0x0f then FcInitializeData
      else if f = 0x10 then FcInitializeApplication
      else if f = 0x11 then FcStartApplication
      else if f = 0x12 then FcStopApplication
      else if f = 0x13 then FcSaveConfiguration
      else if f = 0x14 then FcEnableUnsolicited
      else if f = 0x15 then FcDisableUnsolicited
      else if f = 0x16 then FcAssignClass
      else if f = 0x17 then FcDelayMeasure
      else if f = 0x18 then FcRecordCurrentTime
      else if f = 0x19 then FcOpenFile
      else if f = 0x1a then FcCloseFile
      else if f = 0x1b then FcDeleteFile
      else if f = 0x1c then FcGetFileInfo
      else if f = 0x1d then FcAuthenticateFile
      else if f = 0x1e then FcAbortFile
      else if f = 0x1f then FcActivateConfiguration
      else if f = 0x20 then FcAuthRequest
      else if f = 0x21 then FcAuthRequestNoAck
      else if f = 0x81 then FcResponse
      else if f = 0x82 then FcUnsolicitedResponse
      else if f = 0x83 then FcAuthResponse
      else FcUnknown f)"

fun function_code_as_str :: "function_code \<Rightarrow> string" where
  "function_code_as_str FcConfirm = ''confirm''"
| "function_code_as_str FcRead = ''read''"
| "function_code_as_str FcWrite = ''write''"
| "function_code_as_str FcSelect = ''select''"
| "function_code_as_str FcOperate = ''operate''"
| "function_code_as_str FcDirectOperate = ''direct_operate''"
| "function_code_as_str FcDirectOperateNoResponse = ''direct_operate_no_response''"
| "function_code_as_str FcImmediateFreeze = ''immediate_freeze''"
| "function_code_as_str FcImmediateFreezeNoResponse = ''immediate_freeze_no_response''"
| "function_code_as_str FcFreezeClear = ''freeze_clear''"
| "function_code_as_str FcFreezeClearNoResponse = ''freeze_clear_no_response''"
| "function_code_as_str FcFreezeAtTime = ''freeze_at_time''"
| "function_code_as_str FcFreezeAtTimeNoResponse = ''freeze_at_time_no_response''"
| "function_code_as_str FcColdRestart = ''cold_restart''"
| "function_code_as_str FcWarmRestart = ''warm_restart''"
| "function_code_as_str FcInitializeData = ''initialize_data''"
| "function_code_as_str FcInitializeApplication = ''initialize_application''"
| "function_code_as_str FcStartApplication = ''start_application''"
| "function_code_as_str FcStopApplication = ''stop_application''"
| "function_code_as_str FcSaveConfiguration = ''save_configuration''"
| "function_code_as_str FcEnableUnsolicited = ''enable_unsolicited''"
| "function_code_as_str FcDisableUnsolicited = ''disable_unsolicited''"
| "function_code_as_str FcAssignClass = ''assign_class''"
| "function_code_as_str FcDelayMeasure = ''delay_measure''"
| "function_code_as_str FcRecordCurrentTime = ''record_current_time''"
| "function_code_as_str FcOpenFile = ''open_file''"
| "function_code_as_str FcCloseFile = ''close_file''"
| "function_code_as_str FcDeleteFile = ''delete_file''"
| "function_code_as_str FcGetFileInfo = ''get_file_info''"
| "function_code_as_str FcAuthenticateFile = ''authenticate_file''"
| "function_code_as_str FcAbortFile = ''abort_file''"
| "function_code_as_str FcActivateConfiguration = ''activate_configuration''"
| "function_code_as_str FcAuthRequest = ''auth_request''"
| "function_code_as_str FcAuthRequestNoAck = ''auth_request_no_ack''"
| "function_code_as_str FcResponse = ''response''"
| "function_code_as_str FcUnsolicitedResponse = ''unsolicited_response''"
| "function_code_as_str FcAuthResponse = ''auth_response''"
| "function_code_as_str (FcUnknown f) = ''unknown''"

definition function_code_of :: "u8 \<Rightarrow> function_code" where
  "function_code_of f = from_wire f"

section \<open>Addresses\<close>

definition address_kind :: "u16 \<Rightarrow> string" where
  "address_kind a =
     (if a \<le> 0xffef then ''individual'' else if a \<le> 0xfffb then ''reserved''
      else if a = 0xfffc then ''self_address'' else ''broadcast'')"

definition is_broadcast :: "u16 \<Rightarrow> bool" where
  "is_broadcast a \<longleftrightarrow> a \<ge> 0xfffd"

definition broadcast_confirm_policy :: "u16 \<Rightarrow> string option" where
  "broadcast_confirm_policy a =
     (if a = 0xfffd then Some ''not_required'' else if a = 0xfffe then Some ''required''
      else if a = 0xffff then Some ''optional'' else None)"

definition link_issue :: "u8 \<Rightarrow> u16 \<Rightarrow> u16 \<Rightarrow> nat \<Rightarrow> (error_code \<times> string) option" where
  "link_issue control source destination user_length =
     (let c = link_control_of control;
          supported = (if lc_primary c then lc_function c \<in> {0, 2, 3, 4, 9}
                       else lc_function c \<in> {0, 1, 11, 15});
          user_function = (lc_primary c \<and> lc_function c \<in> {3, 4})
      in if \<not> lc_primary c \<and> lc_reserved c = Some True
         then Some (ProtocolFraming, ''dnp3_secondary_reserved_control_bit'')
         else if \<not> supported
         then Some (UnsupportedTransport, ''dnp3_link_function_outside_subset'')
         else if lc_primary c \<and> lc_fcv c \<noteq> Some (lc_function c \<in> {2, 3})
         then Some (ProtocolFraming, ''dnp3_link_fcv_function_conflict'')
         else if address_kind source \<noteq> ''individual''
         then Some (ProtocolFraming, ''dnp3_non_individual_source_address'')
         else if address_kind destination = ''reserved''
         then Some (ProtocolFraming, ''dnp3_reserved_destination_address'')
         else if address_kind destination = ''self_address''
         then Some (UnsupportedTransport, ''dnp3_self_address_not_resolved'')
         else if is_broadcast destination \<and> (\<not> lc_direction c \<or> \<not> user_function)
         then Some (ProtocolFraming, ''dnp3_broadcast_direction_or_function_conflict'')
         else if user_function = (user_length = 0)
         then Some (ProtocolFraming, ''dnp3_link_function_length_conflict'')
         else None)"

section \<open>The block checksum\<close>

definition crc_step :: "u16 \<Rightarrow> u16" where
  "crc_step crc = (if crc AND 1 \<noteq> 0 then drop_bit 1 crc XOR 0xa6bc else drop_bit 1 crc)"

definition crc_byte :: "u16 \<Rightarrow> u8 \<Rightarrow> u16" where
  "crc_byte crc b = (crc_step ^^ 8) (crc XOR ucast b)"

definition crc16_dnp :: "bytes \<Rightarrow> u16" where
  "crc16_dnp data = NOT (foldl crc_byte 0 data)"

definition le16 :: "bytes \<Rightarrow> u16 result" where
  "le16 b = endian_u16 Little b"

section \<open>One link frame\<close>

definition div_ceil :: "nat \<Rightarrow> nat \<Rightarrow> nat" where
  "div_ceil n k = (n + (k - 1)) div k"

definition dnp3_total :: "nat \<Rightarrow> nat" where
  "dnp3_total data_len = 10 + data_len + 2 * div_ceil data_len 16"

text \<open>The loop over the data blocks: up to sixteen octets and their checksum.\<close>

function link_blocks ::
    "evidence \<Rightarrow> nat \<Rightarrow> bytes \<Rightarrow> nat \<Rightarrow> nat \<Rightarrow> evidence \<Rightarrow> evidence result" where
  "link_blocks bytes offset input p remaining user_data =
     (if remaining > 0 then
        let n = min remaining 16
        in and_then (range_at input p (p + n)) (\<lambda>block.
           and_then (range_at input (p + n) (p + n + 2)) (\<lambda>crc.
           and_then (le16 crc) (\<lambda>sum.
             if crc16_dnp block \<noteq> sum
             then Err (error_new ChecksumError 0 ''dnp3_data_crc'' ''data block CRC mismatch'')
             else
               and_then (ev_slice bytes (offset + p) (offset + p + n)) (\<lambda>piece.
               and_then (ev_append user_data piece 250) (\<lambda>user_data'.
                 link_blocks bytes offset input (p + n + 2) (remaining - n) user_data')))))
      else Ok user_data)"
  by pat_completeness auto
termination
  by (relation "measure (\<lambda>(bytes, offset, input, p, remaining, user_data). remaining)") auto

declare link_blocks.simps [simp del]

definition i64_of_usize :: "nat \<Rightarrow> int option" where
  "i64_of_usize n = (if n < 2 ^ 63 then Some (int n) else None)"

definition parse_link :: "evidence \<Rightarrow> nat \<Rightarrow> int \<Rightarrow> (link_frame \<times> nat) result" where
  "parse_link bytes offset stream_base =
     and_then (ok_or (error_limit ''stream_offset'') (i64_of_usize offset)) (\<lambda>off.
     and_then (ok_or (error_limit ''stream_offset'') (checked_add_i64 stream_base off)) (\<lambda>stream_offset.
     and_then (ok_or (error_new Truncated 0 ''dnp3'' ''offset beyond input'')
                 (get_range (ev_data bytes) offset (length (ev_data bytes)))) (\<lambda>input.
       if length input < 10
       then Err (error_new Truncated 0 ''dnp3_header'' ''need 10 octets'')
       else
         and_then (range_at input 0 2) (\<lambda>magic.
         if magic \<noteq> [0x05, 0x64]
         then Err (error_new ProtocolFraming 0 ''dnp3_magic'' ''not a DNP3 link frame'')
         else
           and_then (index_at input 2) (\<lambda>len.
           if len < 5
           then Err (error_new InvalidLength 0 ''dnp3_length'' ''length must include five fixed link octets'')
           else
             and_then (range_at input 0 8) (\<lambda>header.
             and_then (range_at input 8 10) (\<lambda>crc.
             and_then (le16 crc) (\<lambda>sum.
             if crc16_dnp header \<noteq> sum
             then Err (error_new ChecksumError 0 ''dnp3_header_crc'' ''header CRC mismatch'')
             else
               and_then (usub (unat len) 5) (\<lambda>data_len.
               let whole = dnp3_total data_len
               in if length input < whole
                  then Err (error_new Truncated 0 ''dnp3_frame''
                         ''frame extends beyond contiguous captured bytes'')
                  else
                    and_then (link_blocks bytes offset input 10 data_len evidence_default) (\<lambda>user_data.
                    and_then (index_at input 3) (\<lambda>control.
                    and_then (and_then (range_at input 6 8) le16) (\<lambda>source.
                    and_then (and_then (range_at input 4 6) le16) (\<lambda>destination.
                    and_then (ev_slice bytes offset (offset + whole)) (\<lambda>raw.
                      Ok (\<lparr>lf_stream_offset = stream_offset, lf_control = control,
                           lf_link_control = link_control_of control, lf_source = source,
                           lf_destination = destination, lf_broadcast = is_broadcast destination,
                           lf_user_data = user_data, lf_raw = raw\<rparr>, whole)))))))))))))))"

end
