(* ===== verification/Dnp3_Link_Correct.thy ===== *)
theory Dnp3_Link_Correct
  imports Dnp3_Link
begin

text \<open>
  The link parser against an encoder of link frames: it accepts exactly the encodings, and the user
  data it returns carries the provenance of each octet.
\<close>

section \<open>The wire format\<close>

text \<open>The octets of a frame's user data: blocks of up to sixteen, each followed by its checksum.\<close>

function encode_blocks :: "bytes \<Rightarrow> bytes" where
  "encode_blocks data =
     (if data = [] then []
      else take 16 data @ rev (be16_bytes (crc16_dnp (take 16 data))) @ encode_blocks (drop 16 data))"
  by pat_completeness auto
termination
  by (relation "measure length") auto

declare encode_blocks.simps [simp del]

definition link_header :: "u8 \<Rightarrow> u16 \<Rightarrow> u16 \<Rightarrow> nat \<Rightarrow> bytes" where
  "link_header control source destination n =
     [0x05, 0x64, word_of_nat (5 + n), control] @ rev (be16_bytes destination) @ rev (be16_bytes source)"

definition encode_link :: "u8 \<Rightarrow> u16 \<Rightarrow> u16 \<Rightarrow> bytes \<Rightarrow> bytes" where
  "encode_link control source destination data =
     (let h = link_header control source destination (length data)
      in h @ rev (be16_bytes (crc16_dnp h)) @ encode_blocks data)"

text \<open>The user data inside the blocks, of bytes or of traced bytes alike.\<close>

function block_data :: "nat \<Rightarrow> 'a list \<Rightarrow> 'a list" where
  "block_data n xs =
     (if n = 0 then [] else take (min n 16) xs @ block_data (n - min n 16) (drop (min n 16 + 2) xs))"
  by pat_completeness auto
termination
  by (relation "measure fst") auto

declare block_data.simps [simp del]

lemma block_data_0 [simp]: "block_data 0 xs = []"
  by (subst block_data.simps) simp

definition blocks_len :: "nat \<Rightarrow> nat" where
  "blocks_len n = n + 2 * div_ceil n 16"

lemma blocks_len_0 [simp]: "blocks_len 0 = 0"
  by (simp add: blocks_len_def div_ceil_def)

lemma blocks_len_step: "0 < n \<Longrightarrow> blocks_len n = min n 16 + 2 + blocks_len (n - min n 16)"
  by (cases "n \<le> 16") (auto simp: blocks_len_def div_ceil_def div_le_dividend le_div_geq)

lemma dnp3_total_blocks: "dnp3_total n = 10 + blocks_len n"
  by (simp add: dnp3_total_def blocks_len_def)

lemma block_data_length: "blocks_len n \<le> length xs \<Longrightarrow> length (block_data n xs) = n"
proof (induction n xs rule: block_data.induct)
  case (1 n xs)
  show ?case
  proof (cases "n = 0")
    case False
    then have "blocks_len n = min n 16 + 2 + blocks_len (n - min n 16)" by (rule blocks_len_step [OF neq0_conv [THEN iffD1]])
    then have "blocks_len (n - min n 16) \<le> length (drop (min n 16 + 2) xs)" "min n 16 \<le> length xs"
      using "1.prems" by (simp_all only: length_drop) linarith+
    then have "length (block_data (n - min n 16) (drop (min n 16 + 2) xs)) = n - min n 16" "min n 16 \<le> length xs"
      using "1.IH" False by blast+
    then show ?thesis using False by (subst block_data.simps) simp
  qed simp
qed

lemma block_data_map: "map f (block_data n xs) = block_data n (map f xs)"
proof (induction n xs rule: block_data.induct)
  case (1 n xs)
  show ?case
  proof (cases "n = 0")
    case False
    then show ?thesis using 1 by (subst (1 2) block_data.simps) (simp add: take_map drop_map)
  qed simp
qed

lemma encode_blocks_length: "length (encode_blocks data) = blocks_len (length data)"
proof (induction data rule: encode_blocks.induct)
  case (1 data)
  show ?case
  proof (cases "data = []")
    case False
    then have "length (encode_blocks data) = min (length data) 16 + 2 + blocks_len (length data - 16)"
      using 1 by (subst encode_blocks.simps) (simp add: min.commute)
    also have "length data - 16 = length data - min (length data) 16" by simp
    finally show ?thesis using False by (simp add: blocks_len_step)
  qed (simp add: encode_blocks.simps)
qed

text \<open>What is inside an encoding is the data.\<close>

lemma block_data_encode: "block_data (length data) (encode_blocks data @ rest) = data"
proof (induction data arbitrary: rest rule: encode_blocks.induct)
  case (1 data)
  show ?case
  proof (cases "data = []")
    case False
    let ?n = "min (length data) 16"
    have e: "encode_blocks data = take 16 data @ rev (be16_bytes (crc16_dnp (take 16 data))) @ encode_blocks (drop 16 data)"
      using False by (subst encode_blocks.simps) simp
    have t: "take ?n (encode_blocks data @ rest) = take 16 data" unfolding e by (simp add: min_def)
    have d: "drop (?n + 2) (encode_blocks data @ rest) = encode_blocks (drop 16 data) @ rest" unfolding e by (simp add: min.commute)
    have "block_data (length data) (encode_blocks data @ rest)
        = take 16 data @ block_data (length data - ?n) (encode_blocks (drop 16 data) @ rest)"
      using False by (subst block_data.simps) (simp only: t d length_0_conv if_False)
    also have "length data - ?n = length (drop 16 data)" by simp
    also have "block_data (length (drop 16 data)) (encode_blocks (drop 16 data) @ rest) = drop 16 data"
      using 1 False by simp
    finally show ?thesis by simp
  qed simp
qed

section \<open>The block loop\<close>

lemma le16_rev [simp]: "le16 (rev (be16_bytes w) @ xs) = Ok w" "le16 (rev (be16_bytes w)) = Ok w"
  by (simp_all add: le16_def be16_bytes_def be16_word_bytes)

lemma le16_Ok: "length xs = 2 \<Longrightarrow> \<exists>w. le16 xs = Ok w \<and> xs = rev (be16_bytes w)"
  by (cases xs; cases "tl xs") (auto simp: le16_def be16_bytes_word)

lemma link_blocks_spec:
  assumes "ev_validate e" "input = drop off (ev_data e)" "off \<le> length (ev_data e)" "p + blocks_len n \<le> length input"
    "ev_validate u" "ev_len u + n \<le> 250"
  shows "if take (blocks_len n) (drop p input) = encode_blocks (block_data n (drop p input))
     then \<exists>u'. link_blocks e off input p n u = Ok u' \<and> ev_validate u'
        \<and> ev_trace u' = ev_trace u @ block_data n (drop p (drop off (ev_trace e)))
     else link_blocks e off input p n u = Err (error_new ChecksumError 0 ''dnp3_data_crc'' ''data block CRC mismatch'')"
  using assms(4-)
proof (induction n arbitrary: p u rule: less_induct)
  case (less n)
  show ?case
  proof (cases "n = 0")
    case True
    then show ?thesis using less.prems by (simp add: link_blocks.simps encode_blocks.simps)
  next
    case False
    define m where "m = min n 16"
    have m: "0 < m" "m \<le> n" "m \<le> 16" "m < 16 \<longrightarrow> n = m" using False by (auto simp: m_def)
    have len: "blocks_len n = m + 2 + blocks_len (n - m)" using blocks_len_step False by (simp add: m_def)
    let ?blk = "sub_list input p (p + m)" and ?sum = "sub_list input (p + m) (p + m + 2)"
    have rng: "p + m + 2 \<le> length input" using less.prems(1) len by simp
    have r1: "(range_at input p (p + m) :: bytes result) = Ok ?blk"
      "(range_at input (p + m) (p + m + 2) :: bytes result) = Ok ?sum" using rng by simp_all
    obtain w where w: "le16 ?sum = Ok w" "?sum = rev (be16_bytes w)" using le16_Ok [of ?sum] rng by auto
    have blk: "?blk = take m (drop p input)" by (simp add: sub_list_def)
    have d: "block_data n (drop p xs) = take m (drop p xs) @ block_data (n - m) (drop (p + m + 2) xs)" for xs :: "'z list"
      using False by (subst block_data.simps) (simp add: m_def add.commute add.left_commute)
    let ?rest = "drop (p + m + 2) input" and ?D = "block_data n (drop p input)"
    let ?D' = "block_data (n - m) ?rest"
    have D: "?D = ?blk @ ?D'" "length ?blk = m" "length ?D' = n - m"
      using d [of input] blk rng less.prems(1) len by (simp_all add: block_data_length)
    have t16: "take 16 ?D = ?blk" "drop 16 ?D = ?D'"
    proof -
      have "m = 16 \<or> ?D' = []" using m(3,4) D(3) by (cases "m = 16") auto
      then show "take 16 ?D = ?blk" "drop 16 ?D = ?D'" using m(3) unfolding D(1) by (auto simp: D(2))
    qed
    have enc: "encode_blocks ?D = ?blk @ rev (be16_bytes (crc16_dnp ?blk)) @ encode_blocks ?D'"
      using D(1,2) m(1) t16 by (subst encode_blocks.simps) auto
    have cut: "take (blocks_len n) (drop p input) = ?blk @ ?sum @ take (blocks_len (n - m)) ?rest"
      unfolding len sub_list_def using rng
      by (simp add: take_add add.commute add.left_commute)
    have inj: "be16_bytes a = be16_bytes b \<longleftrightarrow> a = b" for a b
      by (metis le16_rev(2) outcome.inject(1))
    have cond: "take (blocks_len n) (drop p input) = encode_blocks ?D \<longleftrightarrow>
        crc16_dnp ?blk = w \<and> take (blocks_len (n - m)) ?rest = encode_blocks ?D'"
      unfolding cut enc w(2) by (auto simp: inj)
    have step: "link_blocks e off input p n u = (if crc16_dnp ?blk \<noteq> w
        then Err (error_new ChecksumError 0 ''dnp3_data_crc'' ''data block CRC mismatch'')
        else and_then (ev_slice e (off + p) (off + p + m)) (\<lambda>piece. and_then (ev_append u piece 250)
          (\<lambda>u'. link_blocks e off input (p + m + 2) (n - m) u')))"
      using False r1 w(1) by (subst link_blocks.simps) (simp add: Let_def m_def [symmetric])
    show ?thesis
    proof (cases "crc16_dnp ?blk = w")
      case False
      then show ?thesis using cond step by simp
    next
      case True
      have lens: "length (ev_trace e) = length (ev_data e)" "length (ev_trace u) = ev_len u"
        using assms(1) less.prems(2) by (simp_all add: ev_trace_length ev_len_def)
      have fit: "off + p + m \<le> length (ev_data e)" using rng assms(2,3) by simp
      obtain piece where pc: "ev_slice e (off + p) (off + p + m) = Ok piece" "ev_validate piece"
        "ev_trace piece = sub_list (ev_trace e) (off + p) (off + p + m)"
        using evidence.cut_ok [OF assms(1), of "off + p" "off + p + m"] fit lens by auto
      have pl: "length (ev_trace piece) = m" using pc(3) fit lens by simp
      obtain u1 where u1: "ev_append u piece 250 = Ok u1" "ev_validate u1" "ev_trace u1 = ev_trace u @ ev_trace piece"
        using evidence.join_ok [OF less.prems(2) pc(2), of 250] pl lens less.prems(3) m(2) by (auto simp: usize_limit_def)
      have l1: "ev_len u1 + (n - m) \<le> 250"
        using ev_trace_length [OF u1(2)] u1(3) pl lens less.prems(3) m(2) by (simp add: ev_len_def)
      have st: "link_blocks e off input p n u = link_blocks e off input (p + m + 2) (n - m) u1"
        using step True pc(1) u1(1) by simp
      have tr: "ev_trace u @ block_data n (drop p (drop off (ev_trace e)))
          = ev_trace u1 @ block_data (n - m) (drop (p + m + 2) (drop off (ev_trace e)))"
        using d [of "drop off (ev_trace e)"] u1(3) pc(3) by (simp add: sub_list_def add.commute add.left_commute)
      have "p + m + 2 + blocks_len (n - m) \<le> length input" using less.prems(1) len by simp
      from less.IH [OF _ this u1(2) l1] m(1,2) show ?thesis
        unfolding st cond tr using True by simp
    qed
  qed
qed


section \<open>Whole frames\<close>

lemma length_link_header [simp]: "length (link_header c src dst n) = 8"
  by (simp add: link_header_def)

lemma length_encode_link: "length (encode_link c src dst data) = dnp3_total (length data)"
  by (simp add: encode_link_def Let_def encode_blocks_length dnp3_total_blocks)

lemma list_ten:
  assumes "10 \<le> length xs"
  obtains b0 b1 b2 b3 b4 b5 b6 b7 b8 b9 rest where "xs = b0 # b1 # b2 # b3 # b4 # b5 # b6 # b7 # b8 # b9 # rest"
proof -
  obtain ys zs where "xs = ys @ zs" "length ys = 10" using assms by (metis append_take_drop_id length_take min.absorb2)
  moreover from this(2) obtain b0 b1 b2 b3 b4 b5 b6 b7 b8 b9 where "ys = [b0, b1, b2, b3, b4, b5, b6, b7, b8, b9]"
    by (auto simp: length_Suc_conv eval_nat_numeral)
  ultimately show ?thesis using that by simp
qed

text \<open>The parser after its header has been cut into octets.\<close>

lemma parse_link_header:
  assumes e: "ev_validate e" "off \<le> length (ev_data e)" "off < 2 ^ 63" "in_i64 (base + int off)"
    and input: "drop off (ev_data e) = b0 # b1 # b2 # b3 # b4 # b5 # b6 # b7 # b8 # b9 # rest"
  shows "parse_link e off base =
    (if [b0, b1] \<noteq> [0x05, 0x64] then Err (error_new ProtocolFraming 0 ''dnp3_magic'' ''not a DNP3 link frame'')
     else if b2 < 5 then Err (error_new InvalidLength 0 ''dnp3_length'' ''length must include five fixed link octets'')
     else if crc16_dnp [b0, b1, b2, b3, b4, b5, b6, b7] \<noteq> be16_word b9 b8
     then Err (error_new ChecksumError 0 ''dnp3_header_crc'' ''header CRC mismatch'')
     else if 10 + length rest < dnp3_total (unat b2 - 5)
     then Err (error_new Truncated 0 ''dnp3_frame'' ''frame extends beyond contiguous captured bytes'')
     else and_then (link_blocks e off (drop off (ev_data e)) 10 (unat b2 - 5) evidence_default) (\<lambda>user_data.
          and_then (ev_slice e off (off + dnp3_total (unat b2 - 5))) (\<lambda>raw.
            Ok (\<lparr>lf_stream_offset = base + int off, lf_control = b3, lf_link_control = link_control_of b3,
              lf_source = be16_word b7 b6, lf_destination = be16_word b5 b4,
              lf_broadcast = is_broadcast (be16_word b5 b4), lf_user_data = user_data, lf_raw = raw\<rparr>,
              dnp3_total (unat b2 - 5)))))"
proof -
  define inp where "inp = drop off (ev_data e)"
  have g: "get_range (ev_data e) off (length (ev_data e)) = Some inp"
    using e(2) by (simp add: get_range_def sub_list_def inp_def)
  have r: "(range_at inp 0 2 :: bytes result) = Ok [b0, b1]"
    "(range_at inp 0 8 :: bytes result) = Ok [b0, b1, b2, b3, b4, b5, b6, b7]"
    "(range_at inp 8 10 :: bytes result) = Ok [b8, b9]" "(range_at inp 6 8 :: bytes result) = Ok [b6, b7]"
    "(range_at inp 4 6 :: bytes result) = Ok [b4, b5]" "(index_at inp 2 :: u8 result) = Ok b2"
    "(index_at inp 3 :: u8 result) = Ok b3"
    using input by (simp_all add: inp_def [symmetric] range_at_def index_at_def sub_list_def eval_nat_numeral)
  have len: "length inp = 10 + length rest" using input by (simp add: inp_def [symmetric])
  have five: "usub (unat b2) 5 = (Ok (unat b2 - 5) :: nat result)" if "\<not> b2 < 5"
    using that by (simp add: word_less_nat_alt)
  have off: "i64_of_usize off = Some (int off)" "checked_add_i64 base (int off) = Some (base + int off)"
    using e(3,4) by (simp_all add: i64_of_usize_def checked_add_i64_def)
  show ?thesis
    unfolding parse_link_def off ok_or.simps and_then.simps g r len inp_def [symmetric]
    by (cases "b2 < 5") (simp_all add: le16_def five Let_def)
qed


lemma trace_data: "ev_validate e \<Longrightarrow> map fst (ev_trace e) = ev_data e"
  by (simp add: ev_trace_def length_ev_labels)

text \<open>Everything a parsed frame tells about the bytes it came from.\<close>

definition link_ok :: "evidence \<Rightarrow> nat \<Rightarrow> int \<Rightarrow> link_frame \<Rightarrow> nat \<Rightarrow> bool" where
  "link_ok e off base f n \<longleftrightarrow>
     (let data = ev_data (lf_user_data f)
      in length data \<le> 250 \<and> n = dnp3_total (length data) \<and> off + n \<le> length (ev_data e)
         \<and> take n (drop off (ev_data e)) = encode_link (lf_control f) (lf_source f) (lf_destination f) data
         \<and> ev_validate (lf_user_data f)
         \<and> ev_trace (lf_user_data f) = block_data (length data) (drop (off + 10) (ev_trace e))
         \<and> ev_validate (lf_raw f) \<and> ev_trace (lf_raw f) = sub_list (ev_trace e) off (off + n)
         \<and> lf_stream_offset f = base + int off \<and> lf_link_control f = link_control_of (lf_control f)
         \<and> lf_broadcast f = is_broadcast (lf_destination f))"

lemma parse_link_body:
  assumes e: "ev_validate e" "off \<le> length (ev_data e)" "off < 2 ^ 63" "in_i64 (base + int off)"
    and input: "drop off (ev_data e) = [0x05, 0x64, b2, b3, b4, b5, b6, b7, b8, b9] @ rest"
    and h: "\<not> b2 < 5" "crc16_dnp [0x05, 0x64, b2, b3, b4, b5, b6, b7] = be16_word b9 b8" "blocks_len (unat b2 - 5) \<le> length rest"
  shows "if take (blocks_len (unat b2 - 5)) rest = encode_blocks (block_data (unat b2 - 5) rest)
    then \<exists>f. parse_link e off base = Ok (f, dnp3_total (unat b2 - 5)) \<and> link_ok e off base f (dnp3_total (unat b2 - 5))
      \<and> lf_control f = b3 \<and> lf_source f = be16_word b7 b6 \<and> lf_destination f = be16_word b5 b4
      \<and> ev_data (lf_user_data f) = block_data (unat b2 - 5) rest
    else parse_link e off base = Err (error_new ChecksumError 0 ''dnp3_data_crc'' ''data block CRC mismatch'')"
proof -
  let ?n = "unat b2 - 5" and ?inp = "drop off (ev_data e)"
  have "unat b2 < 256" using unsigned_less [where w = b2] by simp
  then have n: "?n \<le> 250" by simp
  have ten: "drop 10 ?inp = rest" "length ?inp = 10 + length rest" by (simp_all add: input)
  have default_trace: "ev_trace evidence_default = []" by (simp add: ev_trace_def)
  have whole: "off + dnp3_total ?n \<le> length (ev_data e)"
    using ten(2) h(3) e(2) by (simp add: dnp3_total_blocks)
  have blocks: "if take (blocks_len ?n) rest = encode_blocks (block_data ?n rest)
     then \<exists>u'. link_blocks e off ?inp 10 ?n evidence_default = Ok u' \<and> ev_validate u'
        \<and> ev_trace u' = block_data ?n (drop (off + 10) (ev_trace e))
     else link_blocks e off ?inp 10 ?n evidence_default = Err (error_new ChecksumError 0 ''dnp3_data_crc'' ''data block CRC mismatch'')"
    using link_blocks_spec [OF e(1) refl e(2), of 10 ?n evidence_default] ten h(3) n default_trace
    by (auto simp: ev_len_def add.commute split: if_split_asm)
  obtain raw where raw: "ev_slice e off (off + dnp3_total ?n) = Ok raw" "ev_validate raw"
    "ev_trace raw = sub_list (ev_trace e) off (off + dnp3_total ?n)"
    using evidence.cut_ok [OF e(1), of off "off + dnp3_total ?n"] whole ev_trace_length [OF e(1)] by auto
  have P: "parse_link e off base = and_then (link_blocks e off ?inp 10 ?n evidence_default) (\<lambda>user_data.
            Ok (\<lparr>lf_stream_offset = base + int off, lf_control = b3, lf_link_control = link_control_of b3,
              lf_source = be16_word b7 b6, lf_destination = be16_word b5 b4,
              lf_broadcast = is_broadcast (be16_word b5 b4), lf_user_data = user_data, lf_raw = raw\<rparr>, dnp3_total ?n))"
    using parse_link_header [OF e, of "0x05" "0x64" b2 b3 b4 b5 b6 b7 b8 b9 rest] input h raw(1)
    by (simp add: dnp3_total_blocks)
  show ?thesis
  proof (cases "take (blocks_len ?n) rest = encode_blocks (block_data ?n rest)")
    case False
    then show ?thesis using blocks P by simp
  next
    case True
    then obtain u where u: "link_blocks e off ?inp 10 ?n evidence_default = Ok u" "ev_validate u"
      "ev_trace u = block_data ?n (drop (off + 10) (ev_trace e))" using blocks by auto
    have d: "ev_data u = block_data ?n rest"
    proof -
      have "ev_data u = map fst (ev_trace u)" using trace_data [OF u(2)] by simp
      also have "\<dots> = block_data ?n (drop (off + 10) (map fst (ev_trace e)))" by (simp add: u(3) block_data_map drop_map)
      also have "map fst (ev_trace e) = ev_data e" by (rule trace_data [OF e(1)])
      also have "drop (off + 10) (ev_data e) = rest" using ten(1) by (simp add: add.commute)
      finally show ?thesis .
    qed
    have len: "length (block_data ?n rest) = ?n" by (rule block_data_length [OF h(3)])
    have five: "word_of_nat (5 + ?n) = b2" using h(1) by (simp add: word_less_nat_alt)
    have head: "link_header b3 (be16_word b7 b6) (be16_word b5 b4) ?n = [0x05, 0x64, b2, b3, b4, b5, b6, b7]"
      unfolding link_header_def five by (simp add: be16_bytes_word)
    have "take (dnp3_total ?n) ?inp = encode_link b3 (be16_word b7 b6) (be16_word b5 b4) (block_data ?n rest)"
      unfolding encode_link_def Let_def len head input h(2) dnp3_total_blocks take_add
      using True by (simp add: be16_bytes_word)
    then show ?thesis
      using True P u raw d len n whole by (simp add: link_ok_def Let_def)
  qed
qed


lemma parse_link_cases:
  assumes e: "ev_validate e" "off \<le> length (ev_data e)" "off < 2 ^ 63" "in_i64 (base + int off)"
  shows "(\<exists>err. parse_link e off base = Err err) \<or> (\<exists>f n. parse_link e off base = Ok (f, n) \<and> link_ok e off base f n)"
proof (cases "length (drop off (ev_data e)) < 10")
  case True
  have "get_range (ev_data e) off (length (ev_data e)) = Some (drop off (ev_data e))"
    using e(2) by (simp add: get_range_def sub_list_def)
  with True e(3,4) show ?thesis by (simp add: parse_link_def i64_of_usize_def checked_add_i64_def)
next
  case False
  then obtain b0 b1 b2 b3 b4 b5 b6 b7 b8 b9 rest where
    inp: "drop off (ev_data e) = b0 # b1 # b2 # b3 # b4 # b5 # b6 # b7 # b8 # b9 # rest"
    by (rule list_ten [OF leI])
  show ?thesis
  proof (cases "[b0, b1] = [0x05, 0x64] \<and> \<not> b2 < 5 \<and> crc16_dnp [b0, b1, b2, b3, b4, b5, b6, b7] = be16_word b9 b8
      \<and> blocks_len (unat b2 - 5) \<le> length rest")
    case True
    then show ?thesis using parse_link_body [OF e, of b2 b3 b4 b5 b6 b7 b8 b9 rest] inp by (auto split: if_split_asm)
  next
    case False
    then show ?thesis unfolding parse_link_header [OF e inp] by (auto simp: dnp3_total_blocks)
  qed
qed

lemma encode_link_octets:
  assumes "length data \<le> 250"
  shows "\<exists>b2 b4 b5 b6 b7 b8 b9. encode_link c src dst data = [0x05, 0x64, b2, c, b4, b5, b6, b7, b8, b9] @ encode_blocks data
    \<and> \<not> b2 < 5 \<and> unat b2 - 5 = length data \<and> be16_word b7 b6 = src \<and> be16_word b5 b4 = dst
    \<and> crc16_dnp [0x05, 0x64, b2, c, b4, b5, b6, b7] = be16_word b9 b8"
proof -
  let ?b2 = "word_of_nat (5 + length data) :: u8"
  have u: "unat ?b2 = 5 + length data" using assms by (simp add: unsigned_of_nat take_bit_eq_mod del: of_nat_add)
  obtain d1 d0 where d: "be16_bytes dst = [d1, d0]" "be16_word d1 d0 = dst" by (simp add: be16_bytes_def be16_word_bytes)
  obtain s1 s0 where s: "be16_bytes src = [s1, s0]" "be16_word s1 s0 = src" by (simp add: be16_bytes_def be16_word_bytes)
  let ?h = "[0x05, 0x64, ?b2, c, d0, d1, s0, s1]"
  obtain c1 c0 where cr: "be16_bytes (crc16_dnp ?h) = [c1, c0]" "be16_word c1 c0 = crc16_dnp ?h"
    by (simp add: be16_bytes_def be16_word_bytes)
  have h: "link_header c src dst (length data) = ?h" by (simp add: link_header_def d s)
  have "encode_link c src dst data = [0x05, 0x64, ?b2, c, d0, d1, s0, s1, c0, c1] @ encode_blocks data"
    by (simp add: encode_link_def Let_def h cr(1) del: of_nat_add of_nat_numeral)
  moreover have "\<not> ?b2 < 5" "unat ?b2 - 5 = length data" using u by (simp_all add: word_less_nat_alt)
  ultimately show ?thesis using d(2) s(2) cr(2) by metis
qed

lemma parse_link_encoded:
  assumes e: "ev_validate e" "off \<le> length (ev_data e)" "off < 2 ^ 63" "in_i64 (base + int off)"
    and data: "length data \<le> 250" "drop off (ev_data e) = encode_link c src dst data @ rest"
  shows "\<exists>f. parse_link e off base = Ok (f, dnp3_total (length data)) \<and> lf_control f = c \<and> lf_source f = src
    \<and> lf_destination f = dst \<and> ev_data (lf_user_data f) = data"
proof -
  obtain b2 b4 b5 b6 b7 b8 b9 where b: "encode_link c src dst data = [0x05, 0x64, b2, c, b4, b5, b6, b7, b8, b9] @ encode_blocks data"
    "\<not> b2 < 5" "unat b2 - 5 = length data" "be16_word b7 b6 = src" "be16_word b5 b4 = dst"
    "crc16_dnp [0x05, 0x64, b2, c, b4, b5, b6, b7] = be16_word b9 b8"
    using encode_link_octets [OF data(1)] by blast
  have inp: "drop off (ev_data e) = [0x05, 0x64, b2, c, b4, b5, b6, b7, b8, b9] @ (encode_blocks data @ rest)"
    using data(2) b(1) by simp
  have "take (blocks_len (length data)) (encode_blocks data @ rest) = encode_blocks data"
    by (simp add: encode_blocks_length)
  moreover have "blocks_len (length data) \<le> length (encode_blocks data @ rest)" by (simp add: encode_blocks_length)
  ultimately show ?thesis
    using parse_link_body [OF e inp b(2) b(6)] b(3,4,5) by (auto simp: block_data_encode)
qed

section \<open>The round trip\<close>

text \<open>A sample: an unconfirmed message of seventeen octets, in two blocks.\<close>

definition sample_frame :: evidence where
  "sample_frame = from_packet (encode_link 0xc4 1 2 (replicate 17 7)) (PacketId [] 1 24) 54"

lemma sample_frame_valid: "ev_validate sample_frame" "ev_data sample_frame = encode_link 0xc4 1 2 (replicate 17 7)"
  by (simp_all add: sample_frame_def from_packet_valid length_encode_link dnp3_total_def div_ceil_def usize_limit_def)

text \<open>
  C10: The link parser accepts exactly the encodings of link frames.  It returns a frame with given
  control octet, addresses and user data, and consumes \<open>n\<close> octets, if and only if the input at the
  offset begins with the \<open>n\<close> octets of that frame's encoding: length octet, header checksum and a
  correct checksum behind every block of up to sixteen octets.\<close>

theorem link_frames_roundtrip:
  assumes "ev_validate e" and "off \<le> length (ev_data e)" and "off < 2 ^ 63" and "in_i64 (base + int off)"
  shows "(\<exists>f. parse_link e off base = Ok (f, n) \<and> lf_control f = c \<and> lf_source f = src \<and> lf_destination f = dst
      \<and> ev_data (lf_user_data f) = data)
    \<longleftrightarrow> length data \<le> 250 \<and> n = length (encode_link c src dst data)
        \<and> (\<exists>rest. drop off (ev_data e) = encode_link c src dst data @ rest)"
    (is "?l \<longleftrightarrow> ?r")
proof
  assume ?l
  then obtain f where f: "parse_link e off base = Ok (f, n)" "lf_control f = c" "lf_source f = src" "lf_destination f = dst"
    "ev_data (lf_user_data f) = data" by blast
  then have "link_ok e off base f n" using parse_link_cases [OF assms] by auto
  then have "length data \<le> 250" "n = dnp3_total (length data)" "take n (drop off (ev_data e)) = encode_link c src dst data"
    unfolding link_ok_def Let_def f(2-5) by (blast, blast, blast)
  then show ?r by (metis append_take_drop_id length_encode_link)
next
  assume ?r
  then show ?l using parse_link_encoded [OF assms, of data c src dst] by (auto simp: length_encode_link)
qed

theorem link_frames_roundtrip_witness:
  "\<exists>f n. parse_link sample_frame 0 100 = Ok (f, n) \<and> lf_source f = 1 \<and> ev_data (lf_user_data f) = replicate 17 7"
proof -
  have "in_i64 (100 + int 0)" by (simp add: in_i64_def)
  from link_frames_roundtrip [OF sample_frame_valid(1) _ _ this,
      of "length (encode_link 0xc4 1 2 (replicate 17 7))" "0xc4" 1 2 "replicate 17 7"]
  show ?thesis by (auto simp: sample_frame_valid(2))
qed

section \<open>Function codes\<close>

text \<open>The wire value of a function code.\<close>

fun to_wire :: "function_code \<Rightarrow> u8" where
  "to_wire FcConfirm = 0x00"
| "to_wire FcRead = 0x01"
| "to_wire FcWrite = 0x02"
| "to_wire FcSelect = 0x03"
| "to_wire FcOperate = 0x04"
| "to_wire FcDirectOperate = 0x05"
| "to_wire FcDirectOperateNoResponse = 0x06"
| "to_wire FcImmediateFreeze = 0x07"
| "to_wire FcImmediateFreezeNoResponse = 0x08"
| "to_wire FcFreezeClear = 0x09"
| "to_wire FcFreezeClearNoResponse = 0x0a"
| "to_wire FcFreezeAtTime = 0x0b"
| "to_wire FcFreezeAtTimeNoResponse = 0x0c"
| "to_wire FcColdRestart = 0x0d"
| "to_wire FcWarmRestart = 0x0e"
| "to_wire FcInitializeData = 0x0f"
| "to_wire FcInitializeApplication = 0x10"
| "to_wire FcStartApplication = 0x11"
| "to_wire FcStopApplication = 0x12"
| "to_wire FcSaveConfiguration = 0x13"
| "to_wire FcEnableUnsolicited = 0x14"
| "to_wire FcDisableUnsolicited = 0x15"
| "to_wire FcAssignClass = 0x16"
| "to_wire FcDelayMeasure = 0x17"
| "to_wire FcRecordCurrentTime = 0x18"
| "to_wire FcOpenFile = 0x19"
| "to_wire FcCloseFile = 0x1a"
| "to_wire FcDeleteFile = 0x1b"
| "to_wire FcGetFileInfo = 0x1c"
| "to_wire FcAuthenticateFile = 0x1d"
| "to_wire FcAbortFile = 0x1e"
| "to_wire FcActivateConfiguration = 0x1f"
| "to_wire FcAuthRequest = 0x20"
| "to_wire FcAuthRequestNoAck = 0x21"
| "to_wire FcResponse = 0x81"
| "to_wire FcUnsolicitedResponse = 0x82"
| "to_wire FcAuthResponse = 0x83"
| "to_wire (FcUnknown f) = f"

lemma to_wire_from_wire: "to_wire (from_wire f) = f"
  by (simp add: from_wire_def)

end
