(* ===== verification/Probes.thy ===== *)
theory Probes
  imports Dnp3_Link_Correct
begin

text \<open>
  Protocol probes (\<^verbatim>\<open>protocol.rs\<close>): advisory, bounded inspection of a contiguous prefix.  A probe is a record
  of its name and its function, as the trait \<^verbatim>\<open>ProtocolProbe\<close> has them, since callers may register their own;
  what the registry checks of a probe's answer is the locale \<open>protocol_probe\<close>, which both built-in probes
  satisfy.
\<close>

section \<open>Probes and the registry\<close>

datatype probe_transport = ProbeTcp | ProbeUdp

datatype probe_strength = HeaderStructure | CompleteFrameChecksums

datatype probe_result =
    NoMatch
  | NeedTotal nat
  | ProbeMatch string probe_strength nat string

record probe_observation =
  po_probe :: string
  po_result :: probe_result

record probe_input =
  pi_transport :: probe_transport
  pi_source_port :: u16
  pi_destination_port :: u16
  pi_prefix :: bytes

record probe =
  pr_name :: string
  pr_probe :: "probe_input \<Rightarrow> probe_result result"

record probe_registry =
  rg_probes :: "probe list"
  rg_max_probes :: nat
  rg_max_prefix_bytes :: nat

definition registry_new :: "nat \<Rightarrow> nat \<Rightarrow> probe_registry result" where
  "registry_new max_probes max_prefix_bytes =
     (if max_probes = 0 \<or> max_prefix_bytes = 0
      then Err (error_new Usage 0 ''protocol_probe_limits'' ''limits must be positive'')
      else Ok \<lparr>rg_probes = [], rg_max_probes = max_probes, rg_max_prefix_bytes = max_prefix_bytes\<rparr>)"

definition registry_register :: "probe_registry \<Rightarrow> probe \<Rightarrow> probe_registry result" where
  "registry_register rg p =
     (if pr_name p = [] \<or> (\<exists>q \<in> set (rg_probes rg). pr_name q = pr_name p)
      then Err (error_new Usage 0 ''protocol_probe'' ''probe names must be nonempty and unique'')
      else if length (rg_probes rg) \<ge> rg_max_probes rg then Err (error_limit ''protocol_probes'')
      else Ok (rg\<lparr>rg_probes := rg_probes rg @ [p]\<rparr>))"

text \<open>The check of one answer; the match arms in the order of the code.\<close>

definition check_answer :: "probe_registry \<Rightarrow> bytes \<Rightarrow> probe_result \<Rightarrow> unit result" where
  "check_answer rg prefix answer =
     (case answer of
        NeedTotal total_bytes \<Rightarrow>
          if total_bytes \<le> length prefix
          then Err (error_new Invariant 0 ''protocol_probe'' ''NeedMore must require strictly more input'')
          else if total_bytes > rg_max_prefix_bytes rg then Err (error_limit ''protocol_probe_prefix'')
          else Ok ()
      | ProbeMatch protocol _ examined _ \<Rightarrow>
          if examined = 0 \<or> examined > length prefix \<or> protocol = []
          then Err (error_new Invariant 0 ''protocol_probe'' ''invalid successful probe extent or protocol name'')
          else Ok ()
      | NoMatch \<Rightarrow> Ok ())"

definition inspect_one :: "probe_registry \<Rightarrow> probe_input \<Rightarrow> probe_observation list \<Rightarrow> probe \<Rightarrow> probe_observation list result" where
  "inspect_one rg inp out p =
     and_then (pr_probe p inp) (\<lambda>answer.
     and_then (check_answer rg (pi_prefix inp) answer) (\<lambda>_.
       Ok (out @ [\<lparr>po_probe = pr_name p, po_result = answer\<rparr>])))"

definition registry_inspect :: "probe_registry \<Rightarrow> probe_input \<Rightarrow> probe_observation list result" where
  "registry_inspect rg inp =
     (if length (pi_prefix inp) > rg_max_prefix_bytes rg then Err (error_limit ''protocol_probe_prefix'')
      else for_each (inspect_one rg inp) [] (rg_probes rg))"

section \<open>The DNP3 probe\<close>

function probe_blocks :: "bytes \<Rightarrow> nat \<Rightarrow> nat \<Rightarrow> bool result" where
  "probe_blocks b at remaining =
     (if remaining > 0 then
        let count = min remaining 16
        in and_then (range_at b at (at + count)) (\<lambda>block.
           and_then (index_at b (at + count)) (\<lambda>lo.
           and_then (index_at b (at + count + 1)) (\<lambda>hi.
             if crc16_dnp block \<noteq> be16_word hi lo then Ok False
             else probe_blocks b (at + count + 2) (remaining - count))))
      else Ok True)"
  by pat_completeness auto
termination
  by (relation "measure (\<lambda>(b, at, remaining). remaining)") auto

declare probe_blocks.simps [simp del]

definition dnp3_probe_prefix :: "bytes \<Rightarrow> probe_result result" where
  "dnp3_probe_prefix b =
     (if b = [] then Ok (NeedTotal 2)
      else and_then (index_at b 0) (\<lambda>b0.
      if b0 \<noteq> 0x05 then Ok NoMatch
      else if length b < 2 then Ok (NeedTotal 2)
      else and_then (index_at b 1) (\<lambda>b1.
      if b1 \<noteq> 0x64 then Ok NoMatch
      else if length b < 3 then Ok (NeedTotal 3)
      else and_then (index_at b 2) (\<lambda>b2.
      if b2 < 5 then Ok NoMatch
      else if length b < 10 then Ok (NeedTotal 10)
      else and_then (range_at b 0 8) (\<lambda>header.
      and_then (index_at b 8) (\<lambda>lo.
      and_then (index_at b 9) (\<lambda>hi.
      if crc16_dnp header \<noteq> be16_word hi lo then Ok NoMatch
      else and_then (usub (unat b2) 5) (\<lambda>user_len.
      let whole = 10 + user_len + 2 * div_ceil user_len 16
      in if length b < whole then Ok (NeedTotal whole)
         else and_then (probe_blocks b 10 user_len) (\<lambda>valid.
           Ok (if valid
               then ProbeMatch ''dnp3'' CompleteFrameChecksums whole
                      ''complete_link_frame_with_valid_header_and_data_crcs''
               else NoMatch))))))))))"

definition dnp3_probe :: probe where
  "dnp3_probe = \<lparr>pr_name = ''dnp3_link_crc'', pr_probe = (\<lambda>inp. dnp3_probe_prefix (pi_prefix inp))\<rparr>"

section \<open>The Modbus probe\<close>

definition modbus_probe_input :: "probe_input \<Rightarrow> probe_result result" where
  "modbus_probe_input inp =
     (if pi_transport inp \<noteq> ProbeTcp then Ok NoMatch
      else let b = pi_prefix inp
      in if length b < 4 then Ok (NeedTotal 4)
      else and_then (range_at b 2 4) (\<lambda>proto.
      if proto \<noteq> [0, 0] then Ok NoMatch
      else if length b < 6 then Ok (NeedTotal 6)
      else and_then (index_at b 4) (\<lambda>hi.
      and_then (index_at b 5) (\<lambda>lo.
      let len = unat (be16_word hi lo)
      in if \<not> (2 \<le> len \<and> len \<le> 254) then Ok NoMatch
         else let whole = 6 + len
         in if length b < whole then Ok (NeedTotal whole)
         else and_then (index_at b 7) (\<lambda>f.
           if f AND 0x7f = 0 then Ok NoMatch
           else Ok (ProbeMatch ''modbus'' HeaderStructure whole
                  ''plausible_complete_mbap_frame_not_a_unique_protocol_signature''))))))"

definition modbus_probe :: probe where
  "modbus_probe = \<lparr>pr_name = ''modbus_tcp_mbap'', pr_probe = modbus_probe_input\<rparr>"

definition registry_builtins :: "probe_registry result" where
  "registry_builtins =
     and_then (registry_new 16 4096) (\<lambda>r0.
     and_then (registry_register r0 dnp3_probe) (\<lambda>r1.
       registry_register r1 modbus_probe))"

section \<open>What a probe promises\<close>

text \<open>
  A probe answers about the prefix it was given, and only if it asks for more does its answer depend on what
  may follow.  \<open>reach\<close> bounds how many bytes it may ask for.
\<close>

definition answer_ok :: "nat \<Rightarrow> bytes \<Rightarrow> probe_result \<Rightarrow> bool" where
  "answer_ok reach prefix answer \<longleftrightarrow> (case answer of
      NoMatch \<Rightarrow> True
    | NeedTotal n \<Rightarrow> length prefix < n \<and> n \<le> reach
    | ProbeMatch protocol _ n _ \<Rightarrow> protocol \<noteq> [] \<and> 0 < n \<and> n \<le> length prefix \<and> n \<le> reach)"

locale protocol_probe =
  fixes p :: probe and reach :: nat
  assumes named: "pr_name p \<noteq> []"
    and answers: "\<exists>answer. pr_probe p inp = Ok answer \<and> answer_ok reach (pi_prefix inp) answer"
    and settled: "pr_probe p inp = Ok answer \<Longrightarrow> (\<And>n. answer \<noteq> NeedTotal n)
      \<Longrightarrow> pr_probe p (inp\<lparr>pi_prefix := pi_prefix inp @ rest\<rparr>) = Ok answer"
begin

lemma inspect_answer:
  assumes "reach \<le> rg_max_prefix_bytes rg" and "pr_probe p inp = Ok answer"
  shows "inspect_one rg inp out p = Ok (out @ [\<lparr>po_probe = pr_name p, po_result = answer\<rparr>])"
proof -
  have "answer_ok reach (pi_prefix inp) answer" using answers [of inp] assms(2) by auto
  then have "check_answer rg (pi_prefix inp) answer = Ok ()"
    using assms(1) by (auto simp: check_answer_def answer_ok_def split: probe_result.splits)
  with assms(2) show ?thesis by (simp add: inspect_one_def)
qed

text \<open>What a probe says of a long prefix it says of its first \<open>reach\<close> bytes.\<close>

lemma answer_of_take:
  assumes "reach \<le> n"
  shows "pr_probe p (inp\<lparr>pi_prefix := take n b\<rparr>) = pr_probe p (inp\<lparr>pi_prefix := b\<rparr>)"
proof (cases "length b \<le> n")
  case False
  obtain answer where a: "pr_probe p (inp\<lparr>pi_prefix := take n b\<rparr>) = Ok answer" "answer_ok reach (take n b) answer"
    using answers [of "inp\<lparr>pi_prefix := take n b\<rparr>"] by auto
  have "answer \<noteq> NeedTotal k" for k using a(2) False assms by (auto simp: answer_ok_def)
  from settled [OF a(1) this, of "drop n b"] a(1) show ?thesis by simp
qed simp

end

end
