(* ===== verification/Probes_Correct.thy ===== *)
theory Probes_Correct
  imports Probes
begin

text \<open>
  The built-in probes keep the promises of \<open>protocol_probe\<close>, the DNP3 probe agrees with the link parser, and
  the built-in registry answers every prefix within its bound.
\<close>

section \<open>The DNP3 probe\<close>

lemma be16_bytes_inj: "be16_bytes a = be16_bytes b \<longleftrightarrow> a = b"
  by (metis le16_rev(2) outcome.inject(1))

lemma probe_blocks_spec:
  "at + blocks_len n \<le> length b \<Longrightarrow>
   probe_blocks b at n = Ok (take (blocks_len n) (drop at b) = encode_blocks (block_data n (drop at b)))"
proof (induction n arbitrary: at rule: less_induct)
  case (less n)
  show ?case
  proof (cases "n = 0")
    case True
    then show ?thesis by (simp add: probe_blocks.simps encode_blocks.simps)
  next
    case False
    define m where "m = min n 16"
    have m: "0 < m" "m \<le> n" "m \<le> 16" "m < 16 \<longrightarrow> n = m" using False by (auto simp: m_def)
    have len: "blocks_len n = m + 2 + blocks_len (n - m)" using blocks_len_step False by (simp add: m_def)
    let ?blk = "sub_list b at (at + m)" and ?rest = "drop (at + m + 2) b"
    let ?D = "block_data n (drop at b)" and ?D' = "block_data (n - m) ?rest"
    have rng: "at + m + 2 \<le> length b" using less.prems len by simp
    have sum: "sub_list b (at + m) (at + m + 2) = [b ! (at + m), b ! (at + m + 1)]"
      using rng by (simp add: sub_list_def drop_two)
    have blk: "?blk = take m (drop at b)" "length ?blk = m" using rng by (simp_all add: sub_list_def)
    have "?D = ?blk @ ?D'"
      using False blk(1) by (subst block_data.simps) (simp add: m_def add.commute add.left_commute)
    moreover have "length ?D' = n - m" using less.prems len rng by (simp add: block_data_length)
    ultimately have D: "?D = ?blk @ ?D'" "length ?D' = n - m" by blast+
    have t16: "take 16 ?D = ?blk" "drop 16 ?D = ?D'"
    proof -
      have "m = 16 \<or> ?D' = []" using m(3,4) D(2) by (cases "m = 16") auto
      then show "take 16 ?D = ?blk" "drop 16 ?D = ?D'" using m(3) unfolding D(1) by (auto simp: blk(2))
    qed
    have enc: "encode_blocks ?D = ?blk @ rev (be16_bytes (crc16_dnp ?blk)) @ encode_blocks ?D'"
      using D(1) blk(2) m(1) t16 by (subst encode_blocks.simps) auto
    have cut: "take (blocks_len n) (drop at b) = ?blk @ sub_list b (at + m) (at + m + 2) @ take (blocks_len (n - m)) ?rest"
      unfolding len sub_list_def using rng by (simp add: take_add add.commute add.left_commute)
    have cond: "take (blocks_len n) (drop at b) = encode_blocks ?D \<longleftrightarrow>
        crc16_dnp ?blk = be16_word (b ! (at + m + 1)) (b ! (at + m)) \<and> take (blocks_len (n - m)) ?rest = encode_blocks ?D'"
    proof -
      have "[b ! (at + m), b ! (at + m + 1)] = rev (be16_bytes (be16_word (b ! (at + m + 1)) (b ! (at + m))))"
        by (simp add: be16_bytes_word)
      then show ?thesis unfolding cut enc sum by (auto simp: be16_bytes_inj)
    qed
    have "at + m + 2 + blocks_len (n - m) \<le> length b" using less.prems len by simp
    with less.IH [of "n - m" "at + m + 2"] m(1,2) rng False show ?thesis
      unfolding cond by (subst probe_blocks.simps) (simp add: Let_def flip: m_def)
  qed
qed

text \<open>The answer to a prefix that has a whole header.\<close>

lemma dnp3_probe_header:
  "dnp3_probe_prefix (b0 # b1 # b2 # b3 # b4 # b5 # b6 # b7 # b8 # b9 # rest) = Ok
    (if b0 \<noteq> 0x05 \<or> b1 \<noteq> 0x64 \<or> b2 < 5 \<or> crc16_dnp [b0, b1, b2, b3, b4, b5, b6, b7] \<noteq> be16_word b9 b8 then NoMatch
     else if length rest < blocks_len (unat b2 - 5) then NeedTotal (10 + blocks_len (unat b2 - 5))
     else if take (blocks_len (unat b2 - 5)) rest = encode_blocks (block_data (unat b2 - 5) rest)
     then ProbeMatch ''dnp3'' CompleteFrameChecksums (10 + blocks_len (unat b2 - 5))
            ''complete_link_frame_with_valid_header_and_data_crcs''
     else NoMatch)"
proof -
  let ?b = "b0 # b1 # b2 # b3 # b4 # b5 # b6 # b7 # b8 # b9 # rest"
  have r: "(range_at ?b 0 8 :: bytes result) = Ok [b0, b1, b2, b3, b4, b5, b6, b7]"
    "(index_at ?b 8 :: u8 result) = Ok b8" "(index_at ?b 9 :: u8 result) = Ok b9"
    by (simp_all add: range_at_def index_at_def)
  have five: "usub (unat b2) 5 = (Ok (unat b2 - 5) :: nat result)" if "\<not> b2 < 5"
    using that by (simp add: word_less_nat_alt)
  have total: "10 + (unat b2 - 5) + 2 * div_ceil (unat b2 - 5) 16 = 10 + blocks_len (unat b2 - 5)"
    by (simp add: blocks_len_def)
  have "probe_blocks ?b 10 (unat b2 - 5)
      = Ok (take (blocks_len (unat b2 - 5)) rest = encode_blocks (block_data (unat b2 - 5) rest))"
    if "blocks_len (unat b2 - 5) \<le> length rest"
    using probe_blocks_spec [of 10 "unat b2 - 5" ?b] that by simp
  then show ?thesis
    unfolding dnp3_probe_prefix_def r by (auto simp: index_at_def five total blocks_len_def [symmetric] Let_def)
qed

lemma blocks_len_bound: "n \<le> 250 \<Longrightarrow> blocks_len n \<le> 282"
proof -
  assume "n \<le> 250"
  then have "div_ceil n 16 \<le> div_ceil 250 16" unfolding div_ceil_def by (intro div_le_mono) simp
  then show ?thesis using \<open>n \<le> 250\<close> by (simp add: blocks_len_def div_ceil_def)
qed

text \<open>Shorter prefixes.\<close>

lemma dnp3_probe_short:
  assumes "length b < 10"
  shows "\<exists>answer. dnp3_probe_prefix b = Ok answer \<and> (answer = NoMatch \<or> (\<exists>n. answer = NeedTotal n \<and> length b < n \<and> n \<le> 10))
    \<and> (answer = NoMatch \<longrightarrow> dnp3_probe_prefix (b @ rest) = Ok NoMatch)"
proof -
  consider "b = []" | b0 where "b = [b0]" | b0 b1 where "b = [b0, b1]" | b0 b1 b2 c where "b = b0 # b1 # b2 # c"
    by (metis list.exhaust)
  then show ?thesis
    by cases (use assms in \<open>auto simp: dnp3_probe_prefix_def index_at_def\<close>)
qed

lemma dnp3_probe_answers: "\<exists>answer. dnp3_probe_prefix b = Ok answer \<and> answer_ok 292 b answer"
proof (cases "length b < 10")
  case True
  with dnp3_probe_short [OF this, of "[]"] show ?thesis by (auto simp: answer_ok_def)
next
  case False
  then obtain b0 b1 b2 b3 b4 b5 b6 b7 b8 b9 rest where b: "b = b0 # b1 # b2 # b3 # b4 # b5 # b6 # b7 # b8 # b9 # rest"
    by (rule list_ten [OF leI])
  have "unat b2 < 2 ^ LENGTH(8)" by (rule unsigned_less)
  then have "unat b2 - 5 \<le> 250" by simp
  from blocks_len_bound [OF this] show ?thesis unfolding b dnp3_probe_header by (auto simp: answer_ok_def)
qed

lemma block_data_append: "blocks_len n \<le> length xs \<Longrightarrow> block_data n (xs @ ys) = block_data n xs"
proof (induction n xs rule: block_data.induct)
  case (1 n xs)
  show ?case
  proof (cases "n = 0")
    case False
    then have len: "blocks_len n = min n 16 + 2 + blocks_len (n - min n 16)" by (intro blocks_len_step) simp
    then have "blocks_len (n - min n 16) \<le> length (drop (min n 16 + 2) xs)" "min n 16 + 2 \<le> length xs"
      using "1.prems" by (simp_all only: length_drop) linarith+
    with "1.IH" [OF False] False show ?thesis by (subst (1 2) block_data.simps) simp
  qed simp
qed

lemma dnp3_probe_settled:
  assumes "dnp3_probe_prefix b = Ok answer" "\<And>n. answer \<noteq> NeedTotal n"
  shows "dnp3_probe_prefix (b @ more_bytes) = Ok answer"
proof (cases "length b < 10")
  case True
  with dnp3_probe_short [OF this, of more_bytes] assms show ?thesis by auto
next
  case False
  then obtain b0 b1 b2 b3 b4 b5 b6 b7 b8 b9 rest where b: "b = b0 # b1 # b2 # b3 # b4 # b5 # b6 # b7 # b8 # b9 # rest"
    by (rule list_ten [OF leI])
  show ?thesis
    using assms unfolding b append_Cons dnp3_probe_header by (auto simp: block_data_append split: if_split_asm)
qed

interpretation dnp3_pr: protocol_probe dnp3_probe 292
  by unfold_locales (auto simp: dnp3_probe_def dnp3_probe_answers intro: dnp3_probe_settled)

section \<open>The Modbus probe\<close>

lemma modbus_probe_answers: "\<exists>answer. modbus_probe_input inp = Ok answer \<and> answer_ok 260 (pi_prefix inp) answer"
  by (auto simp: modbus_probe_input_def Let_def answer_ok_def)

lemma modbus_probe_settled:
  assumes "modbus_probe_input inp = Ok answer" "\<And>n. answer \<noteq> NeedTotal n"
  shows "modbus_probe_input (inp\<lparr>pi_prefix := pi_prefix inp @ more_bytes\<rparr>) = Ok answer"
  using assms by (auto simp: modbus_probe_input_def Let_def sub_list_append nth_append split: if_split_asm)

interpretation modbus_pr: protocol_probe modbus_probe 260
  by unfold_locales (auto simp: modbus_probe_def modbus_probe_answers intro: modbus_probe_settled)

section \<open>Agreement with the link parser\<close>

lemma dnp3_probe_parses:
  assumes "ev_validate e" and "in_i64 base"
  shows "dnp3_probe_prefix (ev_data e) = Ok (ProbeMatch name s n r)
    \<longleftrightarrow> name = ''dnp3'' \<and> s = CompleteFrameChecksums \<and> r = ''complete_link_frame_with_valid_header_and_data_crcs''
      \<and> (\<exists>f. parse_link e 0 base = Ok (f, n))"
proof (cases "length (ev_data e) < 10")
  case True
  then have "parse_link e 0 base = Err (error_new Truncated 0 ''dnp3_header'' ''need 10 octets'')"
    using assms(2) by (simp add: parse_link_def i64_of_usize_def checked_add_i64_def get_range_def)
  then show ?thesis using dnp3_probe_short [OF True, of "[]"] by auto
next
  case False
  then obtain b0 b1 b2 b3 b4 b5 b6 b7 b8 b9 rest where
    b: "ev_data e = b0 # b1 # b2 # b3 # b4 # b5 # b6 # b7 # b8 # b9 # rest"
    by (rule list_ten [OF leI])
  have pre: "0 \<le> length (ev_data e)" "(0 :: nat) < 2 ^ 63" "in_i64 (base + int 0)" using assms(2) by simp_all
  have inp: "drop 0 (ev_data e) = b0 # b1 # b2 # b3 # b4 # b5 # b6 # b7 # b8 # b9 # rest" using b by simp
  show ?thesis
  proof (cases "b0 = 0x05 \<and> b1 = 0x64 \<and> \<not> b2 < 5 \<and> crc16_dnp [b0, b1, b2, b3, b4, b5, b6, b7] = be16_word b9 b8
      \<and> blocks_len (unat b2 - 5) \<le> length rest")
    case True
    then show ?thesis
      using parse_link_body [OF assms(1) pre, of b2 b3 b4 b5 b6 b7 b8 b9 rest] inp
      unfolding b dnp3_probe_header by (auto simp: dnp3_total_blocks split: if_split_asm)
  next
    case False
    then show ?thesis
      unfolding parse_link_header [OF assms(1) pre inp] unfolding b dnp3_probe_header by (auto simp: dnp3_total_blocks)
  qed
qed

section \<open>The built-in registry\<close>

definition builtins :: probe_registry where
  "builtins = \<lparr>rg_probes = [dnp3_probe, modbus_probe], rg_max_probes = 16, rg_max_prefix_bytes = 4096\<rparr>"

lemma registry_builtins_ok: "registry_builtins = Ok builtins"
  by (simp add: registry_builtins_def registry_new_def registry_register_def builtins_def dnp3_probe_def modbus_probe_def)

lemma builtins_inspect:
  assumes "length (pi_prefix inp) \<le> 4096"
  shows "\<exists>a b. dnp3_probe_prefix (pi_prefix inp) = Ok a \<and> modbus_probe_input inp = Ok b
    \<and> registry_inspect builtins inp = Ok [\<lparr>po_probe = ''dnp3_link_crc'', po_result = a\<rparr>, \<lparr>po_probe = ''modbus_tcp_mbap'', po_result = b\<rparr>]"
proof -
  obtain a b where ab: "dnp3_probe_prefix (pi_prefix inp) = Ok a" "modbus_probe_input inp = Ok b"
    using dnp3_probe_answers modbus_probe_answers by blast
  then have "pr_probe dnp3_probe inp = Ok a" "pr_probe modbus_probe inp = Ok b"
    by (simp_all add: dnp3_probe_def modbus_probe_def)
  from dnp3_pr.inspect_answer [OF _ this(1), of builtins] modbus_pr.inspect_answer [OF _ this(2), of builtins]
  have "\<And>out. inspect_one builtins inp out dnp3_probe = Ok (out @ [\<lparr>po_probe = ''dnp3_link_crc'', po_result = a\<rparr>])"
    "\<And>out. inspect_one builtins inp out modbus_probe = Ok (out @ [\<lparr>po_probe = ''modbus_tcp_mbap'', po_result = b\<rparr>])"
    by (simp_all add: builtins_def) (simp_all add: dnp3_probe_def modbus_probe_def)
  then show ?thesis using ab assms by (simp add: registry_inspect_def builtins_def)
qed

end
