(* ===== verification/Ordered_Map.thy ===== *)
theory Ordered_Map
  imports Prelude
begin

text \<open>
  \<^verbatim>\<open>BTreeMap\<close> and \<^verbatim>\<open>BTreeSet\<close> of the Rust standard library, as the code uses them: \<^verbatim>\<open>get\<close>,
  \<^verbatim>\<open>insert\<close>, \<^verbatim>\<open>remove\<close>, \<^verbatim>\<open>len\<close>, and iteration in ascending key order.  The contract is the locale
  \<open>ordered_map\<close>; the implementation, on association lists sorted by key, is interpreted at
  the end, and the components work with its facts.
\<close>

locale ordered_map =
  fixes get :: "'m \<Rightarrow> 'k::linorder \<Rightarrow> 'v option"
    and put :: "'k \<Rightarrow> 'v \<Rightarrow> 'm \<Rightarrow> 'm"
    and del :: "'k \<Rightarrow> 'm \<Rightarrow> 'm"
    and entries :: "'m \<Rightarrow> ('k \<times> 'v) list"
    and ordered :: "'m \<Rightarrow> bool"
  assumes get_put: "ordered m \<Longrightarrow> get (put k v m) k' = (if k' = k then Some v else get m k')"
    and get_del: "ordered m \<Longrightarrow> get (del k m) k' = (if k' = k then None else get m k')"
    and get_entries: "ordered m \<Longrightarrow> get m k = Some v \<longleftrightarrow> (k, v) \<in> set (entries m)"
    and ordered_entries: "ordered m \<Longrightarrow> sorted_wrt (<) (map fst (entries m))"
    and ordered_put: "ordered m \<Longrightarrow> ordered (put k v m)"
    and ordered_del: "ordered m \<Longrightarrow> ordered (del k m)"
begin

lemma distinct_keys: "ordered m \<Longrightarrow> distinct (map fst (entries m))"
  using ordered_entries strict_sorted_iff by blast

lemma keys_dom: "ordered m \<Longrightarrow> set (map fst (entries m)) = {k. get m k \<noteq> None}"
  by (force simp: get_entries)

lemma put_keys:
  "ordered m \<Longrightarrow> set (map fst (entries (put k v m))) = insert k (set (map fst (entries m)))"
  by (auto simp only: keys_dom ordered_put get_put mem_Collect_eq insert_iff split: if_splits)

lemma del_keys:
  "ordered m \<Longrightarrow> set (map fst (entries (del k m))) = set (map fst (entries m)) - {k}"
  by (auto simp only: keys_dom ordered_del get_del mem_Collect_eq Diff_iff singleton_iff
      split: if_splits)

lemma key_iff: "ordered m \<Longrightarrow> k \<in> set (map fst (entries m)) \<longleftrightarrow> get m k \<noteq> None"
  using keys_dom by blast

lemma length_entries: "ordered m \<Longrightarrow> length (entries m) = card (set (map fst (entries m)))"
  using distinct_card [OF distinct_keys] by fastforce

lemma length_put:
  "ordered m \<Longrightarrow>
   length (entries (put k v m)) = length (entries m) + (if get m k = None then 1 else 0)"
  by (simp only: length_entries ordered_put put_keys card_insert_if finite_set key_iff
      not_not if_not_P split: if_split)
    simp

lemma length_del:
  "ordered m \<Longrightarrow>
   length (entries (del k m)) = length (entries m) - (if get m k = None then 0 else 1)"
  by (simp only: length_entries ordered_del del_keys card_Diff_singleton_if finite_set key_iff
      split: if_split)
    simp

end

section \<open>Sorted association lists\<close>

fun bt_get :: "('k \<times> 'v) list \<Rightarrow> 'k \<Rightarrow> 'v option" where
  "bt_get [] k = None"
| "bt_get ((k', v) # m) k = (if k = k' then Some v else bt_get m k)"

fun bt_put :: "'k::linorder \<Rightarrow> 'v \<Rightarrow> ('k \<times> 'v) list \<Rightarrow> ('k \<times> 'v) list" where
  "bt_put k v [] = [(k, v)]"
| "bt_put k v ((k', v') # m) =
     (if k < k' then (k, v) # (k', v') # m
      else if k = k' then (k, v) # m
      else (k', v') # bt_put k v m)"

fun bt_del :: "'k \<Rightarrow> ('k \<times> 'v) list \<Rightarrow> ('k \<times> 'v) list" where
  "bt_del k [] = []"
| "bt_del k ((k', v) # m) = (if k = k' then m else (k', v) # bt_del k m)"

definition bt_ordered :: "('k::linorder \<times> 'v) list \<Rightarrow> bool" where
  "bt_ordered m \<longleftrightarrow> sorted_wrt (<) (map fst m)"

definition bt_sum :: "('v \<Rightarrow> nat) \<Rightarrow> ('k \<times> 'v) list \<Rightarrow> nat" where
  "bt_sum f m = sum_list (map (\<lambda>(k, v). f v) m)"

lemma bt_ordered_Nil [simp]: "bt_ordered []"
  by (simp add: bt_ordered_def)

lemma bt_ordered_Cons [simp]:
  "bt_ordered ((k, v) # m) \<longleftrightarrow> (\<forall>k' \<in> fst ` set m. k < k') \<and> bt_ordered m"
  by (simp add: bt_ordered_def)

lemma bt_get_None_iff: "bt_get m k = None \<longleftrightarrow> k \<notin> fst ` set m"
  by (induction m k rule: bt_get.induct) auto

lemma bt_get_set: "bt_get m k = Some v \<Longrightarrow> (k, v) \<in> set m"
  by (induction m k rule: bt_get.induct) (auto split: if_splits)

lemma fst_bt_put: "fst ` set (bt_put k v m) = insert k (fst ` set m)"
  by (induction k v m rule: bt_put.induct) auto

lemma set_bt_del: "set (bt_del k m) \<subseteq> set m"
  by (induction k m rule: bt_del.induct) auto

lemma bt_ordered_put: "bt_ordered m \<Longrightarrow> bt_ordered (bt_put k v m)"
  by (induction k v m rule: bt_put.induct) (auto simp: fst_bt_put dest: order.strict_trans)

lemma bt_ordered_del: "bt_ordered m \<Longrightarrow> bt_ordered (bt_del k m)"
  by (induction k m rule: bt_del.induct) (use set_bt_del in fastforce)+

lemma bt_get_put: "bt_get (bt_put k v m) k' = (if k' = k then Some v else bt_get m k')"
  by (induction k v m rule: bt_put.induct) auto

lemma bt_get_del: "bt_ordered m \<Longrightarrow> bt_get (bt_del k m) k' = (if k' = k then None else bt_get m k')"
proof (induction k m rule: bt_del.induct)
  case (2 k k2 v m)
  then have "bt_get m k2 = None" by (auto simp: bt_get_None_iff)
  with 2 show ?case by auto
qed simp

lemma bt_get_iff: "bt_ordered m \<Longrightarrow> bt_get m k = Some v \<longleftrightarrow> (k, v) \<in> set m"
  by (induction m k rule: bt_get.induct) (force split: if_splits)+

interpretation bt: ordered_map bt_get bt_put bt_del "\<lambda>m. m" bt_ordered
  by unfold_locales
    (simp_all add: bt_get_put bt_get_del bt_get_iff bt_ordered_put bt_ordered_del
      flip: bt_ordered_def)

lemma bt_sum_put:
  "bt_sum f (bt_put k v m) + (case bt_get m k of None \<Rightarrow> 0 | Some v' \<Rightarrow> f v') = bt_sum f m + f v"
  if "bt_ordered m"
  using that by (induction k v m rule: bt_put.induct)
    (auto simp: bt_sum_def bt_get_None_iff split: option.splits dest!: bt_get_set)

lemma bt_sum_del:
  "bt_sum f (bt_del k m) + (case bt_get m k of None \<Rightarrow> 0 | Some v' \<Rightarrow> f v') = bt_sum f m"
  by (induction k m rule: bt_del.induct) (auto simp: bt_sum_def split: option.splits)

lemma bt_sum_Nil [simp]: "bt_sum f [] = 0"
  by (simp add: bt_sum_def)

lemma length_bt_del: "length (bt_del k m) \<le> length m"
  by (induction k m rule: bt_del.induct) auto

lemma length_bt_del_present: "bt_get m k \<noteq> None \<Longrightarrow> Suc (length (bt_del k m)) = length m"
  by (induction k m rule: bt_del.induct) (auto split: if_split_asm)

lemma bt_del_absent: "bt_get m k = None \<Longrightarrow> bt_del k m = m"
  by (induction m k rule: bt_get.induct) (auto split: if_split_asm)

lemma bt_put_put: "bt_put k v (bt_put k w m) = bt_put k v m"
  by (induction k v m rule: bt_put.induct) auto

end
