(* ===== verification/Tcp_Stream.thy ===== *)
theory Tcp_Stream
  imports Wire_Safety Ordered_Map
begin

text \<open>
  \<^verbatim>\<open>src/src/tcp.rs\<close>, first half: sequence arithmetic and the assembler of one direction of a
  connection.  Stream offsets are \<^verbatim>\<open>i64\<close> in the code and \<^typ>\<open>int\<close> here; the additions and subtractions
  the code does not check are shown to stay in range.  The sweep over the segment boundaries is
  written as the code has it: an event map from offsets to the segments that start and end there, and
  a set of active segments.
\<close>

section \<open>Types\<close>

datatype overlap_policy = RejectConflict | FirstObserved | LastObserved

definition overlap_policy_as_str :: "overlap_policy \<Rightarrow> string" where
  "overlap_policy_as_str p =
     (case p of RejectConflict \<Rightarrow> ''reject_conflict'' | FirstObserved \<Rightarrow> ''first_observed''
      | LastObserved \<Rightarrow> ''last_observed'')"

record stream_chunk =
  ch_offset :: int
  ch_bytes :: evidence

record stream_gap =
  gap_start :: int
  gap_end :: int
  gap_reason :: string

record stream_conflict =
  cf_start :: int
  cf_end :: int
  cf_packets :: "packet_id list"

record stream_result =
  sr_base :: "u32 option"
  sr_anchored :: bool
  sr_chunks :: "stream_chunk list"
  sr_gaps :: "stream_gap list"
  sr_conflicts :: "stream_conflict list"
  sr_duplicates :: nat

record stream_seg =
  ss_start :: int
  ss_bytes :: evidence

record stream_assembler =
  sa_base :: "u32 option"
  sa_anchored :: bool
  sa_segments :: "stream_seg list"
  sa_min :: int
  sa_max :: int
  sa_fin :: "int option"
  sa_retained :: nat
  sa_limits :: limits

section \<open>Sequence numbers\<close>

definition sequence_delta :: "u32 \<Rightarrow> u32 \<Rightarrow> int result" where
  "sequence_delta sequence anchor =
     (let delta = sequence - anchor
      in if delta = 0x80000000
         then Err (error_new SequenceAmbiguous 0 ''sequence''
                ''exact half-space difference has no unique ordering'')
         else Ok (sint delta))"

text \<open>The cast \<^verbatim>\<open>as usize\<close> of an \<^verbatim>\<open>i64\<close>.\<close>

definition as_usize :: "int \<Rightarrow> nat" where
  "as_usize z = nat (z mod 2 ^ 64)"

section \<open>Collecting segments\<close>

definition stream_new :: "u32 option \<Rightarrow> limits \<Rightarrow> stream_assembler" where
  "stream_new syn l = \<lparr>sa_base = map_option (\<lambda>n. n + 1) syn, sa_anchored = (syn \<noteq> None), sa_segments = [],
     sa_min = 0, sa_max = 0, sa_fin = None, sa_retained = 0, sa_limits = l\<rparr>"

definition or_else :: "'a option \<Rightarrow> 'a \<Rightarrow> 'a" where
  "or_else m d = (case m of Some x \<Rightarrow> x | None \<Rightarrow> d)"

definition stream_push :: "stream_assembler \<Rightarrow> u32 \<Rightarrow> evidence \<Rightarrow> stream_assembler result" where
  "stream_push s sequence bytes =
     and_then (limits_validate (sa_limits s)) (\<lambda>_.
       if ev_is_empty bytes then Ok s
       else if \<not> ev_validate bytes
       then Err (error_new Invariant 0 ''provenance'' ''invalid source-span layout'')
       else
         and_then (ok_or (error_limit ''stream_retained_payload'')
                     (checked_add (sa_retained s) (ev_len bytes))) (\<lambda>retained.
           if retained > max_retained_payload (sa_limits s)
           then Err (error_limit ''stream_retained_payload'')
           else if length (sa_segments s) \<ge> max_segments_per_flow (sa_limits s)
           then Err (error_limit ''stream_segments'')
           else
             and_then (sequence_delta sequence (or_else (sa_base s) sequence)) (\<lambda>start.
             and_then (ok_or (error_limit ''stream_span'')
                         (checked_add_i64 start (int (ev_len bytes)))) (\<lambda>fin.
               let mn = min (sa_min s) start; mx = max (sa_max s) fin
               in if mx - mn > int (max_stream_span (sa_limits s))
                  then Err (error_limit ''stream_span'')
                  else if sa_anchored s \<and> start < 0
                  then Err (error_new SequenceAmbiguous 0 ''sequence'' ''payload precedes observed SYN'')
                  else Ok (s\<lparr>sa_base := Some (or_else (sa_base s) sequence), sa_retained := retained,
                             sa_min := mn, sa_max := mx,
                             sa_segments := sa_segments s @ [\<lparr>ss_start = start, ss_bytes = bytes\<rparr>]\<rparr>)))))"

definition stream_end_at :: "stream_assembler \<Rightarrow> u32 \<Rightarrow> stream_assembler result" where
  "stream_end_at s sequence =
     and_then (limits_validate (sa_limits s)) (\<lambda>_.
     and_then (sequence_delta sequence (or_else (sa_base s) sequence)) (\<lambda>fin.
       if fin < sa_min s \<or> fin - sa_min s > int (max_stream_span (sa_limits s))
       then Err (error_limit ''fin_sequence'')
       else if (case sa_fin s of Some old \<Rightarrow> old \<noteq> fin | None \<Rightarrow> False)
       then Err (error_new SequenceAmbiguous 0 ''fin_sequence'' ''conflicting FIN positions'')
       else Ok (s\<lparr>sa_base := Some (or_else (sa_base s) sequence), sa_fin := Some fin\<rparr>)))"

section \<open>Boundary events\<close>

type_synonym events = "(int \<times> (nat list \<times> nat list)) list"

definition event_at :: "events \<Rightarrow> int \<Rightarrow> nat list \<times> nat list" where
  "event_at ev k = or_else (bt_get ev k) ([], [])"

definition seg_end :: "stream_seg \<Rightarrow> int" where
  "seg_end s = ss_start s + int (ev_len (ss_bytes s))"

fun add_events :: "nat \<Rightarrow> stream_seg list \<Rightarrow> events \<Rightarrow> events" where
  "add_events i [] ev = ev"
| "add_events i (s # ss) ev =
     (let ev1 = bt_put (ss_start s) (map_prod (\<lambda>starts. starts @ [i]) id (event_at ev (ss_start s))) ev;
          ev2 = bt_put (seg_end s) (map_prod id (\<lambda>ends. ends @ [i]) (event_at ev1 (seg_end s))) ev1
      in add_events (Suc i) ss ev2)"

definition event_touch :: "int \<Rightarrow> events \<Rightarrow> events" where
  "event_touch k ev = bt_put k (event_at ev k) ev"

definition stream_events :: "stream_assembler \<Rightarrow> events" where
  "stream_events s =
     (let ev = add_events 0 (sa_segments s) [];
          ev' = (if sa_anchored s then event_touch 0 ev else ev)
      in case sa_fin s of Some fin \<Rightarrow> event_touch fin ev' | None \<Rightarrow> ev')"

section \<open>The sweep\<close>

text \<open>The comparison of every active segment with the chosen one.\<close>

fun scan_active ::
    "stream_seg list \<Rightarrow> int \<Rightarrow> int \<Rightarrow> nat \<Rightarrow> bytes \<Rightarrow> nat list \<Rightarrow> bool \<times> nat \<times> packet_id list
      \<Rightarrow> (bool \<times> nat \<times> packet_id list) result" where
  "scan_active segs a b chosen selected [] acc = Ok acc"
| "scan_active segs a b chosen selected (i # is) (conflict, dup, packets) =
     and_then (index_at segs i) (\<lambda>other.
     let x = as_usize (a - ss_start other); y = as_usize (b - ss_start other)
     in and_then (range_at (ev_data (ss_bytes other)) x y) (\<lambda>raw.
        and_then (range_from (ev_spans (ss_bytes other))
                    (partition_point (\<lambda>span. span_end span \<le> x) (ev_spans (ss_bytes other)))) (\<lambda>spans.
          scan_active segs a b chosen selected is
            (conflict \<or> raw \<noteq> selected,
             dup + (if i \<noteq> chosen \<and> raw = selected then length raw else 0),
             packets @ map span_packet (takeWhile (\<lambda>span. span_start span < y) spans)))))"

definition add_gap :: "int \<Rightarrow> int \<Rightarrow> string \<Rightarrow> stream_result \<Rightarrow> stream_result" where
  "add_gap a b reason res =
     res\<lparr>sr_gaps := sr_gaps res @ [\<lparr>gap_start = a, gap_end = b, gap_reason = reason\<rparr>]\<rparr>"

definition add_chunk :: "nat \<Rightarrow> int \<Rightarrow> evidence \<Rightarrow> stream_result \<Rightarrow> stream_result result" where
  "add_chunk span a bytes res =
     (if sr_chunks res \<noteq> []
         \<and> ch_offset (last (sr_chunks res)) + int (ev_len (ch_bytes (last (sr_chunks res)))) = a
      then and_then (ev_append (ch_bytes (last (sr_chunks res))) bytes span) (\<lambda>joined.
             Ok (res\<lparr>sr_chunks := butlast (sr_chunks res)
                       @ [(last (sr_chunks res))\<lparr>ch_bytes := joined\<rparr>]\<rparr>))
      else Ok (res\<lparr>sr_chunks := sr_chunks res @ [\<lparr>ch_offset = a, ch_bytes = bytes\<rparr>]\<rparr>))"

definition sweep_window ::
    "overlap_policy \<Rightarrow> nat \<Rightarrow> stream_seg list \<Rightarrow> int \<Rightarrow> int \<Rightarrow> nat list \<Rightarrow> stream_result \<Rightarrow> stream_result result" where
  "sweep_window policy span segs a b active res =
     (if active = [] then Ok (add_gap a b ''missing_capture_bytes'' res)
      else
        let chosen = (if policy = LastObserved then last active else hd active)
        in and_then (index_at segs chosen) (\<lambda>segment.
           let start = as_usize (a - ss_start segment); fin = as_usize (b - ss_start segment)
           in and_then (range_at (ev_data (ss_bytes segment)) start fin) (\<lambda>selected.
              and_then (scan_active segs a b chosen selected active (False, sr_duplicates res, []))
                (\<lambda>(conflict, dup, packets).
                let res1 = res\<lparr>sr_duplicates := dup\<rparr>;
                    res2 = (if conflict
                            then res1\<lparr>sr_conflicts := sr_conflicts res1
                                   @ [\<lparr>cf_start = a, cf_end = b, cf_packets = sort_dedup packets\<rparr>]\<rparr>
                            else res1)
                in if conflict \<and> policy = RejectConflict
                   then Ok (add_gap a b ''conflicting_capture_bytes'' res2)
                   else and_then (ev_slice (ss_bytes segment) start fin) (\<lambda>bytes.
                          add_chunk span a bytes res2)))))"

definition activate :: "nat list \<Rightarrow> nat list \<Rightarrow> nat list \<Rightarrow> nat list" where
  "activate starts ends active = fold insort_insert starts (fold (\<lambda>i. filter (\<lambda>j. j \<noteq> i)) ends active)"

fun sweep ::
    "overlap_policy \<Rightarrow> nat \<Rightarrow> stream_seg list \<Rightarrow> events \<Rightarrow> (int \<times> int) list \<Rightarrow> nat list \<Rightarrow> stream_result
      \<Rightarrow> stream_result result" where
  "sweep policy span segs ev [] active res = Ok res"
| "sweep policy span segs ev ((a, b) # windows) active res =
     (case bt_get ev a of
        None \<Rightarrow> Panic
      | Some (starts, ends) \<Rightarrow>
          let active' = activate starts ends active
          in and_then (sweep_window policy span segs a b active' res) (\<lambda>res'.
               sweep policy span segs ev windows active' res'))"

definition windows :: "int list \<Rightarrow> (int \<times> int) list" where
  "windows bs = zip bs (tl bs)"

definition empty_result :: "stream_assembler \<Rightarrow> stream_result" where
  "empty_result s = \<lparr>sr_base = sa_base s, sr_anchored = sa_anchored s, sr_chunks = [], sr_gaps = [],
     sr_conflicts = [], sr_duplicates = 0\<rparr>"

definition stream_finish :: "stream_assembler \<Rightarrow> overlap_policy \<Rightarrow> stream_result result" where
  "stream_finish s policy =
     and_then (limits_validate (sa_limits s)) (\<lambda>_.
       if sa_segments s = [] then
         Ok (case sa_fin s of
               Some fin \<Rightarrow> if sa_anchored s \<and> fin > 0
                             then add_gap 0 fin ''missing_capture_bytes'' (empty_result s)
                             else empty_result s
             | None \<Rightarrow> empty_result s)
       else if (case sa_fin s of Some fin \<Rightarrow> sa_max s > fin | None \<Rightarrow> False)
       then Err (error_new SequenceAmbiguous 0 ''fin_sequence'' ''observed payload extends beyond FIN'')
       else
         let ev = stream_events s
         in sweep policy (max_stream_span (sa_limits s)) (sa_segments s) ev (windows (map fst ev)) []
              (empty_result s))"

end
