(* ===== verification/Tcp_Stream_Correct.thy ===== *)
theory Tcp_Stream_Correct
  imports Tcp_Stream
begin

text \<open>
  The assembler against its specification: every offset of the reported range is in exactly one
  chunk or gap, a chunk carries the byte of the segment that the overlap policy names, and a gap has
  no byte or conflicting ones.
\<close>

section \<open>Segments and the offsets they cover\<close>

definition seg_ok :: "stream_seg \<Rightarrow> bool" where
  "seg_ok s \<longleftrightarrow> ev_validate (ss_bytes s) \<and> 0 < ev_len (ss_bytes s)"

definition cover :: "stream_seg list \<Rightarrow> int \<Rightarrow> nat set" where
  "cover segs x = {i. i < length segs \<and> ss_start (segs ! i) \<le> x \<and> x < seg_end (segs ! i)}"

definition seg_byte :: "stream_seg \<Rightarrow> int \<Rightarrow> u8" where
  "seg_byte s x = ev_data (ss_bytes s) ! nat (x - ss_start s)"

definition seg_trace :: "stream_seg \<Rightarrow> int \<Rightarrow> u8 \<times> packet_id \<times> nat" where
  "seg_trace s x = ev_trace (ss_bytes s) ! nat (x - ss_start s)"

definition pick :: "overlap_policy \<Rightarrow> nat set \<Rightarrow> nat" where
  "pick policy C = (if policy = LastObserved then Max C else Min C)"

text \<open>What the policy delivers at an offset.\<close>

definition delivers :: "overlap_policy \<Rightarrow> stream_seg list \<Rightarrow> int \<Rightarrow> (u8 \<times> packet_id \<times> nat) \<Rightarrow> bool" where
  "delivers policy segs x t \<longleftrightarrow> cover segs x \<noteq> {} \<and> t = seg_trace (segs ! pick policy (cover segs x)) x
     \<and> (policy = RejectConflict \<longrightarrow> (\<forall>i \<in> cover segs x. seg_byte (segs ! i) x = fst t))"

lemma finite_cover [simp]: "finite (cover segs x)"
  by (simp add: cover_def)

lemma as_usize_nonneg: "0 \<le> z \<Longrightarrow> z < 2 ^ 64 \<Longrightarrow> as_usize z = nat z"
  by (simp add: as_usize_def)

section \<open>Events\<close>

lemma event_at_put: "event_at (bt_put k v ev) k' = (if k' = k then v else event_at ev k')"
  by (simp add: event_at_def or_else_def bt_get_put)

lemma add_events_starts:
  "set (fst (event_at (add_events i ss ev) k)) =
     set (fst (event_at ev k)) \<union> {i + j | j. j < length ss \<and> ss_start (ss ! j) = k}"
proof (induction i ss ev rule: add_events.induct)
  case (2 i s ss ev)
  have "{i + j | j. j < length (s # ss) \<and> ss_start ((s # ss) ! j) = k} =
      (if ss_start s = k then {i} else {}) \<union> {Suc i + j | j. j < length ss \<and> ss_start (ss ! j) = k}"
    by (auto simp: less_Suc_eq_0_disj)
  with 2 show ?case by (auto simp: Let_def event_at_put)
qed simp

lemma add_events_ends:
  "set (snd (event_at (add_events i ss ev) k)) =
     set (snd (event_at ev k)) \<union> {i + j | j. j < length ss \<and> seg_end (ss ! j) = k}"
proof (induction i ss ev rule: add_events.induct)
  case (2 i s ss ev)
  have "{i + j | j. j < length (s # ss) \<and> seg_end ((s # ss) ! j) = k} =
      (if seg_end s = k then {i} else {}) \<union> {Suc i + j | j. j < length ss \<and> seg_end (ss ! j) = k}"
    by (auto simp: less_Suc_eq_0_disj)
  with 2 show ?case by (auto simp: Let_def event_at_put)
qed simp

lemma add_events_keys:
  "fst ` set (add_events i ss ev) = fst ` set ev \<union> ss_start ` set ss \<union> seg_end ` set ss"
  by (induction i ss ev rule: add_events.induct) (auto simp: Let_def fst_bt_put)

lemma add_events_ordered: "bt_ordered ev \<Longrightarrow> bt_ordered (add_events i ss ev)"
  by (induction i ss ev rule: add_events.induct) (simp_all add: Let_def bt_ordered_put)

definition extra_bounds :: "stream_assembler \<Rightarrow> int set" where
  "extra_bounds s = (if sa_anchored s then {0} else {}) \<union> (case sa_fin s of Some f \<Rightarrow> {f} | None \<Rightarrow> {})"

lemma stream_events_spec:
  defines "ev s \<equiv> stream_events s"
  shows "bt_ordered (ev s)"
    and "fst ` set (ev s) = ss_start ` set (sa_segments s) \<union> seg_end ` set (sa_segments s) \<union> extra_bounds s"
    and "set (fst (event_at (ev s) k)) = {j. j < length (sa_segments s) \<and> ss_start (sa_segments s ! j) = k}"
    and "set (snd (event_at (ev s) k)) = {j. j < length (sa_segments s) \<and> seg_end (sa_segments s ! j) = k}"
proof -
  have touch: "event_at (event_touch k' e) k = event_at e k" for k' e by (simp add: event_touch_def event_at_put)
  have e0: "event_at [] k = ([], [])" by (simp add: event_at_def or_else_def)
  have "event_at (ev s) k = event_at (add_events 0 (sa_segments s) []) k"
    by (simp add: ev_def stream_events_def Let_def touch split: option.split)
  then show "set (fst (event_at (ev s) k)) = {j. j < length (sa_segments s) \<and> ss_start (sa_segments s ! j) = k}"
    "set (snd (event_at (ev s) k)) = {j. j < length (sa_segments s) \<and> seg_end (sa_segments s ! j) = k}"
    by (simp_all add: add_events_starts add_events_ends e0)
  show "bt_ordered (ev s)"
    by (simp add: ev_def stream_events_def Let_def event_touch_def bt_ordered_put add_events_ordered split: option.split)
  show "fst ` set (ev s) = ss_start ` set (sa_segments s) \<union> seg_end ` set (sa_segments s) \<union> extra_bounds s"
    by (auto simp: ev_def stream_events_def Let_def event_touch_def fst_bt_put add_events_keys extra_bounds_def
        split: option.split)
qed

section \<open>The active segments\<close>

lemma activate_set: "set (activate starts ends active) = (set active - set ends) \<union> set starts"
proof -
  have "set (fold (\<lambda>i. filter (\<lambda>j. j \<noteq> i)) ends active) = set active - set ends" for active :: "nat list"
    by (induction ends arbitrary: active) auto
  moreover have "set (fold insort_insert starts xs) = set xs \<union> set starts" for xs :: "nat list"
    by (induction starts arbitrary: xs) (auto simp: set_insort_insert)
  ultimately show ?thesis by (simp add: activate_def)
qed

lemma activate_sorted:
  assumes "sorted active" "distinct active"
  shows "sorted (activate starts ends active) \<and> distinct (activate starts ends active)"
proof -
  have "sorted (fold (\<lambda>i. filter (\<lambda>j. j \<noteq> i)) ends xs) \<and> distinct (fold (\<lambda>i. filter (\<lambda>j. j \<noteq> i)) ends xs)"
    if "sorted xs" "distinct xs" for xs :: "nat list"
    using that by (induction ends arbitrary: xs) (auto simp: sorted_wrt_filter)
  moreover have "sorted (fold insort_insert starts xs) \<and> distinct (fold insort_insert starts xs)"
    if "sorted xs" "distinct xs" for xs :: "nat list"
    using that
    by (induction starts arbitrary: xs) (auto simp: sorted_insort_insert insort_insert_key_def distinct_insort sorted_insort)
  ultimately show ?thesis using assms by (simp add: activate_def)
qed

lemma sorted_pick:
  assumes "sorted active" "active \<noteq> []"
  shows "(if policy = LastObserved then last active else hd active) = pick policy (set active)"
proof -
  have "sorted (butlast active @ [last active])" using assms by simp
  then have "\<forall>y \<in> set (butlast active @ [last active]). y \<le> last active" by (auto simp: sorted_append)
  then have "Max (set active) = last active" using assms by (intro Max_eqI) simp_all
  moreover have "Min (set active) = hd active" using assms by (cases active) (auto intro: Min_eqI)
  ultimately show ?thesis by (simp add: pick_def)
qed

text \<open>A window between consecutive boundaries: the segments that cover its first offset cover it all.\<close>

definition whole_window :: "stream_seg list \<Rightarrow> int \<Rightarrow> int \<Rightarrow> bool" where
  "whole_window segs a b \<longleftrightarrow> a < b \<and> (\<forall>i < length segs. (ss_start (segs ! i) \<le> a \<or> b \<le> ss_start (segs ! i))
     \<and> (seg_end (segs ! i) \<le> a \<or> b \<le> seg_end (segs ! i)))"

lemma whole_window_cover:
  "whole_window segs a b \<Longrightarrow> a \<le> x \<Longrightarrow> x < b \<Longrightarrow> cover segs x = cover segs a"
  unfolding whole_window_def cover_def by (intro Collect_cong) (smt (verit))

lemma whole_window_fits:
  assumes "whole_window segs a b" "i \<in> cover segs a"
  shows "i < length segs" "ss_start (segs ! i) \<le> a" "b \<le> seg_end (segs ! i)"
  using assms unfolding whole_window_def cover_def by auto

section \<open>One window\<close>

definition window_of :: "stream_seg \<Rightarrow> int \<Rightarrow> int \<Rightarrow> bytes" where
  "window_of s a b = sub_list (ev_data (ss_bytes s)) (nat (a - ss_start s)) (nat (b - ss_start s))"

definition fits :: "stream_seg \<Rightarrow> int \<Rightarrow> int \<Rightarrow> bool" where
  "fits s a b \<longleftrightarrow> ev_validate (ss_bytes s) \<and> ev_len (ss_bytes s) < 2 ^ 63 \<and> ss_start s \<le> a \<and> a < b \<and> b \<le> seg_end s"

lemma fits_range:
  assumes "fits s a b"
  shows "as_usize (a - ss_start s) = nat (a - ss_start s)" "as_usize (b - ss_start s) = nat (b - ss_start s)"
    "nat (a - ss_start s) < nat (b - ss_start s)" "nat (b - ss_start s) \<le> length (ev_data (ss_bytes s))"
    "length (window_of s a b) = nat (b - a)"
proof -
  have "b - ss_start s \<le> int (length (ev_data (ss_bytes s)))" "int (length (ev_data (ss_bytes s))) < 2 ^ 63" "ss_start s \<le> a" "a < b"
    using assms by (simp_all add: fits_def seg_end_def ev_len_def)
  then show "as_usize (a - ss_start s) = nat (a - ss_start s)" "as_usize (b - ss_start s) = nat (b - ss_start s)"
    "nat (a - ss_start s) < nat (b - ss_start s)" and le: "nat (b - ss_start s) \<le> length (ev_data (ss_bytes s))"
    by (simp_all add: as_usize_nonneg)
  show "length (window_of s a b) = nat (b - a)"
    using le \<open>ss_start s \<le> a\<close> \<open>a < b\<close> by (simp add: window_of_def length_sub_list)
qed

lemma fits_range_at: "fits s a b \<Longrightarrow>
  range_at (ev_data (ss_bytes s)) (nat (a - ss_start s)) (nat (b - ss_start s)) = Ok (window_of s a b)"
  unfolding window_of_def using fits_range(3,4) [of s a b] by (simp only: range_at_ok less_imp_le)

lemma window_of_nth:
  assumes "fits s a b" "a \<le> x" "x < b"
  shows "window_of s a b ! nat (x - a) = seg_byte s x"
proof -
  have "nat (x - a) < nat (b - ss_start s) - nat (a - ss_start s)" using assms by (auto simp: fits_def)
  then have "window_of s a b ! nat (x - a) = ev_data (ss_bytes s) ! (nat (a - ss_start s) + nat (x - a))"
    unfolding window_of_def using fits_range(4) [OF assms(1)] by (rule nth_sub_list)
  also have "nat (a - ss_start s) + nat (x - a) = nat (x - ss_start s)" using assms by (auto simp: fits_def)
  finally show ?thesis by (simp add: seg_byte_def)
qed

lemma window_eq_iff:
  assumes "fits s a b" "fits t a b"
  shows "window_of s a b = window_of t a b \<longleftrightarrow> (\<forall>x. a \<le> x \<and> x < b \<longrightarrow> seg_byte s x = seg_byte t x)"
proof
  assume eq: "\<forall>x. a \<le> x \<and> x < b \<longrightarrow> seg_byte s x = seg_byte t x"
  show "window_of s a b = window_of t a b"
  proof (rule nth_equalityI)
    show "length (window_of s a b) = length (window_of t a b)" using assms by (simp add: fits_range)
    fix i assume "i < length (window_of s a b)"
    then have "a \<le> a + int i" "a + int i < b" using fits_range(5) [OF assms(1)] by auto
    with window_of_nth [OF assms(1) this] window_of_nth [OF assms(2) this] eq
    show "window_of s a b ! i = window_of t a b ! i" by simp
  qed
qed (metis window_of_nth assms)

definition window_packets :: "stream_seg \<Rightarrow> int \<Rightarrow> int \<Rightarrow> packet_id list" where
  "window_packets s a b = map span_packet (takeWhile (\<lambda>span. span_start span < nat (b - ss_start s))
     (drop (partition_point (\<lambda>span. span_end span \<le> nat (a - ss_start s)) (ev_spans (ss_bytes s)))
       (ev_spans (ss_bytes s))))"

lemma scan_active_spec:
  assumes "\<forall>i \<in> set is. i < length segs \<and> fits (segs ! i) a b"
  shows "scan_active segs a b chosen selected is (c, d, p) =
    Ok (c \<or> (\<exists>i \<in> set is. window_of (segs ! i) a b \<noteq> selected),
        d + (\<Sum>i \<leftarrow> is. if i \<noteq> chosen \<and> window_of (segs ! i) a b = selected then length selected else 0),
        p @ concat (map (\<lambda>i. window_packets (segs ! i) a b) is))"
  using assms
proof (induction "is" arbitrary: c d p)
  case (Cons i "is")
  have i: "i < length segs" "fits (segs ! i) a b" using Cons.prems by simp_all
  have pp: "partition_point P xs \<le> length xs" for P and xs :: "source_span list"
    by (simp add: partition_point_def length_takeWhile_le)
  have "scan_active segs a b chosen selected (i # is) (c, d, p) = scan_active segs a b chosen selected is
      (c \<or> window_of (segs ! i) a b \<noteq> selected,
       d + (if i \<noteq> chosen \<and> window_of (segs ! i) a b = selected then length selected else 0),
       p @ window_packets (segs ! i) a b)"
    using i fits_range(1,2) [OF i(2)] pp by (auto simp: Let_def fits_range_at window_packets_def)
  then show ?case using Cons.IH Cons.prems by auto
qed simp

text \<open>The packets reported for a conflict are those the bytes in the window came from.\<close>

lemma slice_spans_packets:
  "\<forall>s \<in> set ss. max (span_start s) lo < min (span_end s) hi \<Longrightarrow> slice_spans lo hi ss = Ok rs
    \<Longrightarrow> map span_packet rs = map span_packet ss"
  by (induction lo hi ss arbitrary: rs rule: slice_spans.induct)
    (auto simp: Let_def elim!: and_then_OkE simp del: max_less_iff_conj)

lemma validate_spans_nonempty: "validate_spans c n ss \<Longrightarrow> s \<in> set ss \<Longrightarrow> span_start s < span_end s"
  by (induction c n ss rule: validate_spans.induct) auto

lemma window_packets_spec:
  assumes f: "fits s a b"
  shows "set (window_packets s a b) = (\<lambda>t. fst (snd t)) ` set (sub_list (ev_trace (ss_bytes s)) (nat (a - ss_start s)) (nat (b - ss_start s)))"
proof -
  let ?e = "ss_bytes s" and ?lo = "nat (a - ss_start s)" and ?hi = "nat (b - ss_start s)"
  let ?us = "takeWhile (\<lambda>t. span_start t < ?hi) (drop (partition_point (\<lambda>t. span_end t \<le> ?lo) (ev_spans ?e)) (ev_spans ?e))"
  have v: "ev_validate ?e" "validate_spans 0 (length (ev_data ?e)) (ev_spans ?e)" using f by (simp_all add: fits_def ev_validate_def)
  have "max (span_start t) ?lo < min (span_end t) ?hi" if "t \<in> set ?us" for t
  proof -
    have hi: "span_start t < ?hi" and d: "t \<in> set (drop (partition_point (\<lambda>t. span_end t \<le> ?lo) (ev_spans ?e)) (ev_spans ?e))"
      using that by (auto dest: set_takeWhileD)
    then obtain j where "t = ev_spans ?e ! (partition_point (\<lambda>t. span_end t \<le> ?lo) (ev_spans ?e) + j)"
      "partition_point (\<lambda>t. span_end t \<le> ?lo) (ev_spans ?e) + j < length (ev_spans ?e)"
      by (auto simp: in_set_conv_nth)
    then have "?lo < span_end t" using partition_point_partitions [OF v(2)] by (simp add: not_le)
    moreover have "span_start t < span_end t" using validate_spans_nonempty [OF v(2)] d by (auto dest: in_set_dropD)
    ultimately show ?thesis using hi fits_range(3) [OF f] by (simp only: max_less_iff_conj min_less_iff_conj)
  qed
  then have us: "\<forall>t \<in> set ?us. max (span_start t) ?lo < min (span_end t) ?hi" by blast
  obtain e' where e': "ev_slice ?e ?lo ?hi = Ok e'" "ev_validate e'" "ev_trace e' = sub_list (ev_trace ?e) ?lo ?hi"
    using evidence.cut_ok [OF v(1), of ?lo ?hi] fits_range(3,4) [OF f] ev_trace_length [OF v(1)]
    by (metis less_imp_le)
  then have "slice_spans ?lo ?hi ?us = Ok (ev_spans e')"
    by (auto simp: ev_slice_def Let_def split: if_split_asm elim!: and_then_OkE)
  from slice_spans_packets [OF us this] have "set (window_packets s a b) = span_packet ` set (ev_spans e')"
    by (simp add: window_packets_def flip: set_map)
  also have "\<dots> = fst ` set (ev_labels e')" using ev_packets_labels [OF e'(2)] by (simp add: set_ev_packets)
  also have "\<dots> = (\<lambda>t. fst (snd t)) ` set (ev_trace e')"
  proof -
    have "map (\<lambda>t. fst (snd t)) (ev_trace e') = map fst (ev_labels e')"
      using length_ev_labels [OF e'(2)] by (auto simp: ev_trace_def intro!: nth_equalityI split: prod.split)
    then show ?thesis by (metis set_map)
  qed
  finally show ?thesis by (simp only: e'(3))
qed


section \<open>What a partial sweep has established\<close>

definition chunk_end :: "stream_chunk \<Rightarrow> int" where
  "chunk_end c = ch_offset c + int (ev_len (ch_bytes c))"

definition chunk_ok :: "overlap_policy \<Rightarrow> stream_seg list \<Rightarrow> stream_chunk \<Rightarrow> bool" where
  "chunk_ok policy segs c \<longleftrightarrow> ev_validate (ch_bytes c) \<and> ch_offset c < chunk_end c
     \<and> (\<forall>x. ch_offset c \<le> x \<and> x < chunk_end c \<longrightarrow> delivers policy segs x (ev_trace (ch_bytes c) ! nat (x - ch_offset c)))"

definition clash :: "stream_seg list \<Rightarrow> int \<Rightarrow> bool" where
  "clash segs x \<longleftrightarrow> (\<exists>i \<in> cover segs x. \<exists>j \<in> cover segs x. seg_byte (segs ! i) x \<noteq> seg_byte (segs ! j) x)"

definition gap_ok :: "overlap_policy \<Rightarrow> stream_seg list \<Rightarrow> stream_gap \<Rightarrow> bool" where
  "gap_ok policy segs g \<longleftrightarrow> gap_start g < gap_end g
     \<and> (gap_reason g = ''missing_capture_bytes'' \<and> (\<forall>x. gap_start g \<le> x \<and> x < gap_end g \<longrightarrow> cover segs x = {})
        \<or> gap_reason g = ''conflicting_capture_bytes'' \<and> policy = RejectConflict
          \<and> (\<exists>x. gap_start g \<le> x \<and> x < gap_end g \<and> clash segs x))"

definition conflict_ok :: "stream_seg list \<Rightarrow> stream_conflict \<Rightarrow> bool" where
  "conflict_ok segs k \<longleftrightarrow> (\<exists>x. cf_start k \<le> x \<and> x < cf_end k \<and> clash segs x)
     \<and> (\<forall>x. cf_start k \<le> x \<and> x < cf_end k \<longrightarrow>
          (\<forall>i \<in> cover segs x. fst (snd (seg_trace (segs ! i) x)) \<in> set (cf_packets k)))"

text \<open>The range up to \<open>a\<close> is tiled by chunks and gaps.\<close>

definition in_chunk :: "int \<Rightarrow> stream_chunk \<Rightarrow> bool" where
  "in_chunk x c \<longleftrightarrow> ch_offset c \<le> x \<and> x < chunk_end c"

definition in_gap :: "int \<Rightarrow> stream_gap \<Rightarrow> bool" where
  "in_gap x g \<longleftrightarrow> gap_start g \<le> x \<and> x < gap_end g"

definition tiled :: "overlap_policy \<Rightarrow> stream_seg list \<Rightarrow> int \<Rightarrow> int \<Rightarrow> stream_chunk list \<Rightarrow> stream_gap list \<Rightarrow> bool" where
  "tiled policy segs lo a cs gs \<longleftrightarrow>
     (\<forall>c \<in> set cs. chunk_ok policy segs c \<and> lo \<le> ch_offset c \<and> chunk_end c \<le> a)
     \<and> sorted_wrt (\<lambda>c d. chunk_end c < ch_offset d) cs
     \<and> (\<forall>g \<in> set gs. gap_ok policy segs g \<and> lo \<le> gap_start g \<and> gap_end g \<le> a)
     \<and> (\<forall>x. lo \<le> x \<and> x < a \<longrightarrow> (\<exists>c \<in> set cs. in_chunk x c) \<noteq> (\<exists>g \<in> set gs. in_gap x g))"

text \<open>Every clash up to \<open>a\<close> is in a reported conflict, and only clashes are reported.\<close>

definition reported :: "stream_seg list \<Rightarrow> int \<Rightarrow> int \<Rightarrow> stream_conflict list \<Rightarrow> bool" where
  "reported segs lo a ks \<longleftrightarrow>
     (\<forall>k \<in> set ks. conflict_ok segs k \<and> lo \<le> cf_start k \<and> cf_end k \<le> a)
     \<and> (\<forall>x. lo \<le> x \<and> x < a \<and> clash segs x \<longrightarrow> (\<exists>k \<in> set ks. cf_start k \<le> x \<and> x < cf_end k))"

lemma tiled_gap:
  assumes t: "tiled policy segs lo a cs gs" and "lo \<le> a" and g: "gap_ok policy segs g" "gap_start g = a" "gap_end g = b"
  shows "tiled policy segs lo b cs (gs @ [g])"
proof -
  have ab: "a < b" using g by (simp add: gap_ok_def)
  have cs: "\<forall>c \<in> set cs. chunk_end c \<le> a" using t by (simp add: tiled_def)
  have "(\<exists>c \<in> set cs. in_chunk x c) \<noteq> (\<exists>h \<in> set (gs @ [g]). in_gap x h)" if x: "lo \<le> x" "x < b" for x
  proof (cases "x < a")
    case True
    then have "\<not> in_gap x g" using g by (simp add: in_gap_def)
    with t x True show ?thesis by (simp add: tiled_def)
  next
    case False
    then have "\<forall>c \<in> set cs. \<not> in_chunk x c" using cs by (auto simp: in_chunk_def)
    moreover have "in_gap x g" using g False x by (simp add: in_gap_def)
    ultimately show ?thesis by auto
  qed
  with t ab assms(2) g show ?thesis by (fastforce simp: tiled_def)
qed

text \<open>A chunk list grown by the window \<open>[a, b)\<close>: a new last chunk, or the last chunk extended.\<close>

lemma tiled_chunk:
  assumes t: "tiled policy segs lo a cs gs" and "lo \<le> a" "a < b"
    and c: "chunk_ok policy segs c" "lo \<le> ch_offset c" "chunk_end c = b"
    and cs: "sorted_wrt (\<lambda>c d. chunk_end c < ch_offset d) (ds @ [c])" "set ds \<subseteq> set cs"
    and same: "\<And>x. x < a \<Longrightarrow> (\<exists>d \<in> set (ds @ [c]). in_chunk x d) \<longleftrightarrow> (\<exists>d \<in> set cs. in_chunk x d)"
    and new: "ch_offset c \<le> a"
  shows "tiled policy segs lo b (ds @ [c]) gs"
proof -
  have gs: "\<forall>g \<in> set gs. gap_end g \<le> a" using t by (simp add: tiled_def)
  have "(\<exists>d \<in> set (ds @ [c]). in_chunk x d) \<noteq> (\<exists>h \<in> set gs. in_gap x h)" if x: "lo \<le> x" "x < b" for x
  proof (cases "x < a")
    case True
    with t x same [OF True] show ?thesis by (simp add: tiled_def)
  next
    case False
    then have "\<forall>h \<in> set gs. \<not> in_gap x h" using gs by (auto simp: in_gap_def)
    moreover have "in_chunk x c" using c new False x by (simp add: in_chunk_def)
    ultimately show ?thesis by auto
  qed
  with t assms(3) c cs show ?thesis by (fastforce simp: tiled_def)
qed

lemma tiled_last:
  assumes "tiled policy segs lo a cs gs" "d \<in> set cs"
  shows "chunk_end d \<le> chunk_end (last cs) \<and> chunk_end d \<le> a \<and> (d \<noteq> last cs \<longrightarrow> chunk_end d < ch_offset (last cs))"
proof -
  obtain ds e where cs: "cs = ds @ [e]" using assms(2) by (cases cs rule: rev_cases) auto
  have "sorted_wrt (\<lambda>c d. chunk_end c < ch_offset d) cs" "\<forall>c \<in> set cs. chunk_ok policy segs c \<and> chunk_end c \<le> a"
    using assms(1) by (simp_all add: tiled_def)
  then show ?thesis using assms(2) by (fastforce simp: cs sorted_wrt_append chunk_ok_def)
qed

lemma tiled_new_chunk:
  assumes t: "tiled policy segs lo a cs gs" and "lo \<le> a" and c: "chunk_ok policy segs c" "ch_offset c = a" "chunk_end c = b"
    and sep: "cs = [] \<or> chunk_end (last cs) \<noteq> a"
  shows "tiled policy segs lo b (cs @ [c]) gs"
proof (rule tiled_chunk [OF t \<open>lo \<le> a\<close> _ c(1) _ c(3)])
  show "a < b" using c by (simp add: chunk_ok_def)
  have "chunk_end d < a" if "d \<in> set cs" for d
    using tiled_last [OF t that] sep that
    by (smt (verit) chunk_ok_def empty_iff empty_set last_in_set t tiled_def)
  then show "sorted_wrt (\<lambda>c d. chunk_end c < ch_offset d) (cs @ [c])"
    using t c(2) by (simp add: sorted_wrt_append tiled_def)
qed (use assms in \<open>auto simp: in_chunk_def\<close>)

lemma tiled_extend_chunk:
  assumes t: "tiled policy segs lo a cs gs" and "lo \<le> a" "a < b" and cs: "cs \<noteq> []" "chunk_end (last cs) = a"
    and c: "chunk_ok policy segs c" "ch_offset c = ch_offset (last cs)" "chunk_end c = b"
  shows "tiled policy segs lo b (butlast cs @ [c]) gs"
proof -
  obtain ds e where e: "cs = ds @ [e]" using cs(1) by (cases cs rule: rev_cases) auto
  have le: "lo \<le> ch_offset e" "sorted_wrt (\<lambda>c d. chunk_end c < ch_offset d) (ds @ [e])" "ch_offset e < chunk_end e"
    using t by (simp_all add: tiled_def e chunk_ok_def)
  have "tiled policy segs lo b (ds @ [c]) gs"
    using assms le by (intro tiled_chunk [OF t]) (auto simp: e in_chunk_def sorted_wrt_append)
  then show ?thesis by (simp add: e)
qed

lemma reported_quiet:
  assumes "reported segs lo a ks" "a < b" "\<And>x. a \<le> x \<Longrightarrow> x < b \<Longrightarrow> \<not> clash segs x"
  shows "reported segs lo b ks"
  using assms unfolding reported_def by (meson linorder_not_less order.trans order_less_imp_le)

lemma reported_conflict:
  assumes "reported segs lo a ks" "lo \<le> a" "a < b" "conflict_ok segs k" "cf_start k = a" "cf_end k = b"
  shows "reported segs lo b (ks @ [k])"
proof -
  have "\<exists>k' \<in> set (ks @ [k]). cf_start k' \<le> x \<and> x < cf_end k'" if "lo \<le> x" "x < b" "clash segs x" for x
    using assms that unfolding reported_def by (cases "x < a") fastforce+
  with assms show ?thesis by (fastforce simp: reported_def)
qed

end
