(* ===== verification/Tcp_Stream_Runs.thy ===== *)
theory Tcp_Stream_Runs
  imports Tcp_Stream_Correct
begin

text \<open>
  The sweep as a whole and the runs of an assembler: the reconstruction of every reachable state is
  the one the overlap policy specifies.
\<close>

section \<open>The step of the sweep\<close>

definition segs_ok :: "nat \<Rightarrow> stream_seg list \<Rightarrow> bool" where
  "segs_ok span segs \<longleftrightarrow> span < 2 ^ 30 \<and> (\<forall>s \<in> set segs. ev_validate (ss_bytes s) \<and> 0 < ev_len (ss_bytes s))
     \<and> (\<forall>s \<in> set segs. \<forall>t \<in> set segs. seg_end t - ss_start s \<le> int span)"

lemma segs_ok_fits:
  assumes ok: "segs_ok span segs" and w: "whole_window segs a b" and i: "i \<in> cover segs a"
  shows "i < length segs \<and> fits (segs ! i) a b"
proof -
  have n: "i < length segs" using whole_window_fits(1) [OF w i] .
  then have s: "segs ! i \<in> set segs" by simp
  then have "seg_end (segs ! i) - ss_start (segs ! i) \<le> int span" "ev_validate (ss_bytes (segs ! i))" "span < 2 ^ 30"
    using ok by (simp_all add: segs_ok_def)
  then have "ev_len (ss_bytes (segs ! i)) < 2 ^ 63" by (simp add: seg_end_def)
  with n whole_window_fits [OF w i] \<open>ev_validate (ss_bytes (segs ! i))\<close> w show ?thesis
    by (simp add: fits_def whole_window_def)
qed

definition piece_ok :: "overlap_policy \<Rightarrow> stream_seg list \<Rightarrow> int \<Rightarrow> int \<Rightarrow> evidence \<Rightarrow> bool" where
  "piece_ok policy segs a b e \<longleftrightarrow> ev_validate e \<and> int (ev_len e) = b - a
     \<and> (\<forall>x. a \<le> x \<and> x < b \<longrightarrow> delivers policy segs x (ev_trace e ! nat (x - a)))"

lemma chunk_ok_piece:
  "piece_ok policy segs a b e \<Longrightarrow> a < b \<Longrightarrow> chunk_ok policy segs \<lparr>ch_offset = a, ch_bytes = e\<rparr>
     \<and> chunk_end \<lparr>ch_offset = a, ch_bytes = e\<rparr> = b"
  by (simp add: piece_ok_def chunk_ok_def chunk_end_def)

lemma chunk_ok_join:
  assumes c: "chunk_ok policy segs c" "chunk_end c = a" and e: "piece_ok policy segs a b e" "a < b"
    and span: "b - ch_offset c \<le> int span" "span < 2 ^ 30"
  shows "\<exists>j. ev_append (ch_bytes c) e span = Ok j \<and> chunk_ok policy segs (c\<lparr>ch_bytes := j\<rparr>)
    \<and> chunk_end (c\<lparr>ch_bytes := j\<rparr>) = b"
proof -
  have v: "ev_validate (ch_bytes c)" "ev_validate e" using c(1) e(1) by (simp_all add: chunk_ok_def piece_ok_def)
  have lens: "length (ev_trace (ch_bytes c)) = ev_len (ch_bytes c)" "length (ev_trace e) = ev_len e"
    using v by (simp_all add: ev_trace_length ev_len_def)
  have n: "int (ev_len (ch_bytes c)) = a - ch_offset c" "int (ev_len e) = b - a"
    using c(2) e(1) by (auto simp: chunk_end_def piece_ok_def)
  then have fit: "length (ev_trace (ch_bytes c)) + length (ev_trace e) \<le> span" using lens span(1) by linarith
  have "span < usize_limit" using span(2) by (simp add: usize_limit_def)
  then obtain j where j: "ev_append (ch_bytes c) e span = Ok j" "ev_validate j"
    "ev_trace j = ev_trace (ch_bytes c) @ ev_trace e"
    using evidence.join_ok [OF v fit] fit by auto
  have lj: "int (ev_len j) = b - ch_offset c" using ev_trace_length [OF j(2)] j(3) lens n by (simp add: ev_len_def)
  have "delivers policy segs x (ev_trace j ! nat (x - ch_offset c))" if "ch_offset c \<le> x" "x < b" for x
  proof (cases "x < a")
    case True
    then have "nat (x - ch_offset c) < length (ev_trace (ch_bytes c))" using lens n that by linarith
    then show ?thesis using c that True by (simp add: j(3) nth_append chunk_ok_def)
  next
    case False
    then have "\<not> nat (x - ch_offset c) < length (ev_trace (ch_bytes c))"
      "nat (x - ch_offset c) - length (ev_trace (ch_bytes c)) = nat (x - a)" using lens n that by linarith+
    then show ?thesis using e(1) that False by (simp add: j(3) nth_append piece_ok_def)
  qed
  moreover have "ch_offset c < b" using c e(2) by (simp add: chunk_ok_def)
  ultimately show ?thesis using j lj by (auto simp: chunk_ok_def chunk_end_def)
qed

lemma add_chunk_ok:
  assumes t: "tiled policy segs lo a (sr_chunks res) (sr_gaps res)" "lo \<le> a" "a < b"
    and e: "piece_ok policy segs a b e"
    and span: "\<And>c. c \<in> set (sr_chunks res) \<Longrightarrow> b - ch_offset c \<le> int span" "span < 2 ^ 30"
  shows "\<exists>cs. add_chunk span a e res = Ok (res\<lparr>sr_chunks := cs\<rparr>) \<and> tiled policy segs lo b cs (sr_gaps res)"
proof (cases "sr_chunks res \<noteq> [] \<and> chunk_end (last (sr_chunks res)) = a")
  case True
  let ?c = "last (sr_chunks res)"
  have c: "?c \<in> set (sr_chunks res)" "chunk_ok policy segs ?c" using True t(1) by (simp_all add: tiled_def)
  obtain j where "ev_append (ch_bytes ?c) e span = Ok j" "chunk_ok policy segs (?c\<lparr>ch_bytes := j\<rparr>)"
    "chunk_end (?c\<lparr>ch_bytes := j\<rparr>) = b"
    using chunk_ok_join [OF c(2) _ e t(3) span(1) [OF c(1)] span(2)] True by auto
  moreover from this have "tiled policy segs lo b (butlast (sr_chunks res) @ [?c\<lparr>ch_bytes := j\<rparr>]) (sr_gaps res)"
    using True by (intro tiled_extend_chunk [OF t]) simp_all
  ultimately show ?thesis using True by (auto simp: add_chunk_def chunk_end_def)
next
  case False
  have "tiled policy segs lo b (sr_chunks res @ [\<lparr>ch_offset = a, ch_bytes = e\<rparr>]) (sr_gaps res)"
    using chunk_ok_piece [OF e t(3)] False by (intro tiled_new_chunk [OF t(1,2)]) auto
  then show ?thesis using False by (auto simp: add_chunk_def chunk_end_def)
qed

text \<open>The slice of the chosen segment is a piece the policy delivers, unless bytes clash under rejection.\<close>

lemma slice_piece_ok:
  assumes ok: "segs_ok span segs" and w: "whole_window segs a b" and ne: "cover segs a \<noteq> {}"
    and no: "policy = RejectConflict \<Longrightarrow> \<forall>i \<in> cover segs a. window_of (segs ! i) a b = window_of (segs ! pick policy (cover segs a)) a b"
  defines "c \<equiv> segs ! pick policy (cover segs a)"
  shows "\<exists>e. ev_slice (ss_bytes c) (nat (a - ss_start c)) (nat (b - ss_start c)) = Ok e \<and> piece_ok policy segs a b e"
proof -
  have p: "pick policy (cover segs a) \<in> cover segs a" using ne by (simp add: pick_def)
  have f: "fits c a b" using segs_ok_fits [OF ok w p] by (simp add: c_def)
  have v: "ev_validate (ss_bytes c)" using f by (simp add: fits_def)
  let ?lo = "nat (a - ss_start c)" and ?hi = "nat (b - ss_start c)"
  have r: "?lo < ?hi" "?hi \<le> length (ev_trace (ss_bytes c))" using fits_range(3,4) [OF f] ev_trace_length [OF v] by simp_all
  obtain e where e: "ev_slice (ss_bytes c) ?lo ?hi = Ok e" "ev_validate e" "ev_trace e = sub_list (ev_trace (ss_bytes c)) ?lo ?hi"
    using evidence.cut_ok [OF v less_imp_le [OF r(1)] r(2)] by blast
  have ab: "ss_start c \<le> a" "a < b" using f by (simp_all add: fits_def)
  have len: "int (ev_len e) = b - a"
    using ev_trace_length [OF e(2)] e(3) r ab by (simp add: ev_len_def length_sub_list)
  have "delivers policy segs x (ev_trace e ! nat (x - a))" if x: "a \<le> x" "x < b" for x
  proof -
    have cx: "cover segs x = cover segs a" by (rule whole_window_cover [OF w x])
    have "nat (x - a) < ?hi - ?lo" using x ab by linarith
    then have "ev_trace e ! nat (x - a) = ev_trace (ss_bytes c) ! (?lo + nat (x - a))"
      unfolding e(3) using r(2) by (rule nth_sub_list)
    also have "?lo + nat (x - a) = nat (x - ss_start c)" using x ab by linarith
    finally have t: "ev_trace e ! nat (x - a) = seg_trace c x" by (simp add: seg_trace_def)
    have "nat (x - ss_start c) < length (ev_data (ss_bytes c))" using f x by (auto simp: fits_def seg_end_def ev_len_def)
    then have b: "fst (seg_trace c x) = seg_byte c x"
      using length_ev_labels [OF v] by (simp add: seg_trace_def seg_byte_def ev_trace_def)
    have "seg_byte (segs ! i) x = seg_byte c x" if "policy = RejectConflict" "i \<in> cover segs a" for i
    proof -
      have "window_of (segs ! i) a b = window_of c a b" using no that by (simp add: c_def)
      then show ?thesis using window_eq_iff [of "segs ! i" a b c] segs_ok_fits [OF ok w that(2)] f x by blast
    qed
    then show ?thesis unfolding delivers_def cx c_def [symmetric] t b using ne by blast
  qed
  with e len show ?thesis by (auto simp: piece_ok_def)
qed


lemma clash_window:
  assumes ok: "segs_ok span segs" and w: "whole_window segs a b" and p: "p \<in> cover segs a"
  shows "(\<exists>i \<in> cover segs a. window_of (segs ! i) a b \<noteq> window_of (segs ! p) a b)
    \<longleftrightarrow> (\<exists>x. a \<le> x \<and> x < b \<and> clash segs x)"
proof -
  have eq: "window_of (segs ! i) a b = window_of (segs ! j) a b \<longleftrightarrow>
      (\<forall>x. a \<le> x \<and> x < b \<longrightarrow> seg_byte (segs ! i) x = seg_byte (segs ! j) x)"
    if "i \<in> cover segs a" "j \<in> cover segs a" for i j
    using segs_ok_fits [OF ok w that(1)] segs_ok_fits [OF ok w that(2)] by (simp add: window_eq_iff)
  have "clash segs x \<longleftrightarrow> (\<exists>i \<in> cover segs a. seg_byte (segs ! i) x \<noteq> seg_byte (segs ! p) x)"
    if "a \<le> x" "x < b" for x
    using p whole_window_cover [OF w that] unfolding clash_def by metis
  then show ?thesis using eq [OF _ p] by blast
qed

lemma window_conflict_ok:
  assumes ok: "segs_ok span segs" and w: "whole_window segs a b" and active: "set active = cover segs a"
    and x: "\<exists>x. a \<le> x \<and> x < b \<and> clash segs x"
  shows "conflict_ok segs \<lparr>cf_start = a, cf_end = b,
    cf_packets = sort_dedup (concat (map (\<lambda>i. window_packets (segs ! i) a b) active))\<rparr>"
proof -
  have here: "fst (snd (seg_trace (segs ! i) x)) \<in> set (window_packets (segs ! i) a b)"
    if "a \<le> x" "x < b" "i \<in> cover segs x" for x i
  proof -
    let ?s = "segs ! i" and ?tr = "sub_list (ev_trace (ss_bytes (segs ! i))) (nat (a - ss_start (segs ! i))) (nat (b - ss_start (segs ! i)))"
    have f: "fits ?s a b" using segs_ok_fits [OF ok w] that whole_window_cover [OF w that(1,2)] by simp
    have v: "ev_validate (ss_bytes ?s)" using f by (simp add: fits_def)
    have k: "nat (x - a) < nat (b - ss_start ?s) - nat (a - ss_start ?s)"
      "nat (a - ss_start ?s) + nat (x - a) = nat (x - ss_start ?s)" using f that by (auto simp: fits_def)
    have hi: "nat (b - ss_start ?s) \<le> length (ev_trace (ss_bytes ?s))"
      using fits_range(4) [OF f] ev_trace_length [OF v] by simp
    have "?tr ! nat (x - a) = seg_trace ?s x" using nth_sub_list [OF k(1) hi] k(2) by (simp add: seg_trace_def)
    moreover have "nat (x - a) < length ?tr" using k(1) hi by (simp add: length_sub_list)
    ultimately have "seg_trace ?s x \<in> set ?tr" by (metis nth_mem)
    then show ?thesis unfolding window_packets_spec [OF f] by (rule imageI)
  qed
  have "fst (snd (seg_trace (segs ! i) x)) \<in> set (sort_dedup (concat (map (\<lambda>i. window_packets (segs ! i) a b) active)))"
    if "a \<le> x" "x < b" "i \<in> cover segs x" for x i
    using here [OF that] that active whole_window_cover [OF w that(1,2)] by auto
  with x show ?thesis unfolding conflict_ok_def by simp
qed

lemma sweep_window_ok:
  assumes ok: "segs_ok span segs" and w: "whole_window segs a b"
    and active: "sorted active" "set active = cover segs a"
    and t: "tiled policy segs lo a (sr_chunks res) (sr_gaps res)" "lo \<le> a"
    and r: "reported segs lo a (sr_conflicts res)"
  shows "\<exists>res'. sweep_window policy span segs a b active res = Ok res'
    \<and> tiled policy segs lo b (sr_chunks res') (sr_gaps res') \<and> reported segs lo b (sr_conflicts res')
    \<and> sr_base res' = sr_base res \<and> sr_anchored res' = sr_anchored res"
proof (cases "active = []")
  case True
  then have none: "cover segs x = {}" if "a \<le> x" "x < b" for x using active(2) whole_window_cover [OF w that] by simp
  have ab: "a < b" using w by (simp add: whole_window_def)
  have "tiled policy segs lo b (sr_chunks res) (sr_gaps res @ [\<lparr>gap_start = a, gap_end = b, gap_reason = ''missing_capture_bytes''\<rparr>])"
    using none ab by (intro tiled_gap [OF t]) (simp_all add: gap_ok_def)
  moreover have "reported segs lo b (sr_conflicts res)"
    using none by (intro reported_quiet [OF r ab]) (simp add: clash_def)
  ultimately show ?thesis using True by (simp add: sweep_window_def add_gap_def)
next
  case False
  have ab: "a < b" using w by (simp add: whole_window_def)
  define p where "p = pick policy (cover segs a)"
  have ne: "cover segs a \<noteq> {}" using False active(2) by (metis set_empty)
  then have p: "p \<in> cover segs a" by (simp add: p_def pick_def)
  have chosen: "(if policy = LastObserved then last active else hd active) = p"
    using sorted_pick [OF active(1) False] by (simp add: p_def active(2))
  have fp: "p < length segs" "fits (segs ! p) a b" using segs_ok_fits [OF ok w p] by simp_all
  let ?c = "segs ! p" and ?sel = "window_of (segs ! p) a b"
  have all: "\<forall>i \<in> set active. i < length segs \<and> fits (segs ! i) a b" using segs_ok_fits [OF ok w] active(2) by blast
  define conf where "conf \<longleftrightarrow> (\<exists>i \<in> cover segs a. window_of (segs ! i) a b \<noteq> ?sel)"
  define dup where "dup = sr_duplicates res + (\<Sum>i \<leftarrow> active. if i \<noteq> p \<and> window_of (segs ! i) a b = ?sel then length ?sel else 0)"
  define pk where "pk = concat (map (\<lambda>i. window_packets (segs ! i) a b) active)"
  define res1 where "res1 = (if conf then res\<lparr>sr_duplicates := dup, sr_conflicts := sr_conflicts res
       @ [\<lparr>cf_start = a, cf_end = b, cf_packets = sort_dedup pk\<rparr>]\<rparr> else res\<lparr>sr_duplicates := dup\<rparr>)"
  have scan: "scan_active segs a b p ?sel active (False, sr_duplicates res, []) = Ok (conf, dup, pk)"
    using scan_active_spec [OF all, of p ?sel False "sr_duplicates res" "[]"]
    by (simp add: conf_def dup_def pk_def active(2))
  have step: "sweep_window policy span segs a b active res =
      (if conf \<and> policy = RejectConflict then Ok (add_gap a b ''conflicting_capture_bytes'' res1)
       else and_then (ev_slice (ss_bytes ?c) (nat (a - ss_start ?c)) (nat (b - ss_start ?c))) (\<lambda>e. add_chunk span a e res1))"
    using False fp fits_range(1,2) [OF fp(2)]
    by (simp add: sweep_window_def chosen Let_def fits_range_at scan res1_def)
  have conf: "conf \<longleftrightarrow> (\<exists>x. a \<le> x \<and> x < b \<and> clash segs x)"
    unfolding conf_def by (rule clash_window [OF ok w p])
  have rep: "reported segs lo b (sr_conflicts res1)"
  proof (cases conf)
    case True
    then show ?thesis
      using window_conflict_ok [OF ok w active(2)] conf
      by (auto simp: res1_def pk_def intro!: reported_conflict [OF r t(2) ab])
  next
    case False
    then show ?thesis using conf by (auto simp: res1_def intro!: reported_quiet [OF r ab])
  qed
  have t1: "tiled policy segs lo a (sr_chunks res1) (sr_gaps res1)" and same: "sr_base res1 = sr_base res"
    "sr_anchored res1 = sr_anchored res" using t(1) by (simp_all add: res1_def)
  show ?thesis
  proof (cases "conf \<and> policy = RejectConflict")
    case True
    have "tiled policy segs lo b (sr_chunks res1) (sr_gaps res1 @ [\<lparr>gap_start = a, gap_end = b, gap_reason = ''conflicting_capture_bytes''\<rparr>])"
      using True conf ab by (intro tiled_gap [OF t1 t(2)]) (simp_all add: gap_ok_def)
    then show ?thesis using True step rep same by (simp add: add_gap_def)
  next
    case no: False
    obtain e where e: "ev_slice (ss_bytes ?c) (nat (a - ss_start ?c)) (nat (b - ss_start ?c)) = Ok e" "piece_ok policy segs a b e"
      using slice_piece_ok [OF ok w, of policy] no p unfolding conf_def p_def by blast
    have "b - ch_offset c \<le> int span" if "c \<in> set (sr_chunks res1)" for c
    proof -
      have "chunk_ok policy segs c" using t1 that by (simp add: tiled_def)
      then have "cover segs (ch_offset c) \<noteq> {}" by (auto simp: chunk_ok_def delivers_def)
      then obtain i where "i < length segs" "ss_start (segs ! i) \<le> ch_offset c" by (auto simp: cover_def)
      moreover have "seg_end ?c - ss_start (segs ! i) \<le> int span" if "i < length segs" for i
        using ok that fp(1) by (simp add: segs_ok_def)
      ultimately show ?thesis using fp(2) by (fastforce simp: fits_def)
    qed
    moreover have "span < 2 ^ 30" using ok by (simp add: segs_ok_def)
    ultimately obtain cs where
      "add_chunk span a e res1 = Ok (res1\<lparr>sr_chunks := cs\<rparr>)" "tiled policy segs lo b cs (sr_gaps res1)"
      using add_chunk_ok [OF t1 t(2) ab e(2), of span] by blast
    then show ?thesis using no step e(1) rep same by auto
  qed
qed


section \<open>The whole sweep\<close>

definition ends_listed :: "stream_seg list \<Rightarrow> int list \<Rightarrow> bool" where
  "ends_listed segs (bs :: int list) \<longleftrightarrow> (\<forall>i < length segs. (ss_start (segs ! i) \<le> hd bs \<or> ss_start (segs ! i) \<in> set bs)
     \<and> (seg_end (segs ! i) \<le> hd bs \<or> seg_end (segs ! i) \<in> set bs))"

lemma ends_listed_window:
  assumes "ends_listed segs (a # b # bs)" "sorted_wrt (<) (a # b # bs)"
  shows "whole_window segs a b" "ends_listed segs (b # bs)"
proof -
  have ab: "a < b" "\<And>y. y \<in> set bs \<Longrightarrow> b < y" using assms(2) by simp_all
  have far: "x \<le> a \<or> x = b \<or> (x \<in> set bs \<and> b < x)" if "x \<le> a \<or> x \<in> set (a # b # bs)" for x
    using that ab by auto
  have *: "(ss_start (segs ! i) \<le> a \<or> ss_start (segs ! i) = b \<or> (ss_start (segs ! i) \<in> set bs \<and> b < ss_start (segs ! i)))
      \<and> (seg_end (segs ! i) \<le> a \<or> seg_end (segs ! i) = b \<or> (seg_end (segs ! i) \<in> set bs \<and> b < seg_end (segs ! i)))"
    if "i < length segs" for i
    using assms(1) that far unfolding ends_listed_def by (metis list.sel(1))
  show "whole_window segs a b" unfolding whole_window_def using ab(1) * by force
  show "ends_listed segs (b # bs)" unfolding ends_listed_def using ab(1) * by force
qed

definition events_ok :: "stream_seg list \<Rightarrow> events \<Rightarrow> bool" where
  "events_ok segs ev \<longleftrightarrow> (\<forall>k. set (fst (event_at ev k)) = {j. j < length segs \<and> ss_start (segs ! j) = k}
     \<and> set (snd (event_at ev k)) = {j. j < length segs \<and> seg_end (segs ! j) = k})"

lemma sweep_ok:
  assumes "segs_ok span segs" "events_ok segs ev" "bs \<noteq> []" "sorted_wrt (<) bs" "ends_listed segs bs"
    "set bs \<subseteq> fst ` set ev"
    "sorted active" "distinct active" "set active = {i. i < length segs \<and> ss_start (segs ! i) < hd bs \<and> hd bs \<le> seg_end (segs ! i)}"
    "tiled policy segs lo (hd bs) (sr_chunks res) (sr_gaps res)" "lo \<le> hd bs" "reported segs lo (hd bs) (sr_conflicts res)"
  shows "\<exists>res'. sweep policy span segs ev (windows bs) active res = Ok res'
    \<and> tiled policy segs lo (last bs) (sr_chunks res') (sr_gaps res') \<and> reported segs lo (last bs) (sr_conflicts res')
    \<and> sr_base res' = sr_base res \<and> sr_anchored res' = sr_anchored res"
  using assms(3-)
proof (induction bs arbitrary: active res rule: induct_list012)
  case (2 a)
  then show ?case by (simp add: windows_def)
next
  case (3 a b bs)
  note prems = "3.prems"
  have ab: "a < b" and sorted: "sorted_wrt (<) (b # bs)" using prems(2) by simp_all
  note w = ends_listed_window [OF prems(3,2)]
  obtain starts ends where ev: "bt_get ev a = Some (starts, ends)"
    using prems(4) by (metis bt_get_None_iff list.set_intros(1) not_None_eq subsetD surj_pair)
  then have at: "event_at ev a = (starts, ends)" by (simp add: event_at_def or_else_def)
  have sets: "set starts = {j. j < length segs \<and> ss_start (segs ! j) = a}"
    "set ends = {j. j < length segs \<and> seg_end (segs ! j) = a}"
    using assms(2) unfolding events_ok_def by (metis at fst_conv, metis at snd_conv)
  let ?act = "activate starts ends active"
  have len: "ss_start (segs ! i) < seg_end (segs ! i)" if "i < length segs" for i
    using assms(1) that by (auto simp: segs_ok_def seg_end_def)
  have act: "sorted ?act" "distinct ?act" "set ?act = cover segs a"
  proof -
    show "sorted ?act" "distinct ?act" using activate_sorted [OF prems(5,6)] by simp_all
    show "set ?act = cover segs a"
      using len prems(7) unfolding activate_set sets cover_def by force
  qed
  have next_active: "set ?act = {i. i < length segs \<and> ss_start (segs ! i) < b \<and> b \<le> seg_end (segs ! i)}"
    using w(1) ab unfolding act(3) cover_def whole_window_def by force
  obtain res1 where r1: "sweep_window policy span segs a b ?act res = Ok res1"
    "tiled policy segs lo b (sr_chunks res1) (sr_gaps res1)" "reported segs lo b (sr_conflicts res1)"
    "sr_base res1 = sr_base res" "sr_anchored res1 = sr_anchored res"
    using sweep_window_ok [OF assms(1) w(1) act(1,3), of policy lo res] prems(8-10) by auto
  have "windows (a # b # bs) = (a, b) # windows (b # bs)" by (simp add: windows_def)
  then have "sweep policy span segs ev (windows (a # b # bs)) active res
      = sweep policy span segs ev (windows (b # bs)) ?act res1"
    using ev r1(1) by (simp add: Let_def)
  moreover have "\<exists>res'. sweep policy span segs ev (windows (b # bs)) ?act res1 = Ok res'
    \<and> tiled policy segs lo (last (b # bs)) (sr_chunks res') (sr_gaps res') \<and> reported segs lo (last (b # bs)) (sr_conflicts res')
    \<and> sr_base res' = sr_base res1 \<and> sr_anchored res' = sr_anchored res1"
    using sorted w(2) prems(4) act(1,2) next_active r1(2,3) prems(9) ab by (intro "3.IH"(2)) auto
  ultimately show ?case using r1(4,5) by simp
qed simp

section \<open>Runs of the assembler\<close>

text \<open>The states an assembler can reach, with the payloads it accepted: their sequence numbers and bytes.\<close>

inductive sa_run :: "u32 option \<Rightarrow> limits \<Rightarrow> (u32 \<times> evidence) list \<Rightarrow> stream_assembler \<Rightarrow> bool" for syn l where
    sa_start: "sa_run syn l [] (stream_new syn l)"
  | sa_push: "sa_run syn l given s \<Longrightarrow> stream_push s q e = Ok s' \<Longrightarrow>
      sa_run syn l (if ev_is_empty e then given else given @ [(q, e)]) s'"
  | sa_end: "sa_run syn l given s \<Longrightarrow> stream_end_at s q = Ok s' \<Longrightarrow> sa_run syn l given s'"

text \<open>The same runs with the sequence numbers of the accepted FINs.\<close>

inductive sa_history :: "u32 option \<Rightarrow> limits \<Rightarrow> (u32 \<times> evidence) list \<Rightarrow> u32 list \<Rightarrow> stream_assembler \<Rightarrow> bool" for syn l where
    history_start: "sa_history syn l [] [] (stream_new syn l)"
  | history_push: "sa_history syn l given fins s \<Longrightarrow> stream_push s q e = Ok s' \<Longrightarrow>
      sa_history syn l (if ev_is_empty e then given else given @ [(q, e)]) fins s'"
  | history_end: "sa_history syn l given fins s \<Longrightarrow> stream_end_at s q = Ok s' \<Longrightarrow> sa_history syn l given (fins @ [q]) s'"

lemma sa_history_run: "sa_history syn l given fins s \<Longrightarrow> sa_run syn l given s"
  by (induction rule: sa_history.induct) (rule sa_start, erule (1) sa_push, erule (1) sa_end)

definition sa_inv :: "stream_assembler \<Rightarrow> bool" where
  "sa_inv s \<longleftrightarrow> (\<forall>g \<in> set (sa_segments s). ev_validate (ss_bytes g) \<and> 0 < ev_len (ss_bytes g)
        \<and> sa_min s \<le> ss_start g \<and> seg_end g \<le> sa_max s)
     \<and> sa_max s - sa_min s \<le> int (max_stream_span (sa_limits s))
     \<and> - (2 ^ 31) < sa_min s \<and> sa_min s \<le> 0 \<and> 0 \<le> sa_max s
     \<and> (sa_anchored s \<longrightarrow> sa_min s = 0 \<and> sa_base s \<noteq> None)
     \<and> (\<forall>f. sa_fin s = Some f \<longrightarrow> - (2 ^ 31) < f \<and> f < 2 ^ 31 \<and> sa_base s \<noteq> None)
     \<and> sa_retained s = (\<Sum>g \<leftarrow> sa_segments s. ev_len (ss_bytes g))
     \<and> sa_retained s \<le> max_retained_payload (sa_limits s)
     \<and> length (sa_segments s) \<le> max_segments_per_flow (sa_limits s)"


lemma sequence_delta_OkD:
  assumes "sequence_delta q base = Ok d"
  shows "word_of_int d = q - base" "- (2 ^ 31) < d" "d < 2 ^ 31"
proof -
  have d: "d = sint (q - base)" "q - base \<noteq> 0x80000000"
    using assms by (auto simp: sequence_delta_def Let_def split: if_split_asm)
  then show w: "word_of_int d = q - base" by simp
  show "d < 2 ^ 31" using sint_lt [of "q - base"] d by simp
  have "- (2 ^ 31) \<le> d" using sint_ge [of "q - base"] d by simp
  moreover have "d \<noteq> - (2 ^ 31)"
  proof
    assume "d = - (2 ^ 31)"
    then have "q - base = word_of_int (- (2 ^ 31))" using w by simp
    with d(2) show False by simp
  qed
  ultimately show "- (2 ^ 31) < d" by simp
qed

lemma sequence_delta_Err: "sequence_delta q base = Err e \<longleftrightarrow>
    q - base = 0x80000000 \<and> e = error_new SequenceAmbiguous 0 ''sequence''
      ''exact half-space difference has no unique ordering''"
  by (auto simp: sequence_delta_def Let_def)

lemma sequence_delta_no_panic [simp]: "sequence_delta q base \<noteq> Panic"
  by (simp add: sequence_delta_def Let_def)

lemma sequence_delta_self [simp]: "sequence_delta q q = Ok 0"
  by (simp add: sequence_delta_def)

lemma stream_push_cases:
  assumes "stream_push s q e = Ok s'"
  obtains "ev_is_empty e" "s' = s"
  | d where "\<not> ev_is_empty e" "ev_validate e" "sequence_delta q (or_else (sa_base s) q) = Ok d"
      "sa_retained s + ev_len e \<le> max_retained_payload (sa_limits s)"
      "length (sa_segments s) < max_segments_per_flow (sa_limits s)"
      "max (sa_max s) (d + int (ev_len e)) - min (sa_min s) d \<le> int (max_stream_span (sa_limits s))"
      "sa_anchored s \<longrightarrow> 0 \<le> d"
      "s' = s\<lparr>sa_base := Some (or_else (sa_base s) q), sa_retained := sa_retained s + ev_len e,
         sa_min := min (sa_min s) d, sa_max := max (sa_max s) (d + int (ev_len e)),
         sa_segments := sa_segments s @ [\<lparr>ss_start = d, ss_bytes = e\<rparr>]\<rparr>"
  using assms
  by (auto simp: stream_push_def Let_def not_less not_le checked_add_eq_Some checked_add_i64_eq_Some ok_or_eq_Ok
      elim!: and_then_OkE split: if_split_asm)

lemma stream_end_cases:
  assumes "stream_end_at s q = Ok s'"
  obtains f where "sequence_delta q (or_else (sa_base s) q) = Ok f" "sa_min s \<le> f"
      "f - sa_min s \<le> int (max_stream_span (sa_limits s))" "\<forall>old. sa_fin s = Some old \<longrightarrow> old = f"
      "s' = s\<lparr>sa_base := Some (or_else (sa_base s) q), sa_fin := Some f\<rparr>"
  using assms
  by (auto simp: stream_end_at_def not_less elim!: and_then_OkE split: if_split_asm option.split_asm)

lemma sa_inv_new: "sa_inv (stream_new syn l)"
  by (auto simp: sa_inv_def stream_new_def)

lemma sa_inv_push:
  assumes inv: "sa_inv s" and push: "stream_push s q e = Ok s'"
  shows "sa_inv s' \<and> sa_limits s' = sa_limits s \<and> sa_anchored s' = sa_anchored s"
  using push
proof (cases rule: stream_push_cases)
  case 1
  then show ?thesis using inv by simp
next
  case (2 d)
  have d: "- (2 ^ 31) < d" using sequence_delta_OkD(2) [OF 2(3)] .
  have "0 < ev_len e" using 2(1) by (simp add: ev_is_empty_def ev_len_def)
  moreover have "\<forall>g \<in> set (sa_segments s). ev_validate (ss_bytes g) \<and> 0 < ev_len (ss_bytes g)
        \<and> min (sa_min s) d \<le> ss_start g \<and> seg_end g \<le> max (sa_max s) (d + int (ev_len e))"
    using inv by (auto simp: sa_inv_def)
  moreover have "- (2 ^ 31) < min (sa_min s) d" using inv d by (simp add: sa_inv_def)
  moreover have "min (sa_min s) d \<le> 0" "0 \<le> max (sa_max s) (d + int (ev_len e))"
    using inv by (auto simp: sa_inv_def min_le_iff_disj le_max_iff_disj)
  moreover have "sa_anchored s \<longrightarrow> min (sa_min s) d = 0" using inv 2(7) by (simp add: sa_inv_def)
  ultimately show ?thesis using inv 2(2,4,5,6) unfolding 2(8)
    by (simp add: sa_inv_def seg_end_def)
qed

lemma sa_inv_end:
  assumes inv: "sa_inv s" and "stream_end_at s q = Ok s'"
  shows "sa_inv s' \<and> sa_limits s' = sa_limits s \<and> sa_anchored s' = sa_anchored s"
  using assms(2)
proof (cases rule: stream_end_cases)
  case (1 f)
  then show ?thesis using inv sequence_delta_OkD [OF 1(1)] by (simp add: sa_inv_def)
qed

lemma sa_run_inv:
  "sa_run syn l given s \<Longrightarrow> sa_inv s \<and> sa_limits s = l \<and> sa_anchored s = (syn \<noteq> None)"
proof (induction rule: sa_run.induct)
  case sa_start
  then show ?case by (simp add: sa_inv_new) (simp add: stream_new_def)
next
  case (sa_push given s q e s')
  then show ?case using sa_inv_push by metis
next
  case (sa_end given s q s')
  then show ?case using sa_inv_end by metis
qed

text \<open>Each accepted payload is a segment, at an offset congruent to its sequence number.\<close>

definition placed :: "u32 option \<Rightarrow> (u32 \<times> evidence) list \<Rightarrow> stream_seg list \<Rightarrow> bool" where
  "placed base given segs \<longleftrightarrow> list_all2 (\<lambda>(q, e) g. ss_bytes g = e
     \<and> (\<exists>b. base = Some b \<and> word_of_int (ss_start g) = q - b)) given segs"

lemma sa_run_placed:
  "sa_run syn l given s \<Longrightarrow> placed (sa_base s) given (sa_segments s)
     \<and> (syn \<noteq> None \<longrightarrow> sa_base s = map_option (\<lambda>n. n + 1) syn)"
proof (induction rule: sa_run.induct)
  case sa_start
  then show ?case by (simp add: stream_new_def placed_def)
next
  case (sa_push given s q e s')
  have same: "placed (Some (or_else (sa_base s) q)) given (sa_segments s)"
    using sa_push.IH by (cases "sa_base s") (auto simp: placed_def or_else_def list_all2_conv_all_nth split: prod.splits)
  from sa_push.hyps(2) show ?case
  proof (cases rule: stream_push_cases)
    case 1
    then show ?thesis using sa_push.IH by simp
  next
    case (2 d)
    then show ?thesis using same sa_push.IH sequence_delta_OkD(1) [OF 2(3)]
      by (auto simp: placed_def list_all2_appendI or_else_def split: option.split)
  qed
next
  case (sa_end given s q s')
  have same: "placed (Some (or_else (sa_base s) q)) given (sa_segments s)"
    using sa_end.IH by (cases "sa_base s") (auto simp: placed_def or_else_def list_all2_conv_all_nth split: prod.splits)
  from sa_end.hyps(2) show ?case
    by (cases rule: stream_end_cases) (use same sa_end.IH in \<open>auto simp: or_else_def split: option.split\<close>)
qed


section \<open>Reconstruction\<close>

lemma sa_segs_ok:
  assumes "sa_inv s" "limits_validate (sa_limits s) = Ok ()"
  shows "segs_ok (max_stream_span (sa_limits s)) (sa_segments s)"
proof -
  have span: "sa_max s - sa_min s \<le> int (max_stream_span (sa_limits s))"
    and segs: "\<And>g. g \<in> set (sa_segments s) \<Longrightarrow> ev_validate (ss_bytes g) \<and> 0 < ev_len (ss_bytes g)
        \<and> sa_min s \<le> ss_start g \<and> seg_end g \<le> sa_max s"
    using assms(1) by (simp_all add: sa_inv_def)
  have "seg_end t - ss_start g \<le> int (max_stream_span (sa_limits s))"
    if "g \<in> set (sa_segments s)" "t \<in> set (sa_segments s)" for g t
    using segs [OF that(1)] segs [OF that(2)] span by linarith
  with segs limits_validate_OkD(10) [OF assms(2)] show ?thesis by (simp add: segs_ok_def)
qed

text \<open>
  The reconstruction: the boundaries run from the first to the last offset that is reported, chunks
  and gaps tile that range, and clashes are reported.
\<close>

definition reconstructs :: "overlap_policy \<Rightarrow> stream_seg list \<Rightarrow> int \<Rightarrow> int \<Rightarrow> stream_result \<Rightarrow> bool" where
  "reconstructs policy segs lo hi res \<longleftrightarrow>
     tiled policy segs lo hi (sr_chunks res) (sr_gaps res) \<and> reported segs lo hi (sr_conflicts res)
     \<and> (\<forall>g \<in> set segs. lo \<le> ss_start g \<and> seg_end g \<le> hi)"

lemma sorted_ends:
  fixes bs :: "int list"
  assumes "sorted_wrt (<) bs" "x \<in> set bs"
  shows "hd bs \<le> x" "x \<le> last bs"
proof -
  show "hd bs \<le> x" using assms by (cases bs) auto
  show "x \<le> last bs" using assms by (cases bs rule: rev_cases) (auto simp: sorted_wrt_append)
qed

lemma stream_finish_ok:
  assumes inv: "sa_inv s" and lim: "limits_validate (sa_limits s) = Ok ()" and ne: "sa_segments s \<noteq> []"
    and fin: "\<And>f. sa_fin s = Some f \<Longrightarrow> sa_max s \<le> f"
  shows "\<exists>lo hi res. stream_finish s policy = Ok res \<and> reconstructs policy (sa_segments s) lo hi res
    \<and> sr_base res = sa_base s \<and> sr_anchored res = sa_anchored s
    \<and> (sa_anchored s \<longrightarrow> lo = 0) \<and> (\<forall>f. sa_fin s = Some f \<longrightarrow> hi = f)"
proof -
  let ?ev = "stream_events s" and ?segs = "sa_segments s"
  define bs where "bs = map fst ?ev"
  note E = stream_events_spec [of s]
  have bs: "set bs = ss_start ` set ?segs \<union> seg_end ` set ?segs \<union> extra_bounds s" using E(2) by (simp add: bs_def)
  have sorted: "sorted_wrt (<) bs" using E(1) by (simp add: bs_def bt_ordered_def)
  have "bs \<noteq> []" using ne bs by auto
  then have hd: "\<And>x. x \<in> set bs \<Longrightarrow> hd bs \<le> x" and last: "\<And>x. x \<in> set bs \<Longrightarrow> x \<le> last bs"
    using sorted_ends [OF sorted] by blast+
  have segs: "sa_min s \<le> ss_start g" "ss_start g < seg_end g" "seg_end g \<le> sa_max s" if "g \<in> set ?segs" for g
    using inv that by (auto simp: sa_inv_def seg_end_def)
  have zero: "0 \<le> sa_max s" "sa_anchored s \<Longrightarrow> sa_min s = 0" using inv by (simp_all add: sa_inv_def)
  have listed: "ends_listed ?segs bs" using bs by (simp add: ends_listed_def)
  have starts: "hd bs \<le> ss_start (?segs ! i)" if "i < length ?segs" for i using hd bs that by simp
  have "segs_ok (max_stream_span (sa_limits s)) ?segs" by (rule sa_segs_ok [OF inv lim])
  moreover have "events_ok ?segs ?ev" using E(3,4) by (simp add: events_ok_def)
  moreover have "tiled policy ?segs (hd bs) (hd bs) [] []" "reported ?segs (hd bs) (hd bs) []"
    by (simp_all add: tiled_def reported_def)
  moreover have "{i. i < length ?segs \<and> ss_start (?segs ! i) < hd bs \<and> hd bs \<le> seg_end (?segs ! i)} = {}"
    using starts by fastforce
  moreover have "set bs \<subseteq> fst ` set ?ev" by (simp add: bs_def)
  ultimately obtain res where res: "sweep policy (max_stream_span (sa_limits s)) ?segs ?ev (windows bs) [] (empty_result s) = Ok res"
    "tiled policy ?segs (hd bs) (last bs) (sr_chunks res) (sr_gaps res)" "reported ?segs (hd bs) (last bs) (sr_conflicts res)"
    "sr_base res = sr_base (empty_result s)" "sr_anchored res = sr_anchored (empty_result s)"
    using sweep_ok [of "max_stream_span (sa_limits s)" ?segs ?ev bs "[]" policy "hd bs" "empty_result s"]
      \<open>bs \<noteq> []\<close> sorted listed by (auto simp: empty_result_def)
  have "stream_finish s policy = Ok res"
    using lim ne fin res(1) by (auto simp: stream_finish_def Let_def bs_def split: option.split)
  moreover have "reconstructs policy ?segs (hd bs) (last bs) res"
    using res(2,3) hd last bs by (simp add: reconstructs_def)
  moreover have "hd bs = 0" if "sa_anchored s"
  proof -
    have "0 \<in> set bs" using that bs by (simp add: extra_bounds_def)
    moreover have "0 \<le> x" if x: "x \<in> set bs" for x
    proof -
      consider g where "g \<in> set ?segs" "x = ss_start g \<or> x = seg_end g" | "x \<in> extra_bounds s"
        using x [unfolded bs] by (elim UnE imageE) blast+
      then show ?thesis
      proof cases
        case (1 g)
        then show ?thesis using segs [OF 1(1)] zero(2) [OF \<open>sa_anchored s\<close>] by linarith
      next
        case 2
        then show ?thesis using fin zero(1)
          by (cases "sa_fin s") (auto simp: extra_bounds_def split: if_split_asm dest: order_trans)
      qed
    qed
    ultimately show ?thesis using hd \<open>bs \<noteq> []\<close> by (meson hd_in_set order_antisym)
  qed
  moreover have "last bs = f" if "sa_fin s = Some f" for f
  proof -
    have "f \<in> set bs" using that bs by (simp add: extra_bounds_def)
    moreover have "x \<le> f" if x: "x \<in> set bs" for x
    proof -
      consider g where "g \<in> set ?segs" "x = ss_start g \<or> x = seg_end g" | "x \<in> extra_bounds s"
        using x [unfolded bs] by (elim UnE imageE) blast+
      then show ?thesis
      proof cases
        case (1 g)
        then show ?thesis using segs [OF 1(1)] fin [OF \<open>sa_fin s = Some f\<close>] by linarith
      next
        case 2
        then show ?thesis using fin [OF \<open>sa_fin s = Some f\<close>] zero(1) \<open>sa_fin s = Some f\<close>
          by (auto simp: extra_bounds_def split: if_split_asm)
      qed
    qed
    ultimately show ?thesis using last \<open>bs \<noteq> []\<close> by (meson last_in_set order_antisym)
  qed
  ultimately show ?thesis using res(4,5) by (auto simp: empty_result_def)
qed


section \<open>What holds in every run\<close>

lemma placed_nonempty: "placed b given segs \<Longrightarrow> given \<noteq> [] \<Longrightarrow> segs \<noteq> [] \<and> (\<exists>base. b = Some base)"
  by (cases given; cases segs) (auto simp: placed_def)

lemma finish_fin:
  assumes "stream_finish s policy = Ok res" "sa_segments s \<noteq> []" "sa_fin s = Some f"
  shows "sa_max s \<le> f"
  using assms by (auto simp: stream_finish_def Let_def elim!: and_then_OkE split: if_split_asm)

lemma sa_run_reconstructs:
  assumes "sa_run syn l given s" and "given \<noteq> []" and "stream_finish s policy = Ok res"
  shows "\<exists>base segs lo hi. sr_base res = Some base \<and> placed (Some base) given segs
    \<and> reconstructs policy segs lo hi res
    \<and> (syn \<noteq> None \<longrightarrow> Some base = map_option (\<lambda>n. n + 1) syn \<and> lo = 0)"
proof -
  have inv: "sa_inv s" "sa_limits s = l" "sa_anchored s = (syn \<noteq> None)" using sa_run_inv [OF assms(1)] by simp_all
  have pl: "placed (sa_base s) given (sa_segments s)" "syn \<noteq> None \<longrightarrow> sa_base s = map_option (\<lambda>n. n + 1) syn"
    using sa_run_placed [OF assms(1)] by simp_all
  obtain base where ne: "sa_segments s \<noteq> []" and b: "sa_base s = Some base"
    using placed_nonempty [OF pl(1) assms(2)] by blast
  have lim: "limits_validate (sa_limits s) = Ok ()" using assms(3) by (auto simp: stream_finish_def elim!: and_then_OkE)
  obtain lo hi where "reconstructs policy (sa_segments s) lo hi res" "sr_base res = sa_base s" "sa_anchored s \<longrightarrow> lo = 0"
    using stream_finish_ok [OF inv(1) lim ne, of policy] finish_fin [OF assms(3) ne] assms(3) by auto
  with pl b inv(3) show ?thesis by metis
qed

text \<open>A sample: two payloads after a handshake whose first sequence number was 99.\<close>

abbreviation sample_first :: evidence where
  "sample_first \<equiv> from_packet [1, 2] (PacketId [] 1 24) 54"

abbreviation sample_second :: evidence where
  "sample_second \<equiv> from_packet [3] (PacketId [] 2 90) 54"

definition sample_stream :: stream_assembler where
  "sample_stream = (stream_new (Some 99) limits_default)\<lparr>sa_retained := 3, sa_max := 3,
     sa_segments := [\<lparr>ss_start = 0, ss_bytes = sample_first\<rparr>, \<lparr>ss_start = 2, ss_bytes = sample_second\<rparr>]\<rparr>"

lemma sample_history: "sa_history (Some 99) limits_default [(100, sample_first), (102, sample_second)] [] sample_stream"
proof -
  note eval = stream_push_def stream_new_def or_else_def from_packet_valid checked_add_def checked_add_i64_def in_i64_def
    usize_limit_def ev_is_empty_def ev_len_def Let_def
  have two: "sequence_delta 102 100 = Ok 2" by (simp add: sequence_delta_def)
  let ?s = "(stream_new (Some 99) limits_default)\<lparr>sa_retained := 2, sa_max := 2,
     sa_segments := [\<lparr>ss_start = 0, ss_bytes = sample_first\<rparr>]\<rparr>"
  have one: "stream_push (stream_new (Some 99) limits_default) 100 sample_first = Ok ?s" by (simp add: eval)
  have "stream_push ?s 102 sample_second = Ok sample_stream" by (simp add: eval two sample_stream_def)
  from history_push [OF history_push [OF history_start one] this] show ?thesis by (simp add: ev_is_empty_def)
qed

lemmas sample_stream_run = sa_history_run [OF sample_history]

lemma sample_stream_result: "\<exists>res. stream_finish sample_stream policy = Ok res"
  using stream_finish_ok [of sample_stream policy] sa_run_inv [OF sample_stream_run]
  by (auto simp: sample_stream_def stream_new_def)

text \<open>
  C6: The reconstruction of a stream is what the overlap policy says, for every sequence of payloads an
  assembler accepted.  There is one base sequence number such that each payload lies at the offset its
  sequence number gives; chunks and gaps tile the reported range, each offset in exactly one of them; a
  chunk has at every offset the byte, with its source packet and position, of the earliest covering
  payload (of the latest under \<^verbatim>\<open>LastObserved\<close>), and under \<^verbatim>\<open>RejectConflict\<close> all covering payloads have
  that byte; chunks are maximal; a gap has no covering payload or contains a clash; and every clash of
  two payloads is reported with the packets involved.  After a SYN the range starts at offset 0.\<close>

theorem streams_follow_the_overlap_policy:
  assumes "sa_run syn l given s" and "given \<noteq> []" and "stream_finish s policy = Ok res"
  shows "\<exists>base segs lo hi. sr_base res = Some base \<and> placed (Some base) given segs
    \<and> reconstructs policy segs lo hi res
    \<and> (syn \<noteq> None \<longrightarrow> Some base = map_option (\<lambda>n. n + 1) syn \<and> lo = 0)"
  by (rule sa_run_reconstructs [OF assms])

theorem streams_follow_the_overlap_policy_witness:
  "\<exists>res segs lo hi. stream_finish sample_stream RejectConflict = Ok res \<and> reconstructs RejectConflict segs lo hi res
     \<and> placed (Some 100) [(100, sample_first), (102, sample_second)] segs"
proof -
  obtain res where r: "stream_finish sample_stream RejectConflict = Ok res" using sample_stream_result by blast
  from streams_follow_the_overlap_policy [OF sample_stream_run _ r] r show ?thesis by auto
qed

definition fin_placed :: "u32 option \<Rightarrow> u32 list \<Rightarrow> int option \<Rightarrow> bool" where
  "fin_placed base fins fin \<longleftrightarrow> (case fin of None \<Rightarrow> fins = []
     | Some f \<Rightarrow> fins \<noteq> [] \<and> (\<exists>b. base = Some b \<and> (\<forall>q \<in> set fins. sequence_delta q b = Ok f)))"

lemma sa_history_fin: "sa_history syn l given fins s \<Longrightarrow> fin_placed (sa_base s) fins (sa_fin s)"
proof (induction rule: sa_history.induct)
  case history_start
  then show ?case by (simp add: fin_placed_def stream_new_def)
next
  case (history_push given fins s q e s')
  from history_push.hyps(2) show ?case
    by (cases rule: stream_push_cases)
      (use history_push.IH in \<open>auto simp: fin_placed_def or_else_def split: option.splits\<close>)
next
  case (history_end given fins s q s')
  from history_end.hyps(2) show ?case
    by (cases rule: stream_end_cases)
      (use history_end.IH in \<open>auto simp: fin_placed_def or_else_def split: option.splits\<close>)
qed

text \<open>
  The maximum the assembler keeps is the end of a payload, or still the 0 it started with; offset 0 itself is the
  position after the SYN, the first payload or the first FIN.
\<close>

definition reach_ok :: "stream_assembler \<Rightarrow> bool" where
  "reach_ok s \<longleftrightarrow> (sa_max s = 0 \<or> (\<exists>g \<in> set (sa_segments s). seg_end g = sa_max s))
     \<and> (sa_anchored s \<longrightarrow> (\<forall>f. sa_fin s = Some f \<longrightarrow> 0 \<le> f))
     \<and> (sa_base s \<noteq> None \<longrightarrow> sa_anchored s \<or> sa_fin s = Some 0 \<or> (\<exists>g \<in> set (sa_segments s). 0 < seg_end g))"

lemma reach_ok_push:
  assumes ok: "reach_ok s" and push: "stream_push s q e = Ok s'"
  shows "reach_ok s'"
  using push
proof (cases rule: stream_push_cases)
  case 1
  then show ?thesis using ok by simp
next
  case (2 d)
  have len: "0 < ev_len e" using 2(1) by (simp add: ev_is_empty_def ev_len_def)
  have new: "seg_end \<lparr>ss_start = d, ss_bytes = e\<rparr> = d + int (ev_len e)" by (simp add: seg_end_def)
  have first: "d = 0" if "sa_base s = None" using that 2(3) by (simp add: or_else_def)
  have "max (sa_max s) (d + int (ev_len e)) = 0 \<or> (\<exists>g \<in> set (sa_segments s'). seg_end g = max (sa_max s) (d + int (ev_len e)))"
    using ok new unfolding reach_ok_def 2(8) by (auto simp: max_def)
  moreover have "sa_anchored s \<or> sa_fin s = Some 0 \<or> (\<exists>g \<in> set (sa_segments s'). 0 < seg_end g)"
    using ok new len first unfolding reach_ok_def 2(8) by (cases "sa_base s") auto
  ultimately show ?thesis using ok unfolding reach_ok_def 2(8) by simp
qed

lemma reach_ok_end:
  assumes ok: "reach_ok s" and inv: "sa_inv s" and "stream_end_at s q = Ok s'"
  shows "reach_ok s'"
  using assms(3)
proof (cases rule: stream_end_cases)
  case (1 f)
  have first: "f = 0" if "sa_base s = None" using that 1(1) by (simp add: or_else_def)
  have "0 \<le> f" if "sa_anchored s" using inv that 1(2) by (simp add: sa_inv_def)
  then show ?thesis using ok 1(4) first unfolding reach_ok_def 1(5) by (cases "sa_base s") auto
qed

lemma sa_run_reach: "sa_run syn l given s \<Longrightarrow> reach_ok s"
proof (induction rule: sa_run.induct)
  case sa_start
  then show ?case by (simp add: reach_ok_def stream_new_def)
next
  case (sa_push given s q e s')
  then show ?case using reach_ok_push by blast
next
  case (sa_end given s q s')
  then show ?case using reach_ok_end sa_run_inv by blast
qed

lemma beyond_fin:
  assumes "sa_inv s" "reach_ok s" "sa_fin s = Some f"
  shows "sa_segments s \<noteq> [] \<and> f < sa_max s \<longleftrightarrow> (\<exists>g \<in> set (sa_segments s). f < seg_end g)"
proof
  assume "\<exists>g \<in> set (sa_segments s). f < seg_end g"
  then show "sa_segments s \<noteq> [] \<and> f < sa_max s" using assms(1) by (force simp: sa_inv_def)
next
  assume f: "sa_segments s \<noteq> [] \<and> f < sa_max s"
  have base: "sa_base s \<noteq> None" using assms(1,3) by (auto simp: sa_inv_def)
  show "\<exists>g \<in> set (sa_segments s). f < seg_end g"
  proof (cases "\<exists>g \<in> set (sa_segments s). seg_end g = sa_max s")
    case True
    then show ?thesis using f by force
  next
    case False
    then have "f < 0" using assms(2) f by (simp add: reach_ok_def)
    then obtain g where "g \<in> set (sa_segments s)" "0 < seg_end g" using assms(2,3) base by (auto simp: reach_ok_def)
    then show ?thesis using \<open>f < 0\<close> by force
  qed
qed

lemma finish_beyond_fin:
  assumes "limits_validate (sa_limits s) = Ok ()" "sa_segments s \<noteq> []" "sa_fin s = Some f" "f < sa_max s"
  shows "stream_finish s policy = Err (error_new SequenceAmbiguous 0 ''fin_sequence'' ''observed payload extends beyond FIN'')"
  using assms by (simp add: stream_finish_def)

lemma finish_within_fin:
  assumes "sa_inv s" "limits_validate (sa_limits s) = Ok ()" "sa_segments s = [] \<or> (\<forall>f. sa_fin s = Some f \<longrightarrow> sa_max s \<le> f)"
  shows "\<exists>res. stream_finish s policy = Ok res"
proof (cases "sa_segments s = []")
  case True
  then show ?thesis using assms(2) by (auto simp: stream_finish_def)
next
  case False
  then show ?thesis using stream_finish_ok [OF assms(1,2) False, of policy] assms(3) by fastforce
qed

text \<open>
  C33: Finishing a stream always returns: the reconstruction, or the error that a payload reaches beyond an observed FIN,
  exactly when one does.  The segments are the accepted payloads, each at the offset its sequence number gives
  relative to one base, and the FIN position is the offset the sequence number of every accepted FIN gives relative
  to the same base; the error is returned exactly when the end of some payload lies after that position, and in every other
  case there is a result.\<close>

theorem stream_finish_is_total:
  assumes "sa_history syn l given fins s" and "limits_validate l = Ok ()"
  shows "placed (sa_base s) given (sa_segments s) \<and> fin_placed (sa_base s) fins (sa_fin s)
    \<and> (if \<exists>f. sa_fin s = Some f \<and> (\<exists>g \<in> set (sa_segments s). f < ss_start g + int (ev_len (ss_bytes g)))
       then stream_finish s policy = Err (error_new SequenceAmbiguous 0 ''fin_sequence'' ''observed payload extends beyond FIN'')
       else \<exists>res. stream_finish s policy = Ok res)"
proof -
  have run: "sa_run syn l given s" using sa_history_run [OF assms(1)] .
  have inv: "sa_inv s" "limits_validate (sa_limits s) = Ok ()" using sa_run_inv [OF run] assms(2) by simp_all
  have beyond: "sa_segments s \<noteq> [] \<and> f < sa_max s \<longleftrightarrow> (\<exists>g \<in> set (sa_segments s). f < ss_start g + int (ev_len (ss_bytes g)))"
    if "sa_fin s = Some f" for f
    using beyond_fin [OF inv(1) sa_run_reach [OF run] that] by (simp add: seg_end_def)
  have "stream_finish s policy = Err (error_new SequenceAmbiguous 0 ''fin_sequence'' ''observed payload extends beyond FIN'')"
    if "\<exists>f. sa_fin s = Some f \<and> (\<exists>g \<in> set (sa_segments s). f < ss_start g + int (ev_len (ss_bytes g)))"
    using that beyond finish_beyond_fin [OF inv(2)] by blast
  moreover have "\<exists>res. stream_finish s policy = Ok res"
    if "\<not> (\<exists>f. sa_fin s = Some f \<and> (\<exists>g \<in> set (sa_segments s). f < ss_start g + int (ev_len (ss_bytes g))))"
  proof (rule finish_within_fin [OF inv])
    show "sa_segments s = [] \<or> (\<forall>f. sa_fin s = Some f \<longrightarrow> sa_max s \<le> f)"
    proof (cases "sa_fin s")
      case (Some f)
      then have "\<not> (sa_segments s \<noteq> [] \<and> f < sa_max s)" unfolding beyond [OF Some] using that by simp
      then show ?thesis using Some by auto
    qed simp
  qed
  ultimately show ?thesis using sa_run_placed [OF run] sa_history_fin [OF assms(1)] by simp
qed

text \<open>A sample with the FIN before the second payload, and one with the FIN after it.\<close>

lemma sample_fin: "stream_end_at sample_stream (100 + word_of_nat n) = Ok (sample_stream\<lparr>sa_fin := Some (int n)\<rparr>)" if "n \<in> {2, 3}"
proof -
  have "3 \<le> max_stream_span limits_default" by (simp add: limits_default_def)
  then show ?thesis using that limits_validate_default
    by (auto simp: stream_end_at_def sample_stream_def stream_new_def or_else_def sequence_delta_def Let_def)
qed

theorem stream_finish_is_total_witness:
  "stream_finish (sample_stream\<lparr>sa_fin := Some 2\<rparr>) LastObserved
     = Err (error_new SequenceAmbiguous 0 ''fin_sequence'' ''observed payload extends beyond FIN'')
   \<and> (\<exists>res. stream_finish (sample_stream\<lparr>sa_fin := Some 3\<rparr>) LastObserved = Ok res)"
proof -
  have "sa_history (Some 99) limits_default [(100, sample_first), (102, sample_second)] [102] (sample_stream\<lparr>sa_fin := Some 2\<rparr>)"
    "sa_history (Some 99) limits_default [(100, sample_first), (102, sample_second)] [103] (sample_stream\<lparr>sa_fin := Some 3\<rparr>)"
    using history_end [OF sample_history] sample_fin [of 2] sample_fin [of 3] by simp_all
  from this [THEN stream_finish_is_total [OF _ limits_validate_default, of _ _ _ _ LastObserved]] show ?thesis
    by (simp add: sample_stream_def stream_new_def ev_len_def)
qed

text \<open>
  C34: The offset of a sequence number relative to an anchor is the unique one of magnitude below \<open>2 ^ 31\<close>
  that is congruent to their difference, across wrap-around; it is refused exactly at the half-space
  difference, which has no unique one.\<close>

theorem sequence_delta_is_the_unique_offset:
  "((\<exists>e. sequence_delta q anchor = Err e) \<longleftrightarrow> q - anchor = 0x80000000)
   \<and> (\<forall>d. sequence_delta q anchor = Ok d \<longleftrightarrow> \<bar>d\<bar> < 2 ^ 31 \<and> anchor + word_of_int d = q)"
proof (intro conjI allI iffI)
  fix d :: int
  assume d: "\<bar>d\<bar> < 2 ^ 31 \<and> anchor + word_of_int d = q"
  then have w: "q - anchor = word_of_int d" by auto
  have s: "sint (word_of_int d :: u32) = d"
    unfolding sint_sbintrunc' using d by (intro signed_take_bit_int_eq_self) (simp_all add: abs_less_iff)
  have "(word_of_int d :: u32) \<noteq> 0x80000000"
  proof
    assume "(word_of_int d :: u32) = 0x80000000"
    then have "sint (word_of_int d :: u32) = sint (0x80000000 :: u32)" by simp
    with s d show False by simp
  qed
  with w s show "sequence_delta q anchor = Ok d" by (simp add: sequence_delta_def)
next
  fix d :: int
  assume "sequence_delta q anchor = Ok d"
  then show "\<bar>d\<bar> < 2 ^ 31" "anchor + word_of_int d = q" using sequence_delta_OkD [of q anchor d] by auto
qed (auto simp: sequence_delta_Err)

text \<open>
  No offset of an assembler leaves the range of \<^verbatim>\<open>i64\<close>: segments, the FIN position and every
  difference the code forms are below \<open>2 ^ 33\<close> in magnitude, so its unchecked additions and
  subtractions are exact.\<close>

theorem stream_offsets_stay_in_range:
  assumes "sa_run syn l given s" and "limits_validate l = Ok ()"
  shows "(\<forall>g \<in> set (sa_segments s). \<bar>ss_start g\<bar> < 2 ^ 32 \<and> \<bar>seg_end g\<bar> < 2 ^ 32)
    \<and> \<bar>sa_max s - sa_min s\<bar> < 2 ^ 30 \<and> (\<forall>f. sa_fin s = Some f \<longrightarrow> \<bar>f - sa_min s\<bar> < 2 ^ 33)"
proof -
  have inv: "sa_inv s" "sa_limits s = l" using sa_run_inv [OF assms(1)] by simp_all
  have span: "sa_max s - sa_min s < 2 ^ 30" "0 \<le> sa_max s - sa_min s" "- (2 ^ 31) < sa_min s" "sa_min s \<le> 0"
    using inv limits_validate_OkD(10) [OF assms(2)] by (auto simp: sa_inv_def)
  have "\<bar>ss_start g\<bar> < 2 ^ 32 \<and> \<bar>seg_end g\<bar> < 2 ^ 32" if "g \<in> set (sa_segments s)" for g
    using inv(1) that span by (auto simp: sa_inv_def seg_end_def)
  moreover have "\<bar>f - sa_min s\<bar> < 2 ^ 33" if "sa_fin s = Some f" for f
    using inv(1) that span by (auto simp: sa_inv_def)
  ultimately show ?thesis using span by auto
qed

theorem stream_offsets_stay_in_range_witness:
  "limits_validate limits_default = Ok () \<and> \<bar>sa_max sample_stream - sa_min sample_stream\<bar> < 2 ^ 30"
  using stream_offsets_stay_in_range [OF sample_stream_run limits_validate_default] by simp

end
