(* ===== verification/Stream_Decoder.thy ===== *)
theory Stream_Decoder
  imports Tcp_Stream_Runs
begin

text \<open>
  What a protocol decoder of reconstructed streams promises, as a locale: it never panics, and every item
  it reports is a slice of a chunk at the item's stream offset.  On a stream that the overlap policy
  reconstructs, every byte of every item is then a byte the policy delivers at that offset.
\<close>

definition chunk_slice :: "stream_chunk list \<Rightarrow> int \<Rightarrow> evidence \<Rightarrow> bool" where
  "chunk_slice C off e \<longleftrightarrow> (\<exists>chunk \<in> set C. \<exists>p. off = ch_offset chunk + int p \<and> ev_validate e
     \<and> p + ev_len e \<le> ev_len (ch_bytes chunk) \<and> ev_trace e = sub_list (ev_trace (ch_bytes chunk)) p (p + ev_len e))"

definition i64_chunks :: "stream_result \<Rightarrow> bool" where
  "i64_chunks stream \<longleftrightarrow> (\<forall>chunk \<in> set (sr_chunks stream). in_i64 (ch_offset chunk))"

locale stream_decoder =
  fixes decode :: "stream_result \<Rightarrow> limits \<Rightarrow> 'r result"
    and items :: "'r \<Rightarrow> (int \<times> evidence) list"
  assumes decode_total: "i64_chunks stream \<Longrightarrow> decode stream limits \<noteq> Panic"
    and items_slices: "i64_chunks stream \<Longrightarrow> decode stream limits = Ok r \<Longrightarrow> (off, e) \<in> set (items r)
      \<Longrightarrow> chunk_slice (sr_chunks stream) off e"
begin

lemma items_delivered:
  assumes "i64_chunks stream" and "reconstructs policy segs lo hi stream"
    and "decode stream limits = Ok r" and "(off, e) \<in> set (items r)" and "k < ev_len e"
  shows "delivers policy segs (off + int k) (ev_trace e ! k)"
proof -
  obtain chunk p where c: "chunk \<in> set (sr_chunks stream)" "off = ch_offset chunk + int p" "p + ev_len e \<le> ev_len (ch_bytes chunk)"
    "ev_trace e = sub_list (ev_trace (ch_bytes chunk)) p (p + ev_len e)"
    using items_slices [OF assms(1,3,4)] unfolding chunk_slice_def by blast
  have ok: "chunk_ok policy segs chunk" using assms(2) c(1) by (simp add: reconstructs_def tiled_def)
  have "ch_offset chunk \<le> off + int k" "off + int k < chunk_end chunk" using c(2,3) assms(5) by (simp_all add: chunk_end_def)
  then have "delivers policy segs (off + int k) (ev_trace (ch_bytes chunk) ! nat (off + int k - ch_offset chunk))"
    using ok unfolding chunk_ok_def by blast
  moreover have "nat (off + int k - ch_offset chunk) = p + k" using c(2) by simp
  moreover have "ev_trace e ! k = ev_trace (ch_bytes chunk) ! (p + k)"
    unfolding c(4) using c(3) assms(5) ok ev_trace_length [of "ch_bytes chunk"]
    by (intro nth_sub_list) (simp_all add: chunk_ok_def ev_len_def)
  ultimately show ?thesis by simp
qed

end

section \<open>Reconstructed streams\<close>

lemma reconstructed_offsets:
  assumes "sa_run syn l given s" and "given \<noteq> []" and "stream_finish s policy = Ok res"
  shows "i64_chunks res" and "\<exists>base segs lo hi. sr_base res = Some base \<and> placed (Some base) given segs \<and> reconstructs policy segs lo hi res"
proof -
  have inv: "sa_inv s" using sa_run_inv [OF assms(1)] by simp
  have pl: "placed (sa_base s) given (sa_segments s)" using sa_run_placed [OF assms(1)] by simp
  have ne: "sa_segments s \<noteq> []" using placed_nonempty [OF pl assms(2)] by blast
  have lim: "limits_validate (sa_limits s) = Ok ()" using assms(3) by (auto simp: stream_finish_def elim!: and_then_OkE)
  obtain lo hi where r: "reconstructs policy (sa_segments s) lo hi res"
    using stream_finish_ok [OF inv lim ne, of policy] finish_fin [OF assms(3) ne] assms(3) by auto
  have span: "- (2 ^ 31) < sa_min s" "sa_max s < 2 ^ 31"
    using inv limits_validate_OkD(10) [OF lim] by (auto simp: sa_inv_def)
  have "in_i64 (ch_offset c)" if "c \<in> set (sr_chunks res)" for c
  proof -
    have "chunk_ok policy (sa_segments s) c" using r that by (simp add: reconstructs_def tiled_def)
    then have "cover (sa_segments s) (ch_offset c) \<noteq> {}" unfolding chunk_ok_def delivers_def by blast
    then obtain g where "g \<in> set (sa_segments s)" "ss_start g \<le> ch_offset c" "ch_offset c < seg_end g"
      unfolding cover_def using nth_mem by blast
    then show ?thesis using inv span by (fastforce simp: sa_inv_def in_i64_def)
  qed
  then show "i64_chunks res" by (simp add: i64_chunks_def)
  show "\<exists>base segs lo hi. sr_base res = Some base \<and> placed (Some base) given segs \<and> reconstructs policy segs lo hi res"
    using sa_run_reconstructs [OF assms] by blast
qed

end
