(* ===== verification/Dnp3.thy ===== *)
theory Dnp3
  imports Dnp3_Link_Correct Tcp_Stream
begin

text \<open>
  \<^verbatim>\<open>src/src/dnp3.rs\<close>, from link frames to application messages: transport reassembly per address pair,
  application reassembly per address pair and message class, and the walk over the chunks of a
  reconstructed stream that drives them.
\<close>

section \<open>Message classes\<close>

datatype message_class = McRequest | McResponse | McUnsolicited | McConfirm | McUnknown

fun message_class_as_str :: "message_class \<Rightarrow> string" where
  "message_class_as_str McRequest = ''request''"
| "message_class_as_str McResponse = ''response''"
| "message_class_as_str McUnsolicited = ''unsolicited''"
| "message_class_as_str McConfirm = ''confirm''"
| "message_class_as_str McUnknown = ''unknown''"

text \<open>The derived order is the order of the declaration.\<close>

fun class_rank :: "message_class \<Rightarrow> nat" where
  "class_rank McRequest = 0"
| "class_rank McResponse = 1"
| "class_rank McUnsolicited = 2"
| "class_rank McConfirm = 3"
| "class_rank McUnknown = 4"

lemma class_rank_inj: "class_rank a = class_rank b \<longleftrightarrow> a = b"
  by (cases a; cases b) simp_all

instantiation message_class :: linorder
begin

definition less_eq_message_class :: "message_class \<Rightarrow> message_class \<Rightarrow> bool" where
  "a \<le> b \<longleftrightarrow> class_rank a \<le> class_rank b"

definition less_message_class :: "message_class \<Rightarrow> message_class \<Rightarrow> bool" where
  "a < b \<longleftrightarrow> class_rank a < class_rank b"

instance
  by standard (auto simp: less_eq_message_class_def less_message_class_def class_rank_inj
      dest: order_antisym simp flip: class_rank_inj)

end

definition all_classes :: "message_class list" where
  "all_classes = [McRequest, McResponse, McUnsolicited, McConfirm, McUnknown]"

section \<open>Results\<close>

record application_fragment =
  af_source :: u16
  af_destination :: u16
  af_control :: u8
  af_function :: u8
  af_sequence :: u8
  af_class :: message_class
  af_iin :: "u16 option"
  af_first :: bool
  af_final :: bool
  af_confirm :: bool
  af_frames :: "nat list"
  af_raw :: evidence
  af_objects :: evidence

record application_message =
  am_source :: u16
  am_destination :: u16
  am_function :: u8
  am_first_sequence :: u8
  am_class :: message_class
  am_complete :: bool
  am_fragments :: "nat list"
  am_packets :: "packet_id list"
  am_objects :: evidence

record rejected_link_range =
  rl_stream_offset :: int
  rl_declared_length :: "nat option"
  rl_code :: string
  rl_incomplete :: bool
  rl_raw :: evidence

record dnp3_result =
  dr_frames :: "link_frame list"
  dr_fragments :: "application_fragment list"
  dr_messages :: "application_message list"
  dr_issues :: "protocol_issue list"
  dr_rejected :: "rejected_link_range list"

definition dnp3_result_default :: dnp3_result where
  "dnp3_result_default = \<lparr>dr_frames = [], dr_fragments = [], dr_messages = [], dr_issues = [], dr_rejected = []\<rparr>"

section \<open>Assemblies\<close>

record transport_assembly =
  ta_last_sequence :: u8
  ta_seen :: "(u8 \<times> bytes) list"
  ta_direction :: bool
  ta_bytes :: evidence
  ta_frames :: "nat list"

record app_assembly =
  aa_direction :: bool
  aa_source :: u16
  aa_destination :: u16
  aa_function :: u8
  aa_first_sequence :: u8
  aa_last_sequence :: u8
  aa_class :: message_class
  aa_fragments :: "nat list"
  aa_objects :: evidence
  aa_packets :: "packet_id list"

type_synonym dnp3_key = "u16 \<times> u16"
type_synonym app_key = "u16 \<times> u16 \<times> message_class"
type_synonym app_map = "(app_key \<times> app_assembly) list"

record dnp3_state =
  ds_out :: dnp3_result
  ds_transport :: "(dnp3_key \<times> transport_assembly) list"
  ds_apps :: app_map

section \<open>Recording issues and messages\<close>

definition dnp3_issue :: "dnp3_result \<Rightarrow> string \<Rightarrow> packet_id list \<Rightarrow> int \<Rightarrow> limits \<Rightarrow> dnp3_result result" where
  "dnp3_issue out code packets at limits =
     (if max_protocol_messages limits \<le> length (dr_issues out) then Err (error_limit ''dnp3_issues'')
      else Ok (out\<lparr>dr_issues := dr_issues out @ [\<lparr>pi_code = code, pi_packets = packets, pi_offset = at\<rparr>]\<rparr>))"

definition emit_app :: "dnp3_result \<Rightarrow> app_assembly \<Rightarrow> bool \<Rightarrow> limits \<Rightarrow> dnp3_result result" where
  "emit_app out app complete limits =
     (if max_protocol_messages limits \<le> length (dr_messages out) then Err (error_limit ''dnp3_messages'')
      else Ok (out\<lparr>dr_messages := dr_messages out @
        [\<lparr>am_source = aa_source app, am_destination = aa_destination app, am_function = aa_function app,
          am_first_sequence = aa_first_sequence app, am_class = aa_class app, am_complete = complete,
          am_fragments = aa_fragments app, am_packets = sort_dedup (aa_packets app),
          am_objects = aa_objects app\<rparr>]\<rparr>))"

definition fragment_class :: "u8 \<Rightarrow> bool \<Rightarrow> message_class" where
  "fragment_class f unsolicited =
     (if f = 0 then McConfirm
      else if 1 \<le> f \<and> f \<le> 31 \<and> \<not> unsolicited then McRequest
      else if f = 0x81 \<and> \<not> unsolicited then McResponse
      else if f = 0x82 \<and> unsolicited then McUnsolicited
      else McUnknown)"

definition app_fragment :: "evidence \<Rightarrow> u16 \<Rightarrow> u16 \<Rightarrow> nat list \<Rightarrow> application_fragment result" where
  "app_fragment bytes source destination frames =
     (let raw = ev_data bytes
      in if length raw < 2
         then Err (error_new Truncated 0 ''dnp3_application'' ''missing application control/function'')
         else
           and_then (index_at raw 0) (\<lambda>control.
           and_then (index_at raw 1) (\<lambda>f.
             let unsolicited = (control AND 0x10 \<noteq> 0);
                 response = (f \<in> {0x81, 0x82});
                 header = (if response then 4 else 2)
             in if length raw < header
                then Err (error_new Truncated 0 ''dnp3_iin'' ''response is missing IIN'')
                else
                  and_then (if response then and_then (and_then (range_at raw 2 4) le16) (\<lambda>w. Ok (Some w)) else Ok None) (\<lambda>iin.
                  and_then (ev_slice bytes header (ev_len bytes)) (\<lambda>objects.
                    Ok \<lparr>af_source = source, af_destination = destination, af_control = control,
                        af_function = f, af_sequence = control AND 15, af_class = fragment_class f unsolicited,
                        af_iin = iin, af_first = (control AND 0x80 \<noteq> 0), af_final = (control AND 0x40 \<noteq> 0),
                        af_confirm = (control AND 0x20 \<noteq> 0), af_frames = frames, af_raw = bytes,
                        af_objects = objects\<rparr>)))))"

section \<open>Interruptions\<close>

definition interrupt_applications ::
    "dnp3_result \<Rightarrow> app_map \<Rightarrow> dnp3_key \<Rightarrow> limits \<Rightarrow> (dnp3_result \<times> app_map) result" where
  "interrupt_applications out applications key limits =
     for_each (\<lambda>(out, apps) c. case bt_get apps (fst key, snd key, c) of
         None \<Rightarrow> Ok (out, apps)
       | Some held \<Rightarrow> and_then (emit_app out held False limits) (\<lambda>out'.
           Ok (out', bt_del (fst key, snd key, c) apps)))
       (out, applications) all_classes"

text \<open>Every pending assembly is dropped: transports with an issue each, applications as incomplete messages.\<close>

definition dnp3_flush :: "string \<Rightarrow> int \<Rightarrow> limits \<Rightarrow> dnp3_state \<Rightarrow> dnp3_state result" where
  "dnp3_flush code at limits s =
     and_then (for_each (\<lambda>out entry. dnp3_issue out code (ev_packets (ta_bytes (snd entry))) at limits)
         (ds_out s) (ds_transport s)) (\<lambda>out.
     and_then (for_each (\<lambda>out entry. emit_app out (snd entry) False limits) out (ds_apps s)) (\<lambda>out'.
       Ok \<lparr>ds_out = out', ds_transport = [], ds_apps = []\<rparr>))"

text \<open>An issue about one address pair, whose pending applications (and transport) are dropped.\<close>

definition dnp3_interrupt ::
    "string \<Rightarrow> packet_id list \<Rightarrow> int \<Rightarrow> dnp3_key \<Rightarrow> limits \<Rightarrow> dnp3_state \<Rightarrow> dnp3_state result" where
  "dnp3_interrupt code packets at key limits s =
     and_then (dnp3_issue (ds_out s) code packets at limits) (\<lambda>out.
     and_then (interrupt_applications out (ds_apps s) key limits) (\<lambda>(out', apps).
       Ok \<lparr>ds_out = out', ds_transport = bt_del key (ds_transport s), ds_apps = apps\<rparr>))"

section \<open>The transport layer\<close>

definition next_sequence :: "transport_assembly \<Rightarrow> u8" where
  "next_sequence a = (ta_last_sequence a + 1) AND 63"

definition is_duplicate :: "transport_assembly option \<Rightarrow> u8 \<Rightarrow> bytes \<Rightarrow> bool" where
  "is_duplicate held seq data \<longleftrightarrow> (case held of None \<Rightarrow> False
     | Some a \<Rightarrow> seq \<noteq> next_sequence a \<and> bt_get (ta_seen a) seq = Some data)"

definition is_conflicting :: "transport_assembly option \<Rightarrow> bool \<Rightarrow> u8 \<Rightarrow> bool" where
  "is_conflicting held first seq \<longleftrightarrow> \<not> first \<and> (case held of None \<Rightarrow> False
     | Some a \<Rightarrow> seq \<noteq> next_sequence a \<and> bt_get (ta_seen a) seq \<noteq> None)"

text \<open>A segment that starts a fragment.\<close>

definition transport_start ::
    "limits \<Rightarrow> nat \<Rightarrow> dnp3_key \<Rightarrow> int \<Rightarrow> bool \<Rightarrow> evidence \<Rightarrow> u8 \<Rightarrow> dnp3_state \<Rightarrow> dnp3_state result" where
  "transport_start limits frame_id key at direction data seq s =
     and_then (case bt_get (ds_transport s) key of
         Some old \<Rightarrow> dnp3_interrupt ''dnp3_transport_restart_before_fin'' (ev_packets (ta_bytes old)) at key limits s
       | None \<Rightarrow> Ok s) (\<lambda>s'.
     and_then (usub (ev_len data) 1) (\<lambda>n.
       if n > max_application_bytes limits then Err (error_limit ''dnp3_application_bytes'')
       else and_then (ev_slice data 1 (ev_len data)) (\<lambda>bytes.
         Ok (s'\<lparr>ds_transport := bt_put key
           \<lparr>ta_last_sequence = seq, ta_seen = [(seq, ev_data data)], ta_direction = direction,
            ta_bytes = bytes, ta_frames = [frame_id]\<rparr> (ds_transport s')\<rparr>))))"

text \<open>A segment in sequence that extends the pending fragment.\<close>

definition transport_extend ::
    "limits \<Rightarrow> nat \<Rightarrow> dnp3_key \<Rightarrow> evidence \<Rightarrow> u8 \<Rightarrow> transport_assembly \<Rightarrow> dnp3_state \<Rightarrow> dnp3_state result" where
  "transport_extend limits frame_id key data seq a s =
     and_then (ev_slice data 1 (ev_len data)) (\<lambda>piece.
     and_then (ev_append (ta_bytes a) piece (max_application_bytes limits)) (\<lambda>bytes.
       if max_protocol_messages limits \<le> length (ta_frames a) then Err (error_limit ''dnp3_transport_frames'')
       else Ok (s\<lparr>ds_transport := bt_put key
         (a\<lparr>ta_last_sequence := seq, ta_seen := bt_put seq (ev_data data) (ta_seen a), ta_bytes := bytes,
            ta_frames := ta_frames a @ [frame_id]\<rparr>) (ds_transport s)\<rparr>)))"

text \<open>
  One transport segment.  The flag says whether the segment was taken into the pending fragment;
  a duplicate, a conflict, an orphan and a gap end the treatment of the frame.
\<close>

definition transport_accept ::
    "limits \<Rightarrow> nat \<Rightarrow> dnp3_key \<Rightarrow> int \<Rightarrow> bool \<Rightarrow> evidence \<Rightarrow> bool \<Rightarrow> u8 \<Rightarrow> dnp3_state
      \<Rightarrow> (dnp3_state \<times> bool) result" where
  "transport_accept limits frame_id key at direction data first seq s =
     (let held = bt_get (ds_transport s) key
      in if is_duplicate held seq (ev_data data) then
           and_then (ok_or (error_limit ''dnp3_state'') held) (\<lambda>a.
             if max_protocol_messages limits \<le> length (ta_frames a) then Err (error_limit ''dnp3_transport_frames'')
             else and_then (dnp3_issue (ds_out s)
                 (if ta_last_sequence a = seq then ''duplicate_dnp3_transport_segment''
                  else ''reordered_duplicate_dnp3_transport_segment'') (ev_packets data) at limits) (\<lambda>out.
               Ok (s\<lparr>ds_out := out, ds_transport := bt_put key (a\<lparr>ta_frames := ta_frames a @ [frame_id]\<rparr>) (ds_transport s)\<rparr>,
                   False)))
         else if is_conflicting held first seq then
           and_then (ok_or (error_limit ''dnp3_state'') held) (\<lambda>old.
           and_then (dnp3_interrupt ''conflicting_dnp3_transport_duplicate''
               (sort_dedup (ev_packets (ta_bytes old) @ ev_packets data)) at key limits s) (\<lambda>s'.
             Ok (s', False)))
         else if first then
           and_then (transport_start limits frame_id key at direction data seq s) (\<lambda>s'. Ok (s', True))
         else case held of
             None \<Rightarrow> and_then (dnp3_interrupt ''orphan_dnp3_transport_segment'' (ev_packets data) at key limits s)
                       (\<lambda>s'. Ok (s', False))
           | Some a \<Rightarrow>
               if seq \<noteq> next_sequence a then
                 and_then (dnp3_interrupt ''dnp3_transport_sequence_gap_or_conflict''
                     (sort_dedup (ev_packets (ta_bytes a) @ ev_packets data)) at key limits s) (\<lambda>s'.
                   Ok (s', False))
               else and_then (transport_extend limits frame_id key data seq a s) (\<lambda>s'. Ok (s', True)))"

section \<open>The application layer\<close>

text \<open>The effect of a fragment on the pending message of its key, and the message it ends, if any.\<close>

definition application_join ::
    "limits \<Rightarrow> int \<Rightarrow> bool \<Rightarrow> application_fragment \<Rightarrow> nat \<Rightarrow> packet_id list \<Rightarrow> app_key \<Rightarrow> dnp3_result \<Rightarrow> app_map
      \<Rightarrow> (dnp3_result \<times> app_map \<times> app_assembly option) result" where
  "application_join limits at direction frag frag_id packets key out apps =
     (if af_first frag then
        and_then (case bt_get apps key of Some old \<Rightarrow> emit_app out old False limits | None \<Rightarrow> Ok out) (\<lambda>out'.
          Ok (out', bt_put key
            \<lparr>aa_direction = direction, aa_source = af_source frag, aa_destination = af_destination frag,
             aa_function = af_function frag, aa_first_sequence = af_sequence frag,
             aa_last_sequence = af_sequence frag, aa_class = af_class frag, aa_fragments = [frag_id],
             aa_objects = af_objects frag, aa_packets = packets\<rparr> apps, None))
      else case bt_get apps key of
          Some previous \<Rightarrow>
            if af_sequence frag = (aa_last_sequence previous + 1) AND 15 \<and> af_function frag = aa_function previous then
              and_then (ev_append (aa_objects previous) (af_objects frag) (max_application_bytes limits)) (\<lambda>objects.
                Ok (out, bt_put key (previous\<lparr>aa_last_sequence := af_sequence frag,
                  aa_fragments := aa_fragments previous @ [frag_id],
                  aa_packets := aa_packets previous @ packets, aa_objects := objects\<rparr>) apps, None))
            else
              and_then (dnp3_issue out ''dnp3_application_sequence_gap_or_conflict'' packets at limits) (\<lambda>out'.
                Ok (out', bt_del key apps, Some previous))
        | None \<Rightarrow>
            and_then (dnp3_issue out ''orphan_dnp3_application_fragment'' packets at limits) (\<lambda>out'.
              Ok (out', apps, None)))"

definition frame_packets :: "link_frame list \<Rightarrow> nat list \<Rightarrow> packet_id list result" where
  "frame_packets frames ids =
     for_each (\<lambda>packets i. and_then (index_at frames i) (\<lambda>f. Ok (packets @ ev_packets (lf_raw f)))) [] ids"

definition dnp3_application ::
    "limits \<Rightarrow> int \<Rightarrow> bool \<Rightarrow> application_fragment \<Rightarrow> dnp3_state \<Rightarrow> dnp3_state result" where
  "dnp3_application limits at direction frag s =
     (let out = ds_out s; frag_id = length (dr_fragments out);
          key = (af_source frag, af_destination frag, af_class frag)
      in if max_protocol_messages limits \<le> frag_id then Err (error_limit ''dnp3_fragments'')
         else
           and_then (frame_packets (dr_frames out) (af_frames frag)) (\<lambda>ids.
           let packets = sort_dedup ids
           in and_then (if af_class frag = McUnknown
                 then dnp3_issue out ''unsupported_or_inconsistent_dnp3_application_function'' packets at limits
                 else Ok out) (\<lambda>out1.
              and_then (application_join limits at direction frag frag_id packets key out1 (ds_apps s)) (\<lambda>(out2, apps, completion).
              and_then (case completion of Some old \<Rightarrow> emit_app out2 old False limits | None \<Rightarrow> Ok out2) (\<lambda>out3.
              let out4 = out3\<lparr>dr_fragments := dr_fragments out3 @ [frag]\<rparr>
              in case (if af_final frag then bt_get apps key else None) of
                   Some done \<Rightarrow> and_then (emit_app out4 done True limits) (\<lambda>out5.
                     Ok (s\<lparr>ds_out := out5, ds_apps := bt_del key apps\<rparr>))
                 | None \<Rightarrow> Ok (s\<lparr>ds_out := out4, ds_apps := apps\<rparr>))))))"

definition dnp3_complete :: "limits \<Rightarrow> dnp3_key \<Rightarrow> int \<Rightarrow> bool \<Rightarrow> dnp3_state \<Rightarrow> dnp3_state result" where
  "dnp3_complete limits key at direction s =
     and_then (ok_or (error_limit ''dnp3_state'') (bt_get (ds_transport s) key)) (\<lambda>complete.
       case app_fragment (ta_bytes complete) (fst key) (snd key) (ta_frames complete) of
         Ok frag \<Rightarrow> dnp3_application limits at direction frag
           (s\<lparr>ds_transport := bt_del key (ds_transport s)\<rparr>)
       | Err e \<Rightarrow> dnp3_interrupt ''invalid_dnp3_application_header'' (ev_packets (ta_bytes complete)) at key limits s
       | Panic \<Rightarrow> Panic)"

section \<open>One link frame\<close>

definition direction_changed :: "dnp3_state \<Rightarrow> dnp3_key \<Rightarrow> bool \<Rightarrow> bool" where
  "direction_changed s key direction \<longleftrightarrow>
     (case bt_get (ds_transport s) key of None \<Rightarrow> False | Some p \<Rightarrow> ta_direction p \<noteq> direction)
     \<or> list_ex (\<lambda>c. case bt_get (ds_apps s) (fst key, snd key, c) of None \<Rightarrow> False
                   | Some p \<Rightarrow> aa_direction p \<noteq> direction) all_classes"

definition dnp3_segment ::
    "limits \<Rightarrow> nat \<Rightarrow> dnp3_key \<Rightarrow> int \<Rightarrow> evidence \<Rightarrow> dnp3_state \<Rightarrow> dnp3_state result" where
  "dnp3_segment limits frame_id key at data s =
     and_then (index_at (dr_frames (ds_out s)) frame_id) (\<lambda>frame.
       let direction = lc_direction (lf_link_control frame)
       in and_then (if direction_changed s key direction
             then dnp3_interrupt ''dnp3_link_direction_changed_within_assembly'' (ev_packets data) at key limits s
             else Ok s) (\<lambda>s1.
          and_then (index_at (ev_data data) 0) (\<lambda>header.
          and_then (transport_accept limits frame_id key at direction data (header AND 0x40 \<noteq> 0) (header AND 63) s1)
            (\<lambda>(s2, taken). if taken \<and> header AND 0x80 \<noteq> 0 then dnp3_complete limits key at direction s2 else Ok s2))))"

definition note_if :: "bool \<Rightarrow> string \<Rightarrow> packet_id list \<Rightarrow> int \<Rightarrow> limits \<Rightarrow> dnp3_result \<Rightarrow> dnp3_result result" where
  "note_if c code packets at limits out = (if c then dnp3_issue out code packets at limits else Ok out)"

definition dnp3_frame :: "limits \<Rightarrow> link_frame \<Rightarrow> dnp3_state \<Rightarrow> dnp3_state result" where
  "dnp3_frame limits frame s =
     (let out = ds_out s; frame_id = length (dr_frames out); key = (lf_source frame, lf_destination frame);
          at = lf_stream_offset frame; data = lf_user_data frame; control = lf_link_control frame;
          packets = ev_packets (lf_raw frame);
          primary_user_data = (lc_primary control \<and> lc_function control \<in> {3, 4})
      in if max_protocol_messages limits \<le> frame_id then Err (error_limit ''dnp3_frames'')
         else
           and_then (note_if (lc_reserved control = Some True) ''dnp3_reserved_link_control_bit'' packets at limits out) (\<lambda>out1.
           and_then (note_if (lc_function_name control \<in> {''primary_unknown'', ''secondary_unknown''})
             ''unsupported_dnp3_link_function'' packets at limits out1) (\<lambda>out2.
           let s' = s\<lparr>ds_out := out2\<lparr>dr_frames := dr_frames out2 @ [frame]\<rparr>\<rparr>
           in case link_issue (lf_control frame) (lf_source frame) (lf_destination frame) (ev_len data) of
                Some (_, code) \<Rightarrow> dnp3_interrupt code packets at key limits s'
              | None \<Rightarrow>
                  if ev_is_empty data then Ok s'
                  else if \<not> primary_user_data
                  then dnp3_interrupt ''unsupported_dnp3_link_function_with_data'' (ev_packets data) at key limits s'
                  else dnp3_segment limits frame_id key at data s')))"

section \<open>Rejected frames and resynchronisation\<close>

definition declared_length :: "bytes \<Rightarrow> nat option result" where
  "declared_length tail =
     (if length tail < 10 then Ok None
      else
        and_then (index_at tail 2) (\<lambda>len.
        if len < 5 then Ok None
        else
          and_then (range_at tail 0 8) (\<lambda>header.
          and_then (and_then (range_at tail 8 10) le16) (\<lambda>sum.
            Ok (if crc16_dnp header = sum then Some (dnp3_total (unat (len - 5))) else None)))))"

definition dnp3_reject ::
    "limits \<Rightarrow> stream_chunk \<Rightarrow> nat \<Rightarrow> error \<Rightarrow> nat \<Rightarrow> dnp3_state \<Rightarrow> (dnp3_state \<times> nat \<times> nat option) result" where
  "dnp3_reject limits chunk p e rejected_bytes s =
     (let bytes = ch_bytes chunk
      in and_then (i64_add (ch_offset chunk) (int p)) (\<lambda>at.
         and_then (dnp3_flush ''transport_interrupted_by_bad_frame'' at limits s) (\<lambda>s1.
         and_then (ev_slice bytes p (min (p + 10) (ev_len bytes))) (\<lambda>head.
         and_then (dnp3_issue (ds_out s1) (if err_code e = ChecksumError then ''dnp3_crc_failure''
             else ''dnp3_invalid_or_truncated_frame'') (ev_packets head) at limits) (\<lambda>out1.
         and_then (range_from (ev_data bytes) p) (\<lambda>tail.
         and_then (declared_length tail) (\<lambda>declared.
         let captured = min (or_else declared (length tail)) (length tail)
         in and_then (ok_or (error_limit ''dnp3_rejected_link_bytes'')
               (case checked_add rejected_bytes captured of
                  Some n \<Rightarrow> if n \<le> max_application_bytes limits then Some n else None | None \<Rightarrow> None)) (\<lambda>rejected_bytes'.
            if max_protocol_messages limits \<le> length (dr_rejected out1)
            then Err (error_limit ''dnp3_rejected_link_ranges'')
            else
              and_then (ev_slice bytes p (p + captured)) (\<lambda>raw.
              let out2 = out1\<lparr>dr_rejected := dr_rejected out1 @
                    [\<lparr>rl_stream_offset = at, rl_declared_length = declared, rl_code = err_field e,
                      rl_incomplete = (err_code e = Truncated), rl_raw = raw\<rparr>]\<rparr>
              in case declared of
                   Some n \<Rightarrow>
                     and_then (ev_slice bytes p (p + min n (length tail))) (\<lambda>range.
                     and_then (dnp3_issue out2 ''dnp3_rejected_declared_link_range'' (ev_packets range) at limits) (\<lambda>out3.
                       Ok (s1\<lparr>ds_out := out3\<rparr>, rejected_bytes', Some (p + min n (length tail)))))
                 | None \<Rightarrow>
                     and_then (ev_slice bytes p (ev_len bytes)) (\<lambda>range.
                     and_then (dnp3_issue out2 ''dnp3_link_boundary_lost_no_resynchronization'' (ev_packets range) at limits) (\<lambda>out3.
                       Ok (s1\<lparr>ds_out := out3\<rparr>, rejected_bytes', None))))))))))))"

definition report_skipped ::
    "string \<Rightarrow> stream_chunk \<Rightarrow> nat \<Rightarrow> nat \<Rightarrow> limits \<Rightarrow> dnp3_state \<Rightarrow> dnp3_state result" where
  "report_skipped code chunk p skipped limits s =
     and_then (usub p skipped) (\<lambda>q.
     and_then (ev_slice (ch_bytes chunk) q p) (\<lambda>range.
     and_then (i64_add (ch_offset chunk) (int q)) (\<lambda>at.
     and_then (dnp3_issue (ds_out s) code (ev_packets range) at limits) (\<lambda>out. Ok (s\<lparr>ds_out := out\<rparr>)))))"

definition dnp3_resync :: "limits \<Rightarrow> stream_chunk \<Rightarrow> nat \<Rightarrow> nat \<Rightarrow> dnp3_state \<Rightarrow> dnp3_state result" where
  "dnp3_resync limits chunk p skipped s =
     (if skipped > 0 then
        and_then (i64_add (ch_offset chunk) (int p)) (\<lambda>at.
        and_then (dnp3_flush ''transport_interrupted_by_resynchronization'' at limits s)
          (report_skipped ''dnp3_link_resynchronized'' chunk p skipped limits))
      else Ok s)"

section \<open>The walk over a chunk\<close>

record dnp3_cursor =
  cu_state :: dnp3_state
  cu_p :: nat
  cu_skipped :: nat
  cu_rejected :: nat

text \<open>One round of the loop; the flag is false when the loop is left by \<^verbatim>\<open>break\<close>.\<close>

definition dnp3_step :: "limits \<Rightarrow> stream_chunk \<Rightarrow> dnp3_cursor \<Rightarrow> (dnp3_cursor \<times> bool) result" where
  "dnp3_step limits chunk c =
     (if get_range (ev_data (ch_bytes chunk)) (cu_p c) (cu_p c + 2) \<noteq> Some [0x05, 0x64]
      then Ok (c\<lparr>cu_skipped := cu_skipped c + 1, cu_p := cu_p c + 1\<rparr>, True)
      else case parse_link (ch_bytes chunk) (cu_p c) (ch_offset chunk) of
          Err e \<Rightarrow>
            and_then (dnp3_reject limits chunk (cu_p c) e (cu_rejected c) (cu_state c)) (\<lambda>(s, rejected, next_p).
              case next_p of
                Some q \<Rightarrow> Ok (c\<lparr>cu_state := s, cu_rejected := rejected, cu_p := q, cu_skipped := 0\<rparr>, True)
              | None \<Rightarrow> Ok (c\<lparr>cu_state := s, cu_rejected := rejected\<rparr>, False))
        | Ok (frame, used) \<Rightarrow>
            and_then (dnp3_resync limits chunk (cu_p c) (cu_skipped c) (cu_state c)) (\<lambda>s.
            and_then (dnp3_frame limits frame s) (\<lambda>s'.
              Ok (c\<lparr>cu_state := s', cu_p := cu_p c + used, cu_skipped := 0\<rparr>, True)))
        | Panic \<Rightarrow> Panic)"

lemma parse_link_used: "parse_link e off base = Ok (f, n) \<Longrightarrow> 0 < n"
  by (auto simp: parse_link_def dnp3_total_def Let_def elim!: and_then_OkE split: if_split_asm)

lemma declared_length_pos: "declared_length tail = Ok (Some n) \<Longrightarrow> 10 \<le> n"
  by (auto simp: declared_length_def dnp3_total_def elim!: and_then_OkE split: if_split_asm)

lemma dnp3_reject_advances:
  assumes "dnp3_reject limits chunk p e r s = Ok (s', r', Some q)" and "p < ev_len (ch_bytes chunk)"
  shows "p < q"
proof -
  obtain tail n where t: "range_from (ev_data (ch_bytes chunk)) p = (Ok tail :: bytes result)" "declared_length tail = Ok (Some n)"
    "q = p + min n (length tail)"
    using assms(1) unfolding dnp3_reject_def Let_def
    by (elim and_then_OkE) (auto elim!: and_then_OkE split: if_split_asm option.split_asm)
  then show ?thesis using assms(2) declared_length_pos [OF t(2)] by (auto simp: ev_len_def)
qed

lemma dnp3_step_advances:
  assumes "dnp3_step limits chunk c = Ok (c', True)" and "cu_p c < ev_len (ch_bytes chunk)"
  shows "cu_p c < cu_p c'"
  using assms
  by (auto simp: dnp3_step_def elim!: and_then_OkE split: if_split_asm outcome.split_asm option.split_asm prod.split_asm
      dest: parse_link_used) (rule dnp3_reject_advances)

function dnp3_loop :: "limits \<Rightarrow> stream_chunk \<Rightarrow> dnp3_cursor \<Rightarrow> dnp3_cursor result" where
  "dnp3_loop limits chunk c =
     (if cu_p c < ev_len (ch_bytes chunk)
      then and_then (dnp3_step limits chunk c) (\<lambda>r. if snd r then dnp3_loop limits chunk (fst r) else Ok (fst r))
      else Ok c)"
  by pat_completeness auto
termination
proof (relation "measure (\<lambda>(limits, chunk, c). ev_len (ch_bytes chunk) - cu_p c)")
  fix limits chunk c r
  assume "cu_p c < ev_len (ch_bytes chunk)" and "dnp3_step limits chunk c = Ok r" and "snd r"
  then have "cu_p c < cu_p (fst r)" using dnp3_step_advances [of limits chunk c "fst r"] by (cases r) simp
  then show "((limits, chunk, fst r), (limits, chunk, c)) \<in> measure (\<lambda>(limits, chunk, c). ev_len (ch_bytes chunk) - cu_p c)"
    using \<open>cu_p c < ev_len (ch_bytes chunk)\<close> by simp
qed simp

declare dnp3_loop.simps [simp del]

definition dnp3_chunk :: "limits \<Rightarrow> dnp3_result \<times> nat \<Rightarrow> stream_chunk \<Rightarrow> (dnp3_result \<times> nat) result" where
  "dnp3_chunk limits acc chunk =
     (let bytes = ch_bytes chunk
      in and_then (ok_or (error_limit ''stream_offset'') (i64_of_usize (ev_len bytes))) (\<lambda>extent.
         and_then (ok_or (error_limit ''stream_offset'') (checked_add_i64 (ch_offset chunk) extent)) (\<lambda>fin.
         if \<not> ev_validate bytes
         then Err (error_new Invariant 0 ''provenance'' ''invalid DNP3 source spans'')
         else
           and_then (dnp3_loop limits chunk
             \<lparr>cu_state = \<lparr>ds_out = fst acc, ds_transport = [], ds_apps = []\<rparr>, cu_p = 0, cu_skipped = 0, cu_rejected = snd acc\<rparr>) (\<lambda>c.
           and_then (if cu_skipped c > 0
             then report_skipped ''trailing_unframed_dnp3_bytes'' chunk (cu_p c) (cu_skipped c) limits (cu_state c)
             else Ok (cu_state c)) (\<lambda>s.
           and_then (i64_add (ch_offset chunk) (int (ev_len bytes))) (\<lambda>at.
           and_then (dnp3_flush ''incomplete_dnp3_transport_at_gap_or_eof'' at limits s) (\<lambda>s'.
             Ok (ds_out s', cu_rejected c))))))))"

definition dnp3_decode :: "stream_result \<Rightarrow> limits \<Rightarrow> dnp3_result result" where
  "dnp3_decode stream limits =
     and_then (limits_validate limits) (\<lambda>_.
     and_then (for_each (dnp3_chunk limits) (dnp3_result_default, 0) (sr_chunks stream)) (\<lambda>acc.
       Ok (fst acc)))"

end
