(* ===== verification/Dnp3_Correct.thy ===== *)
theory Dnp3_Correct
  imports Dnp3
begin

text \<open>
  What the DNP3 decoder reports.  Frames are link frames of a chunk; an application fragment is the
  concatenation of consecutive transport segments of one address pair, from a first to a final one;
  an application message is the concatenation of the objects of consecutive fragments of one key.
  The invariant of the decoder's state carries these facts for what is reported and for what is
  pending, and shows on the way that no operation panics.
\<close>

section \<open>Segments and fragments\<close>

definition seg_head :: "link_frame \<Rightarrow> u8" where
  "seg_head f = ev_data (lf_user_data f) ! 0"

definition seg_seq :: "link_frame \<Rightarrow> u8" where
  "seg_seq f = seg_head f AND 63"

definition seg_first :: "link_frame \<Rightarrow> bool" where
  "seg_first f \<longleftrightarrow> seg_head f AND 0x40 \<noteq> 0"

definition seg_last :: "link_frame \<Rightarrow> bool" where
  "seg_last f \<longleftrightarrow> seg_head f AND 0x80 \<noteq> 0"

definition seg_body :: "link_frame \<Rightarrow> (u8 \<times> packet_id \<times> nat) list" where
  "seg_body f = drop 1 (ev_trace (lf_user_data f))"

definition seg_direction :: "link_frame \<Rightarrow> bool" where
  "seg_direction f = lc_direction (lf_link_control f)"

definition seg_key :: "link_frame \<Rightarrow> dnp3_key" where
  "seg_key f = (lf_source f, lf_destination f)"

text \<open>A run of segments: one address pair and direction, first bit on the first segment only, final
  bit on none but the last, sequence numbers consecutive modulo 64.\<close>

definition segment_run :: "dnp3_key \<Rightarrow> link_frame list \<Rightarrow> bool" where
  "segment_run key fs \<longleftrightarrow> fs \<noteq> []
     \<and> (\<forall>f \<in> set fs. seg_key f = key \<and> ev_data (lf_user_data f) \<noteq> [] \<and> seg_direction f = seg_direction (hd fs))
     \<and> seg_first (hd fs) \<and> (\<forall>f \<in> set (tl fs). \<not> seg_first f) \<and> (\<forall>f \<in> set (butlast fs). \<not> seg_last f)
     \<and> successively (\<lambda>f g. seg_seq g = (seg_seq f + 1) AND 63) fs"

text \<open>The frames of an assembly: the run that makes up its bytes, and repetitions of its segments.\<close>

definition assembled :: "link_frame list \<Rightarrow> dnp3_key \<Rightarrow> nat list \<Rightarrow> nat list \<Rightarrow> evidence \<Rightarrow> bool" where
  "assembled F key frames run bytes \<longleftrightarrow>
     sorted_wrt (<) frames \<and> sorted_wrt (<) run \<and> set run \<subseteq> set frames \<and> (\<forall>i \<in> set frames. i < length F)
     \<and> segment_run key (map (nth F) run)
     \<and> (\<forall>i \<in> set frames. seg_key (F ! i) = key
          \<and> (\<exists>k \<in> set run. ev_data (lf_user_data (F ! i)) = ev_data (lf_user_data (F ! k))))
     \<and> ev_validate bytes \<and> ev_trace bytes = concat (map (\<lambda>i. seg_body (F ! i)) run)"

definition app_fragment_ok :: "limits \<Rightarrow> link_frame list \<Rightarrow> application_fragment \<Rightarrow> bool" where
  "app_fragment_ok limits F g \<longleftrightarrow>
     (\<exists>run. assembled F (af_source g, af_destination g) (af_frames g) run (af_raw g) \<and> seg_last (F ! last run))
     \<and> app_fragment (af_raw g) (af_source g) (af_destination g) (af_frames g) = Ok g
     \<and> ev_len (af_raw g) \<le> max_application_bytes limits \<and> length (af_frames g) \<le> max_protocol_messages limits"

definition fragment_packets :: "link_frame list \<Rightarrow> application_fragment \<Rightarrow> packet_id set" where
  "fragment_packets F g = (\<Union>i \<in> set (af_frames g). set (ev_packets (lf_raw (F ! i))))"

definition fragment_key :: "application_fragment \<Rightarrow> app_key" where
  "fragment_key g = (af_source g, af_destination g, af_class g)"

text \<open>A run of fragments: one key and function, first bit on the first fragment only, final bit on none
  but the last, sequence numbers consecutive modulo 16.\<close>

definition fragment_run :: "app_key \<Rightarrow> u8 \<Rightarrow> application_fragment list \<Rightarrow> bool" where
  "fragment_run key fn gs \<longleftrightarrow> gs \<noteq> []
     \<and> (\<forall>g \<in> set gs. fragment_key g = key \<and> af_function g = fn)
     \<and> af_first (hd gs) \<and> (\<forall>g \<in> set (tl gs). \<not> af_first g) \<and> (\<forall>g \<in> set (butlast gs). \<not> af_final g)
     \<and> successively (\<lambda>g h. af_sequence h = (af_sequence g + 1) AND 15) gs"

definition message_ok ::
    "limits \<Rightarrow> link_frame list \<Rightarrow> application_fragment list \<Rightarrow> application_message \<Rightarrow> bool" where
  "message_ok limits F G m \<longleftrightarrow>
     (\<forall>j \<in> set (am_fragments m). j < length G) \<and> sorted_wrt (<) (am_fragments m)
     \<and> fragment_run (am_source m, am_destination m, am_class m) (am_function m) (map (nth G) (am_fragments m))
     \<and> am_first_sequence m = af_sequence (G ! hd (am_fragments m))
     \<and> (am_complete m \<longleftrightarrow> af_final (G ! last (am_fragments m)))
     \<and> ev_validate (am_objects m)
     \<and> ev_trace (am_objects m) = concat (map (\<lambda>j. ev_trace (af_objects (G ! j))) (am_fragments m))
     \<and> ev_len (am_objects m) \<le> max_application_bytes limits
     \<and> set (am_packets m) = (\<Union>j \<in> set (am_fragments m). fragment_packets F (G ! j))
     \<and> sorted_wrt (<) (am_packets m)"

section \<open>The invariant\<close>

definition frame_ok :: "stream_chunk list \<Rightarrow> link_frame \<Rightarrow> bool" where
  "frame_ok C f \<longleftrightarrow> (\<exists>chunk \<in> set C. \<exists>off n. link_ok (ch_bytes chunk) off (ch_offset chunk) f n)"

definition range_ok :: "stream_chunk list \<Rightarrow> rejected_link_range \<Rightarrow> bool" where
  "range_ok C r \<longleftrightarrow> (\<exists>chunk \<in> set C. \<exists>p n. p + n \<le> ev_len (ch_bytes chunk) \<and> 0 < n
     \<and> rl_stream_offset r = ch_offset chunk + int p \<and> ev_validate (rl_raw r)
     \<and> ev_trace (rl_raw r) = sub_list (ev_trace (ch_bytes chunk)) p (p + n)
     \<and> (\<forall>d. rl_declared_length r = Some d \<longrightarrow> n = min d (ev_len (ch_bytes chunk) - p))
     \<and> (rl_declared_length r = None \<longrightarrow> p + n = ev_len (ch_bytes chunk)))"

definition within_limits :: "limits \<Rightarrow> dnp3_result \<Rightarrow> bool" where
  "within_limits limits out \<longleftrightarrow>
     length (dr_frames out) \<le> max_protocol_messages limits
     \<and> length (dr_fragments out) \<le> max_protocol_messages limits
     \<and> length (dr_messages out) \<le> max_protocol_messages limits
     \<and> length (dr_issues out) \<le> max_protocol_messages limits
     \<and> length (dr_rejected out) \<le> max_protocol_messages limits"

definition out_ok :: "stream_chunk list \<Rightarrow> limits \<Rightarrow> dnp3_result \<Rightarrow> bool" where
  "out_ok C limits out \<longleftrightarrow> within_limits limits out
     \<and> (\<forall>f \<in> set (dr_frames out). frame_ok C f)
     \<and> (\<forall>g \<in> set (dr_fragments out). app_fragment_ok limits (dr_frames out) g)
     \<and> (\<forall>m \<in> set (dr_messages out). message_ok limits (dr_frames out) (dr_fragments out) m)
     \<and> (\<forall>r \<in> set (dr_rejected out). range_ok C r)"

text \<open>A pending transport assembly; \<open>run\<close> is the run of segments it holds.\<close>

definition holds_run :: "limits \<Rightarrow> link_frame list \<Rightarrow> dnp3_key \<Rightarrow> transport_assembly \<Rightarrow> nat list \<Rightarrow> bool" where
  "holds_run limits F key a run \<longleftrightarrow> assembled F key (ta_frames a) run (ta_bytes a)
     \<and> ta_last_sequence a = seg_seq (F ! last run) \<and> ta_direction a = seg_direction (F ! hd run)
     \<and> (\<forall>q b. bt_get (ta_seen a) q = Some b \<longrightarrow>
          (\<exists>i \<in> set run. seg_seq (F ! i) = q \<and> ev_data (lf_user_data (F ! i)) = b))
     \<and> ev_len (ta_bytes a) \<le> max_application_bytes limits \<and> length (ta_frames a) \<le> max_protocol_messages limits"

definition transport_ok :: "limits \<Rightarrow> link_frame list \<Rightarrow> dnp3_key \<Rightarrow> transport_assembly \<Rightarrow> bool" where
  "transport_ok limits F key a \<longleftrightarrow> (\<exists>run. holds_run limits F key a run \<and> \<not> seg_last (F ! last run))"

definition message_of :: "app_assembly \<Rightarrow> bool \<Rightarrow> application_message" where
  "message_of app complete =
     \<lparr>am_source = aa_source app, am_destination = aa_destination app, am_function = aa_function app,
      am_first_sequence = aa_first_sequence app, am_class = aa_class app, am_complete = complete,
      am_fragments = aa_fragments app, am_packets = sort_dedup (aa_packets app), am_objects = aa_objects app\<rparr>"

definition app_ok ::
    "limits \<Rightarrow> link_frame list \<Rightarrow> application_fragment list \<Rightarrow> app_key \<Rightarrow> app_assembly \<Rightarrow> bool" where
  "app_ok limits F G key a \<longleftrightarrow> message_ok limits F G (message_of a (af_final (G ! last (aa_fragments a))))
     \<and> key = (aa_source a, aa_destination a, aa_class a) \<and> aa_last_sequence a = af_sequence (G ! last (aa_fragments a))"

definition app_pending ::
    "limits \<Rightarrow> link_frame list \<Rightarrow> application_fragment list \<Rightarrow> app_key \<Rightarrow> app_assembly \<Rightarrow> bool" where
  "app_pending limits F G key a \<longleftrightarrow> app_ok limits F G key a \<and> \<not> af_final (G ! last (aa_fragments a))"

definition transports_ok :: "limits \<Rightarrow> link_frame list \<Rightarrow> (dnp3_key \<times> transport_assembly) list \<Rightarrow> bool" where
  "transports_ok limits F T \<longleftrightarrow> bt_ordered T \<and> (\<forall>k a. bt_get T k = Some a \<longrightarrow> transport_ok limits F k a)"

definition apps_ok :: "limits \<Rightarrow> link_frame list \<Rightarrow> application_fragment list \<Rightarrow> app_map \<Rightarrow> bool" where
  "apps_ok limits F G A \<longleftrightarrow> bt_ordered A \<and> (\<forall>k a. bt_get A k = Some a \<longrightarrow> app_pending limits F G k a)"

definition state_ok :: "stream_chunk list \<Rightarrow> limits \<Rightarrow> dnp3_state \<Rightarrow> bool" where
  "state_ok C limits s \<longleftrightarrow> out_ok C limits (ds_out s) \<and> transports_ok limits (dr_frames (ds_out s)) (ds_transport s)
     \<and> apps_ok limits (dr_frames (ds_out s)) (dr_fragments (ds_out s)) (ds_apps s)"

section \<open>Growing the result\<close>

lemma map_nth_append: "\<forall>i \<in> set is. i < length F \<Longrightarrow> map (nth (F @ F')) is = map (nth F) is"
  by (simp add: nth_append)

lemma assembled_grow: "assembled F key frames run bytes \<Longrightarrow> assembled (F @ F') key frames run bytes"
proof -
  assume a: "assembled F key frames run bytes"
  then have "\<forall>i \<in> set frames. i < length F" "\<forall>i \<in> set run. i < length F" by (auto simp: assembled_def)
  then have m: "map (nth (F @ F')) run = map (nth F) run" "map (\<lambda>i. seg_body ((F @ F') ! i)) run = map (\<lambda>i. seg_body (F ! i)) run"
    and "\<And>i. i \<in> set frames \<Longrightarrow> (F @ F') ! i = F ! i" "\<And>i. i \<in> set run \<Longrightarrow> (F @ F') ! i = F ! i"
    by (simp_all add: nth_append)
  with a show ?thesis unfolding assembled_def m by auto
qed

lemma assembled_bounds:
  assumes "assembled F key frames run bytes"
  shows "run \<noteq> []" "last run < length F" "hd run < length F" "\<forall>i \<in> set run. i < length F" "\<forall>i \<in> set frames. i < length F"
    "last run \<in> set run" "hd run \<in> set run"
  using assms by (auto simp: assembled_def segment_run_def subset_iff)

lemma app_fragment_ok_grow: "app_fragment_ok limits F g \<Longrightarrow> app_fragment_ok limits (F @ F') g"
proof -
  assume g: "app_fragment_ok limits F g"
  then obtain run where "assembled F (af_source g, af_destination g) (af_frames g) run (af_raw g)" "seg_last (F ! last run)"
    by (auto simp: app_fragment_ok_def)
  then have "assembled (F @ F') (af_source g, af_destination g) (af_frames g) run (af_raw g) \<and> seg_last ((F @ F') ! last run)"
    using assembled_bounds(2) by (simp add: assembled_grow nth_append)
  with g show ?thesis unfolding app_fragment_ok_def by blast
qed

lemma fragment_packets_grow: "app_fragment_ok limits F g \<Longrightarrow> fragment_packets (F @ F') g = fragment_packets F g"
proof -
  assume "app_fragment_ok limits F g"
  then have "\<forall>i \<in> set (af_frames g). i < length F" using assembled_bounds(5) by (auto simp: app_fragment_ok_def)
  then show ?thesis by (simp add: fragment_packets_def nth_append)
qed

lemma holds_run_seen:
  "holds_run limits F key a run \<Longrightarrow> bt_get (ta_seen a) q = Some b
    \<Longrightarrow> \<exists>i \<in> set run. seg_seq (F ! i) = q \<and> ev_data (lf_user_data (F ! i)) = b"
  unfolding holds_run_def by blast

lemma holds_run_grow: "holds_run limits F key a run \<Longrightarrow> holds_run limits (F @ F') key a run"
proof -
  assume a: "holds_run limits F key a run"
  then have "assembled F key (ta_frames a) run (ta_bytes a)" by (simp add: holds_run_def)
  note b = assembled_grow [OF this, of F'] assembled_bounds [OF this]
  from a b show ?thesis unfolding holds_run_def by (metis nth_append)
qed

lemma transport_ok_grow: "transport_ok limits F key a \<Longrightarrow> transport_ok limits (F @ F') key a"
  unfolding transport_ok_def using holds_run_grow
  by (metis assembled_bounds(2) holds_run_def nth_append)

lemma message_ok_grow_frames:
  assumes "message_ok limits F G m" and "\<forall>g \<in> set G. app_fragment_ok limits F g"
  shows "message_ok limits (F @ F') G m"
proof -
  have "fragment_packets (F @ F') (G ! j) = fragment_packets F (G ! j)" if "j \<in> set (am_fragments m)" for j
    using that assms by (intro fragment_packets_grow) (auto simp: message_ok_def)
  then show ?thesis using assms(1) by (simp add: message_ok_def)
qed

lemma message_ok_grow_fragments:
  assumes "message_ok limits F G m"
  shows "message_ok limits F (G @ G') m"
proof -
  have j: "\<forall>j \<in> set (am_fragments m). j < length G" "am_fragments m \<noteq> []"
    using assms by (auto simp: message_ok_def fragment_run_def)
  then have "hd (am_fragments m) < length G" "last (am_fragments m) < length G" by auto
  then show ?thesis using assms j unfolding message_ok_def by (auto simp: nth_append cong: map_cong)
qed

lemma app_pending_grow_frames:
  "app_pending limits F G k a \<Longrightarrow> \<forall>g \<in> set G. app_fragment_ok limits F g \<Longrightarrow> app_pending limits (F @ F') G k a"
  using message_ok_grow_frames unfolding app_pending_def app_ok_def by blast

lemma app_pending_message: "app_pending limits F G k a \<Longrightarrow> message_ok limits F G (message_of a False)"
  by (auto simp: app_pending_def app_ok_def)

lemma app_ok_grow_fragments:
  assumes "app_ok limits F G k a"
  shows "app_ok limits F (G @ G') k a" and "af_final ((G @ G') ! last (aa_fragments a)) = af_final (G ! last (aa_fragments a))"
proof -
  have "\<forall>j \<in> set (aa_fragments a). j < length G" "aa_fragments a \<noteq> []"
    using assms by (auto simp: app_ok_def message_ok_def fragment_run_def message_of_def)
  then have l: "(G @ G') ! last (aa_fragments a) = G ! last (aa_fragments a)" by (simp add: nth_append)
  show "app_ok limits F (G @ G') k a" using assms by (simp add: app_ok_def l message_ok_grow_fragments)
  show "af_final ((G @ G') ! last (aa_fragments a)) = af_final (G ! last (aa_fragments a))" by (simp add: l)
qed

lemma transports_ok_grow: "transports_ok limits F T \<Longrightarrow> transports_ok limits (F @ F') T"
  by (simp add: transports_ok_def transport_ok_grow)

lemma apps_ok_grow:
  "apps_ok limits F G A \<Longrightarrow> \<forall>g \<in> set G. app_fragment_ok limits F g \<Longrightarrow> apps_ok limits (F @ F') G A"
  by (simp add: apps_ok_def app_pending_grow_frames)

lemma transports_ok_del: "transports_ok limits F T \<Longrightarrow> transports_ok limits F (bt_del k T)"
  by (auto simp: transports_ok_def bt_ordered_del bt_get_del)

lemma transports_ok_put:
  "transports_ok limits F T \<Longrightarrow> transport_ok limits F k a \<Longrightarrow> transports_ok limits F (bt_put k a T)"
  by (auto simp: transports_ok_def bt_ordered_put bt_get_put)

lemma apps_ok_del: "apps_ok limits F G A \<Longrightarrow> apps_ok limits F G (bt_del k A)"
  by (auto simp: apps_ok_def bt_ordered_del bt_get_del)

lemma transports_okD: "transports_ok limits F T \<Longrightarrow> bt_get T k = Some a \<Longrightarrow> transport_ok limits F k a"
  unfolding transports_ok_def by blast

lemma apps_okD: "apps_ok limits F G A \<Longrightarrow> bt_get A k = Some a \<Longrightarrow> app_pending limits F G k a"
  unfolding apps_ok_def by blast

lemma transports_ok_Nil [simp]: "transports_ok limits F []"
  by (simp add: transports_ok_def)

lemma apps_ok_Nil [simp]: "apps_ok limits F G []"
  by (simp add: apps_ok_def)

section \<open>Evidence\<close>

lemma ev_append_yields:
  assumes "ev_validate e" "ev_validate f"
  shows "yields (ev_append e f limit) (\<lambda>e'. ev_validate e' \<and> ev_trace e' = ev_trace e @ ev_trace f \<and> ev_len e' \<le> limit)"
proof -
  have "ev_append e f limit \<noteq> Panic"
  proof (cases "length (ev_data e) + length (ev_data f) \<le> limit \<and> length (ev_data e) + length (ev_data f) < usize_limit")
    case True
    then show ?thesis using ev_append_ok [OF assms, of limit] by auto
  next
    case False
    then show ?thesis using assms
      by (cases "length (ev_data e) + length (ev_data f) < usize_limit")
        (simp_all add: ev_append_def Let_def checked_add_def ev_validate_def)
  qed
  moreover have "ev_validate e' \<and> ev_trace e' = ev_trace e @ ev_trace f \<and> ev_len e' \<le> limit"
    if "ev_append e f limit = Ok e'" for e'
    using ev_append_OkD(1-4) [OF assms that] length_ev_labels [OF assms(1)] by (simp add: ev_len_def ev_trace_def)
  ultimately show ?thesis by (simp add: yields_iff)
qed

lemma ev_slice_yields:
  assumes "ev_validate e" "a \<le> b" "b \<le> ev_len e"
  shows "yields (ev_slice e a b) (\<lambda>e'. ev_validate e' \<and> ev_trace e' = sub_list (ev_trace e) a b)"
  using evidence.cut_ok [OF assms(1,2)] assms(3) by (auto simp: ev_trace_length [OF assms(1)] ev_len_def)

section \<open>Issues, messages and interruptions\<close>

definition keeps :: "dnp3_result \<Rightarrow> dnp3_result \<Rightarrow> bool" where
  "keeps out out' \<longleftrightarrow> dr_frames out' = dr_frames out \<and> dr_fragments out' = dr_fragments out"

lemma issue_yields:
  "out_ok C limits out \<Longrightarrow> yields (dnp3_issue out code packets at limits) (\<lambda>out'. out_ok C limits out' \<and> keeps out out')"
  by (simp add: dnp3_issue_def out_ok_def within_limits_def keeps_def)

lemma emit_yields:
  "out_ok C limits out \<Longrightarrow> message_ok limits (dr_frames out) (dr_fragments out) (message_of app complete)
    \<Longrightarrow> yields (emit_app out app complete limits) (\<lambda>out'. out_ok C limits out' \<and> keeps out out')"
  by (simp add: emit_app_def out_ok_def within_limits_def keeps_def message_of_def)

lemma emit_pending_yields:
  "out_ok C limits out \<Longrightarrow> app_pending limits (dr_frames out) (dr_fragments out) k app
    \<Longrightarrow> yields (emit_app out app False limits) (\<lambda>out'. out_ok C limits out' \<and> keeps out out')"
  by (rule emit_yields) (simp_all add: app_pending_message)

lemma keeps_trans: "keeps a b \<Longrightarrow> keeps b c \<Longrightarrow> keeps a c"
  by (simp add: keeps_def)

lemma keeps_refl [simp]: "keeps a a"
  by (simp add: keeps_def)

lemma flush_yields:
  assumes "state_ok C limits s"
  shows "yields (dnp3_flush code at limits s) (\<lambda>s'. state_ok C limits s' \<and> keeps (ds_out s) (ds_out s'))"
proof -
  define P where "P = (\<lambda>out. out_ok C limits out \<and> keeps (ds_out s) out)"
  have start: "P (ds_out s)" using assms by (simp add: P_def state_ok_def)
  have apps: "app_pending limits (dr_frames out) (dr_fragments out) (fst e) (snd e)" if "P out" "e \<in> set (ds_apps s)" for out e
  proof -
    have "bt_get (ds_apps s) (fst e) = Some (snd e)"
      using assms that(2) by (simp add: state_ok_def apps_ok_def bt_get_iff)
    then show ?thesis using assms that(1) unfolding state_ok_def apps_ok_def P_def keeps_def by metis
  qed
  show ?thesis unfolding dnp3_flush_def
  proof (rule yields_and_then, rule yields_for_each [where P = P])
    show "P (ds_out s)" by (rule start)
    show "yields (dnp3_issue out code (ev_packets (ta_bytes (snd x))) at limits) P" if "P out" for out x
      using that issue_yields [of C limits out code "ev_packets (ta_bytes (snd x))" at]
      by (auto simp: P_def elim!: yields_mono intro: keeps_trans)
    show "yields (and_then (for_each (\<lambda>out entry. emit_app out (snd entry) False limits) out (ds_apps s))
        (\<lambda>out'. Ok \<lparr>ds_out = out', ds_transport = [], ds_apps = []\<rparr>)) (\<lambda>s'. state_ok C limits s' \<and> keeps (ds_out s) (ds_out s'))"
      if out: "P out" for out
    proof (rule yields_and_then, rule yields_for_each [where P = P])
      show "P out" by (rule out)
      show "yields (emit_app out' (snd e) False limits) P" if "P out'" "e \<in> set (ds_apps s)" for out' e
        using that emit_pending_yields [OF _ apps [OF that], of C]
        by (auto simp: P_def elim!: yields_mono intro: keeps_trans)
    qed (simp add: P_def state_ok_def)
  qed
qed

lemma interrupt_applications_yields:
  assumes "out_ok C limits out" and "apps_ok limits (dr_frames out) (dr_fragments out) A"
  shows "yields (interrupt_applications out A key limits) (\<lambda>(out', A'). out_ok C limits out' \<and> keeps out out'
    \<and> apps_ok limits (dr_frames out) (dr_fragments out) A')"
  unfolding interrupt_applications_def
proof (rule yields_for_each)
  let ?P = "\<lambda>(out', A'). out_ok C limits out' \<and> keeps out out' \<and> apps_ok limits (dr_frames out) (dr_fragments out) A'"
  show "?P (out, A)" using assms by simp
  fix s c
  assume s: "?P s"
  obtain o1 A1 where s1: "s = (o1, A1)" by (cases s)
  show "yields ((\<lambda>(out, apps) c. case bt_get apps (fst key, snd key, c) of None \<Rightarrow> Ok (out, apps)
    | Some held \<Rightarrow> and_then (emit_app out held False limits) (\<lambda>out'. Ok (out', bt_del (fst key, snd key, c) apps))) s c) ?P"
  proof (cases "bt_get A1 (fst key, snd key, c)")
    case None
    then show ?thesis using s s1 by simp
  next
    case (Some a)
    then have "app_pending limits (dr_frames o1) (dr_fragments o1) (fst key, snd key, c) a"
      using s s1 by (auto simp: apps_ok_def keeps_def)
    from emit_pending_yields [OF _ this, of C] s s1 show ?thesis
      by (auto simp: Some yields_bind apps_ok_del elim!: yields_mono intro: keeps_trans)
  qed
qed

lemma interrupt_yields:
  assumes "out_ok C limits (ds_out s)" and "apps_ok limits (dr_frames (ds_out s)) (dr_fragments (ds_out s)) (ds_apps s)"
  shows "yields (dnp3_interrupt code packets at key limits s) (\<lambda>s'. out_ok C limits (ds_out s') \<and> keeps (ds_out s) (ds_out s')
    \<and> apps_ok limits (dr_frames (ds_out s)) (dr_fragments (ds_out s)) (ds_apps s')
    \<and> ds_transport s' = bt_del key (ds_transport s))"
  unfolding dnp3_interrupt_def
proof (rule yields_and_then [OF issue_yields [OF assms(1)]])
  fix out
  assume o: "out_ok C limits out \<and> keeps (ds_out s) out"
  then have "apps_ok limits (dr_frames out) (dr_fragments out) (ds_apps s)" using assms(2) by (simp add: keeps_def)
  from interrupt_applications_yields [OF _ this, of C key] o
  show "yields (and_then (interrupt_applications out (ds_apps s) key limits)
      (\<lambda>(out', apps). Ok \<lparr>ds_out = out', ds_transport = bt_del key (ds_transport s), ds_apps = apps\<rparr>))
    (\<lambda>s'. out_ok C limits (ds_out s') \<and> keeps (ds_out s) (ds_out s')
      \<and> apps_ok limits (dr_frames (ds_out s)) (dr_fragments (ds_out s)) (ds_apps s')
      \<and> ds_transport s' = bt_del key (ds_transport s))"
    by (auto simp: yields_bind keeps_def elim!: yields_mono)
qed

lemma interrupt_state_yields:
  assumes "state_ok C limits s"
  shows "yields (dnp3_interrupt code packets at key limits s) (\<lambda>s'. state_ok C limits s' \<and> keeps (ds_out s) (ds_out s')
    \<and> ds_transport s' = bt_del key (ds_transport s))"
  using interrupt_yields [of C limits s code packets at key] assms
  by (auto simp: state_ok_def keeps_def transports_ok_del elim!: yields_mono)

section \<open>Transport assemblies\<close>

lemma segment_run_snoc:
  assumes "segment_run key fs" and "\<not> seg_last (last fs)" and "seg_key f = key" and "ev_data (lf_user_data f) \<noteq> []"
    and "seg_direction f = seg_direction (hd fs)" and "\<not> seg_first f" and "seg_seq f = (seg_seq (last fs) + 1) AND 63"
  shows "segment_run key (fs @ [f])"
proof -
  have "fs \<noteq> []" using assms(1) by (simp add: segment_run_def)
  then have "set fs = insert (last fs) (set (butlast fs))" by (metis Un_insert_right append_butlast_last_id list.set(1,2) set_append sup_bot.right_neutral)
  then show ?thesis using assms \<open>fs \<noteq> []\<close> unfolding segment_run_def
    by (auto simp: successively_append_iff)
qed

lemma assembled_start:
  assumes "seg_key f = key" "ev_data (lf_user_data f) \<noteq> []" "seg_first f" "ev_validate bytes" "ev_trace bytes = seg_body f"
  shows "assembled (F @ [f]) key [length F] [length F] bytes"
  using assms by (simp add: assembled_def segment_run_def)

lemma assembled_duplicate:
  assumes "assembled F key frames run bytes" "seg_key f = key"
    "k \<in> set run" "ev_data (lf_user_data (F ! k)) = ev_data (lf_user_data f)"
  shows "assembled (F @ [f]) key (frames @ [length F]) run bytes"
proof -
  have "k < length F" using assms(3) assembled_bounds(4) [OF assms(1)] by simp
  then have "\<exists>k \<in> set run. ev_data (lf_user_data ((F @ [f]) ! length F)) = ev_data (lf_user_data ((F @ [f]) ! k))"
    using assms(3,4) by (intro bexI [of _ k]) (simp_all add: nth_append)
  then show ?thesis using assembled_grow [OF assms(1), of "[f]"] assembled_bounds(5) [OF assms(1)] assms(2)
    unfolding assembled_def by (auto simp: sorted_wrt_append)
qed

lemma assembled_extend:
  assumes a: "assembled F key frames run bytes" and "\<not> seg_last (F ! last run)"
    and f: "seg_key f = key" "ev_data (lf_user_data f) \<noteq> []" "\<not> seg_first f"
      "seg_direction f = seg_direction (F ! hd run)" "seg_seq f = (seg_seq (F ! last run) + 1) AND 63"
    and "ev_validate bytes'" "ev_trace bytes' = ev_trace bytes @ seg_body f"
  shows "assembled (F @ [f]) key (frames @ [length F]) (run @ [length F]) bytes'"
proof -
  note b = assembled_bounds [OF a] and g = assembled_grow [OF a, of "[f]"]
  have old: "map (\<lambda>i. seg_body ((F @ [f]) ! i)) run = map (\<lambda>i. seg_body (F ! i)) run"
    "map (nth (F @ [f])) (run @ [length F]) = map (nth F) run @ [f]" using b(4) by (simp_all add: nth_append)
  have "segment_run key (map (nth F) run @ [f])"
    using a b(1) assms(2) f by (intro segment_run_snoc) (simp_all add: assembled_def last_map hd_map)
  then have "segment_run key (map (nth (F @ [f])) (run @ [length F]))" by (simp only: old(2))
  moreover have "ev_trace bytes' = concat (map (\<lambda>i. seg_body ((F @ [f]) ! i)) (run @ [length F]))"
    using assms(9) a by (simp add: assembled_def old(1))
  moreover have "sorted_wrt (<) (frames @ [length F])" "sorted_wrt (<) (run @ [length F])"
    "set (run @ [length F]) \<subseteq> set (frames @ [length F])" "\<forall>i \<in> set (frames @ [length F]). i < length (F @ [f])"
    using a b(4,5) by (auto simp: assembled_def sorted_wrt_append)
  moreover have "\<forall>i \<in> set (frames @ [length F]). seg_key ((F @ [f]) ! i) = key
      \<and> (\<exists>k \<in> set (run @ [length F]). ev_data (lf_user_data ((F @ [f]) ! i)) = ev_data (lf_user_data ((F @ [f]) ! k)))"
    using g f(1) unfolding assembled_def by auto
  ultimately show ?thesis using assms(8) unfolding assembled_def by blast
qed

text \<open>The state in which a segment is treated: its frame \<open>f\<close> is the last of the result, and the pending
  assemblies do not know it yet.\<close>

definition mid_ok :: "stream_chunk list \<Rightarrow> limits \<Rightarrow> link_frame list \<Rightarrow> link_frame \<Rightarrow> dnp3_state \<Rightarrow> bool" where
  "mid_ok C limits F f s \<longleftrightarrow> out_ok C limits (ds_out s) \<and> dr_frames (ds_out s) = F @ [f]
     \<and> transports_ok limits F (ds_transport s)
     \<and> apps_ok limits (F @ [f]) (dr_fragments (ds_out s)) (ds_apps s)"

lemma mid_state_ok: "mid_ok C limits F f s \<Longrightarrow> state_ok C limits s"
  by (auto simp: mid_ok_def state_ok_def transports_ok_grow)

lemma interrupt_mid_yields:
  assumes "mid_ok C limits F f s"
  shows "yields (dnp3_interrupt code packets at key limits s) (\<lambda>s'. mid_ok C limits F f s'
    \<and> ds_transport s' = bt_del key (ds_transport s))"
  using interrupt_yields [of C limits s code packets at key] assms
  by (auto simp: mid_ok_def keeps_def transports_ok_del elim!: yields_mono)

text \<open>What holds when a segment has been taken: the assembly of its key ends with it.\<close>

definition taken_ok :: "stream_chunk list \<Rightarrow> limits \<Rightarrow> link_frame list \<Rightarrow> link_frame \<Rightarrow> dnp3_state \<Rightarrow> bool" where
  "taken_ok C limits F f s \<longleftrightarrow> out_ok C limits (ds_out s) \<and> dr_frames (ds_out s) = F @ [f]
     \<and> transports_ok limits (F @ [f]) (bt_del (seg_key f) (ds_transport s)) \<and> bt_ordered (ds_transport s)
     \<and> apps_ok limits (F @ [f]) (dr_fragments (ds_out s)) (ds_apps s)
     \<and> (\<exists>a run. bt_get (ds_transport s) (seg_key f) = Some a \<and> holds_run limits (F @ [f]) (seg_key f) a run
          \<and> last run = length F)"

lemma taken_put:
  assumes "mid_ok C limits F f s" and "holds_run limits (F @ [f]) (seg_key f) a run" and "last run = length F"
  shows "taken_ok C limits F f (s\<lparr>ds_transport := bt_put (seg_key f) a (ds_transport s)\<rparr>)"
proof -
  have o: "bt_ordered (ds_transport s)" using assms(1) by (simp add: mid_ok_def transports_ok_def)
  have t: "transports_ok limits (F @ [f]) (ds_transport s)" using assms(1) by (simp add: mid_ok_def transports_ok_grow)
  have "transports_ok limits (F @ [f]) (bt_del (seg_key f) (bt_put (seg_key f) a (ds_transport s)))"
    using t by (auto simp: transports_ok_def bt_ordered_del bt_ordered_put bt_get_del bt_get_put)
  then show ?thesis using assms o by (auto simp: taken_ok_def mid_ok_def bt_ordered_put bt_get_put)
qed

text \<open>A segment of the decoder: a frame with non-empty valid user data.\<close>

definition segment_ok :: "link_frame \<Rightarrow> bool" where
  "segment_ok f \<longleftrightarrow> ev_validate (lf_user_data f) \<and> ev_data (lf_user_data f) \<noteq> []"

lemma seg_slice_yields:
  assumes "segment_ok f"
  shows "yields (ev_slice (lf_user_data f) 1 (ev_len (lf_user_data f))) (\<lambda>e. ev_validate e \<and> ev_trace e = seg_body f)"
proof -
  have v: "ev_validate (lf_user_data f)" "1 \<le> ev_len (lf_user_data f)"
    using assms by (simp_all add: segment_ok_def ev_len_def Suc_le_eq)
  have "sub_list (ev_trace (lf_user_data f)) 1 (ev_len (lf_user_data f)) = seg_body f"
    using ev_trace_length [OF v(1)] by (simp add: sub_list_def seg_body_def ev_len_def)
  then show ?thesis using ev_slice_yields [OF v order_refl] by simp
qed

lemma seg_body_length: "segment_ok f \<Longrightarrow> length (seg_body f) = ev_len (lf_user_data f) - 1"
  by (simp add: segment_ok_def seg_body_def ev_trace_length ev_len_def)

lemma ev_len_trace: "ev_validate e \<Longrightarrow> ev_len e = length (ev_trace e)"
  by (simp add: ev_len_def ev_trace_length)

lemma transport_start_yields:
  assumes "mid_ok C limits F f s" and "segment_ok f" and "seg_first f" and "0 < max_protocol_messages limits"
  shows "yields (transport_start limits (length F) (seg_key f) at (seg_direction f) (lf_user_data f) (seg_seq f) s)
    (taken_ok C limits F f)"
  unfolding transport_start_def
proof (rule yields_and_then)
  show "yields (case bt_get (ds_transport s) (seg_key f) of
      Some old \<Rightarrow> dnp3_interrupt ''dnp3_transport_restart_before_fin'' (ev_packets (ta_bytes old)) at (seg_key f) limits s
    | None \<Rightarrow> Ok s) (mid_ok C limits F f)"
    using assms(1) by (auto split: option.split intro!: yields_mono [OF interrupt_mid_yields [OF assms(1)]])
  fix s'
  assume s': "mid_ok C limits F f s'"
  have one: "usub (ev_len (lf_user_data f)) 1 = (Ok (ev_len (lf_user_data f) - 1) :: nat result)"
    using assms(2) by (intro usub_ok) (simp add: segment_ok_def ev_len_def Suc_le_eq)
  have "taken_ok C limits F f (s'\<lparr>ds_transport := bt_put (seg_key f)
      \<lparr>ta_last_sequence = seg_seq f, ta_seen = [(seg_seq f, ev_data (lf_user_data f))], ta_direction = seg_direction f,
       ta_bytes = bytes, ta_frames = [length F]\<rparr> (ds_transport s')\<rparr>)"
    if "ev_len (lf_user_data f) - 1 \<le> max_application_bytes limits" "ev_validate bytes \<and> ev_trace bytes = seg_body f" for bytes
    using that assms(2-4) seg_body_length [OF assms(2)]
    by (intro taken_put [OF s', of _ "[length F]"])
      (auto simp: holds_run_def assembled_start segment_ok_def ev_len_trace split: if_split_asm)
  then show "yields (and_then (usub (ev_len (lf_user_data f)) 1) (\<lambda>n.
       if n > max_application_bytes limits then Err (error_limit ''dnp3_application_bytes'')
       else and_then (ev_slice (lf_user_data f) 1 (ev_len (lf_user_data f))) (\<lambda>bytes.
         Ok (s'\<lparr>ds_transport := bt_put (seg_key f)
           \<lparr>ta_last_sequence = seg_seq f, ta_seen = [(seg_seq f, ev_data (lf_user_data f))], ta_direction = seg_direction f,
            ta_bytes = bytes, ta_frames = [length F]\<rparr> (ds_transport s')\<rparr>)))) (taken_ok C limits F f)"
    using seg_slice_yields [OF assms(2)] unfolding one by (auto simp: yields_bind elim!: yields_mono)
qed

lemma transport_extend_yields:
  assumes "mid_ok C limits F f s" and "segment_ok f" and "\<not> seg_first f"
    and a: "bt_get (ds_transport s) (seg_key f) = Some a" "ta_direction a = seg_direction f" "seg_seq f = next_sequence a"
  shows "yields (transport_extend limits (length F) (seg_key f) (lf_user_data f) (seg_seq f) a s) (taken_ok C limits F f)"
proof -
  obtain run where run: "holds_run limits F (seg_key f) a run" "\<not> seg_last (F ! last run)"
    using transports_okD [OF _ a(1), of limits F] assms(1) unfolding mid_ok_def transport_ok_def by blast
  then have old: "assembled F (seg_key f) (ta_frames a) run (ta_bytes a)" "ev_validate (ta_bytes a)"
    by (simp_all add: holds_run_def assembled_def)
  have fin: "taken_ok C limits F f (s\<lparr>ds_transport := bt_put (seg_key f)
         (a\<lparr>ta_last_sequence := seg_seq f, ta_seen := bt_put (seg_seq f) (ev_data (lf_user_data f)) (ta_seen a), ta_bytes := bytes,
            ta_frames := ta_frames a @ [length F]\<rparr>) (ds_transport s)\<rparr>)"
    if b: "ev_validate bytes" "ev_trace bytes = ev_trace (ta_bytes a) @ seg_body f" "ev_len bytes \<le> max_application_bytes limits"
      and l: "length (ta_frames a) < max_protocol_messages limits" for bytes
  proof (rule taken_put [OF assms(1), of _ "run @ [length F]"])
    have "assembled (F @ [f]) (seg_key f) (ta_frames a @ [length F]) (run @ [length F]) bytes"
      using run(1) assms(2,3) a(2,3) b(1,2)
      by (intro assembled_extend [OF old(1) run(2)]) (simp_all add: segment_ok_def holds_run_def next_sequence_def)
    moreover have "\<exists>i \<in> set (run @ [length F]). seg_seq ((F @ [f]) ! i) = q \<and> ev_data (lf_user_data ((F @ [f]) ! i)) = c"
      if seen: "bt_get (bt_put (seg_seq f) (ev_data (lf_user_data f)) (ta_seen a)) q = Some c" for q c
    proof (cases "q = seg_seq f")
      case True
      then show ?thesis using seen by (simp add: bt_get_put)
    next
      case False
      then obtain i where "i \<in> set run" "seg_seq (F ! i) = q \<and> ev_data (lf_user_data (F ! i)) = c"
        using seen holds_run_seen [OF run(1), of q c] by (auto simp: bt_get_put)
      moreover have "i < length F" using \<open>i \<in> set run\<close> assembled_bounds(4) [OF old(1)] by simp
      ultimately show ?thesis by (auto simp: nth_append)
    qed
    moreover have "hd run < length F" "run \<noteq> []" using assembled_bounds [OF old(1)] by simp_all
    ultimately show "holds_run limits (F @ [f]) (seg_key f) (a\<lparr>ta_last_sequence := seg_seq f,
        ta_seen := bt_put (seg_seq f) (ev_data (lf_user_data f)) (ta_seen a), ta_bytes := bytes,
        ta_frames := ta_frames a @ [length F]\<rparr>) (run @ [length F])"
      using run(1) a(2) b(3) l by (simp add: holds_run_def nth_append)
  qed simp
  show ?thesis unfolding transport_extend_def
  proof (rule yields_and_then [OF seg_slice_yields [OF assms(2)]])
    fix piece
    assume p: "ev_validate piece \<and> ev_trace piece = seg_body f"
    show "yields (and_then (ev_append (ta_bytes a) piece (max_application_bytes limits)) (\<lambda>bytes.
       if max_protocol_messages limits \<le> length (ta_frames a) then Err (error_limit ''dnp3_transport_frames'')
       else Ok (s\<lparr>ds_transport := bt_put (seg_key f)
         (a\<lparr>ta_last_sequence := seg_seq f, ta_seen := bt_put (seg_seq f) (ev_data (lf_user_data f)) (ta_seen a), ta_bytes := bytes,
            ta_frames := ta_frames a @ [length F]\<rparr>) (ds_transport s)\<rparr>))) (taken_ok C limits F f)"
      using p fin by (intro yields_and_then [OF ev_append_yields [OF old(2)]]) auto
  qed
qed

lemma duplicate_ok:
  assumes "transport_ok limits F (seg_key f) a" and "bt_get (ta_seen a) (seg_seq f) = Some (ev_data (lf_user_data f))"
    and "length (ta_frames a) < max_protocol_messages limits"
  shows "transport_ok limits (F @ [f]) (seg_key f) (a\<lparr>ta_frames := ta_frames a @ [length F]\<rparr>)"
proof -
  obtain run where run: "holds_run limits F (seg_key f) a run" "\<not> seg_last (F ! last run)"
    using assms(1) by (auto simp: transport_ok_def)
  then have old: "assembled F (seg_key f) (ta_frames a) run (ta_bytes a)" by (simp add: holds_run_def)
  obtain i where "i \<in> set run" "ev_data (lf_user_data (F ! i)) = ev_data (lf_user_data f)"
    using holds_run_seen [OF run(1) assms(2)] by blast
  from assembled_duplicate [OF old refl this] holds_run_grow [OF run(1), of "[f]"] assms(3)
  have "holds_run limits (F @ [f]) (seg_key f) (a\<lparr>ta_frames := ta_frames a @ [length F]\<rparr>) run"
    unfolding holds_run_def by simp
  then show ?thesis using run(2) assembled_bounds(2) [OF old] by (auto simp: transport_ok_def nth_append)
qed

lemma mid_grown: "mid_ok C limits F f s \<Longrightarrow> transports_ok limits (F @ [f]) (ds_transport s)"
  by (simp add: mid_ok_def transports_ok_grow)

lemma transport_accept_yields:
  assumes mid: "mid_ok C limits F f s" and seg: "segment_ok f" and lim: "0 < max_protocol_messages limits"
    and dir: "\<And>a. bt_get (ds_transport s) (seg_key f) = Some a \<Longrightarrow> ta_direction a = seg_direction f"
  shows "yields (transport_accept limits (length F) (seg_key f) at (seg_direction f) (lf_user_data f) (seg_first f) (seg_seq f) s)
    (\<lambda>(s', taken). if taken then taken_ok C limits F f s' else state_ok C limits s')"
proof -
  let ?T = "bt_get (ds_transport s) (seg_key f)"
  have drop: "yields (and_then (dnp3_interrupt code ps at (seg_key f) limits s) (\<lambda>s'. Ok (s', False)))
      (\<lambda>(s', taken). if taken then taken_ok C limits F f s' else state_ok C limits s')" for code ps
    by (rule yields_and_then [OF interrupt_state_yields [OF mid_state_ok [OF mid]]]) simp
  consider (dup) "is_duplicate ?T (seg_seq f) (ev_data (lf_user_data f))"
    | (conflict) "\<not> is_duplicate ?T (seg_seq f) (ev_data (lf_user_data f))" "is_conflicting ?T (seg_first f) (seg_seq f)"
    | (first) "\<not> is_duplicate ?T (seg_seq f) (ev_data (lf_user_data f))" "\<not> is_conflicting ?T (seg_first f) (seg_seq f)" "seg_first f"
    | (later) "\<not> is_duplicate ?T (seg_seq f) (ev_data (lf_user_data f))" "\<not> is_conflicting ?T (seg_first f) (seg_seq f)" "\<not> seg_first f"
    by blast
  then show ?thesis
  proof cases
    case dup
    then obtain a where a: "?T = Some a" "bt_get (ta_seen a) (seg_seq f) = Some (ev_data (lf_user_data f))"
      by (auto simp: is_duplicate_def split: option.split_asm)
    have "transport_ok limits F (seg_key f) a" using mid a(1) unfolding mid_ok_def by (blast dest: transports_okD)
    note d = duplicate_ok [OF this a(2)]
    have out: "out_ok C limits (ds_out s)" "dr_frames (ds_out s) = F @ [f]" using mid by (simp_all add: mid_ok_def)
    show ?thesis
      using dup a(1) d mid_grown [OF mid] mid
      by (auto simp: transport_accept_def Let_def yields_bind state_ok_def mid_ok_def keeps_def transports_ok_put
          intro!: yields_mono [OF issue_yields [OF out(1)]])
  next
    case conflict
    then obtain a where "?T = Some a" by (auto simp: is_conflicting_def split: option.split_asm)
    then show ?thesis using conflict drop by (simp add: transport_accept_def)
  next
    case first
    then show ?thesis
      using transport_start_yields [OF mid seg first(3) lim, of at]
      by (auto simp: transport_accept_def yields_bind elim!: yields_mono)
  next
    case later
    show ?thesis
    proof (cases ?T)
      case None
      then show ?thesis using later drop by (simp add: transport_accept_def)
    next
      case (Some a)
      show ?thesis
      proof (cases "seg_seq f = next_sequence a")
        case True
        then show ?thesis
          using later Some transport_extend_yields [OF mid seg later(3) Some dir [OF Some] True]
          by (auto simp: transport_accept_def yields_bind elim!: yields_mono)
      next
        case False
        then show ?thesis using later Some drop by (simp add: transport_accept_def)
      qed
    qed
  qed
qed

section \<open>Application assemblies\<close>

lemma app_fragment_yields:
  assumes "ev_validate bytes"
  shows "yields (app_fragment bytes src dst frames) (\<lambda>g. af_raw g = bytes \<and> af_source g = src \<and> af_destination g = dst
    \<and> af_frames g = frames \<and> ev_validate (af_objects g) \<and> ev_len (af_objects g) \<le> ev_len bytes)"
proof -
  have cut: "yields (ev_slice bytes h (ev_len bytes)) (\<lambda>e. ev_validate e \<and> ev_len e \<le> ev_len bytes)" if "h \<le> ev_len bytes" for h
    using ev_slice_yields [OF assms that order_refl]
    by (rule yields_mono) (auto simp: ev_len_trace assms sub_list_def)
  have two: "yields (and_then (and_then (range_at (ev_data bytes) 2 4) le16) (\<lambda>w. Ok (Some w))) (\<lambda>_. True)"
    if "4 \<le> length (ev_data bytes)"
    using that by (auto simp: le16_def sub_list_def drop_two [of 2 "ev_data bytes"] yields_bind)
  show ?thesis
  proof (cases "length (ev_data bytes) < 2")
    case False
    then have "0 < length (ev_data bytes)" "1 < length (ev_data bytes)" by linarith+
    then have i: "index_at (ev_data bytes) 0 = (Ok (ev_data bytes ! 0) :: u8 result)"
      "index_at (ev_data bytes) 1 = (Ok (ev_data bytes ! 1) :: u8 result)" by (simp_all only: index_at_ok)
    show ?thesis
    proof (cases "ev_data bytes ! 1 \<in> {0x81, 0x82}")
      case True
      then show ?thesis unfolding app_fragment_def Let_def i using False cut [of 4] two
        by (auto simp: ev_len_def intro!: yields_and_then [OF two] elim!: yields_mono simp: yields_bind)
    next
      case no: False
      then show ?thesis unfolding app_fragment_def Let_def i using False cut [of 2]
        by (auto simp: ev_len_def yields_bind elim!: yields_mono)
    qed
  qed (simp add: app_fragment_def)
qed

lemma fragment_objects:
  assumes "app_fragment_ok limits F g"
  shows "ev_validate (af_objects g)" "ev_len (af_objects g) \<le> max_application_bytes limits"
    "\<forall>i \<in> set (af_frames g). i < length F"
proof -
  have "ev_validate (af_raw g)" "\<forall>i \<in> set (af_frames g). i < length F"
    "app_fragment (af_raw g) (af_source g) (af_destination g) (af_frames g) = Ok g" "ev_len (af_raw g) \<le> max_application_bytes limits"
    using assms by (auto simp: app_fragment_ok_def assembled_def)
  then show "ev_validate (af_objects g)" "ev_len (af_objects g) \<le> max_application_bytes limits" "\<forall>i \<in> set (af_frames g). i < length F"
    using app_fragment_yields [of "af_raw g" "af_source g" "af_destination g" "af_frames g"] by simp_all
qed

lemma frame_packets_ok:
  assumes "\<forall>i \<in> set ids. i < length F"
  shows "frame_packets F ids = Ok (concat (map (\<lambda>i. ev_packets (lf_raw (F ! i))) ids))"
proof -
  have "for_each (\<lambda>packets i. and_then (index_at F i) (\<lambda>f. Ok (packets @ ev_packets (lf_raw f)))) acc ids
      = (Ok (acc @ concat (map (\<lambda>i. ev_packets (lf_raw (F ! i))) ids)) :: packet_id list result)" for acc
    using assms by (induction ids arbitrary: acc) simp_all
  then show ?thesis by (simp add: frame_packets_def)
qed

lemma fragment_run_snoc:
  assumes "fragment_run key fn gs" and "\<not> af_final (last gs)" and "fragment_key g = key" and "af_function g = fn"
    and "\<not> af_first g" and "af_sequence g = (af_sequence (last gs) + 1) AND 15"
  shows "fragment_run key fn (gs @ [g])"
proof -
  have "gs \<noteq> []" using assms(1) by (simp add: fragment_run_def)
  then have "set gs = insert (last gs) (set (butlast gs))" by (metis Un_insert_right append_butlast_last_id list.set(1,2) set_append sup_bot.right_neutral)
  then show ?thesis using assms \<open>gs \<noteq> []\<close> unfolding fragment_run_def
    by (auto simp: successively_append_iff)
qed

definition new_assembly :: "bool \<Rightarrow> application_fragment \<Rightarrow> nat \<Rightarrow> packet_id list \<Rightarrow> app_assembly" where
  "new_assembly direction g j packets =
     \<lparr>aa_direction = direction, aa_source = af_source g, aa_destination = af_destination g,
      aa_function = af_function g, aa_first_sequence = af_sequence g,
      aa_last_sequence = af_sequence g, aa_class = af_class g, aa_fragments = [j],
      aa_objects = af_objects g, aa_packets = packets\<rparr>"

lemma new_assembly_ok:
  assumes "app_fragment_ok limits F g" and "af_first g" and "set packets = fragment_packets F g"
  shows "app_ok limits F (G @ [g]) (fragment_key g) (new_assembly d g (length G) packets)"
  using assms(2,3) fragment_objects [OF assms(1)]
  by (simp add: app_ok_def message_ok_def fragment_run_def fragment_key_def new_assembly_def message_of_def sort_dedup_strict)

lemma extended_assembly_ok:
  assumes pend: "app_pending limits F G (fragment_key g) a" and "\<not> af_first g"
    and "set packets = fragment_packets F g"
    and s: "af_sequence g = (aa_last_sequence a + 1) AND 15" "af_function g = aa_function a"
    and "ev_validate objects" "ev_trace objects = ev_trace (aa_objects a) @ ev_trace (af_objects g)"
      "ev_len objects \<le> max_application_bytes limits"
  shows "app_ok limits F (G @ [g]) (fragment_key g) (a\<lparr>aa_last_sequence := af_sequence g,
    aa_fragments := aa_fragments a @ [length G], aa_packets := aa_packets a @ packets, aa_objects := objects\<rparr>)"
proof -
  have old: "message_ok limits F G (message_of a False)" "fragment_key g = (aa_source a, aa_destination a, aa_class a)"
    "aa_last_sequence a = af_sequence (G ! last (aa_fragments a))" "\<not> af_final (G ! last (aa_fragments a))"
    using pend app_pending_message [OF pend] by (simp_all add: app_pending_def app_ok_def)
  then have j: "\<forall>j \<in> set (aa_fragments a). j < length G" "aa_fragments a \<noteq> []"
    by (auto simp: message_ok_def fragment_run_def message_of_def)
  then have h: "hd (aa_fragments a) < length G" by simp
  have m: "map (nth (G @ [g])) (aa_fragments a @ [length G]) = map (nth G) (aa_fragments a) @ [g]"
    "map (\<lambda>j. ev_trace (af_objects ((G @ [g]) ! j))) (aa_fragments a) = map (\<lambda>j. ev_trace (af_objects (G ! j))) (aa_fragments a)"
    "(\<Union>j \<in> set (aa_fragments a). fragment_packets F ((G @ [g]) ! j)) = (\<Union>j \<in> set (aa_fragments a). fragment_packets F (G ! j))"
    using j(1) by (simp_all add: nth_append)
  have "fragment_run (fragment_key g) (aa_function a) (map (nth G) (aa_fragments a) @ [g])"
    using old s assms(2) j(2) by (intro fragment_run_snoc) (simp_all add: message_ok_def message_of_def last_map)
  then have run: "fragment_run (aa_source a, aa_destination a, aa_class a) (aa_function a)
      (map (nth (G @ [g])) (aa_fragments a @ [length G]))" by (simp only: m(1) old(2))
  have "sorted_wrt (<) (aa_fragments a @ [length G])"
    using old(1) j(1) by (simp add: message_ok_def message_of_def sorted_wrt_append)
  moreover have "ev_trace objects = concat (map (\<lambda>j. ev_trace (af_objects ((G @ [g]) ! j))) (aa_fragments a @ [length G]))"
    using assms(7) old(1) by (simp add: message_ok_def message_of_def m(2))
  moreover have "set (aa_packets a @ packets) = (\<Union>j \<in> set (aa_fragments a @ [length G]). fragment_packets F ((G @ [g]) ! j))"
    using assms(3) old(1) m(3) by (auto simp: message_ok_def message_of_def)
  moreover have "aa_first_sequence a = af_sequence ((G @ [g]) ! hd (aa_fragments a))"
    using old(1) h by (simp add: message_ok_def message_of_def nth_append)
  ultimately show ?thesis using run old(2) j assms(6,8) unfolding app_ok_def message_ok_def message_of_def
    by (simp add: sort_dedup_strict del: map_append concat_append set_append) auto
qed

text \<open>The applications after a fragment has joined: only the assembly of its key may end with it.\<close>

definition joined_ok :: "limits \<Rightarrow> link_frame list \<Rightarrow> application_fragment list \<Rightarrow> application_fragment \<Rightarrow> app_map \<Rightarrow> bool" where
  "joined_ok limits F G g A \<longleftrightarrow> bt_ordered A \<and> (\<forall>k a. bt_get A k = Some a \<longrightarrow> app_ok limits F (G @ [g]) k a
     \<and> (if k = fragment_key g then last (aa_fragments a) = length G else \<not> af_final ((G @ [g]) ! last (aa_fragments a))))"

lemma joined_put:
  assumes "apps_ok limits F G A" and "app_ok limits F (G @ [g]) (fragment_key g) a" and "last (aa_fragments a) = length G"
  shows "joined_ok limits F G g (bt_put (fragment_key g) a A)"
proof -
  have "app_ok limits F (G @ [g]) k b \<and> \<not> af_final ((G @ [g]) ! last (aa_fragments b))" if "bt_get A k = Some b" for k b
    using apps_okD [OF assms(1) that] app_ok_grow_fragments [of limits F G k b "[g]"] by (simp add: app_pending_def)
  then show ?thesis using assms unfolding joined_ok_def by (simp add: bt_ordered_put bt_get_put apps_ok_def)
qed

lemma joined_absent:
  assumes "apps_ok limits F G A" and "bt_get A (fragment_key g) = None"
  shows "joined_ok limits F G g A"
proof -
  have "app_ok limits F (G @ [g]) k b \<and> \<not> af_final ((G @ [g]) ! last (aa_fragments b))" if "bt_get A k = Some b" for k b
    using apps_okD [OF assms(1) that] app_ok_grow_fragments [of limits F G k b "[g]"] by (simp add: app_pending_def)
  then show ?thesis using assms unfolding joined_ok_def by (auto simp: apps_ok_def)
qed

lemma application_join_yields:
  assumes out: "out_ok C limits out" and apps: "apps_ok limits (dr_frames out) (dr_fragments out) A"
    and g: "app_fragment_ok limits (dr_frames out) g" "set packets = fragment_packets (dr_frames out) g"
  shows "yields (application_join limits at d g (length (dr_fragments out)) packets (fragment_key g) out A)
    (\<lambda>(out', A', old). out_ok C limits out' \<and> keeps out out' \<and> joined_ok limits (dr_frames out) (dr_fragments out) g A'
      \<and> (\<forall>a. old = Some a \<longrightarrow> app_pending limits (dr_frames out) (dr_fragments out) (fragment_key g) a))"
    (is "yields _ ?Q")
proof (cases "af_first g")
  case True
  have put: "joined_ok limits (dr_frames out) (dr_fragments out) g
      (bt_put (fragment_key g) (new_assembly d g (length (dr_fragments out)) packets) A)"
    using new_assembly_ok [OF g(1) True g(2)] by (intro joined_put [OF apps]) (simp_all add: new_assembly_def)
  have "yields (case bt_get A (fragment_key g) of Some old \<Rightarrow> emit_app out old False limits | None \<Rightarrow> Ok out)
      (\<lambda>out'. out_ok C limits out' \<and> keeps out out')"
    using out emit_pending_yields [OF out apps_okD [OF apps, of "fragment_key g"]] by (simp split: option.split)
  then show ?thesis using True put unfolding application_join_def new_assembly_def
    by (auto simp: yields_bind elim!: yields_mono)
next
  case nf: False
  show ?thesis
  proof (cases "bt_get A (fragment_key g)")
    case None
    then show ?thesis using nf joined_absent [OF apps None] unfolding application_join_def
      by (auto simp: yields_bind intro!: yields_mono [OF issue_yields [OF out]])
  next
    case (Some a)
    note pend = apps_okD [OF apps Some]
    show ?thesis
    proof (cases "af_sequence g = (aa_last_sequence a + 1) AND 15 \<and> af_function g = aa_function a")
      case True
      have valid: "ev_validate (aa_objects a)" "ev_validate (af_objects g)"
        using app_pending_message [OF pend] fragment_objects(1) [OF g(1)] by (simp_all add: message_ok_def message_of_def)
      have "joined_ok limits (dr_frames out) (dr_fragments out) g (bt_put (fragment_key g)
          (a\<lparr>aa_last_sequence := af_sequence g, aa_fragments := aa_fragments a @ [length (dr_fragments out)],
             aa_packets := aa_packets a @ packets, aa_objects := objects\<rparr>) A)"
        if "ev_validate objects \<and> ev_trace objects = ev_trace (aa_objects a) @ ev_trace (af_objects g)
          \<and> ev_len objects \<le> max_application_bytes limits" for objects
        using that True nf extended_assembly_ok [OF pend _ g(2)] by (intro joined_put [OF apps]) auto
      then show ?thesis using nf Some True out unfolding application_join_def
        by (auto simp: yields_bind intro!: yields_mono [OF ev_append_yields [OF valid]])
    next
      case False
      have "bt_get (bt_del (fragment_key g) A) (fragment_key g) = None" using apps by (simp add: apps_ok_def bt_get_del)
      note del = joined_absent [OF apps_ok_del [OF apps] this]
      show ?thesis using nf Some False del pend unfolding application_join_def
        by (auto simp: yields_bind intro!: yields_mono [OF issue_yields [OF out]])
    qed
  qed
qed

lemma out_ok_fragment:
  assumes "out_ok C limits out" and "app_fragment_ok limits (dr_frames out) g" and "length (dr_fragments out) < max_protocol_messages limits"
  shows "out_ok C limits (out\<lparr>dr_fragments := dr_fragments out @ [g]\<rparr>)"
  using assms by (auto simp: out_ok_def within_limits_def message_ok_grow_fragments)

lemma joined_key:
  "joined_ok limits F G g A \<Longrightarrow> bt_get A (fragment_key g) = Some a
    \<Longrightarrow> app_ok limits F (G @ [g]) (fragment_key g) a \<and> last (aa_fragments a) = length G"
  unfolding joined_ok_def by metis

lemma joined_pending:
  assumes "joined_ok limits F G g A" and "\<not> af_final g \<or> bt_get A (fragment_key g) = None"
  shows "apps_ok limits F (G @ [g]) A"
  using assms unfolding joined_ok_def apps_ok_def app_pending_def
  by (metis nth_append_length option.distinct(1))

lemma joined_del:
  assumes "joined_ok limits F G g A"
  shows "apps_ok limits F (G @ [g]) (bt_del (fragment_key g) A)"
proof (rule joined_pending)
  show "joined_ok limits F G g (bt_del (fragment_key g) A)"
    using assms unfolding joined_ok_def by (simp add: bt_ordered_del bt_get_del)
  show "\<not> af_final g \<or> bt_get (bt_del (fragment_key g) A) (fragment_key g) = None"
    using assms by (simp add: joined_ok_def bt_get_del)
qed

lemma application_yields:
  assumes st: "state_ok C limits s" and g: "app_fragment_ok limits (dr_frames (ds_out s)) g"
  shows "yields (dnp3_application limits at d g s) (state_ok C limits)"
proof -
  let ?out = "ds_out s" and ?n = "length (dr_fragments (ds_out s))"
  define packets where "packets = sort_dedup (concat (map (\<lambda>i. ev_packets (lf_raw (dr_frames ?out ! i))) (af_frames g)))"
  have frames: "frame_packets (dr_frames ?out) (af_frames g) = Ok (concat (map (\<lambda>i. ev_packets (lf_raw (dr_frames ?out ! i))) (af_frames g)))"
    by (rule frame_packets_ok [OF fragment_objects(3) [OF g]])
  have pk: "set packets = fragment_packets (dr_frames ?out) g" by (simp add: packets_def fragment_packets_def)
  have out: "out_ok C limits ?out" and apps: "apps_ok limits (dr_frames ?out) (dr_fragments ?out) (ds_apps s)"
    and tr: "transports_ok limits (dr_frames ?out) (ds_transport s)"
    using st by (simp_all add: state_ok_def)
  have final: "yields (case (if af_final g then bt_get A (fragment_key g) else None) of
        Some done \<Rightarrow> and_then (emit_app (o3\<lparr>dr_fragments := dr_fragments o3 @ [g]\<rparr>) done True limits)
          (\<lambda>out5. Ok (s\<lparr>ds_out := out5, ds_apps := bt_del (fragment_key g) A\<rparr>))
      | None \<Rightarrow> Ok (s\<lparr>ds_out := o3\<lparr>dr_fragments := dr_fragments o3 @ [g]\<rparr>, ds_apps := A\<rparr>)) (state_ok C limits)"
    if o3: "out_ok C limits o3" "keeps ?out o3" and A: "joined_ok limits (dr_frames ?out) (dr_fragments ?out) g A"
      and n: "?n < max_protocol_messages limits" for o3 A
  proof -
    let ?o4 = "o3\<lparr>dr_fragments := dr_fragments o3 @ [g]\<rparr>"
    have k: "dr_frames o3 = dr_frames ?out" "dr_fragments o3 = dr_fragments ?out" using o3(2) by (simp_all add: keeps_def)
    have o4: "out_ok C limits ?o4" using g n by (intro out_ok_fragment [OF o3(1)]) (simp_all add: k)
    show ?thesis
    proof (cases "if af_final g then bt_get A (fragment_key g) else None")
      case None
      then have "\<not> af_final g \<or> bt_get A (fragment_key g) = None" by (auto split: if_split_asm)
      from joined_pending [OF A this] None o4 tr k show ?thesis by (simp add: state_ok_def)
    next
      case (Some a)
      then have a: "af_final g" "bt_get A (fragment_key g) = Some a" by (auto split: if_split_asm)
      with A have "app_ok limits (dr_frames ?out) (dr_fragments ?out @ [g]) (fragment_key g) a" "last (aa_fragments a) = ?n"
        using joined_key by blast+
      then have "message_ok limits (dr_frames ?o4) (dr_fragments ?o4) (message_of a True)" using a(1) k by (simp add: app_ok_def)
      from emit_yields [OF o4 this] joined_del [OF A] Some tr k show ?thesis
        by (auto simp: yields_bind state_ok_def keeps_def elim!: yields_mono)
    qed
  qed
  show ?thesis
  proof (cases "max_protocol_messages limits \<le> ?n")
    case False
    have unknown: "yields (if af_class g = McUnknown
        then dnp3_issue ?out ''unsupported_or_inconsistent_dnp3_application_function'' packets at limits else Ok ?out)
        (\<lambda>o1. out_ok C limits o1 \<and> keeps ?out o1)"
      using out issue_yields [OF out] by simp
    have rest: "yields (and_then (application_join limits at d g ?n packets (fragment_key g) o1 (ds_apps s)) (\<lambda>(o2, A, old).
          and_then (case old of Some a \<Rightarrow> emit_app o2 a False limits | None \<Rightarrow> Ok o2) (\<lambda>o3.
          case (if af_final g then bt_get A (fragment_key g) else None) of
              Some done \<Rightarrow> and_then (emit_app (o3\<lparr>dr_fragments := dr_fragments o3 @ [g]\<rparr>) done True limits)
                (\<lambda>out5. Ok (s\<lparr>ds_out := out5, ds_apps := bt_del (fragment_key g) A\<rparr>))
            | None \<Rightarrow> Ok (s\<lparr>ds_out := o3\<lparr>dr_fragments := dr_fragments o3 @ [g]\<rparr>, ds_apps := A\<rparr>)))) (state_ok C limits)"
      if o1: "out_ok C limits o1 \<and> keeps ?out o1" for o1
    proof -
      have k: "dr_frames o1 = dr_frames ?out" "dr_fragments o1 = dr_fragments ?out" using o1 by (simp_all add: keeps_def)
      note join = application_join_yields [of C limits o1 "ds_apps s" g packets at d, unfolded k]
      show ?thesis
      proof (rule yields_and_then [OF join], goal_cases)
        case (5 r)
        obtain o2 A old where r: "r = (o2, A, old)" by (cases r)
        with 5 have r2: "out_ok C limits o2" "keeps ?out o2" "joined_ok limits (dr_frames ?out) (dr_fragments ?out) g A"
          "\<And>a. old = Some a \<Longrightarrow> app_pending limits (dr_frames o2) (dr_fragments o2) (fragment_key g) a"
          using o1 by (auto simp: keeps_def)
        have "yields (case old of Some a \<Rightarrow> emit_app o2 a False limits | None \<Rightarrow> Ok o2) (\<lambda>o3. out_ok C limits o3 \<and> keeps ?out o3)"
        proof (cases old)
          case (Some a)
          from emit_pending_yields [OF r2(1) r2(4) [OF Some]] r2(2) Some show ?thesis
            by (auto elim!: yields_mono intro: keeps_trans)
        qed (use r2 in simp)
        then show ?case unfolding r using final [OF _ _ r2(3)] False by (auto intro: yields_and_then)
      qed (use o1 apps g pk k in simp_all)
    qed
    show ?thesis unfolding dnp3_application_def Let_def frames and_then.simps packets_def [symmetric] fragment_key_def [symmetric]
      using False rest by (simp add: yields_and_then [OF unknown])
  qed (simp add: dnp3_application_def)
qed

section \<open>One frame\<close>

lemma complete_yields:
  assumes t: "taken_ok C limits F f s" and "seg_last f"
  shows "yields (dnp3_complete limits (seg_key f) at d s) (state_ok C limits)"
proof -
  obtain a run where a: "bt_get (ds_transport s) (seg_key f) = Some a" and h: "holds_run limits (F @ [f]) (seg_key f) a run"
    and l: "last run = length F" using t by (auto simp: taken_ok_def)
  have asm: "assembled (F @ [f]) (seg_key f) (ta_frames a) run (ta_bytes a)" "ev_validate (ta_bytes a)"
    using h by (simp_all add: holds_run_def assembled_def)
  let ?s = "s\<lparr>ds_transport := bt_del (seg_key f) (ds_transport s)\<rparr>"
  have s: "state_ok C limits ?s" "dr_frames (ds_out s) = F @ [f]" using t by (simp_all add: taken_ok_def state_ok_def)
  have "yields (dnp3_interrupt code packets at (seg_key f) limits s) (state_ok C limits)" for code packets
    using t by (intro yields_mono [OF interrupt_yields]) (auto simp: taken_ok_def state_ok_def keeps_def)
  moreover have "yields (dnp3_application limits at d g ?s) (state_ok C limits)"
    if g: "app_fragment (ta_bytes a) (fst (seg_key f)) (snd (seg_key f)) (ta_frames a) = Ok g" for g
  proof (rule application_yields [OF s(1)])
    have "af_raw g = ta_bytes a" "af_source g = fst (seg_key f)" "af_destination g = snd (seg_key f)" "af_frames g = ta_frames a"
      using app_fragment_yields [OF asm(2), of "fst (seg_key f)" "snd (seg_key f)" "ta_frames a"] g by simp_all
    then show "app_fragment_ok limits (dr_frames (ds_out ?s)) g"
      using g asm(1) h l assms(2) s(2) by (auto simp: app_fragment_ok_def holds_run_def intro!: exI [of _ run])
  qed
  moreover have "app_fragment (ta_bytes a) (fst (seg_key f)) (snd (seg_key f)) (ta_frames a) \<noteq> Panic"
    using app_fragment_yields [OF asm(2)] by (auto simp: yields_iff)
  ultimately show ?thesis unfolding dnp3_complete_def by (auto simp: a split: outcome.split)
qed

lemma taken_not_last:
  assumes t: "taken_ok C limits F f s" and "\<not> seg_last f"
  shows "state_ok C limits s"
proof -
  obtain a run where a: "bt_get (ds_transport s) (seg_key f) = Some a" and h: "holds_run limits (F @ [f]) (seg_key f) a run"
    and l: "last run = length F" using t by (auto simp: taken_ok_def)
  have ord: "bt_ordered (ds_transport s)" using t by (simp add: taken_ok_def)
  have new: "transport_ok limits (F @ [f]) (seg_key f) a" using h l assms(2) by (auto simp: transport_ok_def)
  have "transport_ok limits (F @ [f]) k b" if "bt_get (ds_transport s) k = Some b" for k b
  proof (cases "k = seg_key f")
    case True
    then show ?thesis using a new that by simp
  next
    case False
    then have "bt_get (bt_del (seg_key f) (ds_transport s)) k = Some b" using that ord by (simp add: bt_get_del)
    then show ?thesis using t transports_okD unfolding taken_ok_def by blast
  qed
  then have "transports_ok limits (F @ [f]) (ds_transport s)" using ord unfolding transports_ok_def by blast
  then show ?thesis using t by (simp add: state_ok_def taken_ok_def)
qed

lemma segment_yields:
  assumes mid: "mid_ok C limits F f s" and seg: "segment_ok f" and lim: "0 < max_protocol_messages limits"
  shows "yields (dnp3_segment limits (length F) (seg_key f) at (lf_user_data f) s) (state_ok C limits)"
proof -
  have fr: "index_at (dr_frames (ds_out s)) (length F) = (Ok f :: link_frame result)" using mid by (simp add: mid_ok_def)
  have hd: "index_at (ev_data (lf_user_data f)) 0 = (Ok (seg_head f) :: u8 result)" using seg by (simp add: segment_ok_def seg_head_def)
  have turn: "yields (if direction_changed s (seg_key f) (seg_direction f)
        then dnp3_interrupt ''dnp3_link_direction_changed_within_assembly'' (ev_packets (lf_user_data f)) at (seg_key f) limits s
        else Ok s)
      (\<lambda>s1. mid_ok C limits F f s1 \<and> (\<forall>a. bt_get (ds_transport s1) (seg_key f) = Some a \<longrightarrow> ta_direction a = seg_direction f))"
  proof (cases "direction_changed s (seg_key f) (seg_direction f)")
    case True
    have "bt_get (bt_del (seg_key f) (ds_transport s)) (seg_key f) = None"
      using mid by (simp add: mid_ok_def transports_ok_def bt_get_del)
    with True show ?thesis by (auto intro!: yields_mono [OF interrupt_mid_yields [OF mid]])
  next
    case False
    then show ?thesis using mid by (auto simp: direction_changed_def split: option.split_asm)
  qed
  show ?thesis unfolding dnp3_segment_def fr and_then.simps Let_def seg_direction_def [symmetric]
  proof (rule yields_and_then [OF turn])
    fix s1
    assume s1: "mid_ok C limits F f s1 \<and> (\<forall>a. bt_get (ds_transport s1) (seg_key f) = Some a \<longrightarrow> ta_direction a = seg_direction f)"
    have "yields (transport_accept limits (length F) (seg_key f) at (seg_direction f) (lf_user_data f) (seg_first f) (seg_seq f) s1)
        (\<lambda>(s', taken). if taken then taken_ok C limits F f s' else state_ok C limits s')"
      using s1 by (intro transport_accept_yields [OF _ seg lim]) auto
    then show "yields (and_then (index_at (ev_data (lf_user_data f)) 0) (\<lambda>header.
        and_then (transport_accept limits (length F) (seg_key f) at (seg_direction f) (lf_user_data f) (header AND 0x40 \<noteq> 0) (header AND 63) s1)
          (\<lambda>(s2, taken). if taken \<and> header AND 0x80 \<noteq> 0 then dnp3_complete limits (seg_key f) at (seg_direction f) s2 else Ok s2)))
        (state_ok C limits)"
      unfolding hd and_then.simps seg_first_def [symmetric] seg_seq_def [symmetric] seg_last_def [symmetric]
      by (rule yields_and_then) (auto intro: complete_yields taken_not_last split: if_split_asm)
  qed
qed

lemma note_yields:
  "out_ok C limits out \<Longrightarrow> yields (note_if c code packets at limits out) (\<lambda>out'. out_ok C limits out' \<and> keeps out out')"
  using issue_yields by (auto simp: note_if_def)

lemma frame_ok_segment: "frame_ok C f \<Longrightarrow> ev_data (lf_user_data f) \<noteq> [] \<Longrightarrow> segment_ok f"
  by (auto simp: frame_ok_def segment_ok_def link_ok_def Let_def)

lemma out_ok_frame:
  assumes "out_ok C limits out" and "frame_ok C f" and "length (dr_frames out) < max_protocol_messages limits"
  shows "out_ok C limits (out\<lparr>dr_frames := dr_frames out @ [f]\<rparr>)"
  using assms by (auto simp: out_ok_def within_limits_def message_ok_grow_frames app_fragment_ok_grow)

lemma frame_yields:
  assumes st: "state_ok C limits s" and f: "frame_ok C f"
  shows "yields (dnp3_frame limits f s) (state_ok C limits)"
proof (cases "max_protocol_messages limits \<le> length (dr_frames (ds_out s))")
  case False
  let ?out = "ds_out s"
  have out: "out_ok C limits ?out" using st by (simp add: state_ok_def)
  have body: "yields (case link_issue (lf_control f) (lf_source f) (lf_destination f) (ev_len (lf_user_data f)) of
        Some (_, code) \<Rightarrow> dnp3_interrupt code (ev_packets (lf_raw f)) (lf_stream_offset f) (seg_key f) limits s'
      | None \<Rightarrow> if ev_is_empty (lf_user_data f) then Ok s'
          else if \<not> (lc_primary (lf_link_control f) \<and> lc_function (lf_link_control f) \<in> {3, 4})
          then dnp3_interrupt ''unsupported_dnp3_link_function_with_data'' (ev_packets (lf_user_data f)) (lf_stream_offset f) (seg_key f) limits s'
          else dnp3_segment limits (length (dr_frames ?out)) (seg_key f) (lf_stream_offset f) (lf_user_data f) s') (state_ok C limits)"
    if s': "mid_ok C limits (dr_frames ?out) f s'" for s'
  proof -
    have drop: "yields (dnp3_interrupt code packets at key limits s') (state_ok C limits)" for code packets at key
      by (rule yields_mono [OF interrupt_state_yields [OF mid_state_ok [OF s']]]) simp
    have "yields (dnp3_segment limits (length (dr_frames ?out)) (seg_key f) (lf_stream_offset f) (lf_user_data f) s') (state_ok C limits)"
      if "\<not> ev_is_empty (lf_user_data f)"
      using that False by (intro segment_yields [OF s' frame_ok_segment [OF f]]) (auto simp: ev_is_empty_def)
    then show ?thesis using drop mid_state_ok [OF s'] by (auto split: option.split)
  qed
  have push: "mid_ok C limits (dr_frames ?out) f (s\<lparr>ds_out := o2\<lparr>dr_frames := dr_frames o2 @ [f]\<rparr>\<rparr>)"
    if "out_ok C limits o2 \<and> keeps ?out o2" for o2
    using that st False out_ok_frame [OF _ f, of limits o2]
    by (auto simp: mid_ok_def state_ok_def keeps_def out_ok_def intro: apps_ok_grow)
  have second: "yields (note_if c code packets at limits o1) (\<lambda>o2. out_ok C limits o2 \<and> keeps ?out o2)"
    if "out_ok C limits o1 \<and> keeps ?out o1" for o1 c code packets at
    using that by (intro yields_mono [OF note_yields]) (auto intro: keeps_trans)
  show ?thesis unfolding dnp3_frame_def Let_def seg_key_def [symmetric]
    using False body push by (auto intro!: yields_and_then [OF note_yields [OF out]] yields_and_then [OF second])
qed (simp add: dnp3_frame_def)

end
