(* ===== verification/Dnp3_Runs.thy ===== *)
theory Dnp3_Runs
  imports Dnp3_Correct
begin

text \<open>
  The walk of the DNP3 decoder over the chunks of a stream: rejected frames and skipped bytes, the
  loop, and the properties of a decoded stream that follow from the invariant.
\<close>

section \<open>Rejected frames and skipped bytes\<close>

lemma declared_length_yields: "yields (declared_length tail) (\<lambda>d. \<forall>n. d = Some n \<longrightarrow> 10 \<le> n)"
proof (cases "length tail < 10")
  case False
  then have "2 < length tail" by linarith
  moreover have "range_at tail 0 8 = (Ok (take 8 tail) :: bytes result)" "range_at tail 8 10 = (Ok (sub_list tail 8 10) :: bytes result)"
    using False by simp_all
  moreover obtain w where "le16 (sub_list tail 8 10) = (Ok w :: u16 result)"
    using False drop_two [of 8 tail] by (simp add: le16_def sub_list_def numeral_2_eq_2)
  ultimately show ?thesis
    using False by (auto simp: declared_length_def dnp3_total_def)
qed (simp add: declared_length_def)

text \<open>The chunk the walk is in, and a position in it.\<close>

definition walk_chunk :: "stream_chunk list \<Rightarrow> stream_chunk \<Rightarrow> bool" where
  "walk_chunk C chunk \<longleftrightarrow> chunk \<in> set C \<and> ev_validate (ch_bytes chunk) \<and> ev_len (ch_bytes chunk) < 2 ^ 63
     \<and> in_i64 (ch_offset chunk) \<and> in_i64 (ch_offset chunk + int (ev_len (ch_bytes chunk)))"

lemma walk_offset_ok: "walk_chunk C chunk \<Longrightarrow> p \<le> ev_len (ch_bytes chunk) \<Longrightarrow> in_i64 (ch_offset chunk + int p)"
  by (auto simp: walk_chunk_def in_i64_def)

lemma state_ok_out:
  "state_ok C limits s \<Longrightarrow> out_ok C limits out \<Longrightarrow> keeps (ds_out s) out \<Longrightarrow> state_ok C limits (s\<lparr>ds_out := out\<rparr>)"
  by (simp add: state_ok_def keeps_def)

lemma issue_state_yields:
  assumes "state_ok C limits s"
  shows "yields (dnp3_issue (ds_out s) code packets at limits) (\<lambda>out. state_ok C limits (s\<lparr>ds_out := out\<rparr>))"
  using assms issue_yields [of C limits "ds_out s"]
  by (intro yields_mono [OF issue_yields]) (auto simp: state_ok_def keeps_def)

lemma report_skipped_yields:
  assumes "state_ok C limits s" "walk_chunk C chunk" "skipped \<le> p" "p \<le> ev_len (ch_bytes chunk)"
  shows "yields (report_skipped code chunk p skipped limits s) (state_ok C limits)"
proof -
  have "in_i64 (ch_offset chunk + int (p - skipped))" using assms by (intro walk_offset_ok) auto
  then show ?thesis
    using assms unfolding report_skipped_def
    by (auto simp: walk_chunk_def yields_bind intro!: yields_mono [OF ev_slice_yields] yields_mono [OF issue_state_yields])
qed

lemma resync_yields:
  assumes "state_ok C limits s" "walk_chunk C chunk" "skipped \<le> p" "p \<le> ev_len (ch_bytes chunk)"
  shows "yields (dnp3_resync limits chunk p skipped s) (state_ok C limits)"
  using assms walk_offset_ok [OF assms(2,4)] unfolding dnp3_resync_def
  by (auto intro!: yields_and_then [OF flush_yields] report_skipped_yields)

lemma reject_yields:
  assumes st: "state_ok C limits s" and ch: "walk_chunk C chunk" and p: "p < ev_len (ch_bytes chunk)"
  shows "yields (dnp3_reject limits chunk p e rejected s)
    (\<lambda>(s', r, q). state_ok C limits s' \<and> (\<forall>q'. q = Some q' \<longrightarrow> q' \<le> ev_len (ch_bytes chunk)))"
proof -
  let ?bytes = "ch_bytes chunk" and ?tail = "drop p (ev_data (ch_bytes chunk))"
  have v: "ev_validate ?bytes" "chunk \<in> set C" using ch by (simp_all add: walk_chunk_def)
  have at: "i64_add (ch_offset chunk) (int p) = (Ok (ch_offset chunk + int p) :: int result)"
    using walk_offset_ok [OF ch, of p] p by simp
  have tail: "range_from (ev_data ?bytes) p = (Ok ?tail :: bytes result)" "length ?tail = ev_len ?bytes - p" "0 < ev_len ?bytes - p"
    using p by (simp_all add: ev_len_def)
  have cut: "yields (ev_slice ?bytes p b) (\<lambda>e. ev_validate e \<and> ev_trace e = sub_list (ev_trace ?bytes) p b)"
    if "p \<le> b" "b \<le> ev_len ?bytes" for b
    using ev_slice_yields [OF v(1) that] .
  have add: "state_ok C limits (s1\<lparr>ds_out := o1\<lparr>dr_rejected := dr_rejected o1 @ [r]\<rparr>\<rparr>)"
    if "state_ok C limits (s1\<lparr>ds_out := o1\<rparr>)" "range_ok C r" "length (dr_rejected o1) < max_protocol_messages limits" for s1 o1 r
    using that by (auto simp: state_ok_def out_ok_def within_limits_def)
  show ?thesis unfolding dnp3_reject_def Let_def at tail(1) and_then.simps
  proof (rule yields_and_then [OF flush_yields [OF st]], rule yields_and_then [OF cut], goal_cases)
    case (3 s1 head)
    then have s1: "state_ok C limits s1" by simp
    show ?case
    proof (rule yields_and_then [OF issue_state_yields [OF s1]], rule yields_and_then [OF declared_length_yields], goal_cases)
      case (1 o1 d)
      define n where "n = min (or_else d (length ?tail)) (length ?tail)"
      have n: "0 < n" "p + n \<le> ev_len ?bytes" "\<And>k. d = Some k \<Longrightarrow> n = min k (length ?tail)" "d = None \<Longrightarrow> n = length ?tail"
        using tail(2,3) 1(2) by (auto simp: n_def or_else_def ev_len_def split: option.split)
      have range: "range_ok C \<lparr>rl_stream_offset = ch_offset chunk + int p, rl_declared_length = d, rl_code = err_field e,
          rl_incomplete = (err_code e = Truncated), rl_raw = raw\<rparr>"
        if "ev_validate raw \<and> ev_trace raw = sub_list (ev_trace ?bytes) p (p + n)" for raw
        using that n v(2) tail(2) p unfolding range_ok_def by (intro bexI [of _ chunk] exI [of _ p] exI [of _ n]) auto
      show ?case
      proof (cases "max_protocol_messages limits \<le> length (dr_rejected o1)")
        case False
        have noted: "yields (dnp3_issue (o1\<lparr>dr_rejected := dr_rejected o1 @ [r]\<rparr>) code packets at limits)
            (\<lambda>out. state_ok C limits (s1\<lparr>ds_out := out\<rparr>))" if "range_ok C r" for r code packets at
          using issue_state_yields [OF add [OF 1(1) that], of code packets at] False by simp
        show ?thesis
        proof (cases d)
          case None
          then show ?thesis unfolding n_def [symmetric] using False range noted n(1,2) tail(2) p
            by (auto simp: yields_bind intro!: yields_mono [OF cut] yields_mono [OF noted])
        next
          case (Some k)
          then show ?thesis unfolding n_def [symmetric] using False range noted n(1,2) n(3) [OF Some] tail(2)
            by (auto simp: yields_bind intro!: yields_mono [OF cut] yields_mono [OF noted])
        qed
      qed (simp add: yields_bind)
    qed
  qed (use p in auto)
qed

section \<open>The loop\<close>

definition cursor_ok :: "stream_chunk list \<Rightarrow> limits \<Rightarrow> stream_chunk \<Rightarrow> dnp3_cursor \<Rightarrow> bool" where
  "cursor_ok C limits chunk c \<longleftrightarrow> state_ok C limits (cu_state c) \<and> cu_skipped c \<le> cu_p c \<and> cu_p c \<le> ev_len (ch_bytes chunk)"

lemma step_yields:
  assumes c: "cursor_ok C limits chunk c" and ch: "walk_chunk C chunk" and p: "cu_p c < ev_len (ch_bytes chunk)"
  shows "yields (dnp3_step limits chunk c) (\<lambda>(c', go). cursor_ok C limits chunk c')"
proof -
  let ?p = "cu_p c"
  have st: "state_ok C limits (cu_state c)" "cu_skipped c \<le> ?p" using c by (simp_all add: cursor_ok_def)
  consider (bad) e where "parse_link (ch_bytes chunk) ?p (ch_offset chunk) = Err e"
    | (good) f n where "parse_link (ch_bytes chunk) ?p (ch_offset chunk) = Ok (f, n)" "link_ok (ch_bytes chunk) ?p (ch_offset chunk) f n"
    using parse_link_cases [of "ch_bytes chunk" ?p "ch_offset chunk"] ch p walk_offset_ok [OF ch, of ?p]
    by (fastforce simp: walk_chunk_def ev_len_def)
  then show ?thesis
  proof cases
    case (bad e)
    show ?thesis using bad c p unfolding dnp3_step_def
      by (auto simp: cursor_ok_def yields_bind split: option.split intro!: yields_mono [OF reject_yields [OF st(1) ch p]])
  next
    case (good f n)
    have "frame_ok C f" using good(2) ch unfolding frame_ok_def walk_chunk_def by blast
    moreover have "?p + n \<le> ev_len (ch_bytes chunk)" using good(2) by (simp add: link_ok_def Let_def ev_len_def)
    ultimately show ?thesis using good(1) c p unfolding dnp3_step_def
      by (auto simp: cursor_ok_def yields_bind intro!: yields_mono [OF resync_yields [OF _ ch]] yields_mono [OF frame_yields])
  qed
qed

lemma loop_yields:
  assumes "cursor_ok C limits chunk c" and "walk_chunk C chunk"
  shows "yields (dnp3_loop limits chunk c) (cursor_ok C limits chunk)"
  using assms
proof (induction limits chunk c rule: dnp3_loop.induct)
  case (1 limits chunk c)
  show ?case
  proof (cases "cu_p c < ev_len (ch_bytes chunk)")
    case True
    have "yields (dnp3_step limits chunk c) (\<lambda>r. cursor_ok C limits chunk (fst r))"
      using step_yields [OF "1.prems" True] by (auto elim!: yields_mono)
    note step = this
    show ?thesis
    proof (cases "dnp3_step limits chunk c")
      case (Ok r)
      then have r: "cursor_ok C limits chunk (fst r)" using step by simp
      show ?thesis unfolding dnp3_loop.simps [of limits chunk c] using True Ok "1.IH" [OF True Ok _ r "1.prems"(2)] r by simp
    next
      case (Err e)
      then show ?thesis unfolding dnp3_loop.simps [of limits chunk c] using True by simp
    next
      case Panic
      then show ?thesis using step by simp
    qed
  next
    case False
    then show ?thesis using 1 by (subst dnp3_loop.simps) simp
  qed
qed

lemma chunk_yields:
  assumes "out_ok C limits (fst acc)" and "chunk \<in> set C" and "in_i64 (ch_offset chunk)"
  shows "yields (dnp3_chunk limits acc chunk) (\<lambda>acc'. out_ok C limits (fst acc'))"
proof (cases "ev_len (ch_bytes chunk) < 2 ^ 63 \<and> in_i64 (ch_offset chunk + int (ev_len (ch_bytes chunk))) \<and> ev_validate (ch_bytes chunk)")
  case True
  then have ch: "walk_chunk C chunk" using assms by (simp add: walk_chunk_def)
  have start: "cursor_ok C limits chunk \<lparr>cu_state = \<lparr>ds_out = fst acc, ds_transport = [], ds_apps = []\<rparr>, cu_p = 0, cu_skipped = 0, cu_rejected = snd acc\<rparr>"
    using assms(1) by (simp add: cursor_ok_def state_ok_def)
  have flush: "yields (dnp3_flush code at limits s) (\<lambda>s'. out_ok C limits (ds_out s'))" if "state_ok C limits s" for code at s
    using that by (intro yields_mono [OF flush_yields]) (auto simp: state_ok_def)
  have trail: "yields (if cu_skipped c > 0 then report_skipped ''trailing_unframed_dnp3_bytes'' chunk (cu_p c) (cu_skipped c) limits (cu_state c)
      else Ok (cu_state c)) (state_ok C limits)" if "cursor_ok C limits chunk c" for c
    using that by (auto simp: cursor_ok_def intro: report_skipped_yields [OF _ ch])
  have pre: "i64_of_usize (ev_len (ch_bytes chunk)) = Some (int (ev_len (ch_bytes chunk)))"
    "checked_add_i64 (ch_offset chunk) (int (ev_len (ch_bytes chunk))) = Some (ch_offset chunk + int (ev_len (ch_bytes chunk)))"
    using True by (simp_all add: i64_of_usize_def checked_add_i64_def)
  show ?thesis unfolding dnp3_chunk_def Let_def pre ok_or.simps and_then.simps using True
    by (auto intro!: yields_and_then [OF loop_yields [OF start ch]] yields_and_then [OF trail] yields_and_then [OF flush])
next
  case False
  then show ?thesis by (auto simp: dnp3_chunk_def i64_of_usize_def checked_add_i64_def yields_bind Let_def)
qed

lemma decode_yields:
  assumes "\<forall>chunk \<in> set (sr_chunks stream). in_i64 (ch_offset chunk)"
  shows "yields (dnp3_decode stream limits) (out_ok (sr_chunks stream) limits)"
proof -
  have "out_ok C limits dnp3_result_default" for C by (simp add: out_ok_def within_limits_def dnp3_result_default_def)
  then have "yields (for_each (dnp3_chunk limits) (dnp3_result_default, 0) (sr_chunks stream)) (\<lambda>acc. out_ok (sr_chunks stream) limits (fst acc))"
    using chunk_yields assms by (intro yields_for_each) auto
  then show ?thesis unfolding dnp3_decode_def
    by (cases "limits_validate limits") (auto simp: yields_bind elim!: yields_mono)
qed

section \<open>What a decoded stream reports\<close>

text \<open>A sample stream of one chunk, which holds a read request in one frame.\<close>

definition sample_dnp3_chunk :: stream_chunk where
  "sample_dnp3_chunk = \<lparr>ch_offset = 0, ch_bytes = from_packet (encode_link 0xc4 1 10 [0xc0, 0xc3, 0x01, 0x3c, 0x02, 0x06]) (PacketId [] 1 24) 54\<rparr>"

definition sample_dnp3 :: stream_result where
  "sample_dnp3 = \<lparr>sr_base = Some 1000, sr_anchored = True, sr_chunks = [sample_dnp3_chunk],
     sr_gaps = [], sr_conflicts = [], sr_duplicates = 0\<rparr>"

lemma sample_dnp3_chunk_bytes:
  "ev_validate (ch_bytes sample_dnp3_chunk)" "ev_data (ch_bytes sample_dnp3_chunk) = encode_link 0xc4 1 10 [0xc0, 0xc3, 0x01, 0x3c, 0x02, 0x06]"
  "ch_offset sample_dnp3_chunk = 0" "ev_len (ch_bytes sample_dnp3_chunk) = 18"
  by (simp_all add: sample_dnp3_chunk_def from_packet_valid length_encode_link dnp3_total_def div_ceil_def usize_limit_def ev_len_def)

lemma sample_parse:
  "\<exists>f. parse_link (ch_bytes sample_dnp3_chunk) 0 0 = Ok (f, 18) \<and> lf_control f = 0xc4 \<and> lf_source f = 1 \<and> lf_destination f = 10
    \<and> lf_link_control f = link_control_of 0xc4 \<and> ev_validate (lf_user_data f) \<and> ev_data (lf_user_data f) = [0xc0, 0xc3, 0x01, 0x3c, 0x02, 0x06]"
proof -
  have pre: "ev_validate (ch_bytes sample_dnp3_chunk)" "(0::nat) \<le> length (ev_data (ch_bytes sample_dnp3_chunk))" "(0::nat) < 2 ^ 63" "in_i64 (0 + int 0)"
    by (simp_all add: sample_dnp3_chunk_bytes in_i64_def)
  have d: "drop 0 (ev_data (ch_bytes sample_dnp3_chunk)) = encode_link 0xc4 1 10 [0xc0, 0xc3, 0x01, 0x3c, 0x02, 0x06] @ []"
    by (simp add: sample_dnp3_chunk_bytes)
  obtain f where f: "parse_link (ch_bytes sample_dnp3_chunk) 0 0 = Ok (f, 18)" "lf_control f = 0xc4" "lf_source f = 1"
    "lf_destination f = 10" "ev_data (lf_user_data f) = [0xc0, 0xc3, 0x01, 0x3c, 0x02, 0x06]"
    using parse_link_encoded [OF pre _ d] by (auto simp: dnp3_total_def div_ceil_def)
  moreover have "link_ok (ch_bytes sample_dnp3_chunk) 0 0 f 18" using parse_link_cases [OF pre] f(1) by auto
  ultimately show ?thesis by (auto simp: link_ok_def Let_def)
qed

lemma sample_magic: "get_range (ev_data (ch_bytes sample_dnp3_chunk)) 0 2 = Some [0x05, 0x64]"
  using encode_link_octets [of "[0xc0, 0xc3, 0x01, 0x3c, 0x02, 0x06]" "0xc4" 1 10]
  by (auto simp: sample_dnp3_chunk_bytes get_range_def)

lemma ev_data_of_trace: "ev_validate e \<Longrightarrow> ev_trace e = xs \<Longrightarrow> ev_data e = map fst xs"
  using trace_data [of e] by simp

lemma sample_frame_accepted:
  assumes "lf_control f = 0xc4" "lf_source f = 1" "lf_destination f = 10" "lf_link_control f = link_control_of 0xc4"
    "ev_validate (lf_user_data f)" "ev_data (lf_user_data f) = [0xc0, 0xc3, 0x01, 0x3c, 0x02, 0x06]"
  shows "\<exists>s. dnp3_frame limits_default f \<lparr>ds_out = dnp3_result_default, ds_transport = [], ds_apps = []\<rparr> = Ok s
    \<and> (\<exists>m. dr_messages (ds_out s) = [m] \<and> ev_data (am_objects m) = [0x3c, 0x02, 0x06]) \<and> ds_transport s = [] \<and> ds_apps s = []"
proof -
  let ?u = "lf_user_data f"
  obtain b where b: "ev_slice ?u 1 (ev_len ?u) = Ok b" "ev_validate b" "ev_trace b = sub_list (ev_trace ?u) 1 (ev_len ?u)"
    using evidence.cut_ok [OF assms(5), of 1 "ev_len ?u"] by (auto simp: ev_trace_length assms ev_len_def)
  have bd: "ev_data b = [0xc3, 0x01, 0x3c, 0x02, 0x06]"
    using ev_data_of_trace [OF b(2,3)] trace_data [OF assms(5)] assms(6) by (simp add: map_sub_list ev_len_def) (simp add: sub_list_def)
  obtain c where c: "ev_slice b 2 (ev_len b) = Ok c" "ev_validate c" "ev_trace c = sub_list (ev_trace b) 2 (ev_len b)"
    using evidence.cut_ok [OF b(2), of 2 "ev_len b"] by (auto simp: ev_trace_length b(2) bd ev_len_def)
  have cd: "ev_data c = [0x3c, 0x02, 0x06]"
    using ev_data_of_trace [OF c(2,3)] trace_data [OF b(2)] bd by (simp add: map_sub_list ev_len_def) (simp add: sub_list_def)
  show ?thesis
    using b(1) c(1) bd cd
    by (simp add: dnp3_frame_def Let_def dnp3_result_default_def note_if_def assms link_control_of_def link_issue_def then_some_def
        primary_name_def address_kind_def is_broadcast_def ev_len_def ev_is_empty_def dnp3_segment_def direction_changed_def
        transport_accept_def is_duplicate_def is_conflicting_def transport_start_def dnp3_complete_def app_fragment_def
        fragment_class_def dnp3_application_def frame_packets_def application_join_def emit_app_def all_classes_def index_at_def)
qed

lemma sample_decodes:
  "\<exists>out m. dnp3_decode sample_dnp3 limits_default = Ok out \<and> dr_messages out = [m] \<and> ev_data (am_objects m) = [0x3c, 0x02, 0x06]"
proof -
  let ?c = "\<lparr>cu_state = \<lparr>ds_out = dnp3_result_default, ds_transport = [], ds_apps = []\<rparr>, cu_p = 0, cu_skipped = 0, cu_rejected = 0\<rparr>"
  obtain f where f: "parse_link (ch_bytes sample_dnp3_chunk) 0 0 = Ok (f, 18)" "lf_control f = 0xc4" "lf_source f = 1" "lf_destination f = 10"
    "lf_link_control f = link_control_of 0xc4" "ev_validate (lf_user_data f)" "ev_data (lf_user_data f) = [0xc0, 0xc3, 0x01, 0x3c, 0x02, 0x06]"
    using sample_parse by blast
  obtain s m where s: "dnp3_frame limits_default f \<lparr>ds_out = dnp3_result_default, ds_transport = [], ds_apps = []\<rparr> = Ok s"
    "dr_messages (ds_out s) = [m]" "ev_data (am_objects m) = [0x3c, 0x02, 0x06]" "ds_transport s = []" "ds_apps s = []"
    using sample_frame_accepted [OF f(2-7)] by blast
  have step: "dnp3_step limits_default sample_dnp3_chunk ?c = Ok (?c\<lparr>cu_state := s, cu_p := 18, cu_skipped := 0\<rparr>, True)"
    using f(1) s(1) sample_magic by (simp add: dnp3_step_def sample_dnp3_chunk_bytes dnp3_resync_def)
  have "dnp3_loop limits_default sample_dnp3_chunk ?c = Ok (?c\<lparr>cu_state := s, cu_p := 18, cu_skipped := 0\<rparr>)"
    by (subst dnp3_loop.simps, subst step, subst and_then.simps, subst dnp3_loop.simps) (simp add: sample_dnp3_chunk_bytes)
  then show ?thesis using s(2-5)
    by (simp add: dnp3_decode_def sample_dnp3_def dnp3_chunk_def sample_dnp3_chunk_bytes i64_of_usize_def checked_add_i64_def in_i64_def
        dnp3_flush_def Let_def)
qed

text \<open>
  Decoding a stream never panics, whatever bytes its chunks hold; it returns a result or an error,
  and in a result every list stays within the configured number of protocol messages.\<close>

theorem dnp3_decode_never_panics:
  assumes "\<forall>chunk \<in> set (sr_chunks stream). in_i64 (ch_offset chunk)"
  shows "dnp3_decode stream limits \<noteq> Panic \<and> (\<forall>out. dnp3_decode stream limits = Ok out \<longrightarrow> within_limits limits out)"
  using decode_yields [OF assms, of limits] by (auto simp: yields_iff out_ok_def)

theorem dnp3_decode_never_panics_witness:
  "dnp3_decode sample_dnp3 limits_default \<noteq> Panic"
  using dnp3_decode_never_panics [of sample_dnp3 limits_default] by (simp add: sample_dnp3_def sample_dnp3_chunk_bytes in_i64_def)

text \<open>
  C11: Everything the decoder reports is made of captured bytes.  A frame is a well-formed link frame of a
  chunk, with its bytes attributed to their packets.  The bytes of an application fragment are the
  concatenated bodies of a run of transport segments of one address pair and one direction: the first
  has the first bit, only the last has the final bit, sequence numbers are consecutive, and the other
  frames listed with it repeat one of these segments octet for octet.  A rejected range is a non-empty
  slice of a chunk.\<close>

theorem dnp3_fragments_are_segment_runs:
  assumes "\<forall>chunk \<in> set (sr_chunks stream). in_i64 (ch_offset chunk)" and "dnp3_decode stream limits = Ok out"
  shows "(\<forall>f \<in> set (dr_frames out). \<exists>chunk \<in> set (sr_chunks stream). \<exists>off n. link_ok (ch_bytes chunk) off (ch_offset chunk) f n)
    \<and> (\<forall>g \<in> set (dr_fragments out). app_fragment (af_raw g) (af_source g) (af_destination g) (af_frames g) = Ok g
        \<and> (\<exists>run. assembled (dr_frames out) (af_source g, af_destination g) (af_frames g) run (af_raw g)
            \<and> seg_last (dr_frames out ! last run)))
    \<and> (\<forall>r \<in> set (dr_rejected out). range_ok (sr_chunks stream) r)"
  using yields_OkD [OF decode_yields [OF assms(1)] assms(2)]
  by (simp add: out_ok_def frame_ok_def app_fragment_ok_def)

theorem dnp3_fragments_are_segment_runs_witness:
  "\<exists>out. dnp3_decode sample_dnp3 limits_default = Ok out
    \<and> (\<forall>f \<in> set (dr_frames out). \<exists>off n. link_ok (ch_bytes sample_dnp3_chunk) off 0 f n)"
  using sample_decodes dnp3_fragments_are_segment_runs [of sample_dnp3 limits_default]
  by (fastforce simp: sample_dnp3_def sample_dnp3_chunk_bytes in_i64_def)

text \<open>
  C12: An application message consists of consecutive fragments of one address pair, class and function:
  the first has the first bit, only the last can have the final bit, and the message is marked complete
  exactly when it does.  Its objects are the concatenated objects of these fragments, byte for byte with
  their sources, and its packets are exactly those that carried a frame of one of them.\<close>

theorem dnp3_messages_are_fragment_runs:
  assumes "\<forall>chunk \<in> set (sr_chunks stream). in_i64 (ch_offset chunk)" and "dnp3_decode stream limits = Ok out"
    and "m \<in> set (dr_messages out)"
  shows "message_ok limits (dr_frames out) (dr_fragments out) m"
  using yields_OkD [OF decode_yields [OF assms(1)] assms(2)] assms(3) by (simp add: out_ok_def)

theorem dnp3_messages_are_fragment_runs_witness:
  "\<exists>out m. dnp3_decode sample_dnp3 limits_default = Ok out \<and> ev_data (am_objects m) = [0x3c, 0x02, 0x06]
    \<and> message_ok limits_default (dr_frames out) (dr_fragments out) m"
proof -
  obtain out m where o: "dnp3_decode sample_dnp3 limits_default = Ok out" "dr_messages out = [m]" "ev_data (am_objects m) = [0x3c, 0x02, 0x06]"
    using sample_decodes by blast
  moreover have "\<forall>chunk \<in> set (sr_chunks sample_dnp3). in_i64 (ch_offset chunk)"
    by (simp add: sample_dnp3_def sample_dnp3_chunk_bytes in_i64_def)
  ultimately show ?thesis using dnp3_messages_are_fragment_runs [of sample_dnp3 limits_default out m] by auto
qed

end
