(* ===== verification/Modbus.thy ===== *)
theory Modbus
  imports Dnp3_Correct
begin

text \<open>
  \<^verbatim>\<open>src/src/modbus.rs\<close>: MBAP framing of Modbus/TCP streams, the shape of the common functions and the
  agreement of a response with a request (with \<^verbatim>\<open>padding_is_zero\<close> of \<^verbatim>\<open>src/src/semantics/modbus.rs\<close>).
  Every index and slice of the source is an operation that can panic, and a conjunction is cut short
  as the code cuts it.
\<close>

section \<open>Messages\<close>

datatype modbus_role = RoleRequest | RoleResponse | RoleUnknown

fun role_as_str :: "modbus_role \<Rightarrow> string" where
  "role_as_str RoleRequest = ''request''"
| "role_as_str RoleResponse = ''response''"
| "role_as_str RoleUnknown = ''unknown''"

record modbus_message =
  mm_stream_offset :: int
  mm_transaction :: u16
  mm_unit :: u8
  mm_function :: u8
  mm_role :: modbus_role
  mm_shape_valid :: bool
  mm_supported :: bool
  mm_verified :: bool
  mm_raw :: evidence

record modbus_result =
  mr_messages :: "modbus_message list"
  mr_issues :: "protocol_issue list"

definition modbus_result_default :: modbus_result where
  "modbus_result_default = \<lparr>mr_messages = [], mr_issues = []\<rparr>"

definition mb16 :: "bytes \<Rightarrow> u16 result" where
  "mb16 b = endian_u16 Big b"

text \<open>\<^verbatim>\<open>be16(&b[lo..lo + 2])\<close>.\<close>

definition mb16_at :: "bytes \<Rightarrow> nat \<Rightarrow> u16 result" where
  "mb16_at b lo = and_then (range_at b lo (lo + 2)) mb16"

text \<open>\<^verbatim>\<open>c && r\<close>, where evaluating \<^verbatim>\<open>r\<close> may panic.\<close>

definition and_also :: "bool \<Rightarrow> bool result \<Rightarrow> bool result" where
  "and_also c r = (if c then r else Ok False)"

section \<open>The shape of a PDU\<close>

definition quantity :: "bytes \<Rightarrow> nat \<Rightarrow> bool result" where
  "quantity pdu mx =
     (if length pdu < 5 then Ok False
      else
        and_then (mb16_at pdu 1) (\<lambda>start.
        and_then (mb16_at pdu 3) (\<lambda>count.
          Ok (1 \<le> unat count \<and> unat count \<le> mx \<and> unat start + unat count \<le> 65536))))"

definition exception_shape :: "bytes \<Rightarrow> modbus_role \<Rightarrow> bool result" where
  "exception_shape pdu role =
     and_also (role = RoleResponse \<and> length pdu = 2)
       (and_then (index_at pdu 1) (\<lambda>x. Ok (x \<in> {1, 2, 3, 4, 5, 6, 8, 10, 11})))"

definition read_response_shape :: "bytes \<Rightarrow> nat \<Rightarrow> bool \<Rightarrow> bool result" where
  "read_response_shape pdu least pairs =
     and_also (least \<le> length pdu)
       (and_then (index_at pdu 1) (\<lambda>n.
        and_also (n \<le> 250 \<and> (pairs \<longrightarrow> unat n mod 2 = 0))
          (and_then (usub (length pdu) 2) (\<lambda>m. Ok (unat n = m)))))"

definition write_request_shape :: "bytes \<Rightarrow> nat \<Rightarrow> nat \<Rightarrow> (nat \<Rightarrow> nat) \<Rightarrow> bool result" where
  "write_request_shape pdu least mx width =
     and_also (least \<le> length pdu)
       (and_then (quantity pdu mx) (\<lambda>q.
        and_also q
          (and_then (index_at pdu 5) (\<lambda>n.
           and_then (mb16_at pdu 3) (\<lambda>count.
           and_also (unat n = width (unat count))
             (and_then (usub (length pdu) 6) (\<lambda>m. Ok (unat n = m))))))))"

text \<open>The match on function and role.\<close>

definition function_shape :: "u8 \<Rightarrow> bytes \<Rightarrow> modbus_role \<Rightarrow> bool result" where
  "function_shape f pdu role =
     (if f \<in> {1, 2} \<and> role = RoleRequest then and_also (length pdu = 5) (quantity pdu 2000)
      else if f \<in> {3, 4} \<and> role = RoleRequest then and_also (length pdu = 5) (quantity pdu 125)
      else if f \<in> {1, 2} \<and> role = RoleResponse then read_response_shape pdu 3 False
      else if f \<in> {3, 4} \<and> role = RoleResponse then read_response_shape pdu 4 True
      else if f = 5 then and_also (length pdu = 5) (and_then (mb16_at pdu 3) (\<lambda>v. Ok (v \<in> {0, 0xff00})))
      else if f = 6 then Ok (length pdu = 5)
      else if f = 15 \<and> role = RoleRequest then write_request_shape pdu 7 1968 (\<lambda>n. div_ceil n 8)
      else if f = 16 \<and> role = RoleRequest then write_request_shape pdu 8 123 (\<lambda>n. 2 * n)
      else if f = 15 \<and> role = RoleResponse then and_also (length pdu = 5) (quantity pdu 1968)
      else if f = 16 \<and> role = RoleResponse then and_also (length pdu = 5) (quantity pdu 123)
      else Ok True)"

function pdu_shape :: "bytes \<Rightarrow> modbus_role \<Rightarrow> bool result" where
  "pdu_shape pdu role =
     (case pdu of [] \<Rightarrow> Ok False
      | f # _ \<Rightarrow>
          if f AND 0x7f = 0 then Ok False
          else if role = RoleUnknown
          then and_then (pdu_shape pdu RoleRequest) (\<lambda>a. if a then Ok True else pdu_shape pdu RoleResponse)
          else if f AND 0x80 \<noteq> 0 then exception_shape pdu role
          else function_shape f pdu role)"
  by pat_completeness auto
termination
  by (relation "measure (\<lambda>(pdu, role). if role = RoleUnknown then 1 else 0)") auto

declare pdu_shape.simps [simp del]

section \<open>Budgets and issues\<close>

definition modbus_capacity :: "modbus_result \<Rightarrow> nat \<Rightarrow> limits \<Rightarrow> unit result" where
  "modbus_capacity out additions limits =
     and_then (ok_or (error_limit ''modbus_messages'')
       (case checked_add (length (mr_messages out)) (length (mr_issues out)) of
          Some n \<Rightarrow> checked_add n additions | None \<Rightarrow> None)) (\<lambda>used.
       if used > max_protocol_messages limits then Err (error_limit ''modbus_messages'') else Ok ())"

definition modbus_issue :: "modbus_result \<Rightarrow> string \<Rightarrow> evidence \<Rightarrow> int \<Rightarrow> limits \<Rightarrow> modbus_result result" where
  "modbus_issue out code bytes at limits =
     and_then (modbus_capacity out 1 limits) (\<lambda>_.
       Ok (out\<lparr>mr_issues := mr_issues out @ [\<lparr>pi_code = code, pi_packets = ev_packets bytes, pi_offset = at\<rparr>]\<rparr>))"

section \<open>Framing\<close>

text \<open>An issue about the rest of a chunk, which ends the walk over it.\<close>

definition modbus_stop :: "string \<Rightarrow> limits \<Rightarrow> stream_chunk \<Rightarrow> nat \<Rightarrow> int \<Rightarrow> modbus_result \<Rightarrow> (modbus_result \<times> nat option) result" where
  "modbus_stop code limits chunk p at out =
     and_then (ev_slice (ch_bytes chunk) p (ev_len (ch_bytes chunk))) (\<lambda>rest.
     and_then (modbus_issue out code rest at limits) (\<lambda>out'. Ok (out', None)))"

text \<open>A complete ADU of \<open>whole\<close> octets at the front of \<open>bytes\<close>.\<close>

definition modbus_adu ::
    "limits \<Rightarrow> modbus_role \<Rightarrow> bool \<Rightarrow> stream_chunk \<Rightarrow> nat \<Rightarrow> int \<Rightarrow> bytes \<Rightarrow> nat \<Rightarrow> modbus_result
      \<Rightarrow> (modbus_result \<times> nat option) result" where
  "modbus_adu limits role verified chunk p at bytes whole out =
     and_then (and_then (range_at bytes 7 whole) (\<lambda>pdu. pdu_shape pdu role)) (\<lambda>valid.
     and_then (index_at bytes 7) (\<lambda>f.
     let supported = (f AND 0x7f \<in> {1, 2, 3, 4, 5, 6, 15, 16} \<and> role \<noteq> RoleUnknown)
     in and_then (modbus_capacity out (1 + of_bool (\<not> supported) + of_bool (\<not> valid)) limits) (\<lambda>_.
        and_then (ev_slice (ch_bytes chunk) p (p + whole)) (\<lambda>raw.
        and_then (if supported then Ok out
          else modbus_issue out ''unsupported_modbus_function_or_role'' raw at limits) (\<lambda>out1.
        and_then (if valid then Ok out1
          else modbus_issue out1 ''invalid_modbus_pdu_shape'' raw at limits) (\<lambda>out2.
        and_then (mb16_at bytes 0) (\<lambda>transaction.
        and_then (index_at bytes 6) (\<lambda>unit.
          Ok (out2\<lparr>mr_messages := mr_messages out2 @
                [\<lparr>mm_stream_offset = at, mm_transaction = transaction, mm_unit = unit, mm_function = f,
                  mm_role = role, mm_shape_valid = valid, mm_supported = supported,
                  mm_verified = verified, mm_raw = raw\<rparr>]\<rparr>, Some (p + whole))))))))))"

text \<open>One round of the loop; \<open>None\<close> in place of the next position stands for \<^verbatim>\<open>break\<close>.\<close>

definition modbus_step ::
    "limits \<Rightarrow> modbus_role \<Rightarrow> bool \<Rightarrow> stream_chunk \<Rightarrow> nat \<Rightarrow> modbus_result \<Rightarrow> (modbus_result \<times> nat option) result" where
  "modbus_step limits role verified chunk p out =
     and_then (range_from (ev_data (ch_bytes chunk)) p) (\<lambda>bytes.
     and_then (i64_add (ch_offset chunk) (int p)) (\<lambda>at.
       if length bytes < 7 then modbus_stop ''truncated_modbus_mbap'' limits chunk p at out
       else
         and_then (mb16_at bytes 4) (\<lambda>len.
         and_then (mb16_at bytes 2) (\<lambda>proto.
           if proto \<noteq> 0 \<or> \<not> (2 \<le> unat len \<and> unat len \<le> 254)
           then modbus_stop ''modbus_framing_lost'' limits chunk p at out
           else let whole = unat len + 6
             in if whole > max_application_bytes limits then Err (error_limit ''modbus_adu_bytes'')
                else if length bytes < whole then modbus_stop ''truncated_modbus_adu'' limits chunk p at out
                else modbus_adu limits role verified chunk p at bytes whole out))))"

lemma modbus_step_advances:
  "modbus_step limits role verified chunk p out = Ok (out', Some q) \<Longrightarrow> p < q"
  by (auto simp: modbus_step_def modbus_stop_def modbus_adu_def Let_def elim!: and_then_OkE split: if_split_asm)

function modbus_loop ::
    "limits \<Rightarrow> modbus_role \<Rightarrow> bool \<Rightarrow> stream_chunk \<Rightarrow> nat \<Rightarrow> modbus_result \<Rightarrow> modbus_result result" where
  "modbus_loop limits role verified chunk p out =
     (if p < ev_len (ch_bytes chunk)
      then and_then (modbus_step limits role verified chunk p out) (\<lambda>r.
             case snd r of Some q \<Rightarrow> modbus_loop limits role verified chunk q (fst r) | None \<Rightarrow> Ok (fst r))
      else Ok out)"
  by pat_completeness auto
termination
proof (relation "measure (\<lambda>(limits, role, verified, chunk, p, out). ev_len (ch_bytes chunk) - p)")
  fix limits role verified chunk p out r q
  assume "p < ev_len (ch_bytes chunk)" and "modbus_step limits role verified chunk p out = Ok r" and "snd r = Some q"
  then have "p < q" using modbus_step_advances [of limits role verified chunk p out "fst r" q] by (cases r) simp
  then show "((limits, role, verified, chunk, q, fst r), (limits, role, verified, chunk, p, out))
      \<in> measure (\<lambda>(limits, role, verified, chunk, p, out). ev_len (ch_bytes chunk) - p)"
    using \<open>p < ev_len (ch_bytes chunk)\<close> by simp
qed simp

declare modbus_loop.simps [simp del]

definition modbus_chunk ::
    "bool \<Rightarrow> modbus_role \<Rightarrow> limits \<Rightarrow> modbus_result \<Rightarrow> stream_chunk \<Rightarrow> modbus_result result" where
  "modbus_chunk anchored role limits out chunk =
     (let bytes = ch_bytes chunk; verified = (anchored \<and> ch_offset chunk = 0)
      in and_then (ok_or (error_limit ''stream_offset'') (i64_of_usize (ev_len bytes))) (\<lambda>len.
         and_then (ok_or (error_limit ''stream_offset'') (checked_add_i64 (ch_offset chunk) len)) (\<lambda>fin.
         if \<not> ev_validate bytes
         then Err (error_new Invariant 0 ''provenance'' ''invalid Modbus source spans'')
         else
           and_then (if verified then Ok out
             else modbus_issue out ''modbus_start_boundary_unverified'' bytes (ch_offset chunk) limits) (\<lambda>out1.
             modbus_loop limits role verified chunk 0 out1))))"

definition modbus_decode :: "stream_result \<Rightarrow> modbus_role \<Rightarrow> limits \<Rightarrow> modbus_result result" where
  "modbus_decode stream role limits =
     and_then (limits_validate limits) (\<lambda>_.
       for_each (modbus_chunk (sr_anchored stream) role limits) modbus_result_default (sr_chunks stream))"

section \<open>Agreement of a response with a request\<close>

definition padding_is_zero :: "u16 \<Rightarrow> bytes \<Rightarrow> bool" where
  "padding_is_zero q bytes =
     (if q = 0 \<or> length bytes \<noteq> div_ceil (unat q) 8 then False
      else let used = unat q mod 8
        in used = 0 \<or> (bytes \<noteq> [] \<and> last bytes AND push_bit used 0xff = 0))"

definition metadata_agrees :: "modbus_message \<Rightarrow> bool result" where
  "metadata_agrees m =
     (let raw = ev_data (mm_raw m)
      in and_also (8 \<le> length raw)
        (and_then (mb16_at raw 2) (\<lambda>proto.
         and_also (proto = 0)
          (and_then (mb16_at raw 4) (\<lambda>len.
           and_also (unat len + 6 = length raw)
            (and_then (mb16_at raw 0) (\<lambda>transaction.
             and_also (mm_transaction m = transaction)
              (and_then (index_at raw 6) (\<lambda>unit.
               and_also (mm_unit m = unit)
                (and_then (index_at raw 7) (\<lambda>f. Ok (mm_function m = f))))))))))))"

text \<open>The last match: the response repeats or answers what the request asked for.\<close>

definition answer_matches :: "u8 \<Rightarrow> bytes \<Rightarrow> bytes \<Rightarrow> bool result" where
  "answer_matches f req rsp =
     (if f \<in> {1, 2} \<and> length req = 12 \<and> 9 \<le> length rsp then
        and_then (index_at rsp 8) (\<lambda>n.
        and_then (mb16_at req 10) (\<lambda>q.
        and_also (unat n = div_ceil (unat q) 8)
          (and_then (range_from rsp 9) (\<lambda>bits. Ok (padding_is_zero q bits)))))
      else if f \<in> {3, 4} \<and> length req = 12 \<and> 9 \<le> length rsp then
        and_then (index_at rsp 8) (\<lambda>n.
        and_then (mb16_at req 10) (\<lambda>q. Ok (unat n = 2 * unat q)))
      else if f \<in> {5, 6, 15, 16} \<and> 12 \<le> length req \<and> length rsp = 12 then
        and_then (range_at req 8 12) (\<lambda>a. and_then (range_at rsp 8 12) (\<lambda>b. Ok (a = b)))
      else Ok False)"

definition response_matches :: "modbus_message \<Rightarrow> modbus_message \<Rightarrow> bool result" where
  "response_matches request response =
     (if \<not> (mm_function request \<in> {1, 2, 3, 4, 5, 6, 15, 16}) \<or> \<not> ev_validate (mm_raw request)
         \<or> \<not> ev_validate (mm_raw response) \<or> mm_role request \<noteq> RoleRequest \<or> mm_role response \<noteq> RoleResponse
         \<or> \<not> mm_shape_valid request \<or> \<not> mm_shape_valid response
         \<or> \<not> mm_supported request \<or> \<not> mm_supported response
         \<or> mm_transaction request \<noteq> mm_transaction response \<or> mm_unit request \<noteq> mm_unit response
         \<or> mm_function request \<noteq> mm_function response AND 0x7f
      then Ok False
      else
        and_then (metadata_agrees request) (\<lambda>a.
        and_then (if a then metadata_agrees response else Ok False) (\<lambda>b.
        if \<not> b then Ok False
        else
          let req = ev_data (mm_raw request); rsp = ev_data (mm_raw response)
          in if length req < 8 \<or> length rsp < 8 then Ok False
             else
               and_then (and_then (range_from req 7) (\<lambda>pdu. pdu_shape pdu RoleRequest)) (\<lambda>c.
               and_then (if c then and_then (range_from rsp 7) (\<lambda>pdu. pdu_shape pdu RoleResponse) else Ok False) (\<lambda>d.
               if \<not> d then Ok False
               else if mm_function response AND 0x80 \<noteq> 0 then Ok True
               else answer_matches (mm_function request) req rsp)))))"

end
