(* ===== verification/Modbus_Correct.thy ===== *)
theory Modbus_Correct
  imports Modbus
begin

text \<open>
  The Modbus decoder against a reference splitting of a byte string into ADUs: which messages and
  issues a stream gives, in order and with their positions, and when a budget stops the decoder.  Then
  what a matching response tells about the request it answers.
\<close>

section \<open>Shapes\<close>

lemma mb16_at_ok [simp]: "lo + 2 \<le> length b \<Longrightarrow> mb16_at b lo = Ok (word16_at Big b lo)"
  using read_u16_ok [of lo b Big] by (simp add: mb16_at_def mb16_def [abs_def] read_u16_def)

definition decided :: "bool result \<Rightarrow> bool" where
  "decided r \<longleftrightarrow> (\<exists>b. r = Ok b)"

lemma decided_Ok [simp]: "decided (Ok b)"
  by (simp add: decided_def)

lemma decided_and_also: "(c \<Longrightarrow> decided r) \<Longrightarrow> decided (and_also c r)"
  by (simp add: and_also_def)

lemma decided_bind: "decided m \<Longrightarrow> (\<And>b. m = Ok b \<Longrightarrow> decided (f b)) \<Longrightarrow> decided (and_then m f)"
  by (auto simp: decided_def)

lemma decided_if: "(c \<Longrightarrow> decided a) \<Longrightarrow> (\<not> c \<Longrightarrow> decided b) \<Longrightarrow> decided (if c then a else b)"
  by simp

lemma quantity_decided: "decided (quantity pdu mx)"
  by (cases "length pdu < 5") (simp_all add: quantity_def)

lemma function_shape_decided: "decided (function_shape f pdu role)"
proof -
  have "decided (read_response_shape pdu least pairs)" if "2 \<le> least" for least pairs
    using that unfolding read_response_shape_def by (auto intro!: decided_and_also)
  moreover have "decided (write_request_shape pdu least mx width)" if "6 \<le> least" for least mx width
    using that unfolding write_request_shape_def
    by (auto intro!: decided_and_also decided_bind [OF quantity_decided])
  ultimately show ?thesis
    by (auto simp: function_shape_def intro!: decided_and_also quantity_decided)
qed

lemma pdu_shape_decided: "decided (pdu_shape pdu role)"
proof (induction pdu role rule: pdu_shape.induct)
  case (1 pdu role)
  have "decided (exception_shape pdu role)" by (auto simp: exception_shape_def intro!: decided_and_also)
  then show ?case using 1 function_shape_decided
    unfolding pdu_shape.simps [of pdu role] by (auto split: list.split intro!: decided_bind)
qed

definition shape_of :: "bytes \<Rightarrow> modbus_role \<Rightarrow> bool" where
  "shape_of pdu role \<longleftrightarrow> pdu_shape pdu role = Ok True"

lemma pdu_shape_eq: "pdu_shape pdu role = Ok (shape_of pdu role)"
  using pdu_shape_decided [of pdu role] by (auto simp: decided_def shape_of_def)

section \<open>The reference\<close>

text \<open>The length of the ADU a byte string begins with, if it begins with a complete one.\<close>

definition adu_len :: "bytes \<Rightarrow> nat option" where
  "adu_len b = (if 7 \<le> length b \<and> word16_at Big b 2 = 0 \<and> 2 \<le> unat (word16_at Big b 4) \<and> unat (word16_at Big b 4) \<le> 254
       \<and> unat (word16_at Big b 4) + 6 \<le> length b
     then Some (unat (word16_at Big b 4) + 6) else None)"

lemma adu_len_bounds: "adu_len b = Some n \<Longrightarrow> 8 \<le> n \<and> n \<le> 260 \<and> n \<le> length b"
  by (auto simp: adu_len_def split: if_split_asm)

function mbap_split :: "bytes \<Rightarrow> bytes list \<times> bytes" where
  "mbap_split b = (case adu_len b of None \<Rightarrow> ([], b)
     | Some n \<Rightarrow> (take n b # fst (mbap_split (drop n b)), snd (mbap_split (drop n b))))"
  by pat_completeness auto
termination
  by (relation "measure length") (auto dest: adu_len_bounds)

declare mbap_split.simps [simp del]

text \<open>Byte strings with the stream offsets at which they follow each other.\<close>

fun place :: "int \<Rightarrow> bytes list \<Rightarrow> (int \<times> bytes) list" where
  "place off [] = []"
| "place off (a # as) = (off, a) # place (off + int (length a)) as"

definition supported_function :: "u8 \<Rightarrow> modbus_role \<Rightarrow> bool" where
  "supported_function f role \<longleftrightarrow> f AND 0x7f \<in> {1, 2, 3, 4, 5, 6, 15, 16} \<and> role \<noteq> RoleUnknown"

definition adu_issues :: "modbus_role \<Rightarrow> int \<times> bytes \<Rightarrow> (string \<times> int) list" where
  "adu_issues role = (\<lambda>(off, a).
     (if supported_function (a ! 7) role then [] else [(''unsupported_modbus_function_or_role'', off)])
     @ (if shape_of (drop 7 a) role then [] else [(''invalid_modbus_pdu_shape'', off)]))"

definition stop_code :: "bytes \<Rightarrow> string" where
  "stop_code rest =
     (if length rest < 7 then ''truncated_modbus_mbap''
      else if word16_at Big rest 2 \<noteq> 0 \<or> \<not> (2 \<le> unat (word16_at Big rest 4) \<and> unat (word16_at Big rest 4) \<le> 254)
      then ''modbus_framing_lost'' else ''truncated_modbus_adu'')"

text \<open>The issues of a walk over \<open>b\<close>, which begins at stream offset \<open>off\<close>.\<close>

definition walk_issues :: "modbus_role \<Rightarrow> int \<Rightarrow> bytes \<Rightarrow> (string \<times> int) list" where
  "walk_issues role off b = concat (map (adu_issues role) (place off (fst (mbap_split b))))
     @ (if snd (mbap_split b) = [] then []
        else [(stop_code (snd (mbap_split b)), off + int (length b - length (snd (mbap_split b))))])"

definition walk_cost :: "modbus_role \<Rightarrow> int \<Rightarrow> bytes \<Rightarrow> nat" where
  "walk_cost role off b = length (fst (mbap_split b)) + length (walk_issues role off b)"

text \<open>A message whose fields are those its octets carry.\<close>

definition faithful :: "modbus_role \<Rightarrow> bool \<Rightarrow> modbus_message \<Rightarrow> bool" where
  "faithful role verified m \<longleftrightarrow> ev_validate (mm_raw m)
     \<and> mm_transaction m = word16_at Big (ev_data (mm_raw m)) 0 \<and> mm_unit m = ev_data (mm_raw m) ! 6
     \<and> mm_function m = ev_data (mm_raw m) ! 7 \<and> mm_role m = role \<and> mm_verified m = verified
     \<and> mm_supported m = supported_function (mm_function m) role
     \<and> mm_shape_valid m = shape_of (drop 7 (ev_data (mm_raw m))) role"

definition message_place :: "modbus_message \<Rightarrow> int \<times> bytes" where
  "message_place m = (mm_stream_offset m, ev_data (mm_raw m))"

definition issue_place :: "protocol_issue \<Rightarrow> string \<times> int" where
  "issue_place i = (pi_code i, pi_offset i)"

lemma split_none: "adu_len b = None \<Longrightarrow> mbap_split b = ([], b)"
  by (simp add: mbap_split.simps [of b])

lemma split_some:
  "adu_len b = Some n \<Longrightarrow> mbap_split b = (take n b # fst (mbap_split (drop n b)), snd (mbap_split (drop n b)))"
  by (simp add: mbap_split.simps [of b])

lemma split_concat: "concat (fst (mbap_split b)) @ snd (mbap_split b) = b"
proof (induction b rule: mbap_split.induct)
  case (1 b)
  then show ?case by (cases "adu_len b") (simp_all add: split_none split_some)
qed

lemma length_split_rest: "length (snd (mbap_split b)) \<le> length b"
  by (metis split_concat le_add2 length_append)

lemma walk_issues_some:
  assumes "adu_len b = Some n"
  shows "walk_issues role off b = adu_issues role (off, take n b) @ walk_issues role (off + int n) (drop n b)"
proof -
  have "n \<le> length b" using adu_len_bounds [OF assms] by simp
  moreover have "length (snd (mbap_split (drop n b))) \<le> length b - n" using length_split_rest [of "drop n b"] by simp
  ultimately show ?thesis by (simp add: walk_issues_def split_some [OF assms] of_nat_diff)
qed

lemma walk_issues_none: "adu_len b = None \<Longrightarrow> b \<noteq> [] \<Longrightarrow> walk_issues role off b = [(stop_code b, off)]"
  by (simp add: walk_issues_def split_none)

lemma walk_cost_some:
  "adu_len b = Some n \<Longrightarrow> walk_cost role off b = 1 + length (adu_issues role (off, take n b)) + walk_cost role (off + int n) (drop n b)"
  by (simp add: walk_cost_def walk_issues_some split_some)

lemma walk_cost_none: "adu_len b = None \<Longrightarrow> b \<noteq> [] \<Longrightarrow> walk_cost role off b = 1"
  by (simp add: walk_cost_def walk_issues_none split_none)

section \<open>The walk over a chunk\<close>

definition used :: "modbus_result \<Rightarrow> nat" where
  "used out = length (mr_messages out) + length (mr_issues out)"

text \<open>The budgets of a run: the counter of messages cannot overflow, and every ADU fits.\<close>

definition roomy :: "limits \<Rightarrow> bool" where
  "roomy limits \<longleftrightarrow> max_protocol_messages limits < usize_limit \<and> 260 \<le> max_application_bytes limits"

lemma capacity_eq:
  assumes "roomy limits"
  shows "modbus_capacity out n limits = (if used out + n \<le> max_protocol_messages limits then Ok () else Err (error_limit ''modbus_messages''))"
  using assms by (auto simp: modbus_capacity_def used_def roomy_def checked_add_def)

lemma issue_eq:
  assumes "roomy limits"
  shows "modbus_issue out code bytes at limits = (if used out < max_protocol_messages limits
    then Ok (out\<lparr>mr_issues := mr_issues out @ [\<lparr>pi_code = code, pi_packets = ev_packets bytes, pi_offset = at\<rparr>]\<rparr>)
    else Err (error_limit ''modbus_messages''))"
  by (simp add: modbus_issue_def capacity_eq [OF assms])

text \<open>What a walk over \<open>b\<close>, with trace \<open>t\<close>, adds to a result.\<close>

definition walked ::
    "modbus_role \<Rightarrow> bool \<Rightarrow> int \<Rightarrow> bytes \<Rightarrow> (u8 \<times> packet_id \<times> nat) list \<Rightarrow> modbus_message list \<Rightarrow> protocol_issue list \<Rightarrow> bool" where
  "walked role verified off b t ms iss \<longleftrightarrow> map message_place ms = place off (fst (mbap_split b))
     \<and> map issue_place iss = walk_issues role off b \<and> (\<forall>m \<in> set ms. faithful role verified m)
     \<and> (\<exists>rest. t = concat (map (\<lambda>m. ev_trace (mm_raw m)) ms) @ rest)"

definition grown :: "modbus_result \<Rightarrow> modbus_message list \<Rightarrow> protocol_issue list \<Rightarrow> modbus_result" where
  "grown out ms iss = out\<lparr>mr_messages := mr_messages out @ ms, mr_issues := mr_issues out @ iss\<rparr>"

lemma grown_simps [simp]:
  "grown out [] [] = out" "used (grown out ms iss) = used out + length ms + length iss"
  "grown (grown out ms iss) ms' iss' = grown out (ms @ ms') (iss @ iss')"
  by (simp_all add: grown_def used_def)

definition inside :: "stream_chunk \<Rightarrow> nat \<Rightarrow> bool" where
  "inside chunk p \<longleftrightarrow> ev_validate (ch_bytes chunk) \<and> in_i64 (ch_offset chunk)
     \<and> in_i64 (ch_offset chunk + int (ev_len (ch_bytes chunk))) \<and> p \<le> ev_len (ch_bytes chunk)"

lemma inside_offset: "inside chunk p \<Longrightarrow> i64_add (ch_offset chunk) (int p) = Ok (ch_offset chunk + int p)"
  by (intro i64_add_ok) (auto simp: inside_def in_i64_def)

lemma stop_eq:
  assumes "roomy limits" and "inside chunk p"
  shows "if used out < max_protocol_messages limits
    then \<exists>iss. modbus_stop code limits chunk p at out = Ok (grown out [] iss, None) \<and> map issue_place iss = [(code, at)]
    else modbus_stop code limits chunk p at out = Err (error_limit ''modbus_messages'')"
proof -
  obtain e where "ev_slice (ch_bytes chunk) p (ev_len (ch_bytes chunk)) = Ok e"
    using evidence.cut_ok [of "ch_bytes chunk" p "ev_len (ch_bytes chunk)"] assms(2)
    by (auto simp: inside_def ev_trace_length ev_len_def)
  then show ?thesis
    by (auto simp: modbus_stop_def issue_eq [OF assms(1)] grown_def issue_place_def
        intro!: exI [of _ "[\<lparr>pi_code = code, pi_packets = ev_packets e, pi_offset = at\<rparr>]"])
qed

lemma adu_eq:
  assumes lim: "roomy limits" and ch: "inside chunk p" and n: "adu_len (drop p (ev_data (ch_bytes chunk))) = Some n"
  shows "let b = drop p (ev_data (ch_bytes chunk)); extra = adu_issues role (at, take n b)
    in if used out + 1 + length extra \<le> max_protocol_messages limits
      then \<exists>m iss. modbus_adu limits role verified chunk p at b n out = Ok (grown out [m] iss, Some (p + n))
        \<and> message_place m = (at, take n b) \<and> map issue_place iss = extra \<and> faithful role verified m
        \<and> ev_trace (mm_raw m) = sub_list (ev_trace (ch_bytes chunk)) p (p + n)
      else modbus_adu limits role verified chunk p at b n out = Err (error_limit ''modbus_messages'')"
proof -
  define b where "b = drop p (ev_data (ch_bytes chunk))"
  define a where "a = take n b"
  have bn: "8 \<le> n" "n \<le> length b" using adu_len_bounds [OF n] by (simp_all add: b_def)
  then have an: "length a = n" "a ! 7 = b ! 7" "a ! 6 = b ! 6" "word16_at Big a 0 = word16_at Big b 0"
    by (simp_all add: a_def word16_at_def)
  have v: "ev_validate (ch_bytes chunk)" "p + n \<le> ev_len (ch_bytes chunk)"
    using ch bn by (auto simp: inside_def b_def ev_len_def)
  obtain raw where raw: "ev_slice (ch_bytes chunk) p (p + n) = Ok raw" "ev_validate raw"
    "ev_trace raw = sub_list (ev_trace (ch_bytes chunk)) p (p + n)"
    using evidence.cut_ok [OF v(1), of p "p + n"] v(2) by (auto simp: ev_trace_length [OF v(1)] ev_len_def)
  have "ev_data raw = map fst (ev_trace raw)" using trace_data [OF raw(2)] by simp
  also have "\<dots> = sub_list (ev_data (ch_bytes chunk)) p (p + n)" by (simp add: raw(3) map_sub_list trace_data [OF v(1)])
  finally have rd: "ev_data raw = a" by (simp add: sub_list_def a_def b_def)
  have r: "range_at b 7 n = (Ok (drop 7 a) :: bytes result)" "index_at b 7 = (Ok (b ! 7) :: u8 result)"
    "index_at b 6 = (Ok (b ! 6) :: u8 result)" "mb16_at b 0 = Ok (word16_at Big b 0)"
    using bn by (simp_all add: sub_list_def a_def drop_take)
  let ?sup = "supported_function (b ! 7) role" and ?val = "shape_of (drop 7 a) role"
  define iss where "iss = (if ?sup then [] else [\<lparr>pi_code = ''unsupported_modbus_function_or_role'', pi_packets = ev_packets raw, pi_offset = at\<rparr>])
    @ (if ?val then [] else [\<lparr>pi_code = ''invalid_modbus_pdu_shape'', pi_packets = ev_packets raw, pi_offset = at\<rparr>])"
  define m where "m = \<lparr>mm_stream_offset = at, mm_transaction = word16_at Big b 0, mm_unit = b ! 6, mm_function = b ! 7,
    mm_role = role, mm_shape_valid = ?val, mm_supported = ?sup, mm_verified = verified, mm_raw = raw\<rparr>"
  have extra: "adu_issues role (at, a) = map issue_place iss" by (simp add: adu_issues_def iss_def issue_place_def an(2))
  have m: "message_place m = (at, a)" "faithful role verified m" "ev_trace (mm_raw m) = sub_list (ev_trace (ch_bytes chunk)) p (p + n)"
    using raw rd an by (simp_all add: m_def message_place_def faithful_def)
  have eq: "modbus_adu limits role verified chunk p at b n out =
      (if used out + 1 + length iss \<le> max_protocol_messages limits then Ok (grown out [m] iss, Some (p + n))
       else Err (error_limit ''modbus_messages''))"
    unfolding modbus_adu_def r and_then.simps pdu_shape_eq Let_def supported_function_def [symmetric] capacity_eq [OF lim]
    by (cases ?sup; cases ?val) (simp_all add: raw(1) issue_eq [OF lim] iss_def m_def grown_def used_def)
  show ?thesis unfolding Let_def b_def [symmetric] a_def [symmetric] extra eq using m by auto
qed

lemma step_eq:
  assumes lim: "roomy limits" and ch: "inside chunk p" "p < ev_len (ch_bytes chunk)"
  shows "modbus_step limits role verified chunk p out =
    (case adu_len (drop p (ev_data (ch_bytes chunk))) of
       Some n \<Rightarrow> modbus_adu limits role verified chunk p (ch_offset chunk + int p) (drop p (ev_data (ch_bytes chunk))) n out
     | None \<Rightarrow> modbus_stop (stop_code (drop p (ev_data (ch_bytes chunk)))) limits chunk p (ch_offset chunk + int p) out)"
proof -
  define b where "b = drop p (ev_data (ch_bytes chunk))"
  have r: "range_from (ev_data (ch_bytes chunk)) p = (Ok b :: bytes result)" using ch(2) by (simp add: b_def ev_len_def)
  show ?thesis
  proof (cases "length b < 7")
    case True
    then show ?thesis unfolding modbus_step_def r and_then.simps inside_offset [OF ch(1)] b_def [symmetric]
      by (simp add: adu_len_def stop_code_def)
  next
    case False
    then have w: "mb16_at b 4 = Ok (word16_at Big b 4)" "mb16_at b 2 = Ok (word16_at Big b 2)" by simp_all
    have "254 + 6 \<le> max_application_bytes limits" using lim by (simp add: roomy_def)
    then show ?thesis unfolding modbus_step_def r and_then.simps inside_offset [OF ch(1)] b_def [symmetric] w Let_def
      using False by (auto simp: adu_len_def stop_code_def)
  qed
qed

lemma loop_eq:
  assumes "roomy limits" and "inside chunk p" and "used out \<le> max_protocol_messages limits"
  shows "let b = drop p (ev_data (ch_bytes chunk)); t = drop p (ev_trace (ch_bytes chunk)); off = ch_offset chunk + int p
    in if used out + walk_cost role off b \<le> max_protocol_messages limits
      then \<exists>ms iss. modbus_loop limits role verified chunk p out = Ok (grown out ms iss) \<and> walked role verified off b t ms iss
      else modbus_loop limits role verified chunk p out = Err (error_limit ''modbus_messages'')"
  using assms
proof (induction limits role verified chunk p out rule: modbus_loop.induct)
  case (1 limits role verified chunk p out)
  define b where "b = drop p (ev_data (ch_bytes chunk))"
  define t where "t = drop p (ev_trace (ch_bytes chunk))"
  define off where "off = ch_offset chunk + int p"
  have goal: "if used out + walk_cost role off b \<le> max_protocol_messages limits
      then \<exists>ms iss. modbus_loop limits role verified chunk p out = Ok (grown out ms iss) \<and> walked role verified off b t ms iss
      else modbus_loop limits role verified chunk p out = Err (error_limit ''modbus_messages'')"
  proof (cases "p < ev_len (ch_bytes chunk)")
    case False
    then have "b = []" by (simp add: b_def ev_len_def)
    then have w: "walk_cost role off b = 0" "walked role verified off b t [] []"
      by (simp_all add: walk_cost_def walk_issues_def split_none adu_len_def walked_def)
    moreover have "modbus_loop limits role verified chunk p out = Ok out"
      unfolding modbus_loop.simps [of limits role verified chunk p out] using False by simp
    ultimately show ?thesis using "1.prems"(3) by (auto intro!: exI [of _ "[]"])
  next
    case True
    then have ne: "b \<noteq> []" by (simp add: b_def ev_len_def)
    note step = step_eq [OF "1.prems"(1,2) True, of role verified out, folded b_def off_def]
    note unfold = modbus_loop.simps [of limits role verified chunk p out]
    show ?thesis
    proof (cases "adu_len b")
      case None
      note stop = stop_eq [OF "1.prems"(1,2), of out "stop_code b" off]
      show ?thesis
      proof (cases "used out < max_protocol_messages limits")
        case room: True
        with stop obtain iss where "modbus_stop (stop_code b) limits chunk p off out = Ok (grown out [] iss, None)"
          "map issue_place iss = [(stop_code b, off)]" by auto
        then show ?thesis using True None room ne unfolding unfold step
          by (auto simp: walk_cost_none walked_def split_none walk_issues_none intro!: exI [of _ "[]"] exI [of _ "iss"])
      next
        case False
        then show ?thesis using True None stop ne unfolding unfold step by (simp add: walk_cost_none)
      qed
    next
      case (Some n)
      note adu = adu_eq [OF "1.prems"(1,2), of n role off out verified, folded b_def, OF Some, unfolded Let_def]
      note cost = walk_cost_some [OF Some, of role off]
      show ?thesis
      proof (cases "used out + 1 + length (adu_issues role (off, take n b)) \<le> max_protocol_messages limits")
        case False
        then show ?thesis using True Some adu cost unfolding unfold step by simp
      next
        case room: True
        then obtain m iss where m: "modbus_adu limits role verified chunk p off b n out = Ok (grown out [m] iss, Some (p + n))"
          "message_place m = (off, take n b)" "map issue_place iss = adu_issues role (off, take n b)" "faithful role verified m"
          "ev_trace (mm_raw m) = sub_list (ev_trace (ch_bytes chunk)) p (p + n)"
          using adu by auto
        have len: "length iss = length (adu_issues role (off, take n b))" using arg_cong [OF m(3), of length] by simp
        have nb: "p + n \<le> ev_len (ch_bytes chunk)" using adu_len_bounds [OF Some] True by (auto simp: b_def ev_len_def)
        have pn: "inside chunk (p + n)" using "1.prems"(2) nb by (simp add: inside_def)
        have st: "modbus_step limits role verified chunk p out = Ok (grown out [m] iss, Some (p + n))" using step Some m(1) by simp
        have loop: "modbus_loop limits role verified chunk p out = modbus_loop limits role verified chunk (p + n) (grown out [m] iss)"
          unfolding unfold st using True by simp
        have rest: "drop (p + n) (ev_data (ch_bytes chunk)) = drop n b" "ch_offset chunk + int (p + n) = off + int n"
          "drop (p + n) (ev_trace (ch_bytes chunk)) = drop n t"
          by (simp_all add: b_def off_def t_def add.commute)
        have u: "used (grown out [m] iss) \<le> max_protocol_messages limits" using room len by simp
        note ih = "1.IH" [OF True st, of "p + n", unfolded fst_conv snd_conv Let_def rest, OF refl "1.prems"(1) pn u]
        have join: "walked role verified off b t (m # ms) (iss @ iss')" if "walked role verified (off + int n) (drop n b) (drop n t) ms iss'" for ms iss'
        proof -
          have "take n t = ev_trace (mm_raw m)" by (simp add: m(5) t_def sub_list_def)
          then have "t = ev_trace (mm_raw m) @ drop n t" by (metis append_take_drop_id)
          moreover have "length (take n b) = n" using adu_len_bounds [OF Some] by simp
          ultimately show ?thesis using that m(2-4)
            by (auto simp: walked_def split_some [OF Some] walk_issues_some [OF Some] Cons_eq_append_conv)
        qed
        show ?thesis
        proof (cases "used out + walk_cost role off b \<le> max_protocol_messages limits")
          case fits: True
          then have "used (grown out [m] iss) + walk_cost role (off + int n) (drop n b) \<le> max_protocol_messages limits"
            using cost len by simp
          with ih obtain ms iss' where r: "modbus_loop limits role verified chunk (p + n) (grown out [m] iss) = Ok (grown (grown out [m] iss) ms iss')"
            "walked role verified (off + int n) (drop n b) (drop n t) ms iss'" by auto
          have "modbus_loop limits role verified chunk p out = Ok (grown out (m # ms) (iss @ iss'))" using r(1) loop by simp
          then show ?thesis using fits join [OF r(2)] by auto
        next
          case False
          then have "\<not> used (grown out [m] iss) + walk_cost role (off + int n) (drop n b) \<le> max_protocol_messages limits"
            using cost len by simp
          then show ?thesis using ih loop False by simp
        qed
      qed
    qed
  qed
  then show ?case unfolding b_def t_def off_def Let_def .
qed

section \<open>A stream\<close>

text \<open>A chunk the decoder accepts: valid evidence at offsets of the type \<^verbatim>\<open>i64\<close>.\<close>

definition readable :: "stream_chunk \<Rightarrow> bool" where
  "readable chunk \<longleftrightarrow> inside chunk 0 \<and> ev_len (ch_bytes chunk) < 2 ^ 63"

definition at_start :: "bool \<Rightarrow> stream_chunk \<Rightarrow> bool" where
  "at_start anchored chunk \<longleftrightarrow> anchored \<and> ch_offset chunk = 0"

definition chunk_issues :: "bool \<Rightarrow> modbus_role \<Rightarrow> stream_chunk \<Rightarrow> (string \<times> int) list" where
  "chunk_issues anchored role chunk =
     (if at_start anchored chunk then [] else [(''modbus_start_boundary_unverified'', ch_offset chunk)])
     @ walk_issues role (ch_offset chunk) (ev_data (ch_bytes chunk))"

definition chunk_cost :: "bool \<Rightarrow> modbus_role \<Rightarrow> stream_chunk \<Rightarrow> nat" where
  "chunk_cost anchored role chunk = length (fst (mbap_split (ev_data (ch_bytes chunk)))) + length (chunk_issues anchored role chunk)"

text \<open>The messages and issues of one chunk: the ADUs of the reference splitting, each at its stream
  offset and with the fields its octets carry, traced byte by byte to the captured packets.\<close>

definition chunk_report :: "bool \<Rightarrow> modbus_role \<Rightarrow> stream_chunk \<Rightarrow> modbus_message list \<times> protocol_issue list \<Rightarrow> bool" where
  "chunk_report anchored role chunk = (\<lambda>(ms, iss).
     map message_place ms = place (ch_offset chunk) (fst (mbap_split (ev_data (ch_bytes chunk))))
     \<and> map issue_place iss = chunk_issues anchored role chunk
     \<and> (\<forall>m \<in> set ms. faithful role (at_start anchored chunk) m)
     \<and> (\<exists>rest. ev_trace (ch_bytes chunk) = concat (map (\<lambda>m. ev_trace (mm_raw m)) ms) @ rest))"

lemma chunk_eq:
  assumes lim: "roomy limits" and ch: "readable chunk" and u: "used out \<le> max_protocol_messages limits"
  shows "if used out + chunk_cost anchored role chunk \<le> max_protocol_messages limits
    then \<exists>ms iss. modbus_chunk anchored role limits out chunk = Ok (grown out ms iss) \<and> chunk_report anchored role chunk (ms, iss)
    else modbus_chunk anchored role limits out chunk = Err (error_limit ''modbus_messages'')"
proof -
  let ?b = "ev_data (ch_bytes chunk)" and ?v = "at_start anchored chunk"
  have pre: "i64_of_usize (ev_len (ch_bytes chunk)) = Some (int (ev_len (ch_bytes chunk)))"
    "checked_add_i64 (ch_offset chunk) (int (ev_len (ch_bytes chunk))) = Some (ch_offset chunk + int (ev_len (ch_bytes chunk)))"
    "ev_validate (ch_bytes chunk)"
    using ch by (simp_all add: readable_def inside_def i64_of_usize_def checked_add_i64_def)
  have zero: "inside chunk 0" using ch by (simp add: readable_def)
  note loop = loop_eq [OF lim zero, simplified Let_def, simplified]
  show ?thesis
  proof (cases ?v)
    case True
    then have eq: "modbus_chunk anchored role limits out chunk = modbus_loop limits role True chunk 0 out"
      unfolding modbus_chunk_def Let_def pre ok_or.simps and_then.simps using pre(3) by (simp add: at_start_def)
    have cost: "chunk_cost anchored role chunk = walk_cost role (ch_offset chunk) ?b"
      using True by (simp add: chunk_cost_def chunk_issues_def walk_cost_def)
    show ?thesis using loop [OF u, of role True] True unfolding eq cost
      by (auto simp: chunk_report_def walked_def chunk_issues_def split: if_split_asm)
  next
    case False
    define i where "i = \<lparr>pi_code = ''modbus_start_boundary_unverified'', pi_packets = ev_packets (ch_bytes chunk), pi_offset = ch_offset chunk\<rparr>"
    have cost: "chunk_cost anchored role chunk = Suc (walk_cost role (ch_offset chunk) ?b)"
      using False by (simp add: chunk_cost_def chunk_issues_def walk_cost_def)
    show ?thesis
    proof (cases "used out < max_protocol_messages limits")
      case room: True
      then have "modbus_issue out ''modbus_start_boundary_unverified'' (ch_bytes chunk) (ch_offset chunk) limits = Ok (grown out [] [i])"
        by (simp add: issue_eq [OF lim] grown_def i_def)
      then have eq: "modbus_chunk anchored role limits out chunk = modbus_loop limits role False chunk 0 (grown out [] [i])"
        unfolding modbus_chunk_def Let_def pre ok_or.simps and_then.simps using pre(3) False by (auto simp: at_start_def)
      have "used (grown out [] [i]) \<le> max_protocol_messages limits" using room by simp
      note rest = loop [OF this, of role False]
      have report: "chunk_report anchored role chunk (ms, i # iss)"
        if "walked role False (ch_offset chunk) ?b (ev_trace (ch_bytes chunk)) ms iss" for ms iss
        using that False by (simp add: chunk_report_def walked_def chunk_issues_def issue_place_def i_def)
      show ?thesis
      proof (cases "used out + chunk_cost anchored role chunk \<le> max_protocol_messages limits")
        case True
        with rest cost obtain ms iss where "modbus_loop limits role False chunk 0 (grown out [] [i]) = Ok (grown out ms (i # iss))"
          "walked role False (ch_offset chunk) ?b (ev_trace (ch_bytes chunk)) ms iss" by auto
        then show ?thesis using True report unfolding eq by auto
      next
        case over: False
        then show ?thesis using rest cost unfolding eq by simp
      qed
    next
      case full: False
      then show ?thesis unfolding modbus_chunk_def Let_def pre ok_or.simps and_then.simps using pre(3) False cost
        by (auto simp: at_start_def issue_eq [OF lim])
    qed
  qed
qed

definition stream_cost :: "bool \<Rightarrow> modbus_role \<Rightarrow> stream_chunk list \<Rightarrow> nat" where
  "stream_cost anchored role chunks = sum_list (map (chunk_cost anchored role) chunks)"

lemma chunks_eq:
  assumes lim: "roomy limits" and ch: "\<forall>chunk \<in> set chunks. readable chunk" and u: "used out \<le> max_protocol_messages limits"
  shows "if used out + stream_cost anchored role chunks \<le> max_protocol_messages limits
    then \<exists>reports. for_each (modbus_chunk anchored role limits) out chunks
        = Ok (grown out (concat (map fst reports)) (concat (map snd reports)))
      \<and> list_all2 (chunk_report anchored role) chunks reports
    else for_each (modbus_chunk anchored role limits) out chunks = Err (error_limit ''modbus_messages'')"
  using ch u
proof (induction chunks arbitrary: out)
  case Nil
  then show ?case by (simp add: stream_cost_def)
next
  case (Cons chunk chunks)
  have readable: "readable chunk" using Cons.prems(1) by simp
  note one = chunk_eq [OF lim readable Cons.prems(2), of anchored role]
  have cost: "stream_cost anchored role (chunk # chunks) = chunk_cost anchored role chunk + stream_cost anchored role chunks"
    by (simp add: stream_cost_def)
  show ?case
  proof (cases "used out + chunk_cost anchored role chunk \<le> max_protocol_messages limits")
    case False
    then show ?thesis using one cost by simp
  next
    case True
    with one obtain ms iss where r: "modbus_chunk anchored role limits out chunk = Ok (grown out ms iss)" "chunk_report anchored role chunk (ms, iss)"
      by auto
    have len: "length ms + length iss = chunk_cost anchored role chunk"
    proof -
      have "length (place off as) = length as" for off as by (induction as arbitrary: off) simp_all
      then show ?thesis using r(2) unfolding chunk_report_def chunk_cost_def
        by (metis (mono_tags, lifting) case_prod_conv length_map)
    qed
    then have u': "used (grown out ms iss) = used out + chunk_cost anchored role chunk" by simp
    have fold: "for_each (modbus_chunk anchored role limits) out (chunk # chunks) = for_each (modbus_chunk anchored role limits) (grown out ms iss) chunks"
      by (simp add: r(1))
    have "used (grown out ms iss) \<le> max_protocol_messages limits" using u' True by simp
    then have ih: "if used (grown out ms iss) + stream_cost anchored role chunks \<le> max_protocol_messages limits
      then \<exists>reports. for_each (modbus_chunk anchored role limits) (grown out ms iss) chunks
          = Ok (grown (grown out ms iss) (concat (map fst reports)) (concat (map snd reports)))
        \<and> list_all2 (chunk_report anchored role) chunks reports
      else for_each (modbus_chunk anchored role limits) (grown out ms iss) chunks = Err (error_limit ''modbus_messages'')"
      using Cons.IH [of "grown out ms iss"] Cons.prems(1) by simp
    show ?thesis
    proof (cases "used out + stream_cost anchored role (chunk # chunks) \<le> max_protocol_messages limits")
      case fits: True
      then have "used (grown out ms iss) + stream_cost anchored role chunks \<le> max_protocol_messages limits" using u' cost by simp
      with ih obtain reports where q: "for_each (modbus_chunk anchored role limits) (grown out ms iss) chunks
          = Ok (grown (grown out ms iss) (concat (map fst reports)) (concat (map snd reports)))"
        "list_all2 (chunk_report anchored role) chunks reports" by auto
      show ?thesis using fits q r(2) unfolding fold by (auto intro!: exI [of _ "(ms, iss) # reports"])
    next
      case False
      then have "\<not> used (grown out ms iss) + stream_cost anchored role chunks \<le> max_protocol_messages limits" using u' cost by simp
      then show ?thesis using ih False unfolding fold by simp
    qed
  qed
qed

text \<open>A sample: a request to read a register, and an octet behind it.\<close>

definition sample_adu :: bytes where
  "sample_adu = [0, 1, 0, 0, 0, 6, 1, 3, 0, 0, 0, 1]"

definition sample_modbus :: stream_result where
  "sample_modbus = \<lparr>sr_base = Some 1000, sr_anchored = True,
     sr_chunks = [\<lparr>ch_offset = 0, ch_bytes = from_packet (sample_adu @ [7]) (PacketId [] 1 24) 54\<rparr>],
     sr_gaps = [], sr_conflicts = [], sr_duplicates = 0\<rparr>"

lemma sample_adu_len: "adu_len (sample_adu @ [7]) = Some 12" "adu_len [7] = None"
  by (simp_all add: adu_len_def sample_adu_def word16_at_def be16_word_def)

lemma sample_split: "mbap_split (sample_adu @ [7]) = ([sample_adu], [7])"
  unfolding split_some [OF sample_adu_len(1)] by (simp add: sample_adu_def split_none sample_adu_len(2))

lemma sample_cost: "stream_cost True RoleRequest (sr_chunks sample_modbus) \<le> 4"
  by (simp add: stream_cost_def sample_modbus_def chunk_cost_def chunk_issues_def walk_issues_def sample_split adu_issues_def at_start_def)

text \<open>
  C13: Decoding a Modbus stream is the reference framing.  If the messages and issues of all chunks fit
  the budget, the decoder returns exactly them, in order: for each chunk the ADUs that the reference
  splitting finds, each at its stream offset, with the fields its octets carry and every byte traced to
  its packet, an issue for every unsupported function and ill-formed PDU, and one issue for the bytes
  behind the last complete ADU, of the kind those bytes call for.  If they do not fit, it returns the
  error for that budget.\<close>

theorem modbus_decode_is_reference_framing:
  assumes "limits_validate limits = Ok ()" and "roomy limits" and "\<forall>chunk \<in> set (sr_chunks stream). readable chunk"
  shows "if stream_cost (sr_anchored stream) role (sr_chunks stream) \<le> max_protocol_messages limits
    then \<exists>out reports. modbus_decode stream role limits = Ok out
      \<and> mr_messages out = concat (map fst reports) \<and> mr_issues out = concat (map snd reports)
      \<and> list_all2 (chunk_report (sr_anchored stream) role) (sr_chunks stream) reports
    else modbus_decode stream role limits = Err (error_limit ''modbus_messages'')"
proof -
  have "used modbus_result_default \<le> max_protocol_messages limits" by (simp add: used_def modbus_result_default_def)
  note run = chunks_eq [OF assms(2,3) this, of "sr_anchored stream" role]
  have "used modbus_result_default = 0" by (simp add: used_def modbus_result_default_def)
  with run assms(1) show ?thesis
    by (auto simp: modbus_decode_def grown_def modbus_result_default_def split: if_split_asm)
qed

theorem modbus_decode_is_reference_framing_witness:
  "\<exists>out reports. modbus_decode sample_modbus RoleRequest limits_default = Ok out \<and> mr_messages out = concat (map fst reports)
    \<and> list_all2 (chunk_report True RoleRequest) (sr_chunks sample_modbus) reports"
proof -
  have "\<forall>chunk \<in> set (sr_chunks sample_modbus). readable chunk"
    by (simp add: sample_modbus_def readable_def inside_def from_packet_valid in_i64_def ev_len_def sample_adu_def usize_limit_def)
  moreover have "roomy limits_default" by (simp add: roomy_def usize_limit_def)
  moreover have "stream_cost (sr_anchored sample_modbus) RoleRequest (sr_chunks sample_modbus) \<le> max_protocol_messages limits_default"
    using sample_cost by (simp add: sample_modbus_def)
  ultimately show ?thesis
    using modbus_decode_is_reference_framing [of limits_default sample_modbus RoleRequest] by (auto simp: sample_modbus_def)
qed

section \<open>Responses\<close>

lemma quantity_True:
  "quantity pdu mx = Ok True \<longleftrightarrow> 5 \<le> length pdu \<and> 1 \<le> unat (word16_at Big pdu 3) \<and> unat (word16_at Big pdu 3) \<le> mx
     \<and> unat (word16_at Big pdu 1) + unat (word16_at Big pdu 3) \<le> 65536"
  by (cases "length pdu < 5") (simp_all add: quantity_def)

lemma metadata_decided: "decided (metadata_agrees m)"
  unfolding metadata_agrees_def Let_def by (auto intro!: decided_and_also)

lemma answer_decided: "decided (answer_matches f req rsp)"
  unfolding answer_matches_def by (auto intro!: decided_and_also)

text \<open>A response never makes the comparison panic, whatever its public fields claim.\<close>

lemma response_matches_decided: "decided (response_matches request response)"
proof -
  have body: "decided (if length req < 8 \<or> length rsp < 8 then Ok False
       else and_then (and_then (range_from req 7) (\<lambda>pdu. pdu_shape pdu RoleRequest)) (\<lambda>c.
         and_then (if c then and_then (range_from rsp 7) (\<lambda>pdu. pdu_shape pdu RoleResponse) else Ok False) (\<lambda>d.
         if \<not> d then Ok False else if mm_function response AND 0x80 \<noteq> 0 then Ok True
         else answer_matches (mm_function request) req rsp)))" for req rsp
    using answer_decided by (auto simp: pdu_shape_eq)
  show ?thesis unfolding response_matches_def Let_def
    by (intro decided_if decided_Ok decided_bind metadata_decided body)
qed

text \<open>
  What the octets of a response say about the request: the same transaction and unit, and either an
  exception for the requested function or an answer of the size that was asked for.
\<close>

definition answers :: "bytes \<Rightarrow> bytes \<Rightarrow> bool" where
  "answers q r \<longleftrightarrow> word16_at Big q 0 = word16_at Big r 0 \<and> q ! 6 = r ! 6
     \<and> (if r ! 7 AND 0x80 \<noteq> 0
        then r ! 7 AND 0x7f = q ! 7 \<and> length r = 9 \<and> r ! 8 \<in> {1, 2, 3, 4, 5, 6, 8, 10, 11}
        else r ! 7 = q ! 7 \<and> (let n = unat (word16_at Big q 10) in
          if q ! 7 \<in> {1, 2}
          then 1 \<le> n \<and> n \<le> 2000 \<and> length r = 9 + div_ceil n 8
            \<and> (\<forall>i. n \<le> i \<and> i < 8 * (length r - 9) \<longrightarrow> \<not> bit (r ! (9 + i div 8)) (i mod 8))
          else if q ! 7 \<in> {3, 4} then 1 \<le> n \<and> n \<le> 125 \<and> length r = 9 + 2 * n
          else sub_list q 8 12 = sub_list r 8 12))"

lemma and_also_True: "and_also c r = Ok True \<longleftrightarrow> c \<and> r = Ok True"
  by (simp add: and_also_def)

lemma octet_split: "x AND 0x80 = 0 \<Longrightarrow> x AND 0x7f = x" for x :: u8
proof -
  assume "x AND 0x80 = 0"
  moreover have "x = x AND - 1" by simp
  moreover have "- 1 = (0x80 OR 0x7f :: u8)" by simp
  ultimately have "x = x AND (0x80 OR 0x7f)" "x AND 0x80 = 0" by (simp_all only:)
  then have "x = (x AND 0x80) OR (x AND 0x7f)" by (simp only: bit.conj_disj_distrib)
  with \<open>x AND 0x80 = 0\<close> show ?thesis by simp
qed

lemma last_octet:
  fixes n i k :: nat
  assumes "k = (n + 7) div 8" and "n mod 8 \<noteq> 0" and "n \<le> i" and "i < 8 * k"
  shows "i div 8 = k - 1 \<and> n mod 8 \<le> i mod 8"
proof -
  define a b where "a = n div 8" and "b = n mod 8"
  then have n: "n = 8 * a + b" "0 < b" "b < 8" using assms(2) by simp_all
  have "(n + 7) div 8 = a + 1" by (rule div_nat_eqI) (use n in simp_all)
  then have k: "k = a + 1" using assms(1) by simp
  have "i div 8 = a" by (rule div_nat_eqI) (use n k assms(3,4) in simp_all)
  moreover have "i = 8 * (i div 8) + i mod 8" by simp
  ultimately show ?thesis using n k assms(3) b_def by linarith
qed

lemma padding_bits:
  assumes "padding_is_zero q bits" and "unat q \<le> i" and "i < 8 * length bits"
  shows "\<not> bit (bits ! (i div 8)) (i mod 8)"
proof -
  have len: "length bits = (unat q + 7) div 8" "q \<noteq> 0"
    and pad: "unat q mod 8 = 0 \<or> last bits AND push_bit (unat q mod 8) 0xff = 0"
    using assms(1) by (auto simp: padding_is_zero_def div_ceil_def Let_def split: if_split_asm)
  show ?thesis
  proof (cases "unat q mod 8 = 0")
    case True
    then have "8 * length bits = unat q" using len(1) by auto
    then show ?thesis using assms(2,3) by simp
  next
    case False
    have i: "i div 8 = length bits - 1" "unat q mod 8 \<le> i mod 8" using last_octet [OF len(1) False assms(2,3)] by simp_all
    have "bits \<noteq> []" using assms(3) by auto
    then have "bits ! (i div 8) = last bits" using i(1) by (simp add: last_conv_nth)
    moreover have ones: "(0xff :: u8) = - 1" by simp
    have "bit (push_bit (unat q mod 8) (0xff :: u8)) (i mod 8)"
      unfolding ones bit_push_bit_iff using i(2) by (simp add: less_imp_diff_less)
    then have "\<not> bit (last bits) (i mod 8)" using pad False by (metis bit_0_eq bit_and_iff bot_apply bot_bool_def)
    ultimately show ?thesis by simp
  qed
qed

lemma metadata_True:
  assumes "metadata_agrees m = Ok True"
  shows "8 \<le> length (ev_data (mm_raw m))" "mm_transaction m = word16_at Big (ev_data (mm_raw m)) 0"
    "mm_unit m = ev_data (mm_raw m) ! 6" "mm_function m = ev_data (mm_raw m) ! 7"
proof -
  show len: "8 \<le> length (ev_data (mm_raw m))"
    using assms by (auto simp: metadata_agrees_def and_also_True Let_def)
  have i: "index_at (ev_data (mm_raw m)) 6 = (Ok (ev_data (mm_raw m) ! 6) :: u8 result)"
    "index_at (ev_data (mm_raw m)) 7 = (Ok (ev_data (mm_raw m) ! 7) :: u8 result)" using len by simp_all
  show "mm_transaction m = word16_at Big (ev_data (mm_raw m)) 0" "mm_unit m = ev_data (mm_raw m) ! 6" "mm_function m = ev_data (mm_raw m) ! 7"
    using assms len unfolding metadata_agrees_def Let_def i by (simp_all add: and_also_True)
qed

lemma response_matches_True:
  assumes "response_matches request response = Ok True"
  shows "mm_function request \<in> {1, 2, 3, 4, 5, 6, 15, 16}" "mm_transaction request = mm_transaction response"
    "mm_unit request = mm_unit response" "mm_function request = mm_function response AND 0x7f"
    "metadata_agrees request = Ok True" "metadata_agrees response = Ok True"
    "shape_of (drop 7 (ev_data (mm_raw request))) RoleRequest" "shape_of (drop 7 (ev_data (mm_raw response))) RoleResponse"
    "mm_function response AND 0x80 = 0 \<Longrightarrow>
       answer_matches (mm_function request) (ev_data (mm_raw request)) (ev_data (mm_raw response)) = Ok True"
  using assms unfolding response_matches_def Let_def
  by (auto simp: pdu_shape_eq elim!: and_then_OkE split: if_split_asm)

lemma exception_True:
  assumes "shape_of pdu RoleResponse" and "pdu ! 0 AND 0x80 \<noteq> 0"
  shows "length pdu = 2" "pdu ! 1 \<in> {1, 2, 3, 4, 5, 6, 8, 10, 11}"
proof -
  have "exception_shape pdu RoleResponse = Ok True"
    using assms by (auto simp: shape_of_def pdu_shape.simps [of pdu] split: list.split_asm if_split_asm)
  then show "length pdu = 2" "pdu ! 1 \<in> {1, 2, 3, 4, 5, 6, 8, 10, 11}"
    by (auto simp: exception_shape_def and_also_True index_at_def)
qed

lemma function_True:
  assumes "shape_of pdu role" and "pdu ! 0 AND 0x80 = 0" and "role \<noteq> RoleUnknown"
  shows "pdu \<noteq> []" "function_shape (pdu ! 0) pdu role = Ok True"
  using assms by (auto simp: shape_of_def pdu_shape.simps [of pdu] split: list.split_asm if_split_asm)

lemma read_response_True:
  "read_response_shape pdu least pairs = Ok True \<Longrightarrow> 2 \<le> least \<Longrightarrow> length pdu = 2 + unat (pdu ! 1)"
  by (auto simp: read_response_shape_def and_also_True index_at_def usub_def elim!: and_then_OkE split: if_split_asm)

lemma answer_True:
  assumes a: "answer_matches (q ! 7) q r = Ok True" and f: "q ! 7 \<in> {1, 2, 3, 4, 5, 6, 15, 16}" "r ! 7 = q ! 7" "8 \<le> length q" "8 \<le> length r"
    and sq: "function_shape (q ! 7) (drop 7 q) RoleRequest = Ok True" and sr: "function_shape (q ! 7) (drop 7 r) RoleResponse = Ok True"
  shows "let n = unat (word16_at Big q 10) in
          if q ! 7 \<in> {1, 2}
          then 1 \<le> n \<and> n \<le> 2000 \<and> length r = 9 + div_ceil n 8
            \<and> (\<forall>i. n \<le> i \<and> i < 8 * (length r - 9) \<longrightarrow> \<not> bit (r ! (9 + i div 8)) (i mod 8))
          else if q ! 7 \<in> {3, 4} then 1 \<le> n \<and> n \<le> 125 \<and> length r = 9 + 2 * n
          else sub_list q 8 12 = sub_list r 8 12"
proof -
  have w: "word16_at Big (drop 7 q) 3 = word16_at Big q 10" if "length q = 12" using that by (simp add: word16_at_def)
  consider (bits) "q ! 7 \<in> {1, 2}" | (regs) "q ! 7 \<in> {3, 4}" | (echo) "q ! 7 \<in> {5, 6, 15, 16}" using f(1) by blast
  then show ?thesis
  proof cases
    case bits
    have q: "and_also (length (drop 7 q) = 5) (quantity (drop 7 q) 2000) = Ok True" and r: "read_response_shape (drop 7 r) 3 False = Ok True"
      using bits sq sr by (auto simp: function_shape_def)
    have lq: "length q = 12" using q f(3) by (auto simp: and_also_True)
    have n: "1 \<le> unat (word16_at Big q 10)" "unat (word16_at Big q 10) \<le> 2000" using q w [OF lq] by (simp_all add: and_also_True quantity_True)
    have lr: "length r = 9 + unat (r ! 8)" using read_response_True [OF r] f(4) by simp
    then have i: "index_at r 8 = (Ok (r ! 8) :: u8 result)" "range_from r 9 = (Ok (drop 9 r) :: bytes result)" by simp_all
    have m: "unat (r ! 8) = div_ceil (unat (word16_at Big q 10)) 8" "padding_is_zero (word16_at Big q 10) (drop 9 r)"
      using a bits lq lr by (auto simp: answer_matches_def i and_also_True)
    have "\<not> bit (r ! (9 + k div 8)) (k mod 8)" if "unat (word16_at Big q 10) \<le> k" "k < 8 * (length r - 9)" for k
      using padding_bits [OF m(2) that(1)] that(2) by simp
    then show ?thesis using bits n lr m(1) by (simp add: Let_def)
  next
    case regs
    have q: "and_also (length (drop 7 q) = 5) (quantity (drop 7 q) 125) = Ok True" and r: "read_response_shape (drop 7 r) 4 True = Ok True"
      using regs sq sr by (auto simp: function_shape_def)
    have lq: "length q = 12" using q f(3) by (auto simp: and_also_True)
    have n: "1 \<le> unat (word16_at Big q 10)" "unat (word16_at Big q 10) \<le> 125" using q w [OF lq] by (simp_all add: and_also_True quantity_True)
    have lr: "length r = 9 + unat (r ! 8)" using read_response_True [OF r] f(4) by simp
    then have "index_at r 8 = (Ok (r ! 8) :: u8 result)" by simp
    then have "unat (r ! 8) = 2 * unat (word16_at Big q 10)" using a regs lq lr by (auto simp: answer_matches_def)
    then show ?thesis using regs n lr by (auto simp: Let_def)
  next
    case echo
    then show ?thesis using a by (auto simp: answer_matches_def Let_def split: if_split_asm)
  qed
qed

text \<open>
  C14: Comparing a response with a request never panics or fails, whatever the public fields of the two
  messages claim about their bytes.  When it finds that the response matches, the octets of the response
  answer the request: same transaction and unit, and either an exception code for the requested function
  or exactly the number of data octets asked for, with every unused bit of a bit field zero, or the echo
  of the address and the value or quantity written.\<close>

theorem matching_responses_answer_their_request:
  "\<exists>b. response_matches request response = Ok b \<and> (b \<longrightarrow> answers (ev_data (mm_raw request)) (ev_data (mm_raw response)))"
proof (cases "response_matches request response = Ok True")
  case False
  then show ?thesis using response_matches_decided [of request response] by (auto simp: decided_def)
next
  case True
  let ?q = "ev_data (mm_raw request)" and ?r = "ev_data (mm_raw response)"
  note t = response_matches_True [OF True] and mq = metadata_True [OF response_matches_True(5) [OF True]]
    and mr = metadata_True [OF response_matches_True(6) [OF True]]
  have head: "drop 7 ?q ! 0 = ?q ! 7" "drop 7 ?r ! 0 = ?r ! 7" "drop 7 ?r ! 1 = ?r ! 8 \<or> length ?r = 8" using mq(1) mr(1) by auto
  have "answers ?q ?r"
  proof (cases "?r ! 7 AND 0x80 = 0")
    case ex: False
    then have "length (drop 7 ?r) = 2" "drop 7 ?r ! 1 \<in> {1, 2, 3, 4, 5, 6, 8, 10, 11}"
      using exception_True [OF t(8)] head(2) by auto
    moreover have "?r ! 7 AND 0x7f = ?q ! 7" using t(4) mq(4) mr(4) by simp
    ultimately show ?thesis using ex t(2,3) mq(2,3) mr(1-3) head(3) by (auto simp: answers_def)
  next
    case ok: True
    then have same: "?r ! 7 = ?q ! 7" using t(4) mq(4) mr(4) octet_split by simp
    have "function_shape (?q ! 7) (drop 7 ?q) RoleRequest = Ok True" "function_shape (?q ! 7) (drop 7 ?r) RoleResponse = Ok True"
      using function_True(2) [OF t(7)] function_True(2) [OF t(8)] head(1,2) ok same by auto
    moreover have "answer_matches (?q ! 7) ?q ?r = Ok True" "?q ! 7 \<in> {1, 2, 3, 4, 5, 6, 15, 16}" using t(1,9) mq(4) mr(4) ok by auto
    ultimately show ?thesis using answer_True same mq(1-3) mr(1-3) ok t(2,3) unfolding answers_def by auto
  qed
  then show ?thesis using True by auto
qed

definition sample_message :: "bytes \<Rightarrow> modbus_role \<Rightarrow> modbus_message" where
  "sample_message b role = \<lparr>mm_stream_offset = 0, mm_transaction = 1, mm_unit = 1, mm_function = 3, mm_role = role,
     mm_shape_valid = True, mm_supported = True, mm_verified = True, mm_raw = from_packet b (PacketId [] 1 24) 54\<rparr>"

definition sample_reply :: bytes where
  "sample_reply = [0, 1, 0, 0, 0, 5, 1, 3, 2, 0, 9]"

lemma sample_metadata:
  "metadata_agrees (sample_message sample_adu RoleRequest) = Ok True" "metadata_agrees (sample_message sample_reply RoleResponse) = Ok True"
  by (simp_all add: metadata_agrees_def sample_message_def sample_adu_def sample_reply_def and_also_def word16_at_def be16_word_def)

lemma sample_shapes:
  "pdu_shape [3, 0, 0, 0, 1] RoleRequest = Ok True" "pdu_shape [3, 2, 0, 9] RoleResponse = Ok True"
  by (simp_all add: pdu_shape.simps function_shape_def quantity_def read_response_shape_def and_also_def word16_at_def be16_word_def)

theorem matching_responses_answer_their_request_witness:
  "response_matches (sample_message sample_adu RoleRequest) (sample_message sample_reply RoleResponse) = Ok True
    \<and> answers sample_adu sample_reply"
proof -
  have "response_matches (sample_message sample_adu RoleRequest) (sample_message sample_reply RoleResponse) = Ok True"
    unfolding response_matches_def sample_metadata
    by (simp add: sample_message_def sample_adu_def sample_reply_def from_packet_valid usize_limit_def sample_shapes
        answer_matches_def word16_at_def be16_word_def)
  then show ?thesis
    using matching_responses_answer_their_request [of "sample_message sample_adu RoleRequest" "sample_message sample_reply RoleResponse"]
    by (auto simp: sample_message_def)
qed

end
