(* ===== verification/Protocols.thy ===== *)
theory Protocols
  imports Stream_Decoder Dnp3_Runs Modbus_Correct
begin

text \<open>
  The two stream decoders provide the interface of \<^verbatim>\<open>Stream_Decoder\<close>: the DNP3 decoder with its frames and
  rejected ranges, the Modbus decoder, for each role, with its messages.
\<close>

section \<open>DNP3\<close>

definition dnp3_items :: "dnp3_result \<Rightarrow> (int \<times> evidence) list" where
  "dnp3_items out = map (\<lambda>f. (lf_stream_offset f, lf_raw f)) (dr_frames out) @ map (\<lambda>r. (rl_stream_offset r, rl_raw r)) (dr_rejected out)"

lemma slice_length:
  "ev_validate b \<Longrightarrow> ev_validate e \<Longrightarrow> p + n \<le> ev_len b \<Longrightarrow> ev_trace e = sub_list (ev_trace b) p (p + n) \<Longrightarrow> ev_len e = n"
  by (simp add: ev_len_trace)

lemma decoded_chunks_valid:
  assumes "dnp3_decode stream limits = Ok out" and "chunk \<in> set (sr_chunks stream)"
  shows "ev_validate (ch_bytes chunk)"
proof -
  have "for_each (dnp3_chunk limits) acc chunks = Ok acc' \<Longrightarrow> \<forall>c \<in> set chunks. ev_validate (ch_bytes c)" for acc acc' chunks
    by (induction chunks arbitrary: acc) (auto simp: dnp3_chunk_def Let_def elim!: and_then_OkE split: if_split_asm)
  then show ?thesis using assms by (auto simp: dnp3_decode_def elim!: and_then_OkE)
qed

interpretation dnp3: stream_decoder dnp3_decode dnp3_items
proof
  fix stream limits
  assume "i64_chunks stream"
  then show "dnp3_decode stream limits \<noteq> Panic"
    using decode_yields [of stream limits] by (auto simp: i64_chunks_def yields_iff)
next
  fix stream limits out off e
  assume i: "i64_chunks stream" and o: "dnp3_decode stream limits = Ok out" and e: "(off, e) \<in> set (dnp3_items out)"
  have ok: "out_ok (sr_chunks stream) limits out"
    using yields_OkD [OF decode_yields o] i by (simp add: i64_chunks_def)
  from e consider f where "f \<in> set (dr_frames out)" "off = lf_stream_offset f" "e = lf_raw f"
    | r where "r \<in> set (dr_rejected out)" "off = rl_stream_offset r" "e = rl_raw r"
    by (auto simp: dnp3_items_def)
  then obtain chunk p n where c: "chunk \<in> set (sr_chunks stream)" "off = ch_offset chunk + int p" "ev_validate e"
    "p + n \<le> ev_len (ch_bytes chunk)" "ev_trace e = sub_list (ev_trace (ch_bytes chunk)) p (p + n)"
  proof cases
    case (1 f)
    then obtain chunk p n where "chunk \<in> set (sr_chunks stream)" "link_ok (ch_bytes chunk) p (ch_offset chunk) f n"
      using ok by (auto simp: out_ok_def frame_ok_def)
    with 1 that show ?thesis unfolding link_ok_def Let_def ev_len_def by blast
  next
    case (2 r)
    then have "range_ok (sr_chunks stream) r" using ok by (simp add: out_ok_def)
    with 2 that show ?thesis unfolding range_ok_def by blast
  qed
  have "ev_len e = n" using slice_length [OF decoded_chunks_valid [OF o c(1)] c(3-5)] .
  then show "chunk_slice (sr_chunks stream) off e" using c unfolding chunk_slice_def by blast
qed

section \<open>Modbus\<close>

definition modbus_items :: "modbus_result \<Rightarrow> (int \<times> evidence) list" where
  "modbus_items out = map (\<lambda>m. (mm_stream_offset m, mm_raw m)) (mr_messages out)"

definition items_ok :: "stream_chunk list \<Rightarrow> modbus_result \<Rightarrow> bool" where
  "items_ok C out \<longleftrightarrow> (\<forall>m \<in> set (mr_messages out). chunk_slice C (mm_stream_offset m) (mm_raw m))"

lemma modbus_capacity_yields: "yields (modbus_capacity out n limits) (\<lambda>_. True)"
  by (auto simp: modbus_capacity_def yields_bind)

lemma modbus_issue_yields: "items_ok C out \<Longrightarrow> yields (modbus_issue out code bytes at limits) (items_ok C)"
  unfolding modbus_issue_def by (rule yields_and_then [OF modbus_capacity_yields]) (simp add: items_ok_def)

lemma items_ok_add:
  "items_ok C out \<Longrightarrow> chunk_slice C (mm_stream_offset m) (mm_raw m) \<Longrightarrow> items_ok C (out\<lparr>mr_messages := mr_messages out @ [m]\<rparr>)"
  by (simp add: items_ok_def)

lemma modbus_stop_yields:
  assumes "items_ok C out" and "inside chunk p"
  shows "yields (modbus_stop code limits chunk p at out) (\<lambda>r. items_ok C (fst r) \<and> snd r = None)"
  unfolding modbus_stop_def using assms
  by (auto simp: inside_def yields_bind intro!: yields_mono [OF ev_slice_yields] yields_mono [OF modbus_issue_yields])

lemma modbus_adu_yields:
  assumes out: "items_ok C out" and ch: "inside chunk p" "chunk \<in> set C" "at = ch_offset chunk + int p"
    and b: "bytes = drop p (ev_data (ch_bytes chunk))" "8 \<le> n" "n \<le> length bytes"
  shows "yields (modbus_adu limits role verified chunk p at bytes n out) (\<lambda>r. items_ok C (fst r) \<and> snd r = Some (p + n))"
proof -
  have pn: "p + n \<le> ev_len (ch_bytes chunk)" "ev_validate (ch_bytes chunk)" using b ch by (auto simp: ev_len_def inside_def)
  have r: "range_at bytes 7 n = (Ok (sub_list bytes 7 n) :: bytes result)" "index_at bytes 7 = (Ok (bytes ! 7) :: u8 result)"
    "index_at bytes 6 = (Ok (bytes ! 6) :: u8 result)" "mb16_at bytes 0 = Ok (word16_at Big bytes 0)"
    using b(2,3) by simp_all
  have cut: "yields (ev_slice (ch_bytes chunk) p (p + n)) (\<lambda>raw. chunk_slice C at raw)"
  proof (rule yields_mono [OF ev_slice_yields [OF pn(2) _ pn(1)]])
    fix raw
    assume raw: "ev_validate raw \<and> ev_trace raw = sub_list (ev_trace (ch_bytes chunk)) p (p + n)"
    have "ev_len raw = n" using slice_length [OF pn(2) _ pn(1)] raw by blast
    then show "chunk_slice C at raw" using raw ch(2,3) pn(1) unfolding chunk_slice_def by blast
  qed simp
  show ?thesis unfolding modbus_adu_def r and_then.simps pdu_shape_eq Let_def
    using out
    by (intro yields_and_then [OF modbus_capacity_yields] yields_and_then [OF cut] yields_and_then [where P = "items_ok C"])
      (auto intro: modbus_issue_yields items_ok_add)
qed

lemma modbus_step_yields:
  assumes out: "items_ok C out" and ch: "inside chunk p" "chunk \<in> set C" and p: "p < ev_len (ch_bytes chunk)"
  shows "yields (modbus_step limits role verified chunk p out) (\<lambda>r. items_ok C (fst r) \<and> (\<forall>q. snd r = Some q \<longrightarrow> q \<le> ev_len (ch_bytes chunk)))"
proof -
  define b where "b = drop p (ev_data (ch_bytes chunk))"
  have r: "range_from (ev_data (ch_bytes chunk)) p = (Ok b :: bytes result)" using p by (simp add: b_def ev_len_def)
  have stop: "yields (modbus_stop code limits chunk p at out) (\<lambda>r. items_ok C (fst r) \<and> (\<forall>q. snd r = Some q \<longrightarrow> q \<le> ev_len (ch_bytes chunk)))" for code at
    by (rule yields_mono [OF modbus_stop_yields [OF out ch(1)]]) simp
  have adu: "yields (modbus_adu limits role verified chunk p (ch_offset chunk + int p) b n out)
      (\<lambda>r. items_ok C (fst r) \<and> (\<forall>q. snd r = Some q \<longrightarrow> q \<le> ev_len (ch_bytes chunk)))" if "8 \<le> n" "n \<le> length b" for n
    using that p by (intro yields_mono [OF modbus_adu_yields [OF out ch refl b_def]]) (auto simp: b_def ev_len_def)
  show ?thesis
  proof (cases "length b < 7")
    case True
    then show ?thesis unfolding modbus_step_def r and_then.simps inside_offset [OF ch(1)] using stop by simp
  next
    case False
    then have w: "mb16_at b 4 = Ok (word16_at Big b 4)" "mb16_at b 2 = Ok (word16_at Big b 2)" by simp_all
    show ?thesis unfolding modbus_step_def r and_then.simps inside_offset [OF ch(1)] w Let_def using False stop adu by auto
  qed
qed

lemma modbus_loop_yields:
  assumes "items_ok C out" and "inside chunk p" and "chunk \<in> set C"
  shows "yields (modbus_loop limits role verified chunk p out) (items_ok C)"
  using assms
proof (induction limits role verified chunk p out rule: modbus_loop.induct)
  case (1 limits role verified chunk p out)
  note unfold = modbus_loop.simps [of limits role verified chunk p out]
  show ?case
  proof (cases "p < ev_len (ch_bytes chunk)")
    case True
    note step = modbus_step_yields [OF "1.prems" True, of limits role verified]
    show ?thesis
    proof (cases "modbus_step limits role verified chunk p out")
      case (Ok r)
      then have r: "items_ok C (fst r)" "\<And>q. snd r = Some q \<Longrightarrow> inside chunk q" using step "1.prems"(2) by (simp_all add: inside_def)
      show ?thesis
      proof (cases "snd r")
        case None
        then show ?thesis unfolding unfold using True Ok r by simp
      next
        case (Some q)
        show ?thesis unfolding unfold using True Ok Some "1.IH" [OF True Ok Some r(1) r(2) [OF Some] "1.prems"(3)] by simp
      qed
    next
      case (Err e)
      then show ?thesis unfolding unfold using True by simp
    next
      case Panic
      then show ?thesis using step by simp
    qed
  next
    case False
    then show ?thesis unfolding unfold using "1.prems" by simp
  qed
qed

lemma modbus_decode_yields:
  assumes "i64_chunks stream"
  shows "yields (modbus_decode stream role limits) (items_ok (sr_chunks stream))"
proof -
  have "yields (modbus_chunk anchored role limits out chunk) (items_ok C)"
    if out: "items_ok C out" and ch: "chunk \<in> set C" "in_i64 (ch_offset chunk)" for anchored out chunk C
  proof (cases "ev_len (ch_bytes chunk) < 2 ^ 63 \<and> in_i64 (ch_offset chunk + int (ev_len (ch_bytes chunk))) \<and> ev_validate (ch_bytes chunk)")
    case True
    then have z: "inside chunk 0" using ch by (simp add: inside_def)
    show ?thesis unfolding modbus_chunk_def Let_def
      using True out by (auto simp: i64_of_usize_def checked_add_i64_def
        intro!: yields_and_then [OF modbus_issue_yields [OF out]] modbus_loop_yields [OF _ z ch(1)])
  next
    case False
    then show ?thesis by (auto simp: modbus_chunk_def Let_def i64_of_usize_def checked_add_i64_def yields_bind)
  qed
  then have "yields (for_each (modbus_chunk (sr_anchored stream) role limits) modbus_result_default (sr_chunks stream)) (items_ok (sr_chunks stream))"
    using assms by (intro yields_for_each) (auto simp: items_ok_def modbus_result_default_def i64_chunks_def)
  then show ?thesis unfolding modbus_decode_def by (cases "limits_validate limits") auto
qed

interpretation modbus: stream_decoder "\<lambda>stream limits. modbus_decode stream role limits" modbus_items for role
proof
  fix stream limits
  assume i: "i64_chunks stream"
  show "modbus_decode stream role limits \<noteq> Panic" using modbus_decode_yields [OF i] by (auto simp: yields_iff)
  fix r off e
  assume "modbus_decode stream role limits = Ok r" "(off, e) \<in> set (modbus_items r)"
  then show "chunk_slice (sr_chunks stream) off e"
    using yields_OkD [OF modbus_decode_yields [OF i]] by (auto simp: items_ok_def modbus_items_def)
qed

end
