(* ===== verification/Tcp_Tracker.thy ===== *)
theory Tcp_Tracker
  imports Tcp_Stream_Runs "HOL-Library.Char_ord"
begin

text \<open>
  \<^verbatim>\<open>src/src/tcp.rs\<close>, second half: the tracker that assigns segments to flows and generations.  The
  two-element arrays indexed by direction are pairs.  \<^verbatim>\<open>ingest\<close> returns the new state beside its result.
\<close>

section \<open>State\<close>

datatype flow_key = FlowKey (flow_scope: scope) (flow_a: endpoint) (flow_b: endpoint)

instantiation flow_key :: linorder
begin

definition flow_key_tuple :: "flow_key \<Rightarrow> scope \<times> endpoint \<times> endpoint" where
  "flow_key_tuple k = (flow_scope k, flow_a k, flow_b k)"

definition less_eq_flow_key :: "flow_key \<Rightarrow> flow_key \<Rightarrow> bool" where
  "a \<le> b \<longleftrightarrow> flow_key_tuple a \<le> flow_key_tuple b"

definition less_flow_key :: "flow_key \<Rightarrow> flow_key \<Rightarrow> bool" where
  "a < b \<longleftrightarrow> flow_key_tuple a < flow_key_tuple b"

lemma flow_key_tuple_inj: "flow_key_tuple a = flow_key_tuple b \<longleftrightarrow> a = b"
  by (cases a; cases b) (simp add: flow_key_tuple_def)

instance
  by standard
    (auto simp: less_eq_flow_key_def less_flow_key_def flow_key_tuple_inj less_le_not_le
      simp flip: flow_key_tuple_inj)

end

definition flow_key_new :: "scope \<Rightarrow> endpoint \<Rightarrow> endpoint \<Rightarrow> flow_key \<times> nat" where
  "flow_key_new sc source destination =
     (if source \<le> destination then (FlowKey sc source destination, 0)
      else (FlowKey sc destination source, 1))"

text \<open>An array with an entry per direction.\<close>

definition arr_get :: "'a \<times> 'a \<Rightarrow> nat \<Rightarrow> 'a" where
  "arr_get p d = (if d = 0 then fst p else snd p)"

definition arr_set :: "'a \<times> 'a \<Rightarrow> nat \<Rightarrow> 'a \<Rightarrow> 'a \<times> 'a" where
  "arr_set p d x = (if d = 0 then (x, snd p) else (fst p, x))"

record flow =
  fl_id :: nat
  fl_generation :: nat
  fl_key :: flow_key
  fl_syn :: "u32 option \<times> u32 option"
  fl_anchors :: "u32 option \<times> u32 option"
  fl_fin :: "bool \<times> bool"
  fl_fin_next :: "u32 option \<times> u32 option"
  fl_closed :: bool
  fl_rst_seen :: bool
  fl_has_payload :: bool
  fl_midstream :: bool
  fl_first_ns :: "int option"
  fl_last_ns :: "int option"
  fl_packets :: "packet_id list"
  fl_inputs :: "(nat \<times> tcp_segment) list"
  fl_anomalies :: "string list"

record flow_result =
  fo_id :: nat
  fo_generation :: nat
  fo_key :: flow_key
  fo_syn :: "u32 option \<times> u32 option"
  fo_closed :: bool
  fo_midstream :: bool
  fo_first_ns :: "int option"
  fo_last_ns :: "int option"
  fo_packets :: "packet_id list"
  fo_streams :: "stream_result option \<times> stream_result option"
  fo_errors :: "error list"
  fo_anomalies :: "string list"

datatype assignment =
    Assigned (as_flow_id: nat) (as_direction: nat)
  | Ambiguous (as_candidates: "nat list")
  | Unassigned (as_reason: string)

record tracker =
  tk_keys :: "(flow_key \<times> nat list) list"
  tk_flows :: "flow list"
  tk_retained :: nat
  tk_limits :: limits
  tk_idle :: int

definition tracker_new :: "limits \<Rightarrow> int \<Rightarrow> tracker result" where
  "tracker_new l idle =
     and_then (limits_validate l) (\<lambda>_.
       if idle \<le> 0 then Err (error_new Usage 0 ''idle_timeout'' ''must be positive'')
       else Ok \<lparr>tk_keys = [], tk_flows = [], tk_retained = 0, tk_limits = l, tk_idle = idle\<rparr>)"

definition new_flow :: "nat \<Rightarrow> nat \<Rightarrow> flow_key \<Rightarrow> bool \<Rightarrow> flow" where
  "new_flow i generation key midstream =
     \<lparr>fl_id = i, fl_generation = generation, fl_key = key, fl_syn = (None, None), fl_anchors = (None, None),
      fl_fin = (False, False), fl_fin_next = (None, None), fl_closed = False, fl_rst_seen = False,
      fl_has_payload = False, fl_midstream = midstream, fl_first_ns = None, fl_last_ns = None,
      fl_packets = [], fl_inputs = [], fl_anomalies = []\<rparr>"

definition history :: "tracker \<Rightarrow> flow_key \<Rightarrow> nat list" where
  "history t key = or_else (bt_get (tk_keys t) key) []"

definition tracker_create :: "tracker \<Rightarrow> flow_key \<Rightarrow> bool \<Rightarrow> (tracker \<times> nat) result" where
  "tracker_create t key midstream =
     (if length (tk_flows t) \<ge> max_flows (tk_limits t) then Err (error_limit ''flows'')
      else
        let i = length (tk_flows t);
            generation = (case bt_get (tk_keys t) key of None \<Rightarrow> 1 | Some ids \<Rightarrow> length ids + 1)
        in Ok (t\<lparr>tk_keys := bt_put key (history t key @ [i]) (tk_keys t),
                 tk_flows := tk_flows t @ [new_flow i generation key midstream]\<rparr>, i))"

section \<open>Tests on a flow\<close>

text \<open>\<^verbatim>\<open>saturating_sub\<close> on \<^verbatim>\<open>i128\<close>.\<close>

definition saturating_sub_i128 :: "int \<Rightarrow> int \<Rightarrow> int" where
  "saturating_sub_i128 a b = max (- (2 ^ 127)) (min (2 ^ 127 - 1) (a - b))"

definition expired :: "tracker \<Rightarrow> flow \<Rightarrow> int option \<Rightarrow> bool" where
  "expired t f at =
     (case (at, fl_last_ns f) of
        (Some now, Some last_seen) \<Rightarrow> saturating_sub_i128 now last_seen > tk_idle t
      | _ \<Rightarrow> False)"

definition active_at :: "tracker \<Rightarrow> flow \<Rightarrow> int option \<Rightarrow> bool" where
  "active_at t f at =
     (case (at, fl_last_ns f) of
        (Some now, Some last_seen) \<Rightarrow> saturating_sub_i128 now last_seen \<le> tk_idle t
      | _ \<Rightarrow> True)"

definition near :: "tracker \<Rightarrow> u32 \<Rightarrow> u32 \<Rightarrow> bool" where
  "near t sequence anchor =
     (case sequence_delta sequence anchor of
        Ok d \<Rightarrow> \<bar>d\<bar> \<le> int (max_stream_span (tk_limits t))
      | _ \<Rightarrow> False)"

definition plausible :: "tracker \<Rightarrow> flow \<Rightarrow> nat \<Rightarrow> tcp_segment \<Rightarrow> bool" where
  "plausible t f dir seg =
     (case arr_get (fl_anchors f) dir of
        Some anchor \<Rightarrow> near t (data_sequence seg) anchor
      | None \<Rightarrow>
          if seg_ack seg then
            case arr_get (fl_anchors f) (1 - dir) of
              Some anchor \<Rightarrow> near t (seg_acknowledgement seg) anchor
            | None \<Rightarrow> True
          else True)"

definition is_final_ack :: "flow \<Rightarrow> nat \<Rightarrow> tcp_segment \<Rightarrow> bool" where
  "is_final_ack f dir seg =
     (if fl_rst_seen f \<or> \<not> fst (fl_fin f) \<or> \<not> snd (fl_fin f) \<or> seg_syn seg \<or> seg_fin seg \<or> seg_rst seg
         \<or> \<not> seg_ack seg \<or> \<not> ev_is_empty (seg_payload seg)
      then False
      else case (arr_get (fl_fin_next f) dir, arr_get (fl_fin_next f) (1 - dir)) of
             (Some own_next, Some peer_next) \<Rightarrow>
               data_sequence seg = own_next \<and> seg_acknowledgement seg = peer_next
           | _ \<Rightarrow> False)"

section \<open>Choosing a flow\<close>

datatype flow_choice = Existing nat | Fresh bool | Decided assignment

fun find_flow :: "tracker \<Rightarrow> (flow \<Rightarrow> bool) \<Rightarrow> nat list \<Rightarrow> nat option result" where
  "find_flow t P [] = Ok None"
| "find_flow t P (i # is) =
     and_then (index_at (tk_flows t) i) (\<lambda>f. if P f then Ok (Some i) else find_flow t P is)"

definition select_syn :: "tracker \<Rightarrow> nat list \<Rightarrow> nat \<Rightarrow> int option \<Rightarrow> tcp_segment \<Rightarrow> flow_choice result" where
  "select_syn t ids dir at seg =
     and_then (find_flow t (\<lambda>f. \<not> fl_closed f \<and> active_at t f at
                              \<and> arr_get (fl_syn f) dir = Some (seg_sequence seg)) (rev ids)) (\<lambda>same_syn.
     and_then (find_flow t (\<lambda>f. \<not> fl_closed f \<and> active_at t f at \<and> \<not> fl_midstream f \<and> \<not> fl_has_payload f
                              \<and> arr_get (fl_syn f) dir = None \<and> arr_get (fl_syn f) (1 - dir) \<noteq> None)
                 (if ids = [] then [] else [last ids])) (\<lambda>simultaneous.
       Ok (case same_syn of
             Some i \<Rightarrow> Existing i
           | None \<Rightarrow> (case simultaneous of Some i \<Rightarrow> Existing i | None \<Rightarrow> Fresh False))))"

fun classify ::
    "tracker \<Rightarrow> nat \<Rightarrow> int option \<Rightarrow> tcp_segment \<Rightarrow> nat list \<Rightarrow> nat list \<times> nat list \<times> nat list
      \<Rightarrow> (nat list \<times> nat list \<times> nat list) result" where
  "classify t dir at seg [] acc = Ok acc"
| "classify t dir at seg (i # is) (candidates, closed, finals) =
     and_then (index_at (tk_flows t) i) (\<lambda>f.
       classify t dir at seg is
         (if \<not> expired t f at \<and> plausible t f dir seg then
            if fl_closed f
            then (candidates, closed @ [i], if is_final_ack f dir seg then finals @ [i] else finals)
            else (candidates @ [i], closed, finals)
          else (candidates, closed, finals)))"

fun all_flows :: "tracker \<Rightarrow> (flow \<Rightarrow> bool) \<Rightarrow> nat list \<Rightarrow> bool result" where
  "all_flows t P [] = Ok True"
| "all_flows t P (i # is) =
     and_then (index_at (tk_flows t) i) (\<lambda>f. if P f then all_flows t P is else Ok False)"

definition select_other :: "tracker \<Rightarrow> nat list \<Rightarrow> nat \<Rightarrow> int option \<Rightarrow> tcp_segment \<Rightarrow> flow_choice result" where
  "select_other t ids dir at seg =
     and_then (classify t dir at seg ids ([], [], [])) (\<lambda>(candidates, closed, finals).
       if length finals = 1 \<and> length closed = 1 \<and> candidates = [] then Ok (Existing (hd finals))
       else if closed \<noteq> [] then
         if seg_syn seg \<and> candidates = [] then Ok (Fresh True)
         else if candidates = [] then Ok (Decided (Unassigned ''closed_generation_requires_syn''))
         else Ok (Decided (Ambiguous (sort (closed @ candidates))))
       else if length candidates > 1 then Ok (Decided (Ambiguous candidates))
       else if candidates \<noteq> [] then Ok (Existing (hd candidates))
       else
         and_then (all_flows t (\<lambda>f. expired t f at) ids) (\<lambda>all_expired.
           if all_expired \<or> seg_syn seg then Ok (Fresh True)
           else Ok (Decided (Unassigned ''sequence_outside_known_generations''))))"

definition select_flow :: "tracker \<Rightarrow> flow_key \<Rightarrow> nat \<Rightarrow> int option \<Rightarrow> tcp_segment \<Rightarrow> flow_choice result" where
  "select_flow t key dir at seg =
     (let ids = history t key
      in if seg_syn seg \<and> \<not> seg_ack seg then select_syn t ids dir at seg
         else if ids = [] then Ok (Fresh True)
         else select_other t ids dir at seg)"

section \<open>Updating a flow\<close>

definition note_time :: "int option \<Rightarrow> flow \<Rightarrow> flow" where
  "note_time at f =
     (case at of
        Some now \<Rightarrow>
          let f1 = (if (case fl_last_ns f of Some last_seen \<Rightarrow> now < last_seen | None \<Rightarrow> False)
                    then f\<lparr>fl_anomalies := fl_anomalies f @ [''capture_clock_reversal'']\<rparr> else f)
          in f1\<lparr>fl_first_ns := Some (case fl_first_ns f of Some first_seen \<Rightarrow> min first_seen now | None \<Rightarrow> now),
                fl_last_ns := Some (case fl_last_ns f of Some last_seen \<Rightarrow> max last_seen now | None \<Rightarrow> now)\<rparr>
      | None \<Rightarrow> f\<lparr>fl_anomalies := fl_anomalies f @ [''packet_time_unavailable'']\<rparr>)"

definition note_fin :: "nat \<Rightarrow> tcp_segment \<Rightarrow> flow \<Rightarrow> flow" where
  "note_fin dir seg f =
     (if seg_fin seg
      then f\<lparr>fl_fin := arr_set (fl_fin f) dir True,
             fl_fin_next := arr_set (fl_fin_next f) dir
               (Some (or_else (arr_get (fl_fin_next f) dir)
                  (data_sequence seg + word_of_nat (ev_len (seg_payload seg)) + 1)))\<rparr>
      else f)"

definition flow_add :: "flow \<Rightarrow> nat \<Rightarrow> int option \<Rightarrow> packet_id list \<Rightarrow> tcp_segment \<Rightarrow> flow" where
  "flow_add f dir at packets seg =
     (let f1 = (if seg_syn seg then f\<lparr>fl_syn := arr_set (fl_syn f) dir (Some (seg_sequence seg))\<rparr> else f);
          f2 = f1\<lparr>fl_anchors := arr_set (fl_anchors f1) dir
                    (Some (or_else (arr_get (fl_anchors f1) dir) (data_sequence seg)))\<rparr>;
          f3 = note_time at f2;
          f4 = f3\<lparr>fl_has_payload := (fl_has_payload f3 \<or> \<not> ev_is_empty (seg_payload seg))\<rparr>;
          f5 = note_fin dir seg f4;
          f6 = f5\<lparr>fl_rst_seen := (fl_rst_seen f5 \<or> seg_rst seg)\<rparr>;
          f7 = f6\<lparr>fl_closed := (fl_closed f6 \<or> fl_rst_seen f6 \<or> (fst (fl_fin f6) \<and> snd (fl_fin f6)))\<rparr>
      in f7\<lparr>fl_packets := fl_packets f7 @ packets @ ev_packets (seg_payload seg),
            fl_inputs := fl_inputs f7 @ [(dir, seg)]\<rparr>)"

definition assign ::
    "tracker \<Rightarrow> nat \<Rightarrow> nat \<Rightarrow> int option \<Rightarrow> packet_id list \<Rightarrow> tcp_segment \<Rightarrow> nat \<Rightarrow> tracker \<times> assignment result" where
  "assign t i dir at packets seg retained =
     (case index_at (tk_flows t) i of
        Err e \<Rightarrow> (t, Err e)
      | Panic \<Rightarrow> (t, Panic)
      | Ok f \<Rightarrow>
          if length (fl_inputs f) \<ge> max_segments_per_flow (tk_limits t)
          then (t, Err (error_limit ''segments_per_flow''))
          else if seg_syn seg
            \<and> (case arr_get (fl_syn f) dir of Some old \<Rightarrow> old \<noteq> seg_sequence seg | None \<Rightarrow> False)
          then (t, Ok (Unassigned ''conflicting_syn_for_generation''))
          else (t\<lparr>tk_flows := (tk_flows t)[i := flow_add f dir at packets seg], tk_retained := retained\<rparr>,
                Ok (Assigned i dir)))"

definition ingest_with_packets ::
    "tracker \<Rightarrow> scope \<Rightarrow> packet_id list \<Rightarrow> int option \<Rightarrow> tcp_segment \<Rightarrow> tracker \<times> assignment result" where
  "ingest_with_packets t sc packets at seg =
     (if packets = []
      then (t, Err (error_new Invariant 0 ''tcp_evidence'' ''TCP segment requires source packets''))
      else
        case checked_add (tk_retained t) (ev_len (seg_payload seg)) of
          None \<Rightarrow> (t, Err (error_limit ''tcp_retained_payload''))
        | Some retained \<Rightarrow>
            if retained > max_retained_payload (tk_limits t)
            then (t, Err (error_limit ''tcp_retained_payload''))
            else
              let (key, dir) = flow_key_new sc (seg_source seg) (seg_destination seg)
              in case select_flow t key dir at seg of
                   Err e \<Rightarrow> (t, Err e)
                 | Panic \<Rightarrow> (t, Panic)
                 | Ok (Decided a) \<Rightarrow> (t, Ok a)
                 | Ok (Existing i) \<Rightarrow> assign t i dir at packets seg retained
                 | Ok (Fresh midstream) \<Rightarrow>
                     (case tracker_create t key midstream of
                        Err e \<Rightarrow> (t, Err e)
                      | Panic \<Rightarrow> (t, Panic)
                      | Ok (t', i) \<Rightarrow> assign t' i dir at packets seg retained))"

definition ingest ::
    "tracker \<Rightarrow> scope \<Rightarrow> packet_id \<Rightarrow> int option \<Rightarrow> tcp_segment \<Rightarrow> tracker \<times> assignment result" where
  "ingest t sc packet at seg = ingest_with_packets t sc [packet] at seg"

section \<open>Finishing\<close>

text \<open>
  The replay of a flow's inputs into its two assemblers.  A direction that fails is \<^const>\<open>None\<close> from
  then on and its error is kept.
\<close>

definition replay_input :: "stream_assembler \<Rightarrow> tcp_segment \<Rightarrow> stream_assembler result" where
  "replay_input s seg =
     and_then (stream_push s (data_sequence seg) (seg_payload seg)) (\<lambda>s'.
       if seg_fin seg then stream_end_at s' (data_sequence seg + word_of_nat (ev_len (seg_payload seg)))
       else Ok s')"

fun replay ::
    "(nat \<times> tcp_segment) list \<Rightarrow> stream_assembler option \<times> stream_assembler option \<Rightarrow> error list
      \<Rightarrow> ((stream_assembler option \<times> stream_assembler option) \<times> error list) result" where
  "replay [] streams errors = Ok (streams, errors)"
| "replay ((dir, seg) # inputs) streams errors =
     (case arr_get streams dir of
        None \<Rightarrow> replay inputs streams errors
      | Some s \<Rightarrow>
          (case replay_input s seg of
             Ok s' \<Rightarrow> replay inputs (arr_set streams dir (Some s')) errors
           | Err e \<Rightarrow> replay inputs (arr_set streams dir None) (errors @ [e])
           | Panic \<Rightarrow> Panic))"

definition finish_side ::
    "overlap_policy \<Rightarrow> stream_assembler option \<Rightarrow> error list \<Rightarrow> (stream_result option \<times> error list) result" where
  "finish_side policy side errors =
     (case side of
        None \<Rightarrow> Ok (None, errors)
      | Some s \<Rightarrow>
          (case stream_finish s policy of
             Ok x \<Rightarrow> Ok (Some x, errors)
           | Err e \<Rightarrow> Ok (None, errors @ [e])
           | Panic \<Rightarrow> Panic))"

definition finish_flow :: "limits \<Rightarrow> overlap_policy \<Rightarrow> flow \<Rightarrow> flow_result result" where
  "finish_flow l policy f =
     and_then (replay (fl_inputs f)
                 (Some (stream_new (fst (fl_syn f)) l), Some (stream_new (snd (fl_syn f)) l)) [])
       (\<lambda>((a, b), errors).
     and_then (finish_side policy a errors) (\<lambda>(first, errors1).
     and_then (finish_side policy b errors1) (\<lambda>(second, errors2).
       Ok \<lparr>fo_id = fl_id f, fo_generation = fl_generation f, fo_key = fl_key f, fo_syn = fl_syn f,
           fo_closed = fl_closed f, fo_midstream = fl_midstream f, fo_first_ns = fl_first_ns f,
           fo_last_ns = fl_last_ns f, fo_packets = sort_dedup (fl_packets f),
           fo_streams = (first, second), fo_errors = errors2,
           fo_anomalies = sort_dedup (fl_anomalies f)\<rparr>)))"

fun finish_flows :: "limits \<Rightarrow> overlap_policy \<Rightarrow> flow list \<Rightarrow> flow_result list result" where
  "finish_flows l policy [] = Ok []"
| "finish_flows l policy (f # fs) =
     and_then (finish_flow l policy f) (\<lambda>r.
     and_then (finish_flows l policy fs) (\<lambda>rs. Ok (r # rs)))"

definition tracker_finish :: "tracker \<Rightarrow> overlap_policy \<Rightarrow> flow_result list result" where
  "tracker_finish t policy = finish_flows (tk_limits t) policy (tk_flows t)"

end
