(* ===== verification/Tcp_Tracker_Runs.thy ===== *)
theory Tcp_Tracker_Runs
  imports Tcp_Tracker
begin

text \<open>
  The tracker over every run: its books are exact, it never panics, a refused segment changes
  nothing, an assigned one is appended to exactly one flow, a closed generation accepts only its final
  acknowledgement, and every reported stream is the reconstruction of all payloads of its flow and
  direction.
\<close>

section \<open>Keys and directions\<close>

lemma flow_key_new_dir: "flow_key_new sc x y = (k, d) \<Longrightarrow> d < 2"
  by (auto simp: flow_key_new_def split: if_split_asm)

lemma arr_get_set [simp]:
  "d < 2 \<Longrightarrow> d' < 2 \<Longrightarrow> arr_get (arr_set p d x) d' = (if d' = d then x else arr_get p d')"
  by (auto simp: arr_get_def arr_set_def)

section \<open>Invariant\<close>

definition payload_bytes :: "flow \<Rightarrow> nat" where
  "payload_bytes f = (\<Sum>(d, seg) \<leftarrow> fl_inputs f. ev_len (seg_payload seg))"

definition flow_ok :: "limits \<Rightarrow> flow \<Rightarrow> bool" where
  "flow_ok l f \<longleftrightarrow> fl_inputs f \<noteq> [] \<and> length (fl_inputs f) \<le> max_segments_per_flow l
     \<and> (\<forall>(d, seg) \<in> set (fl_inputs f).
          flow_key_new (flow_scope (fl_key f)) (seg_source seg) (seg_destination seg) = (fl_key f, d))
     \<and> (fl_closed f \<longleftrightarrow> fl_rst_seen f \<or> (fst (fl_fin f) \<and> snd (fl_fin f)))"

definition numbered :: "flow list \<Rightarrow> bool" where
  "numbered fs \<longleftrightarrow> (\<forall>i < length fs. fl_id (fs ! i) = i
     \<and> fl_generation (fs ! i) = Suc (length (filter (\<lambda>j. fl_key (fs ! j) = fl_key (fs ! i)) [0..<i])))"

definition flows_of :: "flow list \<Rightarrow> flow_key \<Rightarrow> nat list" where
  "flows_of fs key = filter (\<lambda>i. fl_key (fs ! i) = key) [0..<length fs]"

definition tk_inv :: "tracker \<Rightarrow> bool" where
  "tk_inv t \<longleftrightarrow> bt_ordered (tk_keys t) \<and> (\<forall>key. history t key = flows_of (tk_flows t) key)
     \<and> numbered (tk_flows t)
     \<and> tk_retained t = sum_list (map payload_bytes (tk_flows t))
     \<and> tk_retained t \<le> max_retained_payload (tk_limits t)
     \<and> length (tk_flows t) \<le> max_flows (tk_limits t)
     \<and> (\<forall>f \<in> set (tk_flows t). flow_ok (tk_limits t) f)
     \<and> limits_validate (tk_limits t) = Ok ()"

lemma tk_invD:
  assumes "tk_inv t"
  shows "bt_ordered (tk_keys t)" "history t key = flows_of (tk_flows t) key" "numbered (tk_flows t)"
    "tk_retained t = sum_list (map payload_bytes (tk_flows t))"
    "tk_retained t \<le> max_retained_payload (tk_limits t)" "length (tk_flows t) \<le> max_flows (tk_limits t)"
    "f \<in> set (tk_flows t) \<Longrightarrow> flow_ok (tk_limits t) f" "limits_validate (tk_limits t) = Ok ()"
  using assms by (simp_all add: tk_inv_def)

lemma flows_of_bound: "i \<in> set (flows_of fs key) \<Longrightarrow> i < length fs \<and> fl_key (fs ! i) = key"
  by (simp add: flows_of_def)

lemma tk_inv_new: "tracker_new l idle = Ok t \<Longrightarrow> tk_inv t"
  by (auto simp: tracker_new_def tk_inv_def history_def or_else_def flows_of_def numbered_def
      elim!: and_then_OkE split: if_split_asm)

section \<open>Choosing a flow\<close>

lemma find_flow_ok:
  "\<forall>i \<in> set ids. i < length (tk_flows t) \<Longrightarrow>
   \<exists>x. find_flow t P ids = Ok x \<and> (\<forall>i. x = Some i \<longrightarrow> i \<in> set ids \<and> P (tk_flows t ! i))"
  by (induction ids) auto

lemma all_flows_ok:
  "\<forall>i \<in> set ids. i < length (tk_flows t) \<Longrightarrow> all_flows t P ids = Ok (\<forall>i \<in> set ids. P (tk_flows t ! i))"
  by (induction ids) auto

definition candidate :: "tracker \<Rightarrow> nat \<Rightarrow> int option \<Rightarrow> tcp_segment \<Rightarrow> nat \<Rightarrow> bool" where
  "candidate t dir at seg i \<longleftrightarrow> \<not> expired t (tk_flows t ! i) at \<and> plausible t (tk_flows t ! i) dir seg"

lemma classify_ok:
  "\<forall>i \<in> set ids. i < length (tk_flows t) \<Longrightarrow>
   classify t dir at seg ids (cs, ds, es) = Ok
     (cs @ filter (\<lambda>i. candidate t dir at seg i \<and> \<not> fl_closed (tk_flows t ! i)) ids,
      ds @ filter (\<lambda>i. candidate t dir at seg i \<and> fl_closed (tk_flows t ! i)) ids,
      es @ filter (\<lambda>i. candidate t dir at seg i \<and> fl_closed (tk_flows t ! i)
                       \<and> is_final_ack (tk_flows t ! i) dir seg) ids)"
  by (induction ids arbitrary: cs ds es) (auto simp: candidate_def)

definition may_take :: "tracker \<Rightarrow> flow_key \<Rightarrow> nat \<Rightarrow> tcp_segment \<Rightarrow> nat \<Rightarrow> bool" where
  "may_take t key dir seg i \<longleftrightarrow> i < length (tk_flows t) \<and> fl_key (tk_flows t ! i) = key
     \<and> (fl_closed (tk_flows t ! i) \<longrightarrow> is_final_ack (tk_flows t ! i) dir seg)"

definition selection_ok :: "tracker \<Rightarrow> flow_key \<Rightarrow> nat \<Rightarrow> tcp_segment \<Rightarrow> flow_choice \<Rightarrow> bool" where
  "selection_ok t key dir seg sel \<longleftrightarrow>
     (case sel of Existing i \<Rightarrow> may_take t key dir seg i | Fresh m \<Rightarrow> True
      | Decided a \<Rightarrow> \<forall>i d. a \<noteq> Assigned i d)"

lemma select_syn_ok:
  assumes "\<forall>i \<in> set ids. i < length (tk_flows t) \<and> fl_key (tk_flows t ! i) = key"
  shows "\<exists>sel. select_syn t ids dir at seg = Ok sel \<and> selection_ok t key dir seg sel"
proof -
  have find: "\<exists>x. find_flow t P js = Ok x \<and> (\<forall>i. x = Some i \<longrightarrow> may_take t key dir seg i)"
    if "set js \<subseteq> set ids" "\<And>f. P f \<Longrightarrow> \<not> fl_closed f" for P js
    using find_flow_ok [of js t P] assms that unfolding may_take_def by blast
  obtain x where x: "find_flow t (\<lambda>f. \<not> fl_closed f \<and> active_at t f at
      \<and> arr_get (fl_syn f) dir = Some (seg_sequence seg)) (rev ids) = Ok x"
    "\<forall>i. x = Some i \<longrightarrow> may_take t key dir seg i"
    using find [of "rev ids" "\<lambda>f. \<not> fl_closed f \<and> active_at t f at \<and> arr_get (fl_syn f) dir = Some (seg_sequence seg)"]
    by auto
  have sub: "set (if ids = [] then [] else [last ids]) \<subseteq> set ids" by simp
  obtain y where y: "find_flow t (\<lambda>f. \<not> fl_closed f \<and> active_at t f at \<and> \<not> fl_midstream f \<and> \<not> fl_has_payload f
      \<and> arr_get (fl_syn f) dir = None \<and> arr_get (fl_syn f) (1 - dir) \<noteq> None) (if ids = [] then [] else [last ids]) = Ok y"
    "\<forall>i. y = Some i \<longrightarrow> may_take t key dir seg i"
    using find [OF sub, of "\<lambda>f. \<not> fl_closed f \<and> active_at t f at \<and> \<not> fl_midstream f \<and> \<not> fl_has_payload f
      \<and> arr_get (fl_syn f) dir = None \<and> arr_get (fl_syn f) (1 - dir) \<noteq> None"] by auto
  show ?thesis
    unfolding select_syn_def x(1) and_then.simps y(1) using x(2) y(2)
    by (auto simp: selection_ok_def split: option.split)
qed

lemma filter_one: "filter P xs \<noteq> [] \<Longrightarrow> hd (filter P xs) \<in> set xs \<and> P (hd (filter P xs))"
  using hd_in_set [of "filter P xs"] by auto

lemma select_other_ok:
  assumes ids: "\<forall>i \<in> set ids. i < length (tk_flows t) \<and> fl_key (tk_flows t ! i) = key"
  shows "\<exists>sel. select_other t ids dir at seg = Ok sel \<and> selection_ok t key dir seg sel"
proof -
  let ?c = "filter (\<lambda>i. candidate t dir at seg i \<and> \<not> fl_closed (tk_flows t ! i)) ids"
  let ?e = "filter (\<lambda>i. candidate t dir at seg i \<and> fl_closed (tk_flows t ! i)
                       \<and> is_final_ack (tk_flows t ! i) dir seg) ids"
  have bound: "\<forall>i \<in> set ids. i < length (tk_flows t)" using ids by simp
  have e: "may_take t key dir seg (hd ?e)" if "length ?e = Suc 0"
  proof -
    have "?e \<noteq> []" using that by auto
    from filter_one [OF this] ids show ?thesis by (simp add: may_take_def)
  qed
  have c: "may_take t key dir seg (hd ?c)" if "?c \<noteq> []" using filter_one [OF that] ids by (simp add: may_take_def)
  show ?thesis
    unfolding select_other_def classify_ok [OF bound] all_flows_ok [OF bound]
    using e c by (auto simp: selection_ok_def)
qed

lemma select_flow_ok:
  assumes "tk_inv t"
  shows "\<exists>sel. select_flow t key dir at seg = Ok sel \<and> selection_ok t key dir seg sel"
proof -
  have "\<forall>i \<in> set (history t key). i < length (tk_flows t) \<and> fl_key (tk_flows t ! i) = key"
    unfolding tk_invD(2) [OF assms] using flows_of_bound by blast
  from select_syn_ok [OF this] select_other_ok [OF this] show ?thesis
    by (simp add: select_flow_def Let_def) (auto simp: selection_ok_def)
qed


section \<open>Assigning\<close>

lemma note_time_simps [simp]:
  "fl_id (note_time at f) = fl_id f" "fl_generation (note_time at f) = fl_generation f" "fl_key (note_time at f) = fl_key f"
  "fl_inputs (note_time at f) = fl_inputs f" "fl_rst_seen (note_time at f) = fl_rst_seen f"
  "fl_closed (note_time at f) = fl_closed f" "fl_fin (note_time at f) = fl_fin f"
  "fl_syn (note_time at f) = fl_syn f" "fl_packets (note_time at f) = fl_packets f"
  by (simp_all add: note_time_def Let_def split: option.split)

lemma note_fin_simps [simp]:
  "fl_id (note_fin d seg f) = fl_id f" "fl_generation (note_fin d seg f) = fl_generation f" "fl_key (note_fin d seg f) = fl_key f"
  "fl_inputs (note_fin d seg f) = fl_inputs f" "fl_rst_seen (note_fin d seg f) = fl_rst_seen f"
  "fl_closed (note_fin d seg f) = fl_closed f" "fl_syn (note_fin d seg f) = fl_syn f"
  "fl_packets (note_fin d seg f) = fl_packets f"
  by (simp_all add: note_fin_def)

lemma note_fin_keeps: "fst (fl_fin f) \<Longrightarrow> fst (fl_fin (note_fin d seg f))" "snd (fl_fin f) \<Longrightarrow> snd (fl_fin (note_fin d seg f))"
  by (auto simp: note_fin_def arr_set_def)

lemma flow_add_simps [simp]:
  "fl_id (flow_add f d at ps seg) = fl_id f" "fl_generation (flow_add f d at ps seg) = fl_generation f"
  "fl_key (flow_add f d at ps seg) = fl_key f" "fl_inputs (flow_add f d at ps seg) = fl_inputs f @ [(d, seg)]"
  "fl_packets (flow_add f d at ps seg) = fl_packets f @ ps @ ev_packets (seg_payload seg)"
  "fl_syn (flow_add f d at ps seg) = (if seg_syn seg then arr_set (fl_syn f) d (Some (seg_sequence seg)) else fl_syn f)"
  by (simp_all add: flow_add_def Let_def)

lemma flow_add_closed:
  assumes "fl_closed f \<longleftrightarrow> fl_rst_seen f \<or> (fst (fl_fin f) \<and> snd (fl_fin f))"
  shows "fl_closed (flow_add f d at ps seg) \<longleftrightarrow> fl_rst_seen (flow_add f d at ps seg)
    \<or> (fst (fl_fin (flow_add f d at ps seg)) \<and> snd (fl_fin (flow_add f d at ps seg)))"
  using assms note_fin_keeps by (auto simp: flow_add_def Let_def)

text \<open>What holds of a flow before its first segment: everything but having one.\<close>

definition flow_pre :: "limits \<Rightarrow> flow \<Rightarrow> bool" where
  "flow_pre l f \<longleftrightarrow> (\<forall>(d, seg) \<in> set (fl_inputs f).
          flow_key_new (flow_scope (fl_key f)) (seg_source seg) (seg_destination seg) = (fl_key f, d))
     \<and> (fl_closed f \<longleftrightarrow> fl_rst_seen f \<or> (fst (fl_fin f) \<and> snd (fl_fin f)))"

lemma flow_ok_pre: "flow_ok l f \<Longrightarrow> flow_pre l f"
  by (simp add: flow_ok_def flow_pre_def)

lemma flow_add_ok:
  assumes "flow_pre l f" "length (fl_inputs f) < max_segments_per_flow l"
    "flow_key_new (flow_scope (fl_key f)) (seg_source seg) (seg_destination seg) = (fl_key f, d)"
  shows "flow_ok l (flow_add f d at ps seg)"
  using assms flow_add_closed [of f d at ps seg] by (auto simp: flow_ok_def flow_pre_def)

lemma flow_key_scope: "flow_key_new sc x y = (k, d) \<Longrightarrow> flow_scope k = sc"
  by (auto simp: flow_key_new_def split: if_split_asm)

lemma payload_bytes_add: "payload_bytes (flow_add f d at ps seg) = payload_bytes f + ev_len (seg_payload seg)"
  by (simp add: payload_bytes_def)

lemma sum_list_replace:
  fixes g :: "'a \<Rightarrow> nat"
  assumes "i < length xs" "g y = g (xs ! i) + n"
  shows "sum_list (map g (xs[i := y])) = sum_list (map g xs) + n"
  using assms
proof (induction xs arbitrary: i)
  case (Cons x xs)
  then show ?case by (cases i) auto
qed simp

lemma same_keys:
  assumes "map fl_key fs = map fl_key fs'" "map fl_id fs = map fl_id fs'" "map fl_generation fs = map fl_generation fs'"
  shows "flows_of fs key = flows_of fs' key" "numbered fs = numbered fs'"
proof -
  have len: "length fs = length fs'" using assms(1) by (metis length_map)
  have nth: "fl_key (fs ! i) = fl_key (fs' ! i) \<and> fl_id (fs ! i) = fl_id (fs' ! i)
      \<and> fl_generation (fs ! i) = fl_generation (fs' ! i)" if "i < length fs" for i
    using assms that len by (metis nth_map)
  show "flows_of fs key = flows_of fs' key" unfolding flows_of_def len [symmetric] using nth by (intro filter_cong) auto
  have "filter (\<lambda>j. fl_key (fs ! j) = fl_key (fs ! i)) [0..<i] = filter (\<lambda>j. fl_key (fs' ! j) = fl_key (fs' ! i)) [0..<i]"
    if "i < length fs" for i using nth that by (intro filter_cong) auto
  then show "numbered fs = numbered fs'" unfolding numbered_def len [symmetric] using nth by simp
qed

text \<open>
  The state between choosing a flow and adding the segment: the invariant, except that a flow just
  created has no segment yet.
\<close>

definition tk_ready :: "tracker \<Rightarrow> nat \<Rightarrow> bool" where
  "tk_ready t i \<longleftrightarrow> bt_ordered (tk_keys t) \<and> (\<forall>key. history t key = flows_of (tk_flows t) key)
     \<and> numbered (tk_flows t) \<and> tk_retained t = sum_list (map payload_bytes (tk_flows t))
     \<and> length (tk_flows t) \<le> max_flows (tk_limits t)
     \<and> (\<forall>j < length (tk_flows t). j \<noteq> i \<longrightarrow> flow_ok (tk_limits t) (tk_flows t ! j))
     \<and> i < length (tk_flows t) \<and> flow_pre (tk_limits t) (tk_flows t ! i)
     \<and> limits_validate (tk_limits t) = Ok ()"

lemma assign_inv:
  assumes ready: "tk_ready t i" and key: "flow_key_new sc (seg_source seg) (seg_destination seg) = (fl_key (tk_flows t ! i), d)"
    and n: "n = tk_retained t + ev_len (seg_payload seg)" "n \<le> max_retained_payload (tk_limits t)"
    and room: "length (fl_inputs (tk_flows t ! i)) < max_segments_per_flow (tk_limits t)"
  shows "tk_inv (t\<lparr>tk_flows := (tk_flows t)[i := flow_add (tk_flows t ! i) d at ps seg], tk_retained := n\<rparr>)"
proof -
  let ?f = "tk_flows t ! i" and ?fs = "(tk_flows t)[i := flow_add (tk_flows t ! i) d at ps seg]"
  have i: "i < length (tk_flows t)" and pre: "flow_pre (tk_limits t) ?f" using ready by (simp_all add: tk_ready_def)
  have "map g ?fs = map g (tk_flows t)" if "g (flow_add ?f d at ps seg) = g ?f" for g :: "flow \<Rightarrow> 'b"
    using that i by (simp add: map_update list_update_same_conv)
  then have maps: "map fl_key ?fs = map fl_key (tk_flows t)" "map fl_id ?fs = map fl_id (tk_flows t)"
    "map fl_generation ?fs = map fl_generation (tk_flows t)"
    using i by (simp_all add: map_update list_update_same_conv)
  have ok: "flow_ok (tk_limits t) (flow_add ?f d at ps seg)"
    using key flow_key_scope [OF key] by (intro flow_add_ok [OF pre room]) simp
  have "sum_list (map payload_bytes ?fs) = n"
    using sum_list_replace [OF i, of payload_bytes, OF payload_bytes_add] ready n(1) by (simp add: tk_ready_def)
  moreover have "\<forall>f \<in> set ?fs. flow_ok (tk_limits t) f"
    using ready ok i unfolding tk_ready_def by (metis in_set_conv_nth length_list_update nth_list_update)
  ultimately show ?thesis
    using ready same_keys [OF maps] n(2) by (simp add: tk_inv_def tk_ready_def history_def)
qed

lemma tk_ready_existing: "tk_inv t \<Longrightarrow> i < length (tk_flows t) \<Longrightarrow> tk_ready t i"
  by (simp add: tk_inv_def tk_ready_def flow_ok_pre)

lemma new_flow_simps [simp]:
  "fl_key (new_flow i g key m) = key" "fl_id (new_flow i g key m) = i" "fl_generation (new_flow i g key m) = g"
  "fl_inputs (new_flow i g key m) = []" "fl_syn (new_flow i g key m) = (None, None)"
  "payload_bytes (new_flow i g key m) = 0" "flow_pre l (new_flow i g key m)" "fl_closed (new_flow i g key m) = False"
  by (simp_all add: new_flow_def payload_bytes_def flow_pre_def)

lemma create_ready:
  assumes inv: "tk_inv t" and c: "tracker_create t key m = Ok (t', i)"
  shows "tk_ready t' i" "i = length (tk_flows t)" "tk_limits t' = tk_limits t" "tk_retained t' = tk_retained t"
    "tk_flows t' = tk_flows t @ [new_flow i (Suc (length (history t key))) key m]"
proof -
  note I = tk_invD [OF inv]
  have len: "length (tk_flows t) < max_flows (tk_limits t)" and i: "i = length (tk_flows t)"
    and t': "t' = t\<lparr>tk_keys := bt_put key (history t key @ [i]) (tk_keys t),
        tk_flows := tk_flows t @ [new_flow i (Suc (length (history t key))) key m]\<rparr>"
    using c by (auto simp: tracker_create_def Let_def history_def or_else_def split: if_split_asm option.split_asm)
  show "i = length (tk_flows t)" "tk_limits t' = tk_limits t" "tk_retained t' = tk_retained t"
    "tk_flows t' = tk_flows t @ [new_flow i (Suc (length (history t key))) key m]"
    by (simp_all add: t' i)
  let ?fs = "tk_flows t @ [new_flow i (Suc (length (history t key))) key m]"
  have old: "filter (\<lambda>j. fl_key (?fs ! j) = k) [0..<n] = filter (\<lambda>j. fl_key (tk_flows t ! j) = k) [0..<n]"
    if "n \<le> length (tk_flows t)" for k n
    using that by (intro filter_cong) (auto simp: nth_append)
  have "history t' k = flows_of ?fs k" for k
    using old [of "length (tk_flows t)" k] I(2) [of k]
    by (auto simp: t' history_def or_else_def bt_get_put flows_of_def i nth_append)
  moreover have "numbered ?fs"
    unfolding numbered_def
  proof (intro allI impI)
    fix j assume "j < length ?fs"
    then consider "j < length (tk_flows t)" | "j = length (tk_flows t)" by fastforce
    then show "fl_id (?fs ! j) = j \<and> fl_generation (?fs ! j) = Suc (length (filter (\<lambda>k. fl_key (?fs ! k) = fl_key (?fs ! j)) [0..<j]))"
    proof cases
      case 1
      then show ?thesis using old [of j] I(3) by (simp add: numbered_def nth_append)
    next
      case 2
      then show ?thesis using old [of j key] I(2) [of key] by (simp add: i flows_of_def)
    qed
  qed
  ultimately show "tk_ready t' i"
    using I len by (simp add: tk_ready_def t' i bt_ordered_put nth_append)
qed


section \<open>Ingesting\<close>

text \<open>
  A segment is refused and the state is unchanged, or it is added to one flow: an existing flow of its
  key that may take it, or a new one.
\<close>

definition added :: "tracker \<Rightarrow> scope \<Rightarrow> packet_id list \<Rightarrow> int option \<Rightarrow> tcp_segment \<Rightarrow> tracker \<Rightarrow> nat \<Rightarrow> nat \<Rightarrow> bool" where
  "added t sc packets at seg t' i d \<longleftrightarrow> (\<exists>key f.
     flow_key_new sc (seg_source seg) (seg_destination seg) = (key, d)
     \<and> tk_flows t' = take i (tk_flows t) @ flow_add f d at packets seg # drop (Suc i) (tk_flows t)
     \<and> ((may_take t key d seg i \<and> f = tk_flows t ! i)
        \<or> (i = length (tk_flows t) \<and> (\<exists>m. f = new_flow i (Suc (length (history t key))) key m))))"

lemma assign_existing:
  assumes inv: "tk_inv t" and key: "flow_key_new sc (seg_source seg) (seg_destination seg) = (key, d)"
    and i: "may_take t key d seg i"
    and n: "n = tk_retained t + ev_len (seg_payload seg)" "n \<le> max_retained_payload (tk_limits t)"
    and a: "assign t i d at packets seg n = (t', res)"
  shows "t' = t \<and> res \<noteq> Panic \<and> (\<forall>i d. res \<noteq> Ok (Assigned i d))
    \<or> res = Ok (Assigned i d) \<and> tk_inv t' \<and> added t sc packets at seg t' i d"
proof -
  have len: "i < length (tk_flows t)" and k: "fl_key (tk_flows t ! i) = key" using i by (simp_all add: may_take_def)
  let ?t = "t\<lparr>tk_flows := (tk_flows t)[i := flow_add (tk_flows t ! i) d at packets seg], tk_retained := n\<rparr>"
  consider "t' = t" "res \<noteq> Panic" "\<forall>i d. res \<noteq> Ok (Assigned i d)"
    | "t' = ?t" "res = Ok (Assigned i d)" "length (fl_inputs (tk_flows t ! i)) < max_segments_per_flow (tk_limits t)"
    using a len by (auto simp: assign_def split: if_split_asm)
  then show ?thesis
  proof cases
    case 2
    then have "tk_inv t'" using assign_inv [OF tk_ready_existing [OF inv len]] key k n by simp
    with 2 len i key show ?thesis by (auto simp: added_def upd_conv_take_nth_drop)
  qed blast
qed

lemma assign_fresh:
  assumes inv: "tk_inv t" and key: "flow_key_new sc (seg_source seg) (seg_destination seg) = (key, d)"
    and c: "tracker_create t key m = Ok (t1, i)"
    and n: "n = tk_retained t + ev_len (seg_payload seg)" "n \<le> max_retained_payload (tk_limits t)"
    and a: "assign t1 i d at packets seg n = (t', res)"
  shows "res = Ok (Assigned i d) \<and> tk_inv t' \<and> added t sc packets at seg t' i d"
proof -
  note C = create_ready [OF inv c]
  let ?f = "new_flow i (Suc (length (history t key))) key m"
  have f: "tk_flows t1 ! i = ?f" "i < length (tk_flows t1)" using C(2,5) by simp_all
  have d: "d < 2" using flow_key_new_dir [OF key] .
  have room: "length (fl_inputs (tk_flows t1 ! i)) < max_segments_per_flow (tk_limits t1)"
    using limits_validate_OkD(8) [OF tk_invD(8) [OF inv]] by (simp add: f C(3))
  have none: "arr_get (None, None) d = None" by (simp add: arr_get_def)
  have r: "t' = t1\<lparr>tk_flows := (tk_flows t1)[i := flow_add ?f d at packets seg], tk_retained := n\<rparr>" "res = Ok (Assigned i d)"
    using a f room by (simp_all add: assign_def none)
  have "tk_inv t'" using assign_inv [OF C(1), of sc seg d n at packets] key n room by (simp add: r f C(3,4))
  moreover have "added t sc packets at seg t' i d"
    using key C(2,5) by (auto simp: added_def r)
  ultimately show ?thesis using r(2) by blast
qed

lemma ingest_cases:
  assumes inv: "tk_inv t" and g: "ingest_with_packets t sc packets at seg = (t', res)"
  shows "t' = t \<and> res \<noteq> Panic \<and> (\<forall>i d. res \<noteq> Ok (Assigned i d))
    \<or> (\<exists>i d. res = Ok (Assigned i d) \<and> tk_inv t' \<and> added t sc packets at seg t' i d)"
proof -
  obtain key d where key: "flow_key_new sc (seg_source seg) (seg_destination seg) = (key, d)" by fastforce
  obtain sel where sel: "select_flow t key d at seg = Ok sel" "selection_ok t key d seg sel"
    using select_flow_ok [OF inv] by blast
  let ?n = "tk_retained t + ev_len (seg_payload seg)"
  show ?thesis
  proof (cases "packets \<noteq> [] \<and> ?n < usize_limit \<and> ?n \<le> max_retained_payload (tk_limits t)")
    case False
    then show ?thesis using g by (auto simp: ingest_with_packets_def checked_add_def split: if_split_asm)
  next
    case ok: True
    show ?thesis
    proof (cases sel)
      case (Existing i)
      then have "assign t i d at packets seg ?n = (t', res)"
        using g ok key sel(1) by (simp add: ingest_with_packets_def checked_add_def)
      moreover have "may_take t key d seg i" using sel(2) Existing by (simp add: selection_ok_def)
      ultimately show ?thesis using assign_existing [OF inv key _ refl] ok by blast
    next
      case (Fresh m)
      show ?thesis
      proof (cases "tracker_create t key m")
        case (Ok x)
        obtain t1 i where x: "x = (t1, i)" by (cases x)
        have "assign t1 i d at packets seg ?n = (t', res)"
          using g ok key sel(1) Fresh Ok x by (simp add: ingest_with_packets_def checked_add_def)
        then show ?thesis using assign_fresh [OF inv key Ok [unfolded x] refl] ok by blast
      qed (use g ok key sel(1) Fresh in \<open>auto simp: ingest_with_packets_def checked_add_def tracker_create_def Let_def split: if_split_asm\<close>)
    next
      case (Decided a)
      then show ?thesis using g ok key sel by (auto simp: ingest_with_packets_def checked_add_def selection_ok_def)
    qed
  qed
qed

section \<open>Finishing\<close>

lemma stream_push_no_panic [simp]: "stream_push s q e \<noteq> Panic"
  by (auto simp: stream_push_def Let_def outcome_simps)

lemma stream_end_at_no_panic [simp]: "stream_end_at s q \<noteq> Panic"
  by (auto simp: stream_end_at_def outcome_simps split: option.split)

lemma replay_input_no_panic [simp]: "replay_input s seg \<noteq> Panic"
  by (auto simp: replay_input_def outcome_simps)

text \<open>The payloads of one direction of a flow, in the order they were ingested.\<close>

definition payloads :: "nat \<Rightarrow> (nat \<times> tcp_segment) list \<Rightarrow> (u32 \<times> evidence) list" where
  "payloads d inputs = [(data_sequence seg, seg_payload seg). (d', seg) \<leftarrow> inputs, d' = d \<and> \<not> ev_is_empty (seg_payload seg)]"

lemma payloads_simps [simp]:
  "payloads d [] = []"
  "payloads d (xs @ ys) = payloads d xs @ payloads d ys"
  "payloads d [(d', seg)] = (if d' = d \<and> \<not> ev_is_empty (seg_payload seg) then [(data_sequence seg, seg_payload seg)] else [])"
  by (simp_all add: payloads_def)

lemma replay_input_run:
  assumes "sa_run syn l given s" "replay_input s seg = Ok s'"
  shows "sa_run syn l (given @ payloads 0 [(0, seg)]) s'"
proof -
  obtain s1 where s1: "stream_push s (data_sequence seg) (seg_payload seg) = Ok s1"
    "(if seg_fin seg then stream_end_at s1 (data_sequence seg + word_of_nat (ev_len (seg_payload seg))) else Ok s1) = Ok s'"
    using assms(2) by (auto simp: replay_input_def elim!: and_then_OkE)
  have "sa_run syn l (given @ payloads 0 [(0, seg)]) s1"
    using sa_push [OF assms(1) s1(1)] by (simp split: if_split_asm)
  with s1(2) show ?thesis by (auto intro: sa_end split: if_split_asm)
qed

definition side_run :: "limits \<Rightarrow> u32 option \<Rightarrow> nat \<Rightarrow> (nat \<times> tcp_segment) list \<Rightarrow> stream_assembler option \<Rightarrow> bool" where
  "side_run l syn d inputs side \<longleftrightarrow> (\<forall>s. side = Some s \<longrightarrow> sa_run syn l (payloads d inputs) s)"

lemma replay_ok:
  assumes "\<forall>(d, seg) \<in> set inputs. d < 2"
    "side_run l syn0 0 before (arr_get streams 0)" "side_run l syn1 1 before (arr_get streams 1)"
  shows "\<exists>streams' errors'. replay inputs streams errors = Ok (streams', errors')
    \<and> side_run l syn0 0 (before @ inputs) (arr_get streams' 0) \<and> side_run l syn1 1 (before @ inputs) (arr_get streams' 1)"
  using assms
proof (induction inputs arbitrary: streams errors before)
  case (Cons x inputs)
  obtain d seg where x: "x = (d, seg)" by (cases x)
  have d: "d < 2" "\<forall>(d, seg) \<in> set inputs. d < 2" using Cons.prems(1) x by auto
  have skip: "side_run l syn d' (before @ [x]) side" if "side_run l syn d' before side" "side = None \<or> d' \<noteq> d" for syn d' side
    using that by (auto simp: side_run_def x)
  have step: "side_run l syn d (before @ [x]) (Some s')"
    if "side_run l syn d before (Some s)" "replay_input s seg = Ok s'" for syn s s'
    using that replay_input_run [of syn l "payloads d before" s seg s'] by (auto simp: side_run_def x)
  have none: "side_run l syn d' (before @ [x]) None" for syn d' by (simp add: side_run_def)
  show ?case
  proof (cases "arr_get streams d")
    case None
    then have "replay (x # inputs) streams errors = replay inputs streams errors" by (simp add: x)
    moreover have "side_run l syn0 0 (before @ [x]) (arr_get streams 0)"
      by (rule skip [OF Cons.prems(2)]) (use None in metis)
    moreover have "side_run l syn1 1 (before @ [x]) (arr_get streams 1)"
      by (rule skip [OF Cons.prems(3)]) (use None in metis)
    ultimately show ?thesis using Cons.IH [OF d(2), of "before @ [x]"] by simp
  next
    case (Some s)
    show ?thesis
    proof (cases "replay_input s seg")
      case (Ok s')
      then have "replay (x # inputs) streams errors = replay inputs (arr_set streams d (Some s')) errors" by (simp add: x Some)
      moreover have "side_run l syn0 0 (before @ [x]) (arr_get (arr_set streams d (Some s')) 0)"
        using skip [OF Cons.prems(2)] step [OF _ Ok, of syn0] Cons.prems(2) Some d(1) by (cases "d = 0") simp_all
      moreover have "side_run l syn1 1 (before @ [x]) (arr_get (arr_set streams d (Some s')) 1)"
        using skip [OF Cons.prems(3)] step [OF _ Ok, of syn1] Cons.prems(3) Some d(1) by (cases "d = 1") simp_all
      ultimately show ?thesis using Cons.IH [OF d(2), of "before @ [x]"] by simp
    next
      case (Err e)
      then have "replay (x # inputs) streams errors = replay inputs (arr_set streams d None) (errors @ [e])" by (simp add: x Some)
      moreover have "side_run l syn0 0 (before @ [x]) (arr_get (arr_set streams d None) 0)"
        using skip [OF Cons.prems(2)] none d(1) by (cases "d = 0") simp_all
      moreover have "side_run l syn1 1 (before @ [x]) (arr_get (arr_set streams d None) 1)"
        using skip [OF Cons.prems(3)] none d(1) by (cases "d = 1") simp_all
      ultimately show ?thesis using Cons.IH [OF d(2), of "before @ [x]"] by simp
    qed simp
  qed
qed simp


lemma stream_finish_no_panic:
  assumes inv: "sa_inv s" and lim: "limits_validate (sa_limits s) = Ok ()"
  shows "stream_finish s policy \<noteq> Panic"
proof (cases "sa_segments s = [] \<or> (\<exists>f. sa_fin s = Some f \<and> f < sa_max s)")
  case True
  then show ?thesis using lim by (auto simp: stream_finish_def)
next
  case False
  then have "\<And>f. sa_fin s = Some f \<Longrightarrow> sa_max s \<le> f" by (auto simp: not_less)
  from stream_finish_ok [OF inv lim _ this, of policy] False show ?thesis by auto
qed

lemma finish_side_ok:
  assumes "side_run l syn d inputs side" "limits_validate l = Ok ()"
  shows "\<exists>x errors'. finish_side policy side errors = Ok (x, errors')
    \<and> (\<forall>res. x = Some res \<longrightarrow> (\<exists>s. sa_run syn l (payloads d inputs) s \<and> stream_finish s policy = Ok res))"
proof (cases side)
  case (Some s)
  then have run: "sa_run syn l (payloads d inputs) s" using assms(1) by (simp add: side_run_def)
  then have "sa_inv s" "sa_limits s = l" using sa_run_inv by blast+
  then have "stream_finish s policy \<noteq> Panic" using stream_finish_no_panic assms(2) by simp
  then show ?thesis using run Some by (cases "stream_finish s policy") (auto simp: finish_side_def)
qed (simp add: finish_side_def)

lemma finish_flow_ok:
  assumes "flow_ok l f" "limits_validate l = Ok ()"
  shows "\<exists>r. finish_flow l policy f = Ok r \<and> fo_id r = fl_id f \<and> fo_key r = fl_key f
    \<and> fo_packets r = sort_dedup (fl_packets f)
    \<and> (\<forall>d res. d < 2 \<and> arr_get (fo_streams r) d = Some res \<longrightarrow>
         (\<exists>s. sa_run (arr_get (fl_syn f) d) l (payloads d (fl_inputs f)) s \<and> stream_finish s policy = Ok res))"
proof -
  have d: "\<forall>(d, seg) \<in> set (fl_inputs f). d < 2" using assms(1) flow_key_new_dir by (fastforce simp: flow_ok_def)
  have start: "side_run l syn n [] (Some (stream_new syn l))" for syn n by (simp add: side_run_def sa_start)
  obtain a b errors where r: "replay (fl_inputs f) (Some (stream_new (fst (fl_syn f)) l), Some (stream_new (snd (fl_syn f)) l)) []
      = Ok ((a, b), errors)" "side_run l (fst (fl_syn f)) 0 (fl_inputs f) a" "side_run l (snd (fl_syn f)) 1 (fl_inputs f) b"
    using replay_ok [OF d, of l "fst (fl_syn f)" "[]" "(Some (stream_new (fst (fl_syn f)) l), Some (stream_new (snd (fl_syn f)) l))"
        "snd (fl_syn f)" "[]"] start by (auto simp: arr_get_def)
  obtain x errors1 where x: "finish_side policy a errors = Ok (x, errors1)"
    "\<forall>res. x = Some res \<longrightarrow> (\<exists>s. sa_run (fst (fl_syn f)) l (payloads 0 (fl_inputs f)) s \<and> stream_finish s policy = Ok res)"
    using finish_side_ok [OF r(2) assms(2)] by blast
  obtain y errors2 where y: "finish_side policy b errors1 = Ok (y, errors2)"
    "\<forall>res. y = Some res \<longrightarrow> (\<exists>s. sa_run (snd (fl_syn f)) l (payloads 1 (fl_inputs f)) s \<and> stream_finish s policy = Ok res)"
    using finish_side_ok [OF r(3) assms(2)] by blast
  show ?thesis
    using r(1) x y by (auto simp: finish_flow_def arr_get_def less_2_cases_iff split: if_split_asm)
qed

lemma finish_flows_ok:
  assumes "limits_validate l = Ok ()" "\<forall>f \<in> set fs. flow_ok l f"
  shows "\<exists>rs. finish_flows l policy fs = Ok rs \<and> list_all2 (\<lambda>f r. finish_flow l policy f = Ok r) fs rs"
  using assms(2)
proof (induction fs)
  case (Cons f fs)
  obtain r where "finish_flow l policy f = Ok r" using finish_flow_ok [OF _ assms(1)] Cons.prems by fastforce
  moreover obtain rs where "finish_flows l policy fs = Ok rs" "list_all2 (\<lambda>f r. finish_flow l policy f = Ok r) fs rs"
    using Cons by auto
  ultimately show ?case by simp
qed simp

section \<open>Runs\<close>

inductive tk_run :: "limits \<Rightarrow> int \<Rightarrow> tracker \<Rightarrow> bool" for l idle where
    tk_start: "tracker_new l idle = Ok t \<Longrightarrow> tk_run l idle t"
  | tk_step: "tk_run l idle t \<Longrightarrow> ingest_with_packets t sc packets at seg = (t', res) \<Longrightarrow> tk_run l idle t'"

lemma tk_run_inv: "tk_run l idle t \<Longrightarrow> tk_inv t"
proof (induction rule: tk_run.induct)
  case (tk_start t)
  then show ?case by (rule tk_inv_new)
next
  case (tk_step t sc packets at seg t' res)
  then show ?case using ingest_cases by blast
qed

text \<open>Finishing never fails: one result per flow, whose streams are finished runs of the assembler.\<close>

lemma finished_flows:
  assumes "tk_run l idle t"
  obtains rs where "tracker_finish t policy = Ok rs" "length rs = length (tk_flows t)"
    "\<And>i. i < length rs \<Longrightarrow> fo_packets (rs ! i) = sort_dedup (fl_packets (tk_flows t ! i))"
    "\<And>i d res. i < length rs \<Longrightarrow> d < 2 \<Longrightarrow> arr_get (fo_streams (rs ! i)) d = Some res \<Longrightarrow>
       \<exists>s. sa_run (arr_get (fl_syn (tk_flows t ! i)) d) (tk_limits t) (payloads d (fl_inputs (tk_flows t ! i))) s
         \<and> stream_finish s policy = Ok res"
proof -
  have inv: "tk_inv t" by (rule tk_run_inv [OF assms])
  have lim: "limits_validate (tk_limits t) = Ok ()" by (rule tk_invD(8) [OF inv])
  obtain rs where rs: "tracker_finish t policy = Ok rs" "length rs = length (tk_flows t)"
    and each: "\<And>i. i < length rs \<Longrightarrow> finish_flow (tk_limits t) policy (tk_flows t ! i) = Ok (rs ! i)"
    using finish_flows_ok [OF lim, of "tk_flows t" policy] tk_invD(7) [OF inv]
    by (auto simp: tracker_finish_def list_all2_conv_all_nth)
  have "flow_ok (tk_limits t) (tk_flows t ! i)" if "i < length rs" for i using tk_invD(7) [OF inv] that rs(2) by simp
  note flow = finish_flow_ok [OF this lim, of _ policy]
  show ?thesis
  proof (rule that [OF rs])
    fix i
    assume i: "i < length rs"
    show "fo_packets (rs ! i) = sort_dedup (fl_packets (tk_flows t ! i))" using flow [OF i] each [OF i] by auto
    show "\<exists>s. sa_run (arr_get (fl_syn (tk_flows t ! i)) d) (tk_limits t) (payloads d (fl_inputs (tk_flows t ! i))) s
         \<and> stream_finish s policy = Ok res" if "d < 2" "arr_get (fo_streams (rs ! i)) d = Some res" for d res
      using flow [OF i] each [OF i] that by fastforce
  qed
qed

section \<open>A sample connection: both sides close, and the last acknowledgement follows\<close>

definition sample_host :: "u8 \<Rightarrow> endpoint" where
  "sample_host n = Endpoint (V4 [10, 0, 0, n]) 20000"

definition sample_segment :: "bool \<Rightarrow> u32 \<Rightarrow> u32 \<Rightarrow> u8 \<Rightarrow> bytes \<Rightarrow> tcp_segment" where
  "sample_segment from_first sequence acknowledgement flags data =
     \<lparr>seg_source = sample_host (if from_first then 1 else 2), seg_destination = sample_host (if from_first then 2 else 1),
      seg_sequence = sequence, seg_acknowledgement = acknowledgement, seg_flags = flags, seg_checksum = Valid,
      seg_payload = from_packet data (PacketId [] 1 24) 54\<rparr>"

abbreviation sample_flow :: flow_key where
  "sample_flow \<equiv> FlowKey (Scope 0 0 None []) (sample_host 1) (sample_host 2)"

lemma sample_keys: "flow_key_new (Scope 0 0 None []) (seg_source (sample_segment b q a f p)) (seg_destination (sample_segment b q a f p))
    = (sample_flow, if b then 0 else 1)"
  by (simp add: sample_segment_def flow_key_new_def sample_host_def less_eq_endpoint_def endpoint_key_def less_eq_ip_addr_def
      less_ip_addr_def ip_addr_key_def)


lemma sample_segment_simps [simp]:
  "seg_sequence (sample_segment b q a f p) = q" "seg_acknowledgement (sample_segment b q a f p) = a"
  "seg_payload (sample_segment b q a f p) = from_packet p (PacketId [] 1 24) 54"
  "seg_flags (sample_segment b q a f p) = f"
  by (simp_all add: sample_segment_def)


definition sample_tracker :: "nat \<Rightarrow> tracker" where
  "sample_tracker n = (let
     t0 = the_ok (tracker_new limits_default 1000);
     t1 = fst (ingest_with_packets t0 (Scope 0 0 None []) [PacketId [] 1 24] None (sample_segment True 10 20 0x11 [65]));
     t2 = fst (ingest_with_packets t1 (Scope 0 0 None []) [PacketId [] 2 90] None (sample_segment False 20 12 0x11 []))
     in if n = 0 then t0 else if n = 1 then t1 else t2)"

abbreviation sample_ack :: tcp_segment where
  "sample_ack \<equiv> sample_segment True 12 21 0x10 []"

lemmas tracker_eval = ingest_with_packets_def sample_keys checked_add_def usize_limit_def ev_len_def ev_is_empty_def
  Let_def select_flow_def select_other_def history_def or_else_def assign_def tracker_create_def new_flow_def
  flow_add_def note_time_def note_fin_def seg_syn_def seg_fin_def seg_rst_def seg_ack_def data_sequence_def arr_get_def
  arr_set_def expired_def plausible_def near_def is_final_ack_def tracker_new_def sample_tracker_def

lemma sample_deltas: "sequence_delta 12 10 = Ok 2"
  by (simp add: sequence_delta_def)

lemma sample_first_segment:
  "ingest_with_packets (sample_tracker 0) (Scope 0 0 None []) [PacketId [] 1 24] None (sample_segment True 10 20 0x11 [65])
     = (sample_tracker 1, Ok (Assigned 0 0))"
  by (simp add: tracker_eval)

lemma sample_second_segment:
  "ingest_with_packets (sample_tracker 1) (Scope 0 0 None []) [PacketId [] 2 90] None (sample_segment False 20 12 0x11 [])
     = (sample_tracker 2, Ok (Assigned 0 1))"
  by (simp add: tracker_eval sample_deltas)

lemma sample_closed: "length (tk_flows (sample_tracker 2)) = 1 \<and> fl_closed (tk_flows (sample_tracker 2) ! 0)"
  by (simp add: tracker_eval sample_deltas)

lemma sample_last_ack:
  "\<exists>t'. ingest_with_packets (sample_tracker 2) (Scope 0 0 None []) [PacketId [] 3 150] None sample_ack
     = (t', Ok (Assigned 0 0))"
  by (simp add: tracker_eval sample_deltas)

lemma sample_tracker_run:
  "tk_run limits_default 1000 (sample_tracker 0)" "tk_run limits_default 1000 (sample_tracker 1)"
  "tk_run limits_default 1000 (sample_tracker 2)"
proof -
  show zero: "tk_run limits_default 1000 (sample_tracker 0)"
    by (rule tk_start) (simp add: sample_tracker_def tracker_new_def)
  show one: "tk_run limits_default 1000 (sample_tracker 1)" by (rule tk_step [OF zero sample_first_segment])
  show "tk_run limits_default 1000 (sample_tracker 2)" by (rule tk_step [OF one sample_second_segment])
qed

section \<open>What holds in every run\<close>



text \<open>C32: A segment that is not assigned, for an error, an ambiguity or no flow, leaves the tracker as it was.\<close>

theorem refused_segments_change_nothing:
  assumes "tk_run l idle t" and "ingest_with_packets t sc packets at seg = (t', res)"
    and "\<forall>i d. res \<noteq> Ok (Assigned i d)"
  shows "t' = t"
  using ingest_cases [OF tk_run_inv [OF assms(1)] assms(2)] assms(3) by blast

theorem refused_segments_change_nothing_witness:
  "fst (ingest_with_packets (sample_tracker 2) (Scope 0 0 None []) [] None sample_ack) = sample_tracker 2"
proof -
  have "ingest_with_packets (sample_tracker 2) (Scope 0 0 None []) [] None sample_ack = (sample_tracker 2,
      Err (error_new Invariant 0 ''tcp_evidence'' ''TCP segment requires source packets''))"
    by (simp add: ingest_with_packets_def)
  from refused_segments_change_nothing [OF sample_tracker_run(3) this] this show ?thesis by simp
qed

text \<open>
  C31: An assigned segment becomes the last input of exactly one flow, which has the segment's key; the
  flow is an existing one or a new one at the end, and every other flow stays as it was.\<close>

theorem assigned_segments_join_one_flow:
  assumes "tk_run l idle t" and "ingest_with_packets t sc packets at seg = (t', Ok (Assigned i d))"
  shows "i \<le> length (tk_flows t) \<and> length (tk_flows t') = max (Suc i) (length (tk_flows t))
    \<and> flow_key_new sc (seg_source seg) (seg_destination seg) = (fl_key (tk_flows t' ! i), d)
    \<and> fl_inputs (tk_flows t' ! i) = (if i < length (tk_flows t) then fl_inputs (tk_flows t ! i) else []) @ [(d, seg)]
    \<and> (\<forall>j < length (tk_flows t). j \<noteq> i \<longrightarrow> tk_flows t' ! j = tk_flows t ! j)"
proof -
  have a: "added t sc packets at seg t' i d" using ingest_cases [OF tk_run_inv [OF assms(1)] assms(2)] by blast
  then obtain key f where key: "flow_key_new sc (seg_source seg) (seg_destination seg) = (key, d)"
    and fs: "tk_flows t' = take i (tk_flows t) @ flow_add f d at packets seg # drop (Suc i) (tk_flows t)"
    and f: "may_take t key d seg i \<and> f = tk_flows t ! i
      \<or> i = length (tk_flows t) \<and> (\<exists>m. f = new_flow i (Suc (length (history t key))) key m)"
    unfolding added_def by blast
  have i: "i \<le> length (tk_flows t)" "fl_key f = key"
    "fl_inputs f = (if i < length (tk_flows t) then fl_inputs (tk_flows t ! i) else [])"
    using f by (auto simp: may_take_def)
  have "tk_flows t' ! i = flow_add f d at packets seg" using i(1) by (simp add: fs nth_append)
  moreover have "tk_flows t' ! j = tk_flows t ! j" if "j < length (tk_flows t)" "j \<noteq> i" for j
    using that i(1) by (auto simp: fs nth_append nth_Cons' min_def)
  moreover have "length (tk_flows t') = max (Suc i) (length (tk_flows t))" using i(1) by (simp add: fs)
  ultimately show ?thesis using key i by simp
qed

theorem assigned_segments_join_one_flow_witness:
  "length (tk_flows (sample_tracker 1)) = 1
   \<and> fl_inputs (tk_flows (sample_tracker 1) ! 0) = [(0, sample_segment True 10 20 0x11 [65])]"
proof -
  have "tk_flows (sample_tracker 0) = []" by (simp add: sample_tracker_def tracker_new_def)
  with assigned_segments_join_one_flow [OF sample_tracker_run(1) sample_first_segment] show ?thesis by simp
qed

text \<open>
  C30: A closed generation takes nothing but its final acknowledgement: a segment assigned to a closed
  flow carries no payload and no SYN, FIN or RST, and acknowledges the end of both sides.\<close>

theorem closed_flows_take_only_the_final_ack:
  assumes "tk_run l idle t" and "ingest_with_packets t sc packets at seg = (t', Ok (Assigned i d))"
    and "i < length (tk_flows t)" and "fl_closed (tk_flows t ! i)"
  shows "ev_data (seg_payload seg) = [] \<and> seg_ack seg \<and> \<not> seg_syn seg \<and> \<not> seg_fin seg \<and> \<not> seg_rst seg
    \<and> arr_get (fl_fin_next (tk_flows t ! i)) d = Some (data_sequence seg)
    \<and> arr_get (fl_fin_next (tk_flows t ! i)) (1 - d) = Some (seg_acknowledgement seg)"
proof -
  have "added t sc packets at seg t' i d" using ingest_cases [OF tk_run_inv [OF assms(1)] assms(2)] by blast
  then have "is_final_ack (tk_flows t ! i) d seg" using assms(3,4) by (auto simp: added_def may_take_def)
  then show ?thesis by (auto simp: is_final_ack_def ev_is_empty_def split: if_split_asm option.split_asm)
qed

theorem closed_flows_take_only_the_final_ack_witness:
  "fl_closed (tk_flows (sample_tracker 2) ! 0) \<and> arr_get (fl_fin_next (tk_flows (sample_tracker 2) ! 0)) 0 = Some 12"
proof -
  obtain t' where "ingest_with_packets (sample_tracker 2) (Scope 0 0 None []) [PacketId [] 3 150] None sample_ack
     = (t', Ok (Assigned 0 0))" using sample_last_ack by blast
  from closed_flows_take_only_the_final_ack [OF sample_tracker_run(3) this] sample_closed
  show ?thesis by (simp add: data_sequence_def seg_syn_def)
qed

text \<open>
  C7: Finishing a tracker returns one result per flow, in order, and every stream it reports is the
  reconstruction, under the overlap policy, of all payloads that were assigned to that flow and
  direction, in the order they came; no payload is left out.\<close>

theorem reported_streams_are_all_payloads:
  assumes "tk_run l idle t"
  shows "\<exists>rs. tracker_finish t policy = Ok rs \<and> length rs = length (tk_flows t)
    \<and> (\<forall>i d res. i < length rs \<and> d < 2 \<and> arr_get (fo_streams (rs ! i)) d = Some res
          \<and> payloads d (fl_inputs (tk_flows t ! i)) \<noteq> [] \<longrightarrow>
        (\<exists>base segs lo hi. sr_base res = Some base
          \<and> placed (Some base) (payloads d (fl_inputs (tk_flows t ! i))) segs \<and> reconstructs policy segs lo hi res))"
proof -
  obtain rs where rs: "tracker_finish t policy = Ok rs" "length rs = length (tk_flows t)"
    and each: "\<And>i d res. i < length rs \<Longrightarrow> d < 2 \<Longrightarrow> arr_get (fo_streams (rs ! i)) d = Some res \<Longrightarrow>
       \<exists>s. sa_run (arr_get (fl_syn (tk_flows t ! i)) d) (tk_limits t) (payloads d (fl_inputs (tk_flows t ! i))) s
         \<and> stream_finish s policy = Ok res"
    by (rule finished_flows [OF assms, of policy]) blast
  have "\<exists>base segs lo hi. sr_base res = Some base
      \<and> placed (Some base) (payloads d (fl_inputs (tk_flows t ! i))) segs \<and> reconstructs policy segs lo hi res"
    if i: "i < length rs" "d < 2" "arr_get (fo_streams (rs ! i)) d = Some res"
      "payloads d (fl_inputs (tk_flows t ! i)) \<noteq> []" for i d res
    using each [OF i(1-3)] sa_run_reconstructs [OF _ i(4)] by blast
  with rs show ?thesis by blast
qed

text \<open>A sample for the witness: the one payload of the sample connection, in a segment with FIN.\<close>

definition sample_assembler :: stream_assembler where
  "sample_assembler = (stream_new None limits_default)\<lparr>sa_base := Some 10, sa_retained := 1, sa_max := 1, sa_fin := Some 1,
     sa_segments := [\<lparr>ss_start = 0, ss_bytes = from_packet [65] (PacketId [] 1 24) 54\<rparr>]\<rparr>"

lemma sample_replay: "replay_input (stream_new None limits_default) (sample_segment True 10 20 0x11 [65]) = Ok sample_assembler"
proof -
  have "sequence_delta 10 10 = Ok 0" "sequence_delta 11 10 = Ok 1" by (simp_all add: sequence_delta_def)
  then show ?thesis
    by (simp add: sample_assembler_def replay_input_def stream_push_def stream_new_def tracker_eval stream_end_at_def
        checked_add_i64_def in_i64_def from_packet_valid)
qed

lemma sample_assembler_finish: "\<exists>res. stream_finish sample_assembler policy = Ok res"
  using stream_finish_ok [of sample_assembler policy]
    sa_run_inv [OF replay_input_run [OF sa_start sample_replay]]
  by (auto simp: sample_assembler_def stream_new_def)

lemma sample_report:
  "\<exists>rs res. tracker_finish (sample_tracker 1) policy = Ok rs \<and> length rs = 1 \<and> arr_get (fo_streams (rs ! 0)) 0 = Some res"
proof -
  obtain res where res: "stream_finish sample_assembler policy = Ok res" using sample_assembler_finish by blast
  have flows: "tk_limits (sample_tracker 1) = limits_default" "length (tk_flows (sample_tracker 1)) = 1"
    "fl_inputs (tk_flows (sample_tracker 1) ! 0) = [(0, sample_segment True 10 20 0x11 [65])]"
    "fl_syn (tk_flows (sample_tracker 1) ! 0) = (None, None)"
    by (simp_all add: tracker_eval)
  then have single: "tk_flows (sample_tracker 1) = [tk_flows (sample_tracker 1) ! 0]" by (auto simp: length_Suc_conv)
  have none: "stream_finish (stream_new None limits_default) policy = Ok (empty_result (stream_new None limits_default))"
    by (simp add: stream_finish_def stream_new_def)
  show ?thesis
    unfolding tracker_finish_def
    by (subst single) (simp add: flows [simplified] finish_flow_def sample_replay [simplified] arr_get_def arr_set_def finish_side_def none res)
qed

theorem reported_streams_are_all_payloads_witness:
  "\<exists>rs res base segs lo hi. tracker_finish (sample_tracker 1) FirstObserved = Ok rs \<and> length rs = 1
     \<and> arr_get (fo_streams (rs ! 0)) 0 = Some res \<and> payloads 0 (fl_inputs (tk_flows (sample_tracker 1) ! 0)) \<noteq> []
     \<and> placed (Some base) (payloads 0 (fl_inputs (tk_flows (sample_tracker 1) ! 0))) segs \<and> reconstructs FirstObserved segs lo hi res"
proof -
  obtain rs res where rs: "tracker_finish (sample_tracker 1) FirstObserved = Ok rs" "length rs = 1"
    "arr_get (fo_streams (rs ! 0)) 0 = Some res"
    using sample_report by blast
  have ne: "payloads 0 (fl_inputs (tk_flows (sample_tracker 1) ! 0)) \<noteq> []"
    by (simp add: sample_tracker_def tracker_eval payloads_def)
  have "\<exists>base segs lo hi. sr_base res = Some base \<and> placed (Some base) (payloads 0 (fl_inputs (tk_flows (sample_tracker 1) ! 0))) segs
      \<and> reconstructs FirstObserved segs lo hi res"
    using reported_streams_are_all_payloads [OF sample_tracker_run(2), of FirstObserved] rs ne by (elim exE conjE) simp
  then show ?thesis using rs ne by blast
qed

text \<open>
  The two directions of a connection share one key and get opposite directions, and different
  connections have different keys.\<close>

theorem flow_keys_identify_connections:
  "(fst (flow_key_new sc x y) = fst (flow_key_new sc' x' y') \<longleftrightarrow> sc = sc' \<and> {x, y} = {x', y'})
   \<and> (snd (flow_key_new sc x y) = snd (flow_key_new sc y x) \<longleftrightarrow> x = y)"
  by (auto simp: flow_key_new_def doubleton_eq_iff)

end
