(* ===== verification/Detection.thy ===== *)
theory Detection
  imports Probes_Correct Protocols Tcp_Tracker_Runs Capture
begin

text \<open>
  The engine's configuration (\<^verbatim>\<open>engine.rs\<close>, \<^verbatim>\<open>Config\<close>), the selection of protocol decoders for a flow by
  content and configured ports (\<^verbatim>\<open>detection.rs\<close>), and the analysis of single UDP datagrams (\<^verbatim>\<open>datagram.rs\<close>).  The
  theorem on \<open>classify_flow\<close> ties the bounded probes to the decoders: DNP3 is selected exactly when a chunk of
  the flow begins with a link frame the decoder would parse, or a configured port says so.
\<close>

section \<open>Configuration\<close>

record config =
  cg_limits :: limits
  cg_parse_mode :: parse_mode
  cg_overlap_policy :: overlap_policy
  cg_checksum_policy :: checksum_policy
  cg_idle_timeout_ns :: int
  cg_dnp3_ports :: "u16 list"
  cg_modbus_ports :: "u16 list"

definition config_default :: config where
  "config_default = \<lparr>cg_limits = limits_default, cg_parse_mode = Strict, cg_overlap_policy = RejectConflict,
     cg_checksum_policy = Observe, cg_idle_timeout_ns = 120000000000, cg_dnp3_ports = [20000], cg_modbus_ports = [502]\<rparr>"

definition config_validate :: "config \<Rightarrow> unit result" where
  "config_validate c =
     and_then (limits_validate (cg_limits c)) (\<lambda>_.
       if cg_idle_timeout_ns c \<le> 0 then Err (error_new Usage 0 ''idle_timeout'' ''must be positive'')
       else if \<exists>port \<in> set (cg_dnp3_ports c). port \<in> set (cg_modbus_ports c)
       then Err (error_new Usage 0 ''protocol_ports'' ''a port cannot select two dissectors'')
       else if length (cg_dnp3_ports c) + length (cg_modbus_ports c) > 128 then Err (error_limit ''protocol_ports'')
       else Ok ())"

section \<open>Classification of a flow\<close>

record selection =
  sel_dnp3 :: bool
  sel_modbus :: bool
  sel_basis :: string
  sel_matched :: "string list"

definition note_match :: "bool \<times> bool \<Rightarrow> probe_observation \<Rightarrow> bool \<times> bool" where
  "note_match = (\<lambda>(content_dnp3, content_modbus) observation.
     case po_result observation of
       ProbeMatch protocol _ _ _ \<Rightarrow>
         if protocol = ''dnp3'' then (True, content_modbus)
         else if protocol = ''modbus'' then (content_dnp3, True)
         else (content_dnp3, content_modbus)
     | _ \<Rightarrow> (content_dnp3, content_modbus))"

definition classify_chunk ::
    "probe_registry \<Rightarrow> flow_key \<Rightarrow> nat \<Rightarrow> bool \<times> bool \<Rightarrow> stream_chunk \<Rightarrow> (bool \<times> bool) result" where
  "classify_chunk registry key direction found chunk =
     (if ev_is_empty (ch_bytes chunk) then Ok found
      else let (source_port, destination_port) =
             (if direction = 0 then (ep_port (flow_a key), ep_port (flow_b key))
              else (ep_port (flow_b key), ep_port (flow_a key)));
           prefix = take (min (ev_len (ch_bytes chunk)) 4096) (ev_data (ch_bytes chunk))
      in and_then (registry_inspect registry \<lparr>pi_transport = ProbeTcp, pi_source_port = source_port,
             pi_destination_port = destination_port, pi_prefix = prefix\<rparr>) (\<lambda>observations.
           Ok (foldl note_match found observations)))"

definition classify_stream ::
    "probe_registry \<Rightarrow> flow_result \<Rightarrow> bool \<times> bool \<Rightarrow> nat \<Rightarrow> (bool \<times> bool) result" where
  "classify_stream registry flow found direction =
     (case arr_get (fo_streams flow) direction of
        None \<Rightarrow> Ok found
      | Some stream \<Rightarrow> for_each (classify_chunk registry (fo_key flow) direction) found (sr_chunks stream))"

definition port_hint :: "u16 list \<Rightarrow> flow_key \<Rightarrow> bool" where
  "port_hint ports key \<longleftrightarrow> ep_port (flow_a key) \<in> set ports \<or> ep_port (flow_b key) \<in> set ports"

definition classify_flow :: "flow_result \<Rightarrow> config \<Rightarrow> selection result" where
  "classify_flow flow c =
     and_then registry_builtins (\<lambda>registry.
     and_then (for_each (classify_stream registry flow) (False, False) [0, 1]) (\<lambda>(content_dnp3, content_modbus).
       let hint_dnp3 = port_hint (cg_dnp3_ports c) (fo_key flow);
           hint_modbus = port_hint (cg_modbus_ports c) (fo_key flow);
           dnp3 = (content_dnp3 \<or> hint_dnp3); modbus = (content_modbus \<or> hint_modbus);
           basis = (if content_dnp3 \<or> content_modbus
                    then if (content_dnp3 \<and> hint_modbus) \<or> (content_modbus \<and> hint_dnp3)
                         then ''content_and_configured_port_hint'' else ''content''
                    else if dnp3 \<or> modbus then ''configured_port_hint_unconfirmed_by_probe''
                    else ''none'')
       in Ok \<lparr>sel_dnp3 = dnp3, sel_modbus = modbus, sel_basis = basis,
              sel_matched = (if dnp3 then [''dnp3''] else []) @ (if modbus then [''modbus''] else [])\<rparr>))"

section \<open>Single datagrams\<close>

text \<open>A result kept as a value, as \<^verbatim>\<open>DatagramAnalysis\<close> and \<^verbatim>\<open>ApplicationData\<close> keep one; a panic is not kept.\<close>

fun attempt :: "'a result \<Rightarrow> (error + 'a) result" where
  "attempt (Ok x) = Ok (Inr x)"
| "attempt (Err e) = Ok (Inl e)"
| "attempt Panic = Panic"

lemma attempt_ok: "m \<noteq> Panic \<Longrightarrow> \<exists>r. attempt m = Ok r"
  by (cases m) auto

record datagram_analysis =
  da_scope :: scope
  da_source :: endpoint
  da_destination :: endpoint
  da_packets :: "packet_id list"
  da_payload :: evidence
  da_data :: "error + dnp3_result"

definition decode_dnp3_datagram :: "evidence \<Rightarrow> limits \<Rightarrow> dnp3_result result" where
  "decode_dnp3_datagram bytes l =
     and_then (limits_validate l) (\<lambda>_.
       if ev_len bytes > max_application_bytes l then Err (error_limit ''dnp3_datagram_bytes'')
       else if \<not> ev_validate bytes
       then Err (error_new Invariant 0 ''provenance'' ''invalid datagram source spans'')
       else dnp3_decode \<lparr>sr_base = None, sr_anchored = False,
           sr_chunks = (if ev_is_empty bytes then [] else [\<lparr>ch_offset = 0, ch_bytes = bytes\<rparr>]),
           sr_gaps = [], sr_conflicts = [], sr_duplicates = 0\<rparr> l)"

definition analyze_udp ::
    "scope \<Rightarrow> udp_datagram \<Rightarrow> packet_id list \<Rightarrow> u16 list \<Rightarrow> limits \<Rightarrow> datagram_analysis option result" where
  "analyze_udp sc dg contributors dnp3_ports l =
     and_then (limits_validate l) (\<lambda>_.
       if ep_port (udp_source dg) \<notin> set dnp3_ports \<and> ep_port (udp_destination dg) \<notin> set dnp3_ports then Ok None
       else if ev_is_empty (udp_payload dg) then Ok None
       else if contributors = []
       then Err (error_new Invariant 0 ''udp_evidence'' ''source contributors are required'')
       else and_then (attempt (decode_dnp3_datagram (udp_payload dg) l)) (\<lambda>data.
         Ok (Some \<lparr>da_scope = sc, da_source = udp_source dg, da_destination = udp_destination dg,
                   da_packets = sort_dedup (contributors @ ev_packets (udp_payload dg)),
                   da_payload = udp_payload dg, da_data = data\<rparr>)))"

section \<open>What selects a decoder\<close>

definition mbap_frame :: "bytes \<Rightarrow> bool" where
  "mbap_frame b \<longleftrightarrow> 8 \<le> length b \<and> b ! 2 = 0 \<and> b ! 3 = 0
     \<and> (let len = unat (be16_word (b ! 4) (b ! 5)) in 2 \<le> len \<and> len \<le> 254 \<and> 6 + len \<le> length b) \<and> b ! 7 AND 0x7f \<noteq> 0"

lemma modbus_probe_frame:
  assumes "pi_transport inp = ProbeTcp"
  shows "(\<exists>s n r. modbus_probe_input inp = Ok (ProbeMatch name s n r)) \<longleftrightarrow> name = ''modbus'' \<and> mbap_frame (pi_prefix inp)"
proof (cases "length (pi_prefix inp) < 6")
  case True
  then show ?thesis using assms by (auto simp: modbus_probe_input_def mbap_frame_def Let_def)
next
  case False
  then have "sub_list (pi_prefix inp) 2 4 = [pi_prefix inp ! 2, pi_prefix inp ! 3]"
    by (simp add: sub_list_def drop_two)
  then show ?thesis using False assms by (auto simp: modbus_probe_input_def mbap_frame_def Let_def)
qed


text \<open>The first bytes of a chunk answer for the whole chunk, since no probe looks further than 4096 bytes.\<close>

lemma classify_chunk_ok:
  assumes "ev_validate (ch_bytes chunk)"
  shows "classify_chunk builtins key direction (d, m) chunk
    = Ok (d \<or> (\<exists>f n. parse_link (ch_bytes chunk) 0 0 = Ok (f, n)), m \<or> mbap_frame (ev_data (ch_bytes chunk)))"
proof (cases "ev_is_empty (ch_bytes chunk)")
  case True
  then have "ev_data (ch_bytes chunk) = []" by (simp add: ev_is_empty_def)
  then show ?thesis using True by (simp add: classify_chunk_def mbap_frame_def parse_link_def i64_of_usize_def
        checked_add_i64_def in_i64_def get_range_def)
next
  case False
  let ?b = "ev_data (ch_bytes chunk)"
  obtain sp dp where ports: "(if direction = 0 then (ep_port (flow_a key), ep_port (flow_b key))
      else (ep_port (flow_b key), ep_port (flow_a key))) = (sp, dp)" by fastforce
  define inp where "inp b = \<lparr>pi_transport = ProbeTcp, pi_source_port = sp, pi_destination_port = dp, pi_prefix = b\<rparr>" for b
  have pre: "take (min (ev_len (ch_bytes chunk)) 4096) ?b = take 4096 ?b" by (simp add: ev_len_def min_def)
  have dnp: "dnp3_probe_prefix (take 4096 ?b) = dnp3_probe_prefix ?b"
    using dnp3_pr.answer_of_take [of 4096 ?b "inp []"] by (simp add: dnp3_probe_def)
  have mod: "modbus_probe_input (inp (take 4096 ?b)) = modbus_probe_input (inp ?b)"
    using modbus_pr.answer_of_take [of 4096 ?b "inp []"] by (simp add: modbus_probe_def inp_def)
  obtain x y where xy: "dnp3_probe_prefix ?b = Ok x" "modbus_probe_input (inp ?b) = Ok y"
    "registry_inspect builtins (inp (take 4096 ?b))
       = Ok [\<lparr>po_probe = ''dnp3_link_crc'', po_result = x\<rparr>, \<lparr>po_probe = ''modbus_tcp_mbap'', po_result = y\<rparr>]"
    using builtins_inspect [of "inp (take 4096 ?b)"] dnp mod by (auto simp: inp_def)
  have x: "(\<exists>s n r. x = ProbeMatch name s n r) \<longleftrightarrow> name = ''dnp3'' \<and> (\<exists>f n. parse_link (ch_bytes chunk) 0 0 = Ok (f, n))" for name
    using dnp3_probe_parses [OF assms, of 0 name] xy(1) by (auto simp: in_i64_def)
  have y: "(\<exists>s n r. y = ProbeMatch name s n r) \<longleftrightarrow> name = ''modbus'' \<and> mbap_frame ?b" for name
    using modbus_probe_frame [of "inp ?b" name] xy(2) by (auto simp: inp_def)
  have one: "foldl note_match (d, m) [\<lparr>po_probe = ''dnp3_link_crc'', po_result = x\<rparr>] = (d \<or> (\<exists>f n. parse_link (ch_bytes chunk) 0 0 = Ok (f, n)), m)"
    using x by (cases x) (auto simp: note_match_def)
  have two: "foldl note_match (d', m) [\<lparr>po_probe = ''modbus_tcp_mbap'', po_result = y\<rparr>] = (d', m \<or> mbap_frame ?b)" for d'
    using y by (cases y) (auto simp: note_match_def)
  show ?thesis
    unfolding classify_chunk_def pre ports Let_def
    using False xy(3) one two by (simp add: inp_def)
qed

definition starts_dnp3 :: "stream_chunk \<Rightarrow> bool" where
  "starts_dnp3 chunk \<longleftrightarrow> (\<exists>f n. parse_link (ch_bytes chunk) 0 0 = Ok (f, n))"

definition starts_mbap :: "stream_chunk \<Rightarrow> bool" where
  "starts_mbap chunk \<longleftrightarrow> mbap_frame (ev_data (ch_bytes chunk))"

definition side_chunks :: "flow_result \<Rightarrow> nat \<Rightarrow> stream_chunk list" where
  "side_chunks flow d = (case arr_get (fo_streams flow) d of None \<Rightarrow> [] | Some stream \<Rightarrow> sr_chunks stream)"

definition flow_chunks :: "flow_result \<Rightarrow> stream_chunk set" where
  "flow_chunks flow = set (side_chunks flow 0) \<union> set (side_chunks flow 1)"

text \<open>Some captured piece of the flow begins with a link frame the link parser accepts, or with a complete MBAP frame.\<close>

definition dnp3_content :: "flow_result \<Rightarrow> bool" where
  "dnp3_content flow \<longleftrightarrow> (\<exists>chunk \<in> flow_chunks flow. starts_dnp3 chunk)"

definition modbus_content :: "flow_result \<Rightarrow> bool" where
  "modbus_content flow \<longleftrightarrow> (\<exists>chunk \<in> flow_chunks flow. starts_mbap chunk)"

lemma classify_chunks_ok:
  "\<forall>chunk \<in> set chunks. ev_validate (ch_bytes chunk) \<Longrightarrow>
   for_each (classify_chunk builtins key direction) (d, m) chunks
     = Ok (d \<or> (\<exists>chunk \<in> set chunks. starts_dnp3 chunk), m \<or> (\<exists>chunk \<in> set chunks. starts_mbap chunk))"
  by (induction chunks arbitrary: d m) (auto simp: classify_chunk_ok starts_dnp3_def starts_mbap_def)

lemma classify_streams_ok:
  assumes "\<forall>chunk \<in> flow_chunks flow. ev_validate (ch_bytes chunk)"
  shows "for_each (classify_stream builtins flow) (False, False) [0, 1]
    = Ok (\<exists>chunk \<in> flow_chunks flow. starts_dnp3 chunk, \<exists>chunk \<in> flow_chunks flow. starts_mbap chunk)"
proof -
  have "classify_stream builtins flow (a, b) d
      = Ok (a \<or> (\<exists>chunk \<in> set (side_chunks flow d). starts_dnp3 chunk), b \<or> (\<exists>chunk \<in> set (side_chunks flow d). starts_mbap chunk))"
    if "\<forall>chunk \<in> set (side_chunks flow d). ev_validate (ch_bytes chunk)" for a b d
    using that by (auto simp: classify_stream_def classify_chunks_ok side_chunks_def split: option.split)
  then show ?thesis using assms by (auto simp: flow_chunks_def)
qed

text \<open>
  C35: A protocol decoder is selected for what the stream contains.  For a flow whose chunks are valid
  evidence, classification never fails; DNP3 is selected exactly when some chunk begins with a link frame
  that the link parser accepts or a DNP3 port is configured for an endpoint, Modbus exactly when some chunk
  begins with a complete MBAP frame with a function code or a Modbus port is configured; the reported matches
  are the selected protocols, DNP3 first.  The reported basis says which of the two it was: a port hint alone is
  reported as unconfirmed exactly when something is selected though no chunk begins with a frame of either protocol,
  content together with a port hint exactly when the content of one protocol meets the configured port of the other,
  content alone exactly when a frame is found and no such hint adds the other protocol, and none exactly when nothing is selected.\<close>

theorem flows_are_classified_by_content_or_port:
  assumes "\<forall>chunk \<in> flow_chunks flow. ev_validate (ch_bytes chunk)"
  shows "\<exists>s. classify_flow flow c = Ok s
    \<and> (sel_dnp3 s \<longleftrightarrow> dnp3_content flow \<or> port_hint (cg_dnp3_ports c) (fo_key flow))
    \<and> (sel_modbus s \<longleftrightarrow> modbus_content flow \<or> port_hint (cg_modbus_ports c) (fo_key flow))
    \<and> sel_matched s = [p \<leftarrow> [''dnp3'', ''modbus'']. p = ''dnp3'' \<and> sel_dnp3 s \<or> p = ''modbus'' \<and> sel_modbus s]
    \<and> (sel_basis s = ''none'' \<longleftrightarrow> \<not> sel_dnp3 s \<and> \<not> sel_modbus s)
    \<and> (sel_basis s = ''configured_port_hint_unconfirmed_by_probe''
         \<longleftrightarrow> (sel_dnp3 s \<or> sel_modbus s) \<and> \<not> dnp3_content flow \<and> \<not> modbus_content flow)
    \<and> (sel_basis s = ''content_and_configured_port_hint''
         \<longleftrightarrow> dnp3_content flow \<and> port_hint (cg_modbus_ports c) (fo_key flow) \<or> modbus_content flow \<and> port_hint (cg_dnp3_ports c) (fo_key flow))
    \<and> (sel_basis s = ''content''
         \<longleftrightarrow> (dnp3_content flow \<or> modbus_content flow) \<and> \<not> (dnp3_content flow \<and> port_hint (cg_modbus_ports c) (fo_key flow)) \<and> \<not> (modbus_content flow \<and> port_hint (cg_dnp3_ports c) (fo_key flow)))"
proof -
  let ?d = "dnp3_content flow" and ?m = "modbus_content flow"
    and ?hd = "port_hint (cg_dnp3_ports c) (fo_key flow)" and ?hm = "port_hint (cg_modbus_ports c) (fo_key flow)"
  have "classify_flow flow c = Ok \<lparr>sel_dnp3 = ?d \<or> ?hd, sel_modbus = ?m \<or> ?hm,
      sel_basis = (if ?d \<or> ?m
        then if (?d \<and> ?hm) \<or> (?m \<and> ?hd)
             then ''content_and_configured_port_hint'' else ''content''
        else if (?d \<or> ?hd) \<or> (?m \<or> ?hm) then ''configured_port_hint_unconfirmed_by_probe''
        else ''none''),
      sel_matched = (if ?d \<or> ?hd then [''dnp3''] else []) @ (if ?m \<or> ?hm then [''modbus''] else [])\<rparr>"
    unfolding classify_flow_def registry_builtins_ok and_then.simps classify_streams_ok [OF assms(1)] Let_def
    by (simp add: dnp3_content_def modbus_content_def)
  then show ?thesis by simp
qed

text \<open>A sample: a flow with one captured link frame and no configured port.\<close>

definition sample_flow_result :: flow_result where
  "sample_flow_result = \<lparr>fo_id = 0, fo_generation = 1, fo_key = FlowKey (Scope 0 0 None []) (Endpoint (V4 [10, 0, 0, 1]) 1) (Endpoint (V4 [10, 0, 0, 2]) 2),
     fo_syn = (None, None), fo_closed = False, fo_midstream = True, fo_first_ns = None, fo_last_ns = None, fo_packets = [],
     fo_streams = (Some \<lparr>sr_base = None, sr_anchored = False, sr_chunks = [\<lparr>ch_offset = 0, ch_bytes = sample_frame\<rparr>],
       sr_gaps = [], sr_conflicts = [], sr_duplicates = 0\<rparr>, None), fo_errors = [], fo_anomalies = []\<rparr>"

theorem flows_are_classified_by_content_or_port_witness:
  "\<exists>s. classify_flow sample_flow_result config_default = Ok s \<and> sel_dnp3 s \<and> \<not> sel_modbus s
     \<and> sel_basis s = ''content'' \<and> sel_matched s = [''dnp3'']"
proof -
  have chunks: "flow_chunks sample_flow_result = {\<lparr>ch_offset = 0, ch_bytes = sample_frame\<rparr>}"
    by (simp add: flow_chunks_def side_chunks_def sample_flow_result_def arr_get_def)
  have parses: "\<exists>f n. parse_link sample_frame 0 0 = Ok (f, n)"
    using parse_link_encoded [OF sample_frame_valid(1), of 0 0 "replicate 17 7" "0xc4" 1 2 "[]"] sample_frame_valid(2)
    by (auto simp: in_i64_def)
  have valid: "\<forall>chunk \<in> flow_chunks sample_flow_result. ev_validate (ch_bytes chunk)"
    using sample_frame_valid(1) by (simp add: chunks)
  have "\<not> mbap_frame (ev_data sample_frame)"
    using sample_frame_valid(2) by (simp add: mbap_frame_def encode_link_def link_header_def)
  moreover have "\<not> port_hint (cg_modbus_ports config_default) (fo_key sample_flow_result)"
    by (simp add: port_hint_def sample_flow_result_def config_default_def)
  ultimately show ?thesis
    using flows_are_classified_by_content_or_port [OF valid, of config_default] parses
    by (elim exE) (rule exI, auto simp: dnp3_content_def modbus_content_def starts_dnp3_def starts_mbap_def chunks)
qed

end
