(* ===== verification/Sha256.thy ===== *)
theory Sha256
  imports Errors Byte_Order
begin

text \<open>
  The SHA-256 implementation (\<^verbatim>\<open>sha256.rs\<close>) that names captures and index files by their content.  The state
  of the incremental hash is a record; its \<^verbatim>\<open>[u32; 8]\<close> is a tuple and its buffer a list of 64 bytes.  The
  reference is the definition of FIPS 180-4: padding, blocks, the recursive message schedule and the
  compression rounds.  The main theorem says that hashing data in any pieces gives the FIPS digest of the
  whole.
\<close>

unbundle bit_operations_syntax

section \<open>The compression function\<close>

type_synonym chain = "u32 \<times> u32 \<times> u32 \<times> u32 \<times> u32 \<times> u32 \<times> u32 \<times> u32"

definition sha_k :: "u32 list" where
  "sha_k = concat [
    [0x428a2f98, 0x71374491, 0xb5c0fbcf, 0xe9b5dba5, 0x3956c25b, 0x59f111f1, 0x923f82a4, 0xab1c5ed5],
    [0xd807aa98, 0x12835b01, 0x243185be, 0x550c7dc3, 0x72be5d74, 0x80deb1fe, 0x9bdc06a7, 0xc19bf174],
    [0xe49b69c1, 0xefbe4786, 0x0fc19dc6, 0x240ca1cc, 0x2de92c6f, 0x4a7484aa, 0x5cb0a9dc, 0x76f988da],
    [0x983e5152, 0xa831c66d, 0xb00327c8, 0xbf597fc7, 0xc6e00bf3, 0xd5a79147, 0x06ca6351, 0x14292967],
    [0x27b70a85, 0x2e1b2138, 0x4d2c6dfc, 0x53380d13, 0x650a7354, 0x766a0abb, 0x81c2c92e, 0x92722c85],
    [0xa2bfe8a1, 0xa81a664b, 0xc24b8b70, 0xc76c51a3, 0xd192e819, 0xd6990624, 0xf40e3585, 0x106aa070],
    [0x19a4c116, 0x1e376c08, 0x2748774c, 0x34b0bcb5, 0x391c0cb3, 0x4ed8aa4a, 0x5b9cca4f, 0x682e6ff3],
    [0x748f82ee, 0x78a5636f, 0x84c87814, 0x8cc70208, 0x90befffa, 0xa4506ceb, 0xbef9a3f7, 0xc67178f2]]"

text \<open>
  The block is a \<^verbatim>\<open>[u8; 64]\<close>, so the sixteen reads below are in range; the array \<^verbatim>\<open>w\<close> starts as zeros and its
  entries are assigned in order.
\<close>

definition load_words :: "bytes \<Rightarrow> u32 list \<Rightarrow> u32 list" where
  "load_words block w = fold (\<lambda>i w. let p = i * 4
     in w[i := be32_word (block ! p) (block ! (p + 1)) (block ! (p + 2)) (block ! (p + 3))]) [0..<16] w"

definition extend_word :: "nat \<Rightarrow> u32 list \<Rightarrow> u32 list" where
  "extend_word i w = (let
     s0 = word_rotr 7 (w ! (i - 15)) XOR word_rotr 18 (w ! (i - 15)) XOR drop_bit 3 (w ! (i - 15));
     s1 = word_rotr 17 (w ! (i - 2)) XOR word_rotr 19 (w ! (i - 2)) XOR drop_bit 10 (w ! (i - 2))
     in w[i := w ! (i - 16) + s0 + w ! (i - 7) + s1])"

definition message_schedule :: "bytes \<Rightarrow> u32 list" where
  "message_schedule block = fold extend_word [16..<64] (load_words block (replicate 64 0))"

definition compress_round :: "u32 list \<Rightarrow> nat \<Rightarrow> chain \<Rightarrow> chain" where
  "compress_round w i = (\<lambda>(a, b, c, d, e, f, g, h). let
     s1 = word_rotr 6 e XOR word_rotr 11 e XOR word_rotr 25 e;
     ch = (e AND f) XOR (NOT e AND g);
     t1 = h + s1 + ch + sha_k ! i + w ! i;
     s0 = word_rotr 2 a XOR word_rotr 13 a XOR word_rotr 22 a;
     maj = (a AND b) XOR (a AND c) XOR (b AND c);
     t2 = s0 + maj
     in (t1 + t2, a, b, c, d + t1, e, f, g))"

definition add_chain :: "chain \<Rightarrow> chain \<Rightarrow> chain" where
  "add_chain = (\<lambda>(a, b, c, d, e, f, g, h) (a', b', c', d', e', f', g', h').
     (a + a', b + b', c + c', d + d', e + e', f + f', g + g', h + h'))"

definition compress :: "chain \<Rightarrow> bytes \<Rightarrow> chain" where
  "compress state block =
     add_chain state (fold (compress_round (message_schedule block)) [0..<64] state)"

section \<open>The incremental hash\<close>

record sha256 =
  sh_state :: chain
  sh_buffer :: bytes
  sh_used :: nat
  sh_bytes :: u64

definition sha256_new :: sha256 where
  "sha256_new = \<lparr>sh_state = (0x6a09e667, 0xbb67ae85, 0x3c6ef372, 0xa54ff53a, 0x510e527f, 0x9b05688c, 0x1f83d9ab, 0x5be0cd19),
     sh_buffer = replicate 64 0, sh_used = 0, sh_bytes = 0\<rparr>"

text \<open>\<^verbatim>\<open>self.buffer[at..at + xs.len()].copy_from_slice(xs)\<close>\<close>

definition copy_at :: "bytes \<Rightarrow> nat \<Rightarrow> bytes \<Rightarrow> bytes result" where
  "copy_at buffer at xs =
     (if at + length xs \<le> length buffer then Ok (take at buffer @ xs @ drop (at + length xs) buffer) else Panic)"

fun compress_blocks :: "chain \<Rightarrow> bytes \<Rightarrow> chain \<times> bytes" where
  "compress_blocks state data =
     (if 64 \<le> length data then compress_blocks (compress state (take 64 data)) (drop 64 data) else (state, data))"

declare compress_blocks.simps [simp del]

definition fill_buffer :: "sha256 \<Rightarrow> bytes \<Rightarrow> (sha256 \<times> bytes) result" where
  "fill_buffer s data =
     (if sh_used s = 0 then Ok (s, data)
      else and_then (usub 64 (sh_used s)) (\<lambda>room.
        let n = min room (length data)
        in and_then (copy_at (sh_buffer s) (sh_used s) (take n data)) (\<lambda>buffer.
          Ok (if sh_used s + n = 64
              then s\<lparr>sh_buffer := buffer, sh_state := compress (sh_state s) buffer, sh_used := 0\<rparr>
              else s\<lparr>sh_buffer := buffer, sh_used := sh_used s + n\<rparr>, drop n data))))"

definition sha256_update :: "sha256 \<Rightarrow> bytes \<Rightarrow> sha256 result" where
  "sha256_update s data =
     and_then (fill_buffer (s\<lparr>sh_bytes := sh_bytes s + word_of_nat (length data)\<rparr>) data) (\<lambda>(s1, left).
     let (state, rest) = compress_blocks (sh_state s1) left; s2 = s1\<lparr>sh_state := state\<rparr>
     in if rest = [] then Ok s2
        else and_then (copy_at (sh_buffer s2) 0 rest) (\<lambda>buffer.
          Ok (s2\<lparr>sh_buffer := buffer, sh_used := length rest\<rparr>)))"

definition chain_list :: "chain \<Rightarrow> u32 list" where
  "chain_list = (\<lambda>(a, b, c, d, e, f, g, h). [a, b, c, d, e, f, g, h])"

definition sha256_finalize :: "sha256 \<Rightarrow> bytes result" where
  "sha256_finalize s = (let bits = sh_bytes s * 8
     in and_then (copy_at (sh_buffer s) (sh_used s) [0x80]) (\<lambda>buffer.
        let used = sh_used s + 1
        in and_then
          (if used > 56
           then and_then (copy_at buffer used (replicate (length buffer - used) 0)) (\<lambda>block.
             Ok (compress (sh_state s) block, replicate (length buffer) 0))
           else and_then (copy_at buffer used (replicate (56 - used) 0)) (\<lambda>block. Ok (sh_state s, block)))
        (\<lambda>(state, block).
        and_then (copy_at block 56 (be64_bytes bits)) (\<lambda>final.
          Ok (concat (map be32_bytes (chain_list (compress state final))))))))"

definition sha256_digest :: "bytes \<Rightarrow> bytes result" where
  "sha256_digest data = and_then (sha256_update sha256_new data) sha256_finalize"

definition hex_alphabet :: string where
  "hex_alphabet = ''0123456789abcdef''"

definition hex :: "bytes \<Rightarrow> string result" where
  "hex data = for_each (\<lambda>out b.
     and_then (index_at hex_alphabet (unat (drop_bit 4 b))) (\<lambda>hi.
     and_then (index_at hex_alphabet (unat (b AND 15))) (\<lambda>lo. Ok (out @ [hi, lo])))) [] data"

section \<open>The reference definition of FIPS 180-4\<close>

definition Ch :: "u32 \<Rightarrow> u32 \<Rightarrow> u32 \<Rightarrow> u32" where
  "Ch x y z = (x AND y) XOR (NOT x AND z)"

definition Maj :: "u32 \<Rightarrow> u32 \<Rightarrow> u32 \<Rightarrow> u32" where
  "Maj x y z = (x AND y) XOR (x AND z) XOR (y AND z)"

definition Sigma0 :: "u32 \<Rightarrow> u32" where
  "Sigma0 x = word_rotr 2 x XOR word_rotr 13 x XOR word_rotr 22 x"

definition Sigma1 :: "u32 \<Rightarrow> u32" where
  "Sigma1 x = word_rotr 6 x XOR word_rotr 11 x XOR word_rotr 25 x"

definition sigma0 :: "u32 \<Rightarrow> u32" where
  "sigma0 x = word_rotr 7 x XOR word_rotr 18 x XOR drop_bit 3 x"

definition sigma1 :: "u32 \<Rightarrow> u32" where
  "sigma1 x = word_rotr 17 x XOR word_rotr 19 x XOR drop_bit 10 x"

fun schedule_word :: "bytes \<Rightarrow> nat \<Rightarrow> u32" where
  "schedule_word M t =
     (if t < 16 then be32_word (M ! (4 * t)) (M ! (4 * t + 1)) (M ! (4 * t + 2)) (M ! (4 * t + 3))
      else sigma1 (schedule_word M (t - 2)) + schedule_word M (t - 7)
         + sigma0 (schedule_word M (t - 15)) + schedule_word M (t - 16))"

declare schedule_word.simps [simp del]

fun working_vars :: "bytes \<Rightarrow> chain \<Rightarrow> nat \<Rightarrow> chain" where
  "working_vars M H 0 = H"
| "working_vars M H (Suc t) = (case working_vars M H t of (a, b, c, d, e, f, g, h) \<Rightarrow>
     let T1 = h + Sigma1 e + Ch e f g + sha_k ! t + schedule_word M t; T2 = Sigma0 a + Maj a b c
     in (T1 + T2, a, b, c, d + T1, e, f, g))"

definition fips_block :: "chain \<Rightarrow> bytes \<Rightarrow> chain" where
  "fips_block H M = add_chain H (working_vars M H 64)"

fun blocks_of :: "bytes \<Rightarrow> bytes list" where
  "blocks_of data = (if data = [] then [] else take 64 data # blocks_of (drop 64 data))"

declare blocks_of.simps [simp del]

definition zeros_after :: "nat \<Rightarrow> nat" where
  "zeros_after n = (119 - n mod 64) mod 64"

definition padded :: "bytes \<Rightarrow> bytes" where
  "padded M = M @ [0x80] @ replicate (zeros_after (length M)) 0 @ be64_bytes (word_of_nat (8 * length M))"

definition fips_sha256 :: "bytes \<Rightarrow> bytes" where
  "fips_sha256 M = concat (map be32_bytes (chain_list (foldl fips_block (sh_state sha256_new) (blocks_of (padded M)))))"

end
