(* ===== verification/Sha256_Correct.thy ===== *)
theory Sha256_Correct
  imports Sha256
begin

text \<open>
  The compression loop computes the recursive schedule and the rounds of FIPS 180-4; the incremental hash
  keeps the blocks seen so far compressed and the rest in its buffer, so its digest depends only on the
  concatenation of the pieces.
\<close>

section \<open>The compression function is the one of FIPS 180-4\<close>

lemma load_words_nth:
  assumes "length w = 64"
  shows "length (load_words block w) = 64 \<and> (\<forall>t < 16. load_words block w ! t = schedule_word block t)"
proof -
  have "length (fold (\<lambda>i w. let p = i * 4 in
        w[i := be32_word (block ! p) (block ! (p + 1)) (block ! (p + 2)) (block ! (p + 3))]) [0..<n] w) = 64
      \<and> (\<forall>t < n. fold (\<lambda>i w. let p = i * 4 in
        w[i := be32_word (block ! p) (block ! (p + 1)) (block ! (p + 2)) (block ! (p + 3))]) [0..<n] w ! t = schedule_word block t)"
    if "n \<le> 16" for n
    using that assms
    by (induction n) (auto simp: Let_def nth_list_update schedule_word.simps [of block] less_Suc_eq mult.commute)
  from this [of 16] show ?thesis by (simp add: load_words_def)
qed

lemma extend_words:
  assumes "length w = 64" "\<forall>t < 16. w ! t = schedule_word M t" "16 \<le> n" "n \<le> 64"
  shows "length (fold extend_word [16..<n] w) = 64 \<and> (\<forall>t < n. fold extend_word [16..<n] w ! t = schedule_word M t)"
  using assms(3,4)
proof (induction n rule: dec_induct)
  case base
  then show ?case using assms(1,2) by simp
next
  case (step n)
  let ?w = "fold extend_word [16..<n] w"
  have ih: "length ?w = 64" "\<And>t. t < n \<Longrightarrow> ?w ! t = schedule_word M t" using step by auto
  have "extend_word n ?w = ?w[n := schedule_word M n]"
    using step.hyps ih(2) [of "n - 16"] ih(2) [of "n - 15"] ih(2) [of "n - 7"] ih(2) [of "n - 2"]
    by (simp add: extend_word_def Let_def schedule_word.simps [of M n] sigma0_def sigma1_def ac_simps)
  with step.hyps step.prems ih show ?case by (auto simp: nth_list_update less_Suc_eq)
qed

lemma message_schedule_nth: "t < 64 \<Longrightarrow> message_schedule block ! t = schedule_word block t"
  using extend_words [of "load_words block (replicate 64 0)" block 64] load_words_nth [of "replicate 64 0" block]
  by (simp add: message_schedule_def)

lemma compress_is_fips: "compress H M = fips_block H M"
proof -
  have "fold (compress_round (message_schedule M)) [0..<n] H = working_vars M H n" if "n \<le> 64" for n
    using that
    by (induction n) (auto simp: compress_round_def message_schedule_nth Let_def Ch_def Maj_def Sigma0_def Sigma1_def
        split: prod.splits)
  then show ?thesis by (simp add: compress_def fips_block_def)
qed

section \<open>The buffer\<close>

lemma blocks_of_Nil [simp]: "blocks_of [] = []"
  by (simp add: blocks_of.simps)

lemma blocks_of_append: "64 dvd length xs \<Longrightarrow> blocks_of (xs @ ys) = blocks_of xs @ blocks_of ys"
proof (induction xs rule: blocks_of.induct)
  case (1 xs)
  show ?case
  proof (cases "xs = []")
    case False
    then have "64 \<le> length xs" using "1.prems" by (auto dest: dvd_imp_le)
    moreover from this have "64 dvd length (drop 64 xs)" using "1.prems" by (simp add: dvd_diff_nat)
    ultimately show ?thesis
      using "1.IH" [OF False] False by (simp add: blocks_of.simps [of "xs @ ys"] blocks_of.simps [of xs])
  qed simp
qed

lemma blocks_of_single: "length xs = 64 \<Longrightarrow> blocks_of xs = [xs]"
  by (subst blocks_of.simps) auto

text \<open>
  What the state stands for: the chain value is that of the whole blocks of the data so far and the buffer
  holds the rest; the counter is the length modulo \<open>2 ^ 64\<close>.
\<close>

definition absorbed :: "bytes \<Rightarrow> sha256 \<Rightarrow> bool" where
  "absorbed M s \<longleftrightarrow> length (sh_buffer s) = 64 \<and> sh_used s < 64
     \<and> (\<exists>whole. 64 dvd length whole \<and> M = whole @ take (sh_used s) (sh_buffer s)
          \<and> sh_state s = foldl fips_block (sh_state sha256_new) (blocks_of whole))"

definition hashed :: "bytes \<Rightarrow> sha256 \<Rightarrow> bool" where
  "hashed M s \<longleftrightarrow> absorbed M s \<and> sh_bytes s = word_of_nat (length M)"

lemma absorbedE:
  assumes "absorbed M s"
  obtains whole where "length (sh_buffer s) = 64" "sh_used s < 64" "64 dvd length whole"
    "M = whole @ take (sh_used s) (sh_buffer s)" "sh_state s = foldl fips_block (sh_state sha256_new) (blocks_of whole)"
  using assms by (auto simp: absorbed_def)

lemma absorbedI:
  assumes "length (sh_buffer s) = 64" "sh_used s < 64" "64 dvd length whole"
    "M = whole @ take (sh_used s) (sh_buffer s)" "sh_state s = foldl fips_block (sh_state sha256_new) (blocks_of whole)"
  shows "absorbed M s"
  using assms by (auto simp: absorbed_def)

lemma hashed_new: "hashed [] sha256_new"
  by (simp add: hashed_def absorbed_def sha256_new_def)

lemma compress_blocks_spec:
  assumes "compress_blocks (foldl fips_block H (blocks_of done)) data = (state, rest)" "64 dvd length done"
  shows "length rest < 64 \<and> (\<exists>more. 64 dvd length more \<and> data = more @ rest
    \<and> state = foldl fips_block H (blocks_of (done @ more)))"
  using assms
proof (induction "length data" arbitrary: data "done" rule: less_induct)
  case less
  show ?case
  proof (cases "64 \<le> length data")
    case True
    let ?done = "done @ take 64 data"
    have len: "64 dvd length ?done" using less.prems(2) True by (simp add: min_absorb2)
    have step: "fips_block (foldl fips_block H (blocks_of done)) (take 64 data) = foldl fips_block H (blocks_of ?done)"
      using less.prems(2) True by (simp add: blocks_of_append blocks_of_single)
    have next_blocks: "compress_blocks (foldl fips_block H (blocks_of ?done)) (drop 64 data) = (state, rest)"
      using less.prems(1) True by (subst (asm) compress_blocks.simps) (simp add: compress_is_fips step)
    have "length (drop 64 data) < length data" using True by simp
    from less.hyps [OF this next_blocks len] obtain more_data where "length rest < 64" "64 dvd length more_data"
      "drop 64 data = more_data @ rest" "state = foldl fips_block H (blocks_of (?done @ more_data))" by (elim conjE exE)
    moreover have "64 dvd length (take 64 data @ more_data)"
      using True calculation(2) by (simp add: min_absorb2)
    ultimately show ?thesis by (metis append.assoc append_take_drop_id)
  next
    case False
    then show ?thesis using less.prems by (subst (asm) compress_blocks.simps) auto
  qed
qed

lemma fill_buffer_ok:
  assumes "absorbed M s"
  shows "\<exists>s' eaten left. fill_buffer s data = Ok (s', left) \<and> data = eaten @ left \<and> absorbed (M @ eaten) s'
    \<and> sh_bytes s' = sh_bytes s \<and> (left = [] \<or> sh_used s' = 0)"
proof (cases "sh_used s = 0")
  case True
  then show ?thesis using assms by (intro exI [of _ s] exI [of _ "[]"] exI [of _ data]) (simp add: fill_buffer_def)
next
  case False
  obtain whole where b: "length (sh_buffer s) = 64" "sh_used s < 64" "64 dvd length whole"
    "M = whole @ take (sh_used s) (sh_buffer s)" "sh_state s = foldl fips_block (sh_state sha256_new) (blocks_of whole)"
    using assms by (rule absorbedE)
  define n where "n = min (64 - sh_used s) (length data)"
  define buffer where "buffer = take (sh_used s) (sh_buffer s) @ take n data @ drop (sh_used s + n) (sh_buffer s)"
  have n: "n \<le> length data" "sh_used s + n \<le> 64" "n = length data \<or> sh_used s + n = 64"
    using b(2) by (auto simp: n_def)
  have len: "length buffer = 64" using b(1) n by (simp add: buffer_def)
  let ?s = "if sh_used s + n = 64 then s\<lparr>sh_buffer := buffer, sh_state := compress (sh_state s) buffer, sh_used := 0\<rparr>
    else s\<lparr>sh_buffer := buffer, sh_used := sh_used s + n\<rparr>"
  have "fill_buffer s data = Ok (?s, drop n data)"
    using False b(1,2) n by (simp add: fill_buffer_def Let_def copy_at_def buffer_def flip: n_def)
  moreover have "absorbed (M @ take n data) ?s"
  proof (cases "sh_used s + n = 64")
    case True
    then have "buffer = take (sh_used s) (sh_buffer s) @ take n data" using b(1) by (simp add: buffer_def)
    then show ?thesis
      using b len True
      by (intro absorbedI [where whole = "whole @ buffer"]) (simp_all add: compress_is_fips blocks_of_append blocks_of_single)
  next
    case False
    then show ?thesis
      using b len n by (intro absorbedI [where whole = whole]) (simp_all add: buffer_def)
  qed
  ultimately show ?thesis
    using n(3) by (intro exI [of _ ?s] exI [of _ "take n data"] exI [of _ "drop n data"]) auto
qed

lemma absorb_blocks:
  assumes "absorbed M s" "sh_used s = 0" "compress_blocks (sh_state s) data = (state, rest)"
  shows "absorbed (M @ data) (s\<lparr>sh_state := state, sh_buffer := rest @ drop (length rest) (sh_buffer s), sh_used := length rest\<rparr>)"
    and "length rest < 64"
proof -
  obtain whole where b: "length (sh_buffer s) = 64" "64 dvd length whole" "M = whole"
    "sh_state s = foldl fips_block (sh_state sha256_new) (blocks_of whole)"
    using assms(2) by (auto intro: absorbedE [OF assms(1)])
  from compress_blocks_spec [OF assms(3) [unfolded b(4)] b(2)]
  obtain extra where e: "length rest < 64" "64 dvd length extra" "data = extra @ rest"
    "state = foldl fips_block (sh_state sha256_new) (blocks_of (whole @ extra))" by (elim conjE exE)
  show "length rest < 64" by (rule e(1))
  have "64 dvd length (whole @ extra)" using b(2) e(2) by simp
  with b e show "absorbed (M @ data)
      (s\<lparr>sh_state := state, sh_buffer := rest @ drop (length rest) (sh_buffer s), sh_used := length rest\<rparr>)"
    by (intro absorbedI [where whole = "whole @ extra"]) simp_all
qed

lemma sha256_update_ok:
  assumes "hashed M s"
  shows "\<exists>s'. sha256_update s data = Ok s' \<and> hashed (M @ data) s'"
proof -
  let ?s = "s\<lparr>sh_bytes := sh_bytes s + word_of_nat (length data)\<rparr>"
  have "absorbed M ?s" using assms by (simp add: hashed_def absorbed_def)
  from fill_buffer_ok [OF this, of data] obtain s1 eaten left where f: "fill_buffer ?s data = Ok (s1, left)"
    "data = eaten @ left" "absorbed (M @ eaten) s1" "sh_bytes s1 = sh_bytes ?s" "left = [] \<or> sh_used s1 = 0" by blast
  have bytes: "sh_bytes s1 = word_of_nat (length (M @ data))" using assms f(4) by (simp add: hashed_def)
  obtain state rest where c: "compress_blocks (sh_state s1) left = (state, rest)" by fastforce
  show ?thesis
  proof (cases "left = []")
    case True
    then have "(state, rest) = (sh_state s1, [])" using c by (simp add: compress_blocks.simps)
    then show ?thesis using True f bytes c by (simp add: sha256_update_def hashed_def)
  next
    case False
    with f(5) have "sh_used s1 = 0" by simp
    from absorb_blocks [OF f(3) this c] have a: "length rest < 64"
      "absorbed (M @ data) (s1\<lparr>sh_state := state, sh_buffer := rest @ drop (length rest) (sh_buffer s1), sh_used := length rest\<rparr>)"
      by (simp_all add: f(2))
    have buf: "length (sh_buffer s1) = 64" using f(3) by (simp add: absorbed_def)
    show ?thesis
      using a bytes buf c f(1) \<open>sh_used s1 = 0\<close>
      by (auto simp: sha256_update_def Let_def copy_at_def hashed_def absorbed_def)
  qed
qed

lemma zeros_after_whole: "64 dvd k \<Longrightarrow> u < 64 \<Longrightarrow> zeros_after (k + u) = (if u < 56 then 55 - u else 119 - u)"
proof -
  assume "64 dvd k" "u < 64"
  then have "(k + u) mod 64 = u" by (metis add.left_neutral dvd_imp_mod_0 mod_add_left_eq mod_less)
  moreover have "(119 - u) mod 64 = 55 - u" if "u < 56"
  proof -
    have "119 - u = 55 - u + 64" using that by simp
    then show ?thesis by (simp only: mod_add_self2) simp
  qed
  ultimately show ?thesis using \<open>u < 64\<close> by (auto simp: zeros_after_def)
qed

lemma sha256_finalize_ok:
  assumes "hashed M s"
  shows "sha256_finalize s = Ok (fips_sha256 M)"
proof -
  obtain whole where b: "length (sh_buffer s) = 64" "sh_used s < 64" "64 dvd length whole"
    "M = whole @ take (sh_used s) (sh_buffer s)" "sh_state s = foldl fips_block (sh_state sha256_new) (blocks_of whole)"
    using assms absorbedE unfolding hashed_def by metis
  define u where "u = sh_used s"
  define tail where "tail = take u (sh_buffer s) @ [0x80]"
  have u: "u < 64" "length tail = u + 1" using b(1,2) by (simp_all add: u_def tail_def)
  have zeros: "zeros_after (length M) = (if u < 56 then 55 - u else 119 - u)"
    using zeros_after_whole [OF b(3) u(1)] b(1,2,4) by (simp add: u_def)
  have bits: "sh_bytes s * 8 = word_of_nat (8 * length M)" using assms by (simp add: hashed_def mult.commute)
  let ?len = "be64_bytes (word_of_nat (8 * length M))"
  have whole: "blocks_of (padded M) = blocks_of whole @ blocks_of (tail @ replicate (zeros_after (length M)) 0 @ ?len)"
    using b(3,4) by (simp add: padded_def tail_def u_def flip: blocks_of_append)
  show ?thesis
  proof (cases "u < 56")
    case True
    then have "56 - u = Suc (55 - u)" by simp
    with True show ?thesis
      using whole zeros b(1,5) u bits
      by (simp add: sha256_finalize_def Let_def copy_at_def compress_is_fips fips_sha256_def blocks_of_single tail_def flip: u_def)
  next
    case False
    let ?first = "tail @ replicate (63 - u) 0"
    have "replicate (119 - u) (0 :: u8) = replicate (63 - u) 0 @ replicate 56 0"
      using u(1) by (simp add: replicate_add [symmetric])
    then have "blocks_of (tail @ replicate (119 - u) 0 @ ?len) = [?first, replicate 56 0 @ ?len]"
      using u blocks_of_append [of ?first "replicate 56 0 @ ?len"] by (simp add: blocks_of_single)
    then show ?thesis
      using False whole zeros b(1,5) u bits
      by (simp add: sha256_finalize_def Let_def copy_at_def compress_is_fips fips_sha256_def tail_def flip: u_def)
  qed
qed

section \<open>Properties\<close>

text \<open>
  C21: Hashing is incremental and standard: however the data is cut into pieces, updating with each and
  finalising never panics and returns the FIPS 180-4 digest of their concatenation.\<close>

theorem sha256_pieces_are_fips:
  "and_then (for_each sha256_update sha256_new pieces) sha256_finalize = Ok (fips_sha256 (concat pieces))"
proof -
  have "\<exists>s'. for_each sha256_update s pieces = Ok s' \<and> hashed (M @ concat pieces) s'" if "hashed M s" for M s
    using that
  proof (induction pieces arbitrary: M s)
    case (Cons p pieces)
    then obtain s' where "sha256_update s p = Ok s'" "hashed (M @ p) s'" using sha256_update_ok by blast
    with Cons.IH [of "M @ p" s'] show ?case by auto
  qed auto
  from this [OF hashed_new] show ?thesis using sha256_finalize_ok by fastforce
qed

lemma sha256_digest_ok [simp]: "sha256_digest data = Ok (fips_sha256 data)"
  using sha256_update_ok [OF hashed_new, of data] sha256_finalize_ok by (fastforce simp: sha256_digest_def)

lemma length_fips_sha256 [simp]: "length (fips_sha256 M) = 32"
  by (simp add: fips_sha256_def chain_list_def split: prod.split)

section \<open>Hexadecimal names\<close>

definition hex_pair :: "u8 \<Rightarrow> string" where
  "hex_pair b = [hex_alphabet ! unat (drop_bit 4 b), hex_alphabet ! unat (b AND 15)]"

lemma nibbles:
  fixes b :: u8
  shows "unat (drop_bit 4 b) = unat b div 16" "unat (b AND 15) = unat b mod 16"
    "unat (drop_bit 4 b) < 16" "unat (b AND 15) < 16"
proof -
  show d: "unat (drop_bit 4 b) = unat b div 16" by (simp only: unat_drop_bit_eq) (simp add: drop_bit_eq_div)
  have "b AND 15 = take_bit 4 b" by (simp add: take_bit_eq_mask mask_eq_exp_minus_1)
  then show m: "unat (b AND 15) = unat b mod 16" by (simp only: unsigned_take_bit_eq) (simp add: take_bit_eq_mod)
  have "unat b < 2 ^ LENGTH(8)" by (rule unsigned_less)
  then show "unat (drop_bit 4 b) < 16" "unat (b AND 15) < 16" by (simp_all add: d m)
qed

lemma hex_digit_ok:
  "index_at hex_alphabet (unat (drop_bit 4 b)) = Ok (hex_alphabet ! unat (drop_bit 4 (b :: u8)))"
  "index_at hex_alphabet (unat (b AND 15)) = Ok (hex_alphabet ! unat (b AND 15))"
  using nibbles(3,4) [of b] by (simp_all add: index_at_def hex_alphabet_def)

lemma hex_ok: "hex data = Ok (concat (map hex_pair data))"
proof -
  have "for_each (\<lambda>out b. and_then (index_at hex_alphabet (unat (drop_bit 4 b))) (\<lambda>hi.
      and_then (index_at hex_alphabet (unat (b AND 15))) (\<lambda>lo. Ok (out @ [hi, lo])))) out data
    = (Ok (out @ concat (map hex_pair data)) :: string result)" for out
    by (induction data arbitrary: out) (simp_all add: hex_pair_def hex_digit_ok)
  from this [of "[]"] show ?thesis by (simp add: hex_def)
qed

lemma hex_pair_inj: "hex_pair a = hex_pair b \<longleftrightarrow> a = b"
proof
  assume eq: "hex_pair a = hex_pair b"
  have "distinct hex_alphabet" "length hex_alphabet = 16" by (simp_all add: hex_alphabet_def)
  with eq have "unat a div 16 = unat b div 16" "unat a mod 16 = unat b mod 16"
    using nth_eq_iff_index_eq [of hex_alphabet] nibbles by (fastforce simp: hex_pair_def)+
  then have "unat a = unat b" by (metis div_mult_mod_eq)
  then show "a = b" by (simp only: word_unat_eq_iff)
qed simp

lemma hex_inj: "hex xs = hex ys \<longleftrightarrow> xs = ys"
proof
  assume "hex xs = hex ys"
  then have "concat (map hex_pair xs) = concat (map hex_pair ys)" by (simp add: hex_ok)
  then show "xs = ys"
  proof (induction xs arbitrary: ys)
    case Nil
    then show ?case by (cases ys) (simp_all add: hex_pair_def)
  next
    case (Cons x xs)
    then obtain y ys' where ys: "ys = y # ys'" by (cases ys) (simp_all add: hex_pair_def)
    with Cons.prems have "hex_pair x = hex_pair y" "concat (map hex_pair xs) = concat (map hex_pair ys')"
      using append_eq_append_conv [of "hex_pair x" "hex_pair y"] by (simp_all add: hex_pair_def [of x] hex_pair_def [of y])
    with Cons.IH ys show ?case by (simp add: hex_pair_inj)
  qed
qed simp

end
