(* ===== verification/Dnp3_Witness.thy ===== *)
theory Dnp3_Witness
  imports Dnp3 Sha256_Correct
begin

text \<open>
  Re-verification of decoded DNP3 fragments and messages (\<^verbatim>\<open>semantics/dnp3_workflow.rs\<close>, the parts correlation
  relies on): the application header, the witness of a fragment re-derived from its link frames, and the
  direction of a complete message.  The functions charge their work to a counter that the caller keeps even
  when they fail, so they are computations that take a counter and return it beside their result.
\<close>

section \<open>Metered computations\<close>

type_synonym 'a metered = "nat \<Rightarrow> nat \<times> 'a result"

definition free :: "'a result \<Rightarrow> 'a metered" where
  "free r work = (work, r)"

definition pay_then :: "'a metered \<Rightarrow> ('a \<Rightarrow> 'b metered) \<Rightarrow> 'b metered" where
  "pay_then m f work = (case m work of
      (work', Ok x) \<Rightarrow> f x work'
    | (work', Err e) \<Rightarrow> (work', Err e)
    | (work', Panic) \<Rightarrow> (work', Panic))"

fun pay_each :: "('s \<Rightarrow> 'a \<Rightarrow> 's metered) \<Rightarrow> 's \<Rightarrow> 'a list \<Rightarrow> 's metered" where
  "pay_each f s [] = free (Ok s)"
| "pay_each f s (x # xs) = pay_then (f s x) (\<lambda>s'. pay_each f s' xs)"

definition charge_as :: "string \<Rightarrow> nat \<Rightarrow> limits \<Rightarrow> unit metered" where
  "charge_as label amount l work = (case checked_add work amount of
      Some n \<Rightarrow> if n \<le> max_correlation_checks l then (n, Ok ()) else (work, Err (error_limit label))
    | None \<Rightarrow> (work, Err (error_limit label)))"

definition charge :: "nat \<Rightarrow> limits \<Rightarrow> unit metered" where
  "charge = charge_as ''dnp3_correlation_work''"

section \<open>The application header\<close>

definition semantic_fail :: "error_code \<Rightarrow> nat \<Rightarrow> string \<Rightarrow> error" where
  "semantic_fail code at fld = error_new code at fld
     ''semantic subset stopped; tail retained without resynchronization''"

definition semantic_need :: "bytes \<Rightarrow> nat \<Rightarrow> nat \<Rightarrow> string \<Rightarrow> unit result" where
  "semantic_need bytes at count fld = (case checked_add at count of
      Some n \<Rightarrow> if n > length bytes then Err (semantic_fail Truncated at fld) else Ok ()
    | None \<Rightarrow> Err (semantic_fail Truncated at fld))"

record workflow_header =
  wh_control :: u8
  wh_function :: u8
  wh_length :: nat

definition wh_sequence :: "workflow_header \<Rightarrow> u8" where
  "wh_sequence h = wh_control h AND 15"

definition wh_first :: "workflow_header \<Rightarrow> bool" where
  "wh_first h \<longleftrightarrow> wh_control h AND 0x80 \<noteq> 0"

definition wh_final :: "workflow_header \<Rightarrow> bool" where
  "wh_final h \<longleftrightarrow> wh_control h AND 0x40 \<noteq> 0"

definition wh_confirm_requested :: "workflow_header \<Rightarrow> bool" where
  "wh_confirm_requested h \<longleftrightarrow> wh_control h AND 0x20 \<noteq> 0"

definition wh_unsolicited :: "workflow_header \<Rightarrow> bool" where
  "wh_unsolicited h \<longleftrightarrow> wh_control h AND 0x10 \<noteq> 0"

definition workflow_header_of :: "evidence \<Rightarrow> workflow_header result" where
  "workflow_header_of raw =
     (if \<not> ev_validate raw then Err (semantic_fail Invariant 0 ''dnp3_workflow_provenance'')
      else let b = ev_data raw in
      and_then (semantic_need b 0 2 ''dnp3_workflow_header_truncated'') (\<lambda>_.
      and_then (index_at b 0) (\<lambda>control.
      and_then (index_at b 1) (\<lambda>f.
      let h = \<lparr>wh_control = control, wh_function = f, wh_length = (if 0x81 \<le> f \<and> f \<le> 0x83 then 4 else 2)\<rparr>
      in and_then (semantic_need b 0 (wh_length h) ''dnp3_workflow_iin_truncated'') (\<lambda>_.
        if f \<in> {0x20, 0x21, 0x83, 0x1d}
        then Err (semantic_fail UnsupportedTransport 1 ''dnp3_authentication_workflow_opaque'')
        else if \<not> (f \<le> 0x1f \<or> f = 0x81 \<or> f = 0x82)
        then Err (semantic_fail UnsupportedTransport 1 ''dnp3_reserved_application_function'')
        else if (f = 0x82 \<and> \<not> wh_unsolicited h) \<or> (f \<noteq> 0 \<and> f \<noteq> 0x82 \<and> wh_unsolicited h)
             \<or> (f < 0x80 \<and> wh_confirm_requested h)
        then Err (semantic_fail ProtocolFraming 0 ''dnp3_application_control_function_conflict'')
        else if f \<in> {0, 23, 24} \<and> (length b \<noteq> 2 \<or> \<not> wh_first h \<or> \<not> wh_final h)
        then Err (semantic_fail ProtocolFraming 0 ''dnp3_header_only_workflow_shape'')
        else Ok h)))))"

section \<open>The witness of a fragment\<close>

record fragment_link_witness =
  lw_frame :: nat
  lw_control :: u8
  lw_header :: evidence
  lw_transport_control :: u8
  lw_transport_header :: evidence
  lw_frame_length :: nat
  lw_frame_sha256 :: bytes

record fragment_witness =
  fw_source :: u16
  fw_destination :: u16
  fw_link_direction :: bool
  fw_header :: workflow_header
  fw_header_bytes :: evidence
  fw_packets :: "packet_id list"
  fw_links :: "fragment_link_witness list"

definition witness_mismatch :: error where
  "witness_mismatch = semantic_fail Invariant 0 ''dnp3_fragment_witness_mismatch''"

text \<open>The class of a function code, where the witness has one.\<close>

definition witness_class :: "u8 \<Rightarrow> message_class result" where
  "witness_class f =
     (if f = 0 then Ok McConfirm
      else if 1 \<le> f \<and> f \<le> 30 then Ok McRequest
      else if f = 31 then Err (semantic_fail UnsupportedTransport 1 ''dnp3_workflow_outside_subset'')
      else if f = 0x81 then Ok McResponse
      else if f = 0x82 then Ok McUnsolicited
      else Err witness_mismatch)"

text \<open>\<^verbatim>\<open>uint(b, 2, 2, true) as u16\<close> and the derived IIN field.\<close>

definition witness_iin :: "workflow_header \<Rightarrow> bytes \<Rightarrow> u16 option result" where
  "witness_iin h b =
     (if wh_length h = 4
      then and_then (index_at b 3) (\<lambda>hi. and_then (index_at b 2) (\<lambda>lo. Ok (Some (be16_word hi lo))))
      else Ok None)"

text \<open>The comparison of the fragment's public fields with its header, in the order of the code.\<close>

definition witness_fields :: "application_fragment \<Rightarrow> workflow_header \<Rightarrow> message_class \<Rightarrow> unit result" where
  "witness_fields fragment h cls =
     (if af_control fragment \<noteq> wh_control h \<or> af_function fragment \<noteq> wh_function h
        \<or> af_sequence fragment \<noteq> wh_sequence h \<or> af_class fragment \<noteq> cls \<or> af_first fragment \<noteq> wh_first h
        \<or> af_final fragment \<noteq> wh_final h \<or> af_confirm fragment \<noteq> wh_confirm_requested h
      then Err witness_mismatch
      else and_then (witness_iin h (ev_data (af_raw fragment))) (\<lambda>iin.
        if af_iin fragment \<noteq> iin then Err witness_mismatch
        else and_then (ev_slice (af_raw fragment) (wh_length h) (ev_len (af_raw fragment))) (\<lambda>objects.
          if af_objects fragment \<noteq> objects \<or> af_frames fragment = [] then Err witness_mismatch else Ok ())))"

record witness_state =
  ws_transport :: evidence
  ws_packets :: "packet_id list"
  ws_links :: "fragment_link_witness list"
  ws_direction :: "bool option"
  ws_previous :: "u8 option"
  ws_final_seen :: bool
  ws_seen :: "(u8 \<times> bytes) list"
  ws_indices :: "nat list"

definition witness_start :: witness_state where
  "witness_start = \<lparr>ws_transport = evidence_default, ws_packets = [], ws_links = [], ws_direction = None,
     ws_previous = None, ws_final_seen = False, ws_seen = [], ws_indices = []\<rparr>"

definition link_mismatch :: "application_fragment \<Rightarrow> link_frame \<Rightarrow> link_frame \<Rightarrow> nat \<Rightarrow> bool option \<Rightarrow> bool" where
  "link_mismatch fragment frame parsed used direction \<longleftrightarrow>
     used \<noteq> ev_len (lf_raw frame) \<or> lf_control frame \<noteq> lf_control parsed \<or> lf_link_control frame \<noteq> lf_link_control parsed
     \<or> lf_source frame \<noteq> lf_source parsed \<or> lf_destination frame \<noteq> lf_destination parsed
     \<or> lf_broadcast frame \<noteq> lf_broadcast parsed \<or> lf_user_data frame \<noteq> lf_user_data parsed
     \<or> lf_source parsed \<noteq> af_source fragment \<or> lf_destination parsed \<noteq> af_destination fragment
     \<or> (case direction of Some d \<Rightarrow> d \<noteq> lc_direction (lf_link_control parsed) | None \<Rightarrow> False)
     \<or> \<not> lc_primary (lf_link_control parsed) \<or> lc_function (lf_link_control parsed) \<notin> {3, 4}
     \<or> link_issue (lf_control parsed) (lf_source parsed) (lf_destination parsed) (ev_len (lf_user_data parsed)) \<noteq> None"

text \<open>The transport part of one frame: a duplicate changes nothing, another segment continues the fragment.\<close>

definition witness_segment :: "limits \<Rightarrow> evidence \<Rightarrow> bytes \<Rightarrow> u8 \<Rightarrow> witness_state \<Rightarrow> witness_state result" where
  "witness_segment l user_data b b0 s =
     (let sequence = b0 AND 63; expected = map_option (\<lambda>last. (last + 1) AND 63) (ws_previous s);
          duplicate = (expected \<noteq> Some sequence \<and> bt_get (ws_seen s) sequence = Some b)
      in if ws_final_seen s then Err witness_mismatch
         else if duplicate then Ok s
         else if ((ws_previous s = None) \<noteq> (b0 AND 64 \<noteq> 0)) \<or> (ws_previous s \<noteq> None \<and> expected \<noteq> Some sequence)
         then Err witness_mismatch
         else and_then (ev_slice user_data 1 (length b)) (\<lambda>piece.
              and_then (ev_append (ws_transport s) piece (max_application_bytes l)) (\<lambda>transport.
                Ok (s\<lparr>ws_transport := transport, ws_previous := Some sequence, ws_final_seen := (b0 AND 128 \<noteq> 0),
                      ws_seen := bt_put sequence b (ws_seen s)\<rparr>))))"

definition witness_link :: "nat \<Rightarrow> link_frame \<Rightarrow> u8 \<Rightarrow> fragment_link_witness result" where
  "witness_link index parsed b0 =
     and_then (ev_slice (lf_raw parsed) 0 10) (\<lambda>header.
     and_then (ev_slice (lf_user_data parsed) 0 1) (\<lambda>transport_header.
     and_then (sha256_digest (ev_data (lf_raw parsed))) (\<lambda>digest.
       Ok \<lparr>lw_frame = index, lw_control = lf_control parsed, lw_header = header, lw_transport_control = b0,
           lw_transport_header = transport_header, lw_frame_length = ev_len (lf_raw parsed), lw_frame_sha256 = digest\<rparr>)))"

definition witness_frame ::
    "dnp3_result \<Rightarrow> application_fragment \<Rightarrow> limits \<Rightarrow> bytes \<Rightarrow> witness_state \<Rightarrow> nat \<Rightarrow> witness_state metered" where
  "witness_frame result fragment l capture s index =
     pay_then (charge 1 l) (\<lambda>_.
     if index \<in> set (ws_indices s) then free (Err witness_mismatch)
     else if length (dr_frames result) \<le> index then free (Err witness_mismatch)
     else let frame = dr_frames result ! index in
     pay_then (charge (ev_len (lf_raw frame)) l) (\<lambda>_.
     pay_then (charge (length (ev_spans (lf_raw frame))) l) (\<lambda>_.
     pay_then (charge (ev_len (lf_user_data frame)) l) (\<lambda>_.
     pay_then (charge (length (ev_spans (lf_user_data frame))) l) (\<lambda>_.
     if \<not> ev_validate (lf_raw frame) \<or> (\<exists>sp \<in> set (ev_spans (lf_raw frame)). pid_capture (span_packet sp) \<noteq> capture)
     then free (Err witness_mismatch)
     else pay_then (free (parse_link (lf_raw frame) 0 (lf_stream_offset frame))) (\<lambda>(parsed, used).
     if link_mismatch fragment frame parsed used (ws_direction s) then free (Err witness_mismatch)
     else let b = ev_data (lf_user_data parsed) in free (
       and_then (index_at b 0) (\<lambda>b0.
       and_then (witness_segment l (lf_user_data parsed) b b0
           (s\<lparr>ws_direction := Some (lc_direction (lf_link_control parsed)), ws_indices := index # ws_indices s\<rparr>)) (\<lambda>s'.
       and_then (witness_link index parsed b0) (\<lambda>link.
         Ok (s'\<lparr>ws_packets := ws_packets s' @ ev_packets (lf_raw parsed), ws_links := ws_links s' @ [link]\<rparr>)))))))))))"

definition verified_fragment_witness ::
    "dnp3_result \<Rightarrow> application_fragment \<Rightarrow> limits \<Rightarrow> fragment_witness metered" where
  "verified_fragment_witness result fragment l =
     pay_then (charge 1 l) (\<lambda>_.
     pay_then (charge (ev_len (af_raw fragment)) l) (\<lambda>_.
     pay_then (charge (length (ev_spans (af_raw fragment))) l) (\<lambda>_.
     pay_then (charge (ev_len (af_objects fragment)) l) (\<lambda>_.
     pay_then (charge (length (ev_spans (af_objects fragment))) l) (\<lambda>_.
     if ev_len (af_raw fragment) > max_application_bytes l then free (Err (error_limit ''dnp3_fragment_witness_bytes''))
     else pay_then (free (workflow_header_of (af_raw fragment))) (\<lambda>h.
     pay_then (free (witness_class (wh_function h))) (\<lambda>cls.
     pay_then (free (witness_fields fragment h cls)) (\<lambda>_.
     if address_kind (af_source fragment) \<noteq> ''individual'' \<or> address_kind (af_destination fragment) \<noteq> ''individual''
     then free (Err (semantic_fail UnsupportedTransport 0 ''dnp3_confirmation_non_individual_address''))
     else if ev_spans (af_raw fragment) = [] then free (Err witness_mismatch)
     else pay_then (pay_each (witness_frame result fragment l (pid_capture (span_packet (hd (ev_spans (af_raw fragment))))))
                      witness_start (af_frames fragment)) (\<lambda>s.
     if \<not> ws_final_seen s \<or> ws_transport s \<noteq> af_raw fragment then free (Err witness_mismatch)
     else free (and_then (ok_or witness_mismatch (ws_direction s)) (\<lambda>direction.
       and_then (ev_slice (af_raw fragment) 0 (wh_length h)) (\<lambda>header_bytes.
         Ok \<lparr>fw_source = af_source fragment, fw_destination = af_destination fragment, fw_link_direction = direction,
             fw_header = h, fw_header_bytes = header_bytes, fw_packets = sort_dedup (ws_packets s),
             fw_links = ws_links s\<rparr>))))))))))))"

section \<open>The direction of a message\<close>

definition pairing_mismatch :: error where
  "pairing_mismatch = semantic_fail Invariant 0 ''dnp3_pairing_witness_mismatch''"

record direction_state =
  vs_objects :: evidence
  vs_packets :: "packet_id list"
  vs_sequence :: u8
  vs_fragments :: "nat list"
  vs_frames :: "nat list"
  vs_capture :: "bytes option"

definition direction_link :: "limits \<Rightarrow> nat list \<Rightarrow> fragment_link_witness \<Rightarrow> nat list metered" where
  "direction_link l frames link =
     pay_then (charge 1 l) (\<lambda>_. free (
       if lw_frame link \<in> set frames then Err pairing_mismatch else Ok (lw_frame link # frames)))"

definition direction_fragment ::
    "dnp3_result \<Rightarrow> application_message \<Rightarrow> limits \<Rightarrow> bool \<Rightarrow> direction_state \<Rightarrow> nat \<times> nat \<Rightarrow> direction_state metered" where
  "direction_fragment result message l direction s = (\<lambda>(ordinal, index).
     pay_then (charge 1 l) (\<lambda>_.
     if index \<in> set (vs_fragments s) then free (Err pairing_mismatch)
     else if length (dr_fragments result) \<le> index then free (Err pairing_mismatch)
     else let fragment = dr_fragments result ! index in
     pay_then (verified_fragment_witness result fragment l) (\<lambda>witness.
     let h = fw_header witness in
     pay_then (free (index_at (fw_packets witness) 0)) (\<lambda>first_packet.
     let observed = pid_capture first_packet in
     if af_source fragment \<noteq> am_source message \<or> af_destination fragment \<noteq> am_destination message
        \<or> wh_function h \<noteq> am_function message \<or> af_class fragment \<noteq> am_class message
        \<or> fw_link_direction witness \<noteq> direction \<or> wh_first h \<noteq> (ordinal = 0)
        \<or> wh_final h \<noteq> (ordinal + 1 = length (am_fragments message)) \<or> wh_sequence h \<noteq> vs_sequence s
        \<or> (case vs_capture s of Some c \<Rightarrow> c \<noteq> observed | None \<Rightarrow> False)
     then free (Err pairing_mismatch)
     else pay_then (pay_each (direction_link l) (vs_frames s) (fw_links witness)) (\<lambda>frames.
     pay_then (free (ev_append (vs_objects s) (af_objects fragment) (max_application_bytes l))) (\<lambda>objects.
       free (Ok \<lparr>vs_objects = objects, vs_packets = vs_packets s @ fw_packets witness,
                 vs_sequence = (wh_sequence h + 1) AND 15, vs_fragments = index # vs_fragments s, vs_frames = frames,
                 vs_capture = Some observed\<rparr>)))))))"

definition verified_message_direction ::
    "dnp3_result \<Rightarrow> application_message \<Rightarrow> limits \<Rightarrow> bool metered" where
  "verified_message_direction result message l =
     (if \<not> am_complete message \<or> am_fragments message = []
      then free (Err (semantic_fail Truncated 0 ''dnp3_pairing_incomplete_message''))
      else if address_kind (am_source message) \<noteq> ''individual'' \<or> address_kind (am_destination message) \<noteq> ''individual''
      then free (Err (semantic_fail UnsupportedTransport 0 ''dnp3_pairing_non_individual_address''))
      else if am_class message = McUnknown then free (Err pairing_mismatch)
      else let direction = (am_class message = McRequest \<or> am_class message = McConfirm) in
      pay_then (pay_each (direction_fragment result message l direction)
         \<lparr>vs_objects = evidence_default, vs_packets = [], vs_sequence = am_first_sequence message, vs_fragments = [],
          vs_frames = [], vs_capture = None\<rparr> (enumerate 0 (am_fragments message))) (\<lambda>s.
      pay_then (charge (ev_len (am_objects message)) l) (\<lambda>_.
      pay_then (charge (length (ev_spans (am_objects message))) l) (\<lambda>_.
      pay_then (charge (length (am_packets message)) l) (\<lambda>_.
        free (if vs_objects s \<noteq> am_objects message \<or> sort_dedup (vs_packets s) \<noteq> am_packets message
              then Err pairing_mismatch else Ok direction))))))"

end
