(* ===== verification/Correlate.thy ===== *)
theory Correlate
  imports Dnp3_Witness Modbus "HOL-Library.Char_ord"
begin

text \<open>
  Pairing of requests and responses (\<^verbatim>\<open>correlate.rs\<close>, \<^verbatim>\<open>transactions\<close>): messages that can be identified are put into
  groups by protocol, capture, flow and identifiers, all others become transactions of their own; a group
  becomes a candidate pair only if it has one request and one response and nothing speaks against it.
\<close>

section \<open>Applications\<close>

datatype application_data = AppDnp3 dnp3_result | AppModbus modbus_result | AppFailed error

record application_analysis =
  ap_flow :: nat
  ap_direction :: nat
  ap_protocol :: string
  ap_data :: application_data

datatype message_ref = MessageRef (mf_application: nat) (mf_message: nat)

text \<open>The derived order, which the sets of references use.\<close>

instantiation message_ref :: linorder
begin

definition message_ref_key :: "message_ref \<Rightarrow> nat \<times> nat" where
  "message_ref_key r = (mf_application r, mf_message r)"

definition less_eq_message_ref :: "message_ref \<Rightarrow> message_ref \<Rightarrow> bool" where
  "a \<le> b \<longleftrightarrow> message_ref_key a \<le> message_ref_key b"

definition less_message_ref :: "message_ref \<Rightarrow> message_ref \<Rightarrow> bool" where
  "a < b \<longleftrightarrow> message_ref_key a < message_ref_key b"

lemma message_ref_key_inj: "message_ref_key a = message_ref_key b \<longleftrightarrow> a = b"
  by (cases a; cases b) (simp add: message_ref_key_def)

instance
  by standard
    (auto simp: less_eq_message_ref_def less_message_ref_def message_ref_key_inj less_le_not_le
      simp flip: message_ref_key_inj)

end

record transaction =
  tx_protocol :: string
  tx_flow :: nat
  tx_requests :: "message_ref list"
  tx_responses :: "message_ref list"
  tx_status :: string
  tx_reason :: string

record pairing_group =
  gr_requests :: "message_ref list"
  gr_responses :: "message_ref list"
  gr_uncertain_boundary :: bool

definition pairing_group_default :: pairing_group where
  "pairing_group_default = \<lparr>gr_requests = [], gr_responses = [], gr_uncertain_boundary = False\<rparr>"

definition capture_scope :: "evidence \<Rightarrow> bytes option" where
  "capture_scope raw =
     (if \<not> ev_validate raw then None
      else case ev_spans raw of
          [] \<Rightarrow> None
        | first # _ \<Rightarrow>
            let capture = pid_capture (span_packet first)
            in if \<forall>sp \<in> set (ev_spans raw). pid_capture (span_packet sp) = capture then Some capture else None)"

section \<open>Grouping\<close>

text \<open>Protocol, capture, flow, controller address or unit, outstation address, sequence or transaction, function.\<close>

type_synonym pairing_key = "string \<times> bytes \<times> nat \<times> u16 \<times> u16 \<times> u16 \<times> u8"

record pairing_state =
  ps_groups :: "(pairing_key \<times> pairing_group) list"
  ps_output :: "transaction list"
  ps_count :: nat
  ps_work :: nat

text \<open>\<^verbatim>\<open>groups.entry(key).or_default()\<close> followed by the changes to the group.\<close>

definition group_entry :: "(pairing_key \<times> pairing_group) list \<Rightarrow> pairing_key \<Rightarrow> pairing_group" where
  "group_entry groups key = (case bt_get groups key of Some g \<Rightarrow> g | None \<Rightarrow> pairing_group_default)"

definition group_add :: "bool \<Rightarrow> message_ref \<Rightarrow> pairing_group \<Rightarrow> pairing_group" where
  "group_add is_request reference g =
     (if is_request then g\<lparr>gr_requests := gr_requests g @ [reference]\<rparr>
      else g\<lparr>gr_responses := gr_responses g @ [reference]\<rparr>)"

definition count_message :: "limits \<Rightarrow> pairing_state \<Rightarrow> pairing_state result" where
  "count_message l s = (if ps_count s + 1 > max_protocol_messages l then Err (error_limit ''correlation_messages'')
     else Ok (s\<lparr>ps_count := ps_count s + 1\<rparr>))"

definition single :: "string \<Rightarrow> nat \<Rightarrow> bool \<Rightarrow> message_ref \<Rightarrow> string \<Rightarrow> string \<Rightarrow> transaction" where
  "single protocol flow is_request reference status reason =
     \<lparr>tx_protocol = protocol, tx_flow = flow, tx_requests = (if is_request then [reference] else []),
      tx_responses = (if is_request then [] else [reference]), tx_status = status, tx_reason = reason\<rparr>"

definition dnp3_no_response :: "application_message \<Rightarrow> bool" where
  "dnp3_no_response m \<longleftrightarrow> am_class m = McRequest \<and> am_function m \<in> {6, 8, 10, 12}"

definition dnp3_unpaired :: "application_message \<Rightarrow> error option \<Rightarrow> string \<times> string" where
  "dnp3_unpaired m failure =
     (if \<not> am_complete m then (''incomplete'', ''application_fragments_missing'')
      else case failure of
          Some e \<Rightarrow> (''unclassified'', err_field e)
        | None \<Rightarrow>
            if dnp3_no_response m then (''no_response_expected'', ''captured_function_explicitly_suppresses_response'')
            else if am_class m = McUnsolicited then (''unsolicited'', ''no_request_required'')
            else if am_class m = McConfirm
            then (''confirmation'', ''fragment_confirmation_observed_pairing_not_implemented'')
            else (''unclassified'', ''function_or_role_not_supported''))"

text \<open>The verification, its error as a value, and the work it used; the limit error ends the query.\<close>

definition dnp3_verified ::
    "limits \<Rightarrow> application_analysis \<Rightarrow> dnp3_result \<Rightarrow> application_message \<Rightarrow> nat \<Rightarrow> (error option \<times> nat) result" where
  "dnp3_verified l ap result m work =
     (case (if am_complete m \<and> ap_direction ap \<le> 1 \<and> ap_protocol ap = ''dnp3''
            then verified_message_direction result m l work
            else (work, Err (error_new Truncated 0 ''dnp3_pairing_incomplete_or_direction_unknown'' ''not pairable''))) of
        (work', Ok _) \<Rightarrow> Ok (None, work')
      | (work', Err e) \<Rightarrow> if err_code e = LimitExceeded then Err (error_limit ''dnp3_correlation_work'') else Ok (Some e, work')
      | (work', Panic) \<Rightarrow> Panic)"

definition pair_dnp3 ::
    "limits \<Rightarrow> nat \<Rightarrow> application_analysis \<Rightarrow> dnp3_result \<Rightarrow> pairing_state \<Rightarrow> nat \<times> application_message \<Rightarrow> pairing_state result" where
  "pair_dnp3 l ai ap result s = (\<lambda>(mi, m).
     and_then (count_message l s) (\<lambda>s1.
     and_then (dnp3_verified l ap result m (ps_work s1)) (\<lambda>(failure, work).
     let s2 = s1\<lparr>ps_work := work\<rparr>; reference = MessageRef ai mi; is_request = (am_class m = McRequest) in
     if \<not> am_complete m \<or> failure \<noteq> None \<or> dnp3_no_response m \<or> am_class m \<notin> {McRequest, McResponse}
     then let (status, reason) = dnp3_unpaired m failure
       in Ok (s2\<lparr>ps_output := ps_output s2 @ [single ''dnp3'' (ap_flow ap) is_request reference status reason]\<rparr>)
     else let (controller, outstation) =
            (if is_request then (am_source m, am_destination m) else (am_destination m, am_source m))
       in and_then (index_at (am_packets m) 0) (\<lambda>packet.
         let key = (''dnp3'', pid_capture packet, ap_flow ap, controller, outstation, ucast (am_first_sequence m), 0)
         in Ok (s2\<lparr>ps_groups := bt_put key (group_add is_request reference (group_entry (ps_groups s2) key)) (ps_groups s2)\<rparr>)))))"

definition pair_modbus ::
    "limits \<Rightarrow> nat \<Rightarrow> application_analysis \<Rightarrow> pairing_state \<Rightarrow> nat \<times> modbus_message \<Rightarrow> pairing_state result" where
  "pair_modbus l ai ap s = (\<lambda>(mi, m).
     and_then (count_message l s) (\<lambda>s1.
     and_then (ok_or (error_limit ''transaction_capture_scope_work'')
         (case checked_add (ps_work s1) (length (ev_spans (mm_raw m))) of
            Some w \<Rightarrow> (case checked_add w 1 of
                Some w' \<Rightarrow> if w' \<le> max_correlation_checks l then Some w' else None | None \<Rightarrow> None)
          | None \<Rightarrow> None)) (\<lambda>work.
     let s2 = s1\<lparr>ps_work := work\<rparr>; reference = MessageRef ai mi; is_request = (mm_role m = RoleRequest) in
     case (if \<not> mm_shape_valid m \<or> \<not> mm_supported m \<or> mm_role m = RoleUnknown then None else capture_scope (mm_raw m)) of
       None \<Rightarrow> Ok (s2\<lparr>ps_output := ps_output s2 @ [single ''modbus'' (ap_flow ap) is_request reference ''unclassified''
            (if capture_scope (mm_raw m) = None then ''modbus_transaction_capture_scope_invalid''
             else ''invalid_or_unsupported_pdu_shape_or_endpoint_role'')]\<rparr>)
     | Some capture \<Rightarrow>
         let key = (''modbus'', capture, ap_flow ap, ucast (mm_unit m), 0, mm_transaction m, mm_function m AND 0x7f);
             g = group_entry (ps_groups s2) key
         in Ok (s2\<lparr>ps_groups := bt_put key (group_add is_request reference
              (g\<lparr>gr_uncertain_boundary := (gr_uncertain_boundary g \<or> \<not> mm_verified m)\<rparr>)) (ps_groups s2)\<rparr>))))"

definition pair_application :: "limits \<Rightarrow> pairing_state \<Rightarrow> nat \<times> application_analysis \<Rightarrow> pairing_state result" where
  "pair_application l s = (\<lambda>(ai, ap).
     case ap_data ap of
       AppDnp3 result \<Rightarrow> for_each (pair_dnp3 l ai ap result) s (enumerate 0 (dr_messages result))
     | AppModbus result \<Rightarrow> for_each (pair_modbus l ai ap) s (enumerate 0 (mr_messages result))
     | AppFailed _ \<Rightarrow> Ok s)"

section \<open>Concluding\<close>

definition group_inconsistent :: "application_analysis list \<Rightarrow> string \<Rightarrow> pairing_group \<Rightarrow> bool result" where
  "group_inconsistent applications protocol g =
     (case (gr_requests g, gr_responses g) of
        ([request], [response]) \<Rightarrow>
          if protocol = ''modbus'' then
            and_then (index_at applications (mf_application request)) (\<lambda>a.
            and_then (index_at applications (mf_application response)) (\<lambda>b.
              case (ap_data a, ap_data b) of
                (AppModbus ra, AppModbus rb) \<Rightarrow>
                  and_then (index_at (mr_messages ra) (mf_message request)) (\<lambda>ma.
                  and_then (index_at (mr_messages rb) (mf_message response)) (\<lambda>mb.
                  and_then (response_matches ma mb) (\<lambda>ok. Ok (\<not> ok))))
              | _ \<Rightarrow> Ok False))
          else Ok False
      | _ \<Rightarrow> Ok False)"

definition group_same_direction :: "application_analysis list \<Rightarrow> string \<Rightarrow> pairing_group \<Rightarrow> bool result" where
  "group_same_direction applications protocol g =
     (case (gr_requests g, gr_responses g) of
        ([request], [response]) \<Rightarrow>
          if protocol = ''dnp3'' then
            and_then (index_at applications (mf_application request)) (\<lambda>a.
            and_then (index_at applications (mf_application response)) (\<lambda>b.
              Ok (ap_direction a = ap_direction b)))
          else Ok False
      | _ \<Rightarrow> Ok False)"

definition group_status :: "nat \<Rightarrow> nat \<Rightarrow> bool \<Rightarrow> bool \<Rightarrow> bool \<Rightarrow> string \<times> string" where
  "group_status requests responses same_direction inconsistent uncertain =
     (if requests = 1 \<and> responses = 1 then
        if same_direction then (''ambiguous'', ''dnp3_request_response_capture_directions_not_opposite'')
        else if inconsistent then (''inconsistent_response'', ''request_response_pdu_fields_disagree'')
        else if uncertain then (''candidate_unverified_boundary'', ''midstream_mbap_alignment_not_independently_proven'')
        else (''candidate_pair'', ''matching_protocol_identifiers_not_attack_proof'')
      else if requests = 0 then (''orphan_response'', ''request_not_observed'')
      else if responses = 0 then (''unanswered'', ''response_not_observed'')
      else (''ambiguous'', ''identifier_reuse_or_duplicate_application_messages''))"

definition conclude_group ::
    "application_analysis list \<Rightarrow> transaction list \<Rightarrow> pairing_key \<times> pairing_group \<Rightarrow> transaction list result" where
  "conclude_group applications output = (\<lambda>((protocol, _, flow, _), g).
     and_then (group_inconsistent applications protocol g) (\<lambda>inconsistent.
     and_then (group_same_direction applications protocol g) (\<lambda>same_direction.
       let (status, reason) = group_status (length (gr_requests g)) (length (gr_responses g)) same_direction inconsistent
             (gr_uncertain_boundary g)
       in Ok (output @ [\<lparr>tx_protocol = protocol, tx_flow = flow, tx_requests = gr_requests g,
                         tx_responses = gr_responses g, tx_status = status, tx_reason = reason\<rparr>]))))"

definition transactions :: "application_analysis list \<Rightarrow> limits \<Rightarrow> transaction list result" where
  "transactions applications l =
     and_then (for_each (pair_application l) \<lparr>ps_groups = [], ps_output = [], ps_count = 0, ps_work = 0\<rparr>
                 (enumerate 0 applications)) (\<lambda>s.
       for_each (conclude_group applications) (ps_output s) (ps_groups s))"

end
