(* ===== verification/Confirmations.thy ===== *)
theory Confirmations
  imports Correlate
begin

text \<open>
  Candidates for DNP3 confirmations (\<^verbatim>\<open>correlate/dnp3_confirmations.rs\<close>): every fragment is verified first, the
  verified confirmations and responses are grouped by their identifiers, and a group becomes a candidate
  only if nothing unverified could belong to it and it has one confirmation and one fitting target.
\<close>

section \<open>Records\<close>

datatype fragment_ref = FragmentRef (ff_application: nat) (ff_fragment: nat)

record confirmation_fragment =
  cf_reference :: fragment_ref
  cf_direction :: nat
  cf_witness :: fragment_witness

record excluded_target =
  et_fragment :: confirmation_fragment
  et_reason :: string

record confirmation_candidate =
  cc_flow :: nat
  cc_confirms :: "confirmation_fragment list"
  cc_targets :: "confirmation_fragment list"
  cc_excluded_targets :: "excluded_target list"
  cc_unclassified :: "fragment_ref list"
  cc_status :: string
  cc_reason :: string
  cc_error :: "error option"

record confirmation_group =
  cg_confirms :: "confirmation_fragment list"
  cg_responses :: "confirmation_fragment list"

text \<open>Capture, flow, the confirmer's source and destination, sequence, unsolicited.\<close>

type_synonym confirmation_key = "bytes \<times> nat \<times> u16 \<times> u16 \<times> u8 \<times> bool"

text \<open>
  The derived order of \<^verbatim>\<open>InvalidScope\<close> puts known captures before unknown ones; the map keyed by it is only
  asked for members, so an association list of its keys does.
\<close>

datatype invalid_scope = ScopeCapture bytes nat | ScopeUnknown nat

record confirmation_state =
  fs_groups :: "(confirmation_key \<times> confirmation_group) list"
  fs_invalid :: "(invalid_scope \<times> fragment_ref list) list"
  fs_output :: "confirmation_candidate list"
  fs_fragments :: nat

definition confirm_charge :: "nat \<Rightarrow> limits \<Rightarrow> unit metered" where
  "confirm_charge = charge_as ''dnp3_confirmation_correlation_work''"

section \<open>The scope of an unverified fragment\<close>

fun scope_of_frames :: "dnp3_result \<Rightarrow> bytes \<Rightarrow> nat \<Rightarrow> limits \<Rightarrow> nat list \<Rightarrow> invalid_scope metered" where
  "scope_of_frames result capture flow l [] = free (Ok (ScopeCapture capture flow))"
| "scope_of_frames result capture flow l (index # indices) =
     pay_then (confirm_charge 1 l) (\<lambda>_.
     if length (dr_frames result) \<le> index then free (Ok (ScopeUnknown flow))
     else let frame = dr_frames result ! index in
     pay_then (confirm_charge (length (ev_spans (lf_raw frame))) l) (\<lambda>_.
     if capture_scope (lf_raw frame) \<noteq> Some capture then free (Ok (ScopeUnknown flow))
     else scope_of_frames result capture flow l indices))"

definition invalid_scope_of :: "dnp3_result \<Rightarrow> application_fragment \<Rightarrow> nat \<Rightarrow> limits \<Rightarrow> invalid_scope metered" where
  "invalid_scope_of result fragment flow l =
     pay_then (confirm_charge (length (ev_spans (af_raw fragment))) l) (\<lambda>_.
       case capture_scope (af_raw fragment) of
         None \<Rightarrow> free (Ok (ScopeUnknown flow))
       | Some capture \<Rightarrow> scope_of_frames result capture flow l (af_frames fragment))"

section \<open>Collecting\<close>

definition scope_refs :: "(invalid_scope \<times> fragment_ref list) list \<Rightarrow> invalid_scope \<Rightarrow> fragment_ref list option" where
  "scope_refs unverified sc = map_of unverified sc"

definition scope_add :: "invalid_scope \<Rightarrow> fragment_ref \<Rightarrow> (invalid_scope \<times> fragment_ref list) list
    \<Rightarrow> (invalid_scope \<times> fragment_ref list) list" where
  "scope_add sc reference unverified =
     (sc, (case scope_refs unverified sc of Some refs \<Rightarrow> refs | None \<Rightarrow> []) @ [reference]) # filter (\<lambda>(k, _). k \<noteq> sc) unverified"

definition confirmation_entry :: "(confirmation_key \<times> confirmation_group) list \<Rightarrow> confirmation_key \<Rightarrow> confirmation_group" where
  "confirmation_entry groups key =
     (case bt_get groups key of Some g \<Rightarrow> g | None \<Rightarrow> \<lparr>cg_confirms = [], cg_responses = []\<rparr>)"

definition unclassified_candidate :: "nat \<Rightarrow> fragment_ref \<Rightarrow> error \<Rightarrow> confirmation_candidate" where
  "unclassified_candidate flow reference e =
     \<lparr>cc_flow = flow, cc_confirms = [], cc_targets = [], cc_excluded_targets = [], cc_unclassified = [reference],
      cc_status = ''unclassified'', cc_reason = err_field e, cc_error = Some e\<rparr>"

text \<open>A verified fragment joins the group of its identifiers, if it is a confirmation or a response.\<close>

definition confirmation_join ::
    "application_analysis \<Rightarrow> fragment_ref \<Rightarrow> fragment_witness \<Rightarrow> confirmation_state \<Rightarrow> confirmation_state result" where
  "confirmation_join ap reference witness s =
     (let h = fw_header witness in
      if wh_function h \<notin> {0, 0x81, 0x82} then Ok s
      else let confirm = (wh_function h = 0);
               (source, destination) = (if confirm then (fw_source witness, fw_destination witness)
                                        else (fw_destination witness, fw_source witness))
        in and_then (index_at (fw_packets witness) 0) (\<lambda>packet.
          let key = (pid_capture packet, ap_flow ap, source, destination, wh_sequence h, wh_unsolicited h);
              g = confirmation_entry (fs_groups s) key;
              observed = \<lparr>cf_reference = reference, cf_direction = ap_direction ap, cf_witness = witness\<rparr>;
              g' = (if confirm then g\<lparr>cg_confirms := cg_confirms g @ [observed]\<rparr>
                    else g\<lparr>cg_responses := cg_responses g @ [observed]\<rparr>)
          in Ok (s\<lparr>fs_groups := bt_put key g' (fs_groups s)\<rparr>)))"

definition pay_match :: "'a metered \<Rightarrow> ('a \<Rightarrow> 'b metered) \<Rightarrow> (error \<Rightarrow> 'b metered) \<Rightarrow> 'b metered" where
  "pay_match m ok failed work = (case m work of
      (work', Ok x) \<Rightarrow> ok x work'
    | (work', Err e) \<Rightarrow> failed e work'
    | (work', Panic) \<Rightarrow> (work', Panic))"

definition confirmation_fragment_step ::
    "limits \<Rightarrow> nat \<Rightarrow> application_analysis \<Rightarrow> dnp3_result \<Rightarrow> confirmation_state \<Rightarrow> nat \<times> application_fragment
      \<Rightarrow> confirmation_state metered" where
  "confirmation_fragment_step l ai ap result s = (\<lambda>(fi, fragment).
     pay_then (confirm_charge 1 l) (\<lambda>_.
     if fs_fragments s + 1 > max_protocol_messages l then free (Err (error_limit ''dnp3_confirmation_fragments''))
     else let reference = FragmentRef ai fi; s1 = s\<lparr>fs_fragments := fs_fragments s + 1\<rparr> in
       pay_match
         (if ap_direction ap \<le> 1 \<and> ap_protocol ap = ''dnp3'' then verified_fragment_witness result fragment l
          else free (Err (error_new Invariant 0 ''dnp3_confirmation_application_scope_invalid''
                 ''protocol or captured direction disagrees with the supplied DNP3 scope'')))
         (\<lambda>witness. free (confirmation_join ap reference witness s1))
         (\<lambda>e. if err_code e = LimitExceeded then free (Err e)
              else pay_then (invalid_scope_of result fragment (ap_flow ap) l) (\<lambda>sc.
                free (Ok (s1\<lparr>fs_invalid := scope_add sc reference (fs_invalid s1),
                  fs_output := fs_output s1 @ [unclassified_candidate (ap_flow ap) reference e]\<rparr>))))))"

definition confirmation_application ::
    "limits \<Rightarrow> confirmation_state \<Rightarrow> nat \<times> application_analysis \<Rightarrow> confirmation_state metered" where
  "confirmation_application l s = (\<lambda>(ai, ap).
     pay_then (confirm_charge 1 l) (\<lambda>_.
       case ap_data ap of
         AppDnp3 result \<Rightarrow> pay_each (confirmation_fragment_step l ai ap result) s (enumerate 0 (dr_fragments result))
       | _ \<Rightarrow> free (Ok s)))"

section \<open>Concluding\<close>

definition opposition :: "limits \<Rightarrow> confirmation_fragment \<Rightarrow> bool \<times> bool \<times> bool \<Rightarrow> confirmation_fragment \<Rightarrow> (bool \<times> bool \<times> bool) metered" where
  "opposition l response = (\<lambda>(opposite_capture, opposite_link, jointly) confirm.
     pay_then (confirm_charge 1 l) (\<lambda>_.
       let capture = (cf_direction confirm \<noteq> cf_direction response);
           link = (fw_link_direction (cf_witness confirm) \<noteq> fw_link_direction (cf_witness response))
       in free (Ok (opposite_capture \<or> capture, opposite_link \<or> link, jointly \<or> (capture \<and> link)))))"

definition exclusion :: "confirmation_fragment \<Rightarrow> bool \<times> bool \<times> bool \<Rightarrow> string option" where
  "exclusion response = (\<lambda>(opposite_capture, opposite_link, jointly).
     if \<not> wh_confirm_requested (fw_header (cf_witness response)) then Some ''target_does_not_request_confirmation''
     else if \<not> opposite_capture then Some ''captured_application_directions_not_opposite''
     else if \<not> opposite_link then Some ''link_dir_not_opposite''
     else if \<not> jointly then Some ''direction_evidence_not_jointly_compatible''
     else None)"

definition confirmation_target ::
    "limits \<Rightarrow> confirmation_group \<Rightarrow> confirmation_fragment list \<times> excluded_target list \<Rightarrow> confirmation_fragment
      \<Rightarrow> (confirmation_fragment list \<times> excluded_target list) metered" where
  "confirmation_target l g = (\<lambda>(targets, excluded) response.
     pay_then (confirm_charge 1 l) (\<lambda>_.
     pay_then (pay_each (opposition l response) (False, False, False) (cg_confirms g)) (\<lambda>flags.
       free (Ok (case exclusion response flags of
           Some reason \<Rightarrow> (targets, excluded @ [\<lparr>et_fragment = response, et_reason = reason\<rparr>])
         | None \<Rightarrow> (targets @ [response], excluded))))))"

definition add_unclassified ::
    "limits \<Rightarrow> (invalid_scope \<times> fragment_ref list) list \<Rightarrow> fragment_ref list \<Rightarrow> invalid_scope \<Rightarrow> fragment_ref list metered" where
  "add_unclassified l unverified found sc =
     (case scope_refs unverified sc of
        None \<Rightarrow> free (Ok found)
      | Some refs \<Rightarrow> pay_then (confirm_charge (length refs) l) (\<lambda>_. free (Ok (found @ refs))))"

definition confirmation_status ::
    "bool \<Rightarrow> fragment_ref list \<Rightarrow> nat \<Rightarrow> nat \<Rightarrow> nat \<Rightarrow> string \<times> string" where
  "confirmation_status unknown unclassified confirms targets excluded =
     (if unknown then (''ambiguous'', ''unverified_fragment_capture_scope_unknown_in_same_flow'')
      else if unclassified \<noteq> [] then (''ambiguous'', ''unverified_fragment_identifier_in_same_flow'')
      else if confirms > 1 then (''ambiguous'', ''duplicate_or_reused_confirmation_identifier'')
      else if targets = 0 then (''unmatched_confirmation'', ''no_verified_response_fragment_matches_all_confirmation_fields'')
      else if targets > 1 \<or> excluded \<noteq> 0 then (''ambiguous'', ''duplicate_or_reused_response_identifier'')
      else (''candidate_confirmation'', ''unique_verified_fragment_identifiers_not_receipt_or_causality''))"

definition confirmation_conclude ::
    "limits \<Rightarrow> (invalid_scope \<times> fragment_ref list) list \<Rightarrow> confirmation_candidate list \<Rightarrow> confirmation_key \<times> confirmation_group
      \<Rightarrow> confirmation_candidate list metered" where
  "confirmation_conclude l unverified output = (\<lambda>((capture, flow, _), g).
     if cg_confirms g = [] then free (Ok output)
     else pay_then (confirm_charge (length (cg_confirms g)) l) (\<lambda>_.
       pay_then (pay_each (confirmation_target l g) ([], []) (cg_responses g)) (\<lambda>(targets, excluded).
       pay_then (pay_each (add_unclassified l unverified) [] [ScopeCapture capture flow, ScopeUnknown flow]) (\<lambda>unclassified.
       let (status, reason) = confirmation_status (scope_refs unverified (ScopeUnknown flow) \<noteq> None) unclassified
             (length (cg_confirms g)) (length targets) (length excluded)
       in free (Ok (output @ [\<lparr>cc_flow = flow, cc_confirms = cg_confirms g, cc_targets = targets,
            cc_excluded_targets = excluded, cc_unclassified = unclassified, cc_status = status, cc_reason = reason,
            cc_error = None\<rparr>]))))))"

definition dnp3_confirmation_candidates ::
    "application_analysis list \<Rightarrow> limits \<Rightarrow> confirmation_candidate list result" where
  "dnp3_confirmation_candidates applications l = snd (
     pay_then (pay_each (confirmation_application l) \<lparr>fs_groups = [], fs_invalid = [], fs_output = [], fs_fragments = 0\<rparr>
                 (enumerate 0 applications)) (\<lambda>s.
       pay_each (confirmation_conclude l (fs_invalid s)) (fs_output s) (fs_groups s)) 0)"

end
