(* ===== verification/Fragment.thy ===== *)
theory Fragment
  imports Wire_Safety Ordered_Map
begin

text \<open>
  \<^verbatim>\<open>src/src/fragment.rs\<close>: reassembly of IP fragments under budgets.  The reassembler keeps a map from
  fragment keys to assemblies, a set of expiry deadlines, and a count of retained payload bytes.
  Operations return the new state beside their result, because \<^verbatim>\<open>push\<close> changes the state on paths that
  return an error or a rejection as well.
\<close>

section \<open>State\<close>

datatype frag_key = FragKey (fk_scope: scope) (fk_source: ip_addr) (fk_destination: ip_addr)
  (fk_protocol: u8) (fk_id: u32) (fk_ipv6: bool)

instantiation frag_key :: linorder
begin

definition frag_key_tuple :: "frag_key \<Rightarrow> scope \<times> ip_addr \<times> ip_addr \<times> u8 \<times> u32 \<times> bool" where
  "frag_key_tuple k = (fk_scope k, fk_source k, fk_destination k, fk_protocol k, fk_id k, fk_ipv6 k)"

definition less_eq_frag_key :: "frag_key \<Rightarrow> frag_key \<Rightarrow> bool" where
  "a \<le> b \<longleftrightarrow> frag_key_tuple a \<le> frag_key_tuple b"

definition less_frag_key :: "frag_key \<Rightarrow> frag_key \<Rightarrow> bool" where
  "a < b \<longleftrightarrow> frag_key_tuple a < frag_key_tuple b"

lemma frag_key_tuple_inj: "frag_key_tuple a = frag_key_tuple b \<longleftrightarrow> a = b"
  by (cases a; cases b) (simp add: frag_key_tuple_def)

instance
  by standard
    (auto simp: less_eq_frag_key_def less_frag_key_def frag_key_tuple_inj less_le_not_le
      simp flip: frag_key_tuple_inj)

end

record part =
  pt_start :: nat
  pt_more :: bool
  pt_bytes :: evidence

record assembly =
  as_template :: datagram
  as_parts :: "part list"
  as_end :: "nat option"
  as_first_frame :: nat
  as_packets :: "packet_id list"
  as_poisoned :: bool

record fragment_notice =
  fn_code :: string
  fn_packets :: "packet_id list"

datatype fragment_outcome =
    Pending
  | Complete datagram "packet_id list"
  | Rejected fragment_notice

record reassembler =
  fr_sets :: "(frag_key \<times> assembly) list"
  fr_deadlines :: "((nat \<times> frag_key) \<times> unit) list"
  fr_retained :: nat
  fr_limits :: limits

definition reassembler_new :: "limits \<Rightarrow> reassembler" where
  "reassembler_new l = \<lparr>fr_sets = [], fr_deadlines = [], fr_retained = 0, fr_limits = l\<rparr>"

definition part_end :: "part \<Rightarrow> nat" where
  "part_end p = pt_start p + ev_len (pt_bytes p)"

definition parts_size :: "assembly \<Rightarrow> nat" where
  "parts_size a = sum_list (map (\<lambda>p. ev_len (pt_bytes p)) (as_parts a))"

definition deadline_of :: "limits \<Rightarrow> nat \<Rightarrow> nat option" where
  "deadline_of l frame =
     Option.bind (checked_add frame (fragment_frame_lifetime l)) (\<lambda>n. checked_add n 1)"

section \<open>Removing and expiring\<close>

definition fragment_remove :: "reassembler \<Rightarrow> frag_key \<Rightarrow> (reassembler \<times> assembly option) result" where
  "fragment_remove r key =
     (case bt_get (fr_sets r) key of
        None \<Rightarrow> Ok (r, None)
      | Some a \<Rightarrow>
          let deadlines = (case deadline_of (fr_limits r) (as_first_frame a) of
                             Some d \<Rightarrow> bt_del (d, key) (fr_deadlines r)
                           | None \<Rightarrow> fr_deadlines r)
          in and_then (usub (fr_retained r) (parts_size a)) (\<lambda>left.
               Ok (r\<lparr>fr_sets := bt_del key (fr_sets r), fr_deadlines := deadlines,
                     fr_retained := left\<rparr>, Some a)))"

lemma fragment_remove_deadlines:
  "fragment_remove r key = Ok (r', x) \<Longrightarrow> length (fr_deadlines r') \<le> length (fr_deadlines r)"
  by (auto simp: fragment_remove_def Let_def length_bt_del elim!: and_then_OkE
      split: option.split_asm)

function expire_loop ::
    "nat \<Rightarrow> reassembler \<Rightarrow> fragment_notice list \<Rightarrow> (reassembler \<times> fragment_notice list) result" where
  "expire_loop frame r notices =
     (case fr_deadlines r of
        [] \<Rightarrow> Ok (r, notices)
      | ((deadline, key), u) # rest \<Rightarrow>
          if deadline \<le> frame then
            and_then (fragment_remove (r\<lparr>fr_deadlines := rest\<rparr>) key) (\<lambda>(r', removed).
              expire_loop frame r'
                (case removed of
                   Some a \<Rightarrow> notices @ [\<lparr>fn_code = ''fragment_expired'', fn_packets = as_packets a\<rparr>]
                 | None \<Rightarrow> notices))
          else Ok (r, notices))"
  by pat_completeness auto
termination
  by (relation "measure (\<lambda>(frame, r, notices). length (fr_deadlines r))")
    (auto dest!: fragment_remove_deadlines)

declare expire_loop.simps [simp del]

definition fragment_expire :: "reassembler \<Rightarrow> nat \<Rightarrow> (reassembler \<times> fragment_notice list) result" where
  "fragment_expire r frame = expire_loop frame r []"

section \<open>Pushing a fragment\<close>

definition frag_key_of :: "datagram \<Rightarrow> fragment_info \<Rightarrow> frag_key" where
  "frag_key_of dg info = FragKey (dg_scope dg) (dg_source dg) (dg_destination dg)
     (if dg_ipv6 dg then 0 else dg_protocol dg) (fi_id info) (dg_ipv6 dg)"

text \<open>The budgets a fragment must pass: the packets of its set and the retained bytes afterwards.\<close>

definition admit :: "reassembler \<Rightarrow> frag_key \<Rightarrow> datagram \<Rightarrow> (packet_id list \<times> nat) result" where
  "admit r key dg =
     (let existing = bt_get (fr_sets r) key;
          packets = sort_dedup ((case existing of Some st \<Rightarrow> as_packets st | None \<Rightarrow> [])
                                @ ev_packets (dg_payload dg));
          limit = max_fragments_per_set (fr_limits r)
      in if length packets > limit
            \<or> (case existing of Some st \<Rightarrow> length (as_parts st) \<ge> limit | None \<Rightarrow> False)
         then Err (error_limit ''fragments_per_set'')
         else
           and_then (if (case existing of Some st \<Rightarrow> as_poisoned st | None \<Rightarrow> False)
                     then Ok (fr_retained r)
                     else ok_or (error_limit ''fragment_payload'')
                            (checked_add (fr_retained r) (ev_len (dg_payload dg)))) (\<lambda>new_size.
             if new_size > max_retained_payload (fr_limits r)
             then Err (error_limit ''fragment_payload'')
             else Ok (packets, new_size)))"

definition empty_assembly :: "datagram \<Rightarrow> nat \<Rightarrow> assembly" where
  "empty_assembly dg frame =
     \<lparr>as_template = dg\<lparr>dg_payload := evidence_default\<rparr>, as_parts = [], as_end = None,
      as_first_frame = frame, as_packets = [], as_poisoned = False\<rparr>"

definition open_set :: "reassembler \<Rightarrow> frag_key \<Rightarrow> datagram \<Rightarrow> nat \<Rightarrow> reassembler result" where
  "open_set r key dg frame =
     (if bt_get (fr_sets r) key \<noteq> None then Ok r
      else if length (fr_sets r) \<ge> max_fragment_sets (fr_limits r)
      then Err (error_limit ''fragment_sets'')
      else Ok (r\<lparr>fr_deadlines := (case deadline_of (fr_limits r) frame of
                   Some d \<Rightarrow> bt_put (d, key) () (fr_deadlines r) | None \<Rightarrow> fr_deadlines r),
                 fr_sets := bt_put key (empty_assembly dg frame) (fr_sets r)\<rparr>))"

definition merge_template :: "datagram \<Rightarrow> fragment_info \<Rightarrow> datagram \<Rightarrow> datagram" where
  "merge_template dg info t =
     (let t1 = (if ip_checksum dg = Invalid then t\<lparr>ip_checksum := Invalid\<rparr> else t);
          t2 = (if checksum_ctx dg = Unsupported then t1\<lparr>checksum_ctx := Unsupported\<rparr> else t1)
      in if fi_offset info = 0
         then t2\<lparr>dg_protocol := dg_protocol dg, network_header_len := network_header_len dg\<rparr>
         else t2)"

definition outside :: "nat \<Rightarrow> nat \<Rightarrow> bool \<Rightarrow> bool" where
  "outside whole fin more_follow \<longleftrightarrow> fin > whole \<or> (more_follow \<and> fin \<ge> whole)"

text \<open>Overlaps with earlier parts: forbidden for IPv6, equal bytes required for IPv4.\<close>

fun overlap_scan :: "bool \<Rightarrow> nat \<Rightarrow> bytes \<Rightarrow> part list \<Rightarrow> string option \<Rightarrow> string option result" where
  "overlap_scan v6 off data [] rejection = Ok rejection"
| "overlap_scan v6 off data (p # ps) rejection =
     (let a = max (pt_start p) off; b = min (part_end p) (off + length data)
      in if a < b then
           if v6 then overlap_scan v6 off data ps (Some ''ipv6_overlapping_fragments'')
           else
             and_then (range_at (ev_data (pt_bytes p)) (a - pt_start p) (b - pt_start p)) (\<lambda>old.
             and_then (range_at data (a - off) (b - off)) (\<lambda>fresh.
               overlap_scan v6 off data ps
                 (if old \<noteq> fresh then Some ''conflicting_fragment_bytes'' else rejection)))
         else overlap_scan v6 off data ps rejection)"

definition check_fragment ::
    "bool \<Rightarrow> fragment_info \<Rightarrow> evidence \<Rightarrow> assembly \<Rightarrow> (nat option \<times> string option) result" where
  "check_fragment v6 info payload st =
     (let fin = fi_offset info + ev_len payload;
          rej1 = (if \<not> fi_more info \<and> (case as_end st of Some old \<Rightarrow> old \<noteq> fin | None \<Rightarrow> False)
                  then Some ''conflicting_fragment_terminal_length'' else None);
          end' = (if fi_more info then as_end st else Some fin);
          rej2 = (case end' of
                    Some whole \<Rightarrow>
                      if outside whole fin (fi_more info)
                         \<or> list_ex (\<lambda>p. outside whole (part_end p) (pt_more p)) (as_parts st)
                      then Some ''fragment_outside_terminal_length'' else rej1
                  | None \<Rightarrow> rej1)
      in and_then (overlap_scan v6 (fi_offset info) (ev_data payload) (as_parts st) rej2) (\<lambda>rej.
           Ok (end', rej)))"

fun cover_from :: "nat \<Rightarrow> part list \<Rightarrow> nat" where
  "cover_from cursor [] = cursor"
| "cover_from cursor (p # ps) =
     (if pt_start p > cursor then cursor else cover_from (max cursor (part_end p)) ps)"

fun join_parts :: "evidence \<Rightarrow> part list \<Rightarrow> evidence result" where
  "join_parts joined [] = Ok joined"
| "join_parts joined (p # ps) =
     (let n = ev_len (pt_bytes p); skip = min (ev_len joined - pt_start p) n
      in if skip < n then
           and_then (ev_slice (pt_bytes p) skip n) (\<lambda>tail.
           and_then (ev_append joined tail 65535) (\<lambda>joined'. join_parts joined' ps))
         else join_parts joined ps)"

definition rejected :: "string \<Rightarrow> packet_id list \<Rightarrow> fragment_outcome" where
  "rejected code packets = Rejected \<lparr>fn_code = code, fn_packets = packets\<rparr>"

definition length_overflow :: "bool \<Rightarrow> assembly \<Rightarrow> nat \<Rightarrow> bool" where
  "length_overflow v6 st whole \<longleftrightarrow>
     whole + (if v6 then network_header_len (as_template st) - 48
              else network_header_len (as_template st)) > 65535"

definition finish_set ::
    "reassembler \<Rightarrow> frag_key \<Rightarrow> reassembler \<times> fragment_outcome result" where
  "finish_set r key =
     (case fragment_remove r key of
        Err e \<Rightarrow> (r, Err e)
      | Panic \<Rightarrow> (r, Panic)
      | Ok (r', None) \<Rightarrow> (r', Err (error_limit ''fragment_state''))
      | Ok (r', Some st) \<Rightarrow>
          (r', and_then (join_parts evidence_default (as_parts st)) (\<lambda>joined.
                 Ok (Complete ((as_template st)\<lparr>dg_payload := joined, dg_fragment := None\<rparr>)
                       (as_packets st)))))"

text \<open>The part of \<^verbatim>\<open>push\<close> that updates the assembly, once the fragment has been admitted.\<close>

definition update_set ::
    "reassembler \<Rightarrow> frag_key \<Rightarrow> datagram \<Rightarrow> fragment_info \<Rightarrow> packet_id list \<Rightarrow> nat
      \<Rightarrow> reassembler \<times> fragment_outcome result" where
  "update_set r key dg info packets new_size =
     (case bt_get (fr_sets r) key of
        None \<Rightarrow> (r, Err (error_limit ''fragment_state''))
      | Some set0 \<Rightarrow>
          let store = (\<lambda>st. r\<lparr>fr_sets := bt_put key st (fr_sets r)\<rparr>);
              set1 = set0\<lparr>as_packets := packets\<rparr>
          in if as_poisoned set1
             then (store set1, Ok (rejected ''fragment_set_quarantined'' packets))
             else
               let set2 = set1\<lparr>as_template := merge_template dg info (as_template set1)\<rparr>
               in case check_fragment (fk_ipv6 key) info (dg_payload dg) set2 of
                    Err e \<Rightarrow> (store set2, Err e)
                  | Panic \<Rightarrow> (store set2, Panic)
                  | Ok (end', Some code) \<Rightarrow>
                      (store (set2\<lparr>as_end := end', as_poisoned := True\<rparr>), Ok (rejected code packets))
                  | Ok (end', None) \<Rightarrow>
                      let set3 = set2\<lparr>as_end := end',
                            as_parts := sort_key pt_start (as_parts set2 @
                              [\<lparr>pt_start = fi_offset info, pt_more = fi_more info,
                                pt_bytes = dg_payload dg\<rparr>])\<rparr>;
                          r3 = (store set3)\<lparr>fr_retained := new_size\<rparr>
                      in case end' of
                           None \<Rightarrow> (r3, Ok Pending)
                         | Some whole \<Rightarrow>
                             if cover_from 0 (as_parts set3) = whole then
                               if length_overflow (fk_ipv6 key) set3 whole
                               then (r3\<lparr>fr_sets := bt_put key (set3\<lparr>as_poisoned := True\<rparr>) (fr_sets r3)\<rparr>,
                                     Ok (rejected ''reassembled_ip_length_overflow'' packets))
                               else finish_set r3 key
                             else (r3, Ok Pending))"

definition fragment_push :: "reassembler \<Rightarrow> datagram \<Rightarrow> nat \<Rightarrow> reassembler \<times> fragment_outcome result" where
  "fragment_push r dg frame =
     (case limits_validate (fr_limits r) of
        Err e \<Rightarrow> (r, Err e)
      | Panic \<Rightarrow> (r, Panic)
      | Ok _ \<Rightarrow>
        case dg_fragment dg of
          None \<Rightarrow> (r, Ok (Complete dg (ev_packets (dg_payload dg))))
        | Some info \<Rightarrow>
          case checked_add (fi_offset info) (ev_len (dg_payload dg)) of
            None \<Rightarrow> (r, Err (error_limit ''fragment_range''))
          | Some fin \<Rightarrow>
              if fin > 65535 \<or> ev_is_empty (dg_payload dg)
              then (r, Ok (rejected ''invalid_fragment_range'' (ev_packets (dg_payload dg))))
              else if \<not> ev_validate (dg_payload dg)
              then (r, Err (error_new Invariant 0 ''provenance'' ''invalid fragment source spans''))
              else
                case and_then (admit r (frag_key_of dg info) dg) (\<lambda>(packets, new_size).
                       and_then (open_set r (frag_key_of dg info) dg frame) (\<lambda>r'.
                         Ok (r', packets, new_size))) of
                  Err e \<Rightarrow> (r, Err e)
                | Panic \<Rightarrow> (r, Panic)
                | Ok (r', packets, new_size) \<Rightarrow>
                    update_set r' (frag_key_of dg info) dg info packets new_size)"

definition fragment_finish :: "reassembler \<Rightarrow> fragment_notice list" where
  "fragment_finish r =
     map (\<lambda>(k, st). \<lparr>fn_code = (if as_poisoned st then ''fragment_quarantine_at_eof''
                                 else ''incomplete_fragment_set_at_eof''),
                      fn_packets = as_packets st\<rparr>) (fr_sets r)"

end
