(* ===== verification/Labels.thy ===== *)
theory Labels
  imports Correlate Timestamps
begin

text \<open>
  Attempt labels (\<^verbatim>\<open>correlate.rs\<close>, \<^verbatim>\<open>parse_labels\<close>): a strict tab-separated format of attempts with their time
  interval and endpoints.  A text is its list of Unicode scalar values; the functions of the standard library that
  the parser calls (lines, fields, trimming, parsing of integers and addresses) are written out.
\<close>

section \<open>Text\<close>

type_synonym scalars = "nat list"

definition text_of :: "string \<Rightarrow> scalars" where
  "text_of s = map of_char s"

definition utf8_char :: "nat \<Rightarrow> nat list" where
  "utf8_char c =
     (if c < 0x80 then [c]
      else if c < 0x800 then [0xc0 + c div 0x40, 0x80 + c mod 0x40]
      else if c < 0x10000 then [0xe0 + c div 0x1000, 0x80 + c div 0x40 mod 0x40, 0x80 + c mod 0x40]
      else [0xf0 + c div 0x40000, 0x80 + c div 0x1000 mod 0x40, 0x80 + c div 0x40 mod 0x40, 0x80 + c mod 0x40])"

definition as_bytes :: "scalars \<Rightarrow> bytes" where
  "as_bytes t = map of_nat (concat (map utf8_char t))"

text \<open>\<^verbatim>\<open>char::is_control\<close> and \<^verbatim>\<open>char::is_whitespace\<close>.\<close>

definition is_control :: "nat \<Rightarrow> bool" where
  "is_control c \<longleftrightarrow> c < 0x20 \<or> 0x7f \<le> c \<and> c < 0xa0"

definition is_whitespace :: "nat \<Rightarrow> bool" where
  "is_whitespace c \<longleftrightarrow> 9 \<le> c \<and> c \<le> 13 \<or> c \<in> {0x20, 0x85, 0xa0, 0x1680, 0x2028, 0x2029, 0x202f, 0x205f, 0x3000}
     \<or> 0x2000 \<le> c \<and> c \<le> 0x200a"

definition trim :: "scalars \<Rightarrow> scalars" where
  "trim t = rev (dropWhile is_whitespace (rev (dropWhile is_whitespace t)))"

text \<open>\<^verbatim>\<open>str::lines\<close>: pieces ended by a line feed, without it and a carriage return before it.\<close>

definition strip_cr :: "scalars \<Rightarrow> scalars" where
  "strip_cr line = (if line \<noteq> [] \<and> last line = 13 then butlast line else line)"

function text_lines :: "scalars \<Rightarrow> scalars list" where
  "text_lines t =
     (if t = [] then []
      else if 10 \<in> set t
      then let line = takeWhile (\<lambda>c. c \<noteq> 10) t in strip_cr line # text_lines (drop (Suc (length line)) t)
      else [t])"
  by pat_completeness auto
termination by (relation "measure length") auto

declare text_lines.simps [simp del]

fun split_at :: "nat \<Rightarrow> scalars \<Rightarrow> scalars list" where
  "split_at d [] = [[]]"
| "split_at d (c # cs) = (if c = d then [] # split_at d cs
     else case split_at d cs of [] \<Rightarrow> [[c]] | field # parts \<Rightarrow> (c # field) # parts)"

section \<open>Numbers\<close>

definition digit_of :: "nat \<Rightarrow> nat \<Rightarrow> nat option" where
  "digit_of radix c =
     (let v = (if 48 \<le> c \<and> c \<le> 57 then Some (c - 48)
               else if 97 \<le> c \<and> c \<le> 122 then Some (c - 87)
               else if 65 \<le> c \<and> c \<le> 90 then Some (c - 55) else None)
      in case v of Some n \<Rightarrow> if n < radix then Some n else None | None \<Rightarrow> None)"

fun digits_value :: "nat \<Rightarrow> nat \<Rightarrow> scalars \<Rightarrow> nat option" where
  "digits_value radix acc [] = Some acc"
| "digits_value radix acc (c # cs) = (case digit_of radix c of
     Some n \<Rightarrow> digits_value radix (acc * radix + n) cs | None \<Rightarrow> None)"

definition decimal :: "scalars \<Rightarrow> nat option" where
  "decimal t = (if t = [] then None else digits_value 10 0 t)"

definition parse_i128 :: "scalars \<Rightarrow> int option" where
  "parse_i128 t =
     (let v = (case t of
           c # cs \<Rightarrow> if c = 45 then map_option (\<lambda>n. - int n) (decimal cs)
             else if c = 43 then map_option int (decimal cs) else map_option int (decimal t)
         | [] \<Rightarrow> None)
      in case v of Some n \<Rightarrow> if in_i128 n then Some n else None | None \<Rightarrow> None)"

definition parse_u16 :: "scalars \<Rightarrow> u16 option" where
  "parse_u16 t =
     (case (case t of c # cs \<Rightarrow> if c = 43 then decimal cs else decimal t | [] \<Rightarrow> None) of
        Some n \<Rightarrow> if n < 2 ^ 16 then Some (of_nat n) else None
      | None \<Rightarrow> None)"

section \<open>Addresses\<close>

text \<open>The reader of addresses works on the text that is left; a reader that fails leaves it unchanged.\<close>

type_synonym 'a reader = "scalars \<Rightarrow> ('a \<times> scalars) option"

definition read_char :: "nat \<Rightarrow> unit reader" where
  "read_char c t = (case t of x # rest \<Rightarrow> if x = c then Some ((), rest) else None | [] \<Rightarrow> None)"

definition read_number :: "nat \<Rightarrow> nat \<Rightarrow> bool \<Rightarrow> nat \<Rightarrow> nat reader" where
  "read_number radix max_digits allow_zero_prefix bound t =
     (let ds = takeWhile (\<lambda>c. digit_of radix c \<noteq> None) t
      in if ds = [] \<or> length ds > max_digits \<or> (\<not> allow_zero_prefix \<and> hd ds = 48 \<and> length ds > 1) then None
         else case digits_value radix 0 ds of
             Some n \<Rightarrow> if n < bound then Some (n, drop (length ds) t) else None
           | None \<Rightarrow> None)"

definition read_separator :: "nat \<Rightarrow> nat \<Rightarrow> 'a reader \<Rightarrow> 'a reader" where
  "read_separator c index inner t =
     (if index = 0 then inner t else case read_char c t of Some (_, rest) \<Rightarrow> inner rest | None \<Rightarrow> None)"

fun read_octets :: "nat \<Rightarrow> nat \<Rightarrow> bytes reader" where
  "read_octets index 0 t = Some ([], t)"
| "read_octets index (Suc n) t = (case read_separator 46 index (read_number 10 3 False 256) t of
     Some (v, rest) \<Rightarrow> (case read_octets (Suc index) n rest of
         Some (vs, rest') \<Rightarrow> Some (of_nat v # vs, rest') | None \<Rightarrow> None)
   | None \<Rightarrow> None)"

definition read_ipv4_addr :: "bytes reader" where
  "read_ipv4_addr = read_octets 0 4"

text \<open>Up to \<open>left\<close> further groups, the last two possibly as an embedded IPv4 address.\<close>

fun read_groups :: "nat \<Rightarrow> nat \<Rightarrow> scalars \<Rightarrow> bytes \<times> bool \<times> scalars" where
  "read_groups index 0 t = ([], False, t)"
| "read_groups index (Suc left) t =
     (case (if left > 0 then read_separator 58 index read_ipv4_addr t else None) of
        Some (v4, rest) \<Rightarrow> (v4, True, rest)
      | None \<Rightarrow> (case read_separator 58 index (read_number 16 4 True (2 ^ 16)) t of
            Some (g, rest) \<Rightarrow> (let (gs, v4, rest') = read_groups (Suc index) left rest
                               in (of_nat (g div 256) # of_nat (g mod 256) # gs, v4, rest'))
          | None \<Rightarrow> ([], False, t)))"

definition read_ipv6_addr :: "bytes reader" where
  "read_ipv6_addr t =
     (let (head, head_v4, rest) = read_groups 0 8 t
      in if length head = 16 then Some (head, rest)
         else if head_v4 then None
         else case read_char 58 rest of
             None \<Rightarrow> None
           | Some (_, rest1) \<Rightarrow> (case read_char 58 rest1 of
                 None \<Rightarrow> None
               | Some (_, rest2) \<Rightarrow>
                   (let (tail, _, rest3) = read_groups 0 (8 - (length head div 2 + 1)) rest2
                    in Some (head @ replicate (16 - length head - length tail) 0 @ tail, rest3))))"

definition parse_ip_addr :: "scalars \<Rightarrow> ip_addr option" where
  "parse_ip_addr t =
     (case (case read_ipv4_addr t of
          Some (a, rest) \<Rightarrow> Some (V4 a, rest)
        | None \<Rightarrow> map_option (\<lambda>(a, rest). (V6 a, rest)) (read_ipv6_addr t)) of
        Some (a, []) \<Rightarrow> Some a
      | _ \<Rightarrow> None)"

section \<open>Labels\<close>

record attempt_label =
  al_id :: scalars
  al_start_ns :: int
  al_end_ns :: int
  al_source :: endpoint
  al_destination :: endpoint
  al_transport :: string

record attempt_match =
  at_attempt_id :: scalars
  at_status :: string
  at_matched_packets :: "packet_id list"
  at_unresolved_packets :: "packet_id list"
  at_flows :: "nat list"
  at_messages :: "message_ref list"

definition label_header :: scalars where
  "label_header = text_of ''attempt_id'' @ concat (map (\<lambda>s. 9 # text_of s)
     [''start_ns'', ''end_ns'', ''src_ip'', ''src_port'', ''dst_ip'', ''dst_port'', ''transport''])"

definition label_invalid :: "nat \<Rightarrow> string \<Rightarrow> error" where
  "label_invalid line detail = error_new InvalidLabel 0 ''labels'' (''line '' @ show_nat line @ '': '' @ detail)"

definition parse_endpoint :: "nat \<Rightarrow> string \<Rightarrow> scalars \<Rightarrow> scalars \<Rightarrow> endpoint result" where
  "parse_endpoint line side address port =
     and_then (ok_or (label_invalid line (''invalid '' @ side @ ''_ip'')) (parse_ip_addr address)) (\<lambda>a.
     and_then (ok_or (label_invalid line (''invalid '' @ side @ ''_port'')) (parse_u16 port)) (\<lambda>p.
       Ok (Endpoint a p)))"

definition parse_transport :: "nat \<Rightarrow> scalars \<Rightarrow> string result" where
  "parse_transport line t =
     (if t = text_of ''tcp'' then Ok ''tcp'' else if t = text_of ''udp'' then Ok ''udp''
      else Err (label_invalid line ''transport must be tcp or udp''))"

definition bad_id_or_space :: "scalars list \<Rightarrow> bool" where
  "bad_id_or_space parts \<longleftrightarrow> hd parts = [] \<or> length (as_bytes (hd parts)) > 256 \<or> (\<exists>c \<in> set (hd parts). is_control c)
     \<or> (\<exists>field \<in> set parts. trim field \<noteq> field)"

definition parse_label :: "limits \<Rightarrow> attempt_label list \<Rightarrow> nat \<times> scalars \<Rightarrow> attempt_label list result" where
  "parse_label l labels = (\<lambda>(index, line).
     if line = [] then Ok labels
     else if length labels \<ge> max_labels l then Err (error_limit ''labels'')
     else let parts = split_at 9 line; n = index + 2 in
     if length parts \<noteq> 8 then Err (label_invalid n ''expected 8 fields'')
     else if bad_id_or_space parts
     then Err (label_invalid n ''empty/overlong ID, control character or surrounding whitespace'')
     else if parts ! 0 \<in> al_id ` set labels then Err (label_invalid n ''duplicate attempt ID'')
     else
       and_then (ok_or (label_invalid n ''invalid start_ns'') (parse_i128 (parts ! 1))) (\<lambda>start_ns.
       and_then (ok_or (label_invalid n ''invalid end_ns'') (parse_i128 (parts ! 2))) (\<lambda>end_ns.
       if start_ns > end_ns then Err (label_invalid n ''start_ns exceeds end_ns'')
       else
       and_then (parse_endpoint n ''src'' (parts ! 3) (parts ! 4)) (\<lambda>source.
       and_then (parse_endpoint n ''dst'' (parts ! 5) (parts ! 6)) (\<lambda>destination.
       and_then (parse_transport n (parts ! 7)) (\<lambda>transport.
         Ok (labels @ [\<lparr>al_id = parts ! 0, al_start_ns = start_ns, al_end_ns = end_ns, al_source = source,
              al_destination = destination, al_transport = transport\<rparr>])))))))"

definition parse_labels :: "scalars \<Rightarrow> limits \<Rightarrow> attempt_label list result" where
  "parse_labels input l =
     (if length (as_bytes input) > max_input_bytes l then Err (error_limit ''labels_bytes'')
      else case text_lines input of
          [] \<Rightarrow> Err (label_invalid 1 ''expected the exact v1 TSV header'')
        | first # lines \<Rightarrow>
            if first \<noteq> label_header then Err (label_invalid 1 ''expected the exact v1 TSV header'')
            else for_each (parse_label l) [] (enumerate 0 lines))"

end
