(* ===== verification/Engine.thy ===== *)
theory Engine
  imports Detection Confirmations Capture_Index Fragment Labels
begin

text \<open>
  The pipeline over one capture (\<^verbatim>\<open>engine.rs\<close>): every record is decoded, its packet is decoded, reassembled and
  handed to the tracker or to the datagram decoder, every packet ends with one disposition, and at the end of
  the capture the streams are decoded and correlated.
\<close>

section \<open>Observations\<close>

datatype disposition =
    DispPending
  | DispTcp nat nat
  | DispUdp
  | DispFragmentPending
  | DispFragmentIncomplete string
  | DispRejected string string
  | DispAmbiguous "nat list"

fun disposition_as_str :: "disposition \<Rightarrow> string" where
  "disposition_as_str DispPending = ''pending''"
| "disposition_as_str (DispTcp _ _) = ''tcp_assigned''"
| "disposition_as_str DispUdp = ''udp_observed''"
| "disposition_as_str DispFragmentPending = ''fragment_pending''"
| "disposition_as_str (DispFragmentIncomplete _) = ''fragment_incomplete''"
| "disposition_as_str (DispRejected _ _) = ''rejected_or_unsupported''"
| "disposition_as_str (DispAmbiguous _) = ''ambiguous_generation''"

record packet_observation =
  ob_id :: packet_id
  ob_metadata :: packet_meta
  ob_sha256 :: bytes
  ob_source :: "endpoint option"
  ob_destination :: "endpoint option"
  ob_transport :: "string option"
  ob_disposition :: disposition
  ob_warnings :: "string list"

record analysis =
  an_capture_sha256 :: bytes
  an_labels_sha256 :: "bytes option"
  an_capture_bytes :: nat
  an_config :: config
  an_records :: nat
  an_metadata_records :: nat
  an_secret_blocks :: nat
  an_packets :: "packet_observation list"
  an_flows :: "flow_result list"
  an_applications :: "application_analysis list"
  an_datagrams :: "datagram_analysis list"
  an_fragment_notices :: "fragment_notice list"
  an_transactions :: "transaction list"
  an_confirmations :: "confirmation_candidate list"
  an_confirmation_error :: "error option"
  an_attempt_matches :: "attempt_match list"
  an_correlation_error :: "error option"

definition dnp3_degraded :: "dnp3_result \<Rightarrow> bool" where
  "dnp3_degraded d \<longleftrightarrow> dr_issues d \<noteq> [] \<or> (\<exists>m \<in> set (dr_messages d). \<not> am_complete m)"

definition has_diagnostics :: "analysis \<Rightarrow> bool" where
  "has_diagnostics a \<longleftrightarrow>
     (\<exists>d \<in> set (an_datagrams a). case da_data d of Inl _ \<Rightarrow> True | Inr result \<Rightarrow> dnp3_degraded result)
     \<or> (\<exists>p \<in> set (an_packets a). ob_warnings p \<noteq> []
          \<or> (case ob_disposition p of DispTcp _ _ \<Rightarrow> False | DispUdp \<Rightarrow> False | _ \<Rightarrow> True))
     \<or> an_fragment_notices a \<noteq> [] \<or> an_correlation_error a \<noteq> None \<or> an_confirmation_error a \<noteq> None
     \<or> (\<exists>f \<in> set (an_flows a). fo_midstream f \<or> \<not> fo_closed f \<or> fo_anomalies f \<noteq> [] \<or> fo_errors f \<noteq> []
          \<or> (\<exists>d \<in> {0, 1}. case arr_get (fo_streams f) d of None \<Rightarrow> False | Some s \<Rightarrow> sr_gaps s \<noteq> [] \<or> sr_conflicts s \<noteq> []))
     \<or> (\<exists>ap \<in> set (an_applications a). case ap_data ap of
          AppFailed _ \<Rightarrow> True | AppDnp3 d \<Rightarrow> dnp3_degraded d | AppModbus m \<Rightarrow> mr_issues m \<noteq> [])"

section \<open>Updating the packets of a list of identities\<close>

definition touch_packet ::
    "(packet_observation \<Rightarrow> packet_observation) \<Rightarrow> packet_observation list \<Rightarrow> packet_id \<Rightarrow> packet_observation list result" where
  "touch_packet action packets pid =
     (if pid_frame pid = 0 then Err (error_new Invariant 0 ''packet_identity'' ''invalid frame ID'')
      else let index = pid_frame pid - 1 in
        if index < length packets \<and> ob_id (packets ! index) = pid
        then Ok (packets[index := action (packets ! index)])
        else Err (error_new Invariant 0 ''packet_identity'' ''provenance points outside this capture''))"

definition each_packet ::
    "(packet_observation \<Rightarrow> packet_observation) \<Rightarrow> packet_observation list \<Rightarrow> packet_id list \<Rightarrow> packet_observation list result" where
  "each_packet action packets ids = for_each (touch_packet action) packets ids"

record engine_state =
  es_fragments :: reassembler
  es_tracker :: tracker
  es_packets :: "packet_observation list"
  es_notices :: "fragment_notice list"
  es_datagrams :: "datagram_analysis list"
  es_udp_retained :: nat
  es_records :: nat
  es_metadata_records :: nat
  es_secret_blocks :: nat

definition mark_incomplete :: "packet_observation list \<Rightarrow> fragment_notice \<Rightarrow> packet_observation list result" where
  "mark_incomplete packets notice =
     each_packet (\<lambda>p. p\<lparr>ob_disposition := DispFragmentIncomplete (fn_code notice)\<rparr>) packets (fn_packets notice)"

definition take_notice :: "engine_state \<Rightarrow> fragment_notice \<Rightarrow> engine_state result" where
  "take_notice s notice =
     and_then (mark_incomplete (es_packets s) notice) (\<lambda>packets.
       Ok (s\<lparr>es_packets := packets, es_notices := es_notices s @ [notice]\<rparr>))"

definition update_packets ::
    "(packet_observation \<Rightarrow> packet_observation) \<Rightarrow> packet_id list \<Rightarrow> engine_state \<Rightarrow> engine_state result" where
  "update_packets action ids s =
     and_then (each_packet action (es_packets s) ids) (\<lambda>packets. Ok (s\<lparr>es_packets := packets\<rparr>))"

text \<open>\<^verbatim>\<open>packets[at]\<close>, the observation just pushed.\<close>

definition update_current :: "(packet_observation \<Rightarrow> packet_observation) \<Rightarrow> engine_state \<Rightarrow> engine_state" where
  "update_current action s =
     s\<lparr>es_packets := butlast (es_packets s) @ [action (last (es_packets s))]\<rparr>"

section \<open>Transport\<close>

definition transport_warning :: "string \<Rightarrow> string \<Rightarrow> checksum_status \<Rightarrow> string list" where
  "transport_warning wrong unsupported status =
     (if status = Invalid then [wrong] else if status = NotChecked then [unsupported] else [])"

fun assignment_disposition :: "assignment \<Rightarrow> disposition" where
  "assignment_disposition (Assigned flow direction) = DispTcp flow direction"
| "assignment_disposition (Ambiguous flows) = DispAmbiguous flows"
| "assignment_disposition (Unassigned reason) = DispRejected reason ''cannot safely assign a connection generation''"

definition engine_tcp ::
    "engine_state \<Rightarrow> scope \<Rightarrow> packet_id list \<Rightarrow> int option \<Rightarrow> tcp_segment \<Rightarrow> engine_state result" where
  "engine_tcp s sc contributors time seg =
     (case ingest_with_packets (es_tracker s) sc contributors time seg of
        (_, Err e) \<Rightarrow> Err e
      | (_, Panic) \<Rightarrow> Panic
      | (tracker, Ok assignment) \<Rightarrow>
          update_packets (\<lambda>p. p\<lparr>ob_source := Some (seg_source seg), ob_destination := Some (seg_destination seg),
              ob_transport := Some ''tcp'', ob_warnings := ob_warnings p
                @ transport_warning ''invalid_tcp_checksum_observed'' ''unsupported_tcp_checksum_operands'' (seg_checksum seg),
              ob_disposition := assignment_disposition assignment\<rparr>) contributors (s\<lparr>es_tracker := tracker\<rparr>))"

definition engine_udp ::
    "config \<Rightarrow> engine_state \<Rightarrow> scope \<Rightarrow> packet_id list \<Rightarrow> udp_datagram \<Rightarrow> engine_state result" where
  "engine_udp c s sc contributors dg =
     and_then (update_packets (\<lambda>p. p\<lparr>ob_source := Some (udp_source dg), ob_destination := Some (udp_destination dg),
         ob_transport := Some ''udp'', ob_disposition := DispUdp, ob_warnings := ob_warnings p
           @ transport_warning ''invalid_udp_checksum_observed'' ''unsupported_udp_checksum_operands'' (udp_checksum dg)\<rparr>)
       contributors s) (\<lambda>s1.
     if ev_is_empty (udp_payload dg)
        \<or> (ep_port (udp_source dg) \<notin> set (cg_dnp3_ports c) \<and> ep_port (udp_destination dg) \<notin> set (cg_dnp3_ports c))
     then Ok s1
     else if length (es_datagrams s1) \<ge> max_protocol_messages (cg_limits c) then Err (error_limit ''udp_applications'')
     else and_then (ok_or (error_limit ''udp_retained_payload'') (checked_add (es_udp_retained s1) (ev_len (udp_payload dg)))) (\<lambda>retained.
       if retained > max_retained_payload (cg_limits c) then Err (error_limit ''udp_retained_payload'')
       else and_then (analyze_udp sc dg contributors (cg_dnp3_ports c) (cg_limits c)) (\<lambda>found.
         case found of
           None \<Rightarrow> Ok s1
         | Some application \<Rightarrow> Ok (s1\<lparr>es_datagrams := es_datagrams s1 @ [application], es_udp_retained := retained\<rparr>))))"

section \<open>Packets\<close>

definition error_disposition :: "error \<Rightarrow> disposition" where
  "error_disposition e = DispRejected (error_code_as_str (err_code e)) (error_display e)"

text \<open>A complete datagram, with the packets that contributed to it.\<close>

definition engine_datagram ::
    "config \<Rightarrow> packet_id \<Rightarrow> int option \<Rightarrow> engine_state \<Rightarrow> datagram \<Rightarrow> packet_id list \<Rightarrow> engine_state result" where
  "engine_datagram c pid time s dg ids =
     (let contributors = (if ids = [] then [pid] else ids) in
      case decode_transport dg (cg_checksum_policy c) of
        Panic \<Rightarrow> Panic
      | Err e \<Rightarrow> update_packets (\<lambda>p. p\<lparr>ob_disposition := error_disposition e\<rparr>) contributors s
      | Ok (Tcp seg) \<Rightarrow> engine_tcp s (dg_scope dg) contributors time seg
      | Ok (Udp udp) \<Rightarrow> engine_udp c s (dg_scope dg) contributors udp)"

definition engine_network ::
    "config \<Rightarrow> packet_id \<Rightarrow> int option \<Rightarrow> engine_state \<Rightarrow> datagram \<Rightarrow> engine_state result" where
  "engine_network c pid time s network =
     (let s1 = (if ip_checksum network = Invalid
                then update_current (\<lambda>p. p\<lparr>ob_warnings := ob_warnings p @ [''invalid_ipv4_checksum_observed'']\<rparr>) s else s)
      in if cg_checksum_policy c = RequireValid \<and> ip_checksum network = Invalid
         then Ok (update_current (\<lambda>p. p\<lparr>ob_disposition := DispRejected ''checksum''
                ''IPv4 checksum rejected by configured policy''\<rparr>) s1)
         else case fragment_push (es_fragments s1) network (pid_frame pid) of
             (_, Err e) \<Rightarrow> Err e
           | (_, Panic) \<Rightarrow> Panic
           | (fragments, Ok Pending) \<Rightarrow>
               Ok (update_current (\<lambda>p. p\<lparr>ob_disposition := DispFragmentPending\<rparr>) (s1\<lparr>es_fragments := fragments\<rparr>))
           | (fragments, Ok (Rejected notice)) \<Rightarrow> take_notice (s1\<lparr>es_fragments := fragments\<rparr>) notice
           | (fragments, Ok (Complete dg ids)) \<Rightarrow> engine_datagram c pid time (s1\<lparr>es_fragments := fragments\<rparr>) dg ids)"

definition packet_warnings :: "cap_record \<Rightarrow> packet_meta \<Rightarrow> string list" where
  "packet_warnings r metadata = map warn_code (rec_warnings r)
     @ (if captured_len metadata < original_len metadata then [''snaplen_truncated_packet''] else [])
     @ (if pm_timestamp metadata = None then [''capture_timestamp_absent''] else [])
     @ (if pm_timestamp metadata \<noteq> None \<and> packet_time metadata = None then [''timestamp_not_exact_in_nanoseconds''] else [])"

definition engine_packet ::
    "config \<Rightarrow> bytes \<Rightarrow> engine_state \<Rightarrow> cap_record \<Rightarrow> packet_meta \<Rightarrow> bytes \<Rightarrow> engine_state result" where
  "engine_packet c identity s r metadata data =
     and_then (fragment_expire (es_fragments s) (pm_frame metadata)) (\<lambda>(fragments, expired).
     and_then (for_each take_notice (s\<lparr>es_fragments := fragments\<rparr>) expired) (\<lambda>s1.
     let pid = PacketId identity (pm_frame metadata) (rec_offset r) in
     if pm_frame metadata \<noteq> length (es_packets s1) + 1
     then Err (error_new Invariant (rec_offset r) ''frame'' ''noncontiguous packet numbering'')
     else and_then (sha256_digest data) (\<lambda>digest.
       let s2 = s1\<lparr>es_packets := es_packets s1 @ [\<lparr>ob_id = pid, ob_metadata = metadata, ob_sha256 = digest,
             ob_source = None, ob_destination = None, ob_transport = None, ob_disposition = DispPending,
             ob_warnings = packet_warnings r metadata\<rparr>]\<rparr>;
           sc = Scope (pm_section metadata) (pm_interface metadata) None []
       in case decode_packet (pm_link_type metadata) data pid sc of
            Panic \<Rightarrow> Panic
          | Err e \<Rightarrow> Ok (update_current (\<lambda>p. p\<lparr>ob_disposition := error_disposition e\<rparr>) s2)
          | Ok network \<Rightarrow> engine_network c pid (packet_time metadata) s2 network)))"

definition is_secrets :: "record_kind \<Rightarrow> bool" where
  "is_secrets kind = (case kind of Secrets _ _ \<Rightarrow> True | _ \<Rightarrow> False)"

definition engine_record :: "config \<Rightarrow> bytes \<Rightarrow> engine_state \<Rightarrow> cap_record result \<Rightarrow> engine_state result" where
  "engine_record c identity s item =
     and_then item (\<lambda>r.
     and_then (record_packet r) (\<lambda>found.
       let s1 = s\<lparr>es_records := es_records s + 1\<rparr> in
       case found of
         None \<Rightarrow> Ok (s1\<lparr>es_metadata_records := es_metadata_records s1 + 1,
             es_secret_blocks := (if is_secrets (rec_kind r) then es_secret_blocks s1 + 1 else es_secret_blocks s1)\<rparr>)
       | Some (metadata, data) \<Rightarrow> engine_packet c identity s1 r metadata data))"

section \<open>The end of the capture\<close>

definition is_nonterminal :: "packet_observation \<Rightarrow> bool" where
  "is_nonterminal p \<longleftrightarrow> ob_disposition p \<in> {DispPending, DispFragmentPending}"

definition modbus_role_of :: "config \<Rightarrow> flow_key \<Rightarrow> nat \<Rightarrow> modbus_role" where
  "modbus_role_of c key direction =
     (let a_server = (ep_port (flow_a key) \<in> set (cg_modbus_ports c));
          b_server = (ep_port (flow_b key) \<in> set (cg_modbus_ports c))
      in if a_server = b_server then RoleUnknown
         else if (direction = 0 \<and> a_server) \<or> (direction = 1 \<and> b_server) then RoleResponse
         else RoleRequest)"

definition engine_application ::
    "config \<Rightarrow> flow_result \<Rightarrow> selection \<Rightarrow> application_analysis list \<Rightarrow> nat \<Rightarrow> application_analysis list result" where
  "engine_application c flow detected applications direction =
     (case arr_get (fo_streams flow) direction of
        None \<Rightarrow> Ok applications
      | Some stream \<Rightarrow>
          if sr_chunks stream = [] then Ok applications
          else let push = (\<lambda>protocol data. Ok (applications @ [\<lparr>ap_flow = fo_id flow, ap_direction = direction,
                     ap_protocol = protocol, ap_data = data\<rparr>]))
          in if sel_dnp3 detected \<and> sel_modbus detected
             then push ''ambiguous'' (AppFailed (error_new ProtocolFraming 0 ''protocol_selection''
                    ''multiple content/configuration interpretations remain unresolved''))
             else if sel_dnp3 detected
             then and_then (attempt (dnp3_decode stream (cg_limits c))) (\<lambda>r.
                    push ''dnp3'' (case r of Inr d \<Rightarrow> AppDnp3 d | Inl e \<Rightarrow> AppFailed e))
             else if sel_modbus detected
             then and_then (attempt (modbus_decode stream (modbus_role_of c (fo_key flow) direction) (cg_limits c))) (\<lambda>r.
                    push ''modbus'' (case r of Inr d \<Rightarrow> AppModbus d | Inl e \<Rightarrow> AppFailed e))
             else Ok applications)"

definition engine_flow :: "config \<Rightarrow> application_analysis list \<Rightarrow> flow_result \<Rightarrow> application_analysis list result" where
  "engine_flow c applications flow =
     and_then (classify_flow flow c) (\<lambda>detected.
       for_each (engine_application c flow detected) applications [0, 1])"

definition engine_start :: "config \<Rightarrow> tracker \<Rightarrow> engine_state" where
  "engine_start c tracker =
     \<lparr>es_fragments = reassembler_new (cg_limits c), es_tracker = tracker, es_packets = [], es_notices = [],
      es_datagrams = [], es_udp_retained = 0, es_records = 0, es_metadata_records = 0, es_secret_blocks = 0\<rparr>"

definition engine_finish :: "config \<Rightarrow> bytes \<Rightarrow> nat \<Rightarrow> engine_state \<Rightarrow> analysis result" where
  "engine_finish c identity input_len s =
     and_then (for_each take_notice s (fragment_finish (es_fragments s))) (\<lambda>s1.
     if \<exists>p \<in> set (es_packets s1). is_nonterminal p
     then Err (error_new Invariant 0 ''packet_conservation'' ''nonterminal packet disposition remains at EOF'')
     else and_then (tracker_finish (es_tracker s1) (cg_overlap_policy c)) (\<lambda>flows.
       and_then (for_each (engine_flow c) [] flows) (\<lambda>applications.
       and_then (attempt (transactions applications (cg_limits c))) (\<lambda>paired.
       and_then (attempt (dnp3_confirmation_candidates applications (cg_limits c))) (\<lambda>confirmed.
         Ok \<lparr>an_capture_sha256 = identity, an_labels_sha256 = None, an_capture_bytes = input_len, an_config = c,
             an_records = es_records s1, an_metadata_records = es_metadata_records s1, an_secret_blocks = es_secret_blocks s1,
             an_packets = es_packets s1, an_flows = flows, an_applications = applications, an_datagrams = es_datagrams s1,
             an_fragment_notices = es_notices s1,
             an_transactions = (case paired of Inr t \<Rightarrow> t | Inl _ \<Rightarrow> []),
             an_confirmations = (case confirmed of Inr t \<Rightarrow> t | Inl _ \<Rightarrow> []),
             an_confirmation_error = (case confirmed of Inr _ \<Rightarrow> None | Inl e \<Rightarrow> Some e),
             an_attempt_matches = [],
             an_correlation_error = (case paired of Inr _ \<Rightarrow> None | Inl e \<Rightarrow> Some e)\<rparr>)))))"

definition analyze :: "bytes \<Rightarrow> config \<Rightarrow> analysis result" where
  "analyze input c =
     and_then (config_validate c) (\<lambda>_.
     if length input > max_input_bytes (cg_limits c) then Err (error_limit ''input_bytes'')
     else and_then (sha256_digest input) (\<lambda>identity.
       and_then (tracker_new (cg_limits c) (cg_idle_timeout_ns c)) (\<lambda>tracker.
       and_then (iter_new input (cg_limits c) (cg_parse_mode c)) (\<lambda>it.
       and_then (for_each (engine_record c identity) (engine_start c tracker) (iter_items it)) (\<lambda>s.
         engine_finish c identity (length input) s)))))"

end
