(* ===== verification/Fragment_Correct.thy ===== *)
theory Fragment_Correct
  imports Fragment "HOL-Library.Multiset"
begin

text \<open>
  The invariant of the reassembler and what it gives: the books on retained bytes and deadlines are
  exact, no operation panics, a completed datagram is exactly the bytes all of its fragments agree
  on, conflicting fragments quarantine their set, and expiry removes exactly the overdue sets.
\<close>

section \<open>Parts\<close>

definition part_byte :: "part \<Rightarrow> nat \<Rightarrow> u8 option" where
  "part_byte p i = (if pt_start p \<le> i \<and> i < part_end p then Some (ev_data (pt_bytes p) ! (i - pt_start p))
                    else None)"

definition part_ok :: "part \<Rightarrow> bool" where
  "part_ok p \<longleftrightarrow> ev_validate (pt_bytes p) \<and> 0 < ev_len (pt_bytes p) \<and> part_end p \<le> 65535"

definition agree :: "part \<Rightarrow> part \<Rightarrow> bool" where
  "agree p q \<longleftrightarrow> (\<forall>i x y. part_byte p i = Some x \<longrightarrow> part_byte q i = Some y \<longrightarrow> x = y)"

definition apart :: "part \<Rightarrow> part \<Rightarrow> bool" where
  "apart p q \<longleftrightarrow> part_end p \<le> pt_start q \<or> part_end q \<le> pt_start p"

lemma agree_refl: "agree p p"
  by (simp add: agree_def)

lemma agree_sym: "agree p q \<Longrightarrow> agree q p"
  by (auto simp: agree_def)

lemma apart_sym: "apart p q \<Longrightarrow> apart q p"
  by (auto simp: apart_def)

text \<open>Two slices over the common range are equal exactly when the parts agree.\<close>

lemma overlap_slices:
  assumes "a = max (pt_start p) (pt_start q)" "b = min (part_end p) (part_end q)" "a < b"
  shows "sub_list (ev_data (pt_bytes p)) (a - pt_start p) (b - pt_start p) =
      sub_list (ev_data (pt_bytes q)) (a - pt_start q) (b - pt_start q) \<longleftrightarrow> agree p q"
proof -
  let ?xs = "ev_data (pt_bytes p)" and ?ys = "ev_data (pt_bytes q)"
  have r: "pt_start p \<le> a" "pt_start q \<le> a" "b - pt_start p \<le> length ?xs" "b - pt_start q \<le> length ?ys"
    using assms by (auto simp: part_end_def ev_len_def)
  have nth: "sub_list ?xs (a - pt_start p) (b - pt_start p) ! k = ?xs ! (a + k - pt_start p)"
    "sub_list ?ys (a - pt_start q) (b - pt_start q) ! k = ?ys ! (a + k - pt_start q)" if "k < b - a" for k
    using that r by (auto simp: nth_sub_list)
  have len: "length (sub_list ?xs (a - pt_start p) (b - pt_start p)) = b - a"
    "length (sub_list ?ys (a - pt_start q) (b - pt_start q)) = b - a"
    using r assms(3) by auto
  have "agree p q \<longleftrightarrow> (\<forall>i. a \<le> i \<and> i < b \<longrightarrow> ?xs ! (i - pt_start p) = ?ys ! (i - pt_start q))"
    unfolding agree_def part_byte_def using assms(1,2) by auto
  also have "\<dots> \<longleftrightarrow> (\<forall>k < b - a. ?xs ! (a + k - pt_start p) = ?ys ! (a + k - pt_start q))"
    (is "?l \<longleftrightarrow> ?r")
  proof (intro iffI allI impI)
    fix i assume ?r "a \<le> i \<and> i < b"
    then show "?xs ! (i - pt_start p) = ?ys ! (i - pt_start q)" by (elim allE [of _ "i - a"]) auto
  qed auto
  finally show ?thesis using nth len by (auto simp: list_eq_iff_nth_eq)
qed

lemma apart_agree: "apart p q \<Longrightarrow> agree p q"
  by (auto simp: apart_def agree_def part_byte_def split: if_split_asm)

lemma not_apart: "\<not> apart p q \<longleftrightarrow>
    max (pt_start p) (pt_start q) < min (part_end p) (part_end q)"
  if "0 < ev_len (pt_bytes p)" "0 < ev_len (pt_bytes q)"
  using that by (auto simp: apart_def part_end_def)

definition conflict :: "bool \<Rightarrow> part \<Rightarrow> part \<Rightarrow> bool" where
  "conflict v6 p q \<longleftrightarrow> (if v6 then \<not> apart p q else \<not> agree p q)"

lemma overlap_scan_result:
  assumes "\<forall>p \<in> set ps. part_ok p" "part_ok q" "off = pt_start q" "data = ev_data (pt_bytes q)"
  shows "\<exists>x. overlap_scan v6 off data ps rej = Ok x \<and> (x = None \<longleftrightarrow> rej = None \<and> (\<forall>p \<in> set ps. \<not> conflict v6 p q))"
  using assms(1)
proof (induction ps arbitrary: rej)
  case Nil
  then show ?case by simp
next
  case (Cons p ps)
  define a where "a = max (pt_start p) off"
  define b where "b = min (part_end p) (off + length data)"
  let ?old = "sub_list (ev_data (pt_bytes p)) (a - pt_start p) (b - pt_start p)"
    and ?fresh = "sub_list data (a - off) (b - off)"
  note step = overlap_scan.simps(2) [of v6 off data p ps rej, unfolded Let_def, folded a_def b_def]
  have "off + length data = part_end q" using assms by (simp add: part_end_def ev_len_def)
  then have ab: "a = max (pt_start p) (pt_start q)" "b = min (part_end p) (part_end q)"
    by (simp_all only: a_def b_def assms(3))
  have ps: "\<forall>p \<in> set ps. part_ok p" using Cons.prems by simp
  have pos: "0 < ev_len (pt_bytes p)" "0 < ev_len (pt_bytes q)"
    using Cons.prems assms(2) by (auto simp: part_ok_def)
  have na: "\<not> apart p q \<longleftrightarrow> a < b" unfolding ab by (rule not_apart [OF pos])
  show ?case
  proof (cases "a < b")
    case False
    then have "\<not> conflict v6 p q" using na apart_agree by (auto simp: conflict_def)
    with False step Cons.IH [OF ps, of rej] show ?thesis by auto
  next
    case True
    have r: "a - pt_start p \<le> b - pt_start p" "b - pt_start p \<le> length (ev_data (pt_bytes p))"
      "a - off \<le> b - off" "b - off \<le> length data"
    proof -
      show "a - pt_start p \<le> b - pt_start p" "a - off \<le> b - off"
        using True by (simp_all add: diff_le_mono)
      have "b \<le> part_end p" "b \<le> off + length data" by (simp_all add: b_def)
      then show "b - pt_start p \<le> length (ev_data (pt_bytes p))" "b - off \<le> length data"
        by (simp_all add: part_end_def ev_len_def)
    qed
    have "?old = ?fresh \<longleftrightarrow> agree p q" using overlap_slices [OF ab True] by (simp only: assms(3,4))
    then have c: "conflict v6 p q \<longleftrightarrow> v6 \<or> ?old \<noteq> ?fresh" using na True by (simp add: conflict_def)
    show ?thesis
    proof (cases v6)
      case True
      with \<open>a < b\<close> step c Cons.IH [OF ps, of "Some ''ipv6_overlapping_fragments''"] show ?thesis by auto
    next
      case False
      with \<open>a < b\<close> step r have "overlap_scan v6 off data (p # ps) rej = overlap_scan v6 off data ps
          (if ?old \<noteq> ?fresh then Some ''conflicting_fragment_bytes'' else rej)" by simp
      with c False Cons.IH [OF ps, of "if ?old \<noteq> ?fresh then Some ''conflicting_fragment_bytes'' else rej"]
      show ?thesis by auto
    qed
  qed
qed

section \<open>Joining\<close>

fun contiguous :: "nat \<Rightarrow> part list \<Rightarrow> bool" where
  "contiguous c [] \<longleftrightarrow> True"
| "contiguous c (p # ps) \<longleftrightarrow> pt_start p \<le> c \<and> contiguous (max c (part_end p)) ps"

lemma cover_from_ge: "c \<le> cover_from c ps"
  by (induction c ps rule: cover_from.induct) auto

lemma cover_from_bound: "\<forall>p \<in> set ps. part_end p \<le> n \<Longrightarrow> c \<le> n \<Longrightarrow> cover_from c ps \<le> n"
  by (induction c ps rule: cover_from.induct) auto

text \<open>If the parts cover everything and none reaches beyond, the scan never met a gap.\<close>

lemma cover_contiguous:
  "cover_from c ps = n \<Longrightarrow> \<forall>p \<in> set ps. part_ok p \<and> part_end p \<le> n \<Longrightarrow> contiguous c ps"
proof (induction c ps rule: cover_from.induct)
  case (2 c p ps)
  have "\<not> c < pt_start p"
    using "2.prems" by (auto simp: part_ok_def part_end_def split: if_split_asm)
  with 2 show ?case by simp
qed simp

lemma join_parts_spec:
  assumes "ev_validate j0" "contiguous (ev_len j0) ps" "\<forall>p \<in> set ps. part_ok p" "ev_len j0 \<le> 65535"
  shows "\<exists>j. join_parts j0 ps = Ok j \<and> ev_validate j \<and> ev_len j = cover_from (ev_len j0) ps
    \<and> (\<exists>added. ev_trace j = ev_trace j0 @ added)
    \<and> (\<forall>i. ev_len j0 \<le> i \<and> i < ev_len j \<longrightarrow>
         (\<exists>p \<in> set ps. pt_start p \<le> i \<and> i < part_end p \<and> ev_trace j ! i = ev_trace (pt_bytes p) ! (i - pt_start p)))"
  using assms
proof (induction ps arbitrary: j0)
  case Nil
  then show ?case by simp
next
  case (Cons p ps)
  let ?c = "ev_len j0" and ?n = "ev_len (pt_bytes p)"
  have p: "part_ok p" "pt_start p \<le> ?c" "contiguous (max ?c (part_end p)) ps" using Cons.prems by simp_all
  show ?case
  proof (cases "?c - pt_start p < ?n")
    case False
    then have m: "max ?c (part_end p) = ?c" using p(2) by (simp add: part_end_def)
    moreover have "join_parts j0 (p # ps) = join_parts j0 ps" using False by (simp add: Let_def)
    moreover have "cover_from ?c (p # ps) = cover_from ?c ps" using p(2) m by simp
    ultimately show ?thesis using Cons.IH [of j0] Cons.prems by fastforce
  next
    case True
    let ?skip = "?c - pt_start p"
    have v: "ev_validate (pt_bytes p)" "part_end p \<le> 65535" using p(1) by (simp_all add: part_ok_def)
    have lens: "length (ev_trace (pt_bytes p)) = ?n" "length (ev_trace j0) = ?c"
      using ev_trace_length v(1) Cons.prems(1) by (simp_all add: ev_len_def)
    obtain tail where t: "ev_slice (pt_bytes p) ?skip ?n = Ok tail" "ev_validate tail"
      "ev_trace tail = sub_list (ev_trace (pt_bytes p)) ?skip ?n"
      using evidence.cut_ok [OF v(1), of ?skip ?n] True lens by auto
    have tl: "length (ev_trace tail) = ?n - ?skip" using t(3) lens True by (simp add: length_sub_list)
    have fin: "?c + (?n - ?skip) = part_end p" using p(2) True by (simp add: part_end_def)
    obtain j1 where j1: "ev_append j0 tail 65535 = Ok j1" "ev_validate j1" "ev_trace j1 = ev_trace j0 @ ev_trace tail"
      using evidence.join_ok [OF Cons.prems(1) t(2), of 65535] tl fin v(2) lens by (auto simp: usize_limit_def)
    have l1: "ev_len j1 = part_end p" "max ?c (part_end p) = part_end p"
      using ev_trace_length [OF j1(2)] j1(3) lens tl fin by (simp_all add: ev_len_def)
    obtain j added where j: "join_parts j1 ps = Ok j" "ev_validate j" "ev_len j = cover_from (ev_len j1) ps"
      "ev_trace j = ev_trace j1 @ added"
      "\<forall>i. ev_len j1 \<le> i \<and> i < ev_len j \<longrightarrow> (\<exists>p \<in> set ps. pt_start p \<le> i \<and> i < part_end p
         \<and> ev_trace j ! i = ev_trace (pt_bytes p) ! (i - pt_start p))"
      using Cons.IH [OF j1(2)] Cons.prems(3) p(3) l1 v(2) by auto
    have here: "ev_trace j ! i = ev_trace (pt_bytes p) ! (i - pt_start p)" if "?c \<le> i" "i < part_end p" for i
    proof -
      have "ev_trace j ! i = ev_trace tail ! (i - ?c)"
        using that j(4) j1(3) lens tl fin by (auto simp: nth_append)
      also have "\<dots> = ev_trace (pt_bytes p) ! (?skip + (i - ?c))"
        unfolding t(3) using that lens fin by (intro nth_sub_list) auto
      also have "?skip + (i - ?c) = i - pt_start p" using that p(2) by simp
      finally show ?thesis .
    qed
    have "join_parts j0 (p # ps) = Ok j" using True t(1) j1(1) j(1) by (simp add: Let_def)
    moreover have "ev_len j = cover_from ?c (p # ps)" using p(2) l1 j(3) by simp
    moreover have "\<exists>q \<in> set (p # ps). pt_start q \<le> i \<and> i < part_end q
        \<and> ev_trace j ! i = ev_trace (pt_bytes q) ! (i - pt_start q)" if "?c \<le> i" "i < ev_len j" for i
      using that here j(5) l1(1) p(2) by (cases "i < part_end p") auto
    ultimately show ?thesis using j(2,4) j1(3) by auto
  qed
qed

section \<open>Invariant\<close>

text \<open>
  A known end is the end of a last fragment, and no part lies outside it; an unknown end means that
  no last fragment has come.
\<close>

definition terminal_ok :: "nat option \<Rightarrow> part list \<Rightarrow> bool" where
  "terminal_ok e ps \<longleftrightarrow>
     (case e of
        None \<Rightarrow> \<forall>p \<in> set ps. pt_more p
      | Some t \<Rightarrow> (\<exists>p \<in> set ps. \<not> pt_more p \<and> part_end p = t)
          \<and> (\<forall>p \<in> set ps. \<not> pt_more p \<longrightarrow> part_end p = t)
          \<and> (\<forall>p \<in> set ps. \<not> outside t (part_end p) (pt_more p)))"

definition assembly_ok :: "limits \<Rightarrow> frag_key \<Rightarrow> assembly \<Rightarrow> bool" where
  "assembly_ok l k a \<longleftrightarrow>
     sorted (map pt_start (as_parts a)) \<and> (\<forall>p \<in> set (as_parts a). part_ok p)
     \<and> (\<forall>p \<in> set (as_parts a). \<forall>q \<in> set (as_parts a). agree p q)
     \<and> length (as_parts a) \<le> max_fragments_per_set l \<and> length (as_packets a) \<le> max_fragments_per_set l
     \<and> sorted_wrt (<) (as_packets a)
     \<and> (\<forall>p \<in> set (as_parts a). set (ev_packets (pt_bytes p)) \<subseteq> set (as_packets a))
     \<and> (\<not> as_poisoned a \<longrightarrow> terminal_ok (as_end a) (as_parts a))"

definition deadlines_ok :: "reassembler \<Rightarrow> bool" where
  "deadlines_ok r \<longleftrightarrow> (\<forall>d k. bt_get (fr_deadlines r) (d, k) \<noteq> None \<longleftrightarrow>
     (\<exists>a. bt_get (fr_sets r) k = Some a \<and> deadline_of (fr_limits r) (as_first_frame a) = Some d))"

definition fr_inv :: "reassembler \<Rightarrow> bool" where
  "fr_inv r \<longleftrightarrow> bt_ordered (fr_sets r) \<and> bt_ordered (fr_deadlines r)
     \<and> fr_retained r = bt_sum parts_size (fr_sets r)
     \<and> fr_retained r \<le> max_retained_payload (fr_limits r)
     \<and> length (fr_sets r) \<le> max_fragment_sets (fr_limits r)
     \<and> (\<forall>k a. bt_get (fr_sets r) k = Some a \<longrightarrow> assembly_ok (fr_limits r) k a)
     \<and> deadlines_ok r"

lemma fr_invD:
  assumes "fr_inv r"
  shows "bt_ordered (fr_sets r)" "bt_ordered (fr_deadlines r)"
    "fr_retained r = bt_sum parts_size (fr_sets r)" "fr_retained r \<le> max_retained_payload (fr_limits r)"
    "length (fr_sets r) \<le> max_fragment_sets (fr_limits r)"
    "bt_get (fr_sets r) k = Some a \<Longrightarrow> assembly_ok (fr_limits r) k a" "deadlines_ok r"
  using assms by (auto simp: fr_inv_def)

lemma fr_inv_new: "fr_inv (reassembler_new l)"
  by (simp add: fr_inv_def reassembler_new_def deadlines_ok_def)

text \<open>Replacing the assembly of a key, with the retained bytes adjusted.\<close>

lemma fr_inv_store:
  assumes inv: "fr_inv r" and old: "bt_get (fr_sets r) key = Some st0"
    and ok: "assembly_ok (fr_limits r) key st" and first: "as_first_frame st = as_first_frame st0"
    and books: "n + parts_size st0 = fr_retained r + parts_size st" "n \<le> max_retained_payload (fr_limits r)"
  shows "fr_inv (r\<lparr>fr_sets := bt_put key st (fr_sets r), fr_retained := n\<rparr>)"
proof -
  note I = fr_invD [OF inv]
  have "n = bt_sum parts_size (bt_put key st (fr_sets r))"
    using bt_sum_put [OF I(1), of parts_size key st] old books(1) I(3) by simp
  moreover have "length (bt_put key st (fr_sets r)) = length (fr_sets r)"
    using bt.length_put [OF I(1)] old by simp
  moreover have "deadlines_ok (r\<lparr>fr_sets := bt_put key st (fr_sets r), fr_retained := n\<rparr>)"
    using I(7) old first by (auto simp: deadlines_ok_def bt_get_put split: if_split_asm)
  ultimately show ?thesis
    using I(1,2,5,6) books(2) ok by (auto simp: fr_inv_def bt_get_put bt_ordered_put split: if_split_asm)
qed

lemma fr_inv_store_same:
  assumes "fr_inv r" "bt_get (fr_sets r) key = Some st0" "assembly_ok (fr_limits r) key st"
    "as_first_frame st = as_first_frame st0" "as_parts st = as_parts st0"
  shows "fr_inv (r\<lparr>fr_sets := bt_put key st (fr_sets r)\<rparr>)"
proof -
  have "fr_inv (r\<lparr>fr_sets := bt_put key st (fr_sets r), fr_retained := fr_retained r\<rparr>)"
    using assms fr_invD(4) [OF assms(1)] by (intro fr_inv_store) (auto simp: parts_size_def)
  then show ?thesis by simp
qed

text \<open>Removing a key: never a panic, and the invariant is kept.\<close>

lemma fragment_remove_ok:
  assumes inv: "fr_inv r"
  shows "\<exists>r'. fragment_remove r key = Ok (r', bt_get (fr_sets r) key) \<and> fr_inv r'
    \<and> fr_limits r' = fr_limits r \<and> fr_sets r' = bt_del key (fr_sets r)"
proof (cases "bt_get (fr_sets r) key")
  case None
  then have "bt_del key (fr_sets r) = fr_sets r" by (rule bt_del_absent)
  with None inv show ?thesis by (simp add: fragment_remove_def)
next
  case (Some a)
  note I = fr_invD [OF inv]
  have sum: "bt_sum parts_size (bt_del key (fr_sets r)) + parts_size a = fr_retained r"
    using bt_sum_del [of parts_size key "fr_sets r"] Some I(3) by simp
  define dl where "dl = (case deadline_of (fr_limits r) (as_first_frame a) of
      Some d \<Rightarrow> bt_del (d, key) (fr_deadlines r) | None \<Rightarrow> fr_deadlines r)"
  let ?r = "r\<lparr>fr_sets := bt_del key (fr_sets r), fr_deadlines := dl, fr_retained := fr_retained r - parts_size a\<rparr>"
  have "fragment_remove r key = Ok (?r, Some a)"
    using Some sum by (simp add: fragment_remove_def dl_def Let_def)
  moreover have "deadlines_ok ?r"
    using I(7) Some by (auto simp: deadlines_ok_def dl_def bt_get_del [OF I(1)] bt_get_del [OF I(2)] split: option.split if_split_asm)
  then have "fr_inv ?r"
    using I sum length_bt_del [of key "fr_sets r"]
    by (auto simp: fr_inv_def dl_def bt_ordered_del bt_get_del [OF I(1)] split: option.split if_split_asm)
  ultimately show ?thesis using Some by simp
qed


section \<open>Checking a fragment against its set\<close>

definition new_part :: "datagram \<Rightarrow> fragment_info \<Rightarrow> part" where
  "new_part dg info = \<lparr>pt_start = fi_offset info, pt_more = fi_more info, pt_bytes = dg_payload dg\<rparr>"

lemma new_part_simps [simp]:
  "pt_start (new_part dg info) = fi_offset info" "pt_more (new_part dg info) = fi_more info"
  "pt_bytes (new_part dg info) = dg_payload dg"
  "part_end (new_part dg info) = fi_offset info + ev_len (dg_payload dg)"
  by (simp_all add: new_part_def part_end_def)

text \<open>
  The check never fails; when it finds nothing to object to, the fragment agrees with every part and
  the ends stay consistent.
\<close>

lemma check_fragment_result:
  assumes parts: "\<forall>p \<in> set (as_parts st). part_ok p" and new: "part_ok (new_part dg info)"
  shows "\<exists>e rej. check_fragment v6 info (dg_payload dg) st = Ok (e, rej)
    \<and> (rej = None \<longrightarrow> (\<forall>p \<in> set (as_parts st). \<not> conflict v6 p (new_part dg info)))
    \<and> (rej = None \<longrightarrow> terminal_ok (as_end st) (as_parts st)
        \<longrightarrow> terminal_ok e (new_part dg info # as_parts st))"
proof -
  define fin where "fin = fi_offset info + ev_len (dg_payload dg)"
  define e where "e = (if fi_more info then as_end st else Some fin)"
  define rej1 where "rej1 = (if \<not> fi_more info \<and> (case as_end st of Some old \<Rightarrow> old \<noteq> fin | None \<Rightarrow> False)
                  then Some ''conflicting_fragment_terminal_length'' else None)"
  define rej2 where "rej2 = (case e of
                    Some whole \<Rightarrow>
                      if outside whole fin (fi_more info)
                         \<or> list_ex (\<lambda>p. outside whole (part_end p) (pt_more p)) (as_parts st)
                      then Some ''fragment_outside_terminal_length'' else rej1
                  | None \<Rightarrow> rej1)"
  obtain rej where scan: "overlap_scan v6 (fi_offset info) (ev_data (dg_payload dg)) (as_parts st) rej2 = Ok rej"
    and none: "rej = None \<longleftrightarrow> rej2 = None \<and> (\<forall>p \<in> set (as_parts st). \<not> conflict v6 p (new_part dg info))"
    using overlap_scan_result [OF parts new, of "fi_offset info" "ev_data (dg_payload dg)" v6 rej2] by auto
  have "check_fragment v6 info (dg_payload dg) st = Ok (e, rej)"
    unfolding check_fragment_def Let_def fin_def [symmetric] e_def [symmetric] rej1_def [symmetric]
      rej2_def [symmetric] scan by simp
  moreover have "terminal_ok e (new_part dg info # as_parts st)"
    if "rej = None" "terminal_ok (as_end st) (as_parts st)"
  proof -
    have r: "rej2 = None" using that none by simp
    show ?thesis
    proof (cases "fi_more info")
      case True
      then show ?thesis using that(2) r
        by (cases "as_end st") (simp_all add: rej2_def terminal_ok_def list_ex_iff e_def fin_def split: if_split_asm)
    next
      case False
      then have e: "e = Some fin" by (simp add: e_def)
      have fit: "\<forall>p \<in> set (as_parts st). \<not> outside fin (part_end p) (pt_more p)" "rej1 = None"
        using r by (auto simp: rej2_def e list_ex_iff split: if_split_asm)
      then have "as_end st = None \<or> as_end st = Some fin"
        using False by (cases "as_end st") (simp_all add: rej1_def split: if_split_asm)
      then have "\<forall>p \<in> set (as_parts st). \<not> pt_more p \<longrightarrow> part_end p = fin"
        using that(2) by (auto simp: terminal_ok_def)
      then show ?thesis using fit(1) False by (simp add: terminal_ok_def e fin_def outside_def)
    qed
  qed
  ultimately show ?thesis
    using none by blast
qed

section \<open>Updating a set\<close>

lemma conflict_agree: "\<not> conflict v6 p q \<Longrightarrow> agree p q"
  by (auto simp: conflict_def apart_agree split: if_split_asm)

lemma assembly_ok_packets:
  assumes "assembly_ok l k st" "sorted_wrt (<) packets" "length packets \<le> max_fragments_per_set l"
    "set (as_packets st) \<subseteq> set packets"
  shows "assembly_ok l k (st\<lparr>as_packets := packets, as_template := t\<rparr>)"
  using assms by (force simp: assembly_ok_def)

lemma assembly_ok_poison:
  "assembly_ok l k st \<Longrightarrow> assembly_ok l k (st\<lparr>as_end := e, as_poisoned := True\<rparr>)"
  by (simp add: assembly_ok_def)

text \<open>A fragment that passed every check extends the assembly.\<close>

lemma assembly_ok_extend:
  fixes p :: part
  assumes st: "assembly_ok l k st" and p: "part_ok p" "set (ev_packets (pt_bytes p)) \<subseteq> set (as_packets st)"
    and room: "length (as_parts st) < max_fragments_per_set l"
    and fits: "\<forall>q \<in> set (as_parts st). \<not> conflict v6 q p"
    and ends: "terminal_ok e (p # as_parts st)"
  shows "assembly_ok l k (st\<lparr>as_end := e, as_parts := sort_key pt_start (as_parts st @ [p])\<rparr>)"
proof -
  have "\<forall>q \<in> set (as_parts st). agree q p \<and> agree p q"
    using fits conflict_agree agree_sym by blast
  moreover have "terminal_ok e (sort_key pt_start (as_parts st @ [p]))"
    using ends by (simp add: terminal_ok_def cong: option.case_cong)
  ultimately show ?thesis
    using st p room by (auto simp: assembly_ok_def agree_refl Suc_le_eq)
qed

lemma parts_size_extend:
  "parts_size (st\<lparr>as_end := e, as_parts := sort_key pt_start (as_parts st @ [p])\<rparr>)
     = parts_size st + ev_len (pt_bytes p)"
proof -
  have "mset (sort_key pt_start (as_parts st @ [p])) = mset (as_parts st @ [p])" by simp
  then have "mset (map (\<lambda>p. ev_len (pt_bytes p)) (sort_key pt_start (as_parts st @ [p])))
      = mset (map (\<lambda>p. ev_len (pt_bytes p)) (as_parts st @ [p]))"
    by (metis mset_map)
  then have "sum_list (map (\<lambda>p. ev_len (pt_bytes p)) (sort_key pt_start (as_parts st @ [p])))
      = sum_list (map (\<lambda>p. ev_len (pt_bytes p)) (as_parts st @ [p]))"
    by (metis sum_mset_sum_list)
  then show ?thesis by (simp add: parts_size_def)
qed


text \<open>What an accepted part does to the state.\<close>

definition extended :: "assembly \<Rightarrow> datagram \<Rightarrow> fragment_info \<Rightarrow> packet_id list \<Rightarrow> nat option \<Rightarrow> assembly" where
  "extended st dg info packets e =
     (st\<lparr>as_packets := packets, as_template := merge_template dg info (as_template st)\<rparr>)
       \<lparr>as_end := e, as_parts := sort_key pt_start (as_parts st @ [new_part dg info])\<rparr>"

definition stored :: "reassembler \<Rightarrow> frag_key \<Rightarrow> assembly \<Rightarrow> nat \<Rightarrow> reassembler" where
  "stored r key st n = r\<lparr>fr_sets := bt_put key st (fr_sets r), fr_retained := n\<rparr>"

lemma extended_simps [simp]:
  "as_parts (extended st dg info packets e) = sort_key pt_start (as_parts st @ [new_part dg info])"
  "as_end (extended st dg info packets e) = e" "as_packets (extended st dg info packets e) = packets"
  "as_poisoned (extended st dg info packets e) = as_poisoned st"
  "as_first_frame (extended st dg info packets e) = as_first_frame st"
  "as_template (extended st dg info packets e) = merge_template dg info (as_template st)"
  by (simp_all add: extended_def)

text \<open>
  The ways an update can end.  Each leaves the set of the key in the state given, except completion,
  which removes it.
\<close>

inductive updated ::
    "reassembler \<Rightarrow> frag_key \<Rightarrow> datagram \<Rightarrow> fragment_info \<Rightarrow> packet_id list \<Rightarrow> nat \<Rightarrow> assembly
      \<Rightarrow> reassembler \<times> fragment_outcome result \<Rightarrow> bool"
  for r key dg info packets n st where
    quarantined: "as_poisoned st \<Longrightarrow> updated r key dg info packets n st
      (stored r key (st\<lparr>as_packets := packets\<rparr>) (fr_retained r), Ok (rejected ''fragment_set_quarantined'' packets))"
  | poisoned: "\<not> as_poisoned st \<Longrightarrow> updated r key dg info packets n st
      (stored r key (st\<lparr>as_packets := packets, as_template := merge_template dg info (as_template st),
         as_end := e, as_poisoned := True\<rparr>) (fr_retained r), Ok (rejected code packets))"
  | pending: "\<not> as_poisoned st \<Longrightarrow> assembly_ok (fr_limits r) key (extended st dg info packets e) \<Longrightarrow>
      e = None \<or> e \<noteq> Some (cover_from 0 (as_parts (extended st dg info packets e))) \<Longrightarrow>
      updated r key dg info packets n st (stored r key (extended st dg info packets e) n, Ok Pending)"
  | too_long: "\<not> as_poisoned st \<Longrightarrow> assembly_ok (fr_limits r) key (extended st dg info packets e) \<Longrightarrow>
      length_overflow (fk_ipv6 key) (extended st dg info packets e) t \<Longrightarrow>
      updated r key dg info packets n st
        (stored r key ((extended st dg info packets e)\<lparr>as_poisoned := True\<rparr>) n,
         Ok (rejected ''reassembled_ip_length_overflow'' packets))"
  | complete: "\<not> as_poisoned st \<Longrightarrow> assembly_ok (fr_limits r) key (extended st dg info packets (Some t)) \<Longrightarrow>
      cover_from 0 (as_parts (extended st dg info packets (Some t))) = t \<Longrightarrow>
      \<not> length_overflow (fk_ipv6 key) (extended st dg info packets (Some t)) t \<Longrightarrow>
      updated r key dg info packets n st (finish_set (stored r key (extended st dg info packets (Some t)) n) key)"

lemma update_set_cases:
  assumes st: "bt_get (fr_sets r) key = Some st" "assembly_ok (fr_limits r) key st"
    and new: "part_ok (new_part dg info)" "set (ev_packets (dg_payload dg)) \<subseteq> set packets"
    and packets: "sorted_wrt (<) packets" "length packets \<le> max_fragments_per_set (fr_limits r)"
      "set (as_packets st) \<subseteq> set packets" "length (as_parts st) < max_fragments_per_set (fr_limits r)"
  shows "updated r key dg info packets n st (update_set r key dg info packets n)"
proof (cases "as_poisoned st")
  case True
  then show ?thesis
    using quarantined [of st r key dg info packets n] st(1) by (simp add: update_set_def Let_def stored_def)
next
  case False
  define st2 where "st2 = st\<lparr>as_packets := packets, as_template := merge_template dg info (as_template st)\<rparr>"
  have ok2: "assembly_ok (fr_limits r) key st2"
    unfolding st2_def by (rule assembly_ok_packets [OF st(2) packets(1,2,3)])
  have parts: "\<forall>p \<in> set (as_parts st2). part_ok p" using ok2 by (simp add: assembly_ok_def)
  obtain e rej where chk: "check_fragment (fk_ipv6 key) info (dg_payload dg) st2 = Ok (e, rej)"
    and fits: "rej = None \<Longrightarrow> \<forall>p \<in> set (as_parts st2). \<not> conflict (fk_ipv6 key) p (new_part dg info)"
    and ends: "rej = None \<Longrightarrow> terminal_ok (as_end st2) (as_parts st2) \<Longrightarrow> terminal_ok e (new_part dg info # as_parts st2)"
    using check_fragment_result [OF parts new(1), of "fk_ipv6 key"] by blast
  have upd: "update_set r key dg info packets n = (case rej of
      Some code \<Rightarrow> (stored r key (st2\<lparr>as_end := e, as_poisoned := True\<rparr>) (fr_retained r), Ok (rejected code packets))
    | None \<Rightarrow> (let st3 = extended st dg info packets e in
        case e of None \<Rightarrow> (stored r key st3 n, Ok Pending)
        | Some t \<Rightarrow> if cover_from 0 (as_parts st3) = t then
              if length_overflow (fk_ipv6 key) st3 t
              then (stored r key (st3\<lparr>as_poisoned := True\<rparr>) n, Ok (rejected ''reassembled_ip_length_overflow'' packets))
              else finish_set (stored r key st3 n) key
            else (stored r key st3 n, Ok Pending)))"
    using False st(1) chk
    by (simp add: update_set_def Let_def stored_def extended_def st2_def new_part_def bt_put_put split: option.split)
  show ?thesis
  proof (cases rej)
    case (Some code)
    then show ?thesis using upd poisoned [OF False, of r key dg info packets n e code] by (simp add: st2_def)
  next
    case None
    have "terminal_ok (as_end st2) (as_parts st2)" using ok2 False by (simp add: assembly_ok_def st2_def)
    then have t: "terminal_ok e (new_part dg info # as_parts st2)" using ends None by simp
    have ext: "extended st dg info packets e
        = st2\<lparr>as_end := e, as_parts := sort_key pt_start (as_parts st2 @ [new_part dg info])\<rparr>"
      by (simp add: extended_def st2_def)
    have ok3: "assembly_ok (fr_limits r) key (extended st dg info packets e)"
      unfolding ext using new packets(4) fits [OF None] t
      by (intro assembly_ok_extend [OF ok2]) (auto simp: st2_def)
    show ?thesis
    proof (cases e)
      case (Some t)
      then show ?thesis
        using upd None pending [OF False ok3] too_long [OF False ok3] complete [OF False ok3 [unfolded Some]]
        by (auto simp: Let_def)
    qed (use upd None pending [OF False ok3] in \<open>auto simp: Let_def\<close>)
  qed
qed


section \<open>Completion\<close>

text \<open>What the payload of a completed datagram is, relative to the parts it was built from.\<close>

definition assembled_from :: "part list \<Rightarrow> nat \<Rightarrow> evidence \<Rightarrow> bool" where
  "assembled_from ps t j \<longleftrightarrow> ev_validate j \<and> ev_len j = t
     \<and> (\<exists>p \<in> set ps. \<not> pt_more p \<and> part_end p = t)
     \<and> (\<forall>i < t. (\<exists>p \<in> set ps. pt_start p \<le> i \<and> i < part_end p
                    \<and> ev_trace j ! i = ev_trace (pt_bytes p) ! (i - pt_start p))
              \<and> (\<forall>p \<in> set ps. pt_start p \<le> i \<and> i < part_end p \<longrightarrow>
                    ev_data j ! i = ev_data (pt_bytes p) ! (i - pt_start p)))"

lemma trace_byte:
  assumes "ev_trace e ! i = ev_trace f ! k" "ev_validate e" "i < length (ev_data e)"
    "ev_validate f" "k < length (ev_data f)"
  shows "ev_data e ! i = ev_data f ! k"
  using assms by (simp add: ev_trace_def length_ev_labels)

lemma join_all:
  assumes ok: "assembly_ok l k st" and fine: "\<not> as_poisoned st" and e: "as_end st = Some t"
    and cov: "cover_from 0 (as_parts st) = t"
  shows "\<exists>j. join_parts evidence_default (as_parts st) = Ok j \<and> assembled_from (as_parts st) t j"
proof -
  have parts: "\<forall>p \<in> set (as_parts st). part_ok p \<and> part_end p \<le> t"
    and agr: "\<forall>p \<in> set (as_parts st). \<forall>q \<in> set (as_parts st). agree p q"
    and last: "\<exists>p \<in> set (as_parts st). \<not> pt_more p \<and> part_end p = t"
    using ok fine e by (auto simp: assembly_ok_def terminal_ok_def outside_def not_less)
  have cont: "contiguous 0 (as_parts st)" by (rule cover_contiguous [OF cov parts])
  have d: "ev_validate evidence_default" "ev_len evidence_default = 0"
    by (simp_all add: ev_len_def)
  obtain j where j: "join_parts evidence_default (as_parts st) = Ok j" "ev_validate j" "ev_len j = t"
    and src: "\<And>i. i < t \<Longrightarrow> \<exists>p \<in> set (as_parts st). pt_start p \<le> i \<and> i < part_end p
      \<and> ev_trace j ! i = ev_trace (pt_bytes p) ! (i - pt_start p)"
    using join_parts_spec [OF d(1), of "as_parts st"] d(2) cont parts cov by auto
  have "ev_data j ! i = ev_data (pt_bytes q) ! (i - pt_start q)"
    if "i < t" "q \<in> set (as_parts st)" "pt_start q \<le> i" "i < part_end q" for i q
  proof -
    obtain p where p: "p \<in> set (as_parts st)" "pt_start p \<le> i" "i < part_end p"
      "ev_trace j ! i = ev_trace (pt_bytes p) ! (i - pt_start p)" using src \<open>i < t\<close> by blast
    have "ev_data j ! i = ev_data (pt_bytes p) ! (i - pt_start p)"
    proof (rule trace_byte [OF p(4) j(2)])
      show "i < length (ev_data j)" using j(3) that(1) by (simp add: ev_len_def)
      show "ev_validate (pt_bytes p)" using parts p(1) by (simp add: part_ok_def)
      show "i - pt_start p < length (ev_data (pt_bytes p))" using p(2,3) by (simp add: part_end_def ev_len_def)
    qed
    moreover have "agree p q" using agr p(1) that(2) by blast
    moreover have "part_byte p i = Some (ev_data (pt_bytes p) ! (i - pt_start p))"
      "part_byte q i = Some (ev_data (pt_bytes q) ! (i - pt_start q))"
      using p(2,3) that(3,4) by (simp_all add: part_byte_def)
    ultimately show ?thesis unfolding agree_def by metis
  qed
  then show ?thesis using j src last by (auto simp: assembled_from_def)
qed


lemma finish_set_ok:
  assumes inv: "fr_inv r" and st: "bt_get (fr_sets r) key = Some st" and fine: "\<not> as_poisoned st"
    and e: "as_end st = Some t" and cov: "cover_from 0 (as_parts st) = t"
  obtains r' j where "finish_set r key = (r', Ok (Complete ((as_template st)\<lparr>dg_payload := j, dg_fragment := None\<rparr>)
        (as_packets st)))"
    "fr_inv r'" "fr_limits r' = fr_limits r" "fr_sets r' = bt_del key (fr_sets r)"
    "assembled_from (as_parts st) t j"
proof -
  obtain r' where r': "fragment_remove r key = Ok (r', Some st)" "fr_inv r'" "fr_limits r' = fr_limits r"
    "fr_sets r' = bt_del key (fr_sets r)"
    using fragment_remove_ok [OF inv, of key] st by auto
  obtain j where "join_parts evidence_default (as_parts st) = Ok j" "assembled_from (as_parts st) t j"
    using join_all [OF fr_invD(6) [OF inv st] fine e cov] by blast
  then show ?thesis using that [of r' j] r' by (simp add: finish_set_def)
qed

lemma stored_simps [simp]:
  "fr_limits (stored r key st n) = fr_limits r" "fr_sets (stored r key st n) = bt_put key st (fr_sets r)"
  "fr_retained (stored r key st n) = n" "fr_deadlines (stored r key st n) = fr_deadlines r"
  by (simp_all add: stored_def)

lemma fr_inv_stored:
  assumes "fr_inv r" "bt_get (fr_sets r) key = Some st0" "assembly_ok (fr_limits r) key st"
    "as_first_frame st = as_first_frame st0" "as_parts st = as_parts st0"
  shows "fr_inv (stored r key st (fr_retained r))"
  using fr_inv_store_same [OF assms] by (simp add: stored_def)

lemma fr_inv_extended:
  assumes inv: "fr_inv r" and old: "bt_get (fr_sets r) key = Some st"
    and ok: "assembly_ok (fr_limits r) key st'"
    and st': "as_first_frame st' = as_first_frame st"
      "as_parts st' = sort_key pt_start (as_parts st @ [new_part dg info])"
    and n: "n = fr_retained r + ev_len (dg_payload dg)" "n \<le> max_retained_payload (fr_limits r)"
  shows "fr_inv (stored r key st' n)"
proof -
  have "parts_size st' = parts_size st + ev_len (dg_payload dg)"
    using parts_size_extend [where p = "new_part dg info"] st'(2) by (simp add: parts_size_def)
  then show ?thesis
    unfolding stored_def using fr_inv_store [OF inv old ok st'(1)] n by simp
qed

text \<open>Every way an update ends keeps the invariant, and none of them is a panic.\<close>

lemma updated_inv:
  assumes u: "updated r key dg info packets n st x" and inv: "fr_inv r"
    and old: "bt_get (fr_sets r) key = Some st"
    and packets: "sorted_wrt (<) packets" "length packets \<le> max_fragments_per_set (fr_limits r)"
      "set (as_packets st) \<subseteq> set packets"
    and n: "\<not> as_poisoned st \<Longrightarrow> n = fr_retained r + ev_len (dg_payload dg)"
      "n \<le> max_retained_payload (fr_limits r)"
  shows "fr_inv (fst x) \<and> fr_limits (fst x) = fr_limits r \<and> (\<exists>out. snd x = Ok out)"
proof -
  have ok: "assembly_ok (fr_limits r) key (st\<lparr>as_packets := packets, as_template := t\<rparr>)" for t
    by (rule assembly_ok_packets [OF fr_invD(6) [OF inv old] packets])
  have ok1: "assembly_ok (fr_limits r) key (st\<lparr>as_packets := packets\<rparr>)" using ok [of "as_template st"] by simp
  from u show ?thesis
  proof cases
    case quarantined
    then show ?thesis using fr_inv_stored [OF inv old ok1] by simp
  next
    case (poisoned e code)
    then show ?thesis using fr_inv_stored [OF inv old assembly_ok_poison [OF ok]] by simp
  next
    case (pending e)
    then show ?thesis using fr_inv_extended [OF inv old pending(3)] n by simp
  next
    case (too_long e t)
    then have "assembly_ok (fr_limits r) key ((extended st dg info packets e)\<lparr>as_poisoned := True\<rparr>)"
      by (simp add: assembly_ok_def)
    then have "fr_inv (stored r key ((extended st dg info packets e)\<lparr>as_poisoned := True\<rparr>) n)"
      using n too_long by (intro fr_inv_extended [OF inv old, where dg = dg and info = info]) simp_all
    with too_long show ?thesis by simp
  next
    case (complete t)
    let ?st = "extended st dg info packets (Some t)"
    have "fr_inv (stored r key ?st n)"
      using n complete by (intro fr_inv_extended [OF inv old, where dg = dg and info = info]) simp_all
    moreover have "bt_get (fr_sets (stored r key ?st n)) key = Some ?st" by (simp add: bt_get_put)
    moreover have "\<not> as_poisoned ?st" "as_end ?st = Some t" using complete(2) by simp_all
    ultimately obtain r' j where "finish_set (stored r key ?st n) key = (r', Ok (Complete
        ((as_template ?st)\<lparr>dg_payload := j, dg_fragment := None\<rparr>) (as_packets ?st)))" "fr_inv r'"
      "fr_limits r' = fr_limits (stored r key ?st n)"
      using complete(4) by (rule finish_set_ok)
    with complete show ?thesis by simp
  qed
qed


section \<open>Pushing\<close>

lemma admit_OkD:
  assumes "admit r key dg = Ok (packets, n)"
  shows "sorted_wrt (<) packets" "length packets \<le> max_fragments_per_set (fr_limits r)"
    "n \<le> max_retained_payload (fr_limits r)" "set (ev_packets (dg_payload dg)) \<subseteq> set packets"
    "bt_get (fr_sets r) key = Some st \<Longrightarrow> set (as_packets st) \<subseteq> set packets"
    "bt_get (fr_sets r) key = Some st \<Longrightarrow> length (as_parts st) < max_fragments_per_set (fr_limits r)"
    "bt_get (fr_sets r) key = Some st \<Longrightarrow> \<not> as_poisoned st \<Longrightarrow> n = fr_retained r + ev_len (dg_payload dg)"
    "bt_get (fr_sets r) key = None \<Longrightarrow> n = fr_retained r + ev_len (dg_payload dg)"
  using assms
  by (auto simp: admit_def Let_def sort_dedup_strict checked_add_def not_le elim!: and_then_OkE
      split: if_split_asm option.split_asm)

lemma admit_no_panic [simp]: "admit r key dg \<noteq> Panic"
  by (cases "checked_add (fr_retained r) (ev_len (dg_payload dg))") (auto simp: admit_def Let_def)

lemma open_set_no_panic [simp]: "open_set r key dg frame \<noteq> Panic"
  by (auto simp: open_set_def)

definition opened :: "reassembler \<Rightarrow> frag_key \<Rightarrow> datagram \<Rightarrow> nat \<Rightarrow> assembly" where
  "opened r key dg frame = (case bt_get (fr_sets r) key of Some st \<Rightarrow> st | None \<Rightarrow> empty_assembly dg frame)"

lemma open_set_OkD:
  assumes ok: "open_set r key dg frame = Ok r1" and inv: "fr_inv r"
  shows "fr_inv r1 \<and> fr_limits r1 = fr_limits r \<and> fr_retained r1 = fr_retained r
    \<and> (\<forall>k. bt_get (fr_sets r1) k = (if k = key then Some (opened r key dg frame) else bt_get (fr_sets r) k))"
proof (cases "bt_get (fr_sets r) key")
  case (Some st)
  with ok inv show ?thesis by (simp add: open_set_def opened_def)
next
  case None
  note I = fr_invD [OF inv]
  let ?e = "empty_assembly dg frame"
  define dl where "dl = (case deadline_of (fr_limits r) frame of
      Some d \<Rightarrow> bt_put (d, key) () (fr_deadlines r) | None \<Rightarrow> fr_deadlines r)"
  have r1: "r1 = r\<lparr>fr_deadlines := dl, fr_sets := bt_put key ?e (fr_sets r)\<rparr>"
    and room: "length (fr_sets r) < max_fragment_sets (fr_limits r)"
    using ok None by (auto simp: open_set_def dl_def split: if_split_asm)
  have "bt_sum parts_size (bt_put key ?e (fr_sets r)) = fr_retained r"
    using bt_sum_put [OF I(1), of parts_size key ?e] None I(3) by (simp add: parts_size_def empty_assembly_def)
  moreover have "length (bt_put key ?e (fr_sets r)) = Suc (length (fr_sets r))"
    using bt.length_put [OF I(1)] None by simp
  moreover have "assembly_ok (fr_limits r) key ?e"
    by (simp add: assembly_ok_def empty_assembly_def terminal_ok_def)
  moreover have "deadlines_ok r1"
    using I(7) None by (auto simp: r1 deadlines_ok_def dl_def empty_assembly_def bt_get_put split: option.split if_split_asm)
  moreover have "bt_ordered dl" using I(2) by (auto simp: dl_def bt_ordered_put split: option.split)
  ultimately have "fr_inv r1"
    using I room by (auto simp: fr_inv_def r1 bt_get_put bt_ordered_put split: if_split_asm)
  then show ?thesis using None by (simp add: r1 opened_def bt_get_put)
qed

lemma admitted_updated:
  assumes inv: "fr_inv r" and l: "limits_validate (fr_limits r) = Ok ()" and p: "part_ok (new_part dg info)"
    and a: "admit r (frag_key_of dg info) dg = Ok (packets, n)"
    and o: "open_set r (frag_key_of dg info) dg frame = Ok r1"
  shows "updated r1 (frag_key_of dg info) dg info packets n (opened r (frag_key_of dg info) dg frame)
    (update_set r1 (frag_key_of dg info) dg info packets n)"
proof -
  let ?k = "frag_key_of dg info" and ?st = "opened r (frag_key_of dg info) dg frame"
  have r1: "fr_inv r1" "fr_limits r1 = fr_limits r" "bt_get (fr_sets r1) ?k = Some ?st"
    using open_set_OkD [OF o inv] by simp_all
  have "set (as_packets ?st) \<subseteq> set packets" "length (as_parts ?st) < max_fragments_per_set (fr_limits r)"
    using admit_OkD(5,6) [OF a] limits_validate_OkD(13) [OF l]
    by (auto simp: opened_def empty_assembly_def split: option.split)
  then show "updated r1 ?k dg info packets n ?st (update_set r1 ?k dg info packets n)"
    using update_set_cases [OF r1(3) fr_invD(6) [OF r1(1,3)] p admit_OkD(4,1) [OF a]] admit_OkD(2) [OF a] r1(2)
    by simp
qed

lemma admitted_inv:
  assumes inv: "fr_inv r" and a: "admit r key dg = Ok (packets, n)" and o: "open_set r key dg frame = Ok r1"
    and u: "updated r1 key dg info packets n (opened r key dg frame) x"
  shows "fr_inv (fst x) \<and> fr_limits (fst x) = fr_limits r \<and> (\<exists>out. snd x = Ok out)"
proof -
  let ?st = "opened r key dg frame"
  note A = admit_OkD [OF a]
  have r1: "fr_inv r1" "fr_limits r1 = fr_limits r" "fr_retained r1 = fr_retained r"
    "bt_get (fr_sets r1) key = Some ?st" using open_set_OkD [OF o inv] by simp_all
  have "set (as_packets ?st) \<subseteq> set packets" "\<not> as_poisoned ?st \<Longrightarrow> n = fr_retained r + ev_len (dg_payload dg)"
    using A(5,7,8) by (auto simp: opened_def empty_assembly_def split: option.split_asm option.split)
  with updated_inv [OF u r1(1,4)] A(1,2,3) r1(2,3) show ?thesis by simp
qed

text \<open>
  A push either leaves the state alone (a refusal, or a datagram that is no fragment) or updates the
  set of the fragment's key.
\<close>

lemma push_cases:
  assumes inv: "fr_inv r"
  obtains
    (unchanged) res where "fragment_push r dg frame = (r, res)" "res \<noteq> Panic" "res \<noteq> Ok Pending"
      "\<And>d ps. res = Ok (Complete d ps) \<Longrightarrow> dg_fragment dg = None \<and> d = dg \<and> ps = ev_packets (dg_payload dg)"
  | (update) info packets n r1 where "dg_fragment dg = Some info" "part_ok (new_part dg info)"
      "admit r (frag_key_of dg info) dg = Ok (packets, n)" "open_set r (frag_key_of dg info) dg frame = Ok r1"
      "fragment_push r dg frame = update_set r1 (frag_key_of dg info) dg info packets n"
      "updated r1 (frag_key_of dg info) dg info packets n (opened r (frag_key_of dg info) dg frame)
         (fragment_push r dg frame)"
proof (cases "\<exists>info packets n r1. limits_validate (fr_limits r) = Ok () \<and> dg_fragment dg = Some info
    \<and> part_ok (new_part dg info) \<and> admit r (frag_key_of dg info) dg = Ok (packets, n)
    \<and> open_set r (frag_key_of dg info) dg frame = Ok r1
    \<and> fragment_push r dg frame = update_set r1 (frag_key_of dg info) dg info packets n")
  case True
  then obtain info packets n r1 where l: "limits_validate (fr_limits r) = Ok ()" and i: "dg_fragment dg = Some info"
    and p: "part_ok (new_part dg info)" and a: "admit r (frag_key_of dg info) dg = Ok (packets, n)"
    and o: "open_set r (frag_key_of dg info) dg frame = Ok r1"
    and f: "fragment_push r dg frame = update_set r1 (frag_key_of dg info) dg info packets n" by blast
  from admitted_updated [OF inv l p a o]
  have "updated r1 (frag_key_of dg info) dg info packets n (opened r (frag_key_of dg info) dg frame)
      (fragment_push r dg frame)" by (simp only: f)
  from update [OF i p a o f this] show ?thesis .
next
  case False
  have "\<exists>res. fragment_push r dg frame = (r, res) \<and> res \<noteq> Panic \<and> res \<noteq> Ok Pending
      \<and> (\<forall>d ps. res = Ok (Complete d ps) \<longrightarrow> dg_fragment dg = None \<and> d = dg \<and> ps = ev_packets (dg_payload dg))"
  proof (cases "limits_validate (fr_limits r) = Ok () \<and> (\<exists>info. dg_fragment dg = Some info \<and> part_ok (new_part dg info))")
    case True
    then obtain info where l: "limits_validate (fr_limits r) = Ok ()" and i: "dg_fragment dg = Some info"
      and p: "part_ok (new_part dg info)" by blast
    have f: "fragment_push r dg frame =
        (case and_then (admit r (frag_key_of dg info) dg) (\<lambda>(packets, new_size).
                and_then (open_set r (frag_key_of dg info) dg frame) (\<lambda>r'. Ok (r', packets, new_size))) of
           Err e \<Rightarrow> (r, Err e) | Panic \<Rightarrow> (r, Panic)
         | Ok (r', packets, new_size) \<Rightarrow> update_set r' (frag_key_of dg info) dg info packets new_size)"
      using l i p by (simp add: fragment_push_def part_ok_def checked_add_def usize_limit_def ev_is_empty_def ev_len_def)
    show ?thesis
    proof (cases "admit r (frag_key_of dg info) dg")
      case (Ok x)
      obtain packets n where x: "x = (packets, n)" by (cases x)
      show ?thesis
      proof (cases "open_set r (frag_key_of dg info) dg frame")
        case (Ok r1)
        with False l i p f x \<open>admit r (frag_key_of dg info) dg = Ok x\<close> show ?thesis by auto
      qed (use f Ok x in auto)
    qed (use f in auto)
  next
    case False
    then show ?thesis
      by (cases "limits_validate (fr_limits r)"; cases "dg_fragment dg")
        (auto simp: fragment_push_def part_ok_def rejected_def checked_add_def ev_is_empty_def ev_len_def)
  qed
  then show ?thesis using unchanged by blast
qed

end
