(* ===== verification/Fragment_Runs.thy ===== *)
theory Fragment_Runs
  imports Fragment_Correct
begin

text \<open>
  What the reassembler guarantees over every run: the sequences of pushes and expiries that can
  happen to it, as an inductive relation, with invariants by rule induction.
\<close>

section \<open>Expiry\<close>

definition overdue :: "limits \<Rightarrow> nat \<Rightarrow> assembly \<Rightarrow> bool" where
  "overdue l frame st \<longleftrightarrow> (\<exists>d. deadline_of l (as_first_frame st) = Some d \<and> d \<le> frame)"

lemma remove_at_deadline:
  assumes inv: "fr_inv r" and head: "fr_deadlines r = ((d, key), u) # rest"
  obtains st r' where "bt_get (fr_sets r) key = Some st" "deadline_of (fr_limits r) (as_first_frame st) = Some d"
    "fragment_remove (r\<lparr>fr_deadlines := rest\<rparr>) key = Ok (r', Some st)" "fr_inv r'"
    "fr_limits r' = fr_limits r" "fr_sets r' = bt_del key (fr_sets r)" "fr_deadlines r' = rest"
proof -
  note I = fr_invD [OF inv]
  have "bt_get (fr_deadlines r) (d, key) \<noteq> None" by (simp add: head)
  then obtain st where st: "bt_get (fr_sets r) key = Some st" "deadline_of (fr_limits r) (as_first_frame st) = Some d"
    using I(7) unfolding deadlines_ok_def by blast
  have "bt_get rest (d, key) = None" using I(2) by (auto simp: head bt_get_None_iff)
  then have rest: "bt_del (d, key) rest = rest" "bt_del (d, key) (fr_deadlines r) = rest"
    by (simp_all add: bt_del_absent head)
  obtain r' where r': "fragment_remove r key = Ok (r', Some st)" "fr_inv r'" "fr_limits r' = fr_limits r"
    "fr_sets r' = bt_del key (fr_sets r)" using fragment_remove_ok [OF inv, of key] st by auto
  moreover have "fr_deadlines r' = rest"
    using r'(1) st rest by (auto simp: fragment_remove_def Let_def elim!: and_then_OkE)
  moreover have "fragment_remove (r\<lparr>fr_deadlines := rest\<rparr>) key = fragment_remove r key"
    using st rest by (simp add: fragment_remove_def)
  ultimately show ?thesis using that st by simp
qed

text \<open>Exactly the overdue sets are gone, each with one notice that carries its packets.\<close>

definition expires :: "nat \<Rightarrow> reassembler \<Rightarrow> reassembler \<Rightarrow> fragment_notice list \<Rightarrow> bool" where
  "expires frame r r' ns \<longleftrightarrow> fr_limits r' = fr_limits r
    \<and> (\<forall>k. bt_get (fr_sets r') k = (case bt_get (fr_sets r) k of None \<Rightarrow> None
          | Some st \<Rightarrow> if overdue (fr_limits r) frame st then None else Some st))
    \<and> set ns = {\<lparr>fn_code = ''fragment_expired'', fn_packets = as_packets st\<rparr> | k st.
          bt_get (fr_sets r) k = Some st \<and> overdue (fr_limits r) frame st}
    \<and> length (fr_sets r') + length ns = length (fr_sets r)"

lemma expires_none:
  assumes "\<And>k st. bt_get (fr_sets r) k = Some st \<Longrightarrow> \<not> overdue (fr_limits r) frame st"
  shows "expires frame r r []"
  using assms by (fastforce simp: expires_def split: option.split)

lemma if_option_iff: "(if c then None else x) = Some y \<longleftrightarrow> \<not> c \<and> x = Some y"
  by simp

lemma expires_one:
  assumes rest: "expires frame r1 r2 ns" and lim: "fr_limits r1 = fr_limits r"
    and gets: "\<And>k. bt_get (fr_sets r1) k = (if k = key then None else bt_get (fr_sets r) k)"
    and st: "bt_get (fr_sets r) key = Some st" "overdue (fr_limits r) frame st"
    and len: "Suc (length (fr_sets r1)) = length (fr_sets r)"
  shows "expires frame r r2 (\<lparr>fn_code = ''fragment_expired'', fn_packets = as_packets st\<rparr> # ns)"
proof -
  have "bt_get (fr_sets r2) k = (case bt_get (fr_sets r) k of None \<Rightarrow> None
          | Some st \<Rightarrow> if overdue (fr_limits r) frame st then None else Some st)" for k
    using rest gets [of k] st unfolding expires_def lim by simp
  moreover have "set ns = {\<lparr>fn_code = ''fragment_expired'', fn_packets = as_packets st\<rparr> | k st.
          bt_get (fr_sets r) k = Some st \<and> overdue (fr_limits r) frame st \<and> k \<noteq> key}"
    using rest unfolding expires_def lim by (simp add: gets if_option_iff conj_ac)
  then have "set (\<lparr>fn_code = ''fragment_expired'', fn_packets = as_packets st\<rparr> # ns)
      = {\<lparr>fn_code = ''fragment_expired'', fn_packets = as_packets st\<rparr> | k st.
          bt_get (fr_sets r) k = Some st \<and> overdue (fr_limits r) frame st}"
    using st by auto
  ultimately show ?thesis
    using rest len lim unfolding expires_def by simp
qed

lemma expire_loop_ok:
  assumes "fr_inv r"
  shows "\<exists>r' new. expire_loop frame r ns = Ok (r', ns @ new) \<and> fr_inv r' \<and> expires frame r r' new"
  using assms
proof (induction "length (fr_deadlines r)" arbitrary: r ns rule: less_induct)
  case less
  note I = fr_invD [OF less.prems]
  show ?case
  proof (cases "fr_deadlines r = [] \<or> \<not> fst (fst (hd (fr_deadlines r))) \<le> frame")
    case True
    have stay: "\<not> overdue (fr_limits r) frame st" if "bt_get (fr_sets r) k = Some st" for k st
    proof
      assume "overdue (fr_limits r) frame st"
      then obtain d where d: "deadline_of (fr_limits r) (as_first_frame st) = Some d" "d \<le> frame"
        by (auto simp: overdue_def)
      then have "bt_get (fr_deadlines r) (d, k) \<noteq> None" using I(7) that unfolding deadlines_ok_def by blast
      then have m: "(d, k) \<in> fst ` set (fr_deadlines r)" by (simp add: bt_get_None_iff)
      then obtain d0 k0 u rest where h: "fr_deadlines r = ((d0, k0), u) # rest" by (cases "fr_deadlines r") auto
      then have "d0 \<le> d" using m I(2) by (auto simp: less_prod_def)
      with h d(2) True show False by simp
    qed
    have "expire_loop frame r ns = Ok (r, ns @ [])"
      using True by (subst expire_loop.simps) (auto split: list.split)
    moreover have "expires frame r r []" by (rule expires_none) (rule stay)
    ultimately show ?thesis using less.prems by blast
  next
    case False
    then obtain d key u rest where h: "fr_deadlines r = ((d, key), u) # rest" "d \<le> frame"
      by (cases "fr_deadlines r") auto
    obtain st r1 where st: "bt_get (fr_sets r) key = Some st" "deadline_of (fr_limits r) (as_first_frame st) = Some d"
      and r1: "fragment_remove (r\<lparr>fr_deadlines := rest\<rparr>) key = Ok (r1, Some st)" "fr_inv r1"
      "fr_limits r1 = fr_limits r" "fr_sets r1 = bt_del key (fr_sets r)" "fr_deadlines r1 = rest"
      using remove_at_deadline [OF less.prems h(1)] .
    let ?n = "\<lparr>fn_code = ''fragment_expired'', fn_packets = as_packets st\<rparr>"
    have gets: "bt_get (fr_sets r1) k = (if k = key then None else bt_get (fr_sets r) k)" for k
      by (simp add: r1 bt_get_del [OF I(1)])
    have od: "overdue (fr_limits r) frame st" using st h by (simp add: overdue_def)
    have len: "Suc (length (fr_sets r1)) = length (fr_sets r)"
      using length_bt_del_present [of "fr_sets r" key] st(1) by (simp add: r1(4))
    have "expire_loop frame r ns = expire_loop frame r1 (ns @ [?n])"
      using h r1(1) by (subst expire_loop.simps) simp
    moreover have "length (fr_deadlines r1) < length (fr_deadlines r)" using h r1 by simp
    from less.hyps [OF this r1(2), of "ns @ [?n]"] obtain r2 new where
      "expire_loop frame r1 (ns @ [?n]) = Ok (r2, (ns @ [?n]) @ new)" "fr_inv r2" "expires frame r1 r2 new"
      by blast
    ultimately show ?thesis using expires_one [OF _ r1(3) gets st(1) od len]
      by (intro exI [of _ r2] exI [of _ "?n # new"]) simp
  qed
qed


section \<open>Runs\<close>

text \<open>
  The states a reassembler can be in, with the datagrams it was given so far: it is created, it is
  given datagrams, and it is asked to expire what is overdue.
\<close>

inductive fr_run :: "limits \<Rightarrow> datagram list \<Rightarrow> reassembler \<Rightarrow> bool" for l where
    start: "fr_run l [] (reassembler_new l)"
  | push: "fr_run l given r \<Longrightarrow> fragment_push r dg frame = (r', res) \<Longrightarrow> fr_run l (dg # given) r'"
  | expire: "fr_run l given r \<Longrightarrow> fragment_expire r frame = Ok (r', ns) \<Longrightarrow> fr_run l given r'"

lemma push_inv:
  assumes inv: "fr_inv r"
  shows "fr_inv (fst (fragment_push r dg frame)) \<and> fr_limits (fst (fragment_push r dg frame)) = fr_limits r
    \<and> snd (fragment_push r dg frame) \<noteq> Panic"
  using inv
proof (cases rule: push_cases [where dg = dg and frame = frame])
  case (unchanged res)
  then show ?thesis using inv by simp
next
  case (update info packets n r1)
  then show ?thesis using admitted_inv [OF inv update(3,4,6)] by auto
qed

lemma fr_run_inv: "fr_run l given r \<Longrightarrow> fr_inv r \<and> fr_limits r = l"
proof (induction rule: fr_run.induct)
  case start
  then show ?case by (simp add: fr_inv_new) (simp add: reassembler_new_def)
next
  case (push given r dg frame r' res)
  then show ?case using push_inv [of r dg frame] by simp
next
  case (expire given r frame r' ns)
  then show ?case using expire_loop_ok [of r frame "[]"] by (auto simp: fragment_expire_def expires_def)
qed

text \<open>Every part held is a fragment that was given, of the same key.\<close>

definition given_part :: "datagram list \<Rightarrow> frag_key \<Rightarrow> part \<Rightarrow> bool" where
  "given_part given k p \<longleftrightarrow>
     (\<exists>f \<in> set given. \<exists>i. dg_fragment f = Some i \<and> frag_key_of f i = k \<and> p = new_part f i)"

lemma updated_parts:
  assumes "updated r key dg info packets n st x" "fr_inv r" "bt_get (fr_sets (fst x)) k = Some a" "p \<in> set (as_parts a)"
  shows "(if k = key then p \<in> insert (new_part dg info) (set (as_parts st))
     else \<exists>b. bt_get (fr_sets r) k = Some b \<and> p \<in> set (as_parts b))"
  using assms(1)
proof cases
  case (complete t)
  have "fr_sets (fst (finish_set r' key)) = bt_del key (fr_sets r') \<or> fst (finish_set r' key) = r'" for r'
    by (auto simp: finish_set_def fragment_remove_def Let_def bt_del_absent elim!: and_then_OkE
        split: outcome.split option.split)
  from this [of "stored r key (extended st dg info packets (Some t)) n"] show ?thesis
    using assms(3,4) bt_get_del [OF bt_ordered_put [OF fr_invD(1) [OF assms(2)]]]
    by (auto simp: complete(1) bt_get_put split: if_split_asm)
qed (use assms(3,4) in \<open>auto simp: bt_get_put split: if_split_asm\<close>)


lemma push_parts:
  assumes inv: "fr_inv r" and a: "bt_get (fr_sets (fst (fragment_push r dg frame))) k = Some a" "p \<in> set (as_parts a)"
  shows "(\<exists>b. bt_get (fr_sets r) k = Some b \<and> p \<in> set (as_parts b))
    \<or> (\<exists>i. dg_fragment dg = Some i \<and> frag_key_of dg i = k \<and> p = new_part dg i)"
  using inv
proof (cases rule: push_cases [where dg = dg and frame = frame])
  case (unchanged res)
  then show ?thesis using a by simp
next
  case (update info packets n r1)
  have "fr_inv r1" "\<And>k. bt_get (fr_sets r1) k = (if k = frag_key_of dg info
      then Some (opened r (frag_key_of dg info) dg frame) else bt_get (fr_sets r) k)"
    using open_set_OkD [OF update(4) inv] by simp_all
  then show ?thesis using updated_parts [OF update(6) _ a] update(1)
    by (auto simp: opened_def empty_assembly_def split: if_split_asm option.split_asm)
qed

lemma fr_run_parts:
  "fr_run l given r \<Longrightarrow> bt_get (fr_sets r) k = Some a \<Longrightarrow> p \<in> set (as_parts a) \<Longrightarrow> given_part given k p"
proof (induction arbitrary: k a p rule: fr_run.induct)
  case start
  then show ?case by (simp add: reassembler_new_def)
next
  case (push given r dg frame r' res)
  have "fr_inv r" using fr_run_inv [OF push.hyps(1)] by simp
  from push_parts [OF this, of dg frame k a p] push show ?case
    by (fastforce simp: given_part_def)
next
  case (expire given r frame r' ns)
  have "fr_inv r" using fr_run_inv [OF expire.hyps(1)] by simp
  with expire_loop_ok [of r frame "[]"] expire.hyps(2) have "expires frame r r' ns"
    by (auto simp: fragment_expire_def)
  then have "bt_get (fr_sets r) k = Some a" using expire.prems(1)
    by (auto simp: expires_def split: option.split_asm if_split_asm)
  then show ?case using expire by blast
qed

section \<open>Completed datagrams\<close>

lemma finish_set_outcome: "finish_set r key = (r', Ok out) \<Longrightarrow> \<exists>d ps. out = Complete d ps"
  by (auto simp: finish_set_def split: outcome.split_asm option.split_asm elim!: and_then_OkE)

text \<open>The parts of a set after a push: those it had and the new one.\<close>

definition set_parts :: "reassembler \<Rightarrow> frag_key \<Rightarrow> part list" where
  "set_parts r key = (case bt_get (fr_sets r) key of Some st \<Rightarrow> as_parts st | None \<Rightarrow> [])"

lemma opened_parts: "as_parts (opened r key dg frame) = set_parts r key"
  by (simp add: opened_def set_parts_def empty_assembly_def split: option.split)

lemma push_complete:
  assumes inv: "fr_inv r" and c: "fragment_push r dg frame = (r', Ok (Complete d ps))" and i: "dg_fragment dg = Some info"
  shows "dg_fragment d = None \<and> bt_get (fr_sets r') (frag_key_of dg info) = None
    \<and> assembled_from (new_part dg info # set_parts r (frag_key_of dg info)) (ev_len (dg_payload d)) (dg_payload d)"
  using inv
proof (cases rule: push_cases [where dg = dg and frame = frame])
  case (unchanged res)
  then show ?thesis using c i by auto
next
  case (update info' packets n r1)
  then have [simp]: "info' = info" using i by simp
  let ?k = "frag_key_of dg info" and ?st = "opened r (frag_key_of dg info) dg frame"
  have r1: "fr_inv r1" "fr_limits r1 = fr_limits r" "fr_retained r1 = fr_retained r"
    "bt_get (fr_sets r1) ?k = Some ?st" using open_set_OkD [OF update(4) inv] by simp_all
  from update(6) show ?thesis
  proof cases
    case (complete t)
    let ?new = "extended ?st dg info packets (Some t)"
    have n: "n = fr_retained r1 + ev_len (dg_payload dg)" "n \<le> max_retained_payload (fr_limits r1)"
      using admit_OkD(3,7,8) [OF update(3)] complete(2) r1(2,3)
      by (auto simp: opened_def empty_assembly_def split: option.split_asm)
    have "fr_inv (stored r1 ?k ?new n)"
      using complete n by (intro fr_inv_extended [OF r1(1,4), where dg = dg and info = info]) simp_all
    moreover have "bt_get (fr_sets (stored r1 ?k ?new n)) ?k = Some ?new" by (simp add: bt_get_put)
    moreover have "\<not> as_poisoned ?new" "as_end ?new = Some t" using complete(2) by simp_all
    moreover have "cover_from 0 (as_parts ?new) = t" using complete(4) by simp
    ultimately obtain r2 j where f: "finish_set (stored r1 ?k ?new n) ?k = (r2, Ok (Complete
        ((as_template ?new)\<lparr>dg_payload := j, dg_fragment := None\<rparr>) (as_packets ?new)))"
      and r2: "fr_sets r2 = bt_del ?k (fr_sets (stored r1 ?k ?new n))" and j: "assembled_from (as_parts ?new) t j"
      by (rule finish_set_ok)
    have "r' = r2" "d = (as_template ?new)\<lparr>dg_payload := j, dg_fragment := None\<rparr>"
      using f c complete(1) by simp_all
    moreover have "assembled_from (new_part dg info # set_parts r ?k) t j"
      using j by (simp add: assembled_from_def opened_parts)
    moreover have "ev_len j = t" using j by (simp add: assembled_from_def)
    ultimately show ?thesis
      using bt_get_del [OF bt_ordered_put [OF fr_invD(1) [OF r1(1)]]] by (simp add: r2)
  qed (use c in \<open>simp_all add: rejected_def\<close>)
qed

text \<open>A pending set has a gap, or its last fragment has not come.\<close>

lemma cover_gap:
  "sorted (map pt_start ps) \<Longrightarrow> p \<in> set ps \<Longrightarrow> \<not> (pt_start p \<le> cover_from c ps \<and> cover_from c ps < part_end p)"
proof (induction c ps rule: cover_from.induct)
  case (2 c q ps)
  then show ?case using cover_from_ge [of "max c (part_end q)" ps] by auto
qed simp

definition covered :: "part list \<Rightarrow> bool" where
  "covered ps \<longleftrightarrow> (\<exists>z \<in> set ps. \<not> pt_more z \<and> (\<forall>i < part_end z. \<exists>p \<in> set ps. pt_start p \<le> i \<and> i < part_end p))"

lemma not_covered:
  assumes ok: "assembly_ok l k st" "\<not> as_poisoned st"
    and e: "as_end st = None \<or> as_end st \<noteq> Some (cover_from 0 (as_parts st))"
  shows "\<not> covered (as_parts st)"
proof
  assume "covered (as_parts st)"
  then obtain z where z: "z \<in> set (as_parts st)" "\<not> pt_more z"
    "\<And>i. i < part_end z \<Longrightarrow> \<exists>p \<in> set (as_parts st). pt_start p \<le> i \<and> i < part_end p"
    unfolding covered_def by blast
  have t: "terminal_ok (as_end st) (as_parts st)" and s: "sorted (map pt_start (as_parts st))"
    using ok by (auto simp: assembly_ok_def)
  then obtain t where at: "as_end st = Some t" using z by (cases "as_end st") (auto simp: terminal_ok_def)
  have ends: "part_end z = t" "\<forall>p \<in> set (as_parts st). part_end p \<le> t"
    using t z by (auto simp: at terminal_ok_def outside_def not_less)
  have "cover_from 0 (as_parts st) \<le> t" using ends(2) by (rule cover_from_bound) simp
  with e at have "cover_from 0 (as_parts st) < part_end z" using ends(1) by simp
  from z(3) [OF this] cover_gap [OF s] show False by blast
qed

section \<open>Quarantine\<close>

lemma push_conflict:
  assumes inv: "fr_inv r" and i: "dg_fragment dg = Some info" and st: "bt_get (fr_sets r) (frag_key_of dg info) = Some st"
    and bad: "as_poisoned st \<or> (\<exists>p \<in> set (as_parts st). \<not> agree p (new_part dg info))"
  shows "\<exists>r' res. fragment_push r dg frame = (r', res) \<and> res \<noteq> Ok Pending \<and> (\<forall>d ps. res \<noteq> Ok (Complete d ps))
    \<and> (r' = r \<or> (\<exists>st'. bt_get (fr_sets r') (frag_key_of dg info) = Some st' \<and> as_poisoned st'
          \<and> (as_poisoned st \<longrightarrow> as_parts st' = as_parts st)))"
  using inv
proof (cases rule: push_cases [where dg = dg and frame = frame])
  case (unchanged res)
  then show ?thesis using i by auto
next
  case (update info' packets n r1)
  then have [simp]: "info' = info" using i by simp
  have op: "opened r (frag_key_of dg info) dg frame = st" using st by (simp add: opened_def)
  have no: "\<not> assembly_ok (fr_limits r1) (frag_key_of dg info) (extended st dg info packets e)" if "\<not> as_poisoned st" for e
    using that bad by (auto simp: assembly_ok_def)
  show ?thesis
    using update(6) [unfolded op \<open>info' = info\<close>]
    by cases (use no in \<open>auto simp: rejected_def bt_get_put\<close>)
qed

section \<open>A sample run\<close>

definition sample_fragment :: "nat \<Rightarrow> bool \<Rightarrow> bytes \<Rightarrow> nat \<Rightarrow> datagram" where
  "sample_fragment off more_follow data n =
     \<lparr>dg_scope = Scope 0 0 None [], dg_source = V4 [10, 0, 0, 1], dg_destination = V4 [10, 0, 0, 2], dg_protocol = 6,
      dg_ipv6 = False, network_header_len = 20,
      dg_fragment = Some \<lparr>fi_id = 7, fi_offset = off, fi_more = more_follow\<rparr>,
      dg_payload = from_packet data (PacketId [] n 24) 14, ip_checksum = Valid, checksum_ctx = BaseAddresses\<rparr>"


abbreviation first_fragment :: datagram where
  "first_fragment \<equiv> sample_fragment 0 True [1, 2, 3, 4, 5, 6, 7, 8] 1"

abbreviation last_fragment :: datagram where
  "last_fragment \<equiv> sample_fragment 8 False [9] 2"

lemma ev_packets_from_packet: "ev_packets (from_packet (x # xs) p k) = [p]"
  by (simp add: ev_packets_def from_packet_def sort_dedup_def)


lemma push_admitted:
  assumes "limits_validate (fr_limits r) = Ok ()" "dg_fragment dg = Some info" "part_ok (new_part dg info)"
    "admit r (frag_key_of dg info) dg = Ok (packets, n)" "open_set r (frag_key_of dg info) dg frame = Ok r1"
  shows "fragment_push r dg frame = update_set r1 (frag_key_of dg info) dg info packets n"
  using assms by (simp add: fragment_push_def part_ok_def checked_add_def usize_limit_def ev_is_empty_def ev_len_def)

abbreviation sample_info :: "nat \<Rightarrow> bool \<Rightarrow> fragment_info" where
  "sample_info off m \<equiv> \<lparr>fi_id = 7, fi_offset = off, fi_more = m\<rparr>"

definition sample_key :: frag_key where
  "sample_key = FragKey (Scope 0 0 None []) (V4 [10,0,0,1]) (V4 [10,0,0,2]) 6 7 False"

lemma sample_simps [simp]:
  "dg_fragment (sample_fragment off m data n) = Some (sample_info off m)"
  "dg_payload (sample_fragment off m data n) = from_packet data (PacketId [] n 24) 14"
  "frag_key_of (sample_fragment off m data n) (sample_info off m) = sample_key"
  "fk_ipv6 sample_key = False"
  "ip_checksum (sample_fragment off m data n) = Valid" "network_header_len (sample_fragment off m data n) = 20"
  "dg_protocol (sample_fragment off m data n) = 6" "checksum_ctx (sample_fragment off m data n) = BaseAddresses"
  by (simp_all add: sample_fragment_def frag_key_of_def sample_key_def)

definition sample_state :: reassembler where
  "sample_state = stored ((reassembler_new limits_default)\<lparr>fr_deadlines := [((100002, sample_key), ())]\<rparr>) sample_key
     (extended (empty_assembly first_fragment 1) first_fragment (sample_info 0 True) [PacketId [] 1 24] None) 8"

lemma part_ok_sample:
  assumes "0 < length data" "fi_offset i + length data < 1000"
  shows "part_ok (new_part (sample_fragment off m data n) i)"
  using assms by (simp add: part_ok_def from_packet_valid ev_len_def usize_limit_def)

lemma empty_assembly_simps [simp]:
  "as_parts (empty_assembly dg frame) = []" "as_packets (empty_assembly dg frame) = []"
  "as_end (empty_assembly dg frame) = None" "\<not> as_poisoned (empty_assembly dg frame)"
  "as_first_frame (empty_assembly dg frame) = frame"
  by (simp_all add: empty_assembly_def)

lemmas sample_eval = ev_packets_from_packet ev_len_def checked_add_def usize_limit_def sort_dedup_def
  reassembler_new_def Let_def

lemma push_first: "fragment_push (reassembler_new limits_default) first_fragment 1 = (sample_state, Ok Pending)"
proof -
  let ?r = "reassembler_new limits_default"
  have "admit ?r sample_key first_fragment = Ok ([PacketId [] 1 24], 8)"
    by (simp add: admit_def sample_eval)
  moreover have "open_set ?r sample_key first_fragment 1 = Ok (?r\<lparr>fr_deadlines := [((100002, sample_key), ())],
      fr_sets := [(sample_key, empty_assembly first_fragment 1)]\<rparr>)" (is "_ = Ok ?r1")
    by (simp add: open_set_def deadline_of_def sample_eval)
  ultimately have "fragment_push ?r first_fragment 1
      = update_set ?r1 sample_key first_fragment (sample_info 0 True) [PacketId [] 1 24] 8"
    using push_admitted [of ?r first_fragment "sample_info 0 True"] by (simp add: part_ok_sample reassembler_new_def)
  also have "\<dots> = (sample_state, Ok Pending)"
    by (simp add: update_set_def check_fragment_def sample_state_def stored_def extended_def new_part_def sample_eval)
  finally show ?thesis .
qed

lemma sample_order: "PacketId [] 1 24 < PacketId [] 2 24"
  by (simp add: less_packet_id_def packet_id_key_def)

lemma admit_last: "admit sample_state sample_key last_fragment = Ok ([PacketId [] 1 24, PacketId [] 2 24], 9)"
  using sample_order by (simp add: admit_def sample_eval sample_state_def)

lemma open_last: "open_set sample_state sample_key last_fragment 2 = Ok sample_state"
  by (simp add: open_set_def sample_eval sample_state_def)

lemma push_last_update:
  "fragment_push sample_state last_fragment 2
     = update_set sample_state sample_key last_fragment (sample_info 8 False) [PacketId [] 1 24, PacketId [] 2 24] 9"
  using push_admitted [of sample_state last_fragment "sample_info 8 False"] admit_last open_last
  by (simp add: part_ok_sample) (simp add: sample_state_def reassembler_new_def)

lemma push_last:
  "fragment_push sample_state last_fragment 2 = finish_set (stored sample_state sample_key
     (extended (extended (empty_assembly first_fragment 1) first_fragment (sample_info 0 True) [PacketId [] 1 24] None)
       last_fragment (sample_info 8 False) [PacketId [] 1 24, PacketId [] 2 24] (Some 9)) 9) sample_key"
  unfolding push_last_update
  by (simp add: update_set_def check_fragment_def sample_state_def stored_def extended_def new_part_def
      outside_def part_end_def merge_template_def length_overflow_def sample_eval bt_put_put)

lemma sample_run: "fr_run limits_default [first_fragment] sample_state"
  using fr_run.push [OF fr_run.start push_first] .

lemma sample_complete: "\<exists>r' d ps. fragment_push sample_state last_fragment 2 = (r', Ok (Complete d ps))"
proof -
  have inv: "fr_inv sample_state" using fr_run_inv [OF sample_run] by simp
  have "part_ok (new_part last_fragment (sample_info 8 False))" by (simp add: part_ok_sample)
  moreover have "limits_validate (fr_limits sample_state) = Ok ()" by (simp add: sample_state_def reassembler_new_def)
  ultimately have "\<exists>out. snd (fragment_push sample_state last_fragment 2) = Ok out"
    using admitted_updated [OF inv, of last_fragment "sample_info 8 False"] admitted_inv [OF inv] admit_last open_last
    unfolding push_last_update sample_simps(3) by blast
  with push_last show ?thesis by (metis finish_set_outcome surjective_pairing)
qed

section \<open>What holds in every run\<close>

text \<open>
  C26: A reassembler that started empty never panics, whatever it is given and however it is expired,
  and keeps its budgets exactly: the retained byte count is the size of the parts held and within
  its limit, the number of sets and the fragments and packets of each set are within theirs.\<close>

theorem reassembler_keeps_its_budgets:
  assumes "fr_run l given r"
  shows "fr_retained r = bt_sum parts_size (fr_sets r) \<and> fr_retained r \<le> max_retained_payload l
    \<and> length (fr_sets r) \<le> max_fragment_sets l
    \<and> (\<forall>k st. bt_get (fr_sets r) k = Some st \<longrightarrow>
          length (as_parts st) \<le> max_fragments_per_set l \<and> length (as_packets st) \<le> max_fragments_per_set l)
    \<and> snd (fragment_push r dg frame) \<noteq> Panic \<and> fragment_expire r frame \<noteq> Panic"
proof -
  have r: "fr_inv r" "fr_limits r = l" using fr_run_inv [OF assms] by simp_all
  note I = fr_invD [OF r(1), unfolded r(2)]
  have "fragment_expire r frame \<noteq> Panic" using expire_loop_ok [OF r(1), of frame "[]"] by (auto simp: fragment_expire_def)
  with I(3,4,5) I(6) push_inv [OF r(1)] show ?thesis by (simp add: assembly_ok_def)
qed

theorem reassembler_keeps_its_budgets_witness:
  "fr_retained sample_state \<le> max_retained_payload limits_default
   \<and> snd (fragment_push sample_state last_fragment 2) \<noteq> Panic"
  using reassembler_keeps_its_budgets [OF sample_run] by blast

text \<open>
  C25: When a push completes a datagram, its payload is exactly what the fragments say.  It was built
  from fragments that were given and share the datagram's key; one of them is a last fragment that
  ends where the payload ends; every byte of the payload, with the packet it came from, is a byte of
  one of them at the same offset; and every other fragment that covers the offset has the same byte.
  The set is then gone and the datagram is no longer a fragment.\<close>

theorem completed_payloads_are_agreed_bytes:
  assumes "fr_run l given r" and "fragment_push r dg frame = (r', Ok (Complete d ps))"
    and "dg_fragment dg = Some info"
  shows "\<exists>parts. (\<forall>p \<in> set parts. given_part (dg # given) (frag_key_of dg info) p)
    \<and> assembled_from parts (ev_len (dg_payload d)) (dg_payload d)
    \<and> dg_fragment d = None \<and> bt_get (fr_sets r') (frag_key_of dg info) = None"
proof -
  have inv: "fr_inv r" using fr_run_inv [OF assms(1)] by simp
  have "given_part (dg # given) (frag_key_of dg info) p"
    if "p \<in> set (new_part dg info # set_parts r (frag_key_of dg info))" for p
    using that fr_run_parts [OF assms(1)] assms(3)
    by (cases "bt_get (fr_sets r) (frag_key_of dg info)") (force simp: given_part_def set_parts_def)+
  with push_complete [OF inv assms(2,3)] show ?thesis by blast
qed

theorem completed_payloads_are_agreed_bytes_witness:
  "\<exists>r' d ps parts. fragment_push sample_state last_fragment 2 = (r', Ok (Complete d ps))
     \<and> assembled_from parts (ev_len (dg_payload d)) (dg_payload d) \<and> dg_fragment d = None"
proof -
  obtain r' d ps where c: "fragment_push sample_state last_fragment 2 = (r', Ok (Complete d ps))"
    using sample_complete by blast
  from completed_payloads_are_agreed_bytes [OF sample_run c sample_simps(1)] c show ?thesis by blast
qed

text \<open>
  C27: No complete datagram is held back.  After a push that answers \<^verbatim>\<open>Pending\<close> the fragment is in its
  set, and the set is not yet covered: no last fragment has come, or some offset before its end is in
  no fragment.\<close>

theorem pending_sets_are_incomplete:
  assumes "fr_run l given r" and "fragment_push r dg frame = (r', Ok Pending)"
  shows "\<exists>info st. dg_fragment dg = Some info \<and> bt_get (fr_sets r') (frag_key_of dg info) = Some st
    \<and> set (as_parts st) = insert (new_part dg info) (set (set_parts r (frag_key_of dg info)))
    \<and> \<not> covered (as_parts st)"
proof -
  have inv: "fr_inv r" using fr_run_inv [OF assms(1)] by simp
  then show ?thesis
  proof (cases rule: push_cases [where dg = dg and frame = frame])
    case (unchanged res)
    then show ?thesis using assms(2) by simp
  next
    case (update info packets n r1)
    note upd = update(6) [unfolded assms(2)]
    let ?k = "frag_key_of dg info" and ?st = "opened r (frag_key_of dg info) dg frame"
    from upd show ?thesis
    proof cases
      case (pending e)
      then have "\<not> covered (as_parts (extended ?st dg info packets e))"
        by (intro not_covered [OF pending(3)]) simp_all
      with pending update(1) show ?thesis by (simp add: bt_get_put opened_parts)
    next
      case (complete t)
      from finish_set_outcome [OF complete(1) [symmetric]] show ?thesis by simp
    qed (simp_all add: rejected_def)
  qed
qed

theorem pending_sets_are_incomplete_witness:
  "\<exists>st. bt_get (fr_sets sample_state) sample_key = Some st \<and> \<not> covered (as_parts st)"
  using pending_sets_are_incomplete [OF fr_run.start push_first] by auto

text \<open>
  C28: A fragment that disagrees with a byte already held, or that belongs to a quarantined set, never
  completes a datagram and is never accepted: either the push is refused with the state unchanged, or
  the set is in quarantine afterwards, and a set already in quarantine keeps its parts.\<close>

theorem conflicting_fragments_are_quarantined:
  assumes "fr_run l given r" and "dg_fragment dg = Some info"
    and "bt_get (fr_sets r) (frag_key_of dg info) = Some st"
    and "as_poisoned st \<or> (\<exists>p \<in> set (as_parts st). \<not> agree p (new_part dg info))"
  shows "\<exists>r' res. fragment_push r dg frame = (r', res) \<and> res \<noteq> Ok Pending
    \<and> (\<forall>d ps. res \<noteq> Ok (Complete d ps))
    \<and> (r' = r \<or> (\<exists>st'. bt_get (fr_sets r') (frag_key_of dg info) = Some st' \<and> as_poisoned st'
          \<and> (as_poisoned st \<longrightarrow> as_parts st' = as_parts st)))"
  using push_conflict [OF conjunct1 [OF fr_run_inv [OF assms(1)]] assms(2-4)] .

theorem conflicting_fragments_are_quarantined_witness:
  "snd (fragment_push sample_state (sample_fragment 4 True [0] 3) 2) \<noteq> Ok Pending"
proof -
  let ?bad = "sample_fragment 4 True [0] 3"
  have st: "bt_get (fr_sets sample_state) sample_key = Some (extended (empty_assembly first_fragment 1)
      first_fragment (sample_info 0 True) [PacketId [] 1 24] None)" (is "_ = Some ?st")
    by (simp add: sample_state_def bt_get_put)
  have "part_byte (new_part first_fragment (sample_info 0 True)) 4 = Some 5"
    "part_byte (new_part ?bad (sample_info 4 True)) 4 = Some 0"
    by (simp_all add: part_byte_def ev_len_def)
  then have "\<not> agree (new_part first_fragment (sample_info 0 True)) (new_part ?bad (sample_info 4 True))"
    unfolding agree_def by fastforce
  then have "as_poisoned ?st \<or> (\<exists>p \<in> set (as_parts ?st). \<not> agree p (new_part ?bad (sample_info 4 True)))" by simp
  from conflicting_fragments_are_quarantined [OF sample_run sample_simps(1) _ this, of 2] st obtain r' res
    where "fragment_push sample_state ?bad 2 = (r', res)" "res \<noteq> Ok Pending" by (simp only: sample_simps(3)) blast
  then show ?thesis by simp
qed

text \<open>
  C29: Expiry at a frame always ends; it removes exactly the sets whose deadline has passed, keeps every
  other set as it was, and reports each removed set once, with its packets.\<close>

theorem expiry_removes_exactly_the_overdue:
  assumes "fr_run l given r"
  shows "\<exists>r' ns. fragment_expire r frame = Ok (r', ns)
    \<and> (\<forall>k. bt_get (fr_sets r') k = (case bt_get (fr_sets r) k of None \<Rightarrow> None
          | Some st \<Rightarrow> if overdue l frame st then None else Some st))
    \<and> set ns = {\<lparr>fn_code = ''fragment_expired'', fn_packets = as_packets st\<rparr> | k st.
          bt_get (fr_sets r) k = Some st \<and> overdue l frame st}
    \<and> length (fr_sets r') + length ns = length (fr_sets r)"
proof -
  have r: "fr_inv r" "fr_limits r = l" using fr_run_inv [OF assms] by simp_all
  show ?thesis
    using expire_loop_ok [OF r(1), of frame "[]"] unfolding fragment_expire_def expires_def r(2) by auto
qed

theorem expiry_removes_exactly_the_overdue_witness:
  "\<exists>r' ns. fragment_expire sample_state 100002 = Ok (r', ns) \<and> bt_get (fr_sets r') sample_key = None
     \<and> length ns = 1"
proof -
  obtain r' ns where e: "fragment_expire sample_state 100002 = Ok (r', ns)"
    "\<forall>k. bt_get (fr_sets r') k = (case bt_get (fr_sets sample_state) k of None \<Rightarrow> None
          | Some st \<Rightarrow> if overdue limits_default 100002 st then None else Some st)"
    "length (fr_sets r') + length ns = length (fr_sets sample_state)"
    using expiry_removes_exactly_the_overdue [OF sample_run, of 100002] by (elim exE conjE) (rule that)
  have one: "fr_sets sample_state = [(sample_key, extended (empty_assembly first_fragment 1)
      first_fragment (sample_info 0 True) [PacketId [] 1 24] None)]"
    by (simp add: sample_state_def reassembler_new_def)
  have "overdue limits_default 100002 (snd (hd (fr_sets sample_state)))"
    by (simp add: one overdue_def deadline_of_def checked_add_def usize_limit_def)
  then have gone: "bt_get (fr_sets r') k = None" for k using e(2) by (simp add: one)
  then have "fr_sets r' = []" by (metis bt_get_None_iff image_eqI last_in_set)
  with e one gone show ?thesis by simp
qed

end
