(* ===== verification/Capture_Index_Correct.thy ===== *)
theory Capture_Index_Correct
  imports Capture_Index Writer_Roundtrip "HOL-Library.Multiset"
begin

text \<open>
  The entries of an index are the packets of the capture in order, numbered from 1; the sidecar layout is
  fixed, so that loading is re-encoding; the queries by frame and by time are exact.
\<close>

section \<open>Frames are numbered\<close>

definition counted :: "decoder \<Rightarrow> decoder \<Rightarrow> record_kind \<Rightarrow> bool" where
  "counted d d' kind \<longleftrightarrow> d_limits d' = d_limits d \<and> d_records d' = d_records d
     \<and> (case kind of Packet p \<Rightarrow> pm_frame p = d_next_frame d \<and> d_next_frame d' = Suc (d_next_frame d)
        | _ \<Rightarrow> d_next_frame d' = d_next_frame d)"

lemma blocks_counted:
  "decode_section d raw need e off = Ok (d', kind, options, warnings) \<Longrightarrow> counted d d' kind"
  "decode_interface d raw need e off = Ok (d', kind, options, warnings) \<Longrightarrow> counted d d' kind"
  "decode_packet_block d raw need e off block = Ok (d', kind, options, warnings) \<Longrightarrow> counted d d' kind"
  "decode_simple_packet d raw need e off = Ok (d', kind, options, warnings) \<Longrightarrow> counted d d' kind"
  "decode_names d raw need e off = Ok (d', kind, options, warnings) \<Longrightarrow> counted d d' kind"
  "decode_statistics d raw need e off = Ok (d', kind, options, warnings) \<Longrightarrow> counted d d' kind"
  "decode_secrets d raw need e off = Ok (d', kind, options, warnings) \<Longrightarrow> counted d d' kind"
  "decode_custom d raw need e off block = Ok (d', kind, options, warnings) \<Longrightarrow> counted d d' kind"
  subgoal by (auto simp: counted_def decode_section_def Let_def elim!: and_then_OkE split: if_split_asm prod.split_asm)
  subgoal by (auto simp: counted_def decode_interface_def Let_def elim!: and_then_OkE split: if_split_asm prod.split_asm)
  subgoal by (auto simp: counted_def decode_packet_block_def Let_def elim!: and_then_OkE split: if_split_asm prod.split_asm)
  subgoal by (auto simp: counted_def decode_simple_packet_def Let_def elim!: and_then_OkE split: if_split_asm prod.split_asm)
  subgoal by (auto simp: counted_def decode_names_def Let_def elim!: and_then_OkE split: if_split_asm prod.split_asm)
  subgoal by (auto simp: counted_def decode_statistics_def Let_def elim!: and_then_OkE split: if_split_asm prod.split_asm)
  subgoal by (auto simp: counted_def decode_secrets_def Let_def elim!: and_then_OkE split: if_split_asm prod.split_asm)
  subgoal by (auto simp: counted_def decode_custom_def Let_def elim!: and_then_OkE split: if_split_asm prod.split_asm)
  done

lemma decode_block_counted:
  "decode_block d raw need e off block = Ok (d', kind, options, warnings) \<Longrightarrow> counted d d' kind"
  by (auto simp: decode_block_def dest: blocks_counted split: if_split_asm) (simp add: counted_def)

lemma decode_legacy_counted:
  "decode_legacy_packet d raw off = Ok (d', kind, warnings) \<Longrightarrow> counted d d' kind"
  "decode_legacy_header d raw off = Ok (d', kind, e) \<Longrightarrow> counted d d' kind"
  by (auto simp: counted_def decode_legacy_packet_def decode_legacy_header_def Let_def
      elim!: and_then_OkE split: if_split_asm prod.split_asm option.split_asm)

lemma decode_counted:
  assumes "decode d input off = Ok (d', Decoded r)"
  shows "d_limits d' = d_limits d" "d_records d < max_records (d_limits d)" "d_records d' = Suc (d_records d)"
    "\<And>p. rec_kind r = Packet p \<Longrightarrow> pm_frame p = d_next_frame d \<and> d_next_frame d' = Suc (d_next_frame d)"
    "\<nexists>p. rec_kind r = Packet p \<Longrightarrow> d_next_frame d' = d_next_frame d"
proof -
  have "d_records d < max_records (d_limits d) \<and> (\<exists>d1. counted d d1 (rec_kind r) \<and> d' = d1\<lparr>d_records := d_records d1 + 1\<rparr>)"
    using assms unfolding decode_def
    by (auto elim!: and_then_OkE decode_ng_block split: if_split_asm prod.split_asm)
      (metis decode_block_counted decode_legacy_counted)+
  then obtain d1 where less: "d_records d < max_records (d_limits d)"
    and c: "counted d d1 (rec_kind r)" and d': "d' = d1\<lparr>d_records := d_records d1 + 1\<rparr>" by blast
  show "d_records d < max_records (d_limits d)" by (rule less)
  show "d_limits d' = d_limits d" "d_records d' = Suc (d_records d)" using c d' by (simp_all add: counted_def)
  show "pm_frame p = d_next_frame d \<and> d_next_frame d' = Suc (d_next_frame d)" if "rec_kind r = Packet p" for p
    using c d' that by (simp add: counted_def)
  show "d_next_frame d' = d_next_frame d" if "\<nexists>p. rec_kind r = Packet p"
    using c d' that by (cases "rec_kind r") (simp_all add: counted_def)
qed

section \<open>Entries\<close>

text \<open>The packets of a list of records, each with its captured bytes.\<close>

definition packets_of :: "cap_record list \<Rightarrow> (packet_meta \<times> bytes) list" where
  "packets_of recs = concat (map (\<lambda>r. case record_packet r of Ok (Some x) \<Rightarrow> [x] | _ \<Rightarrow> []) recs)"

definition entry_for :: "bytes \<Rightarrow> packet_meta \<times> bytes \<Rightarrow> index_entry \<Rightarrow> bool" where
  "entry_for source = (\<lambda>(p, data) entry. ie_packet entry = p
     \<and> ie_record_offset entry + data_offset p + unat (captured_len p) \<le> length source
     \<and> data = sub_list source (ie_record_offset entry + data_offset p)
         (ie_record_offset entry + data_offset p + unat (captured_len p)))"

definition numbered_from :: "nat \<Rightarrow> index_entry list \<Rightarrow> bool" where
  "numbered_from n entries \<longleftrightarrow> map (\<lambda>e. pm_frame (ie_packet e)) entries = [n..<n + length entries]"

lemma index_record_step:
  assumes "decode d (drop pos source) pos = Ok (d', Decoded r)" "pos \<le> length source"
  shows "yields (index_record es (Ok r)) (\<lambda>es'. \<exists>new. es' = es @ new \<and> list_all2 (entry_for source) (packets_of [r]) new
    \<and> numbered_from (d_next_frame d) new \<and> d_next_frame d' = d_next_frame d + length new \<and> length new \<le> 1)"
proof (cases "\<exists>p. rec_kind r = Packet p")
  case True
  then obtain p where p: "rec_kind r = Packet p" by blast
  obtain need where need: "need \<le> length (drop pos source)" "rec_raw r = take need (drop pos source)" "rec_offset r = pos"
    using decode_Decoded [OF assms(1)] by metis
  have raw: "rec_raw r = sub_list source pos (pos + need)" using need by (simp add: sub_list_def take_drop add.commute)
  have fits: "data_offset p + unat (captured_len p) \<le> length (rec_raw r)"
    using decode_packet_in_record [OF assms(1)] p by (simp add: packet_in_record_def)
  then have "sub_list (rec_raw r) (data_offset p) (data_offset p + unat (captured_len p))
      = sub_list source (pos + data_offset p) (pos + data_offset p + unat (captured_len p))"
    using need sub_list_sub_list [of "data_offset p + unat (captured_len p)" "pos + need" pos source "data_offset p"]
    by (simp add: raw add.assoc)
  then show ?thesis
    using p fits need decode_counted(4) [OF assms(1) p] assms(2)
    by (auto simp: index_record_def record_packet_def packets_of_def entry_for_def numbered_from_def)
next
  case False
  then have "record_packet r = Ok None" by (cases "rec_kind r") (auto simp: record_packet_def)
  then show ?thesis
    using False decode_counted(5) [OF assms(1)] by (simp add: index_record_def packets_of_def numbered_from_def)
qed

definition indexed :: "bytes \<Rightarrow> decoder \<Rightarrow> cap_record list \<Rightarrow> index_entry list \<Rightarrow> bool" where
  "indexed source d recs new \<longleftrightarrow> list_all2 (entry_for source) (packets_of recs) new
     \<and> numbered_from (d_next_frame d) new \<and> d_records d + length new \<le> max_records (d_limits d)"

lemma indexed_Cons:
  assumes "decode d (drop pos source) pos = Ok (d', Decoded r)"
    "list_all2 (entry_for source) (packets_of [r]) first" "numbered_from (d_next_frame d) first"
    "d_next_frame d' = d_next_frame d + length first" "length first \<le> 1" "indexed source d' recs new"
  shows "indexed source d (r # recs) (first @ new)"
proof -
  note n = decode_counted(1-3) [OF assms(1)]
  have new: "list_all2 (entry_for source) (packets_of recs) new" "numbered_from (d_next_frame d') new"
    "d_records d' + length new \<le> max_records (d_limits d')"
    using assms(6) by (simp_all add: indexed_def)
  have "packets_of (r # recs) = packets_of [r] @ packets_of recs" by (simp add: packets_of_def)
  then have "list_all2 (entry_for source) (packets_of (r # recs)) (first @ new)"
    using list_all2_appendI [OF assms(2) new(1)] by simp
  moreover have "numbered_from (d_next_frame d) (first @ new)"
    using assms(3,4) new(2) upt_add_eq_append [of "d_next_frame d" "d_next_frame d + length first" "length new"]
    by (simp add: numbered_from_def add.assoc)
  ultimately show ?thesis using new(3) n assms(5) by (simp add: indexed_def)
qed

lemma index_items:
  assumes "iter_inv it" "d_records (it_decoder it) \<le> max_records (d_limits (it_decoder it))"
  shows "yields (for_each index_record es (iter_items it)) (\<lambda>es'. \<exists>recs new. iter_items it = map Ok recs \<and> es' = es @ new
    \<and> indexed (it_data it) (it_decoder it) recs new)"
  using assms
proof (induction it arbitrary: es rule: iter_items.induct)
  case (1 it)
  have empty: ?case if "iter_items it = []"
    using that "1.prems"(2) by (simp add: indexed_def packets_of_def numbered_from_def)
  show ?case
  proof (cases "it_terminal it")
    case True
    then show ?thesis using empty by (simp add: iter_items_terminal)
  next
    case False
    from iter_next_cases [OF "1.prems"(1) False] show ?thesis
    proof (elim disjE conjE exE)
      fix d and r :: cap_record
      let ?it = "it\<lparr>it_decoder := d, it_position := it_position it + length (rec_raw r)\<rparr>"
      assume nx: "iter_next it = (?it, Some (Ok r))"
        and dec: "decode (it_decoder it) (drop (it_position it) (it_data it)) (it_position it) = Ok (d, Decoded r)"
      have inv: "iter_inv ?it" using iter_next_inv [OF "1.prems"(1) nx] by simp
      have recs: "d_records (it_decoder ?it) \<le> max_records (d_limits (it_decoder ?it))"
        using decode_counted(1-3) [OF dec] by simp
      have items: "iter_items it = Ok r # iter_items ?it" by (subst iter_items.simps) (simp add: nx)
      have pos: "it_position it \<le> length (it_data it)" using "1.prems"(1) by (simp add: iter_inv_def)
      have rest: "yields (for_each index_record es' (iter_items ?it)) (\<lambda>es''. \<exists>recs new. iter_items it = map Ok recs
          \<and> es'' = es @ new \<and> indexed (it_data it) (it_decoder it) recs new)"
        if es': "\<exists>new. es' = es @ new \<and> list_all2 (entry_for (it_data it)) (packets_of [r]) new
          \<and> numbered_from (d_next_frame (it_decoder it)) new
          \<and> d_next_frame d = d_next_frame (it_decoder it) + length new \<and> length new \<le> 1" for es'
      proof -
        obtain first where f: "es' = es @ first" "list_all2 (entry_for (it_data it)) (packets_of [r]) first"
          "numbered_from (d_next_frame (it_decoder it)) first"
          "d_next_frame d = d_next_frame (it_decoder it) + length first" "length first \<le> 1"
          using es' by blast
        show ?thesis
        proof (rule yields_mono [OF "1.IH" (1) [OF nx [symmetric] refl refl inv recs, of es']])
          fix es''
          assume "\<exists>recs new. iter_items ?it = map Ok recs \<and> es'' = es' @ new \<and> indexed (it_data ?it) (it_decoder ?it) recs new"
          then obtain recs new where "iter_items ?it = map Ok recs" "es'' = es' @ new" "indexed (it_data it) d recs new"
            by auto
          then show "\<exists>recs new. iter_items it = map Ok recs \<and> es'' = es @ new \<and> indexed (it_data it) (it_decoder it) recs new"
            using indexed_Cons [OF dec f(2-5), of recs new] f(1) items
            by (intro exI [of _ "r # recs"] exI [of _ "first @ new"]) simp
        qed
      qed
      show ?thesis
        unfolding items by (simp only: for_each.simps)
          (intro yields_and_then [OF index_record_step [OF dec pos]] rest [unfolded items])
    qed (use False "1.prems" empty in \<open>auto simp: iter_items.simps [of it] iter_items_terminal index_record_def\<close>)
  qed
qed

lemma index_build_ok:
  assumes "index_build source l = Ok idx"
  shows "\<exists>it recs. iter_new source l Strict = Ok it \<and> limits_validate l = Ok () \<and> length source \<le> max_input_bytes l
    \<and> iter_items it = map Ok recs \<and> ci_source_len idx = length source \<and> ci_source_sha256 idx = fips_sha256 source
    \<and> list_all2 (entry_for source) (packets_of recs) (ci_entries idx) \<and> numbered_from 1 (ci_entries idx)
    \<and> length (ci_entries idx) \<le> max_records l"
proof -
  obtain it entries where b: "iter_new source l Strict = Ok it" "for_each index_record [] (iter_items it) = Ok entries"
    and idx: "idx = \<lparr>ci_source_len = length source, ci_source_sha256 = fips_sha256 source, ci_entries = entries\<rparr>"
    using assms by (auto simp: index_build_def elim!: and_then_OkE)
  then have it: "iter_inv it" "it_data it = source" "d_records (it_decoder it) = 0" "d_limits (it_decoder it) = l"
    "d_next_frame (it_decoder it) = 1" "limits_validate l = Ok ()" "length source \<le> max_input_bytes l"
    by (auto simp: iter_new_def decoder_new_def iter_inv_def elim!: and_then_OkE split: if_split_asm)
  have "\<exists>recs new. iter_items it = map Ok recs \<and> entries = [] @ new \<and> indexed (it_data it) (it_decoder it) recs new"
    using yields_OkD [OF index_items [OF it(1)] b(2)] it(3) by simp
  then show ?thesis using b(1) idx it by (auto simp: indexed_def)
qed

section \<open>The layout of the sidecar\<close>

lemma encode_time_append:
  "encode_time time out = Ok out' \<Longrightarrow> \<exists>e. out' = out @ e \<and> length e = 20"
  by (auto simp: encode_time_def put_eq_append [of _ _ "_ @ _"] put_eq_append [of _ _ "_ # _"]
      elim!: and_then_OkE split: option.split_asm)

lemma encode_entry_append:
  assumes "encode_entry out entry = Ok out'"
  shows "\<exists>e. out' = out @ e \<and> length e = 64"
proof -
  obtain fixed where "encode_time (pm_timestamp (ie_packet entry)) (out @ fixed) = Ok out'" "length fixed = 44"
    using assms by (auto simp: encode_entry_def Let_def put_eq_append [of _ _ out] put_eq_append [of _ _ "_ @ _"]
        split: if_split_asm)
  with encode_time_append [OF this(1)] show ?thesis by auto
qed

lemma encode_entries_append:
  "for_each encode_entry out entries = Ok out' \<Longrightarrow> \<exists>e. out' = out @ e \<and> length e = 64 * length entries"
proof (induction entries arbitrary: out)
  case (Cons entry entries)
  then obtain mid where mid: "encode_entry out entry = Ok mid" "for_each encode_entry mid entries = Ok out'"
    by (auto elim!: and_then_OkE)
  from encode_entry_append [OF mid(1)] Cons.IH [OF mid(2)] show ?case by fastforce
qed simp

lemma encode_entry_no_panic [simp]: "encode_entry out entry \<noteq> Panic"
proof -
  have "resolution_to_pcapng r \<noteq> Panic" for r by (cases r) simp_all
  then show ?thesis by (auto simp: encode_entry_def encode_time_def Let_def outcome_simps split: option.split)
qed

lemma for_each_no_panic: "(\<And>s x. f s x \<noteq> Panic) \<Longrightarrow> for_each f s xs \<noteq> Panic"
  by (induction xs arbitrary: s) (auto simp: outcome_simps)

lemma index_encode_ok:
  assumes "index_encode idx = Ok sidecar" "length (ci_source_sha256 idx) = 32"
  shows "\<exists>body. sidecar = (index_magic @ put_u64 Little (word_of_nat (ci_source_len idx)) [] @ ci_source_sha256 idx
      @ put_u64 Little (word_of_nat (length (ci_entries idx))) [] @ body)
      @ fips_sha256 (index_magic @ put_u64 Little (word_of_nat (ci_source_len idx)) [] @ ci_source_sha256 idx
      @ put_u64 Little (word_of_nat (length (ci_entries idx))) [] @ body)
    \<and> length body = 64 * length (ci_entries idx) \<and> 64 * length (ci_entries idx) + 88 < usize_limit"
proof -
  let ?head = "put_u64 Little (word_of_nat (length (ci_entries idx)))
    (put_u64 Little (word_of_nat (ci_source_len idx)) index_magic @ ci_source_sha256 idx)"
  obtain size out where size: "sidecar_size (length (ci_entries idx)) = Some size"
    and out: "for_each encode_entry ?head (ci_entries idx) = Ok out" "sidecar = out @ fips_sha256 out"
    using assms(1) unfolding index_encode_def by (auto simp: outcome_simps elim!: and_then_OkE)
  obtain body where "out = ?head @ body" "length body = 64 * length (ci_entries idx)"
    using encode_entries_append [OF out(1)] by blast
  moreover have "?head = index_magic @ put_u64 Little (word_of_nat (ci_source_len idx)) [] @ ci_source_sha256 idx
      @ put_u64 Little (word_of_nat (length (ci_entries idx))) []"
    by (subst put_eq_append, subst put_eq_append [of _ _ index_magic]) simp
  ultimately show ?thesis
    using size out(2)
    by (auto simp: sidecar_size_def index_entry_size_def index_header_def checked_add_eq_Some mult.commute
        split: if_split_asm)
qed

section \<open>Times\<close>

lemma split_times_spec:
  "split_times entries (known, unknown) =
    (known @ [(time, pm_frame (ie_packet e)). e \<leftarrow> entries, time \<leftarrow> (case packet_time (ie_packet e) of Some t \<Rightarrow> [t] | None \<Rightarrow> [])],
     unknown @ [pm_frame (ie_packet e). e \<leftarrow> entries, packet_time (ie_packet e) = None])"
  by (induction entries arbitrary: known unknown) (simp_all split: option.split)

text \<open>On a list sorted by the key, a range between two partition points is a filter.\<close>

lemma takeWhile_sorted_filter:
  "sorted (map f xs) \<Longrightarrow> (\<And>a b. P b \<Longrightarrow> a \<le> b \<Longrightarrow> P a) \<Longrightarrow> takeWhile (\<lambda>x. P (f x)) xs = filter (\<lambda>x. P (f x)) xs"
proof (induction xs)
  case (Cons x xs)
  show ?case
  proof (cases "P (f x)")
    case False
    have "\<not> P (f y)" if "y \<in> set xs" for y using that Cons.prems False by auto
    then show ?thesis using False by (simp add: filter_empty_conv)
  qed (use Cons in auto)
qed simp

lemma dropWhile_sorted_filter:
  "sorted (map f xs) \<Longrightarrow> (\<And>a b. P b \<Longrightarrow> a \<le> b \<Longrightarrow> P a) \<Longrightarrow> dropWhile (\<lambda>x. P (f x)) xs = filter (\<lambda>x. \<not> P (f x)) xs"
proof (induction xs)
  case (Cons x xs)
  show ?case
  proof (cases "P (f x)")
    case False
    have "\<not> P (f y)" if "y \<in> set xs" for y using that Cons.prems False by auto
    then show ?thesis using False by (simp add: filter_id_conv)
  qed (use Cons in auto)
qed simp

lemma partition_range:
  fixes f :: "'a \<Rightarrow> int"
  assumes "sorted (map f xs)" "a \<le> b"
  shows "range_at xs (partition_point (\<lambda>x. f x < a) xs) (partition_point (\<lambda>x. f x \<le> b) xs)
    = Ok (filter (\<lambda>x. a \<le> f x \<and> f x \<le> b) xs)"
proof -
  let ?high = "takeWhile (\<lambda>x. f x \<le> b) xs"
  have high: "?high = filter (\<lambda>x. f x \<le> b) xs"
    by (rule takeWhile_sorted_filter [OF assms(1), of "\<lambda>t. t \<le> b"]) simp
  have low: "takeWhile (\<lambda>x. f x < a) xs = takeWhile (\<lambda>x. f x < a) ?high"
    unfolding takeWhile_takeWhile using assms(2) by (intro takeWhile_cong) auto
  have "sorted (map f ?high)"
    using sorted_wrt_takeWhile [OF assms(1), of "\<lambda>t. t \<le> b"] by (simp add: takeWhile_map comp_def)
  from dropWhile_sorted_filter [OF this, of "\<lambda>t. t < a"]
  have "drop (length (takeWhile (\<lambda>x. f x < a) xs)) ?high = filter (\<lambda>x. a \<le> f x \<and> f x \<le> b) xs"
    by (subst low) (simp add: dropWhile_eq_drop [symmetric] high not_less conj_commute)
  moreover have "length (takeWhile (\<lambda>x. f x < a) xs) \<le> length ?high"
    by (subst low) (rule length_takeWhile_le)
  ultimately show ?thesis
    by (simp add: range_at_def partition_point_def sub_list_def length_takeWhile_le takeWhile_eq_take [symmetric]
        flip: drop_take)
qed

text \<open>The frames of a list of packets whose time is in a range, and those without an exact time.\<close>

definition frames_between :: "int \<Rightarrow> int \<Rightarrow> packet_meta list \<Rightarrow> nat list" where
  "frames_between a b ps = map pm_frame (filter (\<lambda>p. \<exists>t. packet_time p = Some t \<and> a \<le> t \<and> t \<le> b) ps)"

definition frames_unresolved :: "packet_meta list \<Rightarrow> nat list" where
  "frames_unresolved ps = map pm_frame (filter (\<lambda>p. packet_time p = None) ps)"

lemma frames_between_known:
  "map snd (filter (\<lambda>(t, _). a \<le> t \<and> t \<le> b)
     [(time, pm_frame (ie_packet e)). e \<leftarrow> es, time \<leftarrow> (case packet_time (ie_packet e) of Some t \<Rightarrow> [t] | None \<Rightarrow> [])])
   = frames_between a b (map ie_packet es)"
  by (induction es) (auto simp: frames_between_def split: option.split)

lemma frames_unresolved_unknown:
  "[pm_frame (ie_packet e). e \<leftarrow> es, packet_time (ie_packet e) = None] = frames_unresolved (map ie_packet es)"
  by (induction es) (auto simp: frames_unresolved_def)

lemma sorted_frames_between: "sorted (map pm_frame ps) \<Longrightarrow> sorted (frames_between a b ps)"
  by (simp add: frames_between_def sorted_filter)

lemma time_range_canonical:
  assumes "numbered_from n (ci_entries idx)" "a \<le> b"
  shows "time_range (from_canonical source idx) a b =
    Ok \<lparr>tq_frames = frames_between a b (map ie_packet (ci_entries idx)),
        tq_unresolved_frames = frames_unresolved (map ie_packet (ci_entries idx))\<rparr>"
proof -
  let ?ps = "map ie_packet (ci_entries idx)"
  define known where "known = [(time, pm_frame (ie_packet e)). e \<leftarrow> ci_entries idx,
    time \<leftarrow> (case packet_time (ie_packet e) of Some t \<Rightarrow> [t] | None \<Rightarrow> [])]"
  have v: "from_canonical source idx = \<lparr>vi_source = source, vi_index = idx, vi_sorted_times = sort known,
      vi_unknown_times = frames_unresolved ?ps\<rparr>"
    by (simp add: from_canonical_def split_times_spec known_def frames_unresolved_unknown)
  have "sorted (map fst (sort known))"
    by (rule sorted_map_mono [OF sorted_sort]) (auto simp: less_eq_prod_def mono_on_def)
  then have found: "range_at (sort known) (partition_point (\<lambda>(t, _). t < a) (sort known))
      (partition_point (\<lambda>(t, _). t \<le> b) (sort known))
    = (Ok (filter (\<lambda>(t, _). a \<le> t \<and> t \<le> b) (sort known)) :: (int \<times> nat) list result)"
    using partition_range [OF _ assms(2), of fst "sort known"] by (simp add: case_prod_unfold)
  have "sorted (map pm_frame ?ps)" using assms(1) by (simp add: numbered_from_def comp_def)
  note sorted = sorted_frames_between [OF this, of a b]
  have between: "frames_between a b ?ps = map snd (filter (\<lambda>(t, _). a \<le> t \<and> t \<le> b) known)"
    by (simp add: known_def frames_between_known)
  have "sort (map snd (filter (\<lambda>(t, _). a \<le> t \<and> t \<le> b) (sort known))) = frames_between a b ?ps"
    using sorted by (intro properties_for_sort) (simp_all add: between mset_filter)
  then show ?thesis using assms(2) found by (simp add: time_range_def v Let_def)
qed

section \<open>Properties\<close>

lemma index_build_no_panic: "index_build source l \<noteq> Panic"
proof
  assume panic: "index_build source l = Panic"
  have no_panic: "iter_new source l Strict \<noteq> Panic" by (auto simp: iter_new_def decoder_new_def outcome_simps)
  then obtain it where it: "iter_new source l Strict = Ok it" "for_each index_record [] (iter_items it) = Panic"
    using panic by (auto simp: index_build_def outcome_simps)
  then have "iter_inv it" "d_records (it_decoder it) = 0"
    by (auto simp: iter_new_def decoder_new_def iter_inv_def elim!: and_then_OkE split: if_split_asm)
  then show False using index_items [of it "[]"] it(2) by simp
qed

lemma index_encode_no_panic: "index_encode idx \<noteq> Panic"
  by (auto simp: index_encode_def outcome_simps for_each_no_panic)

lemma vi_index_from_canonical [simp]: "vi_index (from_canonical source idx) = idx" "vi_source (from_canonical source idx) = source"
  by (simp_all add: from_canonical_def split: prod.split)

lemma word64_at_skip: "length xs = n \<Longrightarrow> word64_at e ys p = word64_at e (xs @ ys) (n + p)"
  by (cases e) (auto simp: word64_at_def word32_at_skip add.assoc)

lemma verified_load_canonical:
  assumes "index_build source l = Ok idx" "index_encode idx = Ok sidecar"
  shows "verified_load source sidecar l = Ok (from_canonical source idx)"
proof -
  let ?n = "length (ci_entries idx)"
  have b: "limits_validate l = Ok ()" "length source \<le> max_input_bytes l" "ci_source_len idx = length source"
    "ci_source_sha256 idx = fips_sha256 source" "?n \<le> max_records l"
    using index_build_ok [OF assms(1)] by auto
  define head where "head = index_magic @ put_u64 Little (word_of_nat (length source)) [] @ fips_sha256 source
    @ put_u64 Little (word_of_nat ?n) []"
  obtain body where s: "sidecar = (head @ body) @ fips_sha256 (head @ body)" "length body = 64 * ?n"
    "64 * ?n + 88 < usize_limit"
    using index_encode_ok [OF assms(2)] b(3,4) by (auto simp: head_def)
  have head: "length head = 56" by (simp add: head_def index_magic_def)
  have len: "length sidecar = 64 * ?n + 88" using s head by simp
  have count: "unat (word_of_nat ?n :: u64) = ?n"
    using s(3) by (simp add: usize_limit_def unsigned_of_nat take_bit_nat_eq_self)
  have "word64_at Little ((index_magic @ put_u64 Little (word_of_nat (length source)) [] @ fips_sha256 source)
      @ put_u64 Little (word_of_nat ?n) [] @ body @ fips_sha256 (head @ body)) (48 + 0) = word_of_nat ?n"
    by (subst word64_at_skip [symmetric]) (simp add: index_magic_def, rule word64_at_put)
  then have at48: "word64_at Little sidecar 48 = word_of_nat ?n" by (simp add: s(1) head_def)
  have "word64_at Little (index_magic @ put_u64 Little (word_of_nat (length source)) [] @ fips_sha256 source
      @ put_u64 Little (word_of_nat ?n) [] @ body @ fips_sha256 (head @ body)) (8 + 0) = word_of_nat (length source)"
    by (subst word64_at_skip [symmetric]) (simp add: index_magic_def, rule word64_at_put)
  then have at8: "word64_at Little sidecar 8 = word_of_nat (length source)" by (simp add: s(1) head_def)
  have magic: "take 8 sidecar = index_magic" by (simp add: s(1) head_def index_magic_def)
  have sha: "sub_list sidecar 16 48 = fips_sha256 source"
    by (simp add: s(1) head_def index_magic_def sub_list_def)
  have size: "sidecar_size ?n = Some (64 * ?n + 88)"
    using s(3) by (simp add: sidecar_size_def index_entry_size_def index_header_def checked_add_def mult.commute)
  have tail: "sub_list sidecar (56 + 64 * ?n) (64 * ?n + 88) = fips_sha256 (head @ body)"
    "take (56 + 64 * ?n) sidecar = head @ body"
    using s head by (simp_all add: sub_list_def)
  show ?thesis
    using b len count at48 at8 magic sha size tail assms
    by (simp add: verified_load_def index_header_def range_from_def Let_def)
qed

text \<open>
  C19: A sidecar is accepted exactly when it is the encoding of the index of this very capture: loading it
  succeeds if and only if building the index succeeds and the sidecar is its encoding, and the loaded index
  is the built one.  Neither loading nor building nor encoding panics.\<close>

theorem sidecars_load_iff_canonical:
  "(verified_load source sidecar l = Ok v
     \<longleftrightarrow> verified_build source l = Ok v \<and> index_encode (vi_index v) = Ok sidecar)
   \<and> verified_load source sidecar l \<noteq> Panic \<and> verified_build source l \<noteq> Panic \<and> index_encode idx \<noteq> Panic"
proof (intro conjI iffI)
  assume "verified_load source sidecar l = Ok v"
  then obtain idx where "index_build source l = Ok idx" "index_encode idx = Ok sidecar" "v = from_canonical source idx"
    unfolding verified_load_def Let_def by (auto elim!: and_then_OkE split: if_split_asm)
  then show "verified_build source l = Ok v" "index_encode (vi_index v) = Ok sidecar"
    by (simp_all add: verified_build_def)
next
  assume "verified_build source l = Ok v \<and> index_encode (vi_index v) = Ok sidecar"
  then obtain idx where "index_build source l = Ok idx" "v = from_canonical source idx" "index_encode idx = Ok sidecar"
    by (auto simp: verified_build_def elim!: and_then_OkE)
  then show "verified_load source sidecar l = Ok v" by (simp add: verified_load_canonical)
next
  show "verified_load source sidecar l \<noteq> Panic"
    by (auto simp: verified_load_def Let_def outcome_simps index_header_def index_build_no_panic index_encode_no_panic
        range_from_def split: if_split_asm)
  show "verified_build source l \<noteq> Panic" by (simp add: verified_build_def outcome_simps index_build_no_panic)
  show "index_encode idx \<noteq> Panic" by (rule index_encode_no_panic)
qed

text \<open>
  C20: Queries of a verified index.  Frames are numbered from 1 in capture order; asking for a frame returns
  the captured bytes of that packet, and an error exactly for other numbers; a time range returns exactly
  the frames whose exact time lies in it, in capture order, and apart from them all frames without an exact
  time.\<close>

theorem index_queries_are_exact:
  assumes "verified_build source l = Ok v" and "length source < usize_limit"
  shows "\<exists>it recs. iter_new source l Strict = Ok it \<and> iter_items it = map Ok recs
    \<and> map (\<lambda>(p, _). pm_frame p) (packets_of recs) = [1..<Suc (length (packets_of recs))]
    \<and> (\<forall>frame. if 1 \<le> frame \<and> frame \<le> length (packets_of recs)
         then verified_packet v frame = Ok (snd (packets_of recs ! (frame - 1)))
         else \<exists>detail. verified_packet v frame = Err (invalid_index detail))
    \<and> (\<forall>a b. time_range v a b = (if a > b then Err (invalid_index ''inverted time range'')
         else Ok \<lparr>tq_frames = frames_between a b (map fst (packets_of recs)),
                  tq_unresolved_frames = frames_unresolved (map fst (packets_of recs))\<rparr>))"
proof -
  obtain idx where idx: "index_build source l = Ok idx" "v = from_canonical source idx"
    using assms(1) by (auto simp: verified_build_def elim!: and_then_OkE)
  obtain it recs where b: "iter_new source l Strict = Ok it" "iter_items it = map Ok recs"
    "list_all2 (entry_for source) (packets_of recs) (ci_entries idx)" "numbered_from 1 (ci_entries idx)"
    using index_build_ok [OF idx(1)] by blast
  let ?ps = "packets_of recs"
  have len: "length (ci_entries idx) = length ?ps" using b(3) by (simp add: list_all2_lengthD)
  have metas: "map ie_packet (ci_entries idx) = map fst ?ps"
    using b(3) by (auto simp: list_all2_conv_all_nth entry_for_def case_prod_unfold intro!: nth_equalityI)
  have "map (\<lambda>e. pm_frame (ie_packet e)) (ci_entries idx) = map pm_frame (map fst ?ps)"
    by (simp add: metas [symmetric])
  then have frames: "map (\<lambda>(p, _). pm_frame p) ?ps = [1..<Suc (length ?ps)]"
    using b(4) len by (simp add: numbered_from_def case_prod_unfold comp_def)
  have "if 1 \<le> frame \<and> frame \<le> length ?ps then verified_packet v frame = Ok (snd (?ps ! (frame - 1)))
      else \<exists>detail. verified_packet v frame = Err (invalid_index detail)" for frame
  proof (cases "1 \<le> frame \<and> frame \<le> length ?ps")
    case True
    then have "entry_for source (?ps ! (frame - 1)) (ci_entries idx ! (frame - 1))"
      using list_all2_nthD [OF b(3), of "frame - 1"] by linarith
    then show ?thesis
      using True assms(2) len idx(2)
      by (auto simp: verified_packet_def entry_for_def checked_add_def get_range_def add.assoc split: prod.split_asm)
  next
    case False
    then show ?thesis using len idx(2) by (auto simp: verified_packet_def)
  qed
  moreover have "time_range v a b = (if a > b then Err (invalid_index ''inverted time range'')
      else Ok \<lparr>tq_frames = frames_between a b (map fst ?ps), tq_unresolved_frames = frames_unresolved (map fst ?ps)\<rparr>)" for a b
    using time_range_canonical [OF b(4), of a b source] idx(2) by (auto simp: metas time_range_def)
  ultimately show ?thesis using b(1,2) frames by blast
qed

lemma index_build_total:
  assumes "iter_new source l Strict = Ok it" "iter_items it = map Ok recs" "length source < 2 ^ 32"
  shows "\<exists>idx. index_build source l = Ok idx"
proof -
  have "iter_inv it" "it_position it = 0" "it_data it = source"
    using assms(1) by (auto simp: iter_new_def iter_inv_def elim!: and_then_OkE split: if_split_asm)
  moreover have ok_map: "ok_items (iter_items it) = recs"
    unfolding assms(2) ok_items_def by (induction recs) auto
  ultimately have "\<exists>rest. source = concat (map rec_raw recs) @ rest"
    using iter_items_partition [of it] by auto
  then have "sum_list (map (length \<circ> rec_raw) recs) \<le> length source" by (auto simp: length_concat comp_def)
  then have small: "length (rec_raw r) < 2 ^ 32" if "r \<in> set recs" for r
    using that assms(3) member_le_sum_list [of "length (rec_raw r)" "map (length \<circ> rec_raw) recs"] by force
  have "for_each index_record es (map Ok recs') \<noteq> Err e" if "set recs' \<subseteq> set recs" for es recs' e
    using that
  proof (induction recs' arbitrary: es)
    case (Cons r recs')
    have "index_record es (Ok r) \<noteq> Err e" for es e
      using small [of r] Cons.prems
      by (auto simp: index_record_def record_packet_def outcome_simps split: record_kind.split option.split_asm prod.split_asm)
    then show ?case using Cons by (auto simp: outcome_simps)
  qed simp
  from this [of recs "[]"] index_build_no_panic [of source l] assms(1,2) show ?thesis
    by (cases "for_each index_record [] (iter_items it)") (auto simp: index_build_def)
qed

text \<open>A sample: a big-endian capture with one packet of two bytes, taken from four.\<close>

lemma sample_written:
  obtains w w' it h r p where "pcap_writer_new vec_write [] Big True 1 64 limits_default = Ok w"
    "write_ops (pcap_emit vec_write) w [(\<lparr>ticks = 5, ts_resolution = Decimal 9, offset_seconds = 1\<rparr>, 4, [1, 2])] = (w', Ok ())"
    "length (pw_output w') = 42" "iter_new (pw_output w') limits_default Strict = Ok it" "iter_items it = map Ok [h, r]"
    "rec_kind h = LegacyHeader \<lparr>lh_endian = Big, lh_nanos = True, lh_snaplen = 64, lh_link_word = 1\<rparr>"
    "record_packet r = Ok (Some (p, [1, 2]))" "packet_time p = Some 1000000005" "pm_link_type p = 1"
proof -
  let ?ts = "\<lparr>ticks = 5, ts_resolution = Decimal 9, offset_seconds = 1\<rparr>"
  obtain w where w: "pcap_writer_new vec_write [] Big True 1 64 limits_default = Ok w"
    "w = \<lparr>pw_output = pcap_header Big True 1 64, pw_endian = Big, pw_nanos = True, pw_snaplen = 64,
          pw_limits = limits_default, pw_failed = False\<rparr>"
    by (simp add: pcap_writer_new_def vec_write_def)
  have ns: "unix_nanos ?ts = Ok 1000000005" by (simp add: unix_nanos_def in_i128_def)
  have "legacy_parts ?ts True = Ok (1, 5)" by (simp add: legacy_parts_def ns)
  then have ops: "write_ops (pcap_emit vec_write) w [(?ts, 4, [1, 2])]
      = (w\<lparr>pw_output := pw_output w @ packet_header Big 1 5 2 4 @ [1, 2]\<rparr>, Ok ())"
    using w(2) by (simp add: pcap_packet_def vec_write_def)
  let ?w' = "w\<lparr>pw_output := pw_output w @ packet_header Big 1 5 2 4 @ [1, 2]\<rparr>"
  have len: "length (pw_output ?w') = 42" using w(2) by (simp add: pcap_header_parts packet_header_parts)
  obtain it h r where it: "iter_new (pw_output ?w') limits_default Strict = Ok it" "iter_items it = map Ok [h, r]"
    "rec_kind h = LegacyHeader \<lparr>lh_endian = Big, lh_nanos = True, lh_snaplen = 64, lh_link_word = 1\<rparr>"
    "carries_packet 1 (?ts, 4, [1, 2]) r"
    using byte_sink.pcap_roundtrip_lemma [OF vec.byte_sink_axioms w(1) refl ops] len
    by (auto simp: usize_limit_def list_all2_Cons1 simp del: carries_packet.simps)
  obtain p where p: "record_packet r = Ok (Some (p, [1, 2]))" "packet_time p = Some 1000000005" "pm_link_type p = 1"
    using it(4) ns by (auto simp: packet_time_def)
  show ?thesis by (rule that [OF w(1) ops len it(1-3) p])
qed

theorem index_queries_are_exact_witness:
  "\<exists>w w' v. pcap_writer_new vec_write [] Big True 1 64 limits_default = Ok w
     \<and> write_ops (pcap_emit vec_write) w [(\<lparr>ticks = 5, ts_resolution = Decimal 9, offset_seconds = 1\<rparr>, 4, [1, 2])] = (w', Ok ())
     \<and> verified_build (pw_output w') limits_default = Ok v \<and> verified_packet v 1 = Ok [1, 2]
     \<and> time_range v 0 2000000000 = Ok \<lparr>tq_frames = [1], tq_unresolved_frames = []\<rparr>"
proof -
  obtain w w' it h r p where w: "pcap_writer_new vec_write [] Big True 1 64 limits_default = Ok w"
    and ops: "write_ops (pcap_emit vec_write) w [(\<lparr>ticks = 5, ts_resolution = Decimal 9, offset_seconds = 1\<rparr>, 4, [1, 2])] = (w', Ok ())"
    and len: "length (pw_output w') = 42" and it: "iter_new (pw_output w') limits_default Strict = Ok it" "iter_items it = map Ok [h, r]"
      "rec_kind h = LegacyHeader \<lparr>lh_endian = Big, lh_nanos = True, lh_snaplen = 64, lh_link_word = 1\<rparr>"
    and p: "record_packet r = Ok (Some (p, [1, 2]))" "packet_time p = Some 1000000005"
    by (rule sample_written) blast
  obtain v where v: "verified_build (pw_output w') limits_default = Ok v"
    using index_build_total [OF it(1,2)] len by (auto simp: verified_build_def)
  have ps: "packets_of [h, r] = [(p, [1, 2])]" using it(3) p(1) by (simp add: packets_of_def record_packet_def [of h])
  obtain it' recs where q: "iter_new (pw_output w') limits_default Strict = Ok it'" "iter_items it' = map Ok recs"
    "map (\<lambda>(p, _). pm_frame p) (packets_of recs) = [1..<Suc (length (packets_of recs))]"
    "\<forall>frame. if 1 \<le> frame \<and> frame \<le> length (packets_of recs)
         then verified_packet v frame = Ok (snd (packets_of recs ! (frame - 1)))
         else \<exists>detail. verified_packet v frame = Err (invalid_index detail)"
    "\<forall>a b. time_range v a b = (if a > b then Err (invalid_index ''inverted time range'')
         else Ok \<lparr>tq_frames = frames_between a b (map fst (packets_of recs)),
                  tq_unresolved_frames = frames_unresolved (map fst (packets_of recs))\<rparr>)"
    using index_queries_are_exact [OF v] len by (auto simp: usize_limit_def)
  have "map Ok recs = (map Ok [h, r] :: cap_record result list)" using q(1,2) it(1,2) by simp
  then have "recs = [h, r]" by (auto dest: map_injective simp: inj_def)
  with q(3-5) ps p(2) have "verified_packet v 1 = Ok [1, 2]"
    "time_range v 0 2000000000 = Ok \<lparr>tq_frames = [1], tq_unresolved_frames = []\<rparr>"
    by (auto simp: frames_between_def frames_unresolved_def)
  with w ops v show ?thesis by blast
qed

end
