(* ===== verification/Dnp3_Witness_Correct.thy ===== *)
theory Dnp3_Witness_Correct
  imports Dnp3_Witness Dnp3_Correct
begin

text \<open>
  What a verified witness establishes: the header fields are those of the fragment's bytes, and every link frame
  it names parses again to a user-data frame between the same addresses, in one direction and of one capture.
  Verification never panics, spends at most the configured work, and gives the same verdict whatever work was
  spent before, unless it runs into the limit.
\<close>

section \<open>Reasoning about metered computations\<close>

definition costs :: "limits \<Rightarrow> 'a metered \<Rightarrow> ('a \<Rightarrow> bool) \<Rightarrow> bool" where
  "costs l m P \<longleftrightarrow> (\<forall>work. work \<le> fst (m work) \<and> (fst (m work) = work \<or> fst (m work) \<le> max_correlation_checks l)
     \<and> yields (snd (m work)) P)"

lemma costs_free [simp]: "costs l (free r) P \<longleftrightarrow> yields r P"
  by (simp add: costs_def free_def)

lemma costs_charge_as [simp]: "costs l (charge_as label n l) P \<longleftrightarrow> (\<forall>work. work + n \<le> max_correlation_checks l \<and> work + n < usize_limit \<longrightarrow> P ())"
  by (auto simp: costs_def charge_as_def checked_add_def)

lemma costs_mono: "costs l m P \<Longrightarrow> (\<And>x. P x \<Longrightarrow> Q x) \<Longrightarrow> costs l m Q"
  unfolding costs_def by (blast intro: yields_mono)

lemma costs_then:
  assumes "costs l m P" and "\<And>x. P x \<Longrightarrow> costs l (f x) Q"
  shows "costs l (pay_then m f) Q"
  unfolding costs_def
proof
  fix work
  obtain w r where m: "m work = (w, r)" by fastforce
  have c: "work \<le> w" "w = work \<or> w \<le> max_correlation_checks l" "yields r P"
    using assms(1) m unfolding costs_def by (metis fst_conv, metis fst_conv, metis snd_conv)
  show "work \<le> fst (pay_then m f work) \<and> (fst (pay_then m f work) = work \<or> fst (pay_then m f work) \<le> max_correlation_checks l)
    \<and> yields (snd (pay_then m f work)) Q"
  proof (cases r)
    case (Ok x)
    then have "costs l (f x) Q" using c(3) assms(2) by simp
    then have "w \<le> fst (f x w)" "fst (f x w) = w \<or> fst (f x w) \<le> max_correlation_checks l" "yields (snd (f x w)) Q"
      unfolding costs_def by blast+
    then show ?thesis using c m Ok by (auto simp: pay_then_def)
  qed (use c m in \<open>auto simp: pay_then_def\<close>)
qed

lemma costs_charge_then: "costs l (f ()) Q \<Longrightarrow> costs l (pay_then (charge n l) f) Q"
  by (rule costs_then [where P = "\<lambda>_. True"]) (simp_all add: charge_def)

lemma costs_if: "(b \<Longrightarrow> costs l m P) \<Longrightarrow> (\<not> b \<Longrightarrow> costs l m' P) \<Longrightarrow> costs l (if b then m else m') P"
  by simp

lemma costs_free_then: "yields r P \<Longrightarrow> (\<And>x. r = Ok x \<Longrightarrow> P x \<Longrightarrow> costs l (f x) Q) \<Longrightarrow> costs l (pay_then (free r) f) Q"
  by (rule costs_then [where P = "\<lambda>x. r = Ok x \<and> P x"]) (auto simp: yields_iff)

lemma costs_each:
  assumes "P [] s" and "\<And>seen x rest s. xs = seen @ x # rest \<Longrightarrow> P seen s \<Longrightarrow> costs l (f s x) (P (seen @ [x]))"
  shows "costs l (pay_each f s xs) (P xs)"
proof -
  have "costs l (pay_each f s rest) (P xs)" if "xs = seen @ rest" "P seen s" for seen rest s
    using that
  proof (induction rest arbitrary: seen s)
    case (Cons x rest)
    have "costs l (f s x) (P (seen @ [x]))" using Cons.prems by (rule assms(2))
    then show ?case unfolding pay_each.simps
      by (rule costs_then) (rule Cons.IH, use Cons.prems(1) in simp_all)
  qed simp
  from this [of "[]" xs s] show ?thesis using assms(1) by simp
qed

lemma costs_no_panic: "costs l m P \<Longrightarrow> snd (m work) \<noteq> Panic"
  unfolding costs_def by (metis yields_iff)

lemma costs_Ok: "costs l m P \<Longrightarrow> m work = (work', Ok x) \<Longrightarrow> P x"
  unfolding costs_def by (metis snd_conv yields_OkD)

section \<open>Results do not depend on the counter\<close>

text \<open>
  The work already spent decides only whether a computation runs into its limit: two runs that both stay within it
  have the same result.
\<close>

definition limited :: "'a result \<Rightarrow> bool" where
  "limited r \<longleftrightarrow> (\<exists>e. r = Err e \<and> err_code e = LimitExceeded)"

definition steady :: "'a metered \<Rightarrow> bool" where
  "steady m \<longleftrightarrow> (\<forall>work work'. limited (snd (m work)) \<or> limited (snd (m work')) \<or> snd (m work) = snd (m work'))"

lemma steady_free: "steady (free r)"
  by (simp add: steady_def free_def)

lemma steady_charge: "steady (charge n l)"
  by (auto simp: steady_def charge_def charge_as_def limited_def error_limit_def error_new_def split: option.split)

lemma steady_then:
  assumes "steady m" and "\<And>x. steady (f x)"
  shows "steady (pay_then m f)"
  unfolding steady_def
proof (intro allI)
  fix work work'
  obtain w r where m: "m work = (w, r)" by fastforce
  obtain w' r' where m': "m work' = (w', r')" by fastforce
  have "limited r \<or> limited r' \<or> r = r'" using assms(1) m m' unfolding steady_def by (metis snd_conv)
  then show "limited (snd (pay_then m f work)) \<or> limited (snd (pay_then m f work'))
      \<or> snd (pay_then m f work) = snd (pay_then m f work')"
    using assms(2) m m' unfolding steady_def limited_def pay_then_def by (cases r) (auto split: outcome.splits)
qed

lemma steady_each: "(\<And>s x. steady (f s x)) \<Longrightarrow> steady (pay_each f s xs)"
  by (induction xs arbitrary: s) (auto intro: steady_free steady_then)

lemma steady_if: "steady m \<Longrightarrow> steady m' \<Longrightarrow> steady (if b then m else m')"
  by simp

lemma steady_prod: "(\<And>x y. steady (f x y)) \<Longrightarrow> steady (case p of (x, y) \<Rightarrow> f x y)"
  by (simp split: prod.split)

lemmas steady_rules = steady_free steady_charge steady_then steady_each steady_if steady_prod

section \<open>The witness of a fragment\<close>

lemma parse_link_start:
  assumes "ev_validate e"
  shows "yields (parse_link e 0 base) (\<lambda>(f, n). link_ok e 0 base f n)"
proof (cases "in_i64 base")
  case True
  then show ?thesis using parse_link_cases [OF assms, of 0 base] by (auto simp: yields_iff)
next
  case False
  then show ?thesis by (auto simp: parse_link_def i64_of_usize_def checked_add_i64_def yields_def Let_def split: option.split)
qed

definition header_ok :: "evidence \<Rightarrow> workflow_header \<Rightarrow> bool" where
  "header_ok raw h \<longleftrightarrow> ev_validate raw \<and> wh_length h \<in> {2, 4} \<and> wh_length h \<le> ev_len raw
     \<and> wh_control h = ev_data raw ! 0 \<and> wh_function h = ev_data raw ! 1"

lemma workflow_header_ok: "yields (workflow_header_of raw) (header_ok raw)"
  unfolding workflow_header_of_def Let_def
  by (auto simp: semantic_need_def checked_add_def index_at_def header_ok_def ev_len_def yields_bind)

lemma witness_class_ok [simp]: "witness_class f \<noteq> Panic"
  by (simp add: witness_class_def)

lemma witness_fields_ok:
  assumes "header_ok (af_raw fragment) h"
  shows "yields (witness_fields fragment h cls) (\<lambda>_. af_class fragment = cls \<and> af_sequence fragment = wh_sequence h
    \<and> af_function fragment = wh_function h \<and> af_frames fragment \<noteq> [] \<and> ev_validate (af_objects fragment))"
proof -
  have h: "ev_validate (af_raw fragment)" "wh_length h \<le> length (ev_data (af_raw fragment))" "wh_length h = 4 \<or> wh_length h = 2"
    using assms by (auto simp: header_ok_def ev_len_def)
  obtain e where "ev_slice (af_raw fragment) (wh_length h) (ev_len (af_raw fragment)) = Ok e" "ev_validate e"
    using ev_slice_ok [OF h(1,2)] by (auto simp: ev_len_def)
  then show ?thesis using h
    by (auto simp: witness_fields_def witness_iin_def yields_bind index_at_def)
qed

text \<open>What one link frame has to satisfy.\<close>

definition backed_by :: "dnp3_result \<Rightarrow> application_fragment \<Rightarrow> bytes \<Rightarrow> bool \<Rightarrow> nat \<Rightarrow> bool" where
  "backed_by result fragment capture direction index \<longleftrightarrow> index < length (dr_frames result)
     \<and> (let frame = dr_frames result ! index in
        (\<forall>p \<in> set (ev_packets (lf_raw frame)). pid_capture p = capture)
        \<and> (\<exists>data. ev_data (lf_raw frame) = encode_link (lf_control frame) (af_source fragment) (af_destination fragment) data
             \<and> data \<noteq> [])
        \<and> lc_primary (link_control_of (lf_control frame)) \<and> lc_function (link_control_of (lf_control frame)) \<in> {3, 4}
        \<and> lc_direction (link_control_of (lf_control frame)) = direction)"

definition witness_inv :: "dnp3_result \<Rightarrow> application_fragment \<Rightarrow> bytes \<Rightarrow> nat list \<Rightarrow> witness_state \<Rightarrow> bool" where
  "witness_inv result fragment capture seen s \<longleftrightarrow> ev_validate (ws_transport s)
     \<and> map lw_frame (ws_links s) = seen \<and> set (ws_indices s) = set seen \<and> distinct seen
     \<and> (\<forall>p \<in> set (ws_packets s). pid_capture p = capture) \<and> (seen \<noteq> [] \<longrightarrow> ws_packets s \<noteq> [])
     \<and> (case ws_direction s of None \<Rightarrow> seen = [] | Some d \<Rightarrow> \<forall>i \<in> set seen. backed_by result fragment capture d i)"

lemma witness_segment_ok:
  assumes "ev_validate user_data" "ev_data user_data = b" "b \<noteq> []" "ev_validate (ws_transport s)"
  shows "yields (witness_segment l user_data b b0 s) (\<lambda>s'. ev_validate (ws_transport s')
    \<and> ws_links s' = ws_links s \<and> ws_indices s' = ws_indices s \<and> ws_packets s' = ws_packets s \<and> ws_direction s' = ws_direction s)"
proof -
  obtain e where e: "ev_slice user_data 1 (length b) = Ok e" "ev_validate e"
    using ev_slice_ok [OF assms(1), of 1 "length b"] assms(2,3) by (auto simp: Suc_le_eq)
  have "yields (ev_append (ws_transport s) e (max_application_bytes l)) ev_validate"
    using ev_append_yields [OF assms(4) e(2)] by (rule yields_mono) simp
  then show ?thesis using e assms(4) by (auto simp: witness_segment_def Let_def yields_bind intro: yields_mono)
qed

lemma witness_link_ok:
  assumes "ev_validate (lf_raw parsed)" "10 \<le> ev_len (lf_raw parsed)" "ev_validate (lf_user_data parsed)" "0 < ev_len (lf_user_data parsed)"
  shows "yields (witness_link index parsed b0) (\<lambda>w. lw_frame w = index)"
  using ev_slice_ok [OF assms(1), of 0 10] ev_slice_ok [OF assms(3), of 0 1] assms
  by (auto simp: witness_link_def ev_len_def Suc_le_eq)

lemma link_frame_backed:
  assumes valid: "ev_validate (lf_raw frame)" and capture: "\<forall>sp \<in> set (ev_spans (lf_raw frame)). pid_capture (span_packet sp) = capture"
    and ok: "link_ok (lf_raw frame) 0 base parsed used" and same: "\<not> link_mismatch fragment frame parsed used direction"
    and index: "index < length (dr_frames result)" "frame = dr_frames result ! index"
  shows "backed_by result fragment capture (lc_direction (lf_link_control parsed)) index"
    and "0 < ev_len (lf_user_data parsed)" and "ev_validate (lf_user_data parsed)" and "ev_validate (lf_raw parsed)"
    and "10 \<le> ev_len (lf_raw parsed)" and "ev_packets (lf_raw parsed) \<noteq> []"
    and "\<forall>p \<in> set (ev_packets (lf_raw parsed)). pid_capture p = capture"
    and "\<forall>d. direction = Some d \<longrightarrow> d = lc_direction (lf_link_control parsed)"
proof -
  let ?data = "ev_data (lf_user_data parsed)"
  have m: "used = ev_len (lf_raw frame)" "lf_control frame = lf_control parsed" "lf_source parsed = af_source fragment"
    "lf_destination parsed = af_destination fragment" "lc_primary (lf_link_control parsed)" "lc_function (lf_link_control parsed) \<in> {3, 4}"
    "link_issue (lf_control parsed) (lf_source parsed) (lf_destination parsed) (ev_len (lf_user_data parsed)) = None"
    using same unfolding link_mismatch_def de_Morgan_disj not_not by - (elim conjE, assumption)+
  have d: "\<forall>d. direction = Some d \<longrightarrow> d = lc_direction (lf_link_control parsed)"
    using same unfolding link_mismatch_def de_Morgan_disj not_not by - (elim conjE, simp split: option.split_asm)
  have o: "used = dnp3_total (length ?data)" "take used (ev_data (lf_raw frame)) = encode_link (lf_control parsed) (lf_source parsed) (lf_destination parsed) ?data"
    "ev_validate (lf_user_data parsed)" "ev_validate (lf_raw parsed)" "ev_trace (lf_raw parsed) = sub_list (ev_trace (lf_raw frame)) 0 used"
    "lf_link_control parsed = link_control_of (lf_control parsed)"
    using ok unfolding link_ok_def Let_def by auto
  show data: "0 < ev_len (lf_user_data parsed)"
    using m(5-7) o(6) unfolding link_issue_def Let_def by (auto split: if_split_asm)
  have whole: "ev_trace (lf_raw parsed) = ev_trace (lf_raw frame)"
    using o(5) m(1) ev_trace_length [OF valid] by (simp add: sub_list_def ev_len_def)
  have ten: "10 \<le> length (ev_data (lf_raw frame))" using m(1) o(1) by (simp add: ev_len_def dnp3_total_blocks)
  have data_eq: "ev_data (lf_raw parsed) = ev_data (lf_raw frame)"
    using whole trace_data [OF valid] trace_data [OF o(4)] by metis
  show "10 \<le> ev_len (lf_raw parsed)" using ten data_eq by (simp add: ev_len_def)
  have labels: "ev_labels (lf_raw parsed) = ev_labels (lf_raw frame)"
    using whole data_eq length_ev_labels [OF valid] length_ev_labels [OF o(4)] unfolding ev_trace_def by (metis map_snd_zip)
  have packets: "set (ev_packets (lf_raw parsed)) = set (ev_packets (lf_raw frame))"
    by (simp add: ev_packets_labels [OF valid] ev_packets_labels [OF o(4)] labels)
  have "ev_labels (lf_raw frame) \<noteq> []" using ten length_ev_labels [OF valid] by auto
  then have "set (ev_packets (lf_raw frame)) \<noteq> {}" by (simp add: ev_packets_labels [OF valid])
  then show "ev_packets (lf_raw parsed) \<noteq> []" using packets by auto
  show "\<forall>p \<in> set (ev_packets (lf_raw parsed)). pid_capture p = capture"
    unfolding packets using capture by (auto simp: set_ev_packets)
  have "ev_data (lf_raw frame) = encode_link (lf_control frame) (af_source fragment) (af_destination fragment) ?data"
    using o(2) m(1-4) by (simp add: ev_len_def)
  moreover have "?data \<noteq> []" using data by (auto simp: ev_len_def)
  ultimately show "backed_by result fragment capture (lc_direction (lf_link_control parsed)) index"
    using capture m(2,5,6) o(6) index by (auto simp: backed_by_def Let_def set_ev_packets)
  show "ev_validate (lf_user_data parsed)" "ev_validate (lf_raw parsed)" by (fact o)+
  show "\<forall>d. direction = Some d \<longrightarrow> d = lc_direction (lf_link_control parsed)" by (fact d)
qed

lemma witness_frame_ok:
  assumes inv: "witness_inv result fragment capture seen s"
  shows "costs l (witness_frame result fragment l capture s index) (witness_inv result fragment capture (seen @ [index]))"
proof -
  have i: "ev_validate (ws_transport s)" "map lw_frame (ws_links s) = seen" "set (ws_indices s) = set seen" "distinct seen"
    "\<forall>p \<in> set (ws_packets s). pid_capture p = capture"
    "case ws_direction s of None \<Rightarrow> seen = [] | Some d \<Rightarrow> \<forall>i \<in> set seen. backed_by result fragment capture d i"
    using inv by (auto simp: witness_inv_def)
  show ?thesis unfolding witness_frame_def Let_def
  proof (intro costs_charge_then costs_if)
    let ?frame = "dr_frames result ! index"
    assume a: "\<not> index \<in> set (ws_indices s)" "\<not> length (dr_frames result) \<le> index"
      "\<not> (\<not> ev_validate (lf_raw ?frame) \<or> (\<exists>sp \<in> set (ev_spans (lf_raw ?frame)). pid_capture (span_packet sp) \<noteq> capture))"
    then have valid: "ev_validate (lf_raw ?frame)" and cap: "\<forall>sp \<in> set (ev_spans (lf_raw ?frame)). pid_capture (span_packet sp) = capture"
      and ix: "index < length (dr_frames result)" by auto
    show "costs l (pay_then (free (parse_link (lf_raw ?frame) 0 (lf_stream_offset ?frame))) (\<lambda>(parsed, used).
       if link_mismatch fragment ?frame parsed used (ws_direction s) then free (Err witness_mismatch)
       else free (and_then (index_at (ev_data (lf_user_data parsed)) 0) (\<lambda>b0.
         and_then (witness_segment l (lf_user_data parsed) (ev_data (lf_user_data parsed)) b0
           (s\<lparr>ws_direction := Some (lc_direction (lf_link_control parsed)), ws_indices := index # ws_indices s\<rparr>)) (\<lambda>s'.
         and_then (witness_link index parsed b0) (\<lambda>link.
           Ok (s'\<lparr>ws_packets := ws_packets s' @ ev_packets (lf_raw parsed), ws_links := ws_links s' @ [link]\<rparr>)))))))
       (witness_inv result fragment capture (seen @ [index]))"
    proof (rule costs_free_then [OF parse_link_start [OF valid]], clarify, intro costs_if)
      fix parsed used
      assume "link_ok (lf_raw ?frame) 0 (lf_stream_offset ?frame) parsed used" "\<not> link_mismatch fragment ?frame parsed used (ws_direction s)"
      note b = link_frame_backed [OF valid cap this ix refl]
      have ne: "ev_data (lf_user_data parsed) \<noteq> []" using b(2) by (auto simp: ev_len_def)
      have same: "\<forall>i \<in> set seen. backed_by result fragment capture (lc_direction (lf_link_control parsed)) i"
        using i(6) b(8) by (auto split: option.splits)
      show "costs l (free (and_then (index_at (ev_data (lf_user_data parsed)) 0) (\<lambda>b0.
         and_then (witness_segment l (lf_user_data parsed) (ev_data (lf_user_data parsed)) b0
           (s\<lparr>ws_direction := Some (lc_direction (lf_link_control parsed)), ws_indices := index # ws_indices s\<rparr>)) (\<lambda>s'.
         and_then (witness_link index parsed b0) (\<lambda>link.
           Ok (s'\<lparr>ws_packets := ws_packets s' @ ev_packets (lf_raw parsed), ws_links := ws_links s' @ [link]\<rparr>))))))
        (witness_inv result fragment capture (seen @ [index]))"
        unfolding costs_free
        by (rule yields_and_then [where P = "\<lambda>_. True"], use ne in \<open>simp add: index_at_def\<close>,
            rule yields_and_then [OF witness_segment_ok [OF b(3) refl ne]], use i(1) in simp,
            rule yields_and_then [OF witness_link_ok [OF b(4,5,3,2)]])
          (use i a(1) b(1,6,7) same in \<open>auto simp: witness_inv_def\<close>)
    qed simp
  qed simp_all
qed

text \<open>What a witness establishes about its fragment.\<close>

definition witnesses :: "dnp3_result \<Rightarrow> application_fragment \<Rightarrow> fragment_witness \<Rightarrow> bool" where
  "witnesses result fragment w \<longleftrightarrow>
     header_ok (af_raw fragment) (fw_header w) \<and> af_sequence fragment = wh_sequence (fw_header w)
     \<and> af_function fragment = wh_function (fw_header w) \<and> witness_class (wh_function (fw_header w)) = Ok (af_class fragment)
     \<and> fw_source w = af_source fragment \<and> fw_destination w = af_destination fragment
     \<and> address_kind (fw_source w) = ''individual'' \<and> address_kind (fw_destination w) = ''individual''
     \<and> af_frames fragment \<noteq> [] \<and> map lw_frame (fw_links w) = af_frames fragment \<and> distinct (af_frames fragment)
     \<and> fw_packets w \<noteq> [] \<and> ev_validate (af_objects fragment)
     \<and> (\<exists>capture. (\<forall>p \<in> set (fw_packets w). pid_capture p = capture)
          \<and> (\<forall>i \<in> set (af_frames fragment). backed_by result fragment capture (fw_link_direction w) i))"

lemma verified_fragment_ok: "costs l (verified_fragment_witness result fragment l) (witnesses result fragment)"
  unfolding verified_fragment_witness_def
proof (intro costs_charge_then costs_if, simp, rule costs_free_then [OF workflow_header_ok],
    rule costs_free_then [where P = "\<lambda>_. True"], simp add: yields_iff,
    rule costs_free_then [OF witness_fields_ok], assumption, intro costs_if, simp, simp)
  fix h cls and u :: unit
  let ?capture = "pid_capture (span_packet (hd (ev_spans (af_raw fragment))))"
  assume h: "header_ok (af_raw fragment) h" and cls: "witness_class (wh_function h) = Ok cls"
    and f: "af_class fragment = cls \<and> af_sequence fragment = wh_sequence h \<and> af_function fragment = wh_function h \<and> af_frames fragment \<noteq> []
      \<and> ev_validate (af_objects fragment)"
    and addr: "\<not> (address_kind (af_source fragment) \<noteq> ''individual'' \<or> address_kind (af_destination fragment) \<noteq> ''individual'')"
  have start: "witness_inv result fragment ?capture [] witness_start" by (simp add: witness_inv_def witness_start_def)
  have "costs l (pay_each (witness_frame result fragment l ?capture) witness_start (af_frames fragment))
     (witness_inv result fragment ?capture (af_frames fragment))"
    by (rule costs_each [where P = "witness_inv result fragment ?capture"]) (rule start, erule witness_frame_ok)
  then show "costs l (pay_then (pay_each (witness_frame result fragment l ?capture) witness_start (af_frames fragment)) (\<lambda>s.
     if \<not> ws_final_seen s \<or> ws_transport s \<noteq> af_raw fragment then free (Err witness_mismatch)
     else free (and_then (ok_or witness_mismatch (ws_direction s)) (\<lambda>direction.
       and_then (ev_slice (af_raw fragment) 0 (wh_length h)) (\<lambda>header_bytes.
         Ok \<lparr>fw_source = af_source fragment, fw_destination = af_destination fragment, fw_link_direction = direction,
             fw_header = h, fw_header_bytes = header_bytes, fw_packets = sort_dedup (ws_packets s),
             fw_links = ws_links s\<rparr>))))) (witnesses result fragment)"
  proof (rule costs_then)
    fix s
    assume "witness_inv result fragment ?capture (af_frames fragment) s"
    then have s: "map lw_frame (ws_links s) = af_frames fragment" "distinct (af_frames fragment)" "\<forall>p \<in> set (ws_packets s). pid_capture p = ?capture"
      "ws_packets s \<noteq> []" "\<forall>d. ws_direction s = Some d \<longrightarrow> (\<forall>i \<in> set (af_frames fragment). backed_by result fragment ?capture d i)"
      using f by (auto simp: witness_inv_def)
    obtain e where e: "ev_slice (af_raw fragment) 0 (wh_length h) = Ok e"
      using ev_slice_ok [of "af_raw fragment" 0 "wh_length h"] h by (auto simp: header_ok_def ev_len_def)
    have ne: "sort_dedup (ws_packets s) \<noteq> []" using s(4) set_sort_dedup by (metis set_empty)
    show "costs l (if \<not> ws_final_seen s \<or> ws_transport s \<noteq> af_raw fragment then free (Err witness_mismatch)
     else free (and_then (ok_or witness_mismatch (ws_direction s)) (\<lambda>direction.
       and_then (ev_slice (af_raw fragment) 0 (wh_length h)) (\<lambda>header_bytes.
         Ok \<lparr>fw_source = af_source fragment, fw_destination = af_destination fragment, fw_link_direction = direction,
             fw_header = h, fw_header_bytes = header_bytes, fw_packets = sort_dedup (ws_packets s),
             fw_links = ws_links s\<rparr>)))) (witnesses result fragment)"
      using h cls f addr s e ne by (auto simp: witnesses_def yields_bind)
  qed
qed

section \<open>The direction of a message\<close>

definition directed_fragment :: "dnp3_result \<Rightarrow> application_message \<Rightarrow> bool \<Rightarrow> bytes option \<Rightarrow> nat \<Rightarrow> bool" where
  "directed_fragment result m direction capture i \<longleftrightarrow> i < length (dr_fragments result)
     \<and> (let fragment = dr_fragments result ! i in
        af_source fragment = am_source m \<and> af_destination fragment = am_destination m
        \<and> af_function fragment = am_function m \<and> af_class fragment = am_class m
        \<and> (\<exists>w. witnesses result fragment w \<and> fw_link_direction w = direction
             \<and> (\<forall>p \<in> set (fw_packets w). Some (pid_capture p) = capture)))"

definition direction_inv :: "dnp3_result \<Rightarrow> application_message \<Rightarrow> bool \<Rightarrow> (nat \<times> nat) list \<Rightarrow> direction_state \<Rightarrow> bool" where
  "direction_inv result m direction seen s \<longleftrightarrow> ev_validate (vs_objects s)
     \<and> (\<forall>i \<in> snd ` set seen. directed_fragment result m direction (vs_capture s) i)
     \<and> (\<forall>p \<in> set (vs_packets s). Some (pid_capture p) = vs_capture s) \<and> (seen \<noteq> [] \<longrightarrow> vs_packets s \<noteq> [])
     \<and> (seen = [] \<longleftrightarrow> vs_capture s = None)"

lemma witness_capture:
  "witnesses result fragment w \<Longrightarrow> p \<in> set (fw_packets w) \<Longrightarrow> pid_capture p = pid_capture (hd (fw_packets w))"
  unfolding witnesses_def by (metis list.set_sel(1))

lemma direction_links_ok: "costs l (pay_each (direction_link l) frames links) (\<lambda>_. True)"
  by (rule costs_each [where P = "\<lambda>_ _. True"])
    (simp, unfold direction_link_def, rule costs_charge_then, simp)

lemma direction_fragment_ok:
  assumes inv: "direction_inv result m direction seen s"
  shows "costs l (direction_fragment result m l direction s x) (direction_inv result m direction (seen @ [x]))"
proof (cases x)
  case (Pair ordinal index)
  let ?fragment = "dr_fragments result ! index"
  show ?thesis unfolding direction_fragment_def Pair Let_def case_prod_conv
  proof (intro costs_charge_then costs_if, simp, simp, rule costs_then [OF verified_fragment_ok],
      rule costs_free_then [where P = "\<lambda>_. True"], goal_cases)
    case (1 w)
    then show ?case by (simp add: witnesses_def index_at_def)
  next
    case (2 w p)
    then have p: "p = hd (fw_packets w)" "fw_packets w \<noteq> []" by (auto simp: witnesses_def index_at_def hd_conv_nth split: if_split_asm)
    have objects: "ev_validate (af_objects ?fragment)" "ev_validate (vs_objects s)"
      using 2 inv by (auto simp: witnesses_def direction_inv_def)
    show ?case
    proof (intro costs_if, simp, rule costs_then [OF direction_links_ok],
        rule costs_free_then [OF ev_append_yields [OF objects(2,1)]], goal_cases)
      case (1 frames objs)
      have same: "vs_capture s = None \<or> vs_capture s = Some (pid_capture p)"
        using 1(1) unfolding de_Morgan_disj not_not by - (elim conjE, simp split: option.split_asm)
      have cap: "\<forall>q \<in> set (fw_packets w). pid_capture q = pid_capture p"
        using witness_capture [OF 2(3)] p(1) by simp
      have "directed_fragment result m direction (Some (pid_capture p)) index"
      proof -
        have "af_source ?fragment = am_source m" "af_destination ?fragment = am_destination m" "wh_function (fw_header w) = am_function m"
          "af_class ?fragment = am_class m" "fw_link_direction w = direction"
          using 1(1) unfolding de_Morgan_disj not_not by - (elim conjE, assumption)+
        moreover have "af_function ?fragment = wh_function (fw_header w)" using 2(3) by (simp add: witnesses_def)
        moreover have "index < length (dr_fragments result)" using 2(2) by simp
        ultimately show ?thesis using cap 2(3) unfolding directed_fragment_def Let_def by auto
      qed
      then show ?case
        using inv same cap p(2) 1(4) Pair unfolding direction_inv_def by auto
    qed
  qed
qed

definition directed :: "dnp3_result \<Rightarrow> application_message \<Rightarrow> bool \<Rightarrow> bool" where
  "directed result m direction \<longleftrightarrow> am_complete m \<and> am_fragments m \<noteq> [] \<and> am_packets m \<noteq> []
     \<and> direction = (am_class m = McRequest \<or> am_class m = McConfirm)
     \<and> address_kind (am_source m) = ''individual'' \<and> address_kind (am_destination m) = ''individual''
     \<and> (\<exists>capture. (\<forall>p \<in> set (am_packets m). pid_capture p = capture)
          \<and> (\<forall>i \<in> set (am_fragments m). directed_fragment result m direction (Some capture) i))"

lemma verified_message_ok: "costs l (verified_message_direction result m l) (directed result m)"
  unfolding verified_message_direction_def Let_def
proof (intro costs_if, simp, simp, simp, goal_cases)
  case 1
  let ?dir = "am_class m = McRequest \<or> am_class m = McConfirm" and ?xs = "enumerate 0 (am_fragments m)"
  let ?start = "\<lparr>vs_objects = evidence_default, vs_packets = [], vs_sequence = am_first_sequence m, vs_fragments = [],
    vs_frames = [], vs_capture = None\<rparr>"
  have "direction_inv result m ?dir [] ?start" by (simp add: direction_inv_def)
  then have "costs l (pay_each (direction_fragment result m l ?dir) ?start ?xs) (direction_inv result m ?dir ?xs)"
    by (rule costs_each [where P = "direction_inv result m ?dir"]) (erule direction_fragment_ok)
  then show ?case
  proof (rule costs_then, intro costs_charge_then)
    fix s
    assume inv: "direction_inv result m ?dir ?xs s"
    have ne: "am_fragments m \<noteq> []" "?xs \<noteq> []" using 1(1) by (auto simp: enumerate_eq_zip)
    have all: "snd ` set ?xs = set (am_fragments m)" by (metis set_map map_snd_enumerate)
    obtain capture where c: "vs_capture s = Some capture" using inv ne by (auto simp: direction_inv_def)
    have "directed result m ?dir" if "sort_dedup (vs_packets s) = am_packets m"
    proof -
      have p: "set (am_packets m) = set (vs_packets s)" unfolding that [symmetric] by simp
      have "vs_packets s \<noteq> []" "\<forall>p \<in> set (vs_packets s). pid_capture p = capture"
        "\<forall>i \<in> set (am_fragments m). directed_fragment result m ?dir (Some capture) i"
        using inv ne c unfolding direction_inv_def all by auto
      moreover have "am_packets m \<noteq> []" using p calculation(1) by auto
      ultimately show ?thesis using 1 ne(1) p unfolding directed_def by auto
    qed
    then show "costs l (free (if vs_objects s \<noteq> am_objects m \<or> sort_dedup (vs_packets s) \<noteq> am_packets m
       then Err pairing_mismatch else Ok ?dir)) (directed result m)" by simp
  qed
qed

text \<open>A message that verifies once never fails verification otherwise than by the work limit.\<close>

lemma verified_fragment_steady: "steady (verified_fragment_witness result fragment l)"
  unfolding verified_fragment_witness_def witness_frame_def Let_def by (intro steady_rules)

lemma verified_message_steady: "steady (verified_message_direction result m l)"
  unfolding verified_message_direction_def direction_fragment_def direction_link_def Let_def
  by (intro steady_rules verified_fragment_steady)

end
