(* ===== verification/Correlate_Correct.thy ===== *)
theory Correlate_Correct
  imports Correlate Dnp3_Witness_Correct Modbus_Correct "HOL-Library.Multiset"
begin

text \<open>
  Pairing is conservative: it never panics, every decoded message ends up in exactly one transaction, and a
  transaction is a candidate pair only if it has one request and one response that agree on capture, flow and
  identifiers, were captured in opposite directions (DNP3) or agree field by field (Modbus), and are the only
  request and the only response with these identifiers in the whole query.
\<close>

section \<open>Loops and ordered maps\<close>

lemma yields_for_each_seen:
  assumes "P [] s" and "\<And>seen x rest s. xs = seen @ x # rest \<Longrightarrow> P seen s \<Longrightarrow> yields (f s x) (P (seen @ [x]))"
  shows "yields (for_each f s xs) (P xs)"
proof -
  have "yields (for_each f s rest) (P xs)" if "xs = seen @ rest" "P seen s" for seen rest s
    using that
  proof (induction rest arbitrary: seen s)
    case (Cons x rest)
    have "yields (f s x) (P (seen @ [x]))" using Cons.prems by (rule assms(2))
    then show ?case unfolding for_each.simps
      by (rule yields_and_then) (rule Cons.IH, use Cons.prems(1) in simp_all)
  qed simp
  from this [of "[]" xs s] show ?thesis using assms(1) by simp
qed

definition bt_values :: "('v \<Rightarrow> 'a list) \<Rightarrow> ('k \<times> 'v) list \<Rightarrow> 'a list" where
  "bt_values f m = concat (map (\<lambda>(k, v). f v) m)"

lemma bt_values_put:
  "mset (bt_values f (bt_put k v m)) + mset (case bt_get m k of None \<Rightarrow> [] | Some w \<Rightarrow> f w)
     = mset (bt_values f m) + mset (f v)" if "bt_ordered m"
  using that by (induction k v m rule: bt_put.induct)
    (auto simp: bt_values_def bt_get_None_iff split: option.splits dest!: bt_get_set)

lemma bt_put_entries:
  assumes "bt_ordered m" "(k', v') \<in> set (bt_put k v m)"
  shows "k' = k \<and> v' = v \<or> k' \<noteq> k \<and> (k', v') \<in> set m"
  using assms bt_get_iff [OF assms(1)] bt_get_iff [OF bt_ordered_put [OF assms(1)]] bt_get_put
  by (metis option.inject)

section \<open>What the groups hold\<close>

definition tx_refs :: "transaction \<Rightarrow> message_ref list" where
  "tx_refs t = tx_requests t @ tx_responses t"

definition group_refs :: "pairing_group \<Rightarrow> message_ref list" where
  "group_refs g = gr_requests g @ gr_responses g"

definition app_refs :: "nat \<times> application_analysis \<Rightarrow> message_ref list" where
  "app_refs = (\<lambda>(ai, ap). case ap_data ap of
      AppDnp3 r \<Rightarrow> map (MessageRef ai) [0..<length (dr_messages r)]
    | AppModbus r \<Rightarrow> map (MessageRef ai) [0..<length (mr_messages r)]
    | AppFailed _ \<Rightarrow> [])"

definition all_refs :: "application_analysis list \<Rightarrow> message_ref list" where
  "all_refs applications = concat (map app_refs (enumerate 0 applications))"

text \<open>
  A reference belongs to a key as a request or as a response.  A DNP3 message does so if it is a response, or a
  request that expects one, of known capture direction and verifies against its link frames, a Modbus message if it is
  supported, its shape is valid and its role known; the key is made of protocol, capture, flow
  and the identifiers of the message.
\<close>

definition verifies :: "limits \<Rightarrow> dnp3_result \<Rightarrow> application_message \<Rightarrow> bool \<Rightarrow> bool" where
  "verifies l r m direction \<longleftrightarrow> (\<exists>work. snd (verified_message_direction r m l work) = Ok direction)"

fun dnp3_belongs :: "limits \<Rightarrow> application_analysis \<Rightarrow> dnp3_result \<Rightarrow> application_message \<Rightarrow> pairing_key \<Rightarrow> bool \<Rightarrow> bool" where
  "dnp3_belongs l ap r m (protocol, capture, flow, a, b, c, f) is_request \<longleftrightarrow> protocol = ''dnp3''
     \<and> ap_direction ap \<le> 1 \<and> ap_protocol ap = ''dnp3'' \<and> verifies l r m is_request \<and> \<not> dnp3_no_response m
     \<and> directed r m is_request \<and> am_class m = (if is_request then McRequest else McResponse)
     \<and> (a, b) = (if is_request then (am_source m, am_destination m) else (am_destination m, am_source m))
     \<and> c = ucast (am_first_sequence m) \<and> f = 0 \<and> (\<forall>p \<in> set (am_packets m). pid_capture p = capture)"

fun modbus_belongs :: "modbus_message \<Rightarrow> pairing_key \<Rightarrow> bool \<Rightarrow> bool" where
  "modbus_belongs m (protocol, capture, flow, a, b, c, f) is_request \<longleftrightarrow> protocol = ''modbus''
     \<and> mm_role m = (if is_request then RoleRequest else RoleResponse) \<and> mm_shape_valid m \<and> mm_supported m
     \<and> capture_scope (mm_raw m) = Some capture \<and> a = ucast (mm_unit m) \<and> b = 0 \<and> c = mm_transaction m \<and> f = mm_function m AND 0x7f"

definition key_flow :: "pairing_key \<Rightarrow> nat" where
  "key_flow = (\<lambda>(protocol, capture, flow, a, b, c, f). flow)"

definition belongs :: "limits \<Rightarrow> application_analysis list \<Rightarrow> pairing_key \<Rightarrow> bool \<Rightarrow> message_ref \<Rightarrow> bool" where
  "belongs l applications key is_request ref \<longleftrightarrow> mf_application ref < length applications
     \<and> (let ap = applications ! mf_application ref in ap_flow ap = key_flow key
        \<and> (case ap_data ap of
             AppDnp3 r \<Rightarrow> mf_message ref < length (dr_messages r) \<and> dnp3_belongs l ap r (dr_messages r ! mf_message ref) key is_request
           | AppModbus r \<Rightarrow> mf_message ref < length (mr_messages r) \<and> modbus_belongs (mr_messages r ! mf_message ref) key is_request
           | AppFailed _ \<Rightarrow> False))"

definition verified_boundary :: "application_analysis list \<Rightarrow> message_ref \<Rightarrow> bool" where
  "verified_boundary applications ref \<longleftrightarrow> (case ap_data (applications ! mf_application ref) of
      AppModbus r \<Rightarrow> mm_verified (mr_messages r ! mf_message ref) | _ \<Rightarrow> True)"

definition group_ok :: "limits \<Rightarrow> application_analysis list \<Rightarrow> pairing_key \<Rightarrow> pairing_group \<Rightarrow> bool" where
  "group_ok l applications key g \<longleftrightarrow> (\<forall>r \<in> set (gr_requests g). belongs l applications key True r)
     \<and> (\<forall>r \<in> set (gr_responses g). belongs l applications key False r)
     \<and> (\<not> gr_uncertain_boundary g \<longrightarrow> (\<forall>r \<in> set (group_refs g). verified_boundary applications r))"

definition pairing_inv :: "limits \<Rightarrow> application_analysis list \<Rightarrow> message_ref list \<Rightarrow> pairing_state \<Rightarrow> bool" where
  "pairing_inv l applications seen s \<longleftrightarrow> bt_ordered (ps_groups s)
     \<and> mset (concat (map tx_refs (ps_output s))) + mset (bt_values group_refs (ps_groups s)) = mset seen
     \<and> (\<forall>(key, g) \<in> set (ps_groups s). group_ok l applications key g)
     \<and> (\<forall>t \<in> set (ps_output s). tx_status t \<notin> {''candidate_pair'', ''candidate_unverified_boundary''})
     \<and> (\<forall>ref \<in> set seen. \<forall>key is_request. belongs l applications key is_request ref
          \<longrightarrow> ref \<in> set (group_refs (group_entry (ps_groups s) key)))"

lemma group_entry_ok:
  assumes "pairing_inv l applications seen s"
  shows "group_ok l applications key (group_entry (ps_groups s) key)"
proof (cases "bt_get (ps_groups s) key")
  case None
  then show ?thesis by (simp add: group_entry_def pairing_group_default_def group_ok_def group_refs_def)
next
  case (Some g)
  then show ?thesis using assms bt_get_set [OF Some] by (auto simp: group_entry_def pairing_inv_def)
qed

lemma group_add_simps [simp]:
  "gr_requests (group_add b r g) = (if b then gr_requests g @ [r] else gr_requests g)"
  "gr_responses (group_add b r g) = (if b then gr_responses g else gr_responses g @ [r])"
  "gr_uncertain_boundary (group_add b r g) = gr_uncertain_boundary g"
  by (simp_all add: group_add_def)

text \<open>Both ways of placing a message keep the invariant.\<close>

lemma pairing_single:
  assumes inv: "pairing_inv l applications seen s" and status: "status \<notin> {''candidate_pair'', ''candidate_unverified_boundary''}"
    and out: "\<And>key b. \<not> belongs l applications key b reference"
    and s': "ps_groups s' = ps_groups s" "ps_output s' = ps_output s @ [single protocol flow is_request reference status reason]"
  shows "pairing_inv l applications (seen @ [reference]) s'"
proof -
  have "tx_refs (single protocol flow is_request reference status reason) = [reference]"
    by (simp add: tx_refs_def single_def)
  moreover have "tx_status (single protocol flow is_request reference status reason) = status" by (simp add: single_def)
  ultimately show ?thesis using inv status out unfolding pairing_inv_def s' by auto
qed

lemma pairing_grouped:
  assumes inv: "pairing_inv l applications seen s" and b: "belongs l applications key is_request reference"
    and v: "\<not> uncertain \<Longrightarrow> verified_boundary applications reference"
    and g: "g = group_entry (ps_groups s) key" "g' = g\<lparr>gr_uncertain_boundary := (gr_uncertain_boundary g \<or> uncertain)\<rparr>"
    and own: "\<And>key' b'. belongs l applications key' b' reference \<Longrightarrow> key' = key"
    and s': "ps_groups s' = bt_put key (group_add is_request reference g') (ps_groups s)" "ps_output s' = ps_output s"
  shows "pairing_inv l applications (seen @ [reference]) s'"
proof -
  let ?m = "ps_groups s" and ?v = "group_add is_request reference g'"
  have ord: "bt_ordered ?m" using inv by (simp add: pairing_inv_def)
  have refs: "mset (group_refs ?v) = add_mset reference (mset (group_refs g))"
    using g(2) by (simp add: group_refs_def)
  have old: "mset (case bt_get ?m key of None \<Rightarrow> [] | Some w \<Rightarrow> group_refs w) = mset (group_refs g)"
    by (simp add: g(1) group_entry_def group_refs_def pairing_group_default_def split: option.split)
  have vals: "mset (bt_values group_refs (bt_put key ?v ?m)) = add_mset reference (mset (bt_values group_refs ?m))"
    using bt_values_put [OF ord, of group_refs key ?v] unfolding refs old by simp
  have ok: "group_ok l applications key ?v"
    using group_entry_ok [OF inv, of key] b v g by (auto simp: group_ok_def group_refs_def)
  have entry: "group_entry (bt_put key ?v ?m) k = (if k = key then ?v else group_entry ?m k)" for k
    by (simp add: group_entry_def bt_get_put)
  have sub: "set (group_refs g) \<subseteq> set (group_refs ?v)" "reference \<in> set (group_refs ?v)"
    using refs by (metis mset_subset_eqD mset_subset_eq_add_mset_cancel set_mset_mset subsetI union_single_eq_member insertCI set_mset_add_mset_insert)+
  show ?thesis unfolding pairing_inv_def s'
  proof (intro conjI)
    show "bt_ordered (bt_put key ?v ?m)" by (rule bt_ordered_put [OF ord])
    show "mset (concat (map tx_refs (ps_output s))) + mset (bt_values group_refs (bt_put key ?v ?m)) = mset (seen @ [reference])"
      using inv vals by (simp add: pairing_inv_def)
    show "\<forall>(k, g) \<in> set (bt_put key ?v ?m). group_ok l applications k g"
      using bt_put_entries [OF ord] ok inv unfolding pairing_inv_def by fast
    show "\<forall>t \<in> set (ps_output s). tx_status t \<notin> {''candidate_pair'', ''candidate_unverified_boundary''}"
      using inv by (simp add: pairing_inv_def)
    show "\<forall>ref \<in> set (seen @ [reference]). \<forall>k r. belongs l applications k r ref
        \<longrightarrow> ref \<in> set (group_refs (group_entry (bt_put key ?v ?m) k))"
    proof (intro ballI allI impI)
      fix ref k r
      assume r: "ref \<in> set (seen @ [reference])" "belongs l applications k r ref"
      have seen: "ref \<in> set (group_refs (group_entry ?m k))" if "ref \<in> set seen"
        using that inv r(2) unfolding pairing_inv_def by blast
      show "ref \<in> set (group_refs (group_entry (bt_put key ?v ?m) k))"
      proof (cases "ref = reference")
        case True
        then have "k = key" using own r(2) by blast
        then show ?thesis using True sub(2) by (simp add: entry)
      next
        case False
        then have "ref \<in> set (group_refs (group_entry ?m k))" using r(1) seen by auto
        then show ?thesis using sub(1) g(1) unfolding entry by auto
      qed
    qed
  qed
qed

section \<open>Placing the messages\<close>

lemma dnp3_unpaired_status: "fst (dnp3_unpaired m failure) \<notin> {''candidate_pair'', ''candidate_unverified_boundary''}"
  by (simp add: dnp3_unpaired_def split: option.split)

lemma count_message_ok: "yields (count_message l s) (\<lambda>s'. ps_groups s' = ps_groups s \<and> ps_output s' = ps_output s)"
  by (simp add: count_message_def)

lemma dnp3_verified_ok:
  "yields (dnp3_verified l ap result m work) (\<lambda>(failure, _).
     if failure = None
     then ap_direction ap \<le> 1 \<and> ap_protocol ap = ''dnp3'' \<and> (\<exists>direction. verifies l result m direction \<and> directed result m direction)
     else \<not> (am_complete m \<and> ap_direction ap \<le> 1 \<and> ap_protocol ap = ''dnp3'' \<and> (\<exists>direction. verifies l result m direction)))"
proof -
  obtain w r where v: "verified_message_direction result m l work = (w, r)" by fastforce
  have d: "yields r (directed result m)"
    using verified_message_ok [of l result m] v unfolding costs_def by (metis snd_conv)
  have agrees: "limited r \<or> r = Ok direction" if "verifies l result m direction" for direction
  proof -
    obtain work' where w: "snd (verified_message_direction result m l work') = Ok direction"
      using \<open>verifies l result m direction\<close> unfolding verifies_def by blast
    have "limited (snd (verified_message_direction result m l work)) \<or> limited (snd (verified_message_direction result m l work'))
        \<or> snd (verified_message_direction result m l work) = snd (verified_message_direction result m l work')"
      using verified_message_steady [of result m l] unfolding steady_def by (elim allE)
    then show ?thesis unfolding w v snd_conv by (auto simp: limited_def)
  qed
  show ?thesis
  proof (cases "am_complete m \<and> ap_direction ap \<le> 1 \<and> ap_protocol ap = ''dnp3''")
    case False
    then have "dnp3_verified l ap result m work
        = Ok (Some (error_new Truncated 0 ''dnp3_pairing_incomplete_or_direction_unknown'' ''not pairable''), work)"
      unfolding dnp3_verified_def if_not_P [OF False] by (simp add: error_new_def)
    then show ?thesis using False by auto
  next
    case True
    then have e: "dnp3_verified l ap result m work = (case (w, r) of (work', Ok _) \<Rightarrow> Ok (None, work')
      | (work', Err e) \<Rightarrow> if err_code e = LimitExceeded then Err (error_limit ''dnp3_correlation_work'') else Ok (Some e, work')
      | (work', Panic) \<Rightarrow> Panic)" by (simp add: dnp3_verified_def v)
    show ?thesis
    proof (cases r)
      case (Ok direction)
      have "verifies l result m direction" unfolding verifies_def by (rule exI [of _ work]) (simp add: v Ok)
      then show ?thesis using d True by (auto simp: e Ok)
    next
      case (Err x)
      then have "\<not> verifies l result m direction" if "err_code x \<noteq> LimitExceeded" for direction
        using agrees [of direction] that by (auto simp: limited_def)
      then show ?thesis by (simp add: e Err)
    qed (use d in simp)
  qed
qed

lemma directed_capture:
  assumes "directed r m direction"
  obtains capture p ps where "am_packets m = p # ps" "\<forall>p \<in> set (am_packets m). pid_capture p = capture"
  using assms unfolding directed_def by (metis neq_Nil_conv)

lemma dnp3_key:
  assumes "dnp3_belongs l ap r m key b" "dnp3_belongs l ap r m key' b'" "key_flow key = key_flow key'"
  shows "key = key'" "b = b'"
proof -
  have "am_packets m \<noteq> []" using assms(1) by (cases key) (auto simp: directed_def)
  then show "key = key'" "b = b'"
    using assms by (cases key; cases key'; cases "am_packets m"; auto simp: key_flow_def split: if_splits)+
qed

lemma pair_dnp3_ok:
  assumes inv: "pairing_inv l applications seen s" and ai: "ai < length applications" "applications ! ai = ap" "ap_data ap = AppDnp3 result"
    and m: "mi < length (dr_messages result)" "dr_messages result ! mi = m"
  shows "yields (pair_dnp3 l ai ap result s (mi, m)) (pairing_inv l applications (seen @ [MessageRef ai mi]))"
  unfolding pair_dnp3_def case_prod_conv Let_def
proof (rule yields_and_then [OF count_message_ok], rule yields_and_then [OF dnp3_verified_ok], clarsimp split del: if_split, goal_cases)
  case (1 s1 failure work)
  have b: "belongs l applications key b (MessageRef ai mi) \<longleftrightarrow> ap_flow ap = key_flow key \<and> dnp3_belongs l ap result m key b" for key b
    using ai m by (simp add: belongs_def)
  show ?case
  proof (cases "\<not> am_complete m \<or> failure \<noteq> None \<or> dnp3_no_response m \<or> am_class m \<notin> {McRequest, McResponse}")
    case True
    obtain status reason where st: "dnp3_unpaired m failure = (status, reason)" by fastforce
    have out: "\<not> belongs l applications key b (MessageRef ai mi)" for key b
      unfolding b using True 1 by (cases key) (auto simp: directed_def split: if_splits)
    show ?thesis
      using True st dnp3_unpaired_status [of m failure]
      by (auto intro!: pairing_single [OF inv _ out, where reason = reason and status = status] simp: 1)
  next
    case False
    then obtain direction where d: "verifies l result m direction" "directed result m direction" "ap_direction ap \<le> 1" "ap_protocol ap = ''dnp3''"
      using 1 by auto
    have req: "direction = (am_class m = McRequest)" using d(2) False by (auto simp: directed_def)
    obtain capture p ps where p: "am_packets m = p # ps" "\<forall>p \<in> set (am_packets m). pid_capture p = capture"
      using directed_capture [OF d(2)] .
    let ?key = "(''dnp3'', pid_capture p, ap_flow ap,
        (if am_class m = McRequest then am_source m else am_destination m),
        (if am_class m = McRequest then am_destination m else am_source m), ucast (am_first_sequence m) :: u16, 0 :: u8)"
    have own: "dnp3_belongs l ap result m ?key (am_class m = McRequest)"
      using d req p False by auto
    have k: "belongs l applications ?key (am_class m = McRequest) (MessageRef ai mi)"
      unfolding b using own by (simp add: key_flow_def)
    have uniq: "key = ?key" if "belongs l applications key b' (MessageRef ai mi)" for key b'
    proof (rule dnp3_key(1) [OF _ own])
      show "dnp3_belongs l ap result m key b'" using that by (simp add: b)
      show "key_flow key = key_flow ?key" using that by (simp add: b) (simp add: key_flow_def)
    qed
    show ?thesis
      using False p(1)
      by (auto simp: index_at_def 1 verified_boundary_def ai
          intro!: pairing_grouped [OF inv k, where uncertain = False and g = "group_entry (ps_groups s) ?key" and g' = "group_entry (ps_groups s) ?key"]
          dest: uniq)
  qed
qed

lemma modbus_key:
  assumes "modbus_belongs m key b" "modbus_belongs m key' b'" "key_flow key = key_flow key'"
  shows "key = key'" "b = b'"
  using assms by (cases key; cases key'; auto simp: key_flow_def split: if_splits)+

lemma pair_modbus_ok:
  assumes inv: "pairing_inv l applications seen s" and ai: "ai < length applications" "applications ! ai = ap" "ap_data ap = AppModbus result"
    and m: "mi < length (mr_messages result)" "mr_messages result ! mi = m"
  shows "yields (pair_modbus l ai ap s (mi, m)) (pairing_inv l applications (seen @ [MessageRef ai mi]))"
  unfolding pair_modbus_def case_prod_conv Let_def
proof (rule yields_and_then [OF count_message_ok], rule yields_and_then [where P = "\<lambda>_. True"], simp, goal_cases)
  case (1 s1 work)
  have b: "belongs l applications key b (MessageRef ai mi) \<longleftrightarrow> ap_flow ap = key_flow key \<and> modbus_belongs m key b" for key b
    using ai m by (simp add: belongs_def)
  let ?scope = "if \<not> mm_shape_valid m \<or> \<not> mm_supported m \<or> mm_role m = RoleUnknown then None else capture_scope (mm_raw m)"
  show ?case
  proof (cases ?scope)
    case None
    have out: "\<not> belongs l applications key b (MessageRef ai mi)" for key b
      unfolding b using None by (cases key) (auto split: if_split_asm)
    show ?thesis unfolding None option.case yields_simps
      by (rule pairing_single [OF inv, where status = "''unclassified''"]) (use out 1 in auto)
  next
    case (Some capture)
    let ?key = "(''modbus'', capture, ap_flow ap, ucast (mm_unit m) :: u16, 0 :: u16, mm_transaction m, mm_function m AND 0x7f)"
    have s: "mm_shape_valid m" "mm_supported m" "mm_role m \<noteq> RoleUnknown" "capture_scope (mm_raw m) = Some capture"
      using Some by (auto split: if_split_asm)
    have own: "modbus_belongs m ?key (mm_role m = RoleRequest)"
      using s by (cases "mm_role m") auto
    have k: "belongs l applications ?key (mm_role m = RoleRequest) (MessageRef ai mi)"
      unfolding b using own by (simp add: key_flow_def)
    have uniq: "key = ?key" if "belongs l applications key b' (MessageRef ai mi)" for key b'
    proof (rule modbus_key(1) [OF _ own])
      show "modbus_belongs m key b'" using that by (simp add: b)
      show "key_flow key = key_flow ?key" using that by (simp add: b) (simp add: key_flow_def)
    qed
    show ?thesis unfolding Some option.case yields_simps
      by (rule pairing_grouped [OF inv k, where uncertain = "\<not> mm_verified m" and g = "group_entry (ps_groups s) ?key"])
        (use ai m uniq 1 in \<open>auto simp: verified_boundary_def\<close>)
  qed
qed

lemma pair_application_ok:
  assumes inv: "pairing_inv l applications seen s" and ai: "ai < length applications" "applications ! ai = ap"
  shows "yields (pair_application l s (ai, ap)) (pairing_inv l applications (seen @ app_refs (ai, ap)))"
proof -
  have each: "yields (for_each f s (enumerate 0 ms)) (pairing_inv l applications (seen @ map (MessageRef ai) [0..<length ms]))"
    if step: "\<And>seen s mi m. pairing_inv l applications seen s \<Longrightarrow> mi < length ms \<Longrightarrow> ms ! mi = m
        \<Longrightarrow> yields (f s (mi, m)) (pairing_inv l applications (seen @ [MessageRef ai mi]))"
    for f and ms :: "'m list"
  proof -
    have "yields (for_each f s (enumerate 0 ms)) (\<lambda>s'. pairing_inv l applications (seen @ map (\<lambda>x. MessageRef ai (fst x)) (enumerate 0 ms)) s')"
    proof (rule yields_for_each_seen [where P = "\<lambda>d s'. pairing_inv l applications (seen @ map (\<lambda>x. MessageRef ai (fst x)) d) s'"])
      show "pairing_inv l applications (seen @ map (\<lambda>x. MessageRef ai (fst x)) []) s" using inv by simp
      fix d x rest t
      assume e: "enumerate 0 ms = d @ x # rest" and t: "pairing_inv l applications (seen @ map (\<lambda>x. MessageRef ai (fst x)) d) t"
      have n: "length d < length ms" using arg_cong [OF e, of length] by simp
      have "x = enumerate 0 ms ! length d" by (simp add: e)
      then have "x = (length d, ms ! length d)" using n by (simp add: nth_enumerate_eq)
      then show "yields (f t x) (pairing_inv l applications (seen @ map (\<lambda>x. MessageRef ai (fst x)) (d @ [x])))"
        using step [OF t n refl] by simp
    qed
    moreover have "map (\<lambda>x. MessageRef ai (fst x)) (enumerate 0 ms) = map (MessageRef ai) [0..<length ms]"
      by (simp add: enumerate_eq_zip flip: map_map [of "MessageRef ai" fst, unfolded comp_def])
    ultimately show ?thesis by simp
  qed
  show ?thesis
  proof (cases "ap_data ap")
    case (AppDnp3 r)
    then show ?thesis
      using each [of "dr_messages r" "pair_dnp3 l ai ap r"] pair_dnp3_ok [OF _ ai AppDnp3]
      by (simp add: pair_application_def app_refs_def)
  next
    case (AppModbus r)
    then show ?thesis
      using each [of "mr_messages r" "pair_modbus l ai ap"] pair_modbus_ok [OF _ ai AppModbus]
      by (simp add: pair_application_def app_refs_def)
  qed (use inv in \<open>simp add: pair_application_def app_refs_def\<close>)
qed

section \<open>Concluding the groups\<close>

text \<open>
  What a candidate pair promises: both messages are of one flow, and for DNP3 they are verified messages of one
  capture, of opposite directions, with exchanged addresses and the same sequence number; for Modbus their
  boundaries are verified and the response answers the request.
\<close>

definition fits :: "application_analysis list \<Rightarrow> message_ref \<Rightarrow> message_ref \<Rightarrow> bool" where
  "fits applications q r \<longleftrightarrow>
     (let a = applications ! mf_application q; b = applications ! mf_application r in
      mf_application q < length applications \<and> mf_application r < length applications \<and> ap_flow a = ap_flow b
      \<and> (case (ap_data a, ap_data b) of
           (AppDnp3 x, AppDnp3 y) \<Rightarrow> mf_message q < length (dr_messages x) \<and> mf_message r < length (dr_messages y)
             \<and> ap_direction a \<noteq> ap_direction b
             \<and> (let m = dr_messages x ! mf_message q; n = dr_messages y ! mf_message r in
                directed x m True \<and> directed y n False \<and> am_class m = McRequest \<and> am_class n = McResponse
                \<and> am_source m = am_destination n \<and> am_destination m = am_source n \<and> am_first_sequence m = am_first_sequence n
                \<and> (\<exists>capture. \<forall>p \<in> set (am_packets m) \<union> set (am_packets n). pid_capture p = capture))
         | (AppModbus x, AppModbus y) \<Rightarrow> mf_message q < length (mr_messages x) \<and> mf_message r < length (mr_messages y)
             \<and> (let m = mr_messages x ! mf_message q; n = mr_messages y ! mf_message r in
                mm_verified m \<and> mm_verified n \<and> response_matches m n = Ok True
                \<and> capture_scope (mm_raw m) \<noteq> None \<and> capture_scope (mm_raw m) = capture_scope (mm_raw n))
         | _ \<Rightarrow> False))"

text \<open>
  The messages of a candidate pair are alone with their identifiers: under the key of the pair, the request is the
  only request of the query and the response the only response.
\<close>

definition sole :: "limits \<Rightarrow> application_analysis list \<Rightarrow> message_ref \<Rightarrow> message_ref \<Rightarrow> bool" where
  "sole l applications q r \<longleftrightarrow> (\<exists>key. belongs l applications key True q \<and> belongs l applications key False r
     \<and> (\<forall>is_request ref. belongs l applications key is_request ref \<longrightarrow> ref = (if is_request then q else r)))"

lemma belongs_role:
  assumes "belongs l applications key b ref" "belongs l applications key b' ref"
  shows "b = b'"
proof (cases "ap_data (applications ! mf_application ref)")
  case (AppDnp3 r)
  show ?thesis
    by (rule dnp3_key(2) [of l "applications ! mf_application ref" r "dr_messages r ! mf_message ref" key _ key])
      (use assms AppDnp3 in \<open>simp_all add: belongs_def Let_def\<close>)
next
  case (AppModbus r)
  show ?thesis
    by (rule modbus_key(2) [of "mr_messages r ! mf_message ref" key _ key])
      (use assms AppModbus in \<open>simp_all add: belongs_def Let_def\<close>)
qed (use assms in \<open>simp add: belongs_def Let_def\<close>)

lemma belongs_protocol:
  assumes "belongs l applications key b ref"
  shows "(\<exists>x. ap_data (applications ! mf_application ref) = AppDnp3 x) \<and> fst key = ''dnp3''
    \<or> (\<exists>x. ap_data (applications ! mf_application ref) = AppModbus x) \<and> fst key = ''modbus''"
  using assms by (cases key) (auto simp: belongs_def Let_def split: application_data.splits)

lemma ucast_u8_u16_inj: "(ucast (a :: u8) :: u16) = ucast b \<Longrightarrow> a = b"
proof -
  assume "(ucast a :: u16) = ucast b"
  then have "unat (ucast a :: u16) = unat (ucast b :: u16)" by simp
  moreover have "unat (ucast x :: u16) = unat x" for x :: u8
    using unsigned_less [where w = x and 'a = nat] by (simp add: unsigned_ucast_eq take_bit_nat_eq_self_iff)
  ultimately show ?thesis by (simp add: word_unat_eq_iff)
qed

lemma belongs_fits:
  assumes q: "belongs l applications key True q" and r: "belongs l applications key False r"
    and modbus: "\<And>x y. ap_data (applications ! mf_application q) = AppModbus x \<Longrightarrow> ap_data (applications ! mf_application r) = AppModbus y
      \<Longrightarrow> response_matches (mr_messages x ! mf_message q) (mr_messages y ! mf_message r) = Ok True"
    and dnp3: "fst key = ''dnp3'' \<Longrightarrow> ap_direction (applications ! mf_application q) \<noteq> ap_direction (applications ! mf_application r)"
    and v: "verified_boundary applications q" "verified_boundary applications r"
  shows "fits applications q r"
proof -
  obtain protocol capture flow a b c f where key: "key = (protocol, capture, flow, a, b, c, f)" by (cases key) auto
  have common: "mf_application q < length applications" "mf_application r < length applications"
    "ap_flow (applications ! mf_application q) = ap_flow (applications ! mf_application r)"
    using q r by (auto simp: belongs_def Let_def)
  from belongs_protocol [OF q] belongs_protocol [OF r] key
  consider x y where "ap_data (applications ! mf_application q) = AppDnp3 x" "ap_data (applications ! mf_application r) = AppDnp3 y" "protocol = ''dnp3''"
    | x y where "ap_data (applications ! mf_application q) = AppModbus x" "ap_data (applications ! mf_application r) = AppModbus y"
    by auto
  then show ?thesis
  proof cases
    case (1 x y)
    then show ?thesis
      using q r common dnp3 key unfolding belongs_def fits_def Let_def by (auto dest: ucast_u8_u16_inj)
  next
    case (2 x y)
    then show ?thesis
      using q r common modbus [OF 2] v key unfolding belongs_def fits_def Let_def verified_boundary_def by auto
  qed
qed

definition concluded :: "application_analysis list \<Rightarrow> (pairing_key \<times> pairing_group) list \<Rightarrow> transaction \<Rightarrow> bool" where
  "concluded applications groups t \<longleftrightarrow> (tx_status t = ''candidate_pair'' \<longrightarrow>
     (\<exists>key g q r. (key, g) \<in> set groups \<and> gr_requests g = [q] \<and> gr_responses g = [r]
        \<and> tx_requests t = [q] \<and> tx_responses t = [r] \<and> fits applications q r))"

lemma group_verdicts_ok:
  assumes ok: "group_ok l applications key g" and protocol: "protocol = fst key"
  shows "yields (group_inconsistent applications protocol g) (\<lambda>inconsistent.
      \<not> inconsistent \<longrightarrow> (\<forall>q r x y. gr_requests g = [q] \<and> gr_responses g = [r]
        \<and> ap_data (applications ! mf_application q) = AppModbus x \<and> ap_data (applications ! mf_application r) = AppModbus y
        \<longrightarrow> response_matches (mr_messages x ! mf_message q) (mr_messages y ! mf_message r) = Ok True))"
    and "yields (group_same_direction applications protocol g) (\<lambda>same. \<not> same \<longrightarrow> (\<forall>q r. gr_requests g = [q] \<and> gr_responses g = [r]
        \<and> protocol = ''dnp3'' \<longrightarrow> ap_direction (applications ! mf_application q) \<noteq> ap_direction (applications ! mf_application r)))"
proof -
  have b: "belongs l applications key True q" "belongs l applications key False r" if "gr_requests g = [q]" "gr_responses g = [r]" for q r
    using ok that by (auto simp: group_ok_def)
  have app: "index_at applications (mf_application q) = (Ok (applications ! mf_application q) :: application_analysis result)" if "belongs l applications key x q" for x q
    using that by (auto simp: belongs_def index_at_def)
  have msg: "index_at (mr_messages x) (mf_message q) = (Ok (mr_messages x ! mf_message q) :: modbus_message result)"
    if "belongs l applications key d q" "ap_data (applications ! mf_application q) = AppModbus x" for d q x
    using that by (auto simp: belongs_def index_at_def Let_def)
  have total: "\<exists>d. response_matches m n = Ok d" for m n
    using response_matches_decided [of m n] by (auto simp: decided_def)
  show "yields (group_inconsistent applications protocol g) (\<lambda>inconsistent.
      \<not> inconsistent \<longrightarrow> (\<forall>q r x y. gr_requests g = [q] \<and> gr_responses g = [r]
        \<and> ap_data (applications ! mf_application q) = AppModbus x \<and> ap_data (applications ! mf_application r) = AppModbus y
        \<longrightarrow> response_matches (mr_messages x ! mf_message q) (mr_messages y ! mf_message r) = Ok True))"
  proof (cases "\<exists>q r. gr_requests g = [q] \<and> gr_responses g = [r] \<and> protocol = ''modbus''")
    case True
    then obtain q r where g: "gr_requests g = [q]" "gr_responses g = [r]" "protocol = ''modbus''" by blast
    obtain x y where d: "ap_data (applications ! mf_application q) = AppModbus x" "ap_data (applications ! mf_application r) = AppModbus y"
      using belongs_protocol [OF b(1) [OF g(1,2)]] belongs_protocol [OF b(2) [OF g(1,2)]] g(3) protocol by auto
    obtain ok where "response_matches (mr_messages x ! mf_message q) (mr_messages y ! mf_message r) = Ok ok" using total by blast
    then show ?thesis
      using g d app [OF b(1) [OF g(1,2)]] app [OF b(2) [OF g(1,2)]] msg [OF b(1) [OF g(1,2)] d(1)] msg [OF b(2) [OF g(1,2)] d(2)]
      by (simp add: group_inconsistent_def)
  next
    case False
    have "fst key = ''modbus''" if "gr_requests g = [q]" "gr_responses g = [r]" "ap_data (applications ! mf_application q) = AppModbus x" for q r x
      using belongs_protocol [OF b(1) [OF that(1,2)]] that(3) by auto
    then show ?thesis using False protocol
      by (auto simp: group_inconsistent_def split: list.split)
  qed
  show "yields (group_same_direction applications protocol g) (\<lambda>same. \<not> same \<longrightarrow> (\<forall>q r. gr_requests g = [q] \<and> gr_responses g = [r]
        \<and> protocol = ''dnp3'' \<longrightarrow> ap_direction (applications ! mf_application q) \<noteq> ap_direction (applications ! mf_application r)))"
  proof (cases "\<exists>q r. gr_requests g = [q] \<and> gr_responses g = [r]")
    case True
    then obtain q r where g: "gr_requests g = [q]" "gr_responses g = [r]" by blast
    then show ?thesis
      using app [OF b(1) [OF g]] app [OF b(2) [OF g]] by (simp add: group_same_direction_def)
  qed (auto simp: group_same_direction_def split: list.split)
qed

lemma conclude_group_ok:
  assumes ok: "group_ok l applications key g" and out: "\<forall>t \<in> set output. concluded applications groups t" and mem: "(key, g) \<in> set groups"
  shows "yields (conclude_group applications output (key, g)) (\<lambda>output'. (\<forall>t \<in> set output'. concluded applications groups t)
    \<and> mset (concat (map tx_refs output')) = mset (concat (map tx_refs output)) + mset (group_refs g))"
proof -
  obtain protocol capture flow rest where key: "key = (protocol, capture, flow, rest)" by (cases key) auto
  show ?thesis unfolding conclude_group_def key case_prod_conv Let_def
  proof (rule yields_and_then [OF group_verdicts_ok(1) [OF ok]], simp add: key,
      rule yields_and_then [OF group_verdicts_ok(2) [OF ok]], simp add: key, goal_cases)
    case (1 inconsistent same)
    let ?v = "group_status (length (gr_requests g)) (length (gr_responses g)) same inconsistent (gr_uncertain_boundary g)"
    let ?t = "\<lparr>tx_protocol = protocol, tx_flow = flow, tx_requests = gr_requests g, tx_responses = gr_responses g,
       tx_status = fst ?v, tx_reason = snd ?v\<rparr>"
    have "concluded applications groups ?t"
      unfolding concluded_def
    proof
      assume "tx_status ?t = ''candidate_pair''"
      then have c: "length (gr_requests g) = 1" "length (gr_responses g) = 1" "\<not> same" "\<not> inconsistent" "\<not> gr_uncertain_boundary g"
        by (auto simp: group_status_def split: if_split_asm)
      then obtain q r where g: "gr_requests g = [q]" "gr_responses g = [r]" by (auto simp: length_Suc_conv)
      have "fits applications q r"
      proof (rule belongs_fits [where key = key])
        show "belongs l applications key True q" "belongs l applications key False r" using ok g by (auto simp: group_ok_def)
        show "verified_boundary applications q" "verified_boundary applications r"
          using ok g c(5) by (auto simp: group_ok_def group_refs_def)
      qed (use 1 c(3,4) g key in auto)
      then show "\<exists>key g q r. (key, g) \<in> set groups \<and> gr_requests g = [q] \<and> gr_responses g = [r]
        \<and> tx_requests ?t = [q] \<and> tx_responses ?t = [r] \<and> fits applications q r"
        using mem g by (intro exI [of _ key] exI [of _ g] exI [of _ q] exI [of _ r]) simp
    qed
    then show ?case using out by (simp add: case_prod_unfold tx_refs_def group_refs_def)
  qed
qed

lemma all_refs_belong: "belongs l applications key b ref \<Longrightarrow> ref \<in> set (all_refs applications)"
proof -
  assume b: "belongs l applications key b ref"
  then have "(mf_application ref, applications ! mf_application ref) \<in> set (enumerate 0 applications)"
    by (auto simp: in_set_enumerate_eq belongs_def)
  moreover have "ref \<in> set (app_refs (mf_application ref, applications ! mf_application ref))"
    using b by (cases ref) (auto simp: belongs_def app_refs_def Let_def split: application_data.splits)
  ultimately show ?thesis by (force simp: all_refs_def)
qed

lemma transactions_ok:
  "yields (transactions applications l) (\<lambda>out. mset (concat (map tx_refs out)) = mset (all_refs applications)
     \<and> (\<forall>t \<in> set out. tx_status t = ''candidate_pair'' \<longrightarrow>
          (\<exists>q r. tx_requests t = [q] \<and> tx_responses t = [r] \<and> fits applications q r \<and> sole l applications q r)))"
proof -
  let ?apps = "enumerate 0 applications"
  let ?start = "\<lparr>ps_groups = [], ps_output = [], ps_count = 0, ps_work = 0\<rparr>"
  have pairing: "yields (for_each (pair_application l) ?start ?apps) (\<lambda>s. pairing_inv l applications (concat (map app_refs ?apps)) s)"
  proof (rule yields_for_each_seen [where P = "\<lambda>d. pairing_inv l applications (concat (map app_refs d))"])
    show "pairing_inv l applications (concat (map app_refs [])) ?start" by (simp add: pairing_inv_def bt_values_def)
    fix d x rest s
    assume e: "?apps = d @ x # rest" and inv: "pairing_inv l applications (concat (map app_refs d)) s"
    have n: "length d < length applications" using arg_cong [OF e, of length] by simp
    have "x = ?apps ! length d" by (simp add: e)
    then have "x = (length d, applications ! length d)" using n by (simp add: nth_enumerate_eq)
    then show "yields (pair_application l s x) (pairing_inv l applications (concat (map app_refs (d @ [x]))))"
      using pair_application_ok [OF inv n refl] by simp
  qed
  show ?thesis unfolding transactions_def
  proof (rule yields_and_then [OF pairing])
    fix s
    assume inv: "pairing_inv l applications (concat (map app_refs ?apps)) s"
    let ?P = "\<lambda>d out. (\<forall>t \<in> set out. concluded applications (ps_groups s) t)
      \<and> mset (concat (map tx_refs out)) = mset (concat (map tx_refs (ps_output s))) + mset (bt_values group_refs d)"
    have "yields (for_each (conclude_group applications) (ps_output s) (ps_groups s)) (?P (ps_groups s))"
    proof (rule yields_for_each_seen [where P = ?P])
      show "?P [] (ps_output s)" using inv by (auto simp: pairing_inv_def bt_values_def concluded_def)
      fix d x rest out
      assume e: "ps_groups s = d @ x # rest" and p: "?P d out"
      obtain key g where x: "x = (key, g)" by fastforce
      have mem: "(key, g) \<in> set (ps_groups s)" using e x by simp
      then have "group_ok l applications key g" using inv by (auto simp: pairing_inv_def)
      from conclude_group_ok [OF this conjunct1 [OF p] mem]
      show "yields (conclude_group applications out x) (?P (d @ [x]))"
        unfolding x by (rule yields_mono) (use p in \<open>auto simp: bt_values_def\<close>)
    qed
    then show "yields (for_each (conclude_group applications) (ps_output s) (ps_groups s))
       (\<lambda>out. mset (concat (map tx_refs out)) = mset (all_refs applications) \<and> (\<forall>t \<in> set out. tx_status t = ''candidate_pair'' \<longrightarrow>
          (\<exists>q r. tx_requests t = [q] \<and> tx_responses t = [r] \<and> fits applications q r \<and> sole l applications q r)))"
    proof (rule yields_mono, goal_cases)
      case (1 out)
      have "\<exists>q r. tx_requests t = [q] \<and> tx_responses t = [r] \<and> fits applications q r \<and> sole l applications q r"
        if "t \<in> set out" "tx_status t = ''candidate_pair''" for t
      proof -
        have "\<exists>key g q r. (key, g) \<in> set (ps_groups s) \<and> gr_requests g = [q] \<and> gr_responses g = [r]
          \<and> tx_requests t = [q] \<and> tx_responses t = [r] \<and> fits applications q r"
        proof -
          have "concluded applications (ps_groups s) t" using 1 that(1) by blast
          then show ?thesis using that(2) unfolding concluded_def by (rule mp)
        qed
        then obtain key g q r where g: "(key, g) \<in> set (ps_groups s)" "gr_requests g = [q]" "gr_responses g = [r]"
          "tx_requests t = [q]" "tx_responses t = [r]" "fits applications q r" by (elim exE conjE)
        have own: "belongs l applications key True q" using inv g(1,2) by (auto simp: pairing_inv_def group_ok_def)
        have other: "belongs l applications key False r" using inv g(1,3) by (auto simp: pairing_inv_def group_ok_def)
        have entry: "group_entry (ps_groups s) key = g"
        proof -
          have "bt_ordered (ps_groups s)" using inv by (simp add: pairing_inv_def)
          then have "bt_get (ps_groups s) key = Some g" using g(1) by (simp only: bt_get_iff)
          then show ?thesis by (simp add: group_entry_def)
        qed
        have "ref = (if b then q else r)" if k: "belongs l applications key b ref" for b ref
        proof -
          have "ref \<in> set (concat (map app_refs ?apps))" using all_refs_belong [OF k] unfolding all_refs_def .
          moreover have "\<forall>ref \<in> set (concat (map app_refs ?apps)). \<forall>key is_request. belongs l applications key is_request ref
            \<longrightarrow> ref \<in> set (group_refs (group_entry (ps_groups s) key))" using inv unfolding pairing_inv_def by (elim conjE)
          ultimately have "ref \<in> set (group_refs g)" using k entry by metis
          then have "ref = q \<or> ref = r" using g(2,3) by (simp add: group_refs_def)
          then show ?thesis using belongs_role [OF k] own other by auto
        qed
        then have "sole l applications q r" unfolding sole_def using own other by blast
        then show ?thesis using g by blast
      qed
      then show ?case using 1 inv by (auto simp: pairing_inv_def all_refs_def)
    qed
  qed
qed

text \<open>
  C15: Pairing requests with responses never panics, and when it succeeds every decoded message is in exactly
  one transaction, once.  A transaction is called a candidate pair only if it has exactly one request and one
  response; they are of one capture and one flow and carry the same identifiers; for DNP3 both are verified
  against their link frames and were captured in opposite directions; for Modbus both boundaries are verified
  and the fields of the response agree with the request (the capture directions of a Modbus pair are not compared).
  For both protocols no other message of the query that could be paired - a DNP3 response, or request that expects
  one, of known capture direction that verifies against its link frames; a supported Modbus message of valid shape and
  known role with bytes of one capture - has the same capture, flow and identifiers: the request is the only such
  request, the response the only such response.\<close>

theorem candidate_pairs_are_unambiguous:
  "transactions applications l \<noteq> Panic \<and> (\<forall>out. transactions applications l = Ok out \<longrightarrow>
     mset (concat (map tx_refs out)) = mset (all_refs applications)
     \<and> (\<forall>t \<in> set out. tx_status t = ''candidate_pair'' \<longrightarrow>
          (\<exists>q r. tx_requests t = [q] \<and> tx_responses t = [r] \<and> fits applications q r \<and> sole l applications q r)))"
  using transactions_ok [of applications l] unfolding yields_iff by blast

lemma sample_matches: "response_matches (sample_message sample_adu RoleRequest) (sample_message sample_reply RoleResponse) = Ok True"
  unfolding response_matches_def sample_metadata
  by (simp add: sample_message_def sample_adu_def sample_reply_def from_packet_valid usize_limit_def sample_shapes
      answer_matches_def word16_at_def be16_word_def)

definition sample_applications :: "application_analysis list" where
  "sample_applications =
     [\<lparr>ap_flow = 0, ap_direction = 0, ap_protocol = ''modbus'',
       ap_data = AppModbus \<lparr>mr_messages = [sample_message sample_adu RoleRequest], mr_issues = []\<rparr>\<rparr>,
      \<lparr>ap_flow = 0, ap_direction = 1, ap_protocol = ''modbus'',
       ap_data = AppModbus \<lparr>mr_messages = [sample_message sample_reply RoleResponse], mr_issues = []\<rparr>\<rparr>]"

lemma from_packet_spans: "ev_spans (from_packet (x # xs) p k) =
    [\<lparr>span_start = 0, span_end = length (x # xs), span_packet = p, span_packet_start = k\<rparr>]"
  by (simp add: from_packet_def)

lemma sample_scope: "b \<noteq> [] \<Longrightarrow> length b < 100 \<Longrightarrow> capture_scope (mm_raw (sample_message b role)) = Some []"
  by (cases b) (simp_all add: capture_scope_def sample_message_def from_packet_valid usize_limit_def from_packet_spans)

lemma sample_adus: "sample_adu \<noteq> []" "length sample_adu < 100" "sample_reply \<noteq> []" "length sample_reply < 100"
  by (simp_all add: sample_adu_def sample_reply_def)

lemma sample_message_simps [simp]:
  "mm_role (sample_message b role) = role" "mm_unit (sample_message b role) = 1" "mm_transaction (sample_message b role) = 1"
  "mm_function (sample_message b role) = 3" "mm_shape_valid (sample_message b role)" "mm_supported (sample_message b role)"
  "mm_verified (sample_message b role)" "b \<noteq> [] \<Longrightarrow> length (ev_spans (mm_raw (sample_message b role))) = 1"
  by (simp_all add: sample_message_def from_packet_def)

lemma sample_transactions:
  "transactions sample_applications limits_default = Ok [\<lparr>tx_protocol = ''modbus'', tx_flow = 0, tx_requests = [MessageRef 0 0],
     tx_responses = [MessageRef 1 0], tx_status = ''candidate_pair'', tx_reason = ''matching_protocol_identifiers_not_attack_proof''\<rparr>]"
  by (simp add: transactions_def sample_applications_def pair_application_def pair_modbus_def count_message_def sample_scope
      limits_default_def checked_add_def usize_limit_def group_entry_def pairing_group_default_def group_add_def Let_def conclude_group_def
      group_inconsistent_def group_same_direction_def group_status_def index_at_def sample_matches sample_adus)

theorem candidate_pairs_are_unambiguous_witness:
  "\<exists>out. transactions sample_applications limits_default = Ok out
     \<and> mset (concat (map tx_refs out)) = {#MessageRef 0 0, MessageRef 1 0#} \<and> fits sample_applications (MessageRef 0 0) (MessageRef 1 0)
     \<and> sole limits_default sample_applications (MessageRef 0 0) (MessageRef 1 0)"
  using candidate_pairs_are_unambiguous [of sample_applications limits_default] sample_transactions
  by (simp add: tx_refs_def)

end
