(* ===== verification/Confirmations_Correct.thy ===== *)
theory Confirmations_Correct
  imports Confirmations Correlate_Correct
begin

text \<open>
  Confirmation candidates are conservative: the query never panics, no verified confirmation is lost, every
  fragment that cannot be verified is reported, and a candidate names exactly one confirmation and one
  response that agree on everything the protocol provides.
\<close>

section \<open>What a group holds\<close>

definition fragment_at :: "application_analysis list \<Rightarrow> fragment_ref \<Rightarrow> (application_analysis \<times> dnp3_result \<times> application_fragment) option" where
  "fragment_at applications ref =
     (if ff_application ref < length applications then
        let ap = applications ! ff_application ref in
        case ap_data ap of
          AppDnp3 r \<Rightarrow> if ff_fragment ref < length (dr_fragments r) then Some (ap, r, dr_fragments r ! ff_fragment ref) else None
        | _ \<Rightarrow> None
      else None)"

definition identified :: "application_analysis list \<Rightarrow> confirmation_fragment \<Rightarrow> nat \<Rightarrow> bool" where
  "identified applications x flow \<longleftrightarrow> (\<exists>ap r fragment. fragment_at applications (cf_reference x) = Some (ap, r, fragment)
     \<and> ap_flow ap = flow \<and> cf_direction x = ap_direction ap \<and> ap_direction ap \<le> 1 \<and> witnesses r fragment (cf_witness x))"

fun keyed :: "confirmation_fragment \<Rightarrow> bool \<Rightarrow> confirmation_key \<Rightarrow> bool" where
  "keyed x confirm (capture, flow, source, destination, sequence, uns) \<longleftrightarrow>
     (let w = cf_witness x; h = fw_header w in
      (\<forall>p \<in> set (fw_packets w). pid_capture p = capture) \<and> sequence = wh_sequence h \<and> uns = wh_unsolicited h
      \<and> (if confirm then wh_function h = 0 \<and> source = fw_source w \<and> destination = fw_destination w
         else wh_function h \<in> {0x81, 0x82} \<and> source = fw_destination w \<and> destination = fw_source w))"

definition confirmation_flow :: "confirmation_key \<Rightarrow> nat" where
  "confirmation_flow = (\<lambda>(capture, flow, source, destination, sequence, uns). flow)"

definition confirmation_group_ok :: "application_analysis list \<Rightarrow> confirmation_key \<times> confirmation_group \<Rightarrow> bool" where
  "confirmation_group_ok applications = (\<lambda>(key, g).
     (\<forall>x \<in> set (cg_confirms g). identified applications x (confirmation_flow key) \<and> keyed x True key)
     \<and> (\<forall>x \<in> set (cg_responses g). identified applications x (confirmation_flow key) \<and> keyed x False key))"

text \<open>A fragment that has been seen is reported as unverified, or has a witness that is in a group if it is a confirmation.\<close>

definition unverified_in :: "confirmation_candidate list \<Rightarrow> fragment_ref \<Rightarrow> bool" where
  "unverified_in out ref \<longleftrightarrow> (\<exists>c \<in> set out. cc_status c = ''unclassified'' \<and> cc_unclassified c = [ref] \<and> cc_error c \<noteq> None)"

definition accounted :: "application_analysis list \<Rightarrow> confirmation_candidate list \<Rightarrow> (confirmation_fragment \<Rightarrow> bool) \<Rightarrow> fragment_ref \<Rightarrow> bool" where
  "accounted applications out held ref \<longleftrightarrow> unverified_in out ref
     \<or> (\<exists>ap r fragment w. fragment_at applications ref = Some (ap, r, fragment) \<and> witnesses r fragment w
          \<and> (wh_function (fw_header w) = 0 \<longrightarrow> (\<exists>x. held x \<and> cf_reference x = ref \<and> cf_witness x = w)))"

definition in_groups :: "(confirmation_key \<times> confirmation_group) list \<Rightarrow> confirmation_fragment \<Rightarrow> bool" where
  "in_groups groups x \<longleftrightarrow> (\<exists>(key, g) \<in> set groups. x \<in> set (cg_confirms g))"

definition collecting :: "application_analysis list \<Rightarrow> fragment_ref list \<Rightarrow> confirmation_state \<Rightarrow> bool" where
  "collecting applications seen s \<longleftrightarrow> bt_ordered (fs_groups s) \<and> (\<forall>e \<in> set (fs_groups s). confirmation_group_ok applications e)
     \<and> (\<forall>c \<in> set (fs_output s). cc_status c = ''unclassified'')
     \<and> (\<forall>ref \<in> set seen. accounted applications (fs_output s) (in_groups (fs_groups s)) ref)"

lemma confirmation_entry_ok:
  assumes "\<forall>e \<in> set groups. confirmation_group_ok applications e"
  shows "confirmation_group_ok applications (key, confirmation_entry groups key)"
  using assms by (auto simp: confirmation_entry_def confirmation_group_ok_def split: option.split dest!: bt_get_set)

lemma accounted_mono:
  assumes "accounted applications out held ref" "set out \<subseteq> set out'" "\<And>x. held x \<Longrightarrow> held' x"
  shows "accounted applications out' held' ref"
  using assms unfolding accounted_def unverified_in_def by blast

lemma confirmation_join_ok:
  assumes s: "collecting applications seen s" and f: "fragment_at applications ref = Some (ap, r, fragment)"
    and w: "witnesses r fragment w" and d: "ap_direction ap \<le> 1"
  shows "yields (confirmation_join ap ref w s) (collecting applications (seen @ [ref]))"
proof (cases "wh_function (fw_header w) \<in> {0, 0x81, 0x82}")
  case False
  then have "accounted applications (fs_output s) (in_groups (fs_groups s)) ref" using f w by (auto simp: accounted_def)
  then show ?thesis using s False by (auto simp: confirmation_join_def Let_def collecting_def)
next
  case True
  let ?m = "fs_groups s" and ?x = "\<lparr>cf_reference = ref, cf_direction = ap_direction ap, cf_witness = w\<rparr>" and ?c = "wh_function (fw_header w) = 0"
  obtain p ps where p: "fw_packets w = p # ps" using w by (cases "fw_packets w") (auto simp: witnesses_def)
  define key where "key = (pid_capture p, ap_flow ap, (if ?c then fw_source w else fw_destination w),
     (if ?c then fw_destination w else fw_source w), wh_sequence (fw_header w), wh_unsolicited (fw_header w))"
  define g where "g = confirmation_entry ?m key"
  define g' where "g' = (if ?c then g\<lparr>cg_confirms := cg_confirms g @ [?x]\<rparr> else g\<lparr>cg_responses := cg_responses g @ [?x]\<rparr>)"
  have eq: "confirmation_join ap ref w s = Ok (s\<lparr>fs_groups := bt_put key g' ?m\<rparr>)"
    using True p unfolding confirmation_join_def Let_def g'_def g_def key_def by (auto simp: index_at_def)
  have ord: "bt_ordered ?m" using s by (simp add: collecting_def)
  have id: "identified applications ?x (confirmation_flow key)" using f w d by (auto simp: identified_def confirmation_flow_def key_def)
  have cap: "\<forall>q \<in> set (fw_packets w). pid_capture q = pid_capture p" using witness_capture [OF w] p by (metis list.sel(1))
  have ky: "keyed ?x ?c key" using True cap by (auto simp: key_def)
  have g'ok: "confirmation_group_ok applications (key, g')"
    using confirmation_entry_ok [of ?m applications key] s id ky unfolding g_def [symmetric] g'_def
    by (auto simp: confirmation_group_ok_def collecting_def)
  have entry: "(key, g') \<in> set (bt_put key g' ?m)" by (rule bt_get_set) (simp add: bt_get_put)
  have kept: "in_groups (bt_put key g' ?m) x" if held: "in_groups ?m x" for x
  proof -
    obtain k h where k: "(k, h) \<in> set ?m" "x \<in> set (cg_confirms h)" using held by (auto simp: in_groups_def)
    show ?thesis
    proof (cases "k = key")
      case True
      then have "bt_get ?m key = Some h" using k(1) by (simp add: bt_get_iff [OF ord])
      then have "h = g" by (simp add: g_def confirmation_entry_def)
      then have "x \<in> set (cg_confirms g')" using k(2) by (simp add: g'_def)
      then show ?thesis using entry unfolding in_groups_def by blast
    next
      case False
      then have "bt_get (bt_put key g' ?m) k = Some h" using k(1) bt_get_iff [OF ord] by (simp add: bt_get_put)
      then show ?thesis using k(2) bt_get_set unfolding in_groups_def by fast
    qed
  qed
  have new: "in_groups (bt_put key g' ?m) ?x" if ?c
  proof -
    have "?x \<in> set (cg_confirms g')" using that by (simp add: g'_def)
    then show ?thesis using entry unfolding in_groups_def by blast
  qed
  show ?thesis unfolding eq yields_simps collecting_def
  proof (simp, intro conjI ballI)
    show "bt_ordered (bt_put key g' ?m)" by (rule bt_ordered_put [OF ord])
    show "confirmation_group_ok applications e" if "e \<in> set (bt_put key g' ?m)" for e
    proof -
      obtain k h where e: "e = (k, h)" by fastforce
      have "k = key \<and> h = g' \<or> k \<noteq> key \<and> (k, h) \<in> set ?m" using bt_put_entries [OF ord] that unfolding e .
      moreover have "\<forall>e \<in> set ?m. confirmation_group_ok applications e" using s by (simp add: collecting_def)
      ultimately show ?thesis using g'ok e by auto
    qed
    show "cc_status c = ''unclassified''" if "c \<in> set (fs_output s)" for c using s that by (simp add: collecting_def)
    show "accounted applications (fs_output s) (in_groups (bt_put key g' ?m)) ref"
    proof -
      have "\<exists>x. in_groups (bt_put key g' ?m) x \<and> cf_reference x = ref \<and> cf_witness x = w" if ?c
        using new [OF that] by (intro exI [of _ ?x]) simp
      then show ?thesis using f w unfolding accounted_def by blast
    qed
    show "accounted applications (fs_output s) (in_groups (bt_put key g' ?m)) ref'" if "ref' \<in> set seen" for ref'
    proof (rule accounted_mono [OF _ subset_refl])
      show "accounted applications (fs_output s) (in_groups ?m) ref'" using s that by (simp add: collecting_def)
    qed (rule kept)
  qed
qed

section \<open>Collecting\<close>

lemma costs_confirm_then: "costs l (f ()) Q \<Longrightarrow> costs l (pay_then (confirm_charge n l) f) Q"
  by (rule costs_then [where P = "\<lambda>_. True"]) (simp_all add: confirm_charge_def)

lemma scope_of_frames_ok: "costs l (scope_of_frames r capture flow l indices) (\<lambda>_. True)"
  by (induction indices) (auto intro!: costs_confirm_then simp: Let_def)

lemma invalid_scope_ok: "costs l (invalid_scope_of r fragment flow l) (\<lambda>_. True)"
  unfolding invalid_scope_of_def
  by (rule costs_confirm_then) (simp add: scope_of_frames_ok split: option.split)

lemma collecting_unverified:
  assumes "collecting applications seen s" "fs_groups s' = fs_groups s"
    "fs_output s' = fs_output s @ [unclassified_candidate flow ref e]"
  shows "collecting applications (seen @ [ref]) s'"
proof -
  have "unverified_in (fs_output s') ref" by (auto simp: unverified_in_def assms(3) unclassified_candidate_def)
  then have "accounted applications (fs_output s') (in_groups (fs_groups s')) ref" by (simp add: accounted_def)
  moreover have "accounted applications (fs_output s') (in_groups (fs_groups s')) ref'" if "ref' \<in> set seen" for ref'
    using assms that accounted_mono unfolding collecting_def by (metis UnCI set_append subsetI)
  ultimately show ?thesis using assms by (auto simp: collecting_def unclassified_candidate_def)
qed

lemma costs_match:
  assumes "costs l m P" and "\<And>x. P x \<Longrightarrow> costs l (ok x) Q" and "\<And>e. costs l (failed e) Q"
  shows "costs l (pay_match m ok failed) Q"
  unfolding costs_def
proof
  fix work
  obtain w r where m: "m work = (w, r)" by fastforce
  have c: "work \<le> w" "w = work \<or> w \<le> max_correlation_checks l" "yields r P"
    using spec [OF assms(1) [unfolded costs_def], of work] unfolding m by simp_all
  have after: "work \<le> fst (k w) \<and> (fst (k w) = work \<or> fst (k w) \<le> max_correlation_checks l) \<and> yields (snd (k w)) Q"
    if "costs l k Q" for k using spec [OF that [unfolded costs_def], of w] c(1,2) by auto
  show "work \<le> fst (pay_match m ok failed work) \<and> (fst (pay_match m ok failed work) = work
      \<or> fst (pay_match m ok failed work) \<le> max_correlation_checks l) \<and> yields (snd (pay_match m ok failed work)) Q"
    using after [OF assms(2)] after [OF assms(3)] c(3) by (cases r) (simp_all add: pay_match_def m)
qed

lemma confirmation_fragment_ok:
  assumes s: "collecting applications seen s" and f: "fragment_at applications (FragmentRef ai fi) = Some (ap, r, fragment)"
  shows "costs l (confirmation_fragment_step l ai ap r s (fi, fragment)) (collecting applications (seen @ [FragmentRef ai fi]))"
  unfolding confirmation_fragment_step_def case_prod_conv Let_def
proof (intro costs_confirm_then costs_if, simp, rule costs_match [where P = "\<lambda>w. witnesses r fragment w \<and> ap_direction ap \<le> 1"])
  have s1: "collecting applications seen (s\<lparr>fs_fragments := fs_fragments s + 1\<rparr>)" using s by (simp add: collecting_def)
  show "costs l (if ap_direction ap \<le> 1 \<and> ap_protocol ap = ''dnp3'' then verified_fragment_witness r fragment l
          else free (Err (error_new Invariant 0 ''dnp3_confirmation_application_scope_invalid''
                 ''protocol or captured direction disagrees with the supplied DNP3 scope'')))
      (\<lambda>w. witnesses r fragment w \<and> ap_direction ap \<le> 1)"
    using verified_fragment_ok [of l r fragment] by (auto intro: costs_mono)
  show "costs l (free (confirmation_join ap (FragmentRef ai fi) w (s\<lparr>fs_fragments := fs_fragments s + 1\<rparr>)))
      (collecting applications (seen @ [FragmentRef ai fi]))" if "witnesses r fragment w \<and> ap_direction ap \<le> 1" for w
    unfolding costs_free by (rule confirmation_join_ok [OF s1 f]) (use that in auto)
  show "costs l (if err_code e = LimitExceeded then free (Err e)
      else pay_then (invalid_scope_of r fragment (ap_flow ap) l) (\<lambda>sc.
        free (Ok (s\<lparr>fs_fragments := fs_fragments s + 1,
            fs_invalid := scope_add sc (FragmentRef ai fi) (fs_invalid (s\<lparr>fs_fragments := fs_fragments s + 1\<rparr>)),
            fs_output := fs_output (s\<lparr>fs_fragments := fs_fragments s + 1\<rparr>) @ [unclassified_candidate (ap_flow ap) (FragmentRef ai fi) e]\<rparr>))))
      (collecting applications (seen @ [FragmentRef ai fi]))" for e
    by (intro costs_if costs_then [OF invalid_scope_ok]) (simp, unfold costs_free yields_simps, rule collecting_unverified [OF s1], simp_all)
qed

definition fragment_refs :: "nat \<times> application_analysis \<Rightarrow> fragment_ref list" where
  "fragment_refs = (\<lambda>(ai, ap). case ap_data ap of
      AppDnp3 r \<Rightarrow> map (FragmentRef ai) [0..<length (dr_fragments r)] | _ \<Rightarrow> [])"

lemma confirmation_application_ok:
  assumes s: "collecting applications seen s" and ai: "ai < length applications" "applications ! ai = ap"
  shows "costs l (confirmation_application l s (ai, ap)) (collecting applications (seen @ fragment_refs (ai, ap)))"
proof (cases "ap_data ap")
  case (AppDnp3 r)
  let ?fs = "dr_fragments r"
  have "costs l (pay_each (confirmation_fragment_step l ai ap r) s (enumerate 0 ?fs))
     (collecting applications (seen @ map (\<lambda>x. FragmentRef ai (fst x)) (enumerate 0 ?fs)))"
  proof (rule costs_each [where P = "\<lambda>d. collecting applications (seen @ map (\<lambda>x. FragmentRef ai (fst x)) d)"])
    show "collecting applications (seen @ map (\<lambda>x. FragmentRef ai (fst x)) []) s" using s by simp
    fix d x rest t
    assume e: "enumerate 0 ?fs = d @ x # rest" and t: "collecting applications (seen @ map (\<lambda>x. FragmentRef ai (fst x)) d) t"
    have n: "length d < length ?fs" using arg_cong [OF e, of length] by simp
    have "x = enumerate 0 ?fs ! length d" by (simp add: e)
    then have x: "x = (length d, ?fs ! length d)" using n by (simp add: nth_enumerate_eq)
    have "fragment_at applications (FragmentRef ai (length d)) = Some (ap, r, ?fs ! length d)"
      using ai AppDnp3 n by (simp add: fragment_at_def)
    from confirmation_fragment_ok [OF t this]
    show "costs l (confirmation_fragment_step l ai ap r t x) (collecting applications (seen @ map (\<lambda>x. FragmentRef ai (fst x)) (d @ [x])))"
      by (simp add: x)
  qed
  moreover have "map (\<lambda>x. FragmentRef ai (fst x)) (enumerate 0 ?fs) = map (FragmentRef ai) [0..<length ?fs]"
    by (simp add: enumerate_eq_zip flip: map_map [of "FragmentRef ai" fst, unfolded comp_def])
  ultimately show ?thesis using AppDnp3
    by (auto simp: confirmation_application_def fragment_refs_def intro!: costs_confirm_then)
qed (use s in \<open>auto simp: confirmation_application_def fragment_refs_def intro!: costs_confirm_then\<close>)

section \<open>Concluding\<close>

text \<open>What a confirmation and its target have in common.\<close>

definition confirms :: "application_analysis list \<Rightarrow> nat \<Rightarrow> confirmation_fragment \<Rightarrow> confirmation_fragment \<Rightarrow> bool" where
  "confirms applications flow x y \<longleftrightarrow> identified applications x flow \<and> identified applications y flow
     \<and> wh_function (fw_header (cf_witness x)) = 0 \<and> wh_function (fw_header (cf_witness y)) \<in> {0x81, 0x82}
     \<and> fw_source (cf_witness x) = fw_destination (cf_witness y) \<and> fw_destination (cf_witness x) = fw_source (cf_witness y)
     \<and> wh_sequence (fw_header (cf_witness x)) = wh_sequence (fw_header (cf_witness y))
     \<and> wh_unsolicited (fw_header (cf_witness x)) = wh_unsolicited (fw_header (cf_witness y))
     \<and> wh_confirm_requested (fw_header (cf_witness y)) \<and> cf_direction x \<noteq> cf_direction y
     \<and> fw_link_direction (cf_witness x) \<noteq> fw_link_direction (cf_witness y)
     \<and> (\<exists>capture. \<forall>p \<in> set (fw_packets (cf_witness x)) \<union> set (fw_packets (cf_witness y)). pid_capture p = capture)"

lemma keyed_confirms:
  assumes "identified applications x (confirmation_flow key)" "keyed x True key" "identified applications y (confirmation_flow key)" "keyed y False key"
    and "wh_confirm_requested (fw_header (cf_witness y))" "cf_direction x \<noteq> cf_direction y" "fw_link_direction (cf_witness x) \<noteq> fw_link_direction (cf_witness y)"
  shows "confirms applications (confirmation_flow key) x y"
proof -
  obtain capture flow source destination sequence uns where key: "key = (capture, flow, source, destination, sequence, uns)"
    by (cases key) auto
  show ?thesis unfolding confirms_def
  proof (intro conjI)
    show "\<exists>capture. \<forall>p \<in> set (fw_packets (cf_witness x)) \<union> set (fw_packets (cf_witness y)). pid_capture p = capture"
      using assms(2,4) key by (auto simp: Let_def)
  qed (use assms key in \<open>simp_all add: Let_def\<close>)
qed

definition opposed :: "confirmation_fragment \<Rightarrow> confirmation_fragment \<Rightarrow> bool" where
  "opposed y x \<longleftrightarrow> cf_direction x \<noteq> cf_direction y \<and> fw_link_direction (cf_witness x) \<noteq> fw_link_direction (cf_witness y)"

lemma opposition_ok:
  "costs l (pay_each (opposition l y) (False, False, False) xs) (\<lambda>(_, _, jointly). jointly \<longleftrightarrow> (\<exists>x \<in> set xs. opposed y x))"
  by (rule costs_each [where P = "\<lambda>d (_, _, jointly). jointly \<longleftrightarrow> (\<exists>x \<in> set d. opposed y x)"])
    (auto simp: opposition_def opposed_def Let_def intro!: costs_confirm_then)

lemma targets_ok:
  "costs l (pay_each (confirmation_target l g) ([], []) ys) (\<lambda>(targets, excluded). set targets \<subseteq> set ys \<and>
     (\<forall>y \<in> set targets. wh_confirm_requested (fw_header (cf_witness y)) \<and> (\<exists>x \<in> set (cg_confirms g). opposed y x)))"
proof (rule costs_each [where P = "\<lambda>d (targets, excluded). set targets \<subseteq> set d \<and>
     (\<forall>y \<in> set targets. wh_confirm_requested (fw_header (cf_witness y)) \<and> (\<exists>x \<in> set (cg_confirms g). opposed y x))"], simp)
  fix d y rest and s :: "confirmation_fragment list \<times> excluded_target list"
  assume p: "case s of (targets, excluded) \<Rightarrow> set targets \<subseteq> set d \<and>
     (\<forall>y \<in> set targets. wh_confirm_requested (fw_header (cf_witness y)) \<and> (\<exists>x \<in> set (cg_confirms g). opposed y x))"
  obtain ts es where s: "s = (ts, es)" by fastforce
  show "costs l (confirmation_target l g s y) (\<lambda>(targets, excluded). set targets \<subseteq> set (d @ [y]) \<and>
     (\<forall>y \<in> set targets. wh_confirm_requested (fw_header (cf_witness y)) \<and> (\<exists>x \<in> set (cg_confirms g). opposed y x)))"
    unfolding confirmation_target_def s case_prod_conv
  proof (intro costs_confirm_then, rule costs_then [OF opposition_ok], clarsimp split del: if_split, goal_cases)
    case (1 a b c)
    then show ?case using p s by (auto simp: exclusion_def split: if_split_asm option.split)
  qed
qed

lemma unclassified_ok: "costs l (pay_each (add_unclassified l unv) [] scopes) (\<lambda>_. True)"
  by (rule costs_each [where P = "\<lambda>_ _. True"]) (auto simp: add_unclassified_def intro!: costs_confirm_then split: option.split)

definition candidate_ok :: "application_analysis list \<Rightarrow> confirmation_candidate \<Rightarrow> bool" where
  "candidate_ok applications c \<longleftrightarrow> (cc_status c = ''candidate_confirmation'' \<longrightarrow>
     (\<exists>x y. cc_confirms c = [x] \<and> cc_targets c = [y] \<and> cc_excluded_targets c = [] \<and> cc_unclassified c = []
        \<and> confirms applications (cc_flow c) x y))"

definition concluding ::
    "application_analysis list \<Rightarrow> confirmation_candidate list \<Rightarrow> (confirmation_key \<times> confirmation_group) list \<Rightarrow> confirmation_candidate list \<Rightarrow> bool" where
  "concluding applications start d out \<longleftrightarrow> set start \<subseteq> set out \<and> (\<forall>c \<in> set out. candidate_ok applications c)
     \<and> (\<forall>(key, g) \<in> set d. cg_confirms g \<noteq> [] \<longrightarrow> (\<exists>c \<in> set out. cc_confirms c = cg_confirms g))"

lemma confirmation_conclude_ok:
  assumes out: "concluding applications start d out" and g: "confirmation_group_ok applications (key, g)"
  shows "costs l (confirmation_conclude l unv out (key, g)) (concluding applications start (d @ [(key, g)]))"
proof -
  obtain capture flow rest where key: "key = (capture, flow, rest)" by (cases key) auto
  have flow: "confirmation_flow key = flow" by (cases rest) (simp add: confirmation_flow_def key)
  show ?thesis unfolding confirmation_conclude_def key case_prod_conv
  proof (intro costs_if, goal_cases)
    case 1
    then show ?case using out by (auto simp: concluding_def)
  next
    case 2
    show ?case
    proof (intro costs_confirm_then, rule costs_then [OF targets_ok], clarify, rule costs_then [OF unclassified_ok], goal_cases)
      case (1 targets excluded unclassified)
      let ?v = "confirmation_status (scope_refs unv (ScopeUnknown flow) \<noteq> None) unclassified (length (cg_confirms g)) (length targets) (length excluded)"
      let ?c = "\<lparr>cc_flow = flow, cc_confirms = cg_confirms g, cc_targets = targets, cc_excluded_targets = excluded,
        cc_unclassified = unclassified, cc_status = fst ?v, cc_reason = snd ?v, cc_error = None\<rparr>"
      have "candidate_ok applications ?c" unfolding candidate_ok_def
      proof
        assume "cc_status ?c = ''candidate_confirmation''"
        then have n: "unclassified = []" "length (cg_confirms g) \<le> 1" "length targets \<le> 1" "targets \<noteq> []" "excluded = []"
          by (auto simp: confirmation_status_def split: if_split_asm)
        then obtain x y where xy: "cg_confirms g = [x]" "targets = [y]"
          using 2 by (cases "cg_confirms g"; cases targets) auto
        then have "opposed y x" "wh_confirm_requested (fw_header (cf_witness y))" "y \<in> set (cg_responses g)" using 1 by auto
        then have "confirms applications (confirmation_flow key) x y"
          using g xy(1) by (intro keyed_confirms) (auto simp: confirmation_group_ok_def opposed_def)
        then show "\<exists>x y. cc_confirms ?c = [x] \<and> cc_targets ?c = [y] \<and> cc_excluded_targets ?c = [] \<and> cc_unclassified ?c = []
          \<and> confirms applications (cc_flow ?c) x y" using n xy flow by simp
      qed
      moreover have "\<exists>c \<in> set (out @ [?c]). cc_confirms c = cg_confirms g" by simp
      ultimately have "concluding applications start (d @ [(key, g)]) (out @ [?c])"
        using out unfolding concluding_def by auto
      then show ?case by (simp add: case_prod_unfold key Let_def)
    qed
  qed
qed

lemma confirmation_candidates_ok:
  "yields (dnp3_confirmation_candidates applications l) (\<lambda>out. (\<forall>c \<in> set out. candidate_ok applications c)
     \<and> (\<forall>e \<in> set (enumerate 0 applications). \<forall>ref \<in> set (fragment_refs e).
          accounted applications out (\<lambda>x. \<exists>c \<in> set out. x \<in> set (cc_confirms c)) ref))"
proof -
  let ?apps = "enumerate 0 applications"
  let ?start = "\<lparr>fs_groups = [], fs_invalid = [], fs_output = [], fs_fragments = 0\<rparr>"
  have collect: "costs l (pay_each (confirmation_application l) ?start ?apps) (collecting applications (concat (map fragment_refs ?apps)))"
  proof (rule costs_each [where P = "\<lambda>d. collecting applications (concat (map fragment_refs d))"])
    show "collecting applications (concat (map fragment_refs [])) ?start" by (simp add: collecting_def)
    fix d x rest s
    assume e: "?apps = d @ x # rest" and s: "collecting applications (concat (map fragment_refs d)) s"
    have n: "length d < length applications" using arg_cong [OF e, of length] by simp
    have "x = ?apps ! length d" by (simp add: e)
    then have "x = (length d, applications ! length d)" using n by (simp add: nth_enumerate_eq)
    then show "costs l (confirmation_application l s x) (collecting applications (concat (map fragment_refs (d @ [x]))))"
      using confirmation_application_ok [OF s n refl] by simp
  qed
  let ?Q = "\<lambda>out. (\<forall>c \<in> set out. candidate_ok applications c) \<and> (\<forall>e \<in> set ?apps. \<forall>ref \<in> set (fragment_refs e).
      accounted applications out (\<lambda>x. \<exists>c \<in> set out. x \<in> set (cc_confirms c)) ref)"
  have "costs l (pay_then (pay_each (confirmation_application l) ?start ?apps) (\<lambda>s.
       pay_each (confirmation_conclude l (fs_invalid s)) (fs_output s) (fs_groups s))) ?Q"
  proof (rule costs_then [OF collect])
    fix s
    assume s: "collecting applications (concat (map fragment_refs ?apps)) s"
    have "costs l (pay_each (confirmation_conclude l (fs_invalid s)) (fs_output s) (fs_groups s))
       (concluding applications (fs_output s) (fs_groups s))"
    proof (rule costs_each [where P = "concluding applications (fs_output s)"])
      show "concluding applications (fs_output s) [] (fs_output s)"
        using s by (simp add: concluding_def collecting_def candidate_ok_def)
      fix d x rest out
      assume e: "fs_groups s = d @ x # rest" and out: "concluding applications (fs_output s) d out"
      obtain key g where x: "x = (key, g)" by fastforce
      have "confirmation_group_ok applications (key, g)" using s e x by (simp add: collecting_def)
      from confirmation_conclude_ok [OF out this] show "costs l (confirmation_conclude l (fs_invalid s) out x) (concluding applications (fs_output s) (d @ [x]))"
        by (simp add: x)
    qed
    then show "costs l (pay_each (confirmation_conclude l (fs_invalid s)) (fs_output s) (fs_groups s)) ?Q"
    proof (rule costs_mono, intro conjI ballI)
      fix out
      assume out: "concluding applications (fs_output s) (fs_groups s) out"
      show "candidate_ok applications c" if "c \<in> set out" for c using out that by (simp add: concluding_def)
      fix e ref
      assume "e \<in> set ?apps" "ref \<in> set (fragment_refs e)"
      then have "ref \<in> set (concat (map fragment_refs ?apps))" by auto
      then have "accounted applications (fs_output s) (in_groups (fs_groups s)) ref" using s unfolding collecting_def by blast
      then show "accounted applications out (\<lambda>x. \<exists>c \<in> set out. x \<in> set (cc_confirms c)) ref"
      proof (rule accounted_mono)
        show "set (fs_output s) \<subseteq> set out" using out by (simp add: concluding_def)
        fix x
        assume "in_groups (fs_groups s) x"
        then obtain key g where g: "(key, g) \<in> set (fs_groups s)" "x \<in> set (cg_confirms g)" by (auto simp: in_groups_def)
        have "cg_confirms g \<noteq> []" using g(2) by auto
        then obtain c where "c \<in> set out" "cc_confirms c = cg_confirms g" using out g(1) unfolding concluding_def by fast
        then show "\<exists>c \<in> set out. x \<in> set (cc_confirms c)" using g(2) by metis
      qed
    qed
  qed
  then show ?thesis unfolding dnp3_confirmation_candidates_def costs_def by blast
qed

text \<open>
  C16: Looking for DNP3 confirmations never panics.  When it succeeds, every fragment of every decoded stream
  is accounted for: it is reported as unverified, or it has a witness, and if the witness is a confirmation
  then it is listed by a candidate.  A candidate is called a confirmation only if it lists exactly one
  confirmation and exactly one response, nothing was excluded, no unverified fragment could belong to it, and
  the two fragments are verified, of one flow and capture, with exchanged addresses, the same sequence number
  and namespace, opposite captured and link directions, and the response asks for a confirmation.\<close>

theorem confirmation_candidates_are_unambiguous:
  "dnp3_confirmation_candidates applications l \<noteq> Panic \<and> (\<forall>out. dnp3_confirmation_candidates applications l = Ok out \<longrightarrow>
     (\<forall>e \<in> set (enumerate 0 applications). \<forall>ref \<in> set (fragment_refs e).
        accounted applications out (\<lambda>x. \<exists>c \<in> set out. x \<in> set (cc_confirms c)) ref)
     \<and> (\<forall>c \<in> set out. cc_status c = ''candidate_confirmation'' \<longrightarrow>
          (\<exists>x y. cc_confirms c = [x] \<and> cc_targets c = [y] \<and> cc_excluded_targets c = [] \<and> cc_unclassified c = []
             \<and> confirms applications (cc_flow c) x y)))"
  using confirmation_candidates_ok [of applications l] unfolding yields_iff candidate_ok_def by blast

definition sample_unverified :: "application_analysis list" where
  "sample_unverified = [\<lparr>ap_flow = 0, ap_direction = 0, ap_protocol = ''dnp3'', ap_data = AppDnp3 (dnp3_result_default\<lparr>dr_fragments :=
     [\<lparr>af_source = 1, af_destination = 2, af_control = 0xC0, af_function = 0, af_sequence = 0, af_class = McConfirm, af_iin = None,
       af_first = True, af_final = True, af_confirm = False, af_frames = [], af_raw = evidence_default, af_objects = evidence_default\<rparr>]\<rparr>)\<rparr>]"

lemma sample_unverified_out:
  "dnp3_confirmation_candidates sample_unverified limits_default =
     Ok [unclassified_candidate 0 (FragmentRef 0 0) (semantic_fail Truncated 0 ''dnp3_workflow_header_truncated'')]"
  by (simp add: dnp3_confirmation_candidates_def sample_unverified_def confirmation_application_def confirmation_fragment_step_def
      pay_then_def pay_match_def free_def confirm_charge_def charge_as_def charge_def checked_add_def usize_limit_def limits_default_def
      verified_fragment_witness_def workflow_header_of_def semantic_need_def ev_len_def invalid_scope_of_def capture_scope_def
      dnp3_result_default_def semantic_fail_def error_new_def Let_def)

theorem confirmation_candidates_are_unambiguous_witness:
  "\<exists>out. dnp3_confirmation_candidates sample_unverified limits_default = Ok out
     \<and> accounted sample_unverified out (\<lambda>x. \<exists>c \<in> set out. x \<in> set (cc_confirms c)) (FragmentRef 0 0)"
  using confirmation_candidates_are_unambiguous [of sample_unverified limits_default] sample_unverified_out
  by (simp add: sample_unverified_def fragment_refs_def dnp3_result_default_def)

end
