(* ===== verification/Engine_Correct.thy ===== *)
theory Engine_Correct
  imports Engine Fragment_Runs Capture_Index_Correct Confirmations_Correct
begin

text \<open>
  The pipeline as a whole: no capture makes it panic, its internal consistency checks never fire (after a record
  has been decoded the only errors are exhausted budgets), and every packet of the capture is observed once,
  in order, and ends with a terminal disposition.
\<close>

section \<open>Results that only fail on a budget\<close>

definition budgeted :: "'a result \<Rightarrow> ('a \<Rightarrow> bool) \<Rightarrow> bool" where
  "budgeted m P \<longleftrightarrow> yields m P \<and> (\<forall>e. m = Err e \<longrightarrow> err_code e = LimitExceeded)"

lemma budgeted_simps [simp]:
  "budgeted (Ok x) P \<longleftrightarrow> P x" "budgeted (Err e) P \<longleftrightarrow> err_code e = LimitExceeded" "\<not> budgeted Panic P"
  by (auto simp: budgeted_def)

lemma budgeted_then: "budgeted m P \<Longrightarrow> (\<And>x. P x \<Longrightarrow> budgeted (f x) Q) \<Longrightarrow> budgeted (and_then m f) Q"
  by (cases m) auto

lemma budgeted_mono: "budgeted m P \<Longrightarrow> (\<And>x. P x \<Longrightarrow> Q x) \<Longrightarrow> budgeted m Q"
  by (cases m) auto

lemma limit_code [simp]: "err_code (error_limit f) = LimitExceeded"
  by (simp add: error_limit_def error_new_def)

lemma budgeted_ok_or [simp]: "budgeted (ok_or (error_limit f) m) P \<longleftrightarrow> (\<forall>x. m = Some x \<longrightarrow> P x)"
  by (cases m) auto

lemma budgeted_each:
  assumes "P [] s" and "\<And>seen x rest s. xs = seen @ x # rest \<Longrightarrow> P seen s \<Longrightarrow> budgeted (f s x) (P (seen @ [x]))"
  shows "budgeted (for_each f s xs) (P xs)"
proof -
  have "budgeted (for_each f s rest) (P xs)" if "xs = seen @ rest" "P seen s" for seen rest s
    using that
  proof (induction rest arbitrary: seen s)
    case (Cons x rest)
    have "budgeted (f s x) (P (seen @ [x]))" using Cons.prems by (rule assms(2))
    then show ?case unfolding for_each.simps
      by (rule budgeted_then) (rule Cons.IH, use Cons.prems(1) in simp_all)
  qed simp
  from this [of "[]" xs s] show ?thesis using assms(1) by simp
qed

section \<open>Updating observations\<close>

definition ob_fixed :: "packet_observation \<Rightarrow> packet_id \<times> packet_meta \<times> bytes" where
  "ob_fixed p = (ob_id p, ob_metadata p, ob_sha256 p)"

definition frames_ok :: "packet_observation list \<Rightarrow> bool" where
  "frames_ok packets \<longleftrightarrow> (\<forall>i < length packets. pid_frame (ob_id (packets ! i)) = i + 1)"

definition ids :: "packet_observation list \<Rightarrow> packet_id set" where
  "ids packets = ob_id ` set packets"

lemma fixed_ids: "map ob_fixed ps = map ob_fixed qs \<Longrightarrow> map ob_id ps = map ob_id qs"
  by (metis (no_types, lifting) map_map comp_apply fst_conv ob_fixed_def map_cong)

lemma each_packet_ok:
  assumes "frames_ok packets" "set pids \<subseteq> ids packets" "\<And>p. ob_fixed (action p) = ob_fixed p" "\<And>p. T (action p)"
  shows "\<exists>packets'. each_packet action packets pids = Ok packets' \<and> map ob_fixed packets' = map ob_fixed packets
    \<and> (\<forall>i < length packets. if ob_id (packets ! i) \<in> set pids then T (packets' ! i) else packets' ! i = packets ! i)"
  using assms(1,2)
proof (induction pids arbitrary: packets)
  case Nil
  then show ?case by (simp add: each_packet_def)
next
  case (Cons pid pids)
  obtain i where i: "i < length packets" "ob_id (packets ! i) = pid"
    using Cons.prems(2) by (auto simp: ids_def in_set_conv_nth)
  then have f: "pid_frame pid = i + 1" using Cons.prems(1) by (auto simp: frames_ok_def)
  let ?ps = "packets[i := action (packets ! i)]"
  have touch: "touch_packet action packets pid = Ok ?ps" using i f by (simp add: touch_packet_def)
  have fixed: "map ob_fixed ?ps = map ob_fixed packets" using i(1) assms(3) by (simp add: map_update list_update_same_conv)
  have idm: "map ob_id ?ps = map ob_id packets" by (rule fixed_ids [OF fixed])
  then have same: "ob_id (?ps ! j) = ob_id (packets ! j)" if "j < length packets" for j
    using that by (metis length_list_update nth_map)
  have "frames_ok ?ps" using Cons.prems(1) same by (simp add: frames_ok_def)
  moreover have "set pids \<subseteq> ids ?ps" using Cons.prems(2) arg_cong [OF idm, of set] by (auto simp: ids_def)
  ultimately obtain packets' where p: "each_packet action ?ps pids = Ok packets'" "map ob_fixed packets' = map ob_fixed ?ps"
    "\<forall>j < length ?ps. if ob_id (?ps ! j) \<in> set pids then T (packets' ! j) else packets' ! j = ?ps ! j"
    using Cons.IH by blast
  have "if ob_id (packets ! j) \<in> set (pid # pids) then T (packets' ! j) else packets' ! j = packets ! j" if j: "j < length packets" for j
  proof (cases "j = i")
    case True
    then show ?thesis using p(3) same [OF j] assms(4) i j by (auto split: if_split_asm)
  next
    case False
    then have "ob_id (packets ! j) \<noteq> pid" using f Cons.prems(1) j by (auto simp: frames_ok_def)
    then show ?thesis using p(3) same [OF j] False j by (auto split: if_split_asm)
  qed
  then show ?case using p(1,2) fixed touch by (auto simp: each_packet_def)
qed

section \<open>The packets a reassembler holds\<close>

definition held :: "reassembler \<Rightarrow> packet_id set" where
  "held r = {pid. \<exists>k a. bt_get (fr_sets r) k = Some a \<and> pid \<in> set (as_packets a)}"

fun settled :: "fragment_outcome \<Rightarrow> packet_id set" where
  "settled Pending = {}"
| "settled (Rejected n) = set (fn_packets n)"
| "settled (Complete dg ps) = set ps"

lemma push_split:
  assumes inv: "fr_inv r" and p: "fragment_push r dg frame = (r', Ok out)"
  shows "dg_fragment dg = None \<and> r' = r \<and> out = Complete dg (ev_packets (dg_payload dg))
    \<or> (\<exists>info. dg_fragment dg = Some info \<and> r' = r \<and> out = rejected ''invalid_fragment_range'' (ev_packets (dg_payload dg)))
    \<or> (\<exists>info packets n r1. dg_fragment dg = Some info \<and> admit r (frag_key_of dg info) dg = Ok (packets, n)
        \<and> open_set r (frag_key_of dg info) dg frame = Ok r1
        \<and> updated r1 (frag_key_of dg info) dg info packets n (opened r (frag_key_of dg info) dg frame) (r', Ok out))"
proof (cases "\<exists>info packets n r1. limits_validate (fr_limits r) = Ok () \<and> dg_fragment dg = Some info \<and> part_ok (new_part dg info)
    \<and> admit r (frag_key_of dg info) dg = Ok (packets, n) \<and> open_set r (frag_key_of dg info) dg frame = Ok r1
    \<and> fragment_push r dg frame = update_set r1 (frag_key_of dg info) dg info packets n")
  case True
  then show ?thesis using admitted_updated [OF inv] p by metis
next
  case False
  have "limits_validate (fr_limits r) = Ok ()" using p by (auto simp: fragment_push_def split: outcome.split_asm)
  then show ?thesis
    using False p
    by (auto simp: fragment_push_def part_ok_def new_part_def checked_add_def usize_limit_def ev_is_empty_def ev_len_def part_end_def
        elim!: and_then_OkE split: option.split_asm if_split_asm outcome.split_asm prod.split_asm)
qed

lemma updated_settles:
  assumes "updated r1 key dg info packets n st (r', Ok out)" "bt_ordered (fr_sets r1)"
  shows "out = Pending \<and> (\<forall>k. bt_get (fr_sets r') k = (if k = key then bt_get (fr_sets r') key else bt_get (fr_sets r1) k))
      \<and> (\<exists>a. bt_get (fr_sets r') key = Some a \<and> as_packets a = packets)
    \<or> (\<exists>code. out = rejected code packets) \<and> (\<forall>k. k \<noteq> key \<longrightarrow> bt_get (fr_sets r') k = bt_get (fr_sets r1) k)
      \<and> (\<exists>a. bt_get (fr_sets r') key = Some a \<and> as_packets a = packets)
    \<or> (\<exists>d. out = Complete d packets) \<and> (\<forall>k. bt_get (fr_sets r') k = (if k = key then None else bt_get (fr_sets r1) k))"
  using assms
proof cases
  case (complete t)
  let ?s = "stored r1 key (extended st dg info packets (Some t)) n"
  have "finish_set ?s key = (r', Ok out)" using complete(1) by simp
  then obtain r2 a where r: "fragment_remove ?s key = Ok (r2, Some a)" "r' = r2" "\<exists>d. out = Complete d (as_packets a)"
    by (auto simp: finish_set_def elim!: and_then_OkE split: outcome.split_asm option.split_asm prod.split_asm)
  have "a = extended st dg info packets (Some t)" "fr_sets r2 = bt_del key (fr_sets ?s)"
    using r(1) by (auto simp: fragment_remove_def Let_def bt_get_put elim!: and_then_OkE split: option.split_asm)
  then show ?thesis using r(2,3) bt_get_del [OF bt_ordered_put [OF assms(2)]]
    by (auto simp: bt_get_put)
qed (auto simp: bt_get_put)

lemma admit_packets:
  assumes "admit r key dg = Ok (packets, n)"
  shows "set packets = (case bt_get (fr_sets r) key of Some st \<Rightarrow> set (as_packets st) | None \<Rightarrow> {}) \<union> set (ev_packets (dg_payload dg))"
  using assms by (auto simp: admit_def Let_def elim!: and_then_OkE split: if_split_asm option.split_asm)

definition held_at :: "reassembler \<Rightarrow> frag_key \<Rightarrow> packet_id set" where
  "held_at r k = (case bt_get (fr_sets r) k of Some a \<Rightarrow> set (as_packets a) | None \<Rightarrow> {})"

lemma held_union: "held r = (\<Union>k. held_at r k)"
  by (auto simp: held_def held_at_def split: option.splits) (metis option.set_intros option.simps(5))+

lemma held_split:
  assumes "\<And>k'. k' \<noteq> k \<Longrightarrow> bt_get (fr_sets r') k' = bt_get (fr_sets r) k'"
  shows "held r' = held_at r' k \<union> (\<Union>k' \<in> - {k}. held_at r k')"
proof -
  have "held_at r' k' = held_at r k'" if "k' \<noteq> k" for k' using assms [OF that] by (simp add: held_at_def)
  moreover have "UNIV = insert k (- {k})" by auto
  ultimately show ?thesis unfolding held_union by (metis (no_types, lifting) ComplD SUP_cong UN_insert singletonI)
qed

lemma push_held:
  assumes inv: "fr_inv r" and p: "fragment_push r dg frame = (r', Ok out)" and pk: "pk = set (ev_packets (dg_payload dg))"
  shows "held r' \<subseteq> held r \<union> pk \<and> held r \<subseteq> held r' \<union> settled out \<and> settled out \<subseteq> held r \<union> pk
    \<and> (if out = Pending then pk \<subseteq> held r' else pk \<subseteq> settled out)"
  using push_split [OF inv p]
proof (elim disjE exE conjE)
  fix info packets n r1
  let ?k = "frag_key_of dg info"
  let ?others = "\<Union>k' \<in> - {?k}. held_at r k'"
  assume a: "admit r ?k dg = Ok (packets, n)" and o: "open_set r ?k dg frame = Ok r1"
    and u: "updated r1 ?k dg info packets n (opened r ?k dg frame) (r', Ok out)"
  have r1: "fr_inv r1" "\<And>k. k \<noteq> ?k \<Longrightarrow> bt_get (fr_sets r1) k = bt_get (fr_sets r) k"
    using open_set_OkD [OF o inv] by simp_all
  have set: "set packets = held_at r ?k \<union> pk" using admit_packets [OF a] pk by (simp add: held_at_def)
  have old: "held r = held_at r ?k \<union> ?others" by (rule held_split) simp
  from updated_settles [OF u fr_invD(1) [OF r1(1)]] show ?thesis
  proof (elim disjE exE conjE)
    fix a
    assume out: "out = Pending" and g: "\<forall>k. bt_get (fr_sets r') k = (if k = ?k then bt_get (fr_sets r') ?k else bt_get (fr_sets r1) k)"
      and k: "bt_get (fr_sets r') ?k = Some a" "as_packets a = packets"
    have "bt_get (fr_sets r') k' = bt_get (fr_sets r) k'" if "k' \<noteq> ?k" for k' using g r1(2) that by (metis (full_types))
    then have "held r' = held_at r' ?k \<union> ?others" by (rule held_split)
    moreover have "held_at r' ?k = set packets" using k by (simp add: held_at_def)
    ultimately show ?thesis using old set by (auto simp: out)
  next
    fix a code
    assume out: "out = rejected code packets" and g: "\<forall>k. k \<noteq> ?k \<longrightarrow> bt_get (fr_sets r') k = bt_get (fr_sets r1) k"
      and k: "bt_get (fr_sets r') ?k = Some a" "as_packets a = packets"
    have "bt_get (fr_sets r') k' = bt_get (fr_sets r) k'" if "k' \<noteq> ?k" for k' using g r1(2) that by simp
    then have "held r' = held_at r' ?k \<union> ?others" by (rule held_split)
    moreover have "held_at r' ?k = set packets" using k by (simp add: held_at_def)
    moreover have "settled out = set packets" "out \<noteq> Pending" using out by (simp_all add: rejected_def)
    ultimately show ?thesis using old set by auto
  next
    fix d
    assume out: "out = Complete d packets" and g: "\<forall>k. bt_get (fr_sets r') k = (if k = ?k then None else bt_get (fr_sets r1) k)"
    have "bt_get (fr_sets r') k' = bt_get (fr_sets r) k'" if "k' \<noteq> ?k" for k' using g r1(2) that by simp
    then have "held r' = held_at r' ?k \<union> ?others" by (rule held_split)
    moreover have "held_at r' ?k = {}" using g by (simp add: held_at_def)
    ultimately show ?thesis using old set by (auto simp: out)
  qed
qed (use pk in \<open>auto simp: rejected_def\<close>)

lemma admit_Err: "admit r key dg = Err e \<Longrightarrow> err_code e = LimitExceeded"
  by (auto simp: admit_def Let_def and_then_eq_Err ok_or_eq_Err split: if_split_asm option.split_asm)

lemma open_set_Err: "open_set r key dg frame = Err e \<Longrightarrow> err_code e = LimitExceeded"
  by (auto simp: open_set_def split: if_split_asm)

lemma push_budget:
  assumes inv: "fr_inv r" and l: "limits_validate (fr_limits r) = Ok ()" and v: "dg_fragment dg \<noteq> None \<Longrightarrow> ev_validate (dg_payload dg)"
  shows "budgeted (snd (fragment_push r dg frame)) (\<lambda>_. True)"
proof -
  have "err_code e = LimitExceeded" if e: "fragment_push r dg frame = (r', Err e)" for r' e
  proof (cases "\<exists>info packets n r1. dg_fragment dg = Some info \<and> part_ok (new_part dg info)
      \<and> admit r (frag_key_of dg info) dg = Ok (packets, n) \<and> open_set r (frag_key_of dg info) dg frame = Ok r1
      \<and> fragment_push r dg frame = update_set r1 (frag_key_of dg info) dg info packets n")
    case True
    then obtain info packets n r1 where u: "part_ok (new_part dg info)" "admit r (frag_key_of dg info) dg = Ok (packets, n)"
      "open_set r (frag_key_of dg info) dg frame = Ok r1"
      "fragment_push r dg frame = update_set r1 (frag_key_of dg info) dg info packets n" by blast
    from admitted_inv [OF inv u(2,3) admitted_updated [OF inv l u(1-3)]] show ?thesis using e u(4) by auto
  next
    case False
    then show ?thesis using e l v
      by (auto simp: fragment_push_def part_ok_def new_part_def checked_add_def usize_limit_def ev_is_empty_def ev_len_def part_end_def
          and_then_eq_Err elim!: and_then_OkE dest: admit_Err open_set_Err
          split: option.split_asm if_split_asm outcome.split_asm prod.split_asm)
  qed
  then show ?thesis using push_inv [OF inv, of dg frame] by (metis budgeted_def prod.collapse yields_iff)
qed

section \<open>Conservation\<close>

text \<open>
  Every packet held for reassembly has been observed, and every packet without a terminal disposition is held,
  or is one of the packets being processed.
\<close>

definition conserved :: "reassembler \<Rightarrow> packet_observation list \<Rightarrow> packet_id set \<Rightarrow> bool" where
  "conserved r packets open \<longleftrightarrow> frames_ok packets \<and> held r \<subseteq> ids packets
     \<and> (\<forall>p \<in> set packets. is_nonterminal p \<longrightarrow> ob_id p \<in> held r \<union> open)"

lemma conserved_update:
  assumes c: "conserved r packets open" and pids: "set pids \<subseteq> ids packets"
    and action: "\<And>p. ob_fixed (action p) = ob_fixed p" "\<And>p. \<not> is_nonterminal (action p) \<and> T (action p)"
    and r': "held r' \<subseteq> ids packets" "held r \<subseteq> held r' \<union> set pids"
  shows "\<exists>packets'. each_packet action packets pids = Ok packets' \<and> map ob_fixed packets' = map ob_fixed packets
    \<and> conserved r' packets' (open - set pids)
    \<and> (\<forall>p \<in> set packets'. p \<in> set packets \<or> T p \<and> ob_id p \<in> set pids)"
proof -
  obtain packets' where p: "each_packet action packets pids = Ok packets'" "map ob_fixed packets' = map ob_fixed packets"
    "\<forall>i < length packets. if ob_id (packets ! i) \<in> set pids then \<not> is_nonterminal (packets' ! i) \<and> T (packets' ! i)
       else packets' ! i = packets ! i"
    using each_packet_ok [OF _ pids action(1), where T = "\<lambda>p. \<not> is_nonterminal p \<and> T p"] c action(2) unfolding conserved_def by blast
  have idm: "map ob_id packets' = map ob_id packets" by (rule fixed_ids [OF p(2)])
  then have len: "length packets' = length packets" by (metis length_map)
  have same: "ob_id (packets' ! i) = ob_id (packets ! i)" if "i < length packets" for i
    using idm len that by (metis nth_map)
  have each: "\<not> is_nonterminal q \<and> T q \<and> ob_id q \<in> set pids \<or> q \<in> set packets \<and> ob_id q \<notin> set pids" if q: "q \<in> set packets'" for q
  proof -
    obtain i where i: "i < length packets" "q = packets' ! i" using q unfolding in_set_conv_nth len by blast
    then have "if ob_id (packets ! i) \<in> set pids then \<not> is_nonterminal q \<and> T q else q = packets ! i" using p(3) by simp
    then show ?thesis using same [OF i(1)] i by (cases "ob_id (packets ! i) \<in> set pids") auto
  qed
  have "frames_ok packets'" using c len same by (simp add: conserved_def frames_ok_def)
  moreover have "ids packets' = ids packets" using arg_cong [OF idm, of set] by (simp add: ids_def)
  moreover have "ob_id q \<in> held r' \<union> (open - set pids)" if "q \<in> set packets'" "is_nonterminal q" for q
    using each [OF that(1)] that(2) c r'(2) by (auto simp: conserved_def)
  ultimately have "conserved r' packets' (open - set pids)" using r'(1) by (simp add: conserved_def)
  then show ?thesis using p(1,2) each by blast
qed

section \<open>The invariant of the pipeline\<close>

definition linked :: "tracker \<Rightarrow> packet_observation list \<Rightarrow> bool" where
  "linked t packets \<longleftrightarrow> (\<forall>p \<in> set packets. \<forall>f d. ob_disposition p = DispTcp f d \<longrightarrow>
     f < length (tk_flows t) \<and> ob_id p \<in> set (fl_packets (tk_flows t ! f)))"

definition engine_inv :: "config \<Rightarrow> reassembler \<Rightarrow> engine_state \<Rightarrow> packet_id set \<Rightarrow> bool" where
  "engine_inv c r s open \<longleftrightarrow> fr_inv (es_fragments s) \<and> fr_limits (es_fragments s) = cg_limits c
     \<and> tk_run (cg_limits c) (cg_idle_timeout_ns c) (es_tracker s)
     \<and> conserved r (es_packets s) open \<and> linked (es_tracker s) (es_packets s)"

definition same_books :: "engine_state \<Rightarrow> engine_state \<Rightarrow> bool" where
  "same_books s s' \<longleftrightarrow> map ob_fixed (es_packets s') = map ob_fixed (es_packets s) \<and> es_records s' = es_records s
     \<and> es_metadata_records s' = es_metadata_records s \<and> es_secret_blocks s' = es_secret_blocks s"

lemma same_books_refl [simp]: "same_books s s"
  by (simp add: same_books_def)

lemma same_books_trans: "same_books s t \<Longrightarrow> same_books t u \<Longrightarrow> same_books s u"
  by (simp add: same_books_def)

lemma same_books_ids: "same_books s s' \<Longrightarrow> ids (es_packets s') = ids (es_packets s)"
  unfolding same_books_def ids_def by (metis fixed_ids list.set_map)

text \<open>
  Giving packets a terminal disposition settles them, whether they were held before or are being processed.
\<close>

lemma update_packets_ok:
  assumes inv: "engine_inv c r s open" and pids: "set pids \<subseteq> ids (es_packets s)"
    and r': "held r' \<subseteq> ids (es_packets s)" "held r \<subseteq> held r' \<union> set pids"
    and action: "\<And>p. ob_fixed (action p) = ob_fixed p" "\<And>p. \<not> is_nonterminal (action p)"
    and tcp: "\<And>p f d. ob_disposition (action p) = DispTcp f d \<Longrightarrow>
      f < length (tk_flows (es_tracker s)) \<and> set pids \<subseteq> set (fl_packets (tk_flows (es_tracker s) ! f))"
  shows "\<exists>packets. each_packet action (es_packets s) pids = Ok packets
    \<and> (\<forall>s'. es_packets s' = packets \<and> es_fragments s' = es_fragments s \<and> es_tracker s' = es_tracker s \<longrightarrow> engine_inv c r' s' (open - set pids))
    \<and> map ob_fixed packets = map ob_fixed (es_packets s)"
proof -
  let ?T = "\<lambda>p. \<forall>f d. ob_disposition p = DispTcp f d \<longrightarrow>
      f < length (tk_flows (es_tracker s)) \<and> set pids \<subseteq> set (fl_packets (tk_flows (es_tracker s) ! f))"
  obtain packets where p: "each_packet action (es_packets s) pids = Ok packets" "map ob_fixed packets = map ob_fixed (es_packets s)"
    "conserved r' packets (open - set pids)" "\<forall>p \<in> set packets. p \<in> set (es_packets s) \<or> ?T p \<and> ob_id p \<in> set pids"
    using conserved_update [where T = ?T and r' = r', OF _ pids action(1) _ r'] inv action(2) tcp unfolding engine_inv_def by blast
  have "linked (es_tracker s) packets"
    unfolding linked_def
  proof (intro ballI allI impI)
    fix p f d
    assume q: "p \<in> set packets" "ob_disposition p = DispTcp f d"
    show "f < length (tk_flows (es_tracker s)) \<and> ob_id p \<in> set (fl_packets (tk_flows (es_tracker s) ! f))"
    proof (cases "p \<in> set (es_packets s)")
      case True
      then show ?thesis using inv q(2) unfolding engine_inv_def linked_def by blast
    next
      case False
      then show ?thesis using p(4) q by blast
    qed
  qed
  then show ?thesis using p(1-3) inv unfolding engine_inv_def by auto
qed

lemma take_notice_ok:
  assumes inv: "engine_inv c r s open" and n: "set (fn_packets n) \<subseteq> ids (es_packets s)"
    and r': "held r' \<subseteq> ids (es_packets s)" "held r \<subseteq> held r' \<union> set (fn_packets n)"
  shows "budgeted (take_notice s n) (\<lambda>s'. engine_inv c r' s' (open - set (fn_packets n)) \<and> same_books s s' \<and> es_fragments s' = es_fragments s)"
proof -
  obtain packets where "mark_incomplete (es_packets s) n = Ok packets"
    "\<forall>s'. es_packets s' = packets \<and> es_fragments s' = es_fragments s \<and> es_tracker s' = es_tracker s \<longrightarrow> engine_inv c r' s' (open - set (fn_packets n))"
    "map ob_fixed packets = map ob_fixed (es_packets s)"
    using update_packets_ok [OF inv n r', of "\<lambda>p. p\<lparr>ob_disposition := DispFragmentIncomplete (fn_code n)\<rparr>"]
    by (auto simp: mark_incomplete_def is_nonterminal_def ob_fixed_def)
  then show ?thesis by (simp add: take_notice_def same_books_def)
qed

lemma take_notices_ok:
  assumes inv: "engine_inv c r s (\<Union>n \<in> set ns. set (fn_packets n))" and n: "\<forall>n \<in> set ns. set (fn_packets n) \<subseteq> ids (es_packets s)"
  shows "budgeted (for_each take_notice s ns) (\<lambda>s'. engine_inv c r s' {} \<and> same_books s s' \<and> es_fragments s' = es_fragments s)"
proof -
  let ?U = "\<Union>n \<in> set ns. set (fn_packets n)"
  let ?P = "\<lambda>seen s'. engine_inv c r s' (?U - (\<Union>n \<in> set seen. set (fn_packets n))) \<and> same_books s s' \<and> es_fragments s' = es_fragments s"
  have "budgeted (for_each take_notice s ns) (?P ns)"
  proof (rule budgeted_each [where P = ?P])
    show "?P [] s" using inv by simp
    fix seen n rest t
    assume e: "ns = seen @ n # rest" and p: "?P seen t"
    have ids: "ids (es_packets t) = ids (es_packets s)" using p same_books_ids by blast
    have "held r \<subseteq> ids (es_packets t)" using p by (auto simp: engine_inv_def conserved_def)
    then have "budgeted (take_notice t n) (\<lambda>s'. engine_inv c r s' (?U - (\<Union>n \<in> set seen. set (fn_packets n)) - set (fn_packets n))
        \<and> same_books t s' \<and> es_fragments s' = es_fragments t)"
      using p n e ids by (intro take_notice_ok) auto
    then show "budgeted (take_notice t n) (?P (seen @ [n]))"
    proof (rule budgeted_mono)
      fix u
      assume u: "engine_inv c r u (?U - (\<Union>n \<in> set seen. set (fn_packets n)) - set (fn_packets n)) \<and> same_books t u \<and> es_fragments u = es_fragments t"
      have "?U - (\<Union>n \<in> set (seen @ [n]). set (fn_packets n)) = ?U - (\<Union>n \<in> set seen. set (fn_packets n)) - set (fn_packets n)"
        by auto
      then show "?P (seen @ [n]) u" using u p same_books_trans by metis
    qed
  qed
  then show ?thesis by (rule budgeted_mono) simp
qed

section \<open>The current packet\<close>

lemma frames_ok_snoc [simp]: "frames_ok (xs @ [p]) \<longleftrightarrow> frames_ok xs \<and> pid_frame (ob_id p) = length xs + 1"
  by (auto simp: frames_ok_def nth_append less_Suc_eq)

lemma update_current_ok:
  assumes inv: "engine_inv c r s open" and ps: "es_packets s = old @ [p]"
    and r': "held r \<subseteq> held r'" "held r' \<subseteq> ids (es_packets s)" "\<And>q. q \<in> set old \<Longrightarrow> ob_id q \<notin> open"
    and action: "ob_fixed (action p) = ob_fixed p" "is_nonterminal (action p) \<Longrightarrow> ob_id p \<in> held r' \<union> open'"
      "\<forall>f d. ob_disposition (action p) \<noteq> DispTcp f d"
  shows "engine_inv c r' (update_current action s) open'" and "same_books s (update_current action s)"
proof -
  have new: "es_packets (update_current action s) = old @ [action p]" by (simp add: update_current_def ps)
  have id: "ob_id (action p) = ob_id p" using action(1) by (simp add: ob_fixed_def)
  have "frames_ok (old @ [action p])"
    using inv ps id by (simp add: engine_inv_def conserved_def)
  moreover have "ids (old @ [action p]) = ids (es_packets s)" by (simp add: ids_def ps id)
  moreover have "ob_id q \<in> held r' \<union> open'" if "q \<in> set (old @ [action p])" "is_nonterminal q" for q
    using that inv action(2) r'(1,3) id ps by (auto simp: engine_inv_def conserved_def)
  ultimately have "conserved r' (old @ [action p]) open'" using r'(2) by (simp add: conserved_def)
  moreover have "linked (es_tracker s) (old @ [action p])"
    using inv action(3) ps by (auto simp: engine_inv_def linked_def)
  moreover have "es_fragments (update_current action s) = es_fragments s" "es_tracker (update_current action s) = es_tracker s"
    by (simp_all add: update_current_def)
  ultimately show "engine_inv c r' (update_current action s) open'" using inv unfolding engine_inv_def new by simp
  show "same_books s (update_current action s)" unfolding same_books_def new ps by (simp add: action(1) update_current_def)
qed

section \<open>TCP\<close>

lemma ingest_budget:
  assumes run: "tk_run l idle t" and ne: "packets \<noteq> []" and g: "ingest_with_packets t sc packets at seg = (t', Err e)"
  shows "err_code e = LimitExceeded"
proof -
  have inv: "tk_inv t" by (rule tk_run_inv [OF run])
  obtain key d where key: "flow_key_new sc (seg_source seg) (seg_destination seg) = (key, d)" by fastforce
  obtain sel where sel: "select_flow t key d at seg = Ok sel" using select_flow_ok [OF inv] by blast
  have assign: "err_code e = LimitExceeded" if "assign u i d at packets seg n = (t', Err e)" for u i n
    using that by (auto simp: assign_def index_at_def split: outcome.split_asm if_split_asm)
  show ?thesis
    using g ne key sel
    by (auto simp: ingest_with_packets_def tracker_create_def Let_def intro: assign
        split: option.split_asm if_split_asm flow_choice.split_asm outcome.split_asm prod.split_asm)
qed

lemma flow_add_packets: "set packets \<subseteq> set (fl_packets (flow_add f d at packets seg))" "set (fl_packets f) \<subseteq> set (fl_packets (flow_add f d at packets seg))"
  by (auto simp: flow_add_def note_time_def note_fin_def Let_def split: option.split)

lemma added_packets:
  assumes "added t sc packets at seg t' i d"
  shows "i < length (tk_flows t')" "set packets \<subseteq> set (fl_packets (tk_flows t' ! i))"
    "f < length (tk_flows t) \<Longrightarrow> f < length (tk_flows t') \<and> set (fl_packets (tk_flows t ! f)) \<subseteq> set (fl_packets (tk_flows t' ! f))"
proof -
  obtain key g where g: "tk_flows t' = take i (tk_flows t) @ flow_add g d at packets seg # drop (Suc i) (tk_flows t)"
    "(i < length (tk_flows t) \<and> g = tk_flows t ! i) \<or> i = length (tk_flows t)"
    using assms unfolding added_def may_take_def by blast
  have i: "i \<le> length (tk_flows t)" using g(2) by auto
  then show "i < length (tk_flows t')" by (simp add: g(1))
  have at: "tk_flows t' ! i = flow_add g d at packets seg" using i by (simp add: g(1) nth_append)
  then show "set packets \<subseteq> set (fl_packets (tk_flows t' ! i))" using flow_add_packets(1) by metis
  show "f < length (tk_flows t') \<and> set (fl_packets (tk_flows t ! f)) \<subseteq> set (fl_packets (tk_flows t' ! f))" if "f < length (tk_flows t)"
  proof (cases "f = i")
    case True
    then have "g = tk_flows t ! f" using g(2) that by auto
    then show ?thesis using True at flow_add_packets(2) \<open>i < length (tk_flows t')\<close> by metis
  next
    case False
    then have "tk_flows t' ! f = tk_flows t ! f" using i that by (auto simp: g(1) nth_append min_def not_less Suc_diff_Suc nth_Cons')
    then show ?thesis using that i by (simp add: g(1))
  qed
qed

lemma ingest_linked:
  assumes run: "tk_run l idle t" and g: "ingest_with_packets t sc packets at seg = (t', Ok a)" and k: "linked t ps"
  shows "linked t' ps" and "assignment_disposition a = DispTcp f d \<Longrightarrow> f < length (tk_flows t') \<and> set packets \<subseteq> set (fl_packets (tk_flows t' ! f))"
proof -
  note c = ingest_cases [OF tk_run_inv [OF run] g]
  show "linked t' ps"
  proof (cases "t' = t")
    case False
    then obtain i d where "added t sc packets at seg t' i d" using c by blast
    from added_packets(3) [OF this] show ?thesis using k unfolding linked_def by blast
  qed (use k in simp)
  show "f < length (tk_flows t') \<and> set packets \<subseteq> set (fl_packets (tk_flows t' ! f))" if "assignment_disposition a = DispTcp f d"
  proof -
    have "a = Assigned f d" using that by (cases a) simp_all
    then have "added t sc packets at seg t' f d" using c by auto
    then show ?thesis using added_packets(1,2) by blast
  qed
qed

definition settles :: "config \<Rightarrow> engine_state \<Rightarrow> engine_state \<Rightarrow> bool" where
  "settles c s s' \<longleftrightarrow> engine_inv c (es_fragments s) s' {} \<and> same_books s s' \<and> es_fragments s' = es_fragments s"

definition ready :: "config \<Rightarrow> reassembler \<Rightarrow> engine_state \<Rightarrow> packet_id set \<Rightarrow> packet_id list \<Rightarrow> bool" where
  "ready c r s open contributors \<longleftrightarrow> engine_inv c r s open \<and> contributors \<noteq> [] \<and> set contributors \<subseteq> ids (es_packets s)
     \<and> open \<subseteq> set contributors \<and> held (es_fragments s) \<subseteq> ids (es_packets s) \<and> held r \<subseteq> held (es_fragments s) \<union> set contributors"

lemma update_settles:
  assumes s: "ready c r s open contributors"
    and action: "\<And>p. ob_fixed (action p) = ob_fixed p" "\<And>p. \<not> is_nonterminal (action p)"
    and tcp: "\<And>p f d. ob_disposition (action p) = DispTcp f d \<Longrightarrow>
      f < length (tk_flows (es_tracker s)) \<and> set contributors \<subseteq> set (fl_packets (tk_flows (es_tracker s) ! f))"
  shows "budgeted (update_packets action contributors s) (settles c s)"
proof -
  have r: "engine_inv c r s open" "set contributors \<subseteq> ids (es_packets s)" "held (es_fragments s) \<subseteq> ids (es_packets s)"
    "held r \<subseteq> held (es_fragments s) \<union> set contributors" "open - set contributors = {}"
    using s unfolding ready_def by blast+
  obtain packets where "each_packet action (es_packets s) contributors = Ok packets"
    "\<forall>s'. es_packets s' = packets \<and> es_fragments s' = es_fragments s \<and> es_tracker s' = es_tracker s
       \<longrightarrow> engine_inv c (es_fragments s) s' (open - set contributors)"
    "map ob_fixed packets = map ob_fixed (es_packets s)"
    using update_packets_ok [where action = action, OF r(1-4) action] tcp by blast
  then show ?thesis using r(5) by (simp add: update_packets_def settles_def same_books_def)
qed

lemma assignment_terminal: "assignment_disposition a \<notin> {DispPending, DispFragmentPending}"
  by (cases a) simp_all

lemma engine_tcp_ok:
  assumes s: "ready c r s open contributors"
  shows "budgeted (engine_tcp s sc contributors time seg) (settles c s)"
proof -
  obtain t' res where g: "ingest_with_packets (es_tracker s) sc contributors time seg = (t', res)" by fastforce
  have run: "tk_run (cg_limits c) (cg_idle_timeout_ns c) (es_tracker s)" and ne: "contributors \<noteq> []" and k: "linked (es_tracker s) (es_packets s)"
    using s by (simp_all add: ready_def engine_inv_def)
  show ?thesis
  proof (cases res)
    case (Ok a)
    let ?s = "s\<lparr>es_tracker := t'\<rparr>"
    note l = ingest_linked [OF run g [unfolded Ok] k]
    have "tk_run (cg_limits c) (cg_idle_timeout_ns c) t'" using tk_step [OF run g] .
    then have r: "ready c r ?s open contributors" using s l(1) unfolding ready_def engine_inv_def by simp
    have "budgeted (engine_tcp s sc contributors time seg) (settles c ?s)"
      unfolding engine_tcp_def g Ok
      by (simp, rule update_settles [OF r]) (use l(2) assignment_terminal in \<open>auto simp: ob_fixed_def is_nonterminal_def\<close>)
    then show ?thesis by (rule budgeted_mono) (simp add: settles_def same_books_def)
  next
    case (Err e)
    then show ?thesis using ingest_budget [OF run ne] g by (simp add: engine_tcp_def)
  next
    case Panic
    then show ?thesis using ingest_cases [OF tk_run_inv [OF run] g] by auto
  qed
qed

section \<open>UDP\<close>

lemma decode_datagram_no_panic: "decode_dnp3_datagram e l \<noteq> Panic"
proof -
  have "dnp3_decode \<lparr>sr_base = None, sr_anchored = False, sr_chunks = (if ev_is_empty e then [] else [\<lparr>ch_offset = 0, ch_bytes = e\<rparr>]),
      sr_gaps = [], sr_conflicts = [], sr_duplicates = 0\<rparr> l \<noteq> Panic"
    by (rule dnp3.decode_total) (simp add: i64_chunks_def in_i64_def)
  then show ?thesis
    by (cases "limits_validate l") (auto simp: decode_dnp3_datagram_def limits_validate_no_panic)
qed

lemma analyze_udp_ok:
  assumes "limits_validate l = Ok ()" "contributors \<noteq> []"
  shows "\<exists>x. analyze_udp sc dg contributors ports l = Ok x"
proof -
  obtain r where "attempt (decode_dnp3_datagram (udp_payload dg) l) = Ok r" using attempt_ok [OF decode_datagram_no_panic] by blast
  then show ?thesis using assms by (auto simp: analyze_udp_def)
qed

lemma engine_udp_ok:
  assumes s: "ready c r s open contributors" and l: "limits_validate (cg_limits c) = Ok ()"
  shows "budgeted (engine_udp c s sc contributors dg) (settles c s)"
  unfolding engine_udp_def
proof (rule budgeted_then, rule update_settles [OF s], goal_cases)
  case (4 s1)
  have ne: "contributors \<noteq> []" using s by (simp add: ready_def)
  obtain found where f: "analyze_udp sc dg contributors (cg_dnp3_ports c) (cg_limits c) = Ok found" using analyze_udp_ok [OF l ne] by blast
  have "settles c s (s1\<lparr>es_datagrams := ds, es_udp_retained := n\<rparr>)" for ds n
    using 4 by (auto simp: settles_def engine_inv_def same_books_def)
  then show ?case using 4 f
    by (auto intro!: budgeted_then [where P = "\<lambda>_. True"] split: option.split)
qed (simp_all add: ob_fixed_def is_nonterminal_def)

section \<open>Packets\<close>

lemma cut_packets:
  assumes "cut_from pid packet e" "length packet < usize_limit"
  shows "ev_packets e = (if ev_len e = 0 then [] else [pid])" and "ev_validate e"
proof -
  obtain a b where e: "a \<le> b" "b \<le> length packet" "e = from_packet (sub_list packet a b) pid a"
    using assms(1) by (auto simp: cut_from_def)
  show "ev_packets e = (if ev_len e = 0 then [] else [pid])"
    by (cases "sub_list packet a b") (simp_all add: e(3) ev_len_def ev_packets_from_packet, simp add: from_packet_def ev_packets_def sort_dedup_def)
  show "ev_validate e" using e assms(2) by (simp add: from_packet_valid)
qed

lemma engine_datagram_ok:
  assumes s: "ready c r s open (if pids = [] then [pid] else pids)" and l: "limits_validate (cg_limits c) = Ok ()"
  shows "budgeted (engine_datagram c pid time s dg pids) (settles c s)"
proof (cases "decode_transport dg (cg_checksum_policy c)")
  case (Ok t)
  then show ?thesis using engine_tcp_ok [OF s] engine_udp_ok [OF s l]
    by (cases t) (simp_all add: engine_datagram_def)
next
  case (Err e)
  then show ?thesis unfolding engine_datagram_def Let_def Err outcome.case
    by (intro update_settles [OF s]) (simp_all add: ob_fixed_def is_nonterminal_def error_disposition_def)
next
  case Panic
  then show ?thesis using decode_transport_no_panic by blast
qed

text \<open>The state between pushing an observation and settling it.\<close>

definition current :: "config \<Rightarrow> packet_id \<Rightarrow> engine_state \<Rightarrow> bool" where
  "current c pid s \<longleftrightarrow> engine_inv c (es_fragments s) s {pid} \<and> (\<exists>old p. es_packets s = old @ [p] \<and> ob_id p = pid
     \<and> (\<forall>f d. ob_disposition p \<noteq> DispTcp f d))"

lemma current_fresh:
  assumes "engine_inv c r s open" "es_packets s = old @ [p]" "q \<in> set old"
  shows "ob_id q \<noteq> ob_id p"
proof -
  obtain i where "i < length old" "q = old ! i" using assms(3) unfolding in_set_conv_nth by blast
  moreover have "frames_ok old" "pid_frame (ob_id p) = length old + 1" using assms(1,2) by (simp_all add: engine_inv_def conserved_def)
  ultimately have "pid_frame (ob_id q) \<noteq> pid_frame (ob_id p)" by (simp add: frames_ok_def)
  then show ?thesis by auto
qed

lemma current_update:
  assumes s: "current c pid s" and action: "\<And>p. ob_fixed (action p) = ob_fixed p" "\<And>p f d. ob_disposition (action p) = DispTcp f d \<Longrightarrow> ob_disposition p = DispTcp f d"
  shows "current c pid (update_current action s)" "same_books s (update_current action s)"
    "(\<And>p. \<not> is_nonterminal (action p)) \<Longrightarrow> engine_inv c (es_fragments s) (update_current action s) {}"
    "es_fragments (update_current action s) = es_fragments s"
proof -
  obtain old p where p: "es_packets s = old @ [p]" "ob_id p = pid" "\<forall>f d. ob_disposition p \<noteq> DispTcp f d"
    and inv: "engine_inv c (es_fragments s) s {pid}" using s by (auto simp: current_def)
  have fresh: "ob_id q \<notin> {pid}" if "q \<in> set old" for q using current_fresh [OF inv p(1) that] p(2) by simp
  have h: "held (es_fragments s) \<subseteq> ids (es_packets s)" using inv by (simp add: engine_inv_def conserved_def)
  have tcp: "\<forall>f d. ob_disposition (action p) \<noteq> DispTcp f d" using action(2) p(3) by blast
  note u = update_current_ok [where action = action, OF inv p(1) subset_refl h fresh action(1) _ tcp]
  show same: "same_books s (update_current action s)" using u(2) [of "{pid}"] p(2) by simp
  show fr: "es_fragments (update_current action s) = es_fragments s" by (simp add: update_current_def)
  have "ob_id (action p) = pid" using action(1) [of p] p(2) by (simp add: ob_fixed_def)
  moreover have "es_packets (update_current action s) = old @ [action p]" by (simp add: update_current_def p(1))
  ultimately show "current c pid (update_current action s)"
    using u(1) [of "{pid}"] p(2) tcp fr unfolding current_def by auto
  show "engine_inv c (es_fragments s) (update_current action s) {}" if "\<And>p. \<not> is_nonterminal (action p)"
    using u(1) [of "{}"] that by simp
qed

lemma engine_network_ok:
  assumes s: "current c pid s" and l: "limits_validate (cg_limits c) = Ok ()"
    and dg: "datagram_ok pid data sc network" and data: "length data < usize_limit"
  shows "budgeted (engine_network c pid time s network) (\<lambda>s'. engine_inv c (es_fragments s') s' {} \<and> same_books s s')"
proof -
  let ?warn = "\<lambda>p. p\<lparr>ob_warnings := ob_warnings p @ [''invalid_ipv4_checksum_observed'']\<rparr>"
  define s1 where "s1 = (if ip_checksum network = Invalid then update_current ?warn s else s)"
  have s1: "current c pid s1" "same_books s s1" "es_fragments s1 = es_fragments s"
    using s current_update [OF s, of ?warn] by (simp_all add: s1_def ob_fixed_def)
  let ?pk = "set (ev_packets (dg_payload network))"
  have pk: "?pk \<subseteq> {pid}" "dg_fragment network \<noteq> None \<Longrightarrow> ?pk = {pid}" and valid: "ev_validate (dg_payload network)"
  proof -
    have cut: "cut_from pid data (dg_payload network)" "dg_fragment network \<noteq> None \<Longrightarrow> 0 < ev_len (dg_payload network)"
      using dg by (auto simp: datagram_ok_def fragment_ok_def)
    show "?pk \<subseteq> {pid}" "ev_validate (dg_payload network)" using cut_packets [OF cut(1) data] by simp_all
    show "?pk = {pid}" if "dg_fragment network \<noteq> None" using cut_packets(1) [OF cut(1) data] cut(2) [OF that] by simp
  qed
  have inv: "engine_inv c (es_fragments s1) s1 {pid}" "fr_inv (es_fragments s1)" "fr_limits (es_fragments s1) = cg_limits c"
    "pid \<in> ids (es_packets s1)" "held (es_fragments s1) \<subseteq> ids (es_packets s1)"
    using s1(1) by (auto simp: current_def engine_inv_def conserved_def ids_def)
  obtain fr res where p: "fragment_push (es_fragments s1) network (pid_frame pid) = (fr, res)" by fastforce
  have fr: "fr_inv fr" "fr_limits fr = cg_limits c" "budgeted res (\<lambda>_. True)"
    using push_inv [OF inv(2), of network "pid_frame pid"] push_budget [OF inv(2), of network "pid_frame pid"] l inv(3) valid p by auto
  let ?s = "s1\<lparr>es_fragments := fr\<rparr>"
  have mid: "engine_inv c (es_fragments s1) ?s {pid}" using inv(1) fr by (simp add: engine_inv_def)
  have net: "engine_network c pid time s network =
     (if cg_checksum_policy c = RequireValid \<and> ip_checksum network = Invalid
      then Ok (update_current (\<lambda>p. p\<lparr>ob_disposition := DispRejected ''checksum'' ''IPv4 checksum rejected by configured policy''\<rparr>) s1)
      else case res of
          Err e \<Rightarrow> Err e
        | Panic \<Rightarrow> Panic
        | Ok Pending \<Rightarrow> Ok (update_current (\<lambda>p. p\<lparr>ob_disposition := DispFragmentPending\<rparr>) ?s)
        | Ok (Rejected n) \<Rightarrow> take_notice ?s n
        | Ok (Complete d pids) \<Rightarrow> engine_datagram c pid time ?s d pids)"
    unfolding engine_network_def Let_def s1_def [symmetric] p by (simp split: outcome.split fragment_outcome.split)
  show ?thesis
  proof (cases "cg_checksum_policy c = RequireValid \<and> ip_checksum network = Invalid")
    case True
    then show ?thesis
      using current_update [OF s1(1), of "\<lambda>p. p\<lparr>ob_disposition := DispRejected ''checksum'' ''IPv4 checksum rejected by configured policy''\<rparr>"]
        same_books_trans [OF s1(2)] by (simp add: net ob_fixed_def is_nonterminal_def)
  next
    case False
    show ?thesis
    proof (cases res)
      case (Ok out)
      note h = push_held [OF inv(2) p [unfolded Ok] refl]
      have heldr: "held fr \<subseteq> ids (es_packets ?s)" using h pk(1) inv(4,5) by auto
      show ?thesis
      proof (cases out)
        case Pending
        have frag: "dg_fragment network \<noteq> None" using push_split [OF inv(2) p [unfolded Ok]] Pending by auto
        obtain old q where q: "es_packets ?s = old @ [q]" "ob_id q = pid" using s1(1) by (auto simp: current_def)
        have fresh: "ob_id x \<notin> {pid}" if "x \<in> set old" for x using current_fresh [OF mid q(1) that] q(2) by simp
        let ?f = "\<lambda>p. p\<lparr>ob_disposition := DispFragmentPending\<rparr>"
        have "engine_inv c fr (update_current ?f ?s) {}" "same_books ?s (update_current ?f ?s)"
          using h Pending pk(2) [OF frag] q(2)
          by (intro update_current_ok [OF mid q(1) _ heldr fresh, where action = ?f and open' = "{}"]; auto simp: ob_fixed_def)+
        moreover have "es_fragments (update_current ?f ?s) = fr" by (simp add: update_current_def)
        ultimately show ?thesis using False Ok Pending same_books_trans [OF s1(2)] by (auto simp: net same_books_def)
      next
        case (Rejected n)
        have frag: "dg_fragment network \<noteq> None" using push_split [OF inv(2) p [unfolded Ok]] Rejected by auto
        have sub: "set (fn_packets n) \<subseteq> ids (es_packets ?s)" "held (es_fragments s1) \<subseteq> held fr \<union> set (fn_packets n)" "{pid} - set (fn_packets n) = {}"
          using h Rejected pk inv(4,5) frag by auto
        have "budgeted (take_notice ?s n) (\<lambda>s'. engine_inv c (es_fragments s') s' {} \<and> same_books s s')"
          by (rule budgeted_mono [OF take_notice_ok [OF mid sub(1) heldr sub(2)]])
            (use sub(3) s1(2) in \<open>auto simp: same_books_def\<close>)
        then show ?thesis using False Ok Rejected by (auto simp: net)
      next
        case (Complete d pids)
        have mem: "pid \<in> set (if pids = [] then [pid] else pids)"
        proof (cases "dg_fragment network")
          case None
          then have "pids = ev_packets (dg_payload network)" using push_split [OF inv(2) p [unfolded Ok]] Complete by (auto simp: rejected_def)
          then have "set pids \<subseteq> {pid}" using pk(1) by simp
          then show ?thesis by (cases pids) auto
        next
          case (Some info)
          then show ?thesis using h Complete pk(2) by auto
        qed
        have "ready c (es_fragments s1) ?s {pid} (if pids = [] then [pid] else pids)"
          using mid mem h Complete pk(1) inv(4,5) heldr unfolding ready_def by auto
        then have "budgeted (engine_datagram c pid time ?s d pids) (settles c ?s)" by (rule engine_datagram_ok [OF _ l])
        then have "budgeted (engine_datagram c pid time ?s d pids) (\<lambda>s'. engine_inv c (es_fragments s') s' {} \<and> same_books s s')"
          by (rule budgeted_mono) (use s1(2) in \<open>auto simp: settles_def same_books_def\<close>)
        then show ?thesis using False Ok Complete by (auto simp: net)
      qed
    qed (use fr(3) False in \<open>auto simp: net\<close>)
  qed
qed

text \<open>What is recorded of the packets of a list of records.\<close>

definition observations :: "bytes \<Rightarrow> cap_record list \<Rightarrow> (packet_id \<times> packet_meta \<times> bytes) list" where
  "observations identity recs = concat (map (\<lambda>r. case record_packet r of
      Ok (Some (m, data)) \<Rightarrow> [(PacketId identity (pm_frame m) (rec_offset r), m, fips_sha256 data)] | _ \<Rightarrow> []) recs)"

definition counts :: "bytes \<Rightarrow> cap_record list \<Rightarrow> engine_state \<Rightarrow> bool" where
  "counts identity recs s \<longleftrightarrow> map ob_fixed (es_packets s) = observations identity recs \<and> es_records s = length recs
     \<and> es_metadata_records s = length (filter (\<lambda>r. record_packet r = Ok None) recs)
     \<and> es_secret_blocks s = length (filter (\<lambda>r. is_secrets (rec_kind r)) recs)"

lemma counts_same: "counts identity recs s \<Longrightarrow> same_books s s' \<Longrightarrow> counts identity recs s'"
  by (simp add: counts_def same_books_def)

lemma decode_packet_error: "decode_packet lt data pid sc \<noteq> Panic"
  by (rule decode_packet_no_panic)

lemma expire_state:
  assumes inv: "engine_inv c (es_fragments s) s {}"
  shows "\<exists>fr ns. fragment_expire (es_fragments s) frame = Ok (fr, ns)
    \<and> engine_inv c fr (s\<lparr>es_fragments := fr\<rparr>) (\<Union>n \<in> set ns. set (fn_packets n)) \<and> (\<forall>n \<in> set ns. set (fn_packets n) \<subseteq> ids (es_packets s))"
proof -
  let ?r = "es_fragments s"
  have r: "fr_inv ?r" "fr_limits ?r = cg_limits c" "conserved ?r (es_packets s) {}" using inv by (simp_all add: engine_inv_def)
  obtain fr ns where e: "fragment_expire ?r frame = Ok (fr, ns)" "fr_inv fr" "expires frame ?r fr ns"
    using expire_loop_ok [OF r(1), of frame "[]"] by (auto simp: fragment_expire_def)
  have get: "bt_get (fr_sets fr) k = (case bt_get (fr_sets ?r) k of None \<Rightarrow> None
      | Some st \<Rightarrow> if overdue (fr_limits ?r) frame st then None else Some st)" for k
    using e(3) unfolding expires_def by blast
  have ns: "set ns = {\<lparr>fn_code = ''fragment_expired'', fn_packets = as_packets st\<rparr> | k st.
          bt_get (fr_sets ?r) k = Some st \<and> overdue (fr_limits ?r) frame st}" and lim: "fr_limits fr = cg_limits c"
    using e(3) r(2) unfolding expires_def by simp_all
  have "held fr \<subseteq> held ?r"
  proof
    fix pid
    assume "pid \<in> held fr"
    then obtain k st where k: "bt_get (fr_sets fr) k = Some st" "pid \<in> set (as_packets st)" by (auto simp: held_def)
    then have "bt_get (fr_sets ?r) k = Some st" using get [of k] by (auto split: option.split_asm if_split_asm)
    then show "pid \<in> held ?r" using k(2) by (auto simp: held_def)
  qed
  moreover have "held ?r \<subseteq> held fr \<union> (\<Union>n \<in> set ns. set (fn_packets n))"
  proof
    fix pid
    assume "pid \<in> held ?r"
    then obtain k st where k: "bt_get (fr_sets ?r) k = Some st" "pid \<in> set (as_packets st)" by (auto simp: held_def)
    show "pid \<in> held fr \<union> (\<Union>n \<in> set ns. set (fn_packets n))"
    proof (cases "overdue (fr_limits ?r) frame st")
      case True
      then have "\<lparr>fn_code = ''fragment_expired'', fn_packets = as_packets st\<rparr> \<in> set ns" using ns k(1) by blast
      then show ?thesis using k(2) by force
    next
      case False
      then have "bt_get (fr_sets fr) k = Some st" using get [of k] k(1) by simp
      then show ?thesis using k(2) by (auto simp: held_def)
    qed
  qed
  moreover have "\<forall>n \<in> set ns. set (fn_packets n) \<subseteq> held ?r" using ns by (auto simp: held_def)
  ultimately have "conserved fr (es_packets s) (\<Union>n \<in> set ns. set (fn_packets n))" "\<forall>n \<in> set ns. set (fn_packets n) \<subseteq> ids (es_packets s)"
    using r(3) unfolding conserved_def by blast+
  then show ?thesis using e(1,2) lim inv by (auto simp: engine_inv_def)
qed

lemma engine_packet_ok:
  assumes inv: "engine_inv c (es_fragments s) s {}" and l: "limits_validate (cg_limits c) = Ok ()"
    and frame: "pm_frame m = length (es_packets s) + 1" and data: "length data < usize_limit"
  shows "budgeted (engine_packet c identity s r m data) (\<lambda>s'. engine_inv c (es_fragments s') s' {}
    \<and> map ob_fixed (es_packets s') = map ob_fixed (es_packets s) @ [(PacketId identity (pm_frame m) (rec_offset r), m, fips_sha256 data)]
    \<and> es_records s' = es_records s \<and> es_metadata_records s' = es_metadata_records s \<and> es_secret_blocks s' = es_secret_blocks s)"
    (is "budgeted _ ?Q")
proof -
  let ?pid = "PacketId identity (pm_frame m) (rec_offset r)" and ?sc = "Scope (pm_section m) (pm_interface m) None []"
  obtain fr ns where e: "fragment_expire (es_fragments s) (pm_frame m) = Ok (fr, ns)"
    "engine_inv c fr (s\<lparr>es_fragments := fr\<rparr>) (\<Union>n \<in> set ns. set (fn_packets n))" "\<forall>n \<in> set ns. set (fn_packets n) \<subseteq> ids (es_packets s)"
    using expire_state [OF inv, of "pm_frame m"] by blast
  show ?thesis unfolding engine_packet_def e(1) and_then.simps case_prod_conv Let_def
  proof (rule budgeted_then [OF take_notices_ok [OF e(2)]], use e(3) in simp)
    fix s1
    assume s1: "engine_inv c fr s1 {} \<and> same_books (s\<lparr>es_fragments := fr\<rparr>) s1 \<and> es_fragments s1 = es_fragments (s\<lparr>es_fragments := fr\<rparr>)"
    let ?p = "\<lparr>ob_id = ?pid, ob_metadata = m, ob_sha256 = fips_sha256 data, ob_source = None, ob_destination = None, ob_transport = None,
      ob_disposition = DispPending, ob_warnings = packet_warnings r m\<rparr>"
    let ?s2 = "s1\<lparr>es_packets := es_packets s1 @ [?p]\<rparr>"
    have "map ob_fixed (es_packets s1) = map ob_fixed (es_packets s)" using s1 by (simp add: same_books_def)
    then have len: "length (es_packets s1) = length (es_packets s)" by (metis length_map)
    have cur: "current c ?pid ?s2"
    proof -
      have "conserved fr (es_packets s1 @ [?p]) {?pid}"
        using s1 frame len by (auto simp: engine_inv_def conserved_def ids_def)
      moreover have "linked (es_tracker s1) (es_packets s1 @ [?p])" using s1 by (auto simp: engine_inv_def linked_def)
      moreover have "fr_inv fr" "fr_limits fr = cg_limits c" "es_fragments s1 = fr" using s1 by (auto simp: engine_inv_def)
      ultimately show ?thesis using s1 by (simp add: current_def engine_inv_def)
    qed
    have books: "?Q s'" if "engine_inv c (es_fragments s') s' {}" "same_books ?s2 s'" for s'
      using that s1 by (simp add: same_books_def ob_fixed_def)
    show "budgeted (if pm_frame m \<noteq> length (es_packets s1) + 1
       then Err (error_new Invariant (rec_offset r) ''frame'' ''noncontiguous packet numbering'')
       else and_then (sha256_digest data) (\<lambda>digest. case decode_packet (pm_link_type m) data ?pid ?sc of
            Ok network \<Rightarrow> engine_network c ?pid (packet_time m) (s1\<lparr>es_packets := es_packets s1 @ [\<lparr>ob_id = ?pid, ob_metadata = m, ob_sha256 = digest, ob_source = None, ob_destination = None,
              ob_transport = None, ob_disposition = DispPending, ob_warnings = packet_warnings r m\<rparr>]\<rparr>) network
          | Err e \<Rightarrow> Ok (update_current (\<lambda>p. p\<lparr>ob_disposition := error_disposition e\<rparr>) (s1\<lparr>es_packets := es_packets s1 @ [\<lparr>ob_id = ?pid, ob_metadata = m, ob_sha256 = digest, ob_source = None, ob_destination = None,
              ob_transport = None, ob_disposition = DispPending, ob_warnings = packet_warnings r m\<rparr>]\<rparr>))
          | Panic \<Rightarrow> Panic)) ?Q"
    proof (cases "decode_packet (pm_link_type m) data ?pid ?sc")
      case (Ok network)
      have "budgeted (engine_network c ?pid (packet_time m) ?s2 network) ?Q"
        by (rule budgeted_mono [OF engine_network_ok [OF cur l decode_packet_ok [OF Ok] data]]) (use books in blast)
      then show ?thesis using Ok frame len by simp
    next
      case (Err e)
      have "?Q (update_current (\<lambda>p. p\<lparr>ob_disposition := error_disposition e\<rparr>) ?s2)"
        using current_update(2-4) [OF cur, of "\<lambda>p. p\<lparr>ob_disposition := error_disposition e\<rparr>"]
        by (intro books) (simp_all add: ob_fixed_def is_nonterminal_def error_disposition_def)
      then show ?thesis using Err frame len by simp
    qed (use decode_packet_error in blast)
  qed
qed

section \<open>Records\<close>

text \<open>The records of an iteration: complete, with packets numbered from the next frame on.\<close>

definition well_numbered :: "nat \<Rightarrow> cap_record list \<Rightarrow> bool" where
  "well_numbered n recs \<longleftrightarrow> (\<forall>r \<in> set recs. packet_in_record r)
     \<and> (\<forall>seen r rest m. recs = seen @ r # rest \<and> rec_kind r = Packet m \<longrightarrow> pm_frame m = n + length (packets_of seen))"

lemma record_packet_ok:
  assumes "packet_in_record r"
  shows "(\<exists>m data. rec_kind r = Packet m \<and> record_packet r = Ok (Some (m, data)) \<and> length data < 2 ^ 32)
    \<or> (\<nexists>m. rec_kind r = Packet m) \<and> record_packet r = Ok None"
proof (cases "\<exists>m. rec_kind r = Packet m")
  case True
  then obtain m where m: "rec_kind r = Packet m" by blast
  let ?n = "data_offset m + unat (captured_len m)"
  have fits: "?n \<le> length (rec_raw r)" using assms m by (simp add: packet_in_record_def)
  have "unat (captured_len m) < 2 ^ 32" using unsigned_less [where w = "captured_len m"] by simp
  then have "record_packet r = Ok (Some (m, sub_list (rec_raw r) (data_offset m) ?n))" "length (sub_list (rec_raw r) (data_offset m) ?n) < 2 ^ 32"
    using m fits by (simp_all add: record_packet_def range_at_def)
  then show ?thesis using m by blast
next
  case False
  then show ?thesis by (cases "rec_kind r") (auto simp: record_packet_def)
qed

lemma packets_of_Cons:
  "packet_in_record r \<Longrightarrow> length (packets_of (r # recs)) = (if \<exists>m. rec_kind r = Packet m then 1 else 0) + length (packets_of recs)"
  using record_packet_ok [of r] by (auto simp: packets_of_def)

lemma well_numbered_Cons:
  assumes dec: "decode d input off = Ok (d', Decoded r)" and rest: "well_numbered (d_next_frame d') recs"
  shows "well_numbered (d_next_frame d) (r # recs)"
  unfolding well_numbered_def
proof (intro conjI allI impI)
  have r: "packet_in_record r" by (rule decode_packet_in_record [OF dec])
  then show "\<forall>r \<in> set (r # recs). packet_in_record r" using rest by (simp add: well_numbered_def)
  fix seen q tail m
  assume q: "r # recs = seen @ q # tail \<and> rec_kind q = Packet m"
  show "pm_frame m = d_next_frame d + length (packets_of seen)"
  proof (cases seen)
    case Nil
    then show ?thesis using q decode_counted(4) [OF dec, of m] by (simp add: packets_of_def)
  next
    case (Cons x xs)
    then have x: "x = r" "recs = xs @ q # tail" using q by auto
    have "pm_frame m = d_next_frame d' + length (packets_of xs)" using rest x(2) q unfolding well_numbered_def by blast
    moreover have "d_next_frame d' = d_next_frame d + (if \<exists>m. rec_kind r = Packet m then 1 else 0)"
      using decode_counted(4,5) [OF dec] by auto
    ultimately show ?thesis using packets_of_Cons [OF r, of xs] Cons x(1) by simp
  qed
qed

lemma iter_items_numbered:
  assumes "iter_inv it"
  shows "\<exists>recs tail. iter_items it = map Ok recs @ tail \<and> (tail = [] \<or> (\<exists>e. tail = [Err e]))
    \<and> well_numbered (d_next_frame (it_decoder it)) recs"
  using assms
proof (induction it rule: iter_items.induct)
  case (1 it)
  have none: "well_numbered n []" for n by (simp add: well_numbered_def)
  have empty: ?case if "iter_items it = []" using that none by auto
  show ?case
  proof (cases "it_terminal it")
    case True
    then show ?thesis using empty by (simp add: iter_items_terminal)
  next
    case False
    from iter_next_cases [OF "1.prems" False] show ?thesis
    proof (elim disjE conjE exE)
      fix d and r :: cap_record
      let ?it = "it\<lparr>it_decoder := d, it_position := it_position it + length (rec_raw r)\<rparr>"
      assume nx: "iter_next it = (?it, Some (Ok r))"
        and dec: "decode (it_decoder it) (drop (it_position it) (it_data it)) (it_position it) = Ok (d, Decoded r)"
      have inv: "iter_inv ?it" using iter_next_inv [OF "1.prems" nx] by simp
      obtain recs tail where "iter_items ?it = map Ok recs @ tail" "tail = [] \<or> (\<exists>e. tail = [Err e])" "well_numbered (d_next_frame d) recs"
        using "1.IH" (1) [OF nx [symmetric] refl refl inv] by auto
      moreover have "iter_items it = Ok r # iter_items ?it" by (subst iter_items.simps) (simp add: nx)
      ultimately show ?thesis using well_numbered_Cons [OF dec] by (intro exI [of _ "r # recs"] exI [of _ tail]) simp
    qed (use False "1.prems" empty none in \<open>auto simp: iter_items.simps [of it] iter_items_terminal intro!: exI [of _ "[] :: cap_record list"]\<close>)
  qed
qed

end
