(* ===== verification/Engine_Runs.thy ===== *)
theory Engine_Runs
  imports Engine_Correct Detection Protocols Writer_Roundtrip
begin

text \<open>
  Whole runs of the pipeline: the records of a capture one after the other, the end of the capture, and the two
  theorems about \<^verbatim>\<open>analyze\<close>, what it accounts for and how it can fail.
\<close>

section \<open>The records of a capture\<close>

lemma observations_length:
  "length (observations identity recs) = length (packets_of recs)"
proof -
  have "length (case record_packet r of Ok (Some (m, data)) \<Rightarrow> [(PacketId identity (pm_frame m) (rec_offset r), m, fips_sha256 data)] | _ \<Rightarrow> [])
      = length (case record_packet r of Ok (Some x) \<Rightarrow> [x] | _ \<Rightarrow> [])" for r
    by (simp split: outcome.split option.split)
  then show ?thesis by (simp add: observations_def packets_of_def length_concat comp_def)
qed

definition engine_at :: "config \<Rightarrow> bytes \<Rightarrow> cap_record list \<Rightarrow> engine_state \<Rightarrow> bool" where
  "engine_at c identity seen s \<longleftrightarrow> engine_inv c (es_fragments s) s {} \<and> counts identity seen s"

lemma engine_record_ok:
  assumes s: "engine_at c identity seen s" and l: "limits_validate (cg_limits c) = Ok ()"
    and n: "well_numbered 1 (seen @ r # rest)"
  shows "budgeted (engine_record c identity s (Ok r)) (engine_at c identity (seen @ [r]))"
proof -
  let ?s = "s\<lparr>es_records := es_records s + 1\<rparr>"
  have inv: "engine_inv c (es_fragments ?s) ?s {}" using s by (simp add: engine_at_def engine_inv_def)
  have c: "map ob_fixed (es_packets s) = observations identity seen" "es_records s = length seen"
    "es_metadata_records s = length (filter (\<lambda>r. record_packet r = Ok None) seen)"
    "es_secret_blocks s = length (filter (\<lambda>r. is_secrets (rec_kind r)) seen)"
    using s by (simp_all add: engine_at_def counts_def)
  have len: "length (es_packets s) = length (packets_of seen)"
    using arg_cong [OF c(1), of length] by (simp add: observations_length)
  have r: "packet_in_record r" using n by (simp add: well_numbered_def)
  from record_packet_ok [OF r] show ?thesis
  proof (elim disjE exE conjE)
    fix m data
    assume m: "rec_kind r = Packet m" "record_packet r = Ok (Some (m, data))" "length data < 2 ^ 32"
    have frame: "pm_frame m = length (es_packets ?s) + 1"
      using n m(1) len unfolding well_numbered_def by auto
    have obs: "observations identity (seen @ [r]) = observations identity seen
        @ [(PacketId identity (pm_frame m) (rec_offset r), m, fips_sha256 data)]"
      by (simp add: observations_def m(2))
    have "budgeted (engine_packet c identity ?s r m data) (engine_at c identity (seen @ [r]))"
      by (rule budgeted_mono [OF engine_packet_ok [OF inv l frame]])
        (use m c obs in \<open>simp_all add: usize_limit_def engine_at_def counts_def is_secrets_def\<close>)
    then show ?thesis using m(2) by (simp add: engine_record_def)
  next
    assume m: "\<nexists>m. rec_kind r = Packet m" "record_packet r = Ok None"
    have "engine_inv c (es_fragments s') s' {}" if "es_fragments s' = es_fragments s" "es_tracker s' = es_tracker s" "es_packets s' = es_packets s" for s'
      using inv that by (simp add: engine_inv_def)
    moreover have "observations identity (seen @ [r]) = observations identity seen" by (simp add: observations_def m(2))
    ultimately show ?thesis using m(2) c by (simp add: engine_record_def engine_at_def counts_def Let_def)
  qed
qed

lemma engine_start_at:
  assumes "tracker_new (cg_limits c) (cg_idle_timeout_ns c) = Ok t"
  shows "engine_at c identity [] (engine_start c t)"
proof -
  have "tk_run (cg_limits c) (cg_idle_timeout_ns c) t" by (rule tk_start [OF assms])
  moreover have "fr_inv (reassembler_new (cg_limits c))" "held (reassembler_new (cg_limits c)) = {}" "fr_limits (reassembler_new (cg_limits c)) = cg_limits c"
    by (rule fr_inv_new) (simp_all add: held_def reassembler_new_def)
  ultimately show ?thesis
    by (simp add: engine_at_def engine_inv_def engine_start_def counts_def observations_def conserved_def frames_ok_def ids_def linked_def)
qed

lemma engine_records_ok:
  assumes "tracker_new (cg_limits c) (cg_idle_timeout_ns c) = Ok t" "limits_validate (cg_limits c) = Ok ()" "well_numbered 1 recs"
  shows "budgeted (for_each (engine_record c identity) (engine_start c t) (map Ok recs)) (engine_at c identity recs)"
proof -
  have "budgeted (for_each (\<lambda>s r. engine_record c identity s (Ok r)) (engine_start c t) recs) (engine_at c identity recs)"
    by (rule budgeted_each [where P = "engine_at c identity"]) (use assms engine_start_at engine_record_ok in blast)+
  moreover have "for_each f s (map g xs) = for_each (\<lambda>s x. f s (g x)) s xs" for f g s and xs :: "cap_record list"
    by (induction xs arbitrary: s) auto
  ultimately show ?thesis by metis
qed

section \<open>The streams of the flows\<close>

definition usable :: "flow_result \<Rightarrow> bool" where
  "usable flow \<longleftrightarrow> (\<forall>d res. d < 2 \<and> arr_get (fo_streams flow) d = Some res \<longrightarrow>
     i64_chunks res \<and> (\<forall>chunk \<in> set (sr_chunks res). ev_validate (ch_bytes chunk)))"

lemma finished_usable:
  assumes run: "sa_run syn l given s" and fin: "stream_finish s policy = Ok res"
  shows "i64_chunks res \<and> (\<forall>chunk \<in> set (sr_chunks res). ev_validate (ch_bytes chunk))"
proof (cases "given = []")
  case True
  then have "sa_segments s = []" using sa_run_placed [OF run] by (simp add: placed_def)
  then have "sr_chunks res = []"
    using fin by (auto simp: stream_finish_def empty_result_def add_gap_def Let_def elim!: and_then_OkE split: option.split_asm if_split_asm)
  then show ?thesis by (simp add: i64_chunks_def)
next
  case False
  obtain segs lo hi where "reconstructs policy segs lo hi res" using reconstructed_offsets(2) [OF run False fin] by blast
  then show ?thesis using reconstructed_offsets(1) [OF run False fin] by (simp add: reconstructs_def tiled_def chunk_ok_def)
qed

lemma classify_usable:
  assumes "usable flow"
  shows "\<exists>s. classify_flow flow c = Ok s"
proof -
  have "\<forall>chunk \<in> flow_chunks flow. ev_validate (ch_bytes chunk)"
    using assms unfolding usable_def flow_chunks_def side_chunks_def
    by (auto split: option.split_asm) (metis less_2_cases_iff option.sel One_nat_def)+
  from classify_streams_ok [OF this] show ?thesis by (simp add: classify_flow_def registry_builtins_ok Let_def)
qed

lemma each_ok: "(\<And>s x. x \<in> set xs \<Longrightarrow> \<exists>s'. f s x = Ok s') \<Longrightarrow> \<exists>s'. for_each f s xs = Ok s'"
proof (induction xs arbitrary: s)
  case (Cons x xs)
  obtain s1 where "f s x = Ok s1" using Cons.prems by fastforce
  then show ?case using Cons by simp
qed simp

lemma engine_application_ok:
  assumes "usable flow" "d < 2"
  shows "\<exists>out. engine_application c flow sel aps d = Ok out"
proof (cases "arr_get (fo_streams flow) d")
  case (Some res)
  then have i: "i64_chunks res" using assms by (simp add: usable_def)
  obtain x y where "attempt (dnp3_decode res (cg_limits c)) = Ok x"
    "attempt (modbus_decode res (modbus_role_of c (fo_key flow) d) (cg_limits c)) = Ok y"
    using attempt_ok [OF dnp3.decode_total [OF i]] attempt_ok [OF modbus.decode_total [OF i]] by metis
  then show ?thesis using Some by (simp add: engine_application_def Let_def)
qed (simp add: engine_application_def)

lemma engine_flows_ok:
  assumes "\<forall>flow \<in> set flows. usable flow"
  shows "\<exists>aps. for_each (engine_flow c) [] flows = Ok aps"
proof (rule each_ok)
  fix aps flow
  assume "flow \<in> set flows"
  then have u: "usable flow" using assms by blast
  obtain s where s: "classify_flow flow c = Ok s" using classify_usable [OF u] by blast
  have "\<exists>out. for_each (engine_application c flow s) aps [0, 1] = Ok out"
    by (rule each_ok) (use engine_application_ok [OF u] in auto)
  then show "\<exists>s'. engine_flow c aps flow = Ok s'" using s by (simp add: engine_flow_def)
qed

section \<open>The end of the capture\<close>

text \<open>What an analysis says about the packets of a list of records.\<close>

definition accounts :: "bytes \<Rightarrow> cap_record list \<Rightarrow> analysis \<Rightarrow> bool" where
  "accounts identity recs a \<longleftrightarrow> map ob_fixed (an_packets a) = observations identity recs
     \<and> an_records a = length recs \<and> an_metadata_records a = length (filter (\<lambda>r. record_packet r = Ok None) recs)
     \<and> an_secret_blocks a = length (filter (\<lambda>r. is_secrets (rec_kind r)) recs)
     \<and> (\<forall>p \<in> set (an_packets a). \<not> is_nonterminal p)
     \<and> (\<forall>p \<in> set (an_packets a). \<forall>f d. ob_disposition p = DispTcp f d \<longrightarrow>
          f < length (an_flows a) \<and> ob_id p \<in> set (fo_packets (an_flows a ! f)))"

lemma finish_state:
  assumes "engine_at c identity recs s"
  shows "engine_inv c (reassembler_new (cg_limits c)) s (\<Union>n \<in> set (fragment_finish (es_fragments s)). set (fn_packets n))"
    "\<forall>n \<in> set (fragment_finish (es_fragments s)). set (fn_packets n) \<subseteq> ids (es_packets s)"
proof -
  let ?r = "es_fragments s"
  have inv: "engine_inv c ?r s {}" using assms by (simp add: engine_at_def)
  then have ord: "bt_ordered (fr_sets ?r)" using fr_invD(1) by (simp add: engine_inv_def)
  have "(\<Union>n \<in> set (fragment_finish ?r). set (fn_packets n)) = (\<Union>(k, st) \<in> set (fr_sets ?r). set (as_packets st))"
    by (auto simp: fragment_finish_def)
  also have "\<dots> = held ?r" using bt_get_iff [OF ord] by (auto simp: held_def)
  finally have all: "(\<Union>n \<in> set (fragment_finish ?r). set (fn_packets n)) = held ?r" .
  have "held (reassembler_new (cg_limits c)) = {}" by (simp add: held_def reassembler_new_def)
  then show "engine_inv c (reassembler_new (cg_limits c)) s (\<Union>n \<in> set (fragment_finish ?r). set (fn_packets n))"
    using inv unfolding all by (simp add: engine_inv_def conserved_def)
  have "held ?r \<subseteq> ids (es_packets s)" using inv by (simp add: engine_inv_def conserved_def)
  then show "\<forall>n \<in> set (fragment_finish ?r). set (fn_packets n) \<subseteq> ids (es_packets s)" using all by blast
qed

lemma correlation_total:
  "\<exists>x y. attempt (transactions aps l) = Ok x \<and> attempt (dnp3_confirmation_candidates aps l) = Ok y"
  using attempt_ok [OF conjunct1 [OF transactions_ok [of aps l, unfolded yields_iff]]]
    attempt_ok [OF conjunct1 [OF confirmation_candidates_ok [of aps l, unfolded yields_iff]]] by blast

lemma engine_finish_ok:
  assumes s: "engine_at c identity recs s"
  shows "budgeted (engine_finish c identity n s) (accounts identity recs)"
  unfolding engine_finish_def
proof (rule budgeted_then [OF take_notices_ok [OF finish_state [OF s]]], goal_cases)
  case (1 s1)
  have none: "\<not> (\<exists>p \<in> set (es_packets s1). is_nonterminal p)"
    using 1 by (auto simp: engine_inv_def conserved_def held_def reassembler_new_def)
  have run: "tk_run (cg_limits c) (cg_idle_timeout_ns c) (es_tracker s1)" and link: "linked (es_tracker s1) (es_packets s1)"
    using 1 by (simp_all add: engine_inv_def)
  have counts: "counts identity recs s1" using s counts_same 1 by (auto simp: engine_at_def)
  obtain flows where flows: "tracker_finish (es_tracker s1) (cg_overlap_policy c) = Ok flows" "length flows = length (tk_flows (es_tracker s1))"
    "\<And>i. i < length flows \<Longrightarrow> fo_packets (flows ! i) = sort_dedup (fl_packets (tk_flows (es_tracker s1) ! i))"
    "\<And>i d res. i < length flows \<Longrightarrow> d < 2 \<Longrightarrow> arr_get (fo_streams (flows ! i)) d = Some res \<Longrightarrow>
       \<exists>st. sa_run (arr_get (fl_syn (tk_flows (es_tracker s1) ! i)) d) (tk_limits (es_tracker s1)) (payloads d (fl_inputs (tk_flows (es_tracker s1) ! i))) st
         \<and> stream_finish st (cg_overlap_policy c) = Ok res"
    by (rule finished_flows [OF run, of "cg_overlap_policy c"]) blast
  have "usable (flows ! i)" if "i < length flows" for i
    using flows(4) [OF that] finished_usable unfolding usable_def by blast
  then have "\<forall>flow \<in> set flows. usable flow" by (auto simp: in_set_conv_nth)
  then obtain aps where aps: "for_each (engine_flow c) [] flows = Ok aps" using engine_flows_ok by blast
  obtain x y where xy: "attempt (transactions aps (cg_limits c)) = Ok x" "attempt (dnp3_confirmation_candidates aps (cg_limits c)) = Ok y"
    using correlation_total by blast
  have "\<forall>p \<in> set (es_packets s1). \<forall>f d. ob_disposition p = DispTcp f d \<longrightarrow> f < length flows \<and> ob_id p \<in> set (fo_packets (flows ! f))"
    using link flows(2,3) unfolding linked_def by simp
  then show ?case using none counts flows(1) aps xy by (simp add: accounts_def counts_def)
qed

section \<open>The analysis\<close>

lemma for_each_append: "for_each f s (xs @ ys) = and_then (for_each f s xs) (\<lambda>s. for_each f s ys)"
proof (induction xs arbitrary: s)
  case (Cons x xs)
  then show ?case by (cases "f s x") simp_all
qed simp

lemma analyze_split:
  assumes c: "config_validate c = Ok ()" and len: "length input \<le> max_input_bytes (cg_limits c)"
  obtains it t recs tail where "iter_new input (cg_limits c) (cg_parse_mode c) = Ok it" "iter_items it = map Ok recs @ tail"
    "tail = [] \<or> (\<exists>e. tail = [Err e])" "budgeted (for_each (engine_record c (fips_sha256 input)) (engine_start c t) (map Ok recs))
       (engine_at c (fips_sha256 input) recs)"
    "analyze input c = and_then (for_each (engine_record c (fips_sha256 input)) (engine_start c t) (map Ok recs @ tail))
       (engine_finish c (fips_sha256 input) (length input))"
proof -
  have l: "limits_validate (cg_limits c) = Ok ()" "0 < cg_idle_timeout_ns c"
    using c by (auto simp: config_validate_def elim!: and_then_OkE split: if_split_asm)
  then obtain t where t: "tracker_new (cg_limits c) (cg_idle_timeout_ns c) = Ok t" by (simp add: tracker_new_def)
  obtain it where it: "iter_new input (cg_limits c) (cg_parse_mode c) = Ok it" "iter_inv it" "d_next_frame (it_decoder it) = 1"
    using l(1) len by (simp add: iter_new_def decoder_new_def iter_inv_def)
  obtain recs tail where recs: "iter_items it = map Ok recs @ tail" "tail = [] \<or> (\<exists>e. tail = [Err e])" "well_numbered 1 recs"
    using iter_items_numbered [OF it(2)] it(3) by auto
  show ?thesis
    by (rule that [OF it(1) recs(1,2) engine_records_ok [OF t l(1) recs(3)]]) (use c len t it(1) recs(1) in \<open>simp add: analyze_def\<close>)
qed

lemma config_validate_no_panic: "config_validate c \<noteq> Panic"
  using limits_validate_no_panic [of "cg_limits c"] by (auto simp: config_validate_def outcome_simps)

text \<open>
  C3: Every packet of a capture is accounted for.  When an analysis is returned, the whole capture was decoded
  without error; the observations are the packets of its records, each once and in order, with the identity of
  the capture, the frame number, the offset, the metadata and the digest of the captured bytes; the record,
  metadata and secret counters are the numbers of such records; every packet has a terminal disposition; and a
  packet assigned to a TCP flow is listed by that flow of the result.\<close>

theorem analysis_accounts_for_every_packet:
  assumes "analyze input c = Ok a"
  shows "\<exists>it recs. iter_new input (cg_limits c) (cg_parse_mode c) = Ok it \<and> iter_items it = map Ok recs
    \<and> an_capture_sha256 a = fips_sha256 input \<and> an_capture_bytes a = length input
    \<and> accounts (fips_sha256 input) recs a"
proof -
  have "config_validate c = Ok ()" "length input \<le> max_input_bytes (cg_limits c)"
    using assms by (auto simp: analyze_def elim!: and_then_OkE split: if_split_asm)
  then obtain it t recs tail where r: "iter_new input (cg_limits c) (cg_parse_mode c) = Ok it" "iter_items it = map Ok recs @ tail"
    "tail = [] \<or> (\<exists>e. tail = [Err e])" "budgeted (for_each (engine_record c (fips_sha256 input)) (engine_start c t) (map Ok recs))
       (engine_at c (fips_sha256 input) recs)"
    "analyze input c = and_then (for_each (engine_record c (fips_sha256 input)) (engine_start c t) (map Ok recs @ tail))
       (engine_finish c (fips_sha256 input) (length input))" by (rule analyze_split)
  obtain s where s: "for_each (engine_record c (fips_sha256 input)) (engine_start c t) (map Ok recs @ tail) = Ok s"
    "engine_finish c (fips_sha256 input) (length input) s = Ok a"
    using assms r(5) by (auto elim!: and_then_OkE)
  then have none: "tail = []" using r(3) by (auto simp: for_each_append engine_record_def elim!: and_then_OkE)
  then have "engine_at c (fips_sha256 input) recs s" using r(4) s(1) by simp
  from engine_finish_ok [OF this, of "length input"] have "accounts (fips_sha256 input) recs a" using s(2) by simp
  moreover have "an_capture_sha256 a = fips_sha256 input" "an_capture_bytes a = length input"
    using s(2) by (auto simp: engine_finish_def elim!: and_then_OkE split: if_split_asm)
  ultimately show ?thesis using r(1,2) none by auto
qed

text \<open>A sample: the only packet of the capture is too short for a link header, and is rejected.\<close>

lemma sample_engine_packet:
  assumes "pm_link_type m = 1" "pm_frame m = 1" "es_fragments s = reassembler_new l" "es_packets s = []"
  shows "\<exists>p. engine_packet c identity s r m [1, 2] = Ok (s\<lparr>es_packets := [p]\<rparr>) \<and> (\<exists>code detail. ob_disposition p = DispRejected code detail)"
proof -
  have "expire_loop 1 (reassembler_new l) [] = Ok (reassembler_new l, [])" by (subst expire_loop.simps) (simp add: reassembler_new_def)
  then have "fragment_expire (es_fragments s) (Suc 0) = Ok (reassembler_new l, [])" using assms(3) by (simp add: fragment_expire_def)
  moreover obtain e where "decode_packet 1 [1, 2] (PacketId identity (Suc 0) (rec_offset r)) (Scope (pm_section m) (pm_interface m) None []) = Err e"
    by (simp add: decode_packet_def link_start_def require_len_def)
  ultimately show ?thesis using assms
    by (cases s) (auto simp: engine_packet_def update_current_def error_disposition_def Let_def)
qed

lemma map_Ok_inj: "map Ok xs = (map Ok ys :: 'a result list) \<Longrightarrow> xs = ys"
  by (auto dest: map_injective simp: inj_def)

theorem analysis_accounts_for_every_packet_witness:
  "\<exists>input a p. analyze input config_default = Ok a \<and> an_packets a = [p] \<and> an_records a = 2 \<and> an_metadata_records a = 1
     \<and> ob_sha256 p = fips_sha256 [1, 2] \<and> (\<exists>code detail. ob_disposition p = DispRejected code detail)"
proof -
  obtain w' :: "bytes pcap_writer" and it h r m where len: "length (pw_output w') = 42"
    and it: "iter_new (pw_output w') limits_default Strict = Ok it" "iter_items it = map Ok [h, r]"
      "rec_kind h = LegacyHeader \<lparr>lh_endian = Big, lh_nanos = True, lh_snaplen = 64, lh_link_word = 1\<rparr>"
    and m: "record_packet r = Ok (Some (m, [1, 2]))" "pm_link_type m = 1"
    by (rule sample_written) blast
  let ?in = "pw_output w'" and ?c = config_default
  have c: "config_validate ?c = Ok ()" "cg_limits ?c = limits_default" "cg_parse_mode ?c = Strict"
    by (simp_all add: config_validate_def config_default_def)
  obtain t where t: "tracker_new limits_default (cg_idle_timeout_ns ?c) = Ok t" "tk_flows t = []"
    by (simp add: tracker_new_def config_default_def)
  have "iter_inv it" "d_next_frame (it_decoder it) = 1"
    using it(1) by (auto simp: iter_new_def decoder_new_def iter_inv_def elim!: and_then_OkE split: if_split_asm)
  then obtain recs tail where n: "map Ok [h, r] = map Ok recs @ (tail :: cap_record result list)" "tail = [] \<or> (\<exists>e. tail = [Err e])" "well_numbered 1 recs"
    using iter_items_numbered [of it] it(2) by auto
  then have "recs = [h, r]" by (auto simp: map_eq_append_conv Cons_eq_append_conv)
  moreover have "rec_kind r = Packet m" using m(1) by (auto simp: record_packet_def elim!: and_then_OkE split: record_kind.split_asm)
  moreover have h: "record_packet h = Ok None" "\<not> is_secrets (rec_kind h)" using it(3) by (simp_all add: record_packet_def is_secrets_def)
  ultimately have "pm_frame m = 1" using n(3) by (auto simp: well_numbered_def packets_of_def dest!: spec [of _ "[h]"])
  note one = sample_engine_packet [OF m(2) this, of "(engine_start ?c t)\<lparr>es_records := 2, es_metadata_records := 1\<rparr>" limits_default ?c "fips_sha256 ?in" r]
  obtain p code detail where p: "engine_packet ?c (fips_sha256 ?in) ((engine_start ?c t)\<lparr>es_records := 2, es_metadata_records := 1\<rparr>) r m [1, 2]
      = Ok ((engine_start ?c t)\<lparr>es_records := 2, es_metadata_records := 1, es_packets := [p]\<rparr>)" "ob_disposition p = DispRejected code detail"
    using one by (auto simp: engine_start_def c(2))
  have items: "for_each (engine_record ?c (fips_sha256 ?in)) (engine_start ?c t) (iter_items it)
      = Ok ((engine_start ?c t)\<lparr>es_records := 2, es_metadata_records := 1, es_packets := [p]\<rparr>)"
    using p(1) h m(1) it(2) by (simp add: engine_record_def Let_def engine_start_def numeral_2_eq_2)
  have "\<exists>a. engine_finish ?c (fips_sha256 ?in) (length ?in) ((engine_start ?c t)\<lparr>es_records := 2, es_metadata_records := 1, es_packets := [p]\<rparr>) = Ok a
      \<and> an_packets a = [p]" using p(2) t(2) correlation_total [of "[]" "cg_limits ?c"]
    by (auto simp add: engine_finish_def engine_start_def fragment_finish_def reassembler_new_def is_nonterminal_def tracker_finish_def)
  then obtain a where a: "analyze ?in ?c = Ok a" "an_packets a = [p]"
    using c len t(1) it(1) items by (auto simp: analyze_def)
  have "accounts (fips_sha256 ?in) [h, r] a" using analysis_accounts_for_every_packet [OF a(1)] it(1,2) c by (auto dest: map_Ok_inj)
  then have "ob_sha256 p = fips_sha256 [1, 2]" "an_records a = 2" "an_metadata_records a = 1"
    using a(2) h m(1) by (simp_all add: accounts_def observations_def ob_fixed_def)
  then show ?thesis using a p(2) by blast
qed

text \<open>
  C4: How an analysis can fail.  No input and configuration make the pipeline panic.  Its only errors are an
  invalid configuration, the error with which the capture decoder ends, and an exhausted budget: the checks on
  packet identities, frame numbering and terminal dispositions never fail.\<close>

theorem analysis_fails_only_on_input_or_budget:
  "analyze input c \<noteq> Panic \<and> (\<forall>e. analyze input c = Err e \<longrightarrow> config_validate c = Err e \<or> err_code e = LimitExceeded
     \<or> (\<exists>it. iter_new input (cg_limits c) (cg_parse_mode c) = Ok it \<and> Err e \<in> set (iter_items it)))"
proof (cases "config_validate c = Ok () \<and> length input \<le> max_input_bytes (cg_limits c)")
  case True
  then obtain it t recs tail where r: "iter_new input (cg_limits c) (cg_parse_mode c) = Ok it" "iter_items it = map Ok recs @ tail"
    "tail = [] \<or> (\<exists>e. tail = [Err e])" "budgeted (for_each (engine_record c (fips_sha256 input)) (engine_start c t) (map Ok recs))
       (engine_at c (fips_sha256 input) recs)"
    "analyze input c = and_then (for_each (engine_record c (fips_sha256 input)) (engine_start c t) (map Ok recs @ tail))
       (engine_finish c (fips_sha256 input) (length input))" by (elim conjE) (rule analyze_split)
  show ?thesis
  proof (cases "tail = []")
    case True
    have "budgeted (analyze input c) (accounts (fips_sha256 input) recs)"
      unfolding r(5) True append_Nil2 by (rule budgeted_then [OF r(4)]) (rule engine_finish_ok)
    then show ?thesis by (cases "analyze input c") auto
  next
    case False
    then obtain e where e: "tail = [Err e]" using r(3) by blast
    then have "analyze input c = and_then (for_each (engine_record c (fips_sha256 input)) (engine_start c t) (map Ok recs)) (\<lambda>s. Err e)"
      unfolding r(5) by (cases "for_each (engine_record c (fips_sha256 input)) (engine_start c t) (map Ok recs)")
        (simp_all add: for_each_append engine_record_def)
    then show ?thesis using r(1,2,4) e
      by (cases "for_each (engine_record c (fips_sha256 input)) (engine_start c t) (map Ok recs)") auto
  qed
next
  case False
  then show ?thesis using config_validate_no_panic [of c] by (cases "config_validate c") (auto simp: analyze_def)
qed

theorem analysis_fails_only_on_input_or_budget_witness:
  "\<exists>e it. analyze [] config_default = Err e \<and> iter_new [] limits_default Strict = Ok it \<and> Err e \<in> set (iter_items it)"
proof -
  have c: "config_validate config_default = Ok ()" "cg_limits config_default = limits_default" "cg_parse_mode config_default = Strict"
    by (simp_all add: config_validate_def config_default_def)
  obtain it t where it: "iter_new [] limits_default Strict = Ok it" "tracker_new limits_default (cg_idle_timeout_ns config_default) = Ok t"
    "it = \<lparr>it_data = [], it_position = 0, it_decoder = it_decoder it, it_terminal = False\<rparr>" "d_format (it_decoder it) = None"
    by (simp add: iter_new_def decoder_new_def tracker_new_def config_default_def)
  have "iter_items it = [Err (error_new Truncated 0 ''capture_header'' ''empty input is not a capture'')]"
    by (subst iter_items.simps, subst it(3)) (use it(4) in \<open>simp add: iter_next_def decoder_finish_def iter_items_terminal\<close>)
  then have e: "analyze [] config_default = Err (error_new Truncated 0 ''capture_header'' ''empty input is not a capture'')"
    using c it(1,2) by (simp add: analyze_def engine_record_def)
  then have "\<exists>it. iter_new [] limits_default Strict = Ok it \<and> Err (error_new Truncated 0 ''capture_header'' ''empty input is not a capture'') \<in> set (iter_items it)"
    using analysis_fails_only_on_input_or_budget [of "[]" config_default] c by (auto simp: error_new_def)
  then show ?thesis using e by blast
qed

end
