(* ===== verification/Labels_Correct.thy ===== *)
theory Labels_Correct
  imports Labels
begin

text \<open>
  What the label parser accepts: exactly the texts whose lines, after the header, are empty or well-formed labels
  with different identifiers, within the budgets; the result lists them in order.
\<close>

section \<open>Fields\<close>

fun join :: "nat \<Rightarrow> scalars list \<Rightarrow> scalars" where
  "join d [] = []"
| "join d [field] = field"
| "join d (field # rest) = field @ d # join d rest"

lemma join_Cons: "rest \<noteq> [] \<Longrightarrow> join d (field # rest) = field @ d # join d rest"
  by (cases rest) simp_all

lemma join_head: "join d ((c # field) # rest) = c # join d (field # rest)"
  by (cases rest) simp_all

lemma split_at_sound: "split_at d line \<noteq> [] \<and> (\<forall>field \<in> set (split_at d line). d \<notin> set field) \<and> join d (split_at d line) = line"
  by (induction d line rule: split_at.induct) (auto simp: join_Cons join_head split: list.split)

lemma split_at_field: "d \<notin> set field \<Longrightarrow> split_at d field = [field]"
  by (induction field) auto

lemma split_at_step: "d \<notin> set field \<Longrightarrow> split_at d (field @ d # line) = field # split_at d line"
  by (induction field) auto

lemma split_at_join: "parts \<noteq> [] \<Longrightarrow> \<forall>field \<in> set parts. d \<notin> set field \<Longrightarrow> split_at d (join d parts) = parts"
proof (induction d parts rule: join.induct)
  case (3 d field x rest)
  then show ?case by (simp add: split_at_step)
qed (simp_all add: split_at_field)

lemma split_at_iff: "split_at d line = parts \<longleftrightarrow> parts \<noteq> [] \<and> (\<forall>field \<in> set parts. d \<notin> set field) \<and> line = join d parts"
  using split_at_sound [of d line] split_at_join [of parts d] by auto

section \<open>Lines\<close>

text \<open>Eight fields, and a line, that describe a label.\<close>

definition label_parts :: "scalars list \<Rightarrow> attempt_label \<Rightarrow> bool" where
  "label_parts parts lab \<longleftrightarrow> length parts = 8 \<and> (\<forall>field \<in> set parts. trim field = field)
     \<and> parts ! 0 = al_id lab \<and> al_id lab \<noteq> [] \<and> length (as_bytes (al_id lab)) \<le> 256 \<and> (\<forall>c \<in> set (al_id lab). \<not> is_control c)
     \<and> parse_i128 (parts ! 1) = Some (al_start_ns lab) \<and> parse_i128 (parts ! 2) = Some (al_end_ns lab) \<and> al_start_ns lab \<le> al_end_ns lab
     \<and> parse_ip_addr (parts ! 3) = Some (ep_address (al_source lab)) \<and> parse_u16 (parts ! 4) = Some (ep_port (al_source lab))
     \<and> parse_ip_addr (parts ! 5) = Some (ep_address (al_destination lab)) \<and> parse_u16 (parts ! 6) = Some (ep_port (al_destination lab))
     \<and> parts ! 7 = text_of (al_transport lab) \<and> al_transport lab \<in> {''tcp'', ''udp''}"

definition describes :: "scalars \<Rightarrow> attempt_label \<Rightarrow> bool" where
  "describes line lab \<longleftrightarrow> (\<exists>parts. line = join 9 parts \<and> (\<forall>field \<in> set parts. 9 \<notin> set field) \<and> label_parts parts lab)"

lemma describes_split: "describes line lab \<longleftrightarrow> label_parts (split_at 9 line) lab"
proof
  assume "describes line lab"
  then obtain parts where p: "line = join 9 parts" "\<forall>field \<in> set parts. 9 \<notin> set field" "label_parts parts lab"
    unfolding describes_def by blast
  then have "parts \<noteq> []" by (auto simp: label_parts_def)
  then show "label_parts (split_at 9 line) lab" using split_at_join [of parts 9] p by simp
next
  assume "label_parts (split_at 9 line) lab"
  then show "describes line lab" using split_at_sound [of 9 line] unfolding describes_def by metis
qed

lemma text_of_inj [simp]: "text_of s = text_of t \<longleftrightarrow> s = t"
  by (simp add: text_of_def inj_map_eq_map inj_def)

definition extends :: "limits \<Rightarrow> attempt_label list \<Rightarrow> scalars \<Rightarrow> attempt_label list \<Rightarrow> bool" where
  "extends l labels line labels' \<longleftrightarrow> line = [] \<and> labels' = labels
     \<or> (\<exists>lab. line \<noteq> [] \<and> describes line lab \<and> labels' = labels @ [lab] \<and> length labels < max_labels l \<and> al_id lab \<notin> al_id ` set labels)"

lemma parse_transport_Ok: "parse_transport n t = Ok s \<longleftrightarrow> t = text_of s \<and> s \<in> {''tcp'', ''udp''}"
  by (auto simp: parse_transport_def)

lemma parse_endpoint_Ok:
  "parse_endpoint n side a p = Ok e \<longleftrightarrow> parse_ip_addr a = Some (ep_address e) \<and> parse_u16 p = Some (ep_port e)"
  by (cases e) (auto simp: parse_endpoint_def outcome_simps ok_or_eq_Ok)

lemma parse_label_Ok: "parse_label l labels (index, line) = Ok labels' \<longleftrightarrow> extends l labels line labels'"
proof (cases "line = [] \<or> length (split_at 9 line) \<noteq> 8")
  case True
  then show ?thesis by (auto simp: parse_label_def extends_def describes_split label_parts_def Let_def)
next
  case False
  define parts where "parts = split_at 9 line"
  have parts: "length parts = 8" "hd parts = parts ! 0" using False split_at_sound [of 9 line] by (simp_all add: parts_def hd_conv_nth)
  have parse: "parse_label l labels (index, line) = Ok labels' \<longleftrightarrow> (\<exists>a b x y t. labels' = labels @ [\<lparr>al_id = parts ! 0, al_start_ns = a,
        al_end_ns = b, al_source = x, al_destination = y, al_transport = t\<rparr>]
      \<and> length labels < max_labels l \<and> parts ! 0 \<notin> al_id ` set labels \<and> \<not> bad_id_or_space parts
      \<and> parse_i128 (parts ! 1) = Some a \<and> parse_i128 (parts ! 2) = Some b \<and> a \<le> b
      \<and> parse_endpoint (index + 2) ''src'' (parts ! 3) (parts ! 4) = Ok x \<and> parse_endpoint (index + 2) ''dst'' (parts ! 5) (parts ! 6) = Ok y
      \<and> parse_transport (index + 2) (parts ! 7) = Ok t)"
    using False parts(1) unfolding parse_label_def case_prod_conv Let_def parts_def [symmetric]
    by (auto simp: and_then_eq_Ok ok_or_eq_Ok) (metis leD)
  have shape: "label_parts parts lab \<longleftrightarrow> \<not> bad_id_or_space parts \<and> parts ! 0 = al_id lab
      \<and> parse_i128 (parts ! 1) = Some (al_start_ns lab) \<and> parse_i128 (parts ! 2) = Some (al_end_ns lab) \<and> al_start_ns lab \<le> al_end_ns lab
      \<and> parse_endpoint (index + 2) ''src'' (parts ! 3) (parts ! 4) = Ok (al_source lab)
      \<and> parse_endpoint (index + 2) ''dst'' (parts ! 5) (parts ! 6) = Ok (al_destination lab)
      \<and> parse_transport (index + 2) (parts ! 7) = Ok (al_transport lab)" for lab
    unfolding label_parts_def bad_id_or_space_def parts(2) parse_endpoint_Ok parse_transport_Ok not_less using parts(1) by auto
  show ?thesis unfolding parse extends_def describes_split parts_def [symmetric] shape using False
    by (auto simp: attempt_label.splits)
qed

section \<open>Texts\<close>

lemma parse_lines_Ok:
  assumes "distinct (map al_id labels)" "length labels \<le> max_labels l"
  shows "for_each (parse_label l) labels (enumerate n lines) = Ok out \<longleftrightarrow>
    (\<exists>new. out = labels @ new \<and> list_all2 describes (filter (\<lambda>line. line \<noteq> []) lines) new
       \<and> distinct (map al_id (labels @ new)) \<and> length (labels @ new) \<le> max_labels l)"
  using assms
proof (induction lines arbitrary: labels n)
  case Nil
  then show ?case by auto
next
  case (Cons line lines)
  show ?case
  proof (cases "line = []")
    case True
    then show ?thesis using Cons by (simp add: parse_label_def)
  next
    case False
    have step: "for_each (parse_label l) labels (enumerate n (line # lines)) = Ok out \<longleftrightarrow>
        (\<exists>lab. describes line lab \<and> length labels < max_labels l \<and> al_id lab \<notin> al_id ` set labels
           \<and> for_each (parse_label l) (labels @ [lab]) (enumerate (Suc n) lines) = Ok out)"
      using False by (auto simp: and_then_eq_Ok parse_label_Ok extends_def)
    have rest: "for_each (parse_label l) (labels @ [lab]) (enumerate (Suc n) lines) = Ok out \<longleftrightarrow>
        (\<exists>new. out = labels @ lab # new \<and> list_all2 describes (filter (\<lambda>line. line \<noteq> []) lines) new
           \<and> distinct (map al_id (labels @ lab # new)) \<and> length (labels @ lab # new) \<le> max_labels l)"
      if "length labels < max_labels l" "al_id lab \<notin> al_id ` set labels" for lab
      using Cons.IH [of "labels @ [lab]" "Suc n"] Cons.prems that by simp
    show ?thesis unfolding step
    proof (intro iffI; elim exE conjE)
      fix lab
      assume a: "describes line lab" "length labels < max_labels l" "al_id lab \<notin> al_id ` set labels"
        and ok: "for_each (parse_label l) (labels @ [lab]) (enumerate (Suc n) lines) = Ok out"
      then obtain new where "out = labels @ lab # new" "list_all2 describes (filter (\<lambda>line. line \<noteq> []) lines) new"
        "distinct (map al_id (labels @ lab # new))" "length (labels @ lab # new) \<le> max_labels l"
        using rest [OF a(2,3)] by blast
      then show "\<exists>new. out = labels @ new \<and> list_all2 describes (filter (\<lambda>line. line \<noteq> []) (line # lines)) new
          \<and> distinct (map al_id (labels @ new)) \<and> length (labels @ new) \<le> max_labels l"
        using a(1) False by (intro exI [of _ "lab # new"]) simp
    next
      fix new
      assume n: "out = labels @ new" "list_all2 describes (filter (\<lambda>line. line \<noteq> []) (line # lines)) new"
        "distinct (map al_id (labels @ new))" "length (labels @ new) \<le> max_labels l"
      then obtain lab new' where new: "new = lab # new'" "describes line lab" "list_all2 describes (filter (\<lambda>line. line \<noteq> []) lines) new'"
        using False by (simp add: list_all2_Cons1) blast
      then have a: "length labels < max_labels l" "al_id lab \<notin> al_id ` set labels" using n(3,4) by auto
      then show "\<exists>lab. describes line lab \<and> length labels < max_labels l \<and> al_id lab \<notin> al_id ` set labels
           \<and> for_each (parse_label l) (labels @ [lab]) (enumerate (Suc n) lines) = Ok out"
        using rest [OF a] new n by blast
    qed
  qed
qed

lemma label_errors [simp]: "err_code (label_invalid n d) = InvalidLabel"
  by (simp add: label_invalid_def error_new_def)

definition label_error :: "'a result \<Rightarrow> bool" where
  "label_error m \<longleftrightarrow> m \<noteq> Panic \<and> (\<forall>e. m = Err e \<longrightarrow> err_code e \<in> {InvalidLabel, LimitExceeded})"

lemma label_error_rules [simp]:
  "label_error (Ok x)" "label_error (Err e) \<longleftrightarrow> err_code e \<in> {InvalidLabel, LimitExceeded}"
  "label_error (ok_or (label_invalid n d) m)"
  by (cases m; auto simp: label_error_def)+

lemma label_error_then: "label_error m \<Longrightarrow> (\<And>x. label_error (f x)) \<Longrightarrow> label_error (and_then m f)"
  by (cases m) (auto simp: label_error_def)

lemma parse_label_error: "label_error (parse_label l labels x)"
  by (cases x) (auto simp: parse_label_def parse_endpoint_def parse_transport_def Let_def error_limit_def error_new_def intro!: label_error_then)

lemma parse_lines_error: "label_error (for_each (parse_label l) labels xs)"
  by (induction xs arbitrary: labels) (auto intro!: label_error_then parse_label_error)

lemma parse_labels_error: "label_error (parse_labels input l)"
  by (auto simp: parse_labels_def error_limit_def error_new_def intro: parse_lines_error split: list.split)

lemma parse_labels_Ok:
  "parse_labels input l = Ok labels \<longleftrightarrow> length (as_bytes input) \<le> max_input_bytes l
        \<and> (\<exists>lines. text_lines input = label_header # lines \<and> list_all2 describes (filter (\<lambda>line. line \<noteq> []) lines) labels
             \<and> distinct (map al_id labels) \<and> length labels \<le> max_labels l)"
  by (auto simp: parse_labels_def parse_lines_Ok split: list.split)

text \<open>
  C18: The label parser accepts exactly the well-formed label files.  It never panics and fails only with the label
  error or a budget error; it returns a list of labels exactly when the text is within its budget, its first line
  is the header, the non-empty lines after it describe these labels, one each and in order (eight tab-separated
  fields without surrounding space, a short identifier without control characters, a start not after the end,
  two endpoints and a known transport), the identifiers differ, and there are not too many.\<close>

theorem labels_are_their_lines:
  "parse_labels input l \<noteq> Panic \<and> (\<forall>e. parse_labels input l = Err e \<longrightarrow> err_code e \<in> {InvalidLabel, LimitExceeded})
   \<and> (parse_labels input l = Ok labels \<longleftrightarrow> length (as_bytes input) \<le> max_input_bytes l
        \<and> (\<exists>lines. text_lines input = label_header # lines \<and> list_all2 describes (filter (\<lambda>line. line \<noteq> []) lines) labels
             \<and> distinct (map al_id labels) \<and> length labels \<le> max_labels l))"
  using parse_labels_error [of input l] parse_labels_Ok [of input l labels] unfolding label_error_def by blast

text \<open>A sample: one attempt between two hosts.\<close>

definition sample_label :: attempt_label where
  "sample_label = \<lparr>al_id = text_of ''a'', al_start_ns = -1, al_end_ns = 2, al_source = Endpoint (V4 [10, 0, 0, 1]) 5,
     al_destination = Endpoint (V6 (replicate 14 0 @ [0, 1])) 6, al_transport = ''tcp''\<rparr>"

definition sample_label_line :: scalars where
  "sample_label_line = join 9 (map text_of [''a'', ''-1'', ''2'', ''10.0.0.1'', ''5'', ''::1'', ''6'', ''tcp''])"

lemma reader_unroll:
  "read_ipv4_addr = read_octets 0 (Suc (Suc (Suc (Suc 0))))"
  "read_groups 0 8 = read_groups 0 (Suc (Suc (Suc (Suc (Suc (Suc (Suc (Suc 0))))))))"
  "read_groups 0 7 = read_groups 0 (Suc (Suc (Suc (Suc (Suc (Suc (Suc 0)))))))"
  by (simp_all add: read_ipv4_addr_def numeral_eq_Suc)

lemma sample_label_fields:
  "parse_i128 (text_of ''-1'') = Some (-1)" "parse_i128 (text_of ''2'') = Some 2" "parse_u16 (text_of ''5'') = Some 5" "parse_u16 (text_of ''6'') = Some 6"
  "parse_ip_addr (text_of ''10.0.0.1'') = Some (V4 [10, 0, 0, 1])" "parse_ip_addr (text_of ''::1'') = Some (V6 (replicate 14 0 @ [0, 1]))"
  by (simp_all add: parse_i128_def parse_u16_def decimal_def digit_of_def in_i128_def text_of_def parse_ip_addr_def reader_unroll
      read_number_def read_separator_def read_char_def read_ipv6_addr_def)

lemma text_lines_two: "10 \<notin> set a \<Longrightarrow> 10 \<notin> set b \<Longrightarrow> b \<noteq> [] \<Longrightarrow> text_lines (a @ 10 # b) = [strip_cr a, b]"
proof -
  assume a: "10 \<notin> set a" "10 \<notin> set b" "b \<noteq> []"
  then have "takeWhile (\<lambda>c. c \<noteq> 10) (a @ 10 # b) = a" by (induction a) auto
  moreover have "text_lines b = [b]" using a by (simp add: text_lines.simps [of b])
  ultimately show ?thesis by (subst text_lines.simps) (simp add: Let_def)
qed

definition sample_label_text :: scalars where
  "sample_label_text = label_header @ 10 # sample_label_line"

lemma sample_label_accepted:
  "length (as_bytes sample_label_text) \<le> 1000" "text_lines sample_label_text = [label_header, sample_label_line]"
  "describes sample_label_line sample_label" "sample_label_line \<noteq> []"
proof -
  have "label_parts (map text_of [''a'', ''-1'', ''2'', ''10.0.0.1'', ''5'', ''::1'', ''6'', ''tcp'']) sample_label"
    by (simp add: label_parts_def sample_label_def sample_label_fields)
      (simp add: text_of_def as_bytes_def utf8_char_def is_control_def trim_def is_whitespace_def)
  then show "describes sample_label_line sample_label"
    unfolding describes_def sample_label_line_def by (intro exI conjI) (auto simp: text_of_def)
  show "length (as_bytes sample_label_text) \<le> 1000"
    by (simp add: as_bytes_def sample_label_text_def label_header_def sample_label_line_def text_of_def utf8_char_def)
  show "sample_label_line \<noteq> []" by (simp add: sample_label_line_def text_of_def)
  show "text_lines sample_label_text = [label_header, sample_label_line]" unfolding sample_label_text_def
    by (subst text_lines_two) (simp_all add: label_header_def sample_label_line_def text_of_def strip_cr_def)
qed

theorem labels_are_their_lines_witness: "parse_labels sample_label_text limits_default = Ok [sample_label]"
  using labels_are_their_lines [of sample_label_text limits_default "[sample_label]"] sample_label_accepted
  by (auto simp: limits_default_def)

end
