(* ===== verification/Label_Match.thy ===== *)
theory Label_Match
  imports Engine_Correct Labels_Correct
begin

text \<open>
  Matching labels to an analysis (\<^verbatim>\<open>correlate.rs\<close>, \<^verbatim>\<open>match_attempts\<close> and \<^verbatim>\<open>apply_labels\<close>).  The code indexes packets by
  endpoints and messages by packet; the theorem says that the result is what a direct search through the packets
  gives, and that labels are applied as a whole or not at all.
\<close>

section \<open>The code\<close>

definition label_tuple :: "endpoint \<Rightarrow> endpoint \<Rightarrow> string \<Rightarrow> endpoint \<times> endpoint \<times> string" where
  "label_tuple source destination transport =
     (if source \<le> destination then (source, destination, transport) else (destination, source, transport))"

definition packet_tuple :: "packet_observation \<Rightarrow> (endpoint \<times> endpoint \<times> string) option" where
  "packet_tuple p = (case (ob_source p, ob_destination p, ob_transport p) of
      (Some source, Some destination, Some transport) \<Rightarrow> Some (label_tuple source destination transport)
    | _ \<Rightarrow> None)"

text \<open>\<^verbatim>\<open>map.entry(key).or_default()\<close> followed by a push.\<close>

definition bt_list :: "('k::linorder \<times> 'v list) list \<Rightarrow> 'k \<Rightarrow> 'v list" where
  "bt_list m k = (case bt_get m k of Some vs \<Rightarrow> vs | None \<Rightarrow> [])"

definition bt_push :: "'k::linorder \<Rightarrow> 'v \<Rightarrow> ('k \<times> 'v list) list \<Rightarrow> ('k \<times> 'v list) list" where
  "bt_push k v m = bt_put k (bt_list m k @ [v]) m"

definition packet_tuples :: "packet_observation list \<Rightarrow> ((endpoint \<times> endpoint \<times> string) \<times> nat list) list" where
  "packet_tuples packets = fold (\<lambda>(index, p) m. case packet_tuple p of Some k \<Rightarrow> bt_push k index m | None \<Rightarrow> m)
     (enumerate 0 packets) []"

record match_books =
  mb_checks :: nat
  mb_messages :: "(packet_id \<times> message_ref list) list"

definition message_packets :: "application_data \<Rightarrow> packet_id list list" where
  "message_packets data = (case data of
      AppDnp3 d \<Rightarrow> map am_packets (dr_messages d)
    | AppModbus m \<Rightarrow> map (\<lambda>x. ev_packets (mm_raw x)) (mr_messages m)
    | AppFailed _ \<Rightarrow> [])"

definition note_message :: "limits \<Rightarrow> message_ref \<Rightarrow> match_books \<Rightarrow> packet_id \<Rightarrow> match_books result" where
  "note_message l ref s pid =
     (if mb_checks s + 1 > max_correlation_checks l then Err (error_limit ''correlation_checks'')
      else Ok \<lparr>mb_checks = mb_checks s + 1, mb_messages = bt_push pid ref (mb_messages s)\<rparr>)"

definition note_application :: "limits \<Rightarrow> match_books \<Rightarrow> nat \<times> application_analysis \<Rightarrow> match_books result" where
  "note_application l s = (\<lambda>(ai, ap).
     for_each (\<lambda>s (mi, pids). for_each (note_message l (MessageRef ai mi)) s pids) s (enumerate 0 (message_packets (ap_data ap))))"

record match_state =
  ms_checks :: nat
  ms_matched :: "packet_id list"
  ms_unresolved :: "packet_id list"
  ms_flows :: "nat list"
  ms_messages :: "message_ref list"

definition match_packet ::
    "analysis \<Rightarrow> (packet_id \<times> message_ref list) list \<Rightarrow> attempt_label \<Rightarrow> match_state \<Rightarrow> nat \<Rightarrow> match_state result" where
  "match_packet a messages label s index =
     (let budget = max_correlation_checks (cg_limits (an_config a)) in
      if ms_checks s + 1 > budget then Err (error_limit ''correlation_checks'')
      else and_then (index_at (an_packets a) index) (\<lambda>p.
        let s1 = s\<lparr>ms_checks := ms_checks s + 1\<rparr> in
        case packet_time (ob_metadata p) of
          None \<Rightarrow> Ok (s1\<lparr>ms_unresolved := ms_unresolved s1 @ [ob_id p]\<rparr>)
        | Some time \<Rightarrow>
            if al_start_ns label \<le> time \<and> time \<le> al_end_ns label
            then let s2 = s1\<lparr>ms_matched := ms_matched s1 @ [ob_id p],
                       ms_flows := (case ob_disposition p of DispTcp flow _ \<Rightarrow> ms_flows s1 @ [flow] | _ \<Rightarrow> ms_flows s1)\<rparr>
              in case bt_get messages (ob_id p) of
                  None \<Rightarrow> Ok s2
                | Some refs \<Rightarrow>
                    and_then (ok_or (error_limit ''correlation_checks'') (checked_add (ms_checks s2) (length refs))) (\<lambda>checks.
                      if checks > budget then Err (error_limit ''correlation_checks'')
                      else Ok (s2\<lparr>ms_checks := checks, ms_messages := ms_messages s2 @ refs\<rparr>))
            else Ok s1))"

definition match_status :: "packet_id list \<Rightarrow> packet_id list \<Rightarrow> string" where
  "match_status matched unresolved =
     (if matched \<noteq> [] then if unresolved = [] then ''candidate_evidence_found'' else ''candidates_and_unresolved_time''
      else if unresolved \<noteq> [] then ''insufficient_timestamp_evidence''
      else ''no_matching_evidence_in_supported_packets'')"

text \<open>The sets of flows and messages are collected in order.\<close>

definition match_label ::
    "analysis \<Rightarrow> ((endpoint \<times> endpoint \<times> string) \<times> nat list) list \<Rightarrow> (packet_id \<times> message_ref list) list
     \<Rightarrow> nat \<times> attempt_match list \<Rightarrow> attempt_label \<Rightarrow> (nat \<times> attempt_match list) result" where
  "match_label a tuples messages = (\<lambda>(checks, out) label.
     and_then (for_each (match_packet a messages label)
         \<lparr>ms_checks = checks, ms_matched = [], ms_unresolved = [], ms_flows = [], ms_messages = []\<rparr>
         (bt_list tuples (label_tuple (al_source label) (al_destination label) (al_transport label)))) (\<lambda>s.
       Ok (ms_checks s, out @ [\<lparr>at_attempt_id = al_id label, at_status = match_status (ms_matched s) (ms_unresolved s),
         at_matched_packets = ms_matched s, at_unresolved_packets = ms_unresolved s,
         at_flows = sort_dedup (ms_flows s), at_messages = sort_dedup (ms_messages s)\<rparr>])))"

definition match_attempts :: "analysis \<Rightarrow> attempt_label list \<Rightarrow> attempt_match list result" where
  "match_attempts a labels =
     (if length labels > max_labels (cg_limits (an_config a)) then Err (error_limit ''labels'')
      else let tuples = packet_tuples (an_packets a) in
      and_then (for_each (note_application (cg_limits (an_config a))) \<lparr>mb_checks = 0, mb_messages = []\<rparr>
          (enumerate 0 (an_applications a))) (\<lambda>books.
      and_then (for_each (match_label a tuples (mb_messages books)) (mb_checks books, []) labels) (\<lambda>(_, out). Ok out)))"

text \<open>The analysis is changed last, when nothing can fail any more.\<close>

definition apply_labels :: "analysis \<Rightarrow> scalars \<Rightarrow> analysis \<times> unit result" where
  "apply_labels a t =
     (case and_then (parse_labels t (cg_limits (an_config a))) (\<lambda>labels. match_attempts a labels) of
        Err e \<Rightarrow> (a, Err e)
      | Panic \<Rightarrow> (a, Panic)
      | Ok matches \<Rightarrow>
          (case sha256_digest (as_bytes t) of
             Ok digest \<Rightarrow> (a\<lparr>an_attempt_matches := matches, an_labels_sha256 := Some digest\<rparr>, Ok ())
           | Err e \<Rightarrow> (a\<lparr>an_attempt_matches := matches\<rparr>, Err e)
           | Panic \<Rightarrow> (a\<lparr>an_attempt_matches := matches\<rparr>, Panic)))"

section \<open>What a label matches\<close>

definition concerns :: "attempt_label \<Rightarrow> packet_observation \<Rightarrow> bool" where
  "concerns label p \<longleftrightarrow> (\<exists>s d. ob_source p = Some s \<and> ob_destination p = Some d \<and> {s, d} = {al_source label, al_destination label})
     \<and> ob_transport p = Some (al_transport label)"

definition within :: "attempt_label \<Rightarrow> packet_observation \<Rightarrow> bool" where
  "within label p \<longleftrightarrow> (\<exists>time. packet_time (ob_metadata p) = Some time \<and> al_start_ns label \<le> time \<and> time \<le> al_end_ns label)"

definition hits :: "analysis \<Rightarrow> attempt_label \<Rightarrow> packet_observation list" where
  "hits a label = filter (\<lambda>p. concerns label p \<and> within label p) (an_packets a)"

definition undated :: "analysis \<Rightarrow> attempt_label \<Rightarrow> packet_observation list" where
  "undated a label = filter (\<lambda>p. concerns label p \<and> packet_time (ob_metadata p) = None) (an_packets a)"

text \<open>The messages to which a packet contributed.\<close>

definition messages_of :: "analysis \<Rightarrow> packet_id \<Rightarrow> message_ref set" where
  "messages_of a pid = {MessageRef ai mi | ai mi. ai < length (an_applications a)
     \<and> mi < length (message_packets (ap_data (an_applications a ! ai)))
     \<and> pid \<in> set (message_packets (ap_data (an_applications a ! ai)) ! mi)}"

definition direct_match :: "analysis \<Rightarrow> attempt_label \<Rightarrow> attempt_match" where
  "direct_match a label = \<lparr>at_attempt_id = al_id label,
     at_status = match_status (map ob_id (hits a label)) (map ob_id (undated a label)),
     at_matched_packets = map ob_id (hits a label), at_unresolved_packets = map ob_id (undated a label),
     at_flows = sorted_list_of_set {f. \<exists>p \<in> set (hits a label). \<exists>d. ob_disposition p = DispTcp f d},
     at_messages = sorted_list_of_set (\<Union>p \<in> set (hits a label). messages_of a (ob_id p))\<rparr>"

section \<open>The indexes\<close>

lemma bt_list_push: "bt_list (bt_push k v m) k' = bt_list m k' @ (if k' = k then [v] else [])"
  by (simp add: bt_list_def bt_push_def bt_get_put)

lemma packet_tuples_list:
  "bt_list (packet_tuples packets) k = map fst (filter (\<lambda>(i, p). packet_tuple p = Some k) (enumerate 0 packets))"
proof -
  have "bt_list (fold (\<lambda>(index, p) m. case packet_tuple p of Some k \<Rightarrow> bt_push k index m | None \<Rightarrow> m) xs m) k
      = bt_list m k @ map fst (filter (\<lambda>(i, p). packet_tuple p = Some k) xs)" for xs and m :: "((endpoint \<times> endpoint \<times> string) \<times> nat list) list"
    by (induction xs arbitrary: m) (auto simp: bt_list_push split: option.split)
  then show ?thesis by (simp add: packet_tuples_def bt_list_def)
qed

lemma label_tuple_eq: "label_tuple s d t = label_tuple s' d' t' \<longleftrightarrow> {s, d} = {s', d'} \<and> t = t'"
  by (auto simp: label_tuple_def doubleton_eq_iff)

lemma concerns_tuple: "packet_tuple p = Some (label_tuple (al_source label) (al_destination label) (al_transport label)) \<longleftrightarrow> concerns label p"
  by (auto simp: packet_tuple_def concerns_def label_tuple_eq split: option.split)

lemma indexed_packets:
  "map (\<lambda>i. packets ! i) (map fst (filter (\<lambda>(i, p). P p) (enumerate 0 packets))) = filter P packets"
proof -
  have "map (\<lambda>i. packets ! i) (map fst (filter (\<lambda>(i, p). P p) (enumerate 0 packets))) = map snd (filter (\<lambda>(i, p). P p) (enumerate 0 packets))"
    by (auto simp: in_set_enumerate_eq)
  also have "\<dots> = filter P (map snd (enumerate 0 packets))" by (simp only: filter_map comp_def case_prod_unfold)
  finally show ?thesis by simp
qed

lemma sort_dedup_set: "sort_dedup xs = sorted_list_of_set (set xs)"
  using sort_dedup_strict [of xs] set_sort_dedup [of xs] by (metis sorted_list_of_set.idem_if_sorted_distinct strict_sorted_iff)

section \<open>The messages of the packets\<close>

lemma note_message_ok:
  "budgeted (note_message l ref s pid) (\<lambda>s'. \<forall>q. set (bt_list (mb_messages s') q) = set (bt_list (mb_messages s) q) \<union> (if q = pid then {ref} else {}))"
  by (auto simp: note_message_def bt_list_push)

lemma note_messages_ok:
  "budgeted (for_each (note_message l ref) s pids) (\<lambda>s'. \<forall>q. set (bt_list (mb_messages s') q)
     = set (bt_list (mb_messages s) q) \<union> (if q \<in> set pids then {ref} else {}))"
proof (rule budgeted_each [where P = "\<lambda>seen s'. \<forall>q. set (bt_list (mb_messages s') q) = set (bt_list (mb_messages s) q) \<union> (if q \<in> set seen then {ref} else {})"])
  fix seen x and t :: match_books
  assume "\<forall>q. set (bt_list (mb_messages t) q) = set (bt_list (mb_messages s) q) \<union> (if q \<in> set seen then {ref} else {})"
  then show "budgeted (note_message l ref t x) (\<lambda>s'. \<forall>q. set (bt_list (mb_messages s') q)
      = set (bt_list (mb_messages s) q) \<union> (if q \<in> set (seen @ [x]) then {ref} else {}))"
    by (intro budgeted_mono [OF note_message_ok]) auto
qed simp

definition app_messages :: "nat \<times> application_analysis \<Rightarrow> packet_id \<Rightarrow> message_ref set" where
  "app_messages x pid = {MessageRef (fst x) (fst y) | y. y \<in> set (enumerate 0 (message_packets (ap_data (snd x)))) \<and> pid \<in> set (snd y)}"

lemma note_application_ok:
  "budgeted (note_application l s x) (\<lambda>s'. \<forall>q. set (bt_list (mb_messages s') q) = set (bt_list (mb_messages s) q) \<union> app_messages x q)"
proof -
  let ?ms = "enumerate 0 (message_packets (ap_data (snd x)))"
  let ?refs = "\<lambda>seen q. {MessageRef (fst x) (fst y) | y. y \<in> set seen \<and> q \<in> set (snd y)}"
  have "budgeted (for_each (\<lambda>s (mi, pids). for_each (note_message l (MessageRef (fst x) mi)) s pids) s ?ms)
      (\<lambda>s'. \<forall>q. set (bt_list (mb_messages s') q) = set (bt_list (mb_messages s) q) \<union> ?refs ?ms q)"
  proof (rule budgeted_each [where P = "\<lambda>seen s'. \<forall>q. set (bt_list (mb_messages s') q) = set (bt_list (mb_messages s) q) \<union> ?refs seen q"])
    fix seen y and t :: match_books
    assume t: "\<forall>q. set (bt_list (mb_messages t) q) = set (bt_list (mb_messages s) q) \<union> ?refs seen q"
    have "?refs (seen @ [y]) q = ?refs seen q \<union> (if q \<in> set (snd y) then {MessageRef (fst x) (fst y)} else {})" for q
      by (cases y) auto
    then show "budgeted ((\<lambda>(mi, pids). for_each (note_message l (MessageRef (fst x) mi)) t pids) y)
        (\<lambda>s'. \<forall>q. set (bt_list (mb_messages s') q) = set (bt_list (mb_messages s) q) \<union> ?refs (seen @ [y]) q)"
      using t by (simp only: case_prod_unfold, intro budgeted_mono [OF note_messages_ok]) (simp add: Un_assoc)
  qed simp
  then show ?thesis by (simp add: note_application_def app_messages_def case_prod_unfold)
qed

lemma note_applications_ok:
  "budgeted (for_each (note_application l) \<lparr>mb_checks = 0, mb_messages = []\<rparr> (enumerate 0 (an_applications a)))
     (\<lambda>s. \<forall>q. set (bt_list (mb_messages s) q) = messages_of a q)"
proof -
  have "budgeted (for_each (note_application l) \<lparr>mb_checks = 0, mb_messages = []\<rparr> (enumerate 0 (an_applications a)))
     (\<lambda>s. \<forall>q. set (bt_list (mb_messages s) q) = (\<Union>x \<in> set (enumerate 0 (an_applications a)). app_messages x q))"
  proof (rule budgeted_each [where P = "\<lambda>seen s. \<forall>q. set (bt_list (mb_messages s) q) = (\<Union>x \<in> set seen. app_messages x q)"])
    fix seen x and t :: match_books
    assume "\<forall>q. set (bt_list (mb_messages t) q) = (\<Union>x \<in> set seen. app_messages x q)"
    then show "budgeted (note_application l t x) (\<lambda>s. \<forall>q. set (bt_list (mb_messages s) q) = (\<Union>x \<in> set (seen @ [x]). app_messages x q))"
      by (intro budgeted_mono [OF note_application_ok]) (simp add: Un_commute)
  qed (simp add: bt_list_def)
  moreover have "(\<Union>x \<in> set (enumerate 0 (an_applications a)). app_messages x q) = messages_of a q" for q
  proof (intro subset_antisym subsetI)
    fix ref
    assume "ref \<in> messages_of a q"
    then obtain ai mi where m: "ref = MessageRef ai mi" "ai < length (an_applications a)"
      "mi < length (message_packets (ap_data (an_applications a ! ai)))" "q \<in> set (message_packets (ap_data (an_applications a ! ai)) ! mi)"
      by (auto simp: messages_of_def)
    then have "ref \<in> app_messages (ai, an_applications a ! ai) q" "(ai, an_applications a ! ai) \<in> set (enumerate 0 (an_applications a))"
      by (auto simp: app_messages_def in_set_enumerate_eq)
    then show "ref \<in> (\<Union>x \<in> set (enumerate 0 (an_applications a)). app_messages x q)" by blast
  qed (auto simp: app_messages_def messages_of_def in_set_enumerate_eq)
  ultimately show ?thesis by simp
qed

section \<open>The packets of a label\<close>

definition progress :: "analysis \<Rightarrow> attempt_label \<Rightarrow> nat list \<Rightarrow> match_state \<Rightarrow> bool" where
  "progress a label seen s \<longleftrightarrow> (let ps = map (\<lambda>i. an_packets a ! i) seen; hit = filter (within label) ps in
     ms_matched s = map ob_id hit \<and> ms_unresolved s = map ob_id (filter (\<lambda>p. packet_time (ob_metadata p) = None) ps)
     \<and> set (ms_flows s) = {f. \<exists>p \<in> set hit. \<exists>d. ob_disposition p = DispTcp f d}
     \<and> set (ms_messages s) = (\<Union>p \<in> set hit. messages_of a (ob_id p)))"

lemma match_packet_ok:
  assumes m: "\<forall>q. set (bt_list messages q) = messages_of a q" and i: "i < length (an_packets a)" and s: "progress a label seen s"
  shows "budgeted (match_packet a messages label s i) (progress a label (seen @ [i]))"
proof -
  let ?p = "an_packets a ! i"
  have refs: "messages_of a (ob_id ?p) = (case bt_get messages (ob_id ?p) of Some refs \<Rightarrow> set refs | None \<Rightarrow> {})"
    using m [rule_format, of "ob_id ?p"] by (cases "bt_get messages (ob_id ?p)") (simp_all add: bt_list_def)
  have flows: "{f. \<exists>d. ob_disposition ?p = DispTcp f d} = (case ob_disposition ?p of DispTcp f _ \<Rightarrow> {f} | _ \<Rightarrow> {})"
    by (auto split: disposition.split)
  show ?thesis
  proof (cases "packet_time (ob_metadata ?p)")
    case None
    then show ?thesis using i s by (auto simp: match_packet_def Let_def progress_def within_def)
  next
    case (Some time)
    show ?thesis
    proof (cases "al_start_ns label \<le> time \<and> time \<le> al_end_ns label")
      case False
      then show ?thesis using i s Some by (auto simp: match_packet_def Let_def progress_def within_def)
    next
      case True
      then have w: "within label ?p" using Some by (simp add: within_def)
      have new: "progress a label (seen @ [i]) s'" if "ms_matched s' = ms_matched s @ [ob_id ?p]" "ms_unresolved s' = ms_unresolved s"
        "set (ms_flows s') = set (ms_flows s) \<union> {f. \<exists>d. ob_disposition ?p = DispTcp f d}"
        "set (ms_messages s') = set (ms_messages s) \<union> messages_of a (ob_id ?p)" for s'
        using that s w Some by (auto simp: progress_def Let_def)
      show ?thesis
      proof (cases "bt_get messages (ob_id ?p)")
        case None
        then show ?thesis using i True Some refs flows
          by (auto simp: match_packet_def Let_def intro!: new split: disposition.split)
      next
        case (Some rs)
        then show ?thesis using i True \<open>packet_time (ob_metadata ?p) = Some time\<close> refs flows
          by (auto simp: match_packet_def Let_def intro!: new budgeted_then [where P = "\<lambda>_. True"] split: disposition.split)
      qed
    qed
  qed
qed

lemma match_label_ok:
  assumes m: "\<forall>q. set (bt_list messages q) = messages_of a q"
  shows "budgeted (match_label a (packet_tuples (an_packets a)) messages (checks, out) label) (\<lambda>(_, out'). out' = out @ [direct_match a label])"
proof -
  let ?k = "label_tuple (al_source label) (al_destination label) (al_transport label)"
  define found where "found = bt_list (packet_tuples (an_packets a)) ?k"
  have found: "map (\<lambda>i. an_packets a ! i) found = filter (concerns label) (an_packets a)" "\<forall>i \<in> set found. i < length (an_packets a)"
    unfolding found_def packet_tuples_list concerns_tuple indexed_packets by (auto simp: in_set_enumerate_eq)
  let ?s = "\<lparr>ms_checks = checks, ms_matched = [], ms_unresolved = [], ms_flows = [], ms_messages = []\<rparr>"
  have run: "budgeted (for_each (match_packet a messages label) ?s found) (progress a label found)"
    by (rule budgeted_each [where P = "progress a label"]) (auto simp: progress_def found(2) intro!: match_packet_ok [OF m])
  have all: "filter (within label) (map (\<lambda>i. an_packets a ! i) found) = hits a label"
    "filter (\<lambda>p. packet_time (ob_metadata p) = None) (map (\<lambda>i. an_packets a ! i) found) = undated a label"
    unfolding found(1) by (simp_all add: hits_def undated_def conj_commute)
  from run show ?thesis
    unfolding match_label_def case_prod_conv found_def [symmetric] progress_def Let_def all
    by (rule budgeted_then) (simp add: direct_match_def sort_dedup_set)
qed

lemma match_attempts_ok: "budgeted (match_attempts a labels) (\<lambda>out. out = map (direct_match a) labels)"
proof -
  let ?l = "cg_limits (an_config a)" and ?t = "packet_tuples (an_packets a)"
  have labels: "budgeted (for_each (match_label a ?t messages) (checks, []) labels) (\<lambda>(_, out). out = map (direct_match a) labels)"
    if m: "\<forall>q. set (bt_list messages q) = messages_of a q" for messages checks
  proof (rule budgeted_each [where P = "\<lambda>seen (_ :: nat, out). out = map (direct_match a) seen"])
    fix seen x and s :: "nat \<times> attempt_match list"
    assume s: "(\<lambda>(_, out). out = map (direct_match a) seen) s"
    obtain n out where "s = (n, out)" by fastforce
    then show "budgeted (match_label a ?t messages s x) (\<lambda>(_, out). out = map (direct_match a) (seen @ [x]))"
      using s match_label_ok [OF m, of n out x] by simp
  qed simp
  have "budgeted (and_then (for_each (note_application ?l) \<lparr>mb_checks = 0, mb_messages = []\<rparr> (enumerate 0 (an_applications a))) (\<lambda>books.
      and_then (for_each (match_label a ?t (mb_messages books)) (mb_checks books, []) labels) (\<lambda>(_, out). Ok out)))
     (\<lambda>out. out = map (direct_match a) labels)"
    by (rule budgeted_then [OF note_applications_ok], rule budgeted_then [OF labels]) auto
  then show ?thesis by (simp add: match_attempts_def Let_def)
qed

text \<open>
  C17: Labels are applied as a whole or not at all.  Applying a label file never panics.  When it fails, with a label
  error or an exhausted budget, the analysis is unchanged.  When it succeeds, the file parses to some labels, its
  digest is recorded, and there is one result per label, in order: the packets between the label's endpoints in
  either direction and of its transport whose exact time lies in its inclusive interval, in capture order; apart
  from them those without an exact time; and, sorted and without repetition, the flows the matched packets were
  assigned to and the messages they contributed to.\<close>

theorem labels_apply_all_or_nothing:
  assumes "apply_labels a t = (a', r)"
  shows "(\<exists>e. r = Err e \<and> err_code e \<in> {InvalidLabel, LimitExceeded} \<and> a' = a)
    \<or> (\<exists>labels. r = Ok () \<and> parse_labels t (cg_limits (an_config a)) = Ok labels
         \<and> a' = a\<lparr>an_attempt_matches := map (direct_match a) labels, an_labels_sha256 := Some (fips_sha256 (as_bytes t))\<rparr>)"
proof (cases "parse_labels t (cg_limits (an_config a))")
  case (Ok labels)
  then show ?thesis using assms match_attempts_ok [of a labels]
    by (cases "match_attempts a labels") (auto simp: apply_labels_def)
next
  case (Err e)
  then show ?thesis using assms parse_labels_error [of t "cg_limits (an_config a)"] by (auto simp: apply_labels_def label_error_def)
next
  case Panic
  then show ?thesis using parse_labels_error [of t "cg_limits (an_config a)"] by (simp add: label_error_def)
qed

text \<open>A sample: an analysis of one packet between the endpoints of the sample label, in the other direction and within its interval.\<close>

definition sample_observed :: packet_observation where
  "sample_observed = \<lparr>ob_id = PacketId [] 1 24, ob_metadata = \<lparr>pm_frame = 1, pm_section = 0, pm_interface = 0, pm_link_type = 1,
       captured_len = 0, original_len = 0, data_offset = 0, pm_timestamp = Some \<lparr>ticks = 1, ts_resolution = Decimal 9, offset_seconds = 0\<rparr>\<rparr>,
     ob_sha256 = [], ob_source = Some (al_destination sample_label), ob_destination = Some (al_source sample_label),
     ob_transport = Some ''tcp'', ob_disposition = DispTcp 3 0, ob_warnings = []\<rparr>"

definition sample_analysis :: analysis where
  "sample_analysis = \<lparr>an_capture_sha256 = [], an_labels_sha256 = None, an_capture_bytes = 0, an_config = config_default, an_records = 1,
     an_metadata_records = 0, an_secret_blocks = 0, an_packets = [sample_observed], an_flows = [], an_applications = [], an_datagrams = [],
     an_fragment_notices = [], an_transactions = [], an_confirmations = [], an_confirmation_error = None, an_attempt_matches = [],
     an_correlation_error = None\<rparr>"

lemma sample_observed_hit: "concerns sample_label sample_observed" "packet_time (ob_metadata sample_observed) = Some 1"
  by (auto simp: concerns_def sample_observed_def sample_label_def packet_time_def unix_nanos_def in_i128_def)

theorem labels_apply_all_or_nothing_witness:
  "\<exists>a' m. apply_labels sample_analysis sample_label_text = (a', Ok ()) \<and> an_attempt_matches a' = [m]
     \<and> at_status m = ''candidate_evidence_found'' \<and> at_matched_packets m = [PacketId [] 1 24] \<and> at_flows m = [3]"
proof -
  have parsed: "parse_labels sample_label_text limits_default = Ok [sample_label]"
    using parse_labels_Ok [of sample_label_text limits_default "[sample_label]"] sample_label_accepted by (auto simp: limits_default_def)
  have lim: "cg_limits (an_config sample_analysis) = limits_default" by (simp add: sample_analysis_def config_default_def)
  have tuple: "packet_tuple sample_observed
      = Some (label_tuple (al_source sample_label) (al_destination sample_label) (al_transport sample_label))"
    using sample_observed_hit(1) by (simp add: concerns_tuple)
  have "\<exists>out. match_attempts sample_analysis [sample_label] = Ok out"
    using tuple sample_observed_hit(2)
    by (simp add: match_attempts_def match_label_def match_packet_def packet_tuples_list sample_analysis_def config_default_def limits_default_def
        Let_def)
  then obtain a' where a: "apply_labels sample_analysis sample_label_text = (a', Ok ())"
    using parsed lim by (auto simp: apply_labels_def)
  have hits: "hits sample_analysis sample_label = [sample_observed]" "undated sample_analysis sample_label = []"
    using sample_observed_hit by (simp_all add: hits_def undated_def within_def sample_analysis_def sample_label_def)
  have "an_attempt_matches a' = [direct_match sample_analysis sample_label]"
    using labels_apply_all_or_nothing [OF a] parsed lim by auto
  moreover have "{f. \<exists>d. ob_disposition sample_observed = DispTcp f d} = {3}" by (auto simp: sample_observed_def)
  ultimately show ?thesis using a hits by (simp add: direct_match_def match_status_def) (simp add: sample_observed_def)
qed

end
