(* ===== verification/Spec2Isabelle.thy ===== *)
theory Spec2Isabelle
  imports Writer_Ng Engine_Runs Label_Match
begin

text \<open>
  A verification development for the packet-capture analyser in \<^verbatim>\<open>src/\<close> (the core crate, \<^verbatim>\<open>src/src\<close>).

  \<^bold>\<open>The program.\<close>  The analyser reads a capture file (classic PCAP or PCAPNG), decodes every packet down to
  its transport payload, reassembles IP fragments, reconstructs TCP streams, and decodes industrial
  protocols from streams and datagrams.  Its guiding promise is provenance: every byte it reports can be
  traced to an offset of a captured packet, nothing is invented for bytes that are missing, and every
  resource it uses is bounded by a configured limit.  The data flow is
    capture decoding \<open>\<rightarrow>\<close> wire decoding \<open>\<rightarrow>\<close> fragment reassembly \<open>\<rightarrow>\<close> TCP reconstruction
    \<open>\<rightarrow>\<close> DNP3 and Modbus decoding \<open>\<rightarrow>\<close> correlation,
  with evidence (bytes with their source spans) handed from stage to stage.

  \<^bold>\<open>How the code is modelled.\<close>  A fallible function returns an outcome: a value, an error value, or a
  panic; slice indices out of range and underflowing subtractions are panics, so that the absence of
  panics is a theorem.  Structs are records, enums are datatypes, \<^verbatim>\<open>u8\<close> to \<^verbatim>\<open>u64\<close> that wrap are words,
  \<^verbatim>\<open>usize\<close> and file offsets are natural numbers with the checks against \<open>2 ^ 64\<close> the code makes, stream
  offsets and times are integers.  A method that changes its receiver returns the new state, beside its
  result where it changes state on error paths as well.  \<^verbatim>\<open>BTreeMap\<close> is a sorted association list.

  \<^bold>\<open>Theories.\<close>
  \<^item> \<^verbatim>\<open>Prelude\<close>, \<^verbatim>\<open>Ordered_Map\<close>, \<^verbatim>\<open>Byte_Order\<close>: outcomes, checked arithmetic, slices; the ordered-map interface
    as a locale, interpreted on sorted association lists; reading and writing integers in either byte order.
  \<^item> \<^verbatim>\<open>Errors\<close> (\<^verbatim>\<open>error.rs\<close>, \<^verbatim>\<open>limits.rs\<close>): error codes and values, the limits and their validation.
  \<^item> \<^verbatim>\<open>Checksum\<close> (\<^verbatim>\<open>checksum.rs\<close>): the incremental Internet checksum equals the one of RFC 1071 for every
    split of the data.
  \<^item> \<^verbatim>\<open>Timestamps\<close> (\<^verbatim>\<open>time.rs\<close>): conversion to nanoseconds is exact or refused; classic PCAP parts round-trip.
  \<^item> \<^verbatim>\<open>Provenance\<close> (\<^verbatim>\<open>provenance.rs\<close>): evidence as an abstract store of traced bytes (a locale, interpreted on
    the code's span lists); slicing and appending are slicing and appending of traces.
  \<^item> \<^verbatim>\<open>Capture\<close>, \<^verbatim>\<open>Capture_Safety\<close>, \<^verbatim>\<open>Capture_Extend\<close>, \<^verbatim>\<open>Capture_Streams\<close> (\<^verbatim>\<open>capture.rs\<close>): the decoder of both
    formats, the iterator and the incremental reader; no input makes it panic, decoding is stable under more
    input, records partition the input, and incremental reading yields what decoding the whole buffer yields.
  \<^item> \<^verbatim>\<open>Writer\<close>, \<^verbatim>\<open>Writer_Roundtrip\<close>, \<^verbatim>\<open>Writer_Ng\<close> (\<^verbatim>\<open>writer.rs\<close>): both writers over a sink that may fail; what they
    wrote decodes to what was written; a failed write poisons the writer; the archival copy is exact.
  \<^item> \<^verbatim>\<open>Sha256\<close>, \<^verbatim>\<open>Sha256_Correct\<close> (\<^verbatim>\<open>sha256.rs\<close>): the incremental hash gives the FIPS 180-4 digest of the whole
    for every split of the data.
  \<^item> \<^verbatim>\<open>Capture_Index\<close>, \<^verbatim>\<open>Capture_Index_Correct\<close> (\<^verbatim>\<open>index.rs\<close>): the packet index and its sidecar; a sidecar loads
    exactly when it encodes the index of the capture, and queries by frame and time are exact.
  \<^item> \<^verbatim>\<open>Wire\<close>, \<^verbatim>\<open>Wire_Safety\<close> (\<^verbatim>\<open>wire.rs\<close>): link, VLAN, IPv4, IPv6, TCP and UDP decoding; no panic, payloads are
    ranges of the packet with the right provenance, required checksums hold over exactly the segment returned.
  \<^item> \<^verbatim>\<open>Fragment\<close>, \<^verbatim>\<open>Fragment_Correct\<close>, \<^verbatim>\<open>Fragment_Runs\<close> (\<^verbatim>\<open>fragment.rs\<close>): the reassembler and its invariant; over
    every run (an inductive relation) a completed payload is the bytes all its fragments agree on, conflicting
    fragments are quarantined, complete datagrams are not held back, expiry removes exactly the overdue sets.
  \<^item> \<^verbatim>\<open>Tcp_Stream\<close>, \<^verbatim>\<open>Tcp_Stream_Correct\<close>, \<^verbatim>\<open>Tcp_Stream_Runs\<close> (\<^verbatim>\<open>tcp.rs\<close>, first half): sequence arithmetic and the
    sweep over segment boundaries; the reconstruction is the one the overlap policy specifies.
  \<^item> \<^verbatim>\<open>Tcp_Tracker\<close>, \<^verbatim>\<open>Tcp_Tracker_Runs\<close> (\<^verbatim>\<open>tcp.rs\<close>, second half): assignment of segments to flows and
    generations and the final replay; books are exact in every run, refused segments change nothing, closed
    flows take only their final acknowledgement, every reported stream is the reconstruction of all payloads
    of its flow and direction.
  \<^item> \<^verbatim>\<open>Dnp3_Link\<close>, \<^verbatim>\<open>Dnp3_Link_Correct\<close> (\<^verbatim>\<open>dnp3.rs\<close>, link layer; \<^verbatim>\<open>semantics/dnp3_workflow.rs\<close>, the request rules):
    link frames with their checksums; a frame with any data and valid header is decoded back to it.
  \<^item> \<^verbatim>\<open>Dnp3\<close>, \<^verbatim>\<open>Dnp3_Correct\<close>, \<^verbatim>\<open>Dnp3_Runs\<close> (\<^verbatim>\<open>dnp3.rs\<close>, transport and application layers): the decoder over a
    reconstructed stream, its invariant, no panic; fragments are runs of consecutive transport segments and
    messages are runs of consecutive application fragments.
  \<^item> \<^verbatim>\<open>Modbus\<close>, \<^verbatim>\<open>Modbus_Correct\<close> (\<^verbatim>\<open>modbus.rs\<close>): the decoder equals a reference framing of every chunk; a
    response is matched to a request only if it answers it.
  \<^item> \<^verbatim>\<open>Probes\<close>, \<^verbatim>\<open>Probes_Correct\<close> (\<^verbatim>\<open>protocol.rs\<close>): the probe registry; what a probe promises, as a locale
    interpreted on both probes; the DNP3 probe matches exactly when the link parser accepts.
  \<^item> \<^verbatim>\<open>Detection\<close> (\<^verbatim>\<open>detection.rs\<close>, \<^verbatim>\<open>datagram.rs\<close>, the configuration of \<^verbatim>\<open>engine.rs\<close>): selection of the protocols of
    a flow by content and configured port with the reported basis, and DNP3 over UDP.
  \<^item> \<^verbatim>\<open>Dnp3_Witness\<close>, \<^verbatim>\<open>Dnp3_Witness_Correct\<close> (\<^verbatim>\<open>semantics/dnp3_workflow.rs\<close>, the verification of fragments and messages): the
    checks of a fragment against its link frames, as computations that charge a work budget; they never panic,
    their verdict does not depend on the work spent before unless they run into the limit, and what a verified fragment carries is stated in terms of its frames.
  \<^item> \<^verbatim>\<open>Correlate\<close>, \<^verbatim>\<open>Correlate_Correct\<close> (\<^verbatim>\<open>correlate.rs\<close>, transactions): grouping by protocol identifiers; every message
    is in one transaction, and a candidate pair is unambiguous: the only request and the only response of the query with
    its capture, flow and identifiers.
  \<^item> \<^verbatim>\<open>Confirmations\<close>, \<^verbatim>\<open>Confirmations_Correct\<close> (\<^verbatim>\<open>correlate/dnp3_confirmations.rs\<close>): DNP3 confirmations and the responses
    they confirm; every fragment is accounted for, and a confirmation is unambiguous.
  \<^item> \<^verbatim>\<open>Engine\<close>, \<^verbatim>\<open>Engine_Correct\<close>, \<^verbatim>\<open>Engine_Runs\<close> (\<^verbatim>\<open>engine.rs\<close>): the pipeline over a capture.  The invariant says that every
    packet without a terminal disposition is held by the reassembler, and that every assigned packet is listed by
    its flow; it holds from record to record, so the analysis accounts for every packet and fails only on its
    input or a budget.
  \<^item> \<^verbatim>\<open>Labels\<close>, \<^verbatim>\<open>Labels_Correct\<close>, \<^verbatim>\<open>Label_Match\<close> (\<^verbatim>\<open>correlate.rs\<close>, labels): the strict label format with the library functions
    it is parsed with, and matching labels to packets; the parser accepts exactly the well-formed files, and the
    matches are those of a direct search.
  \<^item> \<^verbatim>\<open>Stream_Decoder\<close>, \<^verbatim>\<open>Protocols\<close>: what a decoder of reconstructed streams promises, as a locale, and its
    interpretations on both decoders; this theory composes them with the tracker.

  \<^bold>\<open>Bounds and fuel.\<close>  No definition uses fuel.  Loops are structural recursion or have a measure (the input
  left, the deadlines left); the incremental reader, which waits for a source that the program does not
  control, is a partial function into an option, and its termination is proved for every source that
  eventually delivers its bytes.

  \<^bold>\<open>Not modelled.\<close>  Allocation failure (\<^verbatim>\<open>try_reserve\<close>) and the operating system's text of an I/O error; the
  additions of file offsets inside error values, which no input within the size limits overflows; the
  descriptive reports of \<^verbatim>\<open>semantics/\<close> over object bytes; JSON values; report,
  publication and the command line, which are input and output around this core; the separate crates
  under \<^verbatim>\<open>src/streaming\<close>, \<^verbatim>\<open>src/history\<close> and \<^verbatim>\<open>src/product\<close>.
\<close>

section \<open>From the tracker to the protocol decoders\<close>

text \<open>
  C9: Decoding what the tracker reports.  Take any run of the tracker and a stream it reports for a flow
  and direction with payload.  Then neither protocol decoder panics on it, and every byte of every DNP3
  frame and every Modbus message it finds there is the byte that the overlap policy delivers, at that
  stream offset, from the payloads assigned to that flow and direction, with the packet and the offset
  in the packet it was captured at.\<close>

theorem decoded_bytes_are_assigned_payload:
  assumes "tk_run l idle t" and "tracker_finish t policy = Ok rs" and "i < length rs" and "d < 2"
    and "arr_get (fo_streams (rs ! i)) d = Some res" and "payloads d (fl_inputs (tk_flows t ! i)) \<noteq> []"
  shows "\<exists>base segs. sr_base res = Some base \<and> placed (Some base) (payloads d (fl_inputs (tk_flows t ! i))) segs
    \<and> (\<forall>limits. dnp3_decode res limits \<noteq> Panic \<and> (\<forall>out f k. dnp3_decode res limits = Ok out \<and> f \<in> set (dr_frames out)
          \<and> k < ev_len (lf_raw f) \<longrightarrow> delivers policy segs (lf_stream_offset f + int k) (ev_trace (lf_raw f) ! k)))
    \<and> (\<forall>limits role. modbus_decode res role limits \<noteq> Panic \<and> (\<forall>out m k. modbus_decode res role limits = Ok out
          \<and> m \<in> set (mr_messages out) \<and> k < ev_len (mm_raw m)
          \<longrightarrow> delivers policy segs (mm_stream_offset m + int k) (ev_trace (mm_raw m) ! k)))"
proof -
  obtain s where s: "sa_run (arr_get (fl_syn (tk_flows t ! i)) d) (tk_limits t) (payloads d (fl_inputs (tk_flows t ! i))) s"
    "stream_finish s policy = Ok res"
    using finished_flows [OF assms(1), of policy] assms(2-5) by (metis outcome.inject(1))
  have i64: "i64_chunks res" by (rule reconstructed_offsets(1) [OF s(1) assms(6) s(2)])
  obtain base segs lo hi where r: "sr_base res = Some base" "placed (Some base) (payloads d (fl_inputs (tk_flows t ! i))) segs"
    "reconstructs policy segs lo hi res"
    using reconstructed_offsets(2) [OF s(1) assms(6) s(2)] by blast
  have "delivers policy segs (lf_stream_offset f + int k) (ev_trace (lf_raw f) ! k)"
    if "dnp3_decode res limits = Ok out" "f \<in> set (dr_frames out)" "k < ev_len (lf_raw f)" for limits out f k
    using that by (intro dnp3.items_delivered [OF i64 r(3) that(1)]) (auto simp: dnp3_items_def)
  moreover have "delivers policy segs (mm_stream_offset m + int k) (ev_trace (mm_raw m) ! k)"
    if "modbus_decode res role limits = Ok out" "m \<in> set (mr_messages out)" "k < ev_len (mm_raw m)" for limits role out m k
    using that by (intro modbus.items_delivered [OF i64 r(3) that(1)]) (auto simp: modbus_items_def)
  ultimately show ?thesis using r(1,2) dnp3.decode_total [OF i64] modbus.decode_total [OF i64] by blast
qed

theorem decoded_bytes_are_assigned_payload_witness:
  "\<exists>rs res. tracker_finish (sample_tracker 1) FirstObserved = Ok rs \<and> arr_get (fo_streams (rs ! 0)) 0 = Some res
     \<and> sr_base res \<noteq> None \<and> dnp3_decode res limits_default \<noteq> Panic \<and> modbus_decode res RoleRequest limits_default \<noteq> Panic"
proof -
  obtain rs res where rs: "tracker_finish (sample_tracker 1) FirstObserved = Ok rs" "length rs = 1"
    "arr_get (fo_streams (rs ! 0)) 0 = Some res"
    using sample_report by blast
  have "payloads 0 (fl_inputs (tk_flows (sample_tracker 1) ! 0)) \<noteq> []"
    by (simp add: sample_tracker_def tracker_eval payloads_def)
  with decoded_bytes_are_assigned_payload [OF sample_tracker_run(2) rs(1) _ _ rs(3)] rs(2)
  obtain base where "sr_base res = Some base" "dnp3_decode res limits_default \<noteq> Panic"
    "modbus_decode res RoleRequest limits_default \<noteq> Panic" by auto
  then show ?thesis using rs by auto
qed

end
